(* ===== verification/Prelude.thy ===== *)
theory Prelude
  imports Main "HOL-Library.Word" "HOL-Library.AList" "HOL-Library.Char_ord"
begin

section \<open>Shared vocabulary of the development\<close>

text \<open>
  This theory holds what several components of the helper use: the byte and
  identifier types, Go's unsigned 64-bit arithmetic on natural numbers with the
  wrap-around written out, association lists standing for Go maps, contiguous
  runs of output, big-endian integers and the collections of simplification
  rules the component theories extend.

  A Go \<open>uint64\<close> is a natural number below \<open>2 ^ 64\<close>.  Additions and
  subtractions that the code performs are \<open>u64_add\<close> and \<open>u64_sub\<close>; they
  wrap, and the components prove where they do not.  A Go map is an association
  list with distinct keys: its order is one of the iteration orders the runtime
  may choose, and every lemma holds for all of them.
\<close>

named_theorems u64 \<open>facts that turn wrapping arithmetic into ordinary arithmetic\<close>
named_theorems step_defs \<open>definitions of the operations of the current component\<close>
named_theorems inv_intros \<open>preservation of the component invariants\<close>

type_synonym byte = "8 word"
type_synonym bytes = "byte list"

subsection \<open>Signed 64-bit arithmetic\<close>

text \<open>The \<open>int64\<close> that an exact result wraps to.\<close>

definition i64_wrap :: "int \<Rightarrow> int" where
  "i64_wrap x = (x + 2 ^ 63) mod 2 ^ 64 - 2 ^ 63"

subsection \<open>Unsigned 64-bit arithmetic\<close>

definition u64_limit :: nat where
  "u64_limit = 2 ^ 64"

definition u64_add :: "nat \<Rightarrow> nat \<Rightarrow> nat" where
  "u64_add a b = (a + b) mod u64_limit"

definition u64_sub :: "nat \<Rightarrow> nat \<Rightarrow> nat" where
  "u64_sub a b = (if b \<le> a then a - b else (u64_limit + a - b) mod u64_limit)"

lemma u64_limit_pos [simp]: "0 < u64_limit"
  by (simp add: u64_limit_def)

lemma u64_add_small [u64]: "a + b < u64_limit \<Longrightarrow> u64_add a b = a + b"
  by (simp add: u64_add_def)

lemma u64_add_bound: "u64_add a b < u64_limit"
  by (simp add: u64_add_def)

lemma u64_sub_le [u64, simp]: "b \<le> a \<Longrightarrow> u64_sub a b = a - b"
  by (simp add: u64_sub_def)

lemma u64_sub_add_cancel:
  assumes "a < u64_limit" and "b < u64_limit"
  shows "u64_add (u64_sub a b) b = a"
proof (cases "b \<le> a")
  case True
  then show ?thesis using assms by (simp add: u64_add_def)
next
  case False
  then have "(u64_limit + a - b) mod u64_limit = u64_limit + a - b"
    using assms by simp
  then show ?thesis using False assms by (simp add: u64_sub_def u64_add_def)
qed

subsection \<open>Go maps as association lists\<close>

type_synonym 'v gomap = "(string \<times> 'v) list"

definition keys_distinct :: "('k \<times> 'v) list \<Rightarrow> bool" where
  "keys_distinct m \<longleftrightarrow> distinct (map fst m)"

lemma keys_distinct_Nil [simp]: "keys_distinct []"
  by (simp add: keys_distinct_def)

lemma keys_distinct_Cons [simp]:
  "keys_distinct ((k, v) # m) \<longleftrightarrow> k \<notin> fst ` set m \<and> keys_distinct m"
  by (auto simp: keys_distinct_def)

lemma keys_distinct_update [simp, intro]: "keys_distinct m \<Longrightarrow> keys_distinct (AList.update k v m)"
  by (simp add: keys_distinct_def distinct_update)

lemma keys_distinct_delete [simp, intro]: "keys_distinct m \<Longrightarrow> keys_distinct (AList.delete k m)"
  by (simp add: keys_distinct_def distinct_delete)

lemma keys_distinct_map_val [simp]:
  "keys_distinct (map (\<lambda>(k, v). (k, f k v)) m) \<longleftrightarrow> keys_distinct m"
proof -
  have "map fst (map (\<lambda>(k, v). (k, f k v)) m) = map fst m" by auto
  then show ?thesis by (simp only: keys_distinct_def)
qed

lemma keys_distinct_filter [simp, intro]: "keys_distinct m \<Longrightarrow> keys_distinct (filter P m)"
  by (simp add: keys_distinct_def distinct_map_filter)

lemma map_of_update [simp]: "map_of (AList.update k v m) = (map_of m)(k \<mapsto> v)"
  by (rule update_conv')

lemma map_of_delete [simp]: "map_of (AList.delete k m) = (map_of m)(k := None)"
  by (rule delete_conv')

lemma map_of_map_val:
  "map_of (map (\<lambda>(k, v). (k, f k v)) m) x = map_option (f x) (map_of m x)"
  by (induction m) auto

lemma map_of_eq_Some_iff_in:
  "keys_distinct m \<Longrightarrow> map_of m k = Some v \<longleftrightarrow> (k, v) \<in> set m"
  by (simp add: keys_distinct_def)

lemma length_update_le: "length (AList.update k v m) \<le> Suc (length m)"
  by (induction m) auto

lemma length_update_new: "map_of m k = None \<Longrightarrow> length (AList.update k v m) = Suc (length m)"
  by (induction m) (auto split: if_splits)

lemma length_update_old: "map_of m k = Some w \<Longrightarrow> length (AList.update k v m) = length m"
  by (induction m) (auto split: if_splits)

lemma set_update_distinct:
  "keys_distinct m \<Longrightarrow> set (AList.update k v m) = insert (k, v) {p \<in> set m. fst p \<noteq> k}"
  by (induction m) (force simp: image_iff)+

lemma set_update_subset: "set (AList.update k v m) \<subseteq> insert (k, v) (set m)"
  by (induction m) auto

lemma update_fresh: "map_of m k = None \<Longrightarrow> AList.update k v m = m @ [(k, v)]"
  by (induction m) (auto split: if_splits)

lemma set_delete_filter: "set (AList.delete k m) = {p \<in> set m. fst p \<noteq> k}"
  by (auto simp: AList.delete_eq)

subsection \<open>Lists\<close>

lemma drop_eq_nth_Cons: "i < length xs \<Longrightarrow> drop i xs = xs ! i # drop (Suc i) xs"
  by (simp add: Cons_nth_drop_Suc)

lemma take_drop_append_slice:
  "a \<le> b \<Longrightarrow> b \<le> c \<Longrightarrow> take (b - a) (drop a xs) @ take (c - b) (drop b xs) = take (c - a) (drop a xs)"
proof -
  assume "a \<le> b" "b \<le> c"
  then have "c - a = (b - a) + (c - b)" and "drop b xs = drop (b - a) (drop a xs)" by simp_all
  then show ?thesis by (simp only: take_add)
qed

subsection \<open>Runs of a component\<close>

text \<open>
  A component is driven by a sequence of operations.  \<open>run\<close> is the state they
  lead to, \<open>trace\<close> what they emit on the way.  The locale states once that an
  invariant relating the state to everything emitted so far, kept by every
  operation, holds after every run; each component interprets it.
\<close>

fun run :: "('s \<Rightarrow> 'o \<Rightarrow> 's) \<Rightarrow> 's \<Rightarrow> 'o list \<Rightarrow> 's" where
  "run step s [] = s"
| "run step s (x # xs) = run step (step s x) xs"

fun trace :: "('s \<Rightarrow> 'o \<Rightarrow> 's) \<Rightarrow> ('s \<Rightarrow> 'o \<Rightarrow> 'b list) \<Rightarrow> 's \<Rightarrow> 'o list \<Rightarrow> 'b list" where
  "trace step emit s [] = []"
| "trace step emit s (x # xs) = emit s x @ trace step emit (step s x) xs"

lemma run_append [simp]: "run step s (xs @ ys) = run step (run step s xs) ys"
  by (induction xs arbitrary: s) auto

lemma trace_append [simp]:
  "trace step emit s (xs @ ys) = trace step emit s xs @ trace step emit (run step s xs) ys"
  by (induction xs arbitrary: s) auto

locale traced_machine =
  fixes step :: "'s \<Rightarrow> 'o \<Rightarrow> 's"
    and emit :: "'s \<Rightarrow> 'o \<Rightarrow> 'b list"
    and inv :: "'s \<Rightarrow> 'b list \<Rightarrow> bool"
  assumes step_inv: "inv s T \<Longrightarrow> inv (step s x) (T @ emit s x)"
begin

lemma run_inv: "inv s T \<Longrightarrow> inv (run step s xs) (T @ trace step emit s xs)"
proof (induction xs arbitrary: s T)
  case Nil
  then show ?case by simp
next
  case (Cons x xs)
  from Cons.IH [OF step_inv [OF Cons.prems]] show ?case by simp
qed

lemma run_inv_init: "inv s [] \<Longrightarrow> inv (run step s xs) (trace step emit s xs)"
  using run_inv [of s "[]"] by simp

end


text \<open>
  A component refines an abstract specification when what it emits is accepted,
  observation by observation, by the specification's automaton.
\<close>

fun accepts :: "('a \<Rightarrow> 'e \<Rightarrow> 'a option) \<Rightarrow> 'a \<Rightarrow> 'e list \<Rightarrow> 'a option" where
  "accepts nxt a [] = Some a"
| "accepts nxt a (e # es) = (case nxt a e of None \<Rightarrow> None | Some a' \<Rightarrow> accepts nxt a' es)"

lemma accepts_append:
  "accepts nxt a (xs @ ys) = (case accepts nxt a xs of None \<Rightarrow> None | Some a' \<Rightarrow> accepts nxt a' ys)"
  by (induction xs arbitrary: a) (auto split: option.splits)

locale refinement =
  fixes step :: "'s \<Rightarrow> 'o \<Rightarrow> 's"
    and emit :: "'s \<Rightarrow> 'o \<Rightarrow> 'e list"
    and nxt :: "'a \<Rightarrow> 'e \<Rightarrow> 'a option"
    and rel :: "'s \<Rightarrow> 'a \<Rightarrow> bool"
  assumes step_sim: "rel s a \<Longrightarrow> \<exists>a'. accepts nxt a (emit s x) = Some a' \<and> rel (step s x) a'"
begin

lemma run_sim: "rel s a \<Longrightarrow> \<exists>a'. accepts nxt a (trace step emit s xs) = Some a' \<and> rel (run step s xs) a'"
proof (induction xs arbitrary: s a)
  case Nil
  then show ?case by simp
next
  case (Cons x xs)
  from step_sim [OF Cons.prems] obtain a1 where
    "accepts nxt a (emit s x) = Some a1" "rel (step s x) a1" by blast
  with Cons.IH show ?case by (auto simp: accepts_append)
qed

end


text \<open>
  At most once.  A component performs effects, each under a key, and remembers the
  keys it has performed: an effect happens only under a key not known yet, and its
  key is known from then on.  Then no run performs two effects under one key.  The
  promises may depend on an invariant of the state and on the operations being valid
  (for instance, falling within a period of time).
\<close>

locale at_most_once =
  fixes step :: "'s \<Rightarrow> 'o \<Rightarrow> 's"
    and effects :: "'s \<Rightarrow> 'o \<Rightarrow> 'k list"
    and known :: "'s \<Rightarrow> 'k set"
    and inv :: "'s \<Rightarrow> bool"
    and valid :: "'o \<Rightarrow> bool"
  assumes fresh: "inv s \<Longrightarrow> valid x \<Longrightarrow> k \<in> set (effects s x) \<Longrightarrow> k \<notin> known s"
    and learnt: "inv s \<Longrightarrow> valid x \<Longrightarrow> k \<in> set (effects s x) \<Longrightarrow> k \<in> known (step s x)"
    and kept: "inv s \<Longrightarrow> valid x \<Longrightarrow> known s \<subseteq> known (step s x)"
    and single: "distinct (effects s x)"
    and inv_step: "inv s \<Longrightarrow> valid x \<Longrightarrow> inv (step s x)"
begin

lemma run_keeps: "inv s \<Longrightarrow> \<forall>x \<in> set xs. valid x \<Longrightarrow> inv (run step s xs)"
  using inv_step by (induction xs arbitrary: s) auto

lemma trace_fresh:
  "inv s \<Longrightarrow> \<forall>x \<in> set xs. valid x \<Longrightarrow> k \<in> set (trace step effects s xs) \<Longrightarrow> k \<notin> known s"
proof (induction xs arbitrary: s)
  case Nil
  then show ?case by simp
next
  case (Cons x xs)
  then consider "k \<in> set (effects s x)" | "k \<in> set (trace step effects (step s x) xs)" by auto
  then show ?case
  proof cases
    case 1
    then show ?thesis using fresh [of s x k] Cons.prems by simp
  next
    case 2
    then have "k \<notin> known (step s x)" using Cons inv_step by simp
    then show ?thesis using kept [of s x] Cons.prems by auto
  qed
qed

lemma trace_distinct: "inv s \<Longrightarrow> \<forall>x \<in> set xs. valid x \<Longrightarrow> distinct (trace step effects s xs)"
proof (induction xs arbitrary: s)
  case Nil
  then show ?case by simp
next
  case (Cons x xs)
  have v: "valid x" "\<forall>x \<in> set xs. valid x" and i: "inv (step s x)" using Cons.prems inv_step by simp_all
  have "set (effects s x) \<inter> set (trace step effects (step s x) xs) = {}"
    using learnt [OF Cons.prems(1) v(1)] trace_fresh [OF i v(2)] by blast
  then show ?case using single Cons.IH [OF i v(2)] by simp
qed

lemma known_mono: "inv s \<Longrightarrow> \<forall>x \<in> set xs. valid x \<Longrightarrow> known s \<subseteq> known (run step s xs)"
proof (induction xs arbitrary: s)
  case Nil
  then show ?case by simp
next
  case (Cons x xs)
  then have "known s \<subseteq> known (step s x)" "known (step s x) \<subseteq> known (run step (step s x) xs)"
    using kept inv_step by simp_all
  then show ?case by simp
qed

end

subsection \<open>Character classes\<close>

definition in_range :: "char \<Rightarrow> char \<Rightarrow> char \<Rightarrow> bool" where
  "in_range low high c \<longleftrightarrow> low \<le> c \<and> c \<le> high"

definition lower_letter :: "char \<Rightarrow> bool" where
  "lower_letter = in_range (CHR ''a'') (CHR ''z'')"

definition upper_letter :: "char \<Rightarrow> bool" where
  "upper_letter = in_range (CHR ''A'') (CHR ''Z'')"

definition decimal_digit :: "char \<Rightarrow> bool" where
  "decimal_digit = in_range (CHR ''0'') (CHR ''9'')"

definition lower_alnum :: "char \<Rightarrow> bool" where
  "lower_alnum c \<longleftrightarrow> lower_letter c \<or> decimal_digit c"

lemmas char_classes = lower_letter_def upper_letter_def decimal_digit_def lower_alnum_def in_range_def less_eq_char_def

subsection \<open>Hexadecimal text\<close>

text \<open>\<open>hex.EncodeToString\<close>.\<close>

definition hex_digit :: "nat \<Rightarrow> char" where
  "hex_digit n = ''0123456789abcdef'' ! n"

definition hex_string :: "bytes \<Rightarrow> string" where
  "hex_string bs = concat (map (\<lambda>b. [hex_digit (unat b div 16), hex_digit (unat b mod 16)]) bs)"

lemma hex_digit_mem: "n < 16 \<Longrightarrow> hex_digit n \<in> set ''0123456789abcdef''"
  unfolding hex_digit_def by (rule nth_mem) simp

lemma hex_digits: "list_all (\<lambda>c. c \<in> set ''0123456789abcdef'') (hex_string bs) \<and> length (hex_string bs) = 2 * length bs"
proof (induction bs)
  case (Cons b bs)
  have "unat b < 256" using unsigned_less [of b] by simp
  then have "hex_digit (unat b div 16) \<in> set ''0123456789abcdef''" "hex_digit (unat b mod 16) \<in> set ''0123456789abcdef''"
    by (intro hex_digit_mem; simp)+
  then show ?case using Cons.IH unfolding hex_string_def list.map concat.simps list_all_append length_append
    by (simp del: set_simps set_ConsD)
qed (simp add: hex_string_def)

subsection \<open>UTF-8\<close>

definition cont_byte :: "nat \<Rightarrow> bool" where
  "cont_byte b \<longleftrightarrow> 128 \<le> b \<and> b \<le> 191"

text \<open>\<open>utf8.ValidString\<close>, over the values of the bytes.\<close>

fun utf8_valid :: "nat list \<Rightarrow> bool" where
  "utf8_valid [] = True"
| "utf8_valid (a # bs) =
     (if a < 128 then utf8_valid bs
      else if 194 \<le> a \<and> a \<le> 223 then
        (case bs of b # cs \<Rightarrow> cont_byte b \<and> utf8_valid cs | _ \<Rightarrow> False)
      else if 224 \<le> a \<and> a \<le> 239 then
        (case bs of
           b # c # ds \<Rightarrow>
             (if a = 224 then 160 \<le> b \<and> b \<le> 191 else if a = 237 then 128 \<le> b \<and> b \<le> 159 else cont_byte b)
             \<and> cont_byte c \<and> utf8_valid ds
         | _ \<Rightarrow> False)
      else if 240 \<le> a \<and> a \<le> 244 then
        (case bs of
           b # c # d # es \<Rightarrow>
             (if a = 240 then 144 \<le> b \<and> b \<le> 191 else if a = 244 then 128 \<le> b \<and> b \<le> 143 else cont_byte b)
             \<and> cont_byte c \<and> cont_byte d \<and> utf8_valid es
         | _ \<Rightarrow> False)
      else False)"

end
