(* ===== verification/Output_Event.thy ===== *)
theory Output_Event
  imports Prelude
begin

section \<open>Sequenced terminal output\<close>

text \<open>
  Terminal output is a stream of bytes numbered from 0.  It travels in events
  (\<open>history.Event\<close> in \<open>src/internal/history/history.go\<close>, \<open>OutputEvent\<close>
  in \<open>src/internal/store/store.go\<close>): a channel, a half-open interval of
  sequence numbers and the bytes of that interval.  This theory holds the event
  type, the predicate \<open>chain\<close> for a gap-free run of events, slicing, and the loop
  that both replay functions run over a chain, with its functional correctness.
\<close>

record event =
  channel :: byte
  start_seq :: nat
  end_seq :: nat
  ev_data :: bytes

definition zero_event :: event where
  "zero_event = \<lparr>channel = 0, start_seq = 0, end_seq = 0, ev_data = []\<rparr>"

definition payload :: "event list \<Rightarrow> bytes" where
  "payload es = concat (map ev_data es)"

lemma payload_simps [simp]:
  "payload [] = []"
  "payload (e # es) = ev_data e @ payload es"
  "payload (es @ fs) = payload es @ payload fs"
  by (simp_all add: payload_def)

text \<open>A chain from \<open>a\<close> to \<open>b\<close>: each event starts where the one before it ended.\<close>

fun chain :: "nat \<Rightarrow> event list \<Rightarrow> nat \<Rightarrow> bool" where
  "chain a [] b \<longleftrightarrow> a = b"
| "chain a (e # es) b \<longleftrightarrow>
     start_seq e = a \<and> end_seq e = a + length (ev_data e) \<and> chain (end_seq e) es b"

lemma chain_length: "chain a es b \<Longrightarrow> b = a + length (payload es)"
  by (induction es arbitrary: a) fastforce+

lemma chain_le: "chain a es b \<Longrightarrow> a \<le> b"
  by (drule chain_length) simp

lemma chain_append [simp]:
  "chain a (es @ fs) c \<longleftrightarrow> (\<exists>b. chain a es b \<and> chain b fs c)"
  by (induction es arbitrary: a) auto

lemma chain_snoc:
  "chain a es b \<Longrightarrow> start_seq e = b \<Longrightarrow> end_seq e = b + length (ev_data e) \<Longrightarrow>
   chain a (es @ [e]) (end_seq e)"
  by auto

lemma chain_functional: "chain a es b \<Longrightarrow> chain a es c \<Longrightarrow> b = c"
  using chain_length by blast

lemma chain_member:
  "chain a es b \<Longrightarrow> e \<in> set es \<Longrightarrow>
   a \<le> start_seq e \<and> end_seq e = start_seq e + length (ev_data e) \<and> end_seq e \<le> b"
proof (induction es arbitrary: a)
  case Nil
  then show ?case by simp
next
  case (Cons f es)
  show ?case
  proof (cases "e = f")
    case True
    with Cons.prems show ?thesis by (auto dest: chain_le)
  next
    case False
    with Cons.prems have "chain (end_seq f) es b" "e \<in> set es" by auto
    from Cons.IH [OF this] Cons.prems show ?thesis by auto
  qed
qed

subsection \<open>Slicing and the replay loop\<close>

text \<open>
  The Go expression \<open>event.Data[s - event.StartSequence : t - event.StartSequence]\<close>
  together with the new bounds.
\<close>

definition slice_event :: "event \<Rightarrow> nat \<Rightarrow> nat \<Rightarrow> event" where
  "slice_event ev s t =
     ev\<lparr>start_seq := s, end_seq := t,
        ev_data := take (u64_sub t s) (drop (u64_sub s (start_seq ev)) (ev_data ev))\<rparr>"

text \<open>
  The loop body of \<open>ReplayOwned\<close> (\<open>history.go\<close>): events that end at or before
  the cursor are skipped, the first and the last one are trimmed, and a positive
  byte limit ends the loop as soon as it is used up.  \<open>to\<close> is \<open>ToSequence\<close>.
\<close>

fun replay_loop :: "nat \<Rightarrow> nat \<Rightarrow> nat \<Rightarrow> nat \<Rightarrow> event list \<Rightarrow> event list \<times> nat" where
  "replay_loop frm limit remaining to [] = ([], to)"
| "replay_loop frm limit remaining to (ev # evs) =
    (if end_seq ev \<le> frm then replay_loop frm limit remaining to evs
     else
       let s = max frm (start_seq ev);
           t = (if 0 < limit \<and> u64_sub (end_seq ev) s > remaining
                then u64_add s remaining else end_seq ev)
       in if s < t then
            let remaining' = (if 0 < limit then u64_sub remaining (u64_sub t s) else remaining)
            in if 0 < limit \<and> remaining' = 0 then ([slice_event ev s t], t)
               else (let (rs, to') = replay_loop frm limit remaining' t evs
                     in (slice_event ev s t # rs, to'))
          else replay_loop frm limit remaining to evs)"

text \<open>How many bytes the loop delivers frm position \<open>s\<close> of a chain that ends in \<open>b\<close>.\<close>

definition replay_amount :: "nat \<Rightarrow> nat \<Rightarrow> nat \<Rightarrow> nat \<Rightarrow> nat" where
  "replay_amount limit remaining s b = (if limit = 0 then b - s else min remaining (b - s))"

lemma slice_event_sel [simp]:
  "start_seq (slice_event ev s t) = s" "end_seq (slice_event ev s t) = t"
  "channel (slice_event ev s t) = channel ev"
  by (simp_all add: slice_event_def)

lemma slice_event_data:
  "start_seq ev \<le> s \<Longrightarrow> s \<le> t \<Longrightarrow>
   ev_data (slice_event ev s t) = take (t - s) (drop (s - start_seq ev) (ev_data ev))"
  by (simp add: slice_event_def)

lemma slice_event_length:
  "start_seq ev \<le> s \<Longrightarrow> s \<le> t \<Longrightarrow> end_seq ev = start_seq ev + length (ev_data ev) \<Longrightarrow>
   t \<le> end_seq ev \<Longrightarrow> length (ev_data (slice_event ev s t)) = t - s"
  by (simp add: slice_event_data)

text \<open>
  One step of the loop on a chain: the delivered slice is the wanted part of the
  event's bytes, the rest of the chain supplies what is still missing.
\<close>

lemma take_drop_head_slice:
  assumes "a \<le> s" "s \<le> a + length d"
  shows "take n (drop (s - a) (d @ rest)) =
    take (min n (a + length d - s)) (drop (s - a) d) @ take (n - (a + length d - s)) rest"
proof -
  have "drop (s - a) (d @ rest) = drop (s - a) d @ rest"
    using assms by simp
  moreover have "length (drop (s - a) d) = a + length d - s"
    using assms by simp
  moreover have "take n (drop (s - a) d) = take (min n (a + length d - s)) (drop (s - a) d)"
    using assms by (simp add: min_def)
  ultimately show ?thesis by (simp add: take_append)
qed

lemma replay_loop_skip:
  "end_seq ev \<le> frm \<Longrightarrow>
   replay_loop frm limit remaining to (ev # evs) = replay_loop frm limit remaining to evs"
  by simp

lemma replay_loop_stop:
  assumes "frm < end_seq ev" "start_seq ev \<le> end_seq ev" "end_seq ev < u64_limit"
    and "0 < limit" "0 < remaining" "remaining \<le> end_seq ev - max frm (start_seq ev)"
  shows "replay_loop frm limit remaining to (ev # evs) =
    ([slice_event ev (max frm (start_seq ev)) (max frm (start_seq ev) + remaining)],
     max frm (start_seq ev) + remaining)"
  using assms by (auto simp: Let_def u64_add_small max_def split: if_splits)

lemma replay_loop_emit:
  assumes "frm < end_seq ev" "start_seq ev < end_seq ev"
    and "0 < limit \<longrightarrow> end_seq ev - max frm (start_seq ev) < remaining"
  shows "replay_loop frm limit remaining to (ev # evs) =
    (let (rs, to') = replay_loop frm limit
       (if 0 < limit then remaining - (end_seq ev - max frm (start_seq ev)) else remaining)
       (end_seq ev) evs
     in (slice_event ev (max frm (start_seq ev)) (end_seq ev) # rs, to'))"
  using assms by (auto simp: Let_def max_def split: if_splits)

lemma replay_loop_empty:
  assumes "frm < end_seq ev" "start_seq ev = end_seq ev"
  shows "replay_loop frm limit remaining to (ev # evs) = replay_loop frm limit remaining to evs"
  using assms by (simp add: Let_def max_def u64_sub_def)

declare replay_loop.simps(2) [simp del]

theorem replay_loop_correct:
  assumes "chain a evs b" "b < u64_limit" "limit = 0 \<or> 0 < remaining"
    and "replay_loop frm limit remaining to evs = (rs, to')"
  shows "payload rs = take (replay_amount limit remaining (max frm a) b)
           (drop (max frm a - a) (payload evs)) \<and>
         chain (max frm a) rs (max frm a + replay_amount limit remaining (max frm a) b) \<and>
         to' = (if replay_amount limit remaining (max frm a) b = 0 then to
                else max frm a + replay_amount limit remaining (max frm a) b)"
  using assms
proof (induction evs arbitrary: a rs remaining to)
  case Nil
  then show ?case by (auto simp: replay_amount_def)
next
  case (Cons ev evs)
  let ?s = "max frm a"
  from Cons.prems(1) have start: "start_seq ev = a"
    and en: "end_seq ev = a + length (ev_data ev)"
    and ch: "chain (end_seq ev) evs b" by auto
  have eb: "end_seq ev \<le> b" using ch by (rule chain_le)
  have len: "length (payload evs) = b - end_seq ev" using chain_length [OF ch] by simp
  consider (skip) "end_seq ev \<le> frm" | (empty) "frm < end_seq ev" "ev_data ev = []"
    | (stop) "frm < end_seq ev" "ev_data ev \<noteq> []" "0 < limit" "remaining \<le> end_seq ev - ?s"
    | (emit) "frm < end_seq ev" "ev_data ev \<noteq> []" "0 < limit \<longrightarrow> end_seq ev - ?s < remaining"
    by linarith
  then show ?case
  proof cases
    case skip
    then have "replay_loop frm limit remaining to evs = (rs, to')"
      using Cons.prems(4) by (simp add: replay_loop_skip)
    from Cons.IH [OF ch Cons.prems(2,3) this] skip en show ?thesis
      by (simp add: max_absorb1)
  next
    case empty
    then have "replay_loop frm limit remaining to evs = (rs, to')"
      using Cons.prems(4) start en by (simp add: replay_loop_empty)
    from Cons.IH [OF ch Cons.prems(2,3) this] empty en show ?thesis by simp
  next
    case stop
    have r: "rs = [slice_event ev ?s (?s + remaining)]" "to' = ?s + remaining"
      using replay_loop_stop [of frm ev limit remaining to evs] stop start en eb Cons.prems
      by auto
    have am: "replay_amount limit remaining ?s b = remaining"
      using stop eb by (simp add: replay_amount_def)
    have d: "ev_data (slice_event ev ?s (?s + remaining)) = take remaining (drop (?s - a) (ev_data ev))"
      using start by (simp add: slice_event_data)
    have l: "length (ev_data (slice_event ev ?s (?s + remaining))) = remaining"
      using slice_event_length [of ev ?s "?s + remaining"] start en stop by auto
    have "take remaining (drop (?s - a) (payload (ev # evs))) = take remaining (drop (?s - a) (ev_data ev))"
      using stop en by auto
    moreover have "remaining \<noteq> 0" using stop Cons.prems(3) by simp
    ultimately show ?thesis using d l unfolding r am by simp
  next
    case emit
    let ?rem = "if 0 < limit then remaining - (end_seq ev - ?s) else remaining"
    obtain rs' where rs': "replay_loop frm limit ?rem (end_seq ev) evs = (rs', to')"
      and rs: "rs = slice_event ev ?s (end_seq ev) # rs'"
      using replay_loop_emit [of frm ev limit remaining to evs] emit start en Cons.prems(4)
      by (auto simp: Let_def split: prod.splits)
    have rem: "limit = 0 \<or> 0 < ?rem" using emit by auto
    have m: "max frm (end_seq ev) = end_seq ev" using emit by simp
    have d: "ev_data (slice_event ev ?s (end_seq ev)) = drop (?s - a) (ev_data ev)"
      using start en emit by (auto simp: slice_event_data)
    define k where "k = replay_amount limit ?rem (end_seq ev) b"
    have se: "?s < end_seq ev" using emit en by simp
    have am: "replay_amount limit remaining ?s b = (end_seq ev - ?s) + k"
      using emit(3) eb se unfolding k_def replay_amount_def min_def by auto
    have ih: "payload rs' = take k (payload evs)" "chain (end_seq ev) rs' (end_seq ev + k)"
      "to' = end_seq ev + k"
      using Cons.IH [OF ch Cons.prems(2) rem rs'] unfolding m k_def [symmetric] by auto
    have ends: "?s + replay_amount limit remaining ?s b = end_seq ev + k" using am se by simp
    have p: "take (replay_amount limit remaining ?s b) (drop (?s - a) (payload (ev # evs))) =
        drop (?s - a) (ev_data ev) @ take k (payload evs)"
      using emit en by (simp add: am)
    have "end_seq ev = ?s + length (ev_data (slice_event ev ?s (end_seq ev)))"
      using d en se by simp
    then have c: "chain ?s rs (end_seq ev + k)"
      unfolding rs chain.simps slice_event_sel using ih(2) by blast
    have q: "payload rs = drop (?s - a) (ev_data ev) @ take k (payload evs)"
      unfolding rs payload_simps d ih(1) ..
    have nz: "replay_amount limit remaining ?s b \<noteq> 0" using am se by linarith
    show ?thesis unfolding ends p using c q nz ih(3) by (simp only: simp_thms if_False)
  qed
qed

end
