(* ===== verification/Log_Contract.thy ===== *)
theory Log_Contract
  imports Output_Event
begin

section \<open>The contract of an output log\<close>

text \<open>
  Two components keep the output of a session: the in-memory history
  (\<open>src/internal/history\<close>) and the durable store (\<open>src/internal/store\<close>).  Their
  clients, the session manager's attach and its persistence loop, rely on the
  same promises of both, stated here once: a log holds a contiguous tail of the
  stream, appending extends the stream and may only forget its oldest part, and
  reading returns exactly the wanted bytes in a gap-free run of events.
  \<open>Output_History\<close> and \<open>Store_Output\<close> interpret the locale.
\<close>

definition read_amount :: "nat \<Rightarrow> nat \<Rightarrow> nat" where
  "read_amount limit available = (if limit = 0 then available else min limit available)"

lemma replay_amount_read: "replay_amount n n a b = read_amount n (b - a)"
  by (simp add: replay_amount_def read_amount_def)

locale output_log =
  fixes wf :: "'s \<Rightarrow> bool"
    and lo :: "'s \<Rightarrow> nat"
    and hi :: "'s \<Rightarrow> nat"
    and stored :: "'s \<Rightarrow> bytes"
    and put :: "'s \<Rightarrow> byte \<Rightarrow> bytes \<Rightarrow> 's option"
    and get :: "'s \<Rightarrow> nat \<Rightarrow> nat \<Rightarrow> event list option"
  assumes log_bounds: "wf s \<Longrightarrow> lo s \<le> hi s \<and> length (stored s) = hi s - lo s"
    and put_wf: "wf s \<Longrightarrow> put s c d = Some s' \<Longrightarrow> wf s'"
    and put_hi: "wf s \<Longrightarrow> put s c d = Some s' \<Longrightarrow> hi s' = hi s + length d"
    and put_lo: "wf s \<Longrightarrow> put s c d = Some s' \<Longrightarrow> lo s \<le> lo s'"
    and put_stored:
      "wf s \<Longrightarrow> put s c d = Some s' \<Longrightarrow> stored s' = drop (lo s' - lo s) (stored s @ d)"
    and get_ok:
      "wf s \<Longrightarrow> lo s \<le> a \<Longrightarrow> a \<le> hi s \<Longrightarrow>
       \<exists>es. get s a n = Some es \<and> chain a es (a + read_amount n (hi s - a)) \<and>
            payload es = take (read_amount n (hi s - a)) (drop (a - lo s) (stored s))"
    and get_gap: "wf s \<Longrightarrow> a < lo s \<or> hi s < a \<Longrightarrow> get s a n = None"
begin

text \<open>Appending many chunks: the log holds a tail of everything that was appended.\<close>

fun puts :: "'s \<Rightarrow> (byte \<times> bytes) list \<Rightarrow> 's option" where
  "puts s [] = Some s"
| "puts s ((c, d) # ds) = (case put s c d of None \<Rightarrow> None | Some s' \<Rightarrow> puts s' ds)"

lemma puts_spec:
  assumes "wf s" "puts s ds = Some s'"
  shows "wf s' \<and> lo s \<le> lo s' \<and> hi s' = hi s + length (concat (map snd ds)) \<and>
         stored s' = drop (lo s' - lo s) (stored s @ concat (map snd ds))"
  using assms
proof (induction ds arbitrary: s)
  case Nil
  then show ?case by simp
next
  case (Cons cd ds)
  obtain c d where cd: "cd = (c, d)" by (cases cd)
  with Cons.prems obtain t where t: "put s c d = Some t" and rest: "puts t ds = Some s'"
    by (auto split: option.splits)
  note p = put_wf [OF Cons.prems(1) t] put_hi [OF Cons.prems(1) t] put_lo [OF Cons.prems(1) t]
    put_stored [OF Cons.prems(1) t]
  have ih: "wf s'" "lo t \<le> lo s'" "hi s' = hi t + length (concat (map snd ds))"
      "stored s' = drop (lo s' - lo t) (stored t @ concat (map snd ds))"
    using Cons.IH [OF p(1) rest] by auto
  have "lo t - lo s \<le> length (stored s @ d)"
    using log_bounds [OF p(1)] log_bounds [OF Cons.prems(1)] p(2,3) by auto
  then have "stored t @ concat (map snd ds) = drop (lo t - lo s) (stored s @ d @ concat (map snd ds))"
    using p(4) by simp
  then have "stored s' = drop (lo s' - lo t + (lo t - lo s)) (stored s @ d @ concat (map snd ds))"
    unfolding ih(4) by (simp only: drop_drop)
  moreover have "lo s' - lo t + (lo t - lo s) = lo s' - lo s" using ih(2) p(3) by simp
  ultimately have "stored s' = drop (lo s' - lo s) (stored s @ concat (map snd (cd # ds)))"
    using cd by (simp only: list.map concat.simps snd_conv)
  then show ?case using ih(1-3) p(2,3) cd by simp
qed

text \<open>What was appended last is what a reader at the old end receives.\<close>

lemma get_after_put:
  assumes "wf s" "put s c d = Some s'" "lo s' \<le> hi s"
  obtains es where "get s' (hi s) 0 = Some es" "payload es = d" "chain (hi s) es (hi s')"
proof -
  note p = put_wf [OF assms(1,2)] put_hi [OF assms(1,2)] put_lo [OF assms(1,2)]
    put_stored [OF assms(1,2)]
  obtain es where es: "get s' (hi s) 0 = Some es"
    "chain (hi s) es (hi s + read_amount 0 (hi s' - hi s))"
    "payload es = take (read_amount 0 (hi s' - hi s)) (drop (hi s - lo s') (stored s'))"
    using get_ok [OF p(1) assms(3), of 0] p(2) by auto
  have "drop (hi s - lo s') (stored s') = d"
    using p(3,4) log_bounds [OF assms(1)] assms(3) by simp
  with es p(2) show thesis by (intro that [of es]) (simp_all add: read_amount_def)
qed

text \<open>
  A reader that pages through the log, \<open>n\<close> bytes at a time, sees the same bytes as
  one that reads it at once, and finishes within as many rounds as there are bytes.
\<close>

fun pages :: "nat \<Rightarrow> 's \<Rightarrow> nat \<Rightarrow> nat \<Rightarrow> bytes option" where
  "pages 0 s a n = None"
| "pages (Suc fuel) s a n =
     (if a = hi s then Some []
      else case get s a n of
             None \<Rightarrow> None
           | Some es \<Rightarrow> map_option ((@) (payload es)) (pages fuel s (a + length (payload es)) n))"

lemma pages_complete:
  assumes "wf s" "lo s \<le> a" "a \<le> hi s" "0 < n" "hi s - a < fuel"
  shows "pages fuel s a n = Some (drop (a - lo s) (stored s))"
  using assms(2,3,5)
proof (induction fuel arbitrary: a)
  case 0
  then show ?case by simp
next
  case (Suc fuel)
  note len = log_bounds [OF assms(1)]
  show ?case
  proof (cases "a = hi s")
    case True
    then show ?thesis using len by simp
  next
    case False
    let ?k = "read_amount n (hi s - a)"
    obtain es where es: "get s a n = Some es" "payload es = take ?k (drop (a - lo s) (stored s))"
      using get_ok [OF assms(1) Suc.prems(1,2), of n] by auto
    have k: "0 < ?k" "?k \<le> hi s - a" using False Suc.prems assms(4) by (auto simp: read_amount_def)
    then have l: "length (payload es) = ?k" using es(2) len Suc.prems by simp
    have "pages fuel s (a + ?k) n = Some (drop (a + ?k - lo s) (stored s))"
      using Suc.prems k by (intro Suc.IH) auto
    moreover have "payload es @ drop (a + ?k - lo s) (stored s) = drop (a - lo s) (stored s)"
    proof -
      have "drop (a + ?k - lo s) (stored s) = drop ?k (drop (a - lo s) (stored s))"
        using Suc.prems by (simp add: add.commute)
      then show ?thesis unfolding es(2) by (simp only: append_take_drop_id)
    qed
    ultimately show ?thesis using False es(1) l by simp
  qed
qed

end

end
