(* ===== verification/Output_History.thy ===== *)
theory Output_History
  imports Log_Contract
begin

section \<open>The bounded in-memory output history\<close>

text \<open>
  Model of \<open>src/internal/history/history.go\<close>.  \<open>history\<close> is the struct
  \<open>History\<close>: the byte limit, the retained byte count, the two sequence bounds, the
  slice of events with the index of its first live entry, and the acknowledged
  cursor of each attachment.  Every exported operation is one definition; the
  errors are \<open>ErrInvalidLimit\<close>, \<open>ErrInvalidCursor\<close>, \<open>ErrSequenceFull\<close> and
  \<open>GapError\<close>.

  Not modelled: the buffer pool and the reference counts of \<open>ownedBuffer\<close>
  (\<open>AcquireBuffer\<close>, \<open>ReleaseBuffer\<close>, \<open>Retain\<close>, \<open>Release\<close>), which decide when
  memory is reused and never what an operation returns.  The mutex makes each
  operation atomic.
\<close>

datatype history_error =
    ErrInvalidLimit
  | ErrInvalidCursor
  | ErrSequenceFull
  | GapError (gap_requested: nat) (gap_earliest: nat) (gap_latest: nat)

record history =
  h_max :: nat
  h_bytes :: nat
  h_earliest :: nat
  h_latest :: nat
  h_events :: "event list"
  h_head :: nat
  h_acks :: "nat gomap"

record replay =
  r_from :: nat
  r_to :: nat
  r_earliest :: nat
  r_latest :: nat
  r_events :: "event list"

text \<open>The live part of the event slice, \<open>h.events[h.head:]\<close>.\<close>

definition live :: "history \<Rightarrow> event list" where
  "live h = drop (h_head h) (h_events h)"

definition new_history :: "nat \<Rightarrow> history_error + history" where
  "new_history max_bytes =
     (if max_bytes = 0 then Inl ErrInvalidLimit
      else Inr \<lparr>h_max = max_bytes, h_bytes = 0, h_earliest = 0, h_latest = 0,
                 h_events = [], h_head = 0, h_acks = []\<rparr>)"

text \<open>The loop and the final reset of \<open>compactLocked\<close>.\<close>

function compact_loop :: "history \<Rightarrow> history" where
  "compact_loop h =
     (if h_bytes h > h_max h \<and> h_head h < length (h_events h)
      then let ev = h_events h ! h_head h
           in compact_loop (h\<lparr>h_bytes := u64_sub (h_bytes h) (length (ev_data ev)),
                              h_earliest := end_seq ev,
                              h_events := (h_events h)[h_head h := zero_event],
                              h_head := Suc (h_head h)\<rparr>)
      else h)"
  by pat_completeness auto
termination
  by (relation "measure (\<lambda>h. length (h_events h) - h_head h)") auto

declare compact_loop.simps [simp del]

definition compact_locked :: "history \<Rightarrow> history" where
  "compact_locked h =
     (let h' = compact_loop h
      in if h_head h' = length (h_events h')
         then h'\<lparr>h_earliest := h_latest h', h_events := [], h_head := 0\<rparr>
         else h')"

text \<open>\<open>appendOwned\<close>: the three appends differ in buffer ownership only.\<close>

definition append_owned :: "history \<Rightarrow> byte \<Rightarrow> bytes \<Rightarrow> (history_error + event) \<times> history" where
  "append_owned h ch data =
     (if data = [] then
        (Inr \<lparr>channel = ch, start_seq = h_latest h, end_seq = h_latest h, ev_data = []\<rparr>, h)
      else if length data > u64_sub (u64_limit - 1) (h_latest h) then (Inl ErrSequenceFull, h)
      else
        let ev = \<lparr>channel = ch, start_seq = h_latest h,
                  end_seq = u64_add (h_latest h) (length data), ev_data = data\<rparr>
        in (Inr ev,
            compact_locked (h\<lparr>h_latest := end_seq ev,
                              h_bytes := u64_add (h_bytes h) (length data),
                              h_events := h_events h @ [ev]\<rparr>)))"

definition set_limit :: "history \<Rightarrow> nat \<Rightarrow> history_error + history" where
  "set_limit h max_bytes =
     (if max_bytes = 0 then Inl ErrInvalidLimit
      else Inr (compact_locked (h\<lparr>h_max := max_bytes\<rparr>)))"

definition clear :: "history \<Rightarrow> nat \<times> history" where
  "clear h =
     (h_latest h,
      h\<lparr>h_events := [], h_head := 0, h_bytes := 0, h_earliest := h_latest h\<rparr>)"

definition replay_owned :: "history \<Rightarrow> nat \<Rightarrow> nat \<Rightarrow> history_error + replay" where
  "replay_owned h frm byte_limit =
     (if frm < h_earliest h then Inl (GapError frm (h_earliest h) (h_latest h))
      else if frm > h_latest h then Inl ErrInvalidCursor
      else
        let (evs, to) = replay_loop frm byte_limit byte_limit frm (live h)
        in Inr \<lparr>r_from = frm, r_to = to, r_earliest = h_earliest h, r_latest = h_latest h,
                r_events = evs\<rparr>)"

definition acknowledge :: "history \<Rightarrow> string \<Rightarrow> nat \<Rightarrow> history_error + history" where
  "acknowledge h aid next_seq =
     (if aid = [] \<or> next_seq > h_latest h
        \<or> next_seq < (case map_of (h_acks h) aid of Some n \<Rightarrow> n | None \<Rightarrow> 0)
      then Inl ErrInvalidCursor
      else Inr (h\<lparr>h_acks := AList.update aid next_seq (h_acks h)\<rparr>))"

definition acknowledged :: "history \<Rightarrow> string \<Rightarrow> nat option" where
  "acknowledged h aid = map_of (h_acks h) aid"

definition bounds :: "history \<Rightarrow> nat \<times> nat \<times> nat" where
  "bounds h = (h_earliest h, h_latest h, h_bytes h)"

text \<open>\<open>Restore\<close> replays stored events into a fresh history, checking that they join up.\<close>

fun restore_loop :: "history \<Rightarrow> event list \<Rightarrow> history_error + history" where
  "restore_loop h [] = Inr h"
| "restore_loop h (ev # evs) =
     (if start_seq ev \<noteq> h_latest h \<or> u64_sub (end_seq ev) (start_seq ev) \<noteq> length (ev_data ev)
      then Inl ErrInvalidCursor
      else restore_loop (h\<lparr>h_events := h_events h @ [ev],
                           h_bytes := u64_add (h_bytes h) (length (ev_data ev)),
                           h_latest := end_seq ev\<rparr>) evs)"

definition restore :: "nat \<Rightarrow> nat \<Rightarrow> nat \<Rightarrow> event list \<Rightarrow> history_error + history" where
  "restore max_bytes earliest latest evs =
     (case new_history max_bytes of
        Inl _ \<Rightarrow> Inl ErrInvalidCursor
      | Inr h \<Rightarrow>
          if earliest > latest then Inl ErrInvalidCursor
          else (case restore_loop (h\<lparr>h_earliest := earliest, h_latest := earliest\<rparr>) evs of
                  Inl e \<Rightarrow> Inl e
                | Inr h' \<Rightarrow>
                    if h_latest h' \<noteq> latest \<or> h_bytes h' > max_bytes then Inl ErrInvalidCursor
                    else Inr h'))"

subsection \<open>Invariant\<close>

text \<open>
  The retained events are a chain from \<open>earliest\<close> to \<open>latest\<close>, the byte counter is
  exact and within the limit, and no attachment has acknowledged the future.
\<close>

definition hist_inv :: "history \<Rightarrow> bool" where
  "hist_inv h \<longleftrightarrow>
     0 < h_max h \<and> h_latest h < u64_limit \<and> h_head h \<le> length (h_events h) \<and>
     chain (h_earliest h) (live h) (h_latest h) \<and>
     h_bytes h = h_latest h - h_earliest h \<and> h_bytes h \<le> h_max h \<and>
     (\<forall>(a, n) \<in> set (h_acks h). n \<le> h_latest h)"

text \<open>The bytes a history retains: those numbered \<open>earliest\<close> up to \<open>latest\<close>.\<close>

definition content :: "history \<Rightarrow> bytes" where
  "content h = payload (live h)"

definition hist_pre :: "history \<Rightarrow> bool" where
  "hist_pre h \<longleftrightarrow>
     0 < h_max h \<and> h_latest h < u64_limit \<and> h_head h \<le> length (h_events h) \<and>
     chain (h_earliest h) (live h) (h_latest h) \<and>
     h_bytes h = h_latest h - h_earliest h \<and>
     (\<forall>(a, n) \<in> set (h_acks h). n \<le> h_latest h)"

lemma hist_inv_pre: "hist_inv h \<longleftrightarrow> hist_pre h \<and> h_bytes h \<le> h_max h"
  by (auto simp: hist_inv_def hist_pre_def)

lemma content_length: "hist_pre h \<Longrightarrow> length (content h) = h_latest h - h_earliest h"
  by (auto simp: hist_pre_def content_def dest: chain_length)

lemma hist_earliest_le: "hist_pre h \<Longrightarrow> h_earliest h \<le> h_latest h"
  by (auto simp: hist_pre_def dest: chain_le)

text \<open>One round of the compaction loop drops the first live event.\<close>

definition compact_step :: "history \<Rightarrow> history" where
  "compact_step h =
     (let ev = h_events h ! h_head h
      in h\<lparr>h_bytes := u64_sub (h_bytes h) (length (ev_data ev)), h_earliest := end_seq ev,
           h_events := (h_events h)[h_head h := zero_event], h_head := Suc (h_head h)\<rparr>)"

lemma compact_loop_unfold:
  "compact_loop h =
     (if h_bytes h > h_max h \<and> h_head h < length (h_events h) then compact_loop (compact_step h) else h)"
  by (subst compact_loop.simps) (simp add: compact_step_def Let_def)

lemma compact_loop_stop: "h_bytes h \<le> h_max h \<or> h_head h \<ge> length (h_events h) \<Longrightarrow> compact_loop h = h"
  by (subst compact_loop_unfold) auto

lemma compact_loop_next:
  "h_max h < h_bytes h \<Longrightarrow> h_head h < length (h_events h) \<Longrightarrow>
   compact_loop h = compact_loop (compact_step h)"
  by (subst compact_loop_unfold) simp

lemma live_Cons:
  "h_head h < length (h_events h) \<Longrightarrow>
   live h = h_events h ! h_head h # live (compact_step h)"
  by (simp add: live_def compact_step_def Let_def drop_eq_nth_Cons)

lemma compact_step_sel [simp]:
  "h_max (compact_step h) = h_max h" "h_latest (compact_step h) = h_latest h"
  "h_acks (compact_step h) = h_acks h"
  "h_earliest (compact_step h) = end_seq (h_events h ! h_head h)"
  "length (h_events (compact_step h)) = length (h_events h)"
  "h_head (compact_step h) = Suc (h_head h)"
  by (simp_all add: compact_step_def Let_def)

lemma compact_step_pre:
  assumes "hist_pre h" "h_head h < length (h_events h)"
  shows "hist_pre (compact_step h)"
proof -
  let ?ev = "h_events h ! h_head h"
  have lv: "live h = ?ev # live (compact_step h)" using assms(2) by (rule live_Cons)
  have ch: "chain (h_earliest h) (live h) (h_latest h)" using assms(1) by (simp add: hist_pre_def)
  then have ev: "start_seq ?ev = h_earliest h"
      "end_seq ?ev = h_earliest h + length (ev_data ?ev)"
    and ch': "chain (end_seq ?ev) (live (compact_step h)) (h_latest h)"
    unfolding lv by auto
  have "end_seq ?ev \<le> h_latest h" using ch' by (rule chain_le)
  moreover have "h_bytes (compact_step h) = u64_sub (h_bytes h) (length (ev_data ?ev))"
    by (simp add: compact_step_def Let_def)
  ultimately have "h_bytes (compact_step h) = h_latest h - end_seq ?ev"
    using assms(1) ev by (simp add: hist_pre_def)
  with assms ch' show ?thesis by (simp add: hist_pre_def)
qed

text \<open>
  What the whole compaction does: some events are dropped from the front, nothing
  else moves, the result fits the limit, and it drops no event that it could have
  kept.
\<close>

lemma hist_pre_bytes: "hist_pre h \<Longrightarrow> h_bytes h = length (payload (live h))"
  by (auto simp: hist_pre_def dest: chain_length)

lemma compact_loop_frame:
  "hist_pre h \<Longrightarrow>
   hist_pre (compact_loop h) \<and> h_max (compact_loop h) = h_max h \<and>
   h_latest (compact_loop h) = h_latest h \<and> h_acks (compact_loop h) = h_acks h \<and>
   (h_bytes (compact_loop h) \<le> h_max h \<or> live (compact_loop h) = [])"
proof (induction "length (h_events h) - h_head h" arbitrary: h)
  case 0
  then have "compact_loop h = h" by (simp add: compact_loop_stop)
  with 0 show ?case by (auto simp: live_def)
next
  case (Suc n)
  show ?case
  proof (cases "h_bytes h > h_max h")
    case True
    from Suc.hyps(2) have hd: "h_head h < length (h_events h)" by arith
    have eq: "compact_loop h = compact_loop (compact_step h)" using True hd by (rule compact_loop_next)
    have n: "n = length (h_events (compact_step h)) - h_head (compact_step h)"
      using Suc.hyps(2) by simp
    from Suc.hyps(1) [OF n compact_step_pre [OF Suc.prems hd]] show ?thesis unfolding eq by simp
  next
    case False
    then have "compact_loop h = h" by (simp add: compact_loop_stop)
    with False Suc.prems show ?thesis by auto
  qed
qed

lemma compact_loop_drops:
  "hist_pre h \<Longrightarrow>
   \<exists>dropped. live h = dropped @ live (compact_loop h) \<and>
     (dropped \<noteq> [] \<longrightarrow> h_max h < length (ev_data (last dropped)) + h_bytes (compact_loop h))"
proof (induction "length (h_events h) - h_head h" arbitrary: h)
  case 0
  then have "compact_loop h = h" by (simp add: compact_loop_stop)
  then show ?case by simp
next
  case (Suc n)
  let ?ev = "h_events h ! h_head h"
  show ?case
  proof (cases "h_bytes h > h_max h")
    case True
    from Suc.hyps(2) have hd: "h_head h < length (h_events h)" by arith
    have eq: "compact_loop h = compact_loop (compact_step h)" using True hd by (rule compact_loop_next)
    have n: "n = length (h_events (compact_step h)) - h_head (compact_step h)"
      using Suc.hyps(2) by simp
    from Suc.hyps(1) [OF n compact_step_pre [OF Suc.prems hd]] obtain dropped where
      d: "live (compact_step h) = dropped @ live (compact_loop h)"
      and m: "dropped \<noteq> [] \<longrightarrow> h_max h < length (ev_data (last dropped)) + h_bytes (compact_loop h)"
      unfolding eq by auto
    have lv: "live h = (?ev # dropped) @ live (compact_loop h)"
      using live_Cons [OF hd] d by simp
    have "h_bytes (compact_loop h) = length (payload (live (compact_loop h)))"
      using compact_loop_frame [OF Suc.prems] by (auto intro: hist_pre_bytes)
    then have "h_max h < length (ev_data ?ev) + h_bytes (compact_loop h)" if "dropped = []"
      using True hist_pre_bytes [OF Suc.prems] lv that by simp
    with m lv show ?thesis by (intro exI [of _ "?ev # dropped"]) auto
  next
    case False
    then have "compact_loop h = h" by (simp add: compact_loop_stop)
    then show ?thesis by simp
  qed
qed

lemma compact_locked_live:
  assumes "hist_pre h"
  shows "live (compact_locked h) = live (compact_loop h)"
    and "h_earliest (compact_locked h) = h_earliest (compact_loop h)"
    and "h_bytes (compact_locked h) = h_bytes (compact_loop h)"
proof -
  have pre: "hist_pre (compact_loop h)" using compact_loop_frame [OF assms] by simp
  then have "h_head (compact_loop h) = length (h_events (compact_loop h)) \<Longrightarrow>
      h_earliest (compact_loop h) = h_latest (compact_loop h)"
    by (auto simp: hist_pre_def live_def)
  then show "live (compact_locked h) = live (compact_loop h)"
    "h_earliest (compact_locked h) = h_earliest (compact_loop h)"
    "h_bytes (compact_locked h) = h_bytes (compact_loop h)"
    by (auto simp: compact_locked_def Let_def live_def)
qed

lemma compact_locked_frame [simp]:
  assumes "hist_pre h"
  shows "h_max (compact_locked h) = h_max h" "h_latest (compact_locked h) = h_latest h"
    "h_acks (compact_locked h) = h_acks h"
  using compact_loop_frame [OF assms] by (simp_all add: compact_locked_def Let_def)

lemma compact_locked_inv [inv_intros]:
  assumes "hist_pre h"
  shows "hist_inv (compact_locked h)"
proof -
  have f: "hist_pre (compact_loop h)" "h_bytes (compact_loop h) \<le> h_max h \<or> live (compact_loop h) = []"
    using compact_loop_frame [OF assms] by auto
  then have "h_bytes (compact_loop h) \<le> h_max h"
    using hist_pre_bytes [OF f(1)] by auto
  moreover have "h_head (compact_locked h) \<le> length (h_events (compact_locked h))"
    using f(1) by (auto simp: compact_locked_def Let_def hist_pre_def)
  moreover have "chain (h_earliest (compact_loop h)) (live (compact_loop h)) (h_latest h)"
    "h_bytes (compact_loop h) = h_latest h - h_earliest (compact_loop h)"
    using f(1) compact_loop_frame [OF assms] unfolding hist_pre_def by metis+
  moreover have "0 < h_max h" "h_latest h < u64_limit" "\<forall>(a, n) \<in> set (h_acks h). n \<le> h_latest h"
    using assms unfolding hist_pre_def by auto
  ultimately show ?thesis
    unfolding hist_inv_def compact_locked_frame [OF assms] compact_locked_live [OF assms] by blast
qed

text \<open>Compaction drops a prefix and keeps as many whole events as the limit allows.\<close>

lemma compact_locked_drops:
  assumes "hist_pre h"
  obtains dropped where "live h = dropped @ live (compact_locked h)"
    "dropped \<noteq> [] \<Longrightarrow> h_max h < length (ev_data (last dropped)) + h_bytes (compact_locked h)"
  using compact_loop_drops [OF assms] compact_locked_live [OF assms] by auto

lemma compact_locked_content:
  assumes "hist_pre h"
  shows "h_earliest h \<le> h_earliest (compact_locked h)"
    and "content (compact_locked h) = drop (h_earliest (compact_locked h) - h_earliest h) (content h)"
proof -
  obtain dropped where d: "live h = dropped @ live (compact_locked h)"
    using compact_locked_drops [OF assms] by metis
  have "chain (h_earliest h) (live h) (h_latest h)" using assms by (simp add: hist_pre_def)
  then obtain m where m: "chain (h_earliest h) dropped m"
    "chain m (live (compact_locked h)) (h_latest h)"
    unfolding d by auto
  have "chain (h_earliest (compact_locked h)) (live (compact_locked h)) (h_latest h)"
    using compact_locked_inv [OF assms] assms by (simp add: hist_inv_def)
  with m(2) have "m = h_earliest (compact_locked h)" using chain_length by (metis add_right_cancel)
  with m(1) have "h_earliest (compact_locked h) = h_earliest h + length (payload dropped)"
    using chain_length by blast
  then show "h_earliest h \<le> h_earliest (compact_locked h)"
    "content (compact_locked h) = drop (h_earliest (compact_locked h) - h_earliest h) (content h)"
    using d by (simp_all add: content_def)
qed

subsection \<open>Every operation keeps the invariant\<close>

lemma new_history_inv [inv_intros]: "new_history n = Inr h \<Longrightarrow> hist_inv h \<and> content h = []"
  by (auto simp: new_history_def hist_inv_def live_def content_def split: if_splits)

text \<open>The state in which \<open>appendOwned\<close> calls \<open>compactLocked\<close>.\<close>

definition push_event :: "history \<Rightarrow> event \<Rightarrow> history" where
  "push_event h ev = h\<lparr>h_latest := end_seq ev, h_bytes := u64_add (h_bytes h) (length (ev_data ev)),
                   h_events := h_events h @ [ev]\<rparr>"

lemma push_event_live: "h_head h \<le> length (h_events h) \<Longrightarrow> live (push_event h ev) = live h @ [ev]"
  by (simp add: live_def push_event_def)

lemma push_event_pre:
  assumes "hist_pre h" "start_seq ev = h_latest h" "end_seq ev = h_latest h + length (ev_data ev)"
    "end_seq ev < u64_limit"
  shows "hist_pre (push_event h ev)"
proof -
  have l: "live (push_event h ev) = live h @ [ev]"
    using assms(1) by (simp add: push_event_live hist_pre_def)
  have "h_bytes h + length (ev_data ev) < u64_limit"
    using assms by (simp add: hist_pre_def)
  then have b: "h_bytes (push_event h ev) = h_bytes h + length (ev_data ev)"
    by (simp add: push_event_def u64_add_small)
  have "chain (h_earliest h) (live h @ [ev]) (end_seq ev)"
    using assms by (auto simp: hist_pre_def)
  moreover have "h_earliest h \<le> h_latest h" using assms(1) by (rule hist_earliest_le)
  moreover have "\<forall>(a, n) \<in> set (h_acks h). n \<le> end_seq ev"
    using assms by (fastforce simp: hist_pre_def)
  ultimately show ?thesis
    using assms unfolding hist_pre_def l b by (simp add: push_event_def)
qed

lemma append_owned_cases:
  assumes "hist_inv h"
  obtains (empty) "data = []"
      "append_owned h ch data =
         (Inr \<lparr>channel = ch, start_seq = h_latest h, end_seq = h_latest h, ev_data = []\<rparr>, h)"
  | (full) "data \<noteq> []" "u64_limit \<le> h_latest h + length data"
      "append_owned h ch data = (Inl ErrSequenceFull, h)"
  | (stored) ev where "data \<noteq> []" "h_latest h + length data < u64_limit"
      "ev = \<lparr>channel = ch, start_seq = h_latest h, end_seq = h_latest h + length data, ev_data = data\<rparr>"
      "append_owned h ch data = (Inr ev, compact_locked (push_event h ev))"
proof -
  have lt: "h_latest h < u64_limit" using assms by (simp add: hist_inv_def)
  then have iff: "length data > u64_sub (u64_limit - 1) (h_latest h) \<longleftrightarrow>
      u64_limit \<le> h_latest h + length data" by auto
  show thesis
  proof (cases "data = []")
    case True
    then show ?thesis by (intro empty) (simp_all add: append_owned_def)
  next
    case False
    show ?thesis
    proof (cases "u64_limit \<le> h_latest h + length data")
      case True
      then show ?thesis using False iff by (intro full) (simp_all add: append_owned_def)
    next
      case fits: False
      then have "u64_add (h_latest h) (length data) = h_latest h + length data"
        by (simp add: u64_add_small)
      then show ?thesis using False fits iff
        by (intro stored [OF _ _ refl]) (simp_all add: append_owned_def push_event_def Let_def)
    qed
  qed
qed

lemma append_owned_effect:
  assumes "hist_inv h" "append_owned h ch data = (Inr ev, h')"
  shows "hist_inv h' \<and> ev = \<lparr>channel = ch, start_seq = h_latest h,
           end_seq = h_latest h + length data, ev_data = data\<rparr> \<and>
         h_latest h' = h_latest h + length data \<and> h_max h' = h_max h \<and> h_acks h' = h_acks h \<and>
         h_earliest h \<le> h_earliest h' \<and>
         content h' = drop (h_earliest h' - h_earliest h) (content h @ data)"
proof (cases rule: append_owned_cases [OF assms(1), of data ch])
  case 1
  with assms show ?thesis by simp
next
  case 2
  with assms show ?thesis by simp
next
  case (3 e)
  have pre: "hist_pre h" using assms(1) by (simp add: hist_inv_pre)
  have epre: "hist_pre (push_event h e)" using 3 pre by (intro push_event_pre) simp_all
  have "content (push_event h e) = content h @ data"
    using 3 pre by (simp add: content_def push_event_live hist_pre_def)
  moreover have "h_earliest (push_event h e) = h_earliest h" "h_latest (push_event h e) = h_latest h + length data"
    "h_max (push_event h e) = h_max h" "h_acks (push_event h e) = h_acks h"
    using 3 by (simp_all add: push_event_def)
  ultimately show ?thesis
    using 3 assms(2) compact_locked_inv [OF epre] compact_locked_content [OF epre]
      compact_locked_frame [OF epre] by simp
qed

lemma append_owned_error: "append_owned h ch data = (Inl e, h') \<Longrightarrow> h' = h \<and> e = ErrSequenceFull"
  by (auto simp: append_owned_def Let_def split: if_splits)

lemma set_limit_effect:
  assumes "hist_inv h" "set_limit h n = Inr h'"
  shows "hist_inv h' \<and> h_latest h' = h_latest h \<and> h_earliest h \<le> h_earliest h' \<and> h_max h' = n \<and>
         content h' = drop (h_earliest h' - h_earliest h) (content h)"
proof -
  have h': "h' = compact_locked (h\<lparr>h_max := n\<rparr>)" and n: "0 < n"
    using assms(2) by (auto simp: set_limit_def split: if_splits)
  have pre: "hist_pre (h\<lparr>h_max := n\<rparr>)"
    using assms(1) n by (simp add: hist_inv_pre hist_pre_def live_def)
  have "content (h\<lparr>h_max := n\<rparr>) = content h" by (simp add: content_def live_def)
  then show ?thesis
    using h' compact_locked_inv [OF pre] compact_locked_content [OF pre] compact_locked_frame [OF pre]
    by simp
qed

lemma clear_effect:
  assumes "hist_inv h" "clear h = (n, h')"
  shows "hist_inv h' \<and> n = h_latest h \<and> h_latest h' = h_latest h \<and> h_earliest h' = h_latest h \<and>
         content h' = []"
  using assms by (auto simp: clear_def hist_inv_def live_def content_def)

lemma acknowledge_effect:
  assumes "hist_inv h" "acknowledge h aid n = Inr h'"
  shows "hist_inv h' \<and> content h' = content h \<and> h_earliest h' = h_earliest h \<and>
         h_latest h' = h_latest h \<and> acknowledged h' aid = Some n \<and> n \<le> h_latest h \<and>
         (\<forall>m. acknowledged h aid = Some m \<longrightarrow> m \<le> n)"
proof -
  have h': "h' = h\<lparr>h_acks := AList.update aid n (h_acks h)\<rparr>" and n: "n \<le> h_latest h"
    and mono: "\<forall>m. map_of (h_acks h) aid = Some m \<longrightarrow> m \<le> n"
    using assms(2) by (auto simp: acknowledge_def split: if_splits option.splits)
  have "\<forall>(a, m) \<in> set (AList.update aid n (h_acks h)). m \<le> h_latest h"
    using assms(1) n set_update_subset [of aid n "h_acks h"] by (fastforce simp: hist_inv_def)
  then show ?thesis using assms(1) h' n mono
    by (simp add: hist_inv_def live_def content_def acknowledged_def)
qed

subsection \<open>Replay and restore\<close>

lemma replay_owned_ok:
  fixes limit :: nat
  assumes "hist_inv h" "h_earliest h \<le> frm" "frm \<le> h_latest h"
  defines "n \<equiv> read_amount limit (h_latest h - frm)"
  obtains r where "replay_owned h frm limit = Inr r" "r_from r = frm" "r_to r = frm + n"
    "r_earliest r = h_earliest h" "r_latest r = h_latest h" "chain frm (r_events r) (frm + n)"
    "payload (r_events r) = take n (drop (frm - h_earliest h) (content h))"
proof -
  obtain evs to where loop: "replay_loop frm limit limit frm (live h) = (evs, to)"
    by (cases "replay_loop frm limit limit frm (live h)")
  have "chain (h_earliest h) (live h) (h_latest h)" "h_latest h < u64_limit" "limit = 0 \<or> 0 < limit"
    using assms(1) by (auto simp: hist_inv_def)
  from replay_loop_correct [OF this loop] assms(2)
  have "payload evs = take n (drop (frm - h_earliest h) (content h))" "chain frm evs (frm + n)"
    "to = frm + n"
    by (auto simp: n_def replay_amount_read max_absorb1 content_def split: if_splits)
  then show thesis using assms(2,3) loop
    by (intro that [of "\<lparr>r_from = frm, r_to = to, r_earliest = h_earliest h, r_latest = h_latest h,
          r_events = evs\<rparr>"]) (simp_all add: replay_owned_def)
qed

lemma replay_owned_gap: "frm < h_earliest h \<Longrightarrow>
    replay_owned h frm limit = Inl (GapError frm (h_earliest h) (h_latest h))"
  and replay_owned_future: "h_earliest h \<le> frm \<Longrightarrow> h_latest h < frm \<Longrightarrow>
    replay_owned h frm limit = Inl ErrInvalidCursor"
  by (simp_all add: replay_owned_def)

lemma restore_loop_spec:
  assumes "h_latest h + length (payload evs) < u64_limit" "\<forall>e \<in> set evs. end_seq e < u64_limit"
    and "h_bytes h + length (payload evs) < u64_limit"
  shows "restore_loop h evs =
    (if chain (h_latest h) evs (h_latest h + length (payload evs))
     then Inr (h\<lparr>h_events := h_events h @ evs, h_bytes := h_bytes h + length (payload evs),
                 h_latest := h_latest h + length (payload evs)\<rparr>)
     else Inl ErrInvalidCursor)"
  using assms
proof (induction evs arbitrary: h)
  case Nil
  then show ?case by simp
next
  case (Cons e evs)
  show ?case
  proof (cases "start_seq e = h_latest h \<and> end_seq e = h_latest h + length (ev_data e)")
    case True
    then have "u64_sub (end_seq e) (start_seq e) = length (ev_data e)"
      "u64_add (h_bytes h) (length (ev_data e)) = h_bytes h + length (ev_data e)"
      using Cons.prems by (simp_all add: u64_add_small)
    then have step: "restore_loop h (e # evs) = restore_loop (h\<lparr>h_events := h_events h @ [e],
        h_bytes := h_bytes h + length (ev_data e), h_latest := end_seq e\<rparr>) evs"
      using True by simp
    have len: "length (payload (e # evs)) = length (ev_data e) + length (payload evs)" by simp
    show ?thesis
      unfolding step using True Cons.prems
      by (subst Cons.IH) (simp_all add: add.assoc)
  next
    case False
    have "u64_sub (end_seq e) (start_seq e) \<noteq> length (ev_data e)"
      if st: "start_seq e = h_latest h"
    proof
      assume eq: "u64_sub (end_seq e) (start_seq e) = length (ev_data e)"
      have "end_seq e = u64_add (u64_sub (end_seq e) (start_seq e)) (start_seq e)"
        using Cons.prems st by (simp add: u64_sub_add_cancel)
      also have "\<dots> = length (ev_data e) + h_latest h"
        using Cons.prems eq st by (simp add: u64_add_small)
      finally show False using False st by simp
    qed
    with False show ?thesis by auto
  qed
qed

theorem restore_correct:
  assumes "earliest + length (payload evs) < u64_limit" "\<forall>e \<in> set evs. end_seq e < u64_limit"
  shows "(\<exists>h. restore max_bytes earliest latest evs = Inr h) \<longleftrightarrow>
           0 < max_bytes \<and> chain earliest evs latest \<and> length (payload evs) \<le> max_bytes"
    and "restore max_bytes earliest latest evs = Inr h \<Longrightarrow>
           hist_inv h \<and> content h = payload evs \<and> h_earliest h = earliest \<and> h_latest h = latest \<and>
           h_max h = max_bytes \<and> h_acks h = []"
proof -
  let ?h = "\<lparr>h_max = max_bytes, h_bytes = 0, h_earliest = earliest, h_latest = earliest,
             h_events = [], h_head = 0, h_acks = []\<rparr>"
  have loop: "restore_loop ?h evs =
    (if chain earliest evs (earliest + length (payload evs))
     then Inr (?h\<lparr>h_events := evs, h_bytes := length (payload evs),
                  h_latest := earliest + length (payload evs)\<rparr>)
     else Inl ErrInvalidCursor)"
    using restore_loop_spec [of ?h evs] assms by simp
  have ch: "chain earliest evs (earliest + length (payload evs)) \<and> latest = earliest + length (payload evs)
      \<longleftrightarrow> chain earliest evs latest"
    using chain_length by blast
  have eq: "restore max_bytes earliest latest evs =
    (if 0 < max_bytes \<and> chain earliest evs latest \<and> length (payload evs) \<le> max_bytes
     then Inr (?h\<lparr>h_events := evs, h_bytes := length (payload evs), h_latest := latest\<rparr>)
     else Inl ErrInvalidCursor)"
  proof (cases "max_bytes = 0 \<or> earliest > latest")
    case True
    then show ?thesis using chain_le [of earliest evs latest]
      by (auto simp: restore_def new_history_def)
  next
    case False
    then have "restore max_bytes earliest latest evs = (case restore_loop ?h evs of
        Inl e \<Rightarrow> Inl e
      | Inr h' \<Rightarrow> if h_latest h' \<noteq> latest \<or> h_bytes h' > max_bytes then Inl ErrInvalidCursor else Inr h')"
      by (simp add: restore_def new_history_def)
    then show ?thesis unfolding loop ch [symmetric] using False by auto
  qed
  show "(\<exists>h. restore max_bytes earliest latest evs = Inr h) \<longleftrightarrow>
      0 < max_bytes \<and> chain earliest evs latest \<and> length (payload evs) \<le> max_bytes"
    unfolding eq by auto
  show "restore max_bytes earliest latest evs = Inr h \<Longrightarrow>
      hist_inv h \<and> content h = payload evs \<and> h_earliest h = earliest \<and> h_latest h = latest \<and>
      h_max h = max_bytes \<and> h_acks h = []"
    unfolding eq using assms(1) chain_length [of earliest evs latest]
    by (auto simp: hist_inv_def live_def content_def split: if_splits)
qed

subsection \<open>The history provides the output log contract\<close>

definition hist_put :: "history \<Rightarrow> byte \<Rightarrow> bytes \<Rightarrow> history option" where
  "hist_put h ch data = (case append_owned h ch data of (Inr ev, h') \<Rightarrow> Some h' | (Inl e, h') \<Rightarrow> None)"

definition hist_get :: "history \<Rightarrow> nat \<Rightarrow> nat \<Rightarrow> event list option" where
  "hist_get h frm limit = (case replay_owned h frm limit of Inr r \<Rightarrow> Some (r_events r) | Inl e \<Rightarrow> None)"

lemma hist_put_Some: "hist_put h ch d = Some h' \<longleftrightarrow> (\<exists>ev. append_owned h ch d = (Inr ev, h'))"
  by (auto simp: hist_put_def split: prod.splits sum.splits)

interpretation hist_log: output_log hist_inv h_earliest h_latest content hist_put hist_get
proof unfold_locales
  fix s
  assume "hist_inv s"
  then show "h_earliest s \<le> h_latest s \<and> length (content s) = h_latest s - h_earliest s"
    by (simp add: hist_inv_pre hist_earliest_le content_length)
next
  fix s a n
  assume "hist_inv s" "h_earliest s \<le> a" "a \<le> h_latest s"
  then obtain r where "replay_owned s a n = Inr r"
    "chain a (r_events r) (a + read_amount n (h_latest s - a))"
    "payload (r_events r) = take (read_amount n (h_latest s - a)) (drop (a - h_earliest s) (content s))"
    by (rule replay_owned_ok)
  then show "\<exists>es. hist_get s a n = Some es \<and> chain a es (a + read_amount n (h_latest s - a)) \<and>
      payload es = take (read_amount n (h_latest s - a)) (drop (a - h_earliest s) (content s))"
    by (simp add: hist_get_def)
next
  fix s :: history and a n
  assume "a < h_earliest s \<or> h_latest s < a"
  then show "hist_get s a n = None" by (auto simp: hist_get_def replay_owned_def)
qed (auto simp: hist_put_Some dest: append_owned_effect)

subsection \<open>Runs\<close>

datatype hist_op =
    HAppend byte bytes
  | HSetLimit nat
  | HClear
  | HAck string nat

fun hist_step :: "history \<Rightarrow> hist_op \<Rightarrow> history" where
  "hist_step h (HAppend ch data) = snd (append_owned h ch data)"
| "hist_step h (HSetLimit n) = (case set_limit h n of Inr h' \<Rightarrow> h' | Inl e \<Rightarrow> h)"
| "hist_step h HClear = snd (clear h)"
| "hist_step h (HAck aid n) = (case acknowledge h aid n of Inr h' \<Rightarrow> h' | Inl e \<Rightarrow> h)"

text \<open>The bytes an operation adds to the stream.\<close>

fun hist_emit :: "history \<Rightarrow> hist_op \<Rightarrow> bytes" where
  "hist_emit h (HAppend ch data) =
     (case fst (append_owned h ch data) of Inr ev \<Rightarrow> ev_data ev | Inl e \<Rightarrow> [])"
| "hist_emit h x = []"

text \<open>The abstract specification: a history is the tail of the stream from \<open>earliest\<close> on.\<close>

definition tail_of :: "history \<Rightarrow> bytes \<Rightarrow> bool" where
  "tail_of h T \<longleftrightarrow> hist_inv h \<and> h_latest h = length T \<and> content h = drop (h_earliest h) T"

lemma tail_of_drop:
  assumes "tail_of h T" "hist_inv h'" "h_latest h' = h_latest h + length d" "h_earliest h \<le> h_earliest h'"
    "content h' = drop (h_earliest h' - h_earliest h) (content h @ d)"
  shows "tail_of h' (T @ d)"
proof -
  have "h_earliest h \<le> length T"
    using assms(1) hist_earliest_le [of h] by (auto simp: tail_of_def hist_inv_pre)
  then have "content h @ d = drop (h_earliest h) (T @ d)"
    using assms(1) by (simp add: tail_of_def)
  then have "content h' = drop (h_earliest h' - h_earliest h + h_earliest h) (T @ d)"
    unfolding assms(5) by (simp only: drop_drop)
  with assms show ?thesis by (simp add: tail_of_def)
qed

lemma hist_step_tail: "tail_of h T \<Longrightarrow> tail_of (hist_step h x) (T @ hist_emit h x)"
proof (cases x)
  case (HAppend ch data)
  assume t: "tail_of h T"
  then have inv: "hist_inv h" by (simp add: tail_of_def)
  obtain res h' where res: "append_owned h ch data = (res, h')" by (cases "append_owned h ch data")
  show ?thesis
  proof (cases res)
    case (Inl e)
    then show ?thesis using t res HAppend append_owned_error [of h ch data e h'] by simp
  next
    case (Inr ev)
    from append_owned_effect [OF inv res [unfolded Inr]]
    have "hist_inv h'" "ev_data ev = data" "h_latest h' = h_latest h + length data"
      "h_earliest h \<le> h_earliest h'" "content h' = drop (h_earliest h' - h_earliest h) (content h @ data)"
      by auto
    then show ?thesis using tail_of_drop [OF t] res HAppend Inr by simp
  qed
next
  case (HSetLimit n)
  assume t: "tail_of h T"
  show ?thesis
  proof (cases "set_limit h n")
    case (Inl e)
    then show ?thesis using t HSetLimit by simp
  next
    case (Inr h')
    then show ?thesis using t set_limit_effect [of h n h'] tail_of_drop [of h T h' "[]"] HSetLimit
      by (simp add: tail_of_def)
  qed
next
  case HClear
  assume t: "tail_of h T"
  then show ?thesis using clear_effect [of h "h_latest h" "snd (clear h)"] HClear
    by (simp add: tail_of_def clear_def)
next
  case (HAck aid n)
  assume t: "tail_of h T"
  then show ?thesis using acknowledge_effect [of h aid n] HAck
    by (auto simp: tail_of_def split: sum.splits)
qed

interpretation hist_machine: traced_machine hist_step hist_emit tail_of
  by unfold_locales (rule hist_step_tail)

subsection \<open>Properties\<close>


definition sample_history :: history where
  "sample_history = \<lparr>h_max = 4, h_bytes = 0, h_earliest = 0, h_latest = 0, h_events = [],
                      h_head = 0, h_acks = []\<rparr>"

lemmas hist_eval = Let_def sample_history_def append_owned_def compact_locked_def compact_loop.simps
  u64_add_def u64_sub_def u64_limit_def live_def content_def hist_inv_def


text \<open>
  C8: A replay within the retained range returns the requested bytes exactly: the
  events form a gap-free run that starts at the cursor and their concatenation is
  the retained content from there, cut at the byte limit (0 means no limit).  A
  cursor before the range is reported as a gap with the true bounds, one after it
  as invalid.
\<close>

theorem replay_exact:
  assumes "hist_inv h"
  shows "if frm < h_earliest h then
           replay_owned h frm limit = Inl (GapError frm (h_earliest h) (h_latest h))
         else if h_latest h < frm then replay_owned h frm limit = Inl ErrInvalidCursor
         else \<exists>r. replay_owned h frm limit = Inr r \<and> chain frm (r_events r) (r_to r) \<and>
                r_to r = frm + read_amount limit (h_latest h - frm) \<and>
                payload (r_events r) =
                  take (read_amount limit (h_latest h - frm)) (drop (frm - h_earliest h) (content h))"
proof (cases "h_earliest h \<le> frm \<and> frm \<le> h_latest h")
  case True
  then obtain r where "replay_owned h frm limit = Inr r"
    "r_to r = frm + read_amount limit (h_latest h - frm)"
    "chain frm (r_events r) (frm + read_amount limit (h_latest h - frm))"
    "payload (r_events r) =
       take (read_amount limit (h_latest h - frm)) (drop (frm - h_earliest h) (content h))"
    using replay_owned_ok [OF assms, of frm limit] by blast
  with True show ?thesis by simp
next
  case False
  then show ?thesis by (auto simp: replay_owned_gap replay_owned_future)
qed

theorem replay_exact_witness:
  "hist_inv (run hist_step sample_history [HAppend 1 [7, 8, 9]]) \<and>
   (\<exists>r. replay_owned (run hist_step sample_history [HAppend 1 [7, 8, 9]]) 1 1 = Inr r \<and>
        payload (r_events r) = [8])"
proof -
  let ?h = "run hist_step sample_history [HAppend 1 [7, 8, 9]]"
  have inv: "hist_inv ?h" by (simp add: hist_eval)
  have "h_earliest ?h = 0" "h_latest ?h = 3" "content ?h = [7, 8, 9]" by (simp_all add: hist_eval)
  with inv replay_exact [OF inv, of 1 1] show ?thesis by (auto simp: read_amount_def)
qed

lemma append_owned_drops:
  assumes "hist_inv h" "append_owned h ch data = (Inr ev, h')" "data \<noteq> []"
  shows "\<exists>dropped. live h @ [ev] = dropped @ live h' \<and>
           (dropped \<noteq> [] \<longrightarrow> h_max h < length (ev_data (last dropped)) + length (content h'))"
proof (cases rule: append_owned_cases [OF assms(1), of data ch])
  case 1
  with assms show ?thesis by simp
next
  case 2
  with assms show ?thesis by simp
next
  case (3 e)
  have pre: "hist_pre h" using assms(1) by (simp add: hist_inv_pre)
  have epre: "hist_pre (push_event h e)" using 3 pre by (intro push_event_pre) simp_all
  have h': "h' = compact_locked (push_event h e)" and ev: "ev = e" using 3 assms(2) by simp_all
  obtain dropped where d: "live (push_event h e) = dropped @ live h'"
    "dropped \<noteq> [] \<Longrightarrow> h_max (push_event h e) < length (ev_data (last dropped)) + h_bytes h'"
    using compact_locked_drops [OF epre] unfolding h' by blast
  have "h_bytes h' = length (content h')"
    using compact_locked_inv [OF epre] hist_pre_bytes [of h'] unfolding h' hist_inv_pre content_def by blast
  moreover have "h_max (push_event h e) = h_max h" by (simp add: push_event_def)
  moreover have "live (push_event h e) = live h @ [ev]"
    using ev pre by (simp add: push_event_live hist_pre_def)
  ultimately show ?thesis using d by (intro exI [of _ dropped]) auto
qed

text \<open>
  Compaction keeps as much as the limit allows: an append drops whole events from
  the front only, and if it drops any, then keeping the last dropped one would have
  exceeded the limit.
\<close>

theorem append_drops_minimally:
  assumes "hist_inv h" "append_owned h ch data = (Inr ev, h')" "data \<noteq> []"
  shows "\<exists>dropped. live h @ [ev] = dropped @ live h' \<and>
           (dropped \<noteq> [] \<longrightarrow> h_max h < length (ev_data (last dropped)) + length (content h'))"
  by (rule append_owned_drops [OF assms])

theorem append_drops_minimally_witness:
  "\<exists>dropped ev h'. append_owned (run hist_step sample_history [HAppend 1 [7, 8, 9]]) 1 [10, 11] = (Inr ev, h') \<and>
     live (run hist_step sample_history [HAppend 1 [7, 8, 9]]) @ [ev] = dropped @ live h'"
proof -
  let ?h = "run hist_step sample_history [HAppend 1 [7, 8, 9]]"
  have inv: "hist_inv ?h" by (simp add: hist_eval)
  have "\<exists>ev h'. append_owned ?h 1 [10, 11] = (Inr ev, h')" by (simp add: hist_eval)
  then obtain ev h' where "append_owned ?h 1 [10, 11] = (Inr ev, h')" by blast
  from this append_drops_minimally [OF inv this] show ?thesis by blast
qed

end
