(* ===== verification/Session_State.thy ===== *)
theory Session_State
  imports Prelude
begin

section \<open>Session and attachment lifecycles\<close>

text \<open>
  Model of \<open>src/internal/session/state.go\<close>: the two transition tables, the
  lifecycle of a session with its process generation (a \<open>uint64\<close>), its recovery
  from a stored state, and the lifecycle of an attachment.  The Go type \<open>State\<close> is
  a string; \<open>state_name\<close> gives the string of each constant and \<open>parse_state\<close>
  reads a stored one back.
\<close>

datatype session_state =
    Creating | Running | Exited | Restarting | Closing | Closed | Deleted

datatype state_error = ErrInvalidTransition

fun state_name :: "session_state \<Rightarrow> string" where
  "state_name Creating = ''creating''"
| "state_name Running = ''running''"
| "state_name Exited = ''exited''"
| "state_name Restarting = ''restarting''"
| "state_name Closing = ''closing''"
| "state_name Closed = ''closed''"
| "state_name Deleted = ''deleted''"

definition all_states :: "session_state list" where
  "all_states = [Creating, Running, Exited, Restarting, Closing, Closed, Deleted]"

definition parse_state :: "string \<Rightarrow> session_state option" where
  "parse_state s = map_of (map (\<lambda>q. (state_name q, q)) all_states) s"

text \<open>The map \<open>transitions\<close>, one row per state.\<close>

fun transitions :: "session_state \<Rightarrow> session_state list" where
  "transitions Creating = [Running, Exited, Closed]"
| "transitions Running = [Exited, Closing, Restarting]"
| "transitions Exited = [Restarting, Closing, Deleted]"
| "transitions Restarting = [Running, Exited, Closed]"
| "transitions Closing = [Closed]"
| "transitions Closed = [Restarting, Deleted]"
| "transitions Deleted = []"

record lifecycle =
  l_state :: session_state
  l_generation :: nat

definition new_lifecycle :: lifecycle where
  "new_lifecycle = \<lparr>l_state = Creating, l_generation = 0\<rparr>"

definition recover_lifecycle :: "string \<Rightarrow> nat \<Rightarrow> state_error + lifecycle" where
  "recover_lifecycle st generation =
     (case parse_state st of
        None \<Rightarrow> Inl ErrInvalidTransition
      | Some q \<Rightarrow>
          if q = Creating \<and> generation \<noteq> 0
             \<or> q \<in> {Running, Exited, Restarting, Closing} \<and> generation = 0
          then Inl ErrInvalidTransition
          else Inr \<lparr>l_state = q, l_generation = generation\<rparr>)"

definition transition :: "lifecycle \<Rightarrow> session_state \<Rightarrow> state_error + lifecycle" where
  "transition l to =
     (if to \<notin> set (transitions (l_state l)) then Inl ErrInvalidTransition
      else
        let g = (if to = Running \<and> (l_state l = Creating \<or> l_state l = Restarting)
                 then u64_add (l_generation l) 1 else l_generation l)
        in Inr \<lparr>l_state = to, l_generation = g\<rparr>)"

datatype attachment_state = Attaching | Attached | Detached | Evicted

fun attachment_transitions :: "attachment_state \<Rightarrow> attachment_state list" where
  "attachment_transitions Attaching = [Attached, Detached, Evicted]"
| "attachment_transitions Attached = [Detached, Evicted]"
| "attachment_transitions Detached = []"
| "attachment_transitions Evicted = []"

definition attachment_transition ::
    "attachment_state \<Rightarrow> attachment_state \<Rightarrow> state_error + attachment_state" where
  "attachment_transition st to =
     (if to \<notin> set (attachment_transitions st) then Inl ErrInvalidTransition else Inr to)"

subsection \<open>Transition tables\<close>

text \<open>
  What the code relies on of either table: a final state has no row entry, so
  nothing leaves it.  Paths are the accepted sequences of transitions.
\<close>

locale transition_table =
  fixes row :: "'q \<Rightarrow> 'q list"
    and final :: "'q \<Rightarrow> bool"
  assumes final_row: "final q \<Longrightarrow> row q = []"
begin

inductive reach :: "'q \<Rightarrow> 'q \<Rightarrow> bool" where
  here: "reach q q"
| there: "reach q r \<Longrightarrow> s \<in> set (row r) \<Longrightarrow> reach q s"

lemma final_stays: "reach q r \<Longrightarrow> final q \<Longrightarrow> r = q"
  by (induction rule: reach.induct) (auto dest: final_row)

lemma reach_trans: "reach r s \<Longrightarrow> reach q r \<Longrightarrow> reach q s"
  by (induction rule: reach.induct) (auto intro: reach.intros)

end

interpretation session_table: transition_table transitions "\<lambda>q. q = Deleted"
  by unfold_locales simp

interpretation attachment_table: transition_table attachment_transitions "\<lambda>q. q = Detached \<or> q = Evicted"
  by unfold_locales auto

lemma parse_state_name [simp]: "parse_state (state_name q) = Some q"
  by (cases q) (simp_all add: parse_state_def all_states_def)

lemma parse_state_Some: "parse_state s = Some q \<Longrightarrow> s = state_name q"
  by (auto simp: parse_state_def all_states_def split: if_splits)

lemma state_name_inject [simp]: "state_name q = state_name r \<longleftrightarrow> q = r"
  by (metis option.inject parse_state_name)

subsection \<open>Runs of the lifecycle\<close>

definition life_step :: "lifecycle \<Rightarrow> session_state \<Rightarrow> lifecycle" where
  "life_step l to = (case transition l to of Inr l' \<Rightarrow> l' | Inl e \<Rightarrow> l)"

text \<open>The launches an accepted transition records: one for each entry into \<open>Running\<close>.\<close>

definition life_emit :: "lifecycle \<Rightarrow> session_state \<Rightarrow> session_state list" where
  "life_emit l to = (case transition l to of Inr l' \<Rightarrow> [to] | Inl e \<Rightarrow> [])"

definition launches :: "session_state list \<Rightarrow> nat" where
  "launches qs = length (filter (\<lambda>q. q = Running) qs)"

lemma transition_Inr:
  "transition l to = Inr l' \<longleftrightarrow>
     to \<in> set (transitions (l_state l)) \<and> l_state l' = to \<and>
     l_generation l' = (if to = Running then u64_add (l_generation l) 1 else l_generation l)"
proof -
  have "Running \<in> set (transitions (l_state l)) \<Longrightarrow> l_state l = Creating \<or> l_state l = Restarting"
    by (cases "l_state l") auto
  then show ?thesis by (auto simp: transition_def Let_def)
qed

lemma transition_Inl: "transition l to = Inl e \<longleftrightarrow> to \<notin> set (transitions (l_state l))"
  by (cases e) (auto simp: transition_def Let_def)

definition life_inv :: "lifecycle \<Rightarrow> session_state list \<Rightarrow> bool" where
  "life_inv l qs \<longleftrightarrow>
     l_generation l = launches qs mod u64_limit \<and> session_table.reach Creating (l_state l) \<and>
     (Deleted \<in> set qs \<longrightarrow> l_state l = Deleted)"

lemma life_step_inv: "life_inv l qs \<Longrightarrow> life_inv (life_step l to) (qs @ life_emit l to)"
proof (cases "transition l to")
  case (Inl e)
  assume "life_inv l qs"
  with Inl show ?thesis by (simp add: life_step_def life_emit_def)
next
  case (Inr l')
  assume inv: "life_inv l qs"
  from Inr have tr: "to \<in> set (transitions (l_state l))" "l_state l' = to"
    "l_generation l' = (if to = Running then u64_add (l_generation l) 1 else l_generation l)"
    by (simp_all add: transition_Inr)
  have "Deleted \<notin> set qs" using inv tr(1) by (auto simp: life_inv_def)
  moreover have "l_generation l' = launches (qs @ [to]) mod u64_limit"
    using inv tr(3) by (simp add: life_inv_def launches_def u64_add_def mod_Suc_eq)
  moreover have "session_table.reach Creating to"
    using inv tr(1) by (auto simp: life_inv_def intro: session_table.reach.there)
  ultimately show ?thesis using Inr tr(2) by (simp add: life_inv_def life_step_def life_emit_def)
qed

interpretation life_machine: traced_machine life_step life_emit life_inv
  by unfold_locales (rule life_step_inv)

text \<open>
  C9: The process generation counts launches.  Whatever sequence of transitions is
  requested of a new session, the generation is the number of accepted entries into
  \<open>Running\<close> (as a \<open>uint64\<close>), and once a session has been deleted no request moves
  it again.
\<close>

theorem generation_counts_launches:
  "let l = run life_step new_lifecycle requests;
       accepted = trace life_step life_emit new_lifecycle requests
   in l_generation l = launches accepted mod u64_limit \<and>
      (Deleted \<in> set accepted \<longrightarrow> l_state l = Deleted \<and> (\<forall>to. \<exists>e. transition l to = Inl e))"
proof -
  have "life_inv new_lifecycle []"
    by (simp add: life_inv_def new_lifecycle_def launches_def session_table.reach.here)
  then have inv: "life_inv (run life_step new_lifecycle requests)
      (trace life_step life_emit new_lifecycle requests)"
    by (rule life_machine.run_inv_init)
  have "\<exists>e. transition l to = Inl e" if "l_state l = Deleted" for l :: lifecycle and to
    using that by (simp add: transition_def)
  with inv show ?thesis by (simp add: life_inv_def Let_def)
qed


theorem generation_counts_launches_witness:
  "let l = run life_step new_lifecycle [Running, Exited, Closed, Restarting, Running, Exited, Deleted, Running]
   in l_generation l = 2 \<and> l_state l = Deleted"
  using generation_counts_launches [of "[Running, Exited, Closed, Restarting, Running, Exited, Deleted, Running]"]
  by (simp add: life_step_def life_emit_def transition_def new_lifecycle_def launches_def u64_add_def
      u64_limit_def Let_def)

end
