(* ===== verification/Output_Fanout.thy ===== *)
theory Output_Fanout
  imports Output_Event Session_State
begin

section \<open>Fanout of output to attachments\<close>

text \<open>
  Model of \<open>src/internal/session/fanout.go\<close>.  \<open>fanout\<close> is the struct \<open>Fanout\<close>:
  the attachments by id, the lock-free set of active ids, and one ordered ring of
  output chunks that all attachments share.  An attachment keeps a cursor into the
  sequence numbers and byte counts, never bytes of its own.  Each operation runs
  under the mutex and is one definition.  \<open>Enqueue\<close> and \<open>Publish\<close> copy the bytes
  and call the owned variants modelled here.  A notification channel of capacity
  one is the flag \<open>a_notify\<close>.

  The buffer reference counts are not modelled (see \<open>Output_History\<close>).
\<close>

datatype fanout_error =
    ErrAttachmentExists
  | ErrAttachmentUnknown
  | ErrAttachmentEvicted
  | ErrOutputOrder
  | ErrInvalidQueueLimit
  | FanoutInvalidTransition

record attachment_cursor =
  a_state :: attachment_state
  a_max :: nat
  a_queued :: nat
  a_evicted :: nat
  a_cursor :: nat
  a_end :: nat
  a_has :: bool
  a_notify :: bool

record fanout =
  f_atts :: "attachment_cursor gomap"
  f_active :: "string list"
  f_ring :: "event list"

record eviction =
  ev_attachment :: string
  ev_queued :: nat
  ev_reason :: string

definition new_fanout :: fanout where
  "new_fanout = \<lparr>f_atts = [], f_active = [], f_ring = []\<rparr>"

definition fresh_cursor :: "nat \<Rightarrow> attachment_cursor" where
  "fresh_cursor max_pending =
     \<lparr>a_state = Attached, a_max = max_pending, a_queued = 0, a_evicted = 0, a_cursor = 0,
      a_end = 0, a_has = False, a_notify = False\<rparr>"

definition fanout_attach :: "fanout \<Rightarrow> string \<Rightarrow> nat \<Rightarrow> fanout_error + fanout" where
  "fanout_attach f aid max_pending =
     (if aid = [] \<or> max_pending = 0 then Inl ErrInvalidQueueLimit
      else if (case map_of (f_atts f) aid of Some c \<Rightarrow> a_state c = Attached | None \<Rightarrow> False)
      then Inl ErrAttachmentExists
      else Inr (f\<lparr>f_atts := AList.update aid (fresh_cursor max_pending) (f_atts f),
                  f_active := List.insert aid (f_active f)\<rparr>))"

text \<open>\<open>compactLocked\<close>: the smallest cursor of an attached consumer bounds the ring.\<close>

fun min_cursor :: "attachment_cursor gomap \<Rightarrow> nat option" where
  "min_cursor [] = None"
| "min_cursor ((aid, c) # cs) =
     (if a_state c \<noteq> Attached \<or> \<not> a_has c then min_cursor cs
      else case min_cursor cs of None \<Rightarrow> Some (a_cursor c) | Some m \<Rightarrow> Some (min (a_cursor c) m))"

definition fanout_compact :: "fanout \<Rightarrow> fanout" where
  "fanout_compact f =
     (case min_cursor (f_atts f) of
        None \<Rightarrow> f\<lparr>f_ring := []\<rparr>
      | Some m \<Rightarrow> f\<lparr>f_ring := dropWhile (\<lambda>e. end_seq e \<le> m) (f_ring f)\<rparr>)"

definition fanout_detach :: "fanout \<Rightarrow> string \<Rightarrow> fanout_error + fanout" where
  "fanout_detach f aid =
     (case map_of (f_atts f) aid of
        None \<Rightarrow> Inl ErrAttachmentUnknown
      | Some c \<Rightarrow>
          if a_state c \<noteq> Attached \<and> a_state c \<noteq> Evicted then Inl FanoutInvalidTransition
          else Inr (fanout_compact
                 (f\<lparr>f_active := removeAll aid (f_active f), f_atts := AList.delete aid (f_atts f)\<rparr>)))"

definition fanout_count :: "fanout \<Rightarrow> nat" where
  "fanout_count f = length (filter (\<lambda>(aid, c). a_state c = Attached) (f_atts f))"

definition is_attached :: "fanout \<Rightarrow> string \<Rightarrow> bool" where
  "is_attached f aid \<longleftrightarrow> aid \<in> set (f_active f)"

definition valid_output_event :: "event \<Rightarrow> bool" where
  "valid_output_event ev \<longleftrightarrow>
     start_seq ev \<le> end_seq ev \<and> u64_sub (end_seq ev) (start_seq ev) = length (ev_data ev) \<and>
     ev_data ev \<noteq> []"

text \<open>
  The order \<open>sort.Slice\<close> puts the ring in: by start, the longer event first.  As an
  instance of \<open>linorder\<close> it makes the library's sorting apply.
\<close>

datatype ring_key = Ring_Key nat nat

instantiation ring_key :: linorder
begin

fun less_eq_ring_key :: "ring_key \<Rightarrow> ring_key \<Rightarrow> bool" where
  "less_eq_ring_key (Ring_Key s e) (Ring_Key s' e') \<longleftrightarrow> s < s' \<or> s = s' \<and> e' \<le> e"

fun less_ring_key :: "ring_key \<Rightarrow> ring_key \<Rightarrow> bool" where
  "less_ring_key (Ring_Key s e) (Ring_Key s' e') \<longleftrightarrow> s < s' \<or> s = s' \<and> e' < e"

instance
proof
  fix x y z :: ring_key
  show "(x < y) = (x \<le> y \<and> \<not> y \<le> x)" by (cases x; cases y) auto
  show "x \<le> x" by (cases x) auto
  show "x \<le> y \<Longrightarrow> y \<le> z \<Longrightarrow> x \<le> z" by (cases x; cases y; cases z) auto
  show "x \<le> y \<Longrightarrow> y \<le> x \<Longrightarrow> x = y" by (cases x; cases y) auto
  show "x \<le> y \<or> y \<le> x" by (cases x; cases y) auto
qed

end

definition ring_key :: "event \<Rightarrow> ring_key" where
  "ring_key ev = Ring_Key (start_seq ev) (end_seq ev)"

text \<open>
  \<open>contains ex ev\<close>: the chunk \<open>ex\<close> covers the interval of \<open>ev\<close> on the same channel
  with the same bytes.
\<close>

definition contains :: "event \<Rightarrow> event \<Rightarrow> bool" where
  "contains ex ev \<longleftrightarrow>
     start_seq ex \<le> start_seq ev \<and> end_seq ev \<le> end_seq ex \<and> channel ex = channel ev \<and>
     take (u64_sub (end_seq ev) (start_seq ev))
       (drop (u64_sub (start_seq ev) (start_seq ex)) (ev_data ex)) = ev_data ev"

datatype ring_scan = Present | Covers nat | Absent

fun scan_ring :: "event \<Rightarrow> nat \<Rightarrow> event list \<Rightarrow> ring_scan" where
  "scan_ring ev i [] = Absent"
| "scan_ring ev i (ex # ring) =
     (if contains ex ev then Present
      else if contains ev ex then Covers i
      else scan_ring ev (Suc i) ring)"

lemma scan_ring_Covers: "scan_ring ev i ring = Covers j \<Longrightarrow> i \<le> j \<and> j < i + length ring"
  by (induction ring arbitrary: i) (fastforce split: if_splits)+

function insert_event :: "event \<Rightarrow> event list \<Rightarrow> event list" where
  "insert_event ev ring =
     (case scan_ring ev 0 ring of
        Present \<Rightarrow> ring
      | Covers i \<Rightarrow> insert_event ev (take i ring @ drop (Suc i) ring)
      | Absent \<Rightarrow> sort_key ring_key (ring @ [ev]))"
  by pat_completeness auto
termination
  by (relation "measure (\<lambda>(ev, ring). length ring)") (auto dest!: scan_ring_Covers)

declare insert_event.simps [simp del]

text \<open>\<open>sort.Search\<close> of the standard library: binary search for the first true index.\<close>

function search_loop :: "(nat \<Rightarrow> bool) \<Rightarrow> nat \<Rightarrow> nat \<Rightarrow> nat" where
  "search_loop p i j =
     (if i < j then
        let m = (i + j) div 2
        in if \<not> p m then search_loop p (Suc m) j else search_loop p i m
      else i)"
  by pat_completeness auto
termination
  by (relation "measure (\<lambda>(p, i, j). j - i)") auto

declare search_loop.simps [simp del]

definition event_at :: "event list \<Rightarrow> nat \<Rightarrow> event option" where
  "event_at ring seq =
     (let i = search_loop (\<lambda>i. end_seq (ring ! i) > seq) 0 (length ring)
      in if i = length ring \<or> start_seq (ring ! i) > seq then None else Some (ring ! i))"

text \<open>What a published event does to one attachment.\<close>

definition overflows :: "attachment_cursor \<Rightarrow> event \<Rightarrow> bool" where
  "overflows c ev \<longleftrightarrow> length (ev_data ev) > u64_sub (a_max c) (a_queued c)"

definition evict :: "attachment_cursor \<Rightarrow> attachment_cursor" where
  "evict c = c\<lparr>a_evicted := a_queued c, a_queued := 0, a_state := Evicted, a_notify := True\<rparr>"

definition accept :: "attachment_cursor \<Rightarrow> event \<Rightarrow> attachment_cursor" where
  "accept c ev =
     c\<lparr>a_cursor := (if a_has c then a_cursor c else start_seq ev), a_has := True,
       a_end := end_seq ev, a_queued := u64_add (a_queued c) (length (ev_data ev)),
       a_notify := True\<rparr>"

definition publish_to :: "event \<Rightarrow> attachment_cursor \<Rightarrow> attachment_cursor" where
  "publish_to ev c =
     (if a_state c \<noteq> Attached then c else if overflows c ev then evict c else accept c ev)"

definition evicted_by :: "event \<Rightarrow> string \<times> attachment_cursor \<Rightarrow> bool" where
  "evicted_by ev p \<longleftrightarrow> a_state (snd p) = Attached \<and> overflows (snd p) ev"

definition make_eviction :: "string \<times> attachment_cursor \<Rightarrow> eviction" where
  "make_eviction p =
     \<lparr>ev_attachment = fst p, ev_queued = a_queued (snd p), ev_reason = ''slow_consumer''\<rparr>"

definition out_of_order :: "event \<Rightarrow> string \<times> attachment_cursor \<Rightarrow> bool" where
  "out_of_order ev p \<longleftrightarrow>
     a_state (snd p) = Attached \<and> a_has (snd p) \<and> a_end (snd p) \<noteq> start_seq ev"

definition publish_owned :: "fanout \<Rightarrow> event \<Rightarrow> fanout_error + (eviction list \<times> fanout)" where
  "publish_owned f ev =
     (if \<not> valid_output_event ev then Inl ErrOutputOrder
      else if list_ex (out_of_order ev) (f_atts f) then Inl ErrOutputOrder
      else
        let gone = filter (evicted_by ev) (f_atts f)
        in Inr (map make_eviction gone,
                fanout_compact
                  (f\<lparr>f_ring := insert_event ev (f_ring f),
                     f_atts := map (\<lambda>(aid, c). (aid, publish_to ev c)) (f_atts f),
                     f_active := filter (\<lambda>aid. aid \<notin> fst ` set gone) (f_active f)\<rparr>)))"

definition enqueue_owned ::
    "fanout \<Rightarrow> string \<Rightarrow> event \<Rightarrow> fanout_error + (eviction option \<times> fanout)" where
  "enqueue_owned f aid ev =
     (if \<not> valid_output_event ev then Inl ErrOutputOrder
      else case map_of (f_atts f) aid of
        None \<Rightarrow> Inl ErrAttachmentUnknown
      | Some c \<Rightarrow>
          if a_state c = Evicted then Inl ErrAttachmentEvicted
          else if a_state c \<noteq> Attached then Inl FanoutInvalidTransition
          else if a_has c \<and> a_end c \<noteq> start_seq ev then Inl ErrOutputOrder
          else if overflows c ev then
            Inr (Some (make_eviction (aid, c)),
                 fanout_compact (f\<lparr>f_atts := AList.update aid (evict c) (f_atts f),
                                   f_active := removeAll aid (f_active f)\<rparr>))
          else
            Inr (None, f\<lparr>f_ring := insert_event ev (f_ring f),
                         f_atts := AList.update aid (accept c ev) (f_atts f)\<rparr>))"

text \<open>
  The critical section of \<open>Next\<close> and of one round of \<open>WaitNextOwned\<close>: the next
  piece for the attachment, or \<open>None\<close> when nothing is queued.
\<close>

definition next_owned :: "fanout \<Rightarrow> string \<Rightarrow> fanout_error + (event option \<times> fanout)" where
  "next_owned f aid =
     (case map_of (f_atts f) aid of
        None \<Rightarrow> Inl ErrAttachmentUnknown
      | Some c \<Rightarrow>
          if a_state c = Evicted then Inl ErrAttachmentEvicted
          else if a_state c \<noteq> Attached then Inl FanoutInvalidTransition
          else if \<not> a_has c \<or> a_cursor c \<ge> a_end c then Inr (None, f)
          else case event_at (f_ring f) (a_cursor c) of
            None \<Rightarrow> Inl ErrOutputOrder
          | Some e \<Rightarrow>
              let piece = e\<lparr>start_seq := a_cursor c,
                            ev_data := drop (u64_sub (a_cursor c) (start_seq e)) (ev_data e)\<rparr>;
                  c' = c\<lparr>a_cursor := end_seq e,
                         a_queued := u64_sub (a_queued c) (u64_sub (end_seq e) (a_cursor c))\<rparr>
              in Inr (Some piece, fanout_compact (f\<lparr>f_atts := AList.update aid c' (f_atts f)\<rparr>)))"

text \<open>
  One round of the loop of \<open>WaitNextOwned\<close>: deliver, fail, take the pending
  notification and go round again, or block on the channel.
\<close>

datatype wait_round = Deliver event fanout | Fail fanout_error | Again fanout | Block

definition wait_next_round :: "fanout \<Rightarrow> string \<Rightarrow> wait_round" where
  "wait_next_round f aid =
     (case next_owned f aid of
        Inl e \<Rightarrow> Fail e
      | Inr (Some ev, f') \<Rightarrow> Deliver ev f'
      | Inr (None, f') \<Rightarrow>
          (case map_of (f_atts f) aid of
             Some c \<Rightarrow> if a_notify c
                         then Again (f\<lparr>f_atts := AList.update aid (c\<lparr>a_notify := False\<rparr>) (f_atts f)\<rparr>)
                         else Block
           | None \<Rightarrow> Block))"

definition fanout_status :: "fanout \<Rightarrow> string \<Rightarrow> fanout_error + (attachment_state \<times> nat)" where
  "fanout_status f aid =
     (case map_of (f_atts f) aid of
        None \<Rightarrow> Inl ErrAttachmentUnknown
      | Some c \<Rightarrow> Inr (a_state c, if a_state c = Evicted then a_evicted c else a_queued c))"

end
