(* ===== verification/Fanout_Proofs.thy ===== *)
theory Fanout_Proofs
  imports Output_Fanout
begin

section \<open>The fanout delivers the stream\<close>

text \<open>
  The chunks a session ever produced, \<open>G\<close>, form a chain.  Everything the fanout
  holds is a piece of one of them.  This theory gives the invariant of the fanout
  relative to \<open>G\<close> and proves that every operation of \<open>Output_Fanout\<close> keeps it,
  that the ring lookup finds the wanted piece, and what each operation does to the
  position of an attachment in the stream.
\<close>

subsection \<open>Chunks and pieces\<close>

definition good_chunks :: "nat \<Rightarrow> event list \<Rightarrow> nat \<Rightarrow> bool" where
  "good_chunks b G L \<longleftrightarrow> chain b G L \<and> L < u64_limit \<and> (\<forall>g \<in> set G. ev_data g \<noteq> [])"

definition piece :: "event list \<Rightarrow> event \<Rightarrow> bool" where
  "piece G e \<longleftrightarrow>
     (\<exists>g \<in> set G. start_seq g \<le> start_seq e \<and> start_seq e < end_seq e \<and> end_seq e = end_seq g \<and>
        channel e = channel g \<and> ev_data e = drop (start_seq e - start_seq g) (ev_data g))"

lemma good_chunk_member:
  assumes "good_chunks b G L" "g \<in> set G"
  shows "end_seq g = start_seq g + length (ev_data g)" "start_seq g < end_seq g"
    "b \<le> start_seq g" "end_seq g \<le> L"
  using chain_member [of b G L g] assms by (auto simp: good_chunks_def)

lemma chunks_disjoint:
  assumes "good_chunks b G L" "g \<in> set G" "g' \<in> set G"
  shows "g = g' \<or> end_seq g \<le> start_seq g' \<or> end_seq g' \<le> start_seq g"
  using assms
proof (induction G arbitrary: b)
  case Nil
  then show ?case by simp
next
  case (Cons x G)
  have gc: "good_chunks (end_seq x) G L" using Cons.prems(1) by (auto simp: good_chunks_def)
  have "end_seq x \<le> start_seq y" if "y \<in> set G" for y
    using good_chunk_member(3) [OF gc that] .
  with Cons.IH [OF gc] Cons.prems(2,3) show ?case by auto
qed

lemma piece_bounds:
  assumes "good_chunks b G L" "piece G e"
  shows "start_seq e < end_seq e" "end_seq e = start_seq e + length (ev_data e)" "end_seq e \<le> L"
    "end_seq e < u64_limit"
proof -
  from assms(2) obtain g where g: "g \<in> set G" "start_seq g \<le> start_seq e" "start_seq e < end_seq e"
    "end_seq e = end_seq g" "ev_data e = drop (start_seq e - start_seq g) (ev_data g)"
    by (auto simp: piece_def)
  note m = good_chunk_member [OF assms(1) g(1)]
  show "start_seq e < end_seq e" by (rule g(3))
  show "end_seq e = start_seq e + length (ev_data e)" using g m by simp
  show "end_seq e \<le> L" using g m by simp
  then show "end_seq e < u64_limit" using assms(1) by (simp add: good_chunks_def)
qed

lemma pieces_apart:
  assumes "good_chunks b G L" "piece G e" "piece G e'" "end_seq e \<noteq> end_seq e'"
  shows "end_seq e \<le> start_seq e' \<or> end_seq e' \<le> start_seq e"
proof -
  from assms(2,3) obtain g g' where g: "g \<in> set G" "start_seq g \<le> start_seq e" "end_seq e = end_seq g"
    and g': "g' \<in> set G" "start_seq g' \<le> start_seq e'" "end_seq e' = end_seq g'"
    by (auto simp: piece_def)
  with chunks_disjoint [OF assms(1) g(1) g'(1)] assms(4) show ?thesis by auto
qed

lemma same_end_same_chunk:
  assumes "good_chunks b G L" "g \<in> set G" "g' \<in> set G" "end_seq g = end_seq g'"
  shows "g = g'"
  using chunks_disjoint [OF assms(1-3)] good_chunk_member [OF assms(1,2)]
    good_chunk_member [OF assms(1,3)] assms(4) by auto

lemma pieces_same_end_data:
  assumes "good_chunks b G L" "piece G e" "piece G e'" "end_seq e = end_seq e'"
    "start_seq e \<le> start_seq e'"
  shows "channel e = channel e'" "ev_data e' = drop (start_seq e' - start_seq e) (ev_data e)"
proof -
  from assms(2,3) obtain g g' where g: "g \<in> set G" "start_seq g \<le> start_seq e" "end_seq e = end_seq g"
      "channel e = channel g" "ev_data e = drop (start_seq e - start_seq g) (ev_data g)"
    and g': "g' \<in> set G" "end_seq e' = end_seq g'"
      "channel e' = channel g'" "ev_data e' = drop (start_seq e' - start_seq g') (ev_data g')"
    by (auto simp: piece_def)
  have "g = g'" using same_end_same_chunk [OF assms(1) g(1) g'(1)] g(3) g'(2) assms(4) by simp
  with g g' assms(5) show "channel e = channel e'"
    "ev_data e' = drop (start_seq e' - start_seq e) (ev_data e)" by simp_all
qed

lemma contains_piece:
  assumes "good_chunks b G L" "piece G ex" "piece G ev"
  shows "contains ex ev \<longleftrightarrow> end_seq ex = end_seq ev \<and> start_seq ex \<le> start_seq ev"
proof
  assume c: "contains ex ev"
  then have "start_seq ex \<le> start_seq ev" "end_seq ev \<le> end_seq ex" by (auto simp: contains_def)
  with pieces_apart [OF assms] piece_bounds(1) [OF assms(1,2)] piece_bounds(1) [OF assms(1,3)]
  show "end_seq ex = end_seq ev \<and> start_seq ex \<le> start_seq ev" by linarith
next
  assume e: "end_seq ex = end_seq ev \<and> start_seq ex \<le> start_seq ev"
  have d: "channel ex = channel ev" "ev_data ev = drop (start_seq ev - start_seq ex) (ev_data ex)"
    using pieces_same_end_data [OF assms] e by blast+
  have "length (ev_data ev) = end_seq ev - start_seq ev" "start_seq ev \<le> end_seq ev"
    using piece_bounds(1,2) [OF assms(1,3)] by linarith+
  then have "take (u64_sub (end_seq ev) (start_seq ev)) (ev_data ev) = ev_data ev" by simp
  then show "contains ex ev" unfolding contains_def using e d by simp
qed

subsection \<open>The ring\<close>

definition before :: "event \<Rightarrow> event \<Rightarrow> bool" where
  "before e e' \<longleftrightarrow> end_seq e \<le> start_seq e'"

definition ring_inv :: "event list \<Rightarrow> event list \<Rightarrow> bool" where
  "ring_inv G ring \<longleftrightarrow> (\<forall>e \<in> set ring. piece G e) \<and> sorted_wrt before ring"

definition covered :: "event list \<Rightarrow> nat \<Rightarrow> bool" where
  "covered ring q \<longleftrightarrow> (\<exists>e \<in> set ring. start_seq e \<le> q \<and> q < end_seq e)"

lemma ring_inv_distinct: "ring_inv G ring \<Longrightarrow> distinct ring"
proof (induction ring)
  case Nil
  then show ?case by simp
next
  case (Cons e ring)
  then have "e \<notin> set ring" by (force simp: ring_inv_def piece_def before_def)
  with Cons show ?case by (auto simp: ring_inv_def)
qed

lemma sorted_key_before:
  assumes "sorted (map ring_key xs)" "distinct xs"
    and "\<forall>e \<in> set xs. start_seq e < end_seq e"
    and "\<forall>e \<in> set xs. \<forall>e' \<in> set xs. e = e' \<or> before e e' \<or> before e' e"
  shows "sorted_wrt before xs"
  unfolding sorted_wrt_iff_nth_less
proof (intro allI impI)
  fix i j
  assume ij: "i < j" "j < length xs"
  then have "ring_key (xs ! i) \<le> ring_key (xs ! j)"
    using assms(1) by (simp add: sorted_iff_nth_mono)
  then have "start_seq (xs ! i) \<le> start_seq (xs ! j)" by (auto simp: ring_key_def)
  moreover have "xs ! i \<noteq> xs ! j" using ij assms(2) by (simp add: nth_eq_iff_index_eq)
  moreover have m: "xs ! i \<in> set xs" "xs ! j \<in> set xs" using ij by auto
  moreover have "start_seq (xs ! j) < end_seq (xs ! j)" using assms(3) m(2) by (rule bspec)
  ultimately have "before (xs ! i) (xs ! j) \<or> end_seq (xs ! j) \<le> start_seq (xs ! i)"
    using assms(4) unfolding before_def by blast
  then show "before (xs ! i) (xs ! j)"
    using \<open>start_seq (xs ! j) < end_seq (xs ! j)\<close> \<open>start_seq (xs ! i) \<le> start_seq (xs ! j)\<close> by linarith
qed

lemma scan_ring_Present: "scan_ring ev i ring = Present \<Longrightarrow> \<exists>ex \<in> set ring. contains ex ev"
  by (induction ring arbitrary: i) (auto split: if_splits)

lemma scan_ring_Covers_nth:
  "scan_ring ev i ring = Covers j \<Longrightarrow> contains ev (ring ! (j - i))"
proof (induction ring arbitrary: i)
  case Nil
  then show ?case by simp
next
  case (Cons e ring)
  show ?case
  proof (cases "contains e ev \<or> contains ev e")
    case True
    with Cons.prems show ?thesis by (auto split: if_splits)
  next
    case False
    with Cons.prems have s: "scan_ring ev (Suc i) ring = Covers j" by simp
    then have "j - i = Suc (j - Suc i)" using scan_ring_Covers [OF s] by linarith
    then show ?thesis using Cons.IH [OF s] by simp
  qed
qed

lemma scan_ring_Absent:
  "scan_ring ev i ring = Absent \<Longrightarrow> ex \<in> set ring \<Longrightarrow> \<not> contains ex ev \<and> \<not> contains ev ex"
  by (induction ring arbitrary: i) (auto split: if_splits)

lemma ring_inv_remove: "ring_inv G ring \<Longrightarrow> ring_inv G (take i ring @ drop (Suc i) ring)"
proof -
  assume r: "ring_inv G ring"
  show ?thesis
  proof (cases "i < length ring")
    case True
    then have "ring = take i ring @ ring ! i # drop (Suc i) ring" by (rule id_take_nth_drop)
    then have "sorted_wrt before (take i ring @ ring ! i # drop (Suc i) ring)"
      using r by (simp add: ring_inv_def)
    then have "sorted_wrt before (take i ring @ drop (Suc i) ring)"
      by (simp add: sorted_wrt_append)
    with r show ?thesis by (auto simp: ring_inv_def dest: in_set_takeD in_set_dropD)
  next
    case False
    with r show ?thesis by simp
  qed
qed

lemma covered_insert:
  assumes "set ring = insert e (set r)"
  shows "covered ring q \<longleftrightarrow> covered r q \<or> start_seq e \<le> q \<and> q < end_seq e"
  using assms by (auto simp: covered_def)

lemma insert_event_spec:
  assumes "good_chunks b G L" "ring_inv G ring" "piece G ev"
  shows "ring_inv G (insert_event ev ring) \<and>
         (\<forall>q. covered (insert_event ev ring) q \<longleftrightarrow>
                covered ring q \<or> start_seq ev \<le> q \<and> q < end_seq ev)"
  using assms(2)
proof (induction "length ring" arbitrary: ring rule: less_induct)
  case less
  note pv = piece_bounds [OF assms(1,3)]
  show ?case
  proof (cases "scan_ring ev 0 ring")
    case Present
    then obtain ex where ex: "ex \<in> set ring" "contains ex ev" by (auto dest: scan_ring_Present)
    have "start_seq ex \<le> start_seq ev" "end_seq ev \<le> end_seq ex"
      using ex(2) by (simp_all add: contains_def)
    then have "covered ring q" if "start_seq ev \<le> q" "q < end_seq ev" for q
      unfolding covered_def using that ex(1) by (intro bexI [of _ ex]) linarith+
    moreover have "insert_event ev ring = ring" using Present by (subst insert_event.simps) simp
    ultimately show ?thesis using less.prems by auto
  next
    case (Covers i)
    let ?r = "take i ring @ drop (Suc i) ring"
    have i: "i < length ring" using scan_ring_Covers [OF Covers] by simp
    have c: "contains ev (ring ! i)" using scan_ring_Covers_nth [OF Covers] by simp
    have eq: "insert_event ev ring = insert_event ev ?r"
      using Covers by (subst insert_event.simps) simp
    have ih: "ring_inv G (insert_event ev ?r)"
      "\<And>q. covered (insert_event ev ?r) q \<longleftrightarrow> covered ?r q \<or> start_seq ev \<le> q \<and> q < end_seq ev"
      using less.hyps [of ?r] i ring_inv_remove [OF less.prems] by auto
    have "set ring = insert (ring ! i) (set ?r)"
      using arg_cong [OF id_take_nth_drop [OF i], of set] by simp
    note cov = covered_insert [OF this]
    have "start_seq ev \<le> start_seq (ring ! i)" "end_seq (ring ! i) \<le> end_seq ev"
      using c by (simp_all add: contains_def)
    then have "covered ?r q \<or> start_seq ev \<le> q \<and> q < end_seq ev \<longleftrightarrow>
        covered ring q \<or> start_seq ev \<le> q \<and> q < end_seq ev" for q
      unfolding cov by linarith
    then show ?thesis using ih unfolding eq by blast
  next
    case Absent
    have eq: "insert_event ev ring = sort_key ring_key (ring @ [ev])"
      using Absent by (subst insert_event.simps) simp
    have ps: "\<forall>e \<in> set ring. piece G e" and so: "sorted_wrt before ring"
      using less.prems by (simp_all add: ring_inv_def)
    have ne: "end_seq ex \<noteq> end_seq ev" if ex: "ex \<in> set ring" for ex
      using scan_ring_Absent [OF Absent ex] contains_piece [OF assms(1) _ assms(3)]
        contains_piece [OF assms(1) assms(3)] ps ex by (metis linear)
    have "before ex ev \<or> before ev ex" if "ex \<in> set ring" for ex
      using pieces_apart [OF assms(1) _ assms(3)] ne ps that by (auto simp: before_def)
    moreover have "e = e' \<or> before e e' \<or> before e' e" if "e \<in> set ring" "e' \<in> set ring" for e e'
      using so that by (auto simp: sorted_wrt_iff_nth_less in_set_conv_nth) (metis linorder_neqE_nat)
    ultimately have "\<forall>e \<in> set (ring @ [ev]). \<forall>e' \<in> set (ring @ [ev]). e = e' \<or> before e e' \<or> before e' e"
      by auto
    moreover have "distinct (ring @ [ev])" using ring_inv_distinct [OF less.prems] ne by auto
    moreover have "\<forall>e \<in> set (ring @ [ev]). start_seq e < end_seq e"
      using ps pv piece_bounds(1) [OF assms(1)] by auto
    ultimately have "sorted_wrt before (insert_event ev ring)"
      unfolding eq by (intro sorted_key_before) simp_all
    then have "ring_inv G (insert_event ev ring)"
      using ps assms(3) unfolding eq by (auto simp: ring_inv_def)
    moreover have "covered (insert_event ev ring) q \<longleftrightarrow>
        covered ring q \<or> start_seq ev \<le> q \<and> q < end_seq ev" for q
      unfolding eq covered_def by auto
    ultimately show ?thesis by blast
  qed
qed


subsection \<open>The lookup\<close>

lemma search_loop_spec:
  assumes "i \<le> j" "\<And>x y. i \<le> x \<Longrightarrow> x \<le> y \<Longrightarrow> y < j \<Longrightarrow> p x \<Longrightarrow> p y"
  shows "i \<le> search_loop p i j \<and> search_loop p i j \<le> j \<and>
         (\<forall>x. i \<le> x \<and> x < search_loop p i j \<longrightarrow> \<not> p x) \<and>
         (search_loop p i j < j \<longrightarrow> p (search_loop p i j))"
  using assms
proof (induction p i j rule: search_loop.induct)
  case (1 p i j)
  show ?case
  proof (cases "i < j")
    case False
    then have "search_loop p i j = i" by (subst search_loop.simps) simp
    with False "1.prems"(1) show ?thesis by auto
  next
    case True
    let ?m = "(i + j) div 2"
    have m: "i \<le> ?m" "?m < j" using True by simp_all
    show ?thesis
    proof (cases "p ?m")
      case True
      have eq: "search_loop p i j = search_loop p i ?m"
        using \<open>i < j\<close> True by (subst search_loop.simps) (simp add: Let_def)
      have ih: "i \<le> search_loop p i ?m \<and> search_loop p i ?m \<le> ?m \<and>
          (\<forall>x. i \<le> x \<and> x < search_loop p i ?m \<longrightarrow> \<not> p x) \<and>
          (search_loop p i ?m < ?m \<longrightarrow> p (search_loop p i ?m))"
      proof (rule "1.IH"(2) [OF \<open>i < j\<close> refl])
        show "\<not> \<not> p ?m" "i \<le> ?m" using True m by simp_all
        show "p y" if "i \<le> x" "x \<le> y" "y < ?m" "p x" for x y
          using "1.prems"(2) [OF that(1,2) _ that(4)] that(3) m(2) by linarith
      qed
      moreover have "p (search_loop p i ?m)"
        using ih True by (cases "search_loop p i ?m = ?m") simp_all
      ultimately show ?thesis unfolding eq using m by simp
    next
      case False
      have eq: "search_loop p i j = search_loop p (Suc ?m) j"
        using \<open>i < j\<close> False by (subst search_loop.simps) (simp add: Let_def)
      have below: "\<not> p x" if "i \<le> x" "x \<le> ?m" for x
        using "1.prems"(2) [OF that(1,2) m(2)] False by blast
      have "Suc ?m \<le> search_loop p (Suc ?m) j \<and> search_loop p (Suc ?m) j \<le> j \<and>
          (\<forall>x. Suc ?m \<le> x \<and> x < search_loop p (Suc ?m) j \<longrightarrow> \<not> p x) \<and>
          (search_loop p (Suc ?m) j < j \<longrightarrow> p (search_loop p (Suc ?m) j))"
      proof (rule "1.IH"(1) [OF \<open>i < j\<close> refl False])
        show "Suc ?m \<le> j" using m by simp
        show "p y" if "Suc ?m \<le> x" "x \<le> y" "y < j" "p x" for x y
          using "1.prems"(2) [OF _ that(2,3,4)] that(1) m(1) by linarith
      qed
      moreover have "\<not> p x" if "i \<le> x" "x < search_loop p (Suc ?m) j" for x
        using calculation below [OF that(1)] that(2) by (cases "x \<le> ?m") simp_all
      ultimately show ?thesis unfolding eq using m by simp
    qed
  qed
qed

lemma ring_ends_mono:
  assumes "ring_inv G ring" "x \<le> y" "y < length ring"
  shows "end_seq (ring ! x) \<le> end_seq (ring ! y)"
proof (cases "x = y")
  case False
  then have "before (ring ! x) (ring ! y)"
    using assms by (auto simp: ring_inv_def sorted_wrt_iff_nth_less)
  moreover have "piece G (ring ! y)" using assms(1,3) by (auto simp: ring_inv_def)
  ultimately show ?thesis by (auto simp: before_def piece_def)
qed simp

lemma event_at_Some:
  assumes "event_at ring q = Some e" "ring_inv G ring"
  shows "e \<in> set ring" "start_seq e \<le> q" "q < end_seq e"
proof -
  let ?p = "\<lambda>i. q < end_seq (ring ! i)"
  let ?k = "search_loop ?p 0 (length ring)"
  have sp: "?k \<le> length ring" "?k < length ring \<longrightarrow> ?p ?k"
    using search_loop_spec [of 0 "length ring" ?p] ring_ends_mono [OF assms(2)]
    by (meson le0 less_le_trans)+
  have "?k \<noteq> length ring" "e = ring ! ?k" "start_seq e \<le> q"
    using assms(1) by (auto simp: event_at_def Let_def split: if_splits)
  with sp show "e \<in> set ring" "start_seq e \<le> q" "q < end_seq e" by auto
qed

lemma event_at_covered:
  assumes "ring_inv G ring" "covered ring q"
  shows "\<exists>e. event_at ring q = Some e"
proof -
  let ?p = "\<lambda>i. q < end_seq (ring ! i)"
  let ?k = "search_loop ?p 0 (length ring)"
  have sp: "?k \<le> length ring" "\<forall>x. 0 \<le> x \<and> x < ?k \<longrightarrow> \<not> ?p x"
    using search_loop_spec [of 0 "length ring" ?p] ring_ends_mono [OF assms(1)]
    by (meson le0 less_le_trans)+
  from assms(2) obtain i where i: "i < length ring" "start_seq (ring ! i) \<le> q" "?p i"
    by (auto simp: covered_def in_set_conv_nth)
  then have ki: "?k \<le> i" using sp(2) by (meson le0 not_le)
  have "start_seq (ring ! ?k) \<le> q"
  proof (cases "?k = i")
    case False
    then have "before (ring ! ?k) (ring ! i)" "piece G (ring ! ?k)"
      using ki i assms(1) by (auto simp: ring_inv_def sorted_wrt_iff_nth_less)
    then show ?thesis using i(2) by (auto simp: before_def piece_def)
  qed (use i in simp)
  then have "event_at ring q = Some (ring ! ?k)" using ki i(1) by (simp add: event_at_def Let_def)
  then show ?thesis ..
qed

subsection \<open>Compaction\<close>

lemma min_cursor_le:
  "(aid, c) \<in> set cs \<Longrightarrow> a_state c = Attached \<Longrightarrow> a_has c \<Longrightarrow> \<exists>m. min_cursor cs = Some m \<and> m \<le> a_cursor c"
  by (induction cs) (fastforce split: option.splits)+

lemma compact_atts [simp]:
  "f_atts (fanout_compact f) = f_atts f" "f_active (fanout_compact f) = f_active f"
  by (simp_all add: fanout_compact_def split: option.splits)

lemma ring_inv_dropWhile: "ring_inv G ring \<Longrightarrow> ring_inv G (dropWhile P ring)"
  by (auto simp: ring_inv_def dropWhile_eq_drop sorted_wrt_drop dest: in_set_dropD)

lemma ring_inv_compact: "ring_inv G (f_ring f) \<Longrightarrow> ring_inv G (f_ring (fanout_compact f))"
  by (auto simp: fanout_compact_def ring_inv_dropWhile split: option.splits) (simp add: ring_inv_def)

lemma in_dropWhile_ends: "e \<in> set ring \<Longrightarrow> m < end_seq e \<Longrightarrow> e \<in> set (dropWhile (\<lambda>e. end_seq e \<le> m) ring)"
  by (induction ring) auto

lemma covered_compact:
  assumes "(aid, c) \<in> set (f_atts f)" "a_state c = Attached" "a_has c" "a_cursor c \<le> q"
    "covered (f_ring f) q"
  shows "covered (f_ring (fanout_compact f)) q"
proof -
  obtain m where m: "min_cursor (f_atts f) = Some m" "m \<le> a_cursor c"
    using min_cursor_le [OF assms(1-3)] by blast
  from assms(5) obtain e where e: "e \<in> set (f_ring f)" "start_seq e \<le> q" "q < end_seq e"
    by (auto simp: covered_def)
  then have "m < end_seq e" using m(2) assms(4) by linarith
  with e m(1) show ?thesis
    by (auto simp: covered_def fanout_compact_def intro!: bexI [of _ e] in_dropWhile_ends)
qed


subsection \<open>The invariant of the fanout\<close>

definition boundary :: "event list \<Rightarrow> nat \<Rightarrow> bool" where
  "boundary G q \<longleftrightarrow> (\<exists>g \<in> set G. end_seq g = q)"

definition cursor_ok :: "event list \<Rightarrow> event list \<Rightarrow> attachment_cursor \<Rightarrow> bool" where
  "cursor_ok G ring c \<longleftrightarrow>
     (a_state c = Attached \<or> a_state c = Evicted) \<and> a_max c < u64_limit \<and>
     (a_state c = Attached \<longrightarrow>
        a_queued c \<le> a_max c \<and>
        (if a_has c
         then a_cursor c \<le> a_end c \<and> a_queued c = a_end c - a_cursor c \<and> boundary G (a_end c) \<and>
              (\<forall>q. a_cursor c \<le> q \<and> q < a_end c \<longrightarrow> covered ring q)
         else a_queued c = 0))"

definition fanout_inv :: "event list \<Rightarrow> fanout \<Rightarrow> bool" where
  "fanout_inv G f \<longleftrightarrow>
     ring_inv G (f_ring f) \<and> keys_distinct (f_atts f) \<and>
     (\<forall>aid c. map_of (f_atts f) aid = Some c \<longrightarrow> cursor_ok G (f_ring f) c) \<and>
     (\<forall>aid. aid \<in> set (f_active f) \<longleftrightarrow>
        (\<exists>c. map_of (f_atts f) aid = Some c \<and> a_state c = Attached))"

definition synced :: "nat \<Rightarrow> fanout \<Rightarrow> bool" where
  "synced L f \<longleftrightarrow>
     (\<forall>aid c. map_of (f_atts f) aid = Some c \<longrightarrow> a_state c = Attached \<longrightarrow> a_has c \<longrightarrow> a_end c = L)"

text \<open>The position of an attachment in the stream whose end is \<open>L\<close>; \<open>None\<close> when it is not attached.\<close>

definition position :: "nat \<Rightarrow> fanout \<Rightarrow> string \<Rightarrow> nat option" where
  "position L f aid =
     (case map_of (f_atts f) aid of
        None \<Rightarrow> None
      | Some c \<Rightarrow> if a_state c \<noteq> Attached then None else Some (if a_has c then a_cursor c else L))"

lemma cursor_ok_mono:
  assumes "cursor_ok G ring c" "set G \<subseteq> set G'"
    "\<And>q. a_state c = Attached \<Longrightarrow> a_has c \<Longrightarrow> a_cursor c \<le> q \<Longrightarrow> covered ring q \<Longrightarrow> covered ring' q"
  shows "cursor_ok G' ring' c"
proof -
  have "boundary G q \<Longrightarrow> boundary G' q" for q using assms(2) by (auto simp: boundary_def)
  with assms(1,3) show ?thesis unfolding cursor_ok_def by auto
qed

lemma piece_mono: "piece G e \<Longrightarrow> set G \<subseteq> set G' \<Longrightarrow> piece G' e"
  unfolding piece_def by blast

lemma ring_inv_mono: "ring_inv G ring \<Longrightarrow> set G \<subseteq> set G' \<Longrightarrow> ring_inv G' ring"
  using piece_mono unfolding ring_inv_def by blast

lemma fanout_inv_mono: "fanout_inv G f \<Longrightarrow> set G \<subseteq> set G' \<Longrightarrow> fanout_inv G' f"
  unfolding fanout_inv_def using ring_inv_mono cursor_ok_mono by blast

lemma fanout_inv_compact:
  assumes "fanout_inv G f"
  shows "fanout_inv G (fanout_compact f)"
proof -
  have "cursor_ok G (f_ring (fanout_compact f)) c" if "map_of (f_atts f) aid = Some c" for aid c
  proof (rule cursor_ok_mono)
    show "cursor_ok G (f_ring f) c" using assms that by (simp add: fanout_inv_def)
    show "covered (f_ring (fanout_compact f)) q"
      if "a_state c = Attached" "a_has c" "a_cursor c \<le> q" "covered (f_ring f) q" for q
      using covered_compact that map_of_SomeD [OF \<open>map_of (f_atts f) aid = Some c\<close>] by blast
  qed simp
  with assms show ?thesis by (simp add: fanout_inv_def ring_inv_compact)
qed

lemma fanout_inv_new: "fanout_inv G new_fanout"
  by (simp add: fanout_inv_def new_fanout_def ring_inv_def)

lemma position_compact [simp]: "position L (fanout_compact f) = position L f"
  by (simp add: fun_eq_iff position_def)

lemma synced_compact [simp]: "synced L (fanout_compact f) = synced L f"
  by (simp add: synced_def)

subsection \<open>Attaching and detaching\<close>

lemma attach_keeps:
  assumes "fanout_inv G f" "fanout_attach f aid n = Inr f'" "n < u64_limit"
  shows "fanout_inv G f'" "synced L f \<Longrightarrow> synced L f'"
    "position L f' = (position L f)(aid := Some L)" "f_ring f' = f_ring f"
    "map_of (f_atts f') = (map_of (f_atts f))(aid \<mapsto> fresh_cursor n)" "n \<noteq> 0"
proof -
  have f': "f' = f\<lparr>f_atts := AList.update aid (fresh_cursor n) (f_atts f),
      f_active := List.insert aid (f_active f)\<rparr>" and n: "n \<noteq> 0"
    using assms(2) by (auto simp: fanout_attach_def split: if_splits)
  show m: "map_of (f_atts f') = (map_of (f_atts f))(aid \<mapsto> fresh_cursor n)"
    unfolding f' by (simp add: fun_eq_iff map_of_update)
  show "f_ring f' = f_ring f" unfolding f' by simp
  show "n \<noteq> 0" by (rule n)
  have k: "cursor_ok G ring (fresh_cursor n)" for ring
    using assms(3) by (simp add: cursor_ok_def fresh_cursor_def)
  show "fanout_inv G f'"
    using assms(1) k unfolding fanout_inv_def m
    by (auto simp: f' keys_distinct_update fresh_cursor_def split: if_splits)
  show "synced L f \<Longrightarrow> synced L f'"
    unfolding synced_def m by (auto simp: fresh_cursor_def)
  show "position L f' = (position L f)(aid := Some L)"
    by (auto simp: fun_eq_iff position_def m fresh_cursor_def)
qed

lemma detach_keeps:
  assumes "fanout_inv G f" "fanout_detach f aid = Inr f'"
  shows "fanout_inv G f'" "synced L f \<Longrightarrow> synced L f'"
    "position L f' = (position L f)(aid := None)"
proof -
  let ?f = "f\<lparr>f_active := removeAll aid (f_active f), f_atts := AList.delete aid (f_atts f)\<rparr>"
  have f': "f' = fanout_compact ?f"
    using assms(2) by (auto simp: fanout_detach_def split: if_splits option.splits)
  have m: "map_of (f_atts ?f) = (map_of (f_atts f))(aid := None)"
    by (simp add: fun_eq_iff map_of_delete)
  have "fanout_inv G ?f"
    using assms(1) unfolding fanout_inv_def m by (auto simp: keys_distinct_delete)
  then show "fanout_inv G f'" unfolding f' by (rule fanout_inv_compact)
  show "synced L f \<Longrightarrow> synced L f'" unfolding f' synced_compact synced_def m by auto
  show "position L f' = (position L f)(aid := None)"
    unfolding f' position_compact by (auto simp: fun_eq_iff position_def m)
qed

lemma detach_known:
  assumes "fanout_inv G f"
  shows "fanout_detach f aid = Inl ErrAttachmentUnknown \<and> map_of (f_atts f) aid = None \<or>
         (\<exists>f'. fanout_detach f aid = Inr f')"
proof (cases "map_of (f_atts f) aid")
  case (Some c)
  with assms have "a_state c = Attached \<or> a_state c = Evicted"
    by (auto simp: fanout_inv_def cursor_ok_def)
  with Some show ?thesis by (auto simp: fanout_detach_def)
qed (simp add: fanout_detach_def)


subsection \<open>Publishing\<close>

lemma piece_chunk:
  assumes "good_chunks b G L" "g \<in> set G"
  shows "piece G g"
  using good_chunk_member(2) [OF assms] assms(2) by (auto simp: piece_def)

lemma piece_boundary: "piece G e \<Longrightarrow> boundary G (end_seq e)"
  by (auto simp: piece_def boundary_def)

lemma piece_valid:
  assumes "good_chunks b G L" "piece G e"
  shows "valid_output_event e"
  using piece_bounds [OF assms] by (auto simp: valid_output_event_def)

lemma accept_ok:
  assumes gc: "good_chunks b G L" and pc: "piece G ev" and ok: "cursor_ok G ring c"
    and att: "a_state c = Attached" and room: "\<not> overflows c ev"
    and ord: "a_has c \<Longrightarrow> a_end c = start_seq ev"
    and cov: "\<And>q. covered ring' q \<longleftrightarrow> covered ring q \<or> start_seq ev \<le> q \<and> q < end_seq ev"
  shows "cursor_ok G ring' (accept c ev)"
proof -
  note pb = piece_bounds [OF gc pc]
  have q: "a_queued c \<le> a_max c" "a_max c < u64_limit" using ok att by (simp_all add: cursor_ok_def)
  then have fits: "a_queued c + length (ev_data ev) \<le> a_max c"
    using room by (simp add: overflows_def)
  then have u: "u64_add (a_queued c) (length (ev_data ev)) = a_queued c + length (ev_data ev)"
    using q by (simp add: u64_add_small)
  have bd: "boundary G (end_seq ev)" using pc by (rule piece_boundary)
  show ?thesis
  proof (cases "a_has c")
    case True
    then have c: "a_cursor c \<le> start_seq ev" "a_queued c = start_seq ev - a_cursor c"
        "\<forall>q. a_cursor c \<le> q \<and> q < start_seq ev \<longrightarrow> covered ring q"
      using ok att ord [OF True] by (simp_all add: cursor_ok_def)
    have "covered ring' q" if "a_cursor c \<le> q" "q < end_seq ev" for q
      unfolding cov using c(3) that by (cases "q < start_seq ev") simp_all
    then show ?thesis using c(1,2) pb(1,2) u bd q(2) fits att True
      by (simp add: cursor_ok_def accept_def)
  next
    case False
    then have "a_queued c = 0" using ok att by (simp add: cursor_ok_def)
    then show ?thesis using False u bd q(2) fits att pb(1,2) cov
      by (simp add: cursor_ok_def accept_def)
  qed
qed

lemma evict_ok: "cursor_ok G ring c \<Longrightarrow> cursor_ok G ring' (evict c)"
  by (simp add: cursor_ok_def evict_def)

lemma publish_to_ok:
  assumes "good_chunks b G L" "piece G ev" "cursor_ok G ring c"
    and "a_state c = Attached \<Longrightarrow> a_has c \<Longrightarrow> a_end c = start_seq ev"
    and "\<And>q. covered ring' q \<longleftrightarrow> covered ring q \<or> start_seq ev \<le> q \<and> q < end_seq ev"
  shows "cursor_ok G ring' (publish_to ev c)"
proof (cases "a_state c = Attached")
  case True
  then show ?thesis
    using accept_ok [OF assms(1-3) True _ assms(4)] evict_ok [OF assms(3)] assms(5)
    by (simp add: publish_to_def)
next
  case False
  then show ?thesis using cursor_ok_mono [OF assms(3) subset_refl] by (simp add: publish_to_def)
qed

definition evicts :: "fanout \<Rightarrow> event \<Rightarrow> string \<Rightarrow> bool" where
  "evicts f ev aid \<longleftrightarrow> (\<exists>c. map_of (f_atts f) aid = Some c \<and> evicted_by ev (aid, c))"

lemma publish_state: "a_state (publish_to ev c) = Attached \<longleftrightarrow> a_state c = Attached \<and> \<not> overflows c ev"
  by (simp add: publish_to_def evict_def accept_def)

lemma gone_ids:
  assumes "keys_distinct (f_atts f)"
  shows "aid \<in> fst ` set (filter (evicted_by ev) (f_atts f)) \<longleftrightarrow> evicts f ev aid"
  using assms by (force simp: evicts_def map_of_eq_Some_iff_in)

lemma publish_ok:
  assumes gc: "good_chunks b G L" and ev: "ev \<in> set G" and inv: "fanout_inv G f"
    and sy: "synced (start_seq ev) f"
  shows "\<exists>evs f'. publish_owned f ev = Inr (evs, f') \<and> fanout_inv G f' \<and> synced (end_seq ev) f' \<and>
           map ev_attachment evs = map fst (filter (evicted_by ev) (f_atts f)) \<and>
           (\<forall>aid. position (end_seq ev) f' aid =
              (if evicts f ev aid then None else position (start_seq ev) f aid))"
proof -
  have pc: "piece G ev" by (rule piece_chunk [OF gc ev])
  have kd: "keys_distinct (f_atts f)" and ri: "ring_inv G (f_ring f)"
    using inv by (simp_all add: fanout_inv_def)
  let ?ring = "insert_event ev (f_ring f)"
  let ?gone = "filter (evicted_by ev) (f_atts f)"
  let ?f = "f\<lparr>f_ring := ?ring, f_atts := map (\<lambda>(aid, c). (aid, publish_to ev c)) (f_atts f),
              f_active := filter (\<lambda>aid. aid \<notin> fst ` set ?gone) (f_active f)\<rparr>"
  note ins = insert_event_spec [OF gc ri pc]
  have m: "map_of (f_atts ?f) aid = map_option (publish_to ev) (map_of (f_atts f) aid)" for aid
    by (simp add: map_of_map_val)
  have "\<not> list_ex (out_of_order ev) (f_atts f)"
    using sy kd by (auto simp: list_ex_iff out_of_order_def synced_def map_of_eq_Some_iff_in)
  then have run: "publish_owned f ev = Inr (map make_eviction ?gone, fanout_compact ?f)"
    using piece_valid [OF gc pc] by (simp add: publish_owned_def Let_def)
  have cok: "cursor_ok G ?ring (publish_to ev c)" if "map_of (f_atts f) aid = Some c" for aid c
    using publish_to_ok [OF gc pc, of "f_ring f" c ?ring] ins inv sy that
    by (auto simp: fanout_inv_def synced_def)
  have act: "aid \<in> set (f_active ?f) \<longleftrightarrow>
      (\<exists>c. map_of (f_atts ?f) aid = Some c \<and> a_state c = Attached)" for aid
  proof -
    have "aid \<in> set (f_active f) \<longleftrightarrow> (\<exists>c. map_of (f_atts f) aid = Some c \<and> a_state c = Attached)"
      using inv unfolding fanout_inv_def by blast
    moreover have "aid \<in> set (f_active ?f) \<longleftrightarrow> aid \<in> set (f_active f) \<and> \<not> evicts f ev aid"
      using gone_ids [OF kd, of aid ev] by simp
    ultimately show ?thesis unfolding m evicts_def evicted_by_def
      by (cases "map_of (f_atts f) aid") (auto simp: publish_state simp del: map_of_eq_Some_iff_in)
  qed
  have "fanout_inv G ?f"
    unfolding fanout_inv_def using ins kd cok act m by auto
  then have 1: "fanout_inv G (fanout_compact ?f)" by (rule fanout_inv_compact)
  have 2: "synced (end_seq ev) (fanout_compact ?f)"
    unfolding synced_compact unfolding synced_def
  proof (intro allI impI)
    fix aid c
    assume "map_of (f_atts ?f) aid = Some c" "a_state c = Attached"
    then obtain c0 where "c = publish_to ev c0" "a_state (publish_to ev c0) = Attached"
      unfolding m by auto
    then show "a_end c = end_seq ev" by (auto simp: publish_to_def evict_def accept_def split: if_splits)
  qed
  have 3: "position (end_seq ev) (fanout_compact ?f) aid =
      (if evicts f ev aid then None else position (start_seq ev) f aid)" for aid
    unfolding position_compact unfolding position_def m evicts_def evicted_by_def
    by (auto simp: publish_to_def evict_def accept_def split: option.splits)
  have 4: "map ev_attachment (map make_eviction ?gone) = map fst ?gone"
    by (simp add: make_eviction_def)
  show ?thesis using run 1 2 3 4 by blast
qed


subsection \<open>Enqueueing for one attachment\<close>

lemma fanout_inv_update:
  assumes inv: "fanout_inv G f" and cur: "map_of (f_atts f) aid = Some c0"
    and st: "a_state c = a_state c0" and ok: "cursor_ok G ring c" and ri: "ring_inv G ring"
    and cov: "\<And>q. covered (f_ring f) q \<Longrightarrow> covered ring q"
  shows "fanout_inv G (f\<lparr>f_ring := ring, f_atts := AList.update aid c (f_atts f)\<rparr>)"
proof -
  have "cursor_ok G ring c'" if "map_of (f_atts f) aid' = Some c'" for aid' c'
    using cursor_ok_mono [OF _ subset_refl cov] inv that unfolding fanout_inv_def by blast
  moreover have "aid' \<in> set (f_active f) \<longleftrightarrow>
      (\<exists>c'. ((map_of (f_atts f))(aid \<mapsto> c)) aid' = Some c' \<and> a_state c' = Attached)" for aid'
    using inv cur st unfolding fanout_inv_def by (cases "aid' = aid") auto
  ultimately show ?thesis using inv ok ri unfolding fanout_inv_def
    by (auto simp: keys_distinct_update split: if_splits)
qed

lemma enqueue_ok:
  assumes gc: "good_chunks b G L" and pc: "piece G ev" and inv: "fanout_inv G f"
    and cur: "map_of (f_atts f) aid = Some c" and att: "a_state c = Attached"
    and ord: "a_has c \<Longrightarrow> a_end c = start_seq ev"
    and room: "a_queued c + length (ev_data ev) \<le> a_max c"
  shows "\<exists>f'. enqueue_owned f aid ev = Inr (None, f') \<and> fanout_inv G f' \<and>
           map_of (f_atts f') = (map_of (f_atts f))(aid \<mapsto> accept c ev)"
proof -
  let ?ring = "insert_event ev (f_ring f)"
  let ?f = "f\<lparr>f_ring := ?ring, f_atts := AList.update aid (accept c ev) (f_atts f)\<rparr>"
  have ri: "ring_inv G (f_ring f)" and ok: "cursor_ok G (f_ring f) c"
    using inv cur unfolding fanout_inv_def by blast+
  note ins = insert_event_spec [OF gc ri pc]
  have no: "\<not> overflows c ev" using room by (simp add: overflows_def)
  have "cursor_ok G ?ring (accept c ev)"
    using accept_ok [OF gc pc ok att no ord] ins by blast
  then have "fanout_inv G ?f"
    using ins by (intro fanout_inv_update [OF inv cur]) (auto simp: accept_def)
  moreover have "enqueue_owned f aid ev = Inr (None, ?f)"
    using piece_valid [OF gc pc] cur att ord no unfolding enqueue_owned_def by simp
  ultimately show ?thesis by auto
qed

subsection \<open>Delivery\<close>

lemma boundary_not_inside:
  assumes "good_chunks b G L" "boundary G q" "piece G e" "start_seq e < q"
  shows "q \<ge> end_seq e"
proof -
  from assms(2,3) obtain g g' where g: "g \<in> set G" "end_seq g = q"
    and g': "g' \<in> set G" "start_seq g' \<le> start_seq e" "end_seq e = end_seq g'"
    by (auto simp: boundary_def piece_def)
  show ?thesis
    using chunks_disjoint [OF assms(1) g(1) g'(1)] good_chunk_member(2) [OF assms(1) g(1)]
      g g' assms(4) by auto
qed

lemma piece_suffix:
  assumes "piece G e" "start_seq e \<le> q" "q < end_seq e"
  shows "piece G (e\<lparr>start_seq := q, ev_data := drop (q - start_seq e) (ev_data e)\<rparr>)"
proof -
  from assms(1) obtain g where "g \<in> set G" "start_seq g \<le> start_seq e" "end_seq e = end_seq g"
    "channel e = channel g" "ev_data e = drop (start_seq e - start_seq g) (ev_data g)"
    by (auto simp: piece_def)
  with assms(2,3) show ?thesis unfolding piece_def by (intro bexI [of _ g]) simp_all
qed

lemma next_idle:
  assumes "map_of (f_atts f) aid = Some c" "a_state c = Attached" "\<not> a_has c \<or> a_end c \<le> a_cursor c"
  shows "next_owned f aid = Inr (None, f)"
  using assms by (simp add: next_owned_def)

lemma next_delivers:
  assumes gc: "good_chunks b G L" and inv: "fanout_inv G f"
    and cur: "map_of (f_atts f) aid = Some c" and att: "a_state c = Attached" and has: "a_has c"
    and lt: "a_cursor c < a_end c"
  shows "\<exists>e f'. next_owned f aid = Inr (Some e, f') \<and> fanout_inv G f' \<and> piece G e \<and>
           start_seq e = a_cursor c \<and> end_seq e \<le> a_end c \<and> (synced l f \<longrightarrow> synced l f') \<and>
           position l f' = (position l f)(aid \<mapsto> end_seq e)"
proof -
  have ri: "ring_inv G (f_ring f)" and ok: "cursor_ok G (f_ring f) c"
    using inv cur unfolding fanout_inv_def by blast+
  then have cv: "covered (f_ring f) (a_cursor c)" and bd: "boundary G (a_end c)"
    and q: "a_queued c = a_end c - a_cursor c" "a_queued c \<le> a_max c"
    and all: "\<forall>q. a_cursor c \<le> q \<and> q < a_end c \<longrightarrow> covered (f_ring f) q"
    using att has lt by (simp_all add: cursor_ok_def)
  obtain e where at: "event_at (f_ring f) (a_cursor c) = Some e" using event_at_covered [OF ri cv] ..
  note e = event_at_Some [OF at ri]
  have pe: "piece G e" using ri e(1) by (simp add: ring_inv_def)
  have ee: "end_seq e \<le> a_end c" using boundary_not_inside [OF gc bd pe] e(2) lt by linarith
  let ?p = "e\<lparr>start_seq := a_cursor c, ev_data := drop (a_cursor c - start_seq e) (ev_data e)\<rparr>"
  let ?c = "c\<lparr>a_cursor := end_seq e, a_queued := a_queued c - (end_seq e - a_cursor c)\<rparr>"
  let ?f = "f\<lparr>f_atts := AList.update aid ?c (f_atts f)\<rparr>"
  have run: "next_owned f aid = Inr (Some ?p, fanout_compact ?f)"
    using cur att has lt at e ee q(1) by (simp add: next_owned_def Let_def)
  have "cursor_ok G (f_ring f) ?c"
    using ok att has e(3) ee q all bd by (simp add: cursor_ok_def)
  then have "fanout_inv G ?f" using fanout_inv_update [OF inv cur, of ?c "f_ring f"] ri by simp
  then have "fanout_inv G (fanout_compact ?f)" by (rule fanout_inv_compact)
  moreover have "synced l f \<longrightarrow> synced l (fanout_compact ?f)"
    unfolding synced_compact using cur att has unfolding synced_def by auto
  moreover have "position l (fanout_compact ?f) = (position l f)(aid \<mapsto> end_seq e)"
    unfolding position_compact using att has by (auto simp: fun_eq_iff position_def)
  moreover have "piece G ?p" by (rule piece_suffix [OF pe e(2,3)])
  ultimately show ?thesis using run ee by (intro exI [of _ ?p] exI [of _ "fanout_compact ?f"]) simp
qed

end
