(* ===== verification/Terminal_Output.thy ===== *)
theory Terminal_Output
  imports Output_History Fanout_Proofs
begin

section \<open>Terminal output: history and fanout together\<close>

text \<open>
  Model of the output side of a session in \<open>src/internal/session/manager.go\<close>: the
  part of \<open>capture\<close> that appends what the PTY produced and publishes it,
  \<open>attachLocked\<close> with its replay limit and its enqueue loop, and the manager's
  \<open>Attach\<close>, \<open>AttachLive\<close>, \<open>Detach\<close>, \<open>Next\<close> and \<open>Acknowledge\<close> as they act on the
  history and the fanout of one session.

  The properties state that this pair behaves as an abstract broadcast: one byte
  stream, and for each attachment a position in it.  Every delivery is the slice of
  the stream at the position; an attachment is dropped exactly when its backlog
  exceeds its queue limit; an attachment that reads nothing has read everything.
\<close>

subsection \<open>Operations\<close>

datatype attach_error =
    AttachResourceLimit
  | AttachHistory history_error
  | AttachFanout fanout_error

definition initial_replay_bytes :: nat where
  "initial_replay_bytes = 65536"

definition attachment_replay_limit :: "nat \<Rightarrow> nat" where
  "attachment_replay_limit attachment_bytes =
     (let limit = attachment_bytes div 2;
          limit' = (if limit = 0 then 1 else limit)
      in if limit' > initial_replay_bytes then initial_replay_bytes else limit')"

text \<open>The enqueue loop of \<open>attachLocked\<close>; the first failure or eviction stops it.\<close>

fun enqueue_replay :: "fanout \<Rightarrow> string \<Rightarrow> event list \<Rightarrow> fanout_error option \<times> fanout" where
  "enqueue_replay f aid [] = (None, f)"
| "enqueue_replay f aid (ev # evs) =
     (case enqueue_owned f aid ev of
        Inl e \<Rightarrow> (Some e, f)
      | Inr (Some _, f') \<Rightarrow> (Some ErrAttachmentEvicted, f')
      | Inr (None, f') \<Rightarrow> enqueue_replay f' aid evs)"

definition detach_quietly :: "fanout \<Rightarrow> string \<Rightarrow> fanout" where
  "detach_quietly f aid = (case fanout_detach f aid of Inl _ \<Rightarrow> f | Inr f' \<Rightarrow> f')"

text \<open>The bounded replay \<open>attachLocked\<close> settles on.\<close>

definition attach_replay :: "history \<Rightarrow> nat \<Rightarrow> nat \<Rightarrow> history_error + replay" where
  "attach_replay h frm limit =
     (case replay_owned h frm limit of
        Inl e \<Rightarrow> Inl e
      | Inr r \<Rightarrow>
          if r_to r < r_latest r then
            let boundary = u64_sub (r_latest r) limit
            in replay_owned h (if boundary < r_earliest r then r_earliest r else boundary) limit
          else Inr r)"

definition attach_locked ::
    "nat \<Rightarrow> nat \<Rightarrow> history \<Rightarrow> fanout \<Rightarrow> string \<Rightarrow> nat \<Rightarrow> (attach_error + replay) \<times> fanout" where
  "attach_locked max_attachments attachment_bytes h f aid frm =
     (if fanout_count f \<ge> max_attachments then (Inl AttachResourceLimit, f)
      else case attach_replay h frm (attachment_replay_limit attachment_bytes) of
        Inl e \<Rightarrow> (Inl (AttachHistory e), f)
      | Inr r \<Rightarrow>
          (case fanout_attach f aid attachment_bytes of
             Inl e \<Rightarrow> (Inl (AttachFanout e), f)
           | Inr f' \<Rightarrow>
               (case enqueue_replay f' aid (r_events r) of
                  (Some e, f'') \<Rightarrow> (Inl (AttachFanout e), detach_quietly f'' aid)
                | (None, f'') \<Rightarrow> (Inr r, f''))))"

text \<open>The critical section of \<open>capture\<close>: append, then publish; a refused append publishes nothing.\<close>

definition capture_output ::
    "history \<Rightarrow> fanout \<Rightarrow> bytes \<Rightarrow> (history_error + event) \<times> history \<times> fanout" where
  "capture_output h f data =
     (case append_owned h 1 data of
        (Inl e, h') \<Rightarrow> (Inl e, h', f)
      | (Inr ev, h') \<Rightarrow>
          (Inr ev, h', case publish_owned f ev of Inl _ \<Rightarrow> f | Inr (_, f') \<Rightarrow> f'))"

definition acknowledge_output :: "history \<Rightarrow> fanout \<Rightarrow> string \<Rightarrow> nat \<Rightarrow> history option" where
  "acknowledge_output h f aid next_seq =
     (case fanout_status f aid of
        Inl _ \<Rightarrow> None
      | Inr (st, _) \<Rightarrow>
          if st \<noteq> Attached then None
          else (case acknowledge h aid next_seq of Inl _ \<Rightarrow> None | Inr h' \<Rightarrow> Some h'))"

subsection \<open>The replay an attachment starts with\<close>

lemma replay_limit_bounds:
  "0 < n \<Longrightarrow> 0 < attachment_replay_limit n \<and> attachment_replay_limit n \<le> n"
  by (auto simp: attachment_replay_limit_def initial_replay_bytes_def Let_def)

lemma slice_is_piece:
  assumes "start_seq ev \<le> s" "s < end_seq ev" "end_seq ev = start_seq ev + length (ev_data ev)"
  shows "piece (ev # evs) (slice_event ev s (end_seq ev))"
  using assms by (auto simp: piece_def slice_event_data)

lemma replay_loop_pieces:
  assumes "chain a evs b" "b < u64_limit" "\<forall>e \<in> set evs. ev_data e \<noteq> []"
    and "0 < limit" "b - max frm a \<le> remaining" "0 < remaining"
  shows "\<forall>r \<in> set (fst (replay_loop frm limit remaining to evs)). piece evs r"
  using assms
proof (induction evs arbitrary: a remaining to)
  case Nil
  then show ?case by simp
next
  case (Cons ev evs)
  have ev: "start_seq ev = a" "end_seq ev = a + length (ev_data ev)" and ch: "chain (end_seq ev) evs b"
    using Cons.prems(1) by auto
  have pos: "a < end_seq ev" using ev Cons.prems(3) by simp
  have le: "end_seq ev \<le> b" using ch by (rule chain_le)
  have up: "piece evs r \<Longrightarrow> piece (ev # evs) r" for r by (erule piece_mono) auto
  have ne: "\<forall>e \<in> set evs. ev_data e \<noteq> []" using Cons.prems(3) by simp
  show ?case
  proof (cases "end_seq ev \<le> frm")
    case True
    have "b - max frm (end_seq ev) \<le> remaining" using True pos Cons.prems(5) by linarith
    from Cons.IH [OF ch Cons.prems(2) ne Cons.prems(4) this Cons.prems(6)] up
    show ?thesis unfolding replay_loop_skip [OF True] by blast
  next
    case False
    let ?s = "max frm (start_seq ev)"
    have s: "start_seq ev \<le> ?s" "?s < end_seq ev" using False pos ev(1) by auto
    have sl: "piece (ev # evs) (slice_event ev ?s (end_seq ev))"
      by (rule slice_is_piece [OF s]) (use ev in simp)
    show ?thesis
    proof (cases "end_seq ev - ?s < remaining")
      case True
      let ?rem = "remaining - (end_seq ev - ?s)"
      have "b - max frm (end_seq ev) \<le> ?rem" "0 < ?rem"
        using True Cons.prems(5) s False ev(1) by linarith+
      from Cons.IH [OF ch Cons.prems(2) ne Cons.prems(4) this, of "end_seq ev"] up sl
      show ?thesis using replay_loop_emit [of frm ev limit remaining to evs] False pos ev(1) True Cons.prems(4)
        by (auto split: prod.splits)
    next
      case False
      then have r: "?s + remaining = end_seq ev" using Cons.prems(5) le s ev(1) by linarith
      then show ?thesis
        using replay_loop_stop [of frm ev limit remaining to evs] s pos ev(1) False le Cons.prems(2,4,6) sl
        by auto
    qed
  qed
qed


lemma replay_owned_pieces:
  assumes "hist_inv h" "\<forall>e \<in> set (live h). ev_data e \<noteq> []" "0 < limit"
    and "h_earliest h \<le> frm" "frm \<le> h_latest h" "h_latest h - frm \<le> limit"
  shows "\<exists>r. replay_owned h frm limit = Inr r \<and> r_from r = frm \<and> r_to r = h_latest h \<and>
     r_latest r = h_latest h \<and> r_earliest r = h_earliest h \<and> chain frm (r_events r) (h_latest h) \<and>
     (\<forall>e \<in> set (r_events r). piece (live h) e)"
proof -
  have n: "read_amount limit (h_latest h - frm) = h_latest h - frm"
    using assms(6) by (auto simp: read_amount_def)
  obtain r where r: "replay_owned h frm limit = Inr r" "r_from r = frm"
    "r_to r = frm + (h_latest h - frm)" "r_earliest r = h_earliest h" "r_latest r = h_latest h"
    "chain frm (r_events r) (frm + (h_latest h - frm))"
    by (rule replay_owned_ok [OF assms(1,4,5), of limit]) (use n in auto)
  have evs: "r_events r = fst (replay_loop frm limit limit frm (live h))"
    using r(1) assms(4,5) by (auto simp: replay_owned_def Let_def split: prod.splits if_splits)
  have "chain (h_earliest h) (live h) (h_latest h)" "h_latest h < u64_limit"
    using assms(1) by (auto simp: hist_inv_def)
  from replay_loop_pieces [OF this assms(2,3), of frm limit frm] assms(3,4,6)
  have "\<forall>e \<in> set (r_events r). piece (live h) e" unfolding evs by simp
  with r assms(5) show ?thesis by (intro exI [of _ r]) simp
qed

lemma attach_replay_ok:
  assumes "hist_inv h" "\<forall>e \<in> set (live h). ev_data e \<noteq> []" "0 < limit"
    and "h_earliest h \<le> frm" "frm \<le> h_latest h"
  defines "q \<equiv> if h_latest h - frm \<le> limit then frm else h_latest h - limit"
  shows "\<exists>r. attach_replay h frm limit = Inr r \<and> r_from r = q \<and> r_to r = h_latest h \<and>
     chain q (r_events r) (h_latest h) \<and> (\<forall>e \<in> set (r_events r). piece (live h) e) \<and>
     h_latest h - q \<le> limit \<and> q \<le> h_latest h \<and> frm \<le> q"
proof (cases "h_latest h - frm \<le> limit")
  case True
  from replay_owned_pieces [OF assms(1-5) True] True assms(5) show ?thesis
    by (auto simp: attach_replay_def q_def)
next
  case False
  then have n: "read_amount limit (h_latest h - frm) = limit"
    using assms(3) by (auto simp: read_amount_def)
  obtain r where r: "replay_owned h frm limit = Inr r" "r_to r = frm + limit"
    "r_earliest r = h_earliest h" "r_latest r = h_latest h"
    by (rule replay_owned_ok [OF assms(1,4,5), of limit]) (use n in auto)
  have q: "q = h_latest h - limit" using False by (simp add: q_def)
  have "u64_sub (h_latest h) limit = q" using False q by simp
  moreover have lq: "h_earliest h \<le> q" "q \<le> h_latest h" "h_latest h - q \<le> limit" "frm \<le> q"
    using False assms(4) q by linarith+
  moreover have "r_to r < r_latest r" using r False by linarith
  ultimately have "attach_replay h frm limit = replay_owned h q limit"
    using r by (simp add: attach_replay_def Let_def)
  with replay_owned_pieces [OF assms(1-3) lq(1-3)] lq show ?thesis by auto
qed

lemma attach_replay_error:
  "frm < h_earliest h \<Longrightarrow> attach_replay h frm limit = Inl (GapError frm (h_earliest h) (h_latest h))"
  "h_earliest h \<le> frm \<Longrightarrow> h_latest h < frm \<Longrightarrow> attach_replay h frm limit = Inl ErrInvalidCursor"
  by (simp_all add: attach_replay_def replay_owned_gap replay_owned_future)

lemma accept_sel [simp]:
  "a_state (accept c ev) = a_state c" "a_max (accept c ev) = a_max c" "a_has (accept c ev)"
  "a_end (accept c ev) = end_seq ev" "a_cursor (accept c ev) = (if a_has c then a_cursor c else start_seq ev)"
  by (simp_all add: accept_def)

lemma enqueue_replay_ok:
  assumes gc: "good_chunks b G L" and "\<forall>e \<in> set evs. piece G e" "fanout_inv G f"
    and "map_of (f_atts f) aid = Some c" "a_state c = Attached" "a_has c \<Longrightarrow> a_end c = a"
    and "chain a evs l" "a_queued c + length (payload evs) \<le> a_max c"
  shows "\<exists>f' c'. enqueue_replay f aid evs = (None, f') \<and> fanout_inv G f' \<and>
           map_of (f_atts f') = (map_of (f_atts f))(aid \<mapsto> c') \<and> a_state c' = Attached \<and>
           a_max c' = a_max c \<and> (evs = [] \<longrightarrow> c' = c) \<and>
           (evs \<noteq> [] \<longrightarrow> a_has c' \<and> a_end c' = l \<and> a_cursor c' = (if a_has c then a_cursor c else a))"
  using assms(2-)
proof (induction evs arbitrary: f c a)
  case Nil
  then show ?case by (auto simp: fun_upd_idem)
next
  case (Cons ev evs)
  have ch: "start_seq ev = a" "chain (end_seq ev) evs l" using Cons.prems(6) by auto
  have pc: "piece G ev" using Cons.prems(1) by simp
  have room: "a_queued c + length (ev_data ev) \<le> a_max c" using Cons.prems(7) by simp
  obtain f1 where f1: "enqueue_owned f aid ev = Inr (None, f1)" "fanout_inv G f1"
    "map_of (f_atts f1) = (map_of (f_atts f))(aid \<mapsto> accept c ev)"
    using enqueue_ok [OF gc pc Cons.prems(2,3,4) _ room] Cons.prems(5) ch(1) by auto
  have "a_max c < u64_limit" using Cons.prems(2,3) by (auto simp: fanout_inv_def cursor_ok_def)
  then have q: "a_queued (accept c ev) = a_queued c + length (ev_data ev)"
    using room by (simp add: accept_def u64_add_small)
  have "\<exists>f' c'. enqueue_replay f1 aid evs = (None, f') \<and> fanout_inv G f' \<and>
      map_of (f_atts f') = (map_of (f_atts f1))(aid \<mapsto> c') \<and> a_state c' = Attached \<and>
      a_max c' = a_max (accept c ev) \<and> (evs = [] \<longrightarrow> c' = accept c ev) \<and>
      (evs \<noteq> [] \<longrightarrow> a_has c' \<and> a_end c' = l \<and>
         a_cursor c' = (if a_has (accept c ev) then a_cursor (accept c ev) else end_seq ev))"
    by (rule Cons.IH [OF _ f1(2) _ _ _ ch(2)]) (use Cons.prems(1,4,7) f1(3) q in simp_all)
  then obtain f' c' where
    "enqueue_replay f1 aid evs = (None, f')" "fanout_inv G f'" "a_state c' = Attached"
    "map_of (f_atts f') = (map_of (f_atts f1))(aid \<mapsto> c')" "a_max c' = a_max c"
    "evs = [] \<longrightarrow> c' = accept c ev"
    "evs \<noteq> [] \<longrightarrow> a_has c' \<and> a_end c' = l \<and> a_cursor c' = (if a_has c then a_cursor c else start_seq ev)"
    by auto
  with f1 ch show ?case by (intro exI [of _ f'] exI [of _ c'] conjI) (auto simp: fun_eq_iff)
qed


subsection \<open>The abstract broadcast\<close>

text \<open>
  The terminal as its clients see it: the bytes produced so far, numbered from
  \<open>base\<close>, and where each attachment is.  \<open>broadcast_step\<close> accepts an observation
  when the specification allows it.  Nothing here knows of rings, chunks, cursors,
  replay buffers or counters.
\<close>

record broadcast =
  b_base :: nat
  b_stream :: bytes
  b_pos :: "string \<Rightarrow> nat option"

definition b_end :: "broadcast \<Rightarrow> nat" where
  "b_end b = b_base b + length (b_stream b)"

definition b_slice :: "broadcast \<Rightarrow> nat \<Rightarrow> nat \<Rightarrow> bytes" where
  "b_slice b i j = take (j - i) (drop (i - b_base b) (b_stream b))"

datatype observation =
    Produced bytes
  | Refused
  | Joined string nat bytes
  | NotJoined
  | Left string
  | NotLeft
  | Delivered string event
  | Idle string
  | Absent string
  | Acked string nat
  | NotAcked
  | Cleared nat

text \<open>\<open>limit\<close> is the queue limit of an attachment; a backlog above it ends the attachment.\<close>

definition survivors :: "nat \<Rightarrow> nat \<Rightarrow> (string \<Rightarrow> nat option) \<Rightarrow> string \<Rightarrow> nat option" where
  "survivors limit stream_end pos aid =
     (case pos aid of None \<Rightarrow> None | Some p \<Rightarrow> if stream_end - p > limit then None else Some p)"

fun broadcast_step :: "nat \<Rightarrow> broadcast \<Rightarrow> observation \<Rightarrow> broadcast option" where
  "broadcast_step limit b (Produced data) =
     (let b' = b\<lparr>b_stream := b_stream b @ data\<rparr>
      in Some (b'\<lparr>b_pos := survivors limit (b_end b') (b_pos b)\<rparr>))"
| "broadcast_step limit b Refused = Some b"
| "broadcast_step limit b (Joined aid p data) =
     (if b_pos b aid = None \<and> p \<le> b_end b \<and> b_base b \<le> p \<and>
         b_end b - p \<le> attachment_replay_limit limit \<and> data = b_slice b p (b_end b)
      then Some (b\<lparr>b_pos := (b_pos b)(aid \<mapsto> p)\<rparr>) else None)"
| "broadcast_step limit b NotJoined = Some b"
| "broadcast_step limit b (Left aid) = Some (b\<lparr>b_pos := (b_pos b)(aid := None)\<rparr>)"
| "broadcast_step limit b NotLeft = Some b"
| "broadcast_step limit b (Delivered aid ev) =
     (if b_pos b aid = Some (start_seq ev) \<and> start_seq ev < end_seq ev \<and> end_seq ev \<le> b_end b \<and>
         ev_data ev = b_slice b (start_seq ev) (end_seq ev)
      then Some (b\<lparr>b_pos := (b_pos b)(aid \<mapsto> end_seq ev)\<rparr>) else None)"
| "broadcast_step limit b (Idle aid) = (if b_pos b aid = Some (b_end b) then Some b else None)"
| "broadcast_step limit b (Absent aid) = (if b_pos b aid = None then Some b else None)"
| "broadcast_step limit b (Acked aid n) =
     (if b_pos b aid \<noteq> None \<and> n \<le> b_end b then Some b else None)"
| "broadcast_step limit b NotAcked = Some b"
| "broadcast_step limit b (Cleared n) = (if n = b_end b then Some b else None)"

subsection \<open>The terminal as a machine\<close>

record terminal =
  t_hist :: history
  t_fan :: fanout

datatype term_op =
    Produce bytes
  | Attach string nat
  | AttachLive string
  | Detach string
  | Next string
  | Acknowledge string nat
  | Clear

definition observe_attach :: "string \<Rightarrow> (attach_error + replay) \<times> fanout \<Rightarrow> observation" where
  "observe_attach aid r = (case fst r of Inl _ \<Rightarrow> NotJoined
     | Inr rep \<Rightarrow> Joined aid (r_from rep) (payload (r_events rep)))"

fun term_step :: "nat \<Rightarrow> nat \<Rightarrow> terminal \<Rightarrow> term_op \<Rightarrow> terminal" where
  "term_step mx limit t (Produce data) =
     (let (_, h, f) = capture_output (t_hist t) (t_fan t) data in \<lparr>t_hist = h, t_fan = f\<rparr>)"
| "term_step mx limit t (Attach aid frm) =
     t\<lparr>t_fan := snd (attach_locked mx limit (t_hist t) (t_fan t) aid frm)\<rparr>"
| "term_step mx limit t (AttachLive aid) =
     t\<lparr>t_fan := snd (attach_locked mx limit (t_hist t) (t_fan t) aid (h_latest (t_hist t)))\<rparr>"
| "term_step mx limit t (Detach aid) =
     (case fanout_detach (t_fan t) aid of Inl _ \<Rightarrow> t | Inr f \<Rightarrow> t\<lparr>t_fan := f\<rparr>)"
| "term_step mx limit t (Next aid) =
     (case next_owned (t_fan t) aid of Inl _ \<Rightarrow> t | Inr (_, f) \<Rightarrow> t\<lparr>t_fan := f\<rparr>)"
| "term_step mx limit t (Acknowledge aid n) =
     (case acknowledge_output (t_hist t) (t_fan t) aid n of None \<Rightarrow> t | Some h \<Rightarrow> t\<lparr>t_hist := h\<rparr>)"
| "term_step mx limit t Clear = t\<lparr>t_hist := snd (clear (t_hist t))\<rparr>"

fun term_obs :: "nat \<Rightarrow> nat \<Rightarrow> terminal \<Rightarrow> term_op \<Rightarrow> observation list" where
  "term_obs mx limit t (Produce data) =
     [case capture_output (t_hist t) (t_fan t) data of (Inl _, _) \<Rightarrow> Refused | (Inr ev, _) \<Rightarrow> Produced (ev_data ev)]"
| "term_obs mx limit t (Attach aid frm) =
     [observe_attach aid (attach_locked mx limit (t_hist t) (t_fan t) aid frm)]"
| "term_obs mx limit t (AttachLive aid) =
     [observe_attach aid (attach_locked mx limit (t_hist t) (t_fan t) aid (h_latest (t_hist t)))]"
| "term_obs mx limit t (Detach aid) =
     [case fanout_detach (t_fan t) aid of Inl _ \<Rightarrow> NotLeft | Inr _ \<Rightarrow> Left aid]"
| "term_obs mx limit t (Next aid) =
     [case next_owned (t_fan t) aid of Inl _ \<Rightarrow> Absent aid
      | Inr (Some ev, _) \<Rightarrow> Delivered aid ev | Inr (None, _) \<Rightarrow> Idle aid]"
| "term_obs mx limit t (Acknowledge aid n) =
     [case acknowledge_output (t_hist t) (t_fan t) aid n of None \<Rightarrow> NotAcked | Some _ \<Rightarrow> Acked aid n]"
| "term_obs mx limit t Clear = [Cleared (fst (clear (t_hist t)))]"


subsection \<open>Refinement\<close>

lemma piece_slice:
  assumes "good_chunks b G L" "piece G e"
  shows "ev_data e = take (end_seq e - start_seq e) (drop (start_seq e - b) (payload G))" "b \<le> start_seq e"
proof -
  from assms(2) obtain g where g: "g \<in> set G" "start_seq g \<le> start_seq e" "end_seq e = end_seq g"
    "ev_data e = drop (start_seq e - start_seq g) (ev_data g)" "start_seq e < end_seq e"
    by (auto simp: piece_def)
  then obtain xs ys where G: "G = xs @ g # ys" by (meson split_list)
  then have c: "chain b xs (start_seq g)" using assms(1) by (auto simp: good_chunks_def)
  note m = good_chunk_member [OF assms(1) g(1)]
  have sg: "start_seq g = b + length (payload xs)" using chain_length [OF c] .
  then show "b \<le> start_seq e" using g(2) by linarith
  have "start_seq e - b = length (payload xs) + (start_seq e - start_seq g)" using g(2) sg by linarith
  then have "drop (start_seq e - b) (payload G) = drop (start_seq e - start_seq g) (ev_data g) @ payload ys"
    using G m(1) g(3,5) by simp
  moreover have "length (ev_data e) = end_seq e - start_seq e"
    using piece_bounds(2) [OF assms] by linarith
  ultimately show "ev_data e = take (end_seq e - start_seq e) (drop (start_seq e - b) (payload G))"
    using g(4) by simp
qed

text \<open>A chain of pieces carries the slice of the stream it spans.\<close>

lemma pieces_payload:
  assumes "good_chunks b G L" "\<forall>e \<in> set es. piece G e" "chain p es l" "b \<le> p"
  shows "payload es = take (l - p) (drop (p - b) (payload G))"
  using assms(2-)
proof (induction es arbitrary: p)
  case Nil
  then show ?case by simp
next
  case (Cons e es)
  have e: "start_seq e = p" "end_seq e = p + length (ev_data e)" "chain (end_seq e) es l" "piece G e"
    using Cons.prems by auto
  note s = piece_slice [OF assms(1) e(4)]
  have ih: "payload es = take (l - end_seq e) (drop (end_seq e - b) (payload G))"
    by (rule Cons.IH) (use Cons.prems e in auto)
  have le: "end_seq e \<le> l" using e(3) by (rule chain_le)
  have be: "b \<le> end_seq e" "end_seq e - b - (p - b) = end_seq e - p" "l - b - (end_seq e - b) = l - end_seq e"
    using Cons.prems(3) e(2) by linarith+
  have "payload (e # es) = take (end_seq e - p) (drop (p - b) (payload G)) @ payload es"
    using s(1) unfolding e(1) by simp
  also have "\<dots> = take (end_seq e - b - (p - b)) (drop (p - b) (payload G)) @
      take (l - b - (end_seq e - b)) (drop (end_seq e - b) (payload G))"
    unfolding ih be ..
  also have "\<dots> = take (l - b - (p - b)) (drop (p - b) (payload G))"
    using s(2) e(1,2) le by (intro take_drop_append_slice) simp_all
  finally show ?case using s(2) e(1) by simp
qed

lemma base_le_earliest:
  assumes "hist_inv h" "good_chunks b (dropped @ live h) (h_latest h)"
  shows "b \<le> h_earliest h"
proof -
  from assms(2) obtain m where m: "chain b dropped m" "chain m (live h) (h_latest h)"
    by (auto simp: good_chunks_def)
  have "chain (h_earliest h) (live h) (h_latest h)" using assms(1) by (simp add: hist_inv_def)
  with m(2) have "m = h_earliest h" using chain_length by (metis add_right_cancel)
  with chain_le [OF m(1)] show ?thesis by simp
qed

definition limits :: "fanout \<Rightarrow> string \<Rightarrow> nat option" where
  "limits f aid = map_option a_max (map_of (f_atts f) aid)"

lemma limits_compact [simp]: "limits (fanout_compact f) = limits f"
  by (simp add: fun_eq_iff limits_def)

lemma publish_limits: "publish_owned f ev = Inr (evs, f') \<Longrightarrow> limits f' = limits f"
proof -
  assume "publish_owned f ev = Inr (evs, f')"
  then have "f_atts f' = map (\<lambda>(aid, c). (aid, publish_to ev c)) (f_atts f)"
    by (auto simp: publish_owned_def Let_def split: if_splits)
  moreover have "a_max (publish_to ev c) = a_max c" for c
    by (simp add: publish_to_def evict_def)
  ultimately show ?thesis
    by (simp add: fun_eq_iff limits_def map_of_map_val option.map_comp comp_def)
qed

lemma next_limits: "next_owned f aid = Inr (x, f') \<Longrightarrow> limits f' = limits f"
  by (auto simp: next_owned_def Let_def fun_eq_iff limits_def split: option.splits if_splits)

lemma detach_limits: "fanout_detach f aid = Inr f' \<Longrightarrow> limits f' = (limits f)(aid := None)"
  by (auto simp: fanout_detach_def fun_eq_iff limits_def split: option.splits if_splits)

definition terminal_rel :: "nat \<Rightarrow> terminal \<Rightarrow> broadcast \<Rightarrow> bool" where
  "terminal_rel limit t b \<longleftrightarrow>
     0 < limit \<and> limit < u64_limit \<and> hist_inv (t_hist t) \<and>
     (\<exists>G dropped.
        good_chunks (b_base b) G (h_latest (t_hist t)) \<and> payload G = b_stream b \<and>
        G = dropped @ live (t_hist t) \<and> fanout_inv G (t_fan t)) \<and>
     synced (h_latest (t_hist t)) (t_fan t) \<and> position (h_latest (t_hist t)) (t_fan t) = b_pos b \<and>
     (\<forall>aid m. limits (t_fan t) aid = Some m \<longrightarrow> m = limit)"

lemma terminal_relE:
  assumes "terminal_rel limit t b"
  obtains G dropped where "0 < limit" "limit < u64_limit" "hist_inv (t_hist t)"
    "good_chunks (b_base b) G (h_latest (t_hist t))" "payload G = b_stream b"
    "G = dropped @ live (t_hist t)" "fanout_inv G (t_fan t)" "synced (h_latest (t_hist t)) (t_fan t)"
    "position (h_latest (t_hist t)) (t_fan t) = b_pos b" "b_end b = h_latest (t_hist t)"
    "\<And>aid m. limits (t_fan t) aid = Some m \<Longrightarrow> m = limit"
proof -
  from assms obtain G dropped where *: "good_chunks (b_base b) G (h_latest (t_hist t))"
    "payload G = b_stream b" "G = dropped @ live (t_hist t)" "fanout_inv G (t_fan t)"
    by (auto simp: terminal_rel_def)
  have "b_end b = h_latest (t_hist t)"
    using *(1,2) chain_length [of "b_base b" G] by (auto simp: b_end_def good_chunks_def)
  with * assms that show thesis by (auto simp: terminal_rel_def)
qed

text \<open>The backlog of an attachment is its queue counter, and within the limit.\<close>

lemma position_backlog:
  assumes "fanout_inv G f" "synced L f" "map_of (f_atts f) aid = Some c" "a_state c = Attached"
    "position L f aid = Some p"
  shows "a_queued c = L - p" "a_queued c \<le> a_max c"
proof -
  have ok: "cursor_ok G (f_ring f) c" using assms(1,3) unfolding fanout_inv_def by blast
  then show "a_queued c \<le> a_max c" using assms(4) by (simp add: cursor_ok_def)
  show "a_queued c = L - p"
    using ok assms by (cases "a_has c") (auto simp: cursor_ok_def position_def synced_def)
qed

lemma survivors_same:
  assumes "fanout_inv G f" "synced L f" "\<And>aid m. limits f aid = Some m \<Longrightarrow> m = limit"
  shows "survivors limit L (position L f) = position L f"
proof
  fix aid
  show "survivors limit L (position L f) aid = position L f aid"
  proof (cases "position L f aid")
    case (Some p)
    then obtain c where c: "map_of (f_atts f) aid = Some c" "a_state c = Attached"
      by (auto simp: position_def split: option.splits if_splits)
    then have "a_max c = limit" using assms(3) [of aid "a_max c"] by (simp add: limits_def)
    with position_backlog [OF assms(1,2) c Some] Some show ?thesis by (simp add: survivors_def)
  qed (simp add: survivors_def)
qed

lemma survivors_evicts:
  assumes "fanout_inv G f" "synced L f" "\<And>aid m. limits f aid = Some m \<Longrightarrow> m = limit"
    and "length (ev_data ev) = e - L" "L \<le> e"
  shows "survivors limit e (position L f) aid = (if evicts f ev aid then None else position L f aid)"
proof (cases "position L f aid")
  case None
  then show ?thesis by (simp add: survivors_def)
next
  case (Some p)
  then obtain c where c: "map_of (f_atts f) aid = Some c" "a_state c = Attached"
    by (auto simp: position_def split: option.splits if_splits)
  then have m: "a_max c = limit" using assms(3) [of aid "a_max c"] by (simp add: limits_def)
  note q = position_backlog [OF assms(1,2) c Some]
  have "p \<le> L" using c Some assms(1,2)
    by (auto simp: position_def fanout_inv_def cursor_ok_def synced_def split: if_splits)
  then have "overflows c ev \<longleftrightarrow> e - p > limit" using q m assms(4,5) by (auto simp: overflows_def)
  then show ?thesis using Some c by (simp add: survivors_def evicts_def evicted_by_def)
qed


lemma terminal_relI:
  assumes "0 < limit" "limit < u64_limit" "hist_inv h" "good_chunks (b_base b) G (h_latest h)"
    "payload G = b_stream b" "G = dropped @ live h" "fanout_inv G f" "synced (h_latest h) f"
    "position (h_latest h) f = b_pos b" "\<And>aid m. limits f aid = Some m \<Longrightarrow> m = limit"
    "t_hist t = h" "t_fan t = f"
  shows "terminal_rel limit t b"
  unfolding terminal_rel_def using assms by auto

lemma good_chunks_snoc:
  assumes "good_chunks b G L" "start_seq ev = L" "end_seq ev = L + length (ev_data ev)"
    "ev_data ev \<noteq> []" "end_seq ev < u64_limit"
  shows "good_chunks b (G @ [ev]) (end_seq ev)"
  using assms by (auto simp: good_chunks_def)

lemma produce_sim:
  assumes "terminal_rel limit t b"
  shows "\<exists>b'. accepts (broadcast_step limit) b (term_obs mx limit t (Produce data)) = Some b' \<and>
              terminal_rel limit (term_step mx limit t (Produce data)) b'"
proof -
  obtain G dropped where r: "0 < limit" "limit < u64_limit" "hist_inv (t_hist t)"
    "good_chunks (b_base b) G (h_latest (t_hist t))" "payload G = b_stream b"
    "G = dropped @ live (t_hist t)" "fanout_inv G (t_fan t)" "synced (h_latest (t_hist t)) (t_fan t)"
    "position (h_latest (t_hist t)) (t_fan t) = b_pos b" "b_end b = h_latest (t_hist t)"
    "\<And>aid m. limits (t_fan t) aid = Some m \<Longrightarrow> m = limit"
    by (rule terminal_relE [OF assms]) blast
  show ?thesis
  proof (cases rule: append_owned_cases [OF r(3), of data 1])
    case 1
    then have "\<not> valid_output_event \<lparr>channel = 1, start_seq = h_latest (t_hist t),
        end_seq = h_latest (t_hist t), ev_data = []\<rparr>" by (simp add: valid_output_event_def)
    with 1 have "capture_output (t_hist t) (t_fan t) data =
        (Inr \<lparr>channel = 1, start_seq = h_latest (t_hist t), end_seq = h_latest (t_hist t), ev_data = []\<rparr>,
         t_hist t, t_fan t)"
      by (simp add: capture_output_def publish_owned_def)
    moreover have "survivors limit (b_end b) (b_pos b) = b_pos b"
      using survivors_same [OF r(7,8,11)] r(9,10) by simp
    ultimately show ?thesis using assms by (cases t) (simp add: Let_def b_end_def)
  next
    case 2
    then show ?thesis using assms by (cases t) (simp add: capture_output_def)
  next
    case (3 ev)
    let ?h = "compact_locked (push_event (t_hist t) ev)"
    have ev: "start_seq ev = h_latest (t_hist t)" "end_seq ev = h_latest (t_hist t) + length (ev_data ev)"
      "ev_data ev = data" "ev_data ev \<noteq> []" "end_seq ev < u64_limit" using 3 by simp_all
    have gc: "good_chunks (b_base b) (G @ [ev]) (end_seq ev)" by (rule good_chunks_snoc [OF r(4) ev(1,2,4,5)])
    have inv: "fanout_inv (G @ [ev]) (t_fan t)" using r(7) by (rule fanout_inv_mono) auto
    obtain evs f' where p: "publish_owned (t_fan t) ev = Inr (evs, f')" "fanout_inv (G @ [ev]) f'"
      "synced (end_seq ev) f'"
      "\<forall>aid. position (end_seq ev) f' aid =
         (if evicts (t_fan t) ev aid then None else position (start_seq ev) (t_fan t) aid)"
      using publish_ok [OF gc _ inv, where ev = ev] r(8) ev(1) by auto
    have pre: "hist_pre (push_event (t_hist t) ev)"
      using push_event_pre [OF _ ev(1,2,5)] r(3) hist_inv_pre by blast
    have lt: "h_latest ?h = end_seq ev" using compact_locked_frame(2) [OF pre] by (simp add: push_event_def)
    obtain more where more: "live (t_hist t) @ [ev] = more @ live ?h"
      using compact_locked_drops [OF pre] push_event_live r(3) unfolding hist_inv_def by metis
    have run: "capture_output (t_hist t) (t_fan t) data = (Inr ev, ?h, f')"
      using 3(4) p(1) by (simp add: capture_output_def)
    let ?b = "b\<lparr>b_stream := b_stream b @ data, b_pos := survivors limit (end_seq ev) (b_pos b)\<rparr>"
    have pos: "position (end_seq ev) f' = survivors limit (end_seq ev) (b_pos b)"
      using survivors_evicts [OF r(7,8,11), where ev = ev and e = "end_seq ev"] p(4) ev(1,2) r(9) by (auto simp: fun_eq_iff)
    have "terminal_rel limit \<lparr>t_hist = ?h, t_fan = f'\<rparr> ?b"
    proof (rule terminal_relI [OF r(1,2) compact_locked_inv [OF pre], where G = "G @ [ev]" and dropped = "dropped @ more"])
      show "good_chunks (b_base ?b) (G @ [ev]) (h_latest ?h)" using gc lt by simp
      show "payload (G @ [ev]) = b_stream ?b" using r(5) ev(3) by simp
      show "G @ [ev] = (dropped @ more) @ live ?h" using r(6) more by simp
      show "fanout_inv (G @ [ev]) f'" by (rule p(2))
      show "synced (h_latest ?h) f'" using p(3) lt by simp
      show "position (h_latest ?h) f' = b_pos ?b" using pos lt by simp
      show "limits f' aid = Some m \<Longrightarrow> m = limit" for aid m
        using publish_limits [OF p(1)] r(11) by simp
    qed simp_all
    moreover have "b_end (b\<lparr>b_stream := b_stream b @ data\<rparr>) = end_seq ev"
      using r(10) ev(2,3) by (simp add: b_end_def)
    ultimately show ?thesis using run ev(3) by (simp add: Let_def)
  qed
qed


lemma attached_position: "position L f aid = None \<longleftrightarrow>
    \<not> (case map_of (f_atts f) aid of Some c \<Rightarrow> a_state c = Attached | None \<Rightarrow> False)"
  by (auto simp: position_def split: option.splits)

text \<open>
  What \<open>attachLocked\<close> does when it succeeds: the attachment starts at the requested
  position, or at the newest bounded tail when more than the replay limit is wanted.
\<close>

lemma attach_locked_ok:
  assumes r: "0 < limit" "limit < u64_limit" "hist_inv h" "good_chunks base G (h_latest h)"
      "G = dropped @ live h" "fanout_inv G f" "synced (h_latest h) f"
    and cap: "fanout_count f < mx" and aid: "aid \<noteq> []" "position L f aid = None"
    and frm: "h_earliest h \<le> frm" "frm \<le> h_latest h"
  defines "q \<equiv> if h_latest h - frm \<le> attachment_replay_limit limit then frm
               else h_latest h - attachment_replay_limit limit"
  shows "\<exists>rep f'. attach_locked mx limit h f aid frm = (Inr rep, f') \<and> r_from rep = q \<and>
           chain q (r_events rep) (h_latest h) \<and> (\<forall>e \<in> set (r_events rep). piece G e) \<and>
           h_latest h - q \<le> attachment_replay_limit limit \<and> q \<le> h_latest h \<and> h_earliest h \<le> q \<and>
           fanout_inv G f' \<and> synced (h_latest h) f' \<and>
           position (h_latest h) f' = (position (h_latest h) f)(aid \<mapsto> q) \<and>
           limits f' = (limits f)(aid \<mapsto> limit)"
proof -
  let ?lim = "attachment_replay_limit limit"
  have ne: "\<forall>e \<in> set (live h). ev_data e \<noteq> []" using r(4,5) by (auto simp: good_chunks_def)
  have lim: "0 < ?lim" "?lim \<le> limit" using replay_limit_bounds [OF r(1)] by simp_all
  obtain rep where rep: "attach_replay h frm ?lim = Inr rep" "r_from rep = q"
    "chain q (r_events rep) (h_latest h)" "\<forall>e \<in> set (r_events rep). piece (live h) e"
    "h_latest h - q \<le> ?lim" "q \<le> h_latest h" "h_earliest h \<le> q"
    using attach_replay_ok [OF r(3) ne lim(1) frm] order_trans [OF frm(1)] unfolding q_def by blast
  have pc: "\<forall>e \<in> set (r_events rep). piece G e"
    using rep(4) r(5) piece_mono by (metis Un_iff set_append subsetI)
  obtain f1 where f1: "fanout_attach f aid limit = Inr f1"
    using aid r(1) attached_position [of L f aid] by (simp add: fanout_attach_def)
  note k = attach_keeps [OF r(6) f1 r(2)]
  have len: "length (payload (r_events rep)) \<le> limit"
    using chain_length [OF rep(3)] rep(5) lim(2) by linarith
  obtain f2 c where e: "enqueue_replay f1 aid (r_events rep) = (None, f2)" "fanout_inv G f2"
    "map_of (f_atts f2) = (map_of (f_atts f1))(aid \<mapsto> c)" "a_state c = Attached" "a_max c = limit"
    "r_events rep = [] \<longrightarrow> c = fresh_cursor limit"
    "r_events rep \<noteq> [] \<longrightarrow> a_has c \<and> a_end c = h_latest h \<and> a_cursor c = q"
    using enqueue_replay_ok [OF r(4) pc k(1), of aid "fresh_cursor limit" q "h_latest h"] k(5) rep(3) len
    by (auto simp: fresh_cursor_def)
  have m: "map_of (f_atts f2) = (map_of (f_atts f))(aid \<mapsto> c)" using e(3) k(5) by simp
  have run: "attach_locked mx limit h f aid frm = (Inr rep, f2)"
    using cap rep(1) f1 e(1) by (simp add: attach_locked_def)
  have emp: "r_events rep = [] \<Longrightarrow> q = h_latest h" using rep(3) by simp
  have "synced (h_latest h) f2"
    using r(7) e(6,7) unfolding synced_def m by (cases "r_events rep = []") (auto simp: fresh_cursor_def)
  moreover have "position (h_latest h) f2 = (position (h_latest h) f)(aid \<mapsto> q)"
    using e(4,6,7) emp by (cases "r_events rep = []") (auto simp: fun_eq_iff position_def m fresh_cursor_def)
  moreover have "limits f2 = (limits f)(aid \<mapsto> limit)"
    using e(5) by (auto simp: fun_eq_iff limits_def m)
  ultimately show ?thesis using run rep pc e(2) by blast
qed

lemma attach_locked_fails:
  assumes "hist_inv h" "\<not> (fanout_count f < mx \<and> aid \<noteq> [] \<and> position L f aid = None \<and> 
      h_earliest h \<le> frm \<and> frm \<le> h_latest h)" "0 < limit" "\<forall>e \<in> set (live h). ev_data e \<noteq> []"
  shows "\<exists>e. attach_locked mx limit h f aid frm = (Inl e, f)"
proof (cases "fanout_count f < mx \<and> h_earliest h \<le> frm \<and> frm \<le> h_latest h")
  case True
  then obtain rep where "attach_replay h frm (attachment_replay_limit limit) = Inr rep"
    using attach_replay_ok [OF assms(1,4)] replay_limit_bounds [OF assms(3)] by blast
  moreover have "\<exists>e. fanout_attach f aid limit = Inl e"
    using True assms(2) attached_position [of L f aid] by (auto simp: fanout_attach_def)
  ultimately show ?thesis using True by (auto simp: attach_locked_def)
next
  case False
  then consider "mx \<le> fanout_count f" | "frm < h_earliest h" | "h_earliest h \<le> frm" "h_latest h < frm"
    by linarith
  then show ?thesis by cases (auto simp: attach_locked_def attach_replay_error)
qed


lemma attach_sim:
  assumes "terminal_rel limit t b"
  shows "\<exists>b'. broadcast_step limit b
             (observe_attach aid (attach_locked mx limit (t_hist t) (t_fan t) aid frm)) = Some b' \<and>
           terminal_rel limit (t\<lparr>t_fan := snd (attach_locked mx limit (t_hist t) (t_fan t) aid frm)\<rparr>) b'"
proof -
  obtain G dropped where r: "0 < limit" "limit < u64_limit" "hist_inv (t_hist t)"
    "good_chunks (b_base b) G (h_latest (t_hist t))" "payload G = b_stream b"
    "G = dropped @ live (t_hist t)" "fanout_inv G (t_fan t)" "synced (h_latest (t_hist t)) (t_fan t)"
    "position (h_latest (t_hist t)) (t_fan t) = b_pos b" "b_end b = h_latest (t_hist t)"
    "\<And>aid m. limits (t_fan t) aid = Some m \<Longrightarrow> m = limit"
    by (rule terminal_relE [OF assms]) blast
  let ?L = "h_latest (t_hist t)"
  have ne: "\<forall>e \<in> set (live (t_hist t)). ev_data e \<noteq> []" using r(4,6) by (auto simp: good_chunks_def)
  show ?thesis
  proof (cases "fanout_count (t_fan t) < mx \<and> aid \<noteq> [] \<and> position ?L (t_fan t) aid = None \<and>
      h_earliest (t_hist t) \<le> frm \<and> frm \<le> ?L")
    case False
    then obtain e where "attach_locked mx limit (t_hist t) (t_fan t) aid frm = (Inl e, t_fan t)"
      using attach_locked_fails [OF r(3) _ r(1) ne] by blast
    with assms show ?thesis by (cases t) (simp add: observe_attach_def)
  next
    case True
    then obtain rep f' q where a: "attach_locked mx limit (t_hist t) (t_fan t) aid frm = (Inr rep, f')"
      "r_from rep = q" "chain q (r_events rep) ?L" "\<forall>e \<in> set (r_events rep). piece G e"
      "?L - q \<le> attachment_replay_limit limit" "q \<le> ?L" "fanout_inv G f'" "synced ?L f'" "h_earliest (t_hist t) \<le> q"
      "position ?L f' = (position ?L (t_fan t))(aid \<mapsto> q)" "limits f' = (limits (t_fan t))(aid \<mapsto> limit)"
      using attach_locked_ok [OF r(1-4,6-8), of mx aid ?L frm] by blast
    have base: "b_base b \<le> q" using base_le_earliest [OF r(3), of "b_base b" dropped] r(4,6) a(9) by simp
    have data: "payload (r_events rep) = b_slice b q ?L"
      using pieces_payload [OF r(4) a(4,3) base] r(5) by (simp add: b_slice_def)
    have "terminal_rel limit (t\<lparr>t_fan := f'\<rparr>) (b\<lparr>b_pos := (b_pos b)(aid \<mapsto> q)\<rparr>)"
      by (rule terminal_relI [where G = G and dropped = dropped])
        (use r a in \<open>auto split: if_splits\<close>)
    then show ?thesis using a base data True r(9,10) by (simp add: observe_attach_def)
  qed
qed


lemma terminal_rel_fan:
  assumes "terminal_rel limit t b"
    and "\<And>G. good_chunks (b_base b) G (h_latest (t_hist t)) \<Longrightarrow> fanout_inv G (t_fan t) \<Longrightarrow> fanout_inv G f"
    and "synced (h_latest (t_hist t)) (t_fan t) \<Longrightarrow> synced (h_latest (t_hist t)) f"
    and "position (h_latest (t_hist t)) f = pos"
    and "\<And>aid m. limits f aid = Some m \<Longrightarrow> limits (t_fan t) aid = Some m"
  shows "terminal_rel limit (t\<lparr>t_fan := f\<rparr>) (b\<lparr>b_pos := pos\<rparr>)"
  using assms unfolding terminal_rel_def by simp blast

lemma terminal_rel_hist:
  assumes "terminal_rel limit t b" "hist_inv h" "h_latest h = h_latest (t_hist t)"
    and "\<exists>more. live (t_hist t) = more @ live h"
  shows "terminal_rel limit (t\<lparr>t_hist := h\<rparr>) b"
proof -
  obtain G dropped where r: "0 < limit" "limit < u64_limit" "hist_inv (t_hist t)"
    "good_chunks (b_base b) G (h_latest (t_hist t))" "payload G = b_stream b"
    "G = dropped @ live (t_hist t)" "fanout_inv G (t_fan t)" "synced (h_latest (t_hist t)) (t_fan t)"
    "position (h_latest (t_hist t)) (t_fan t) = b_pos b" "b_end b = h_latest (t_hist t)"
    "\<And>aid m. limits (t_fan t) aid = Some m \<Longrightarrow> m = limit"
    by (rule terminal_relE [OF assms(1)]) blast
  obtain more where "live (t_hist t) = more @ live h" using assms(4) ..
  then show ?thesis
    by (intro terminal_relI [where h = h and f = "t_fan t" and G = G and dropped = "dropped @ more"])
      (use r assms(2,3) in auto)
qed

lemma detach_sim:
  assumes "terminal_rel limit t b"
  shows "\<exists>b'. accepts (broadcast_step limit) b (term_obs mx limit t (Detach aid)) = Some b' \<and>
              terminal_rel limit (term_step mx limit t (Detach aid)) b'"
proof (cases "fanout_detach (t_fan t) aid")
  case (Inl e)
  with assms show ?thesis by simp
next
  case (Inr f)
  have "position (h_latest (t_hist t)) (t_fan t) = b_pos b" "\<exists>G. fanout_inv G (t_fan t)"
    using assms by (auto simp: terminal_rel_def)
  then have "terminal_rel limit (t\<lparr>t_fan := f\<rparr>) (b\<lparr>b_pos := (b_pos b)(aid := None)\<rparr>)"
    using detach_keeps [OF _ Inr] detach_limits [OF Inr]
    by (intro terminal_rel_fan [OF assms]) (auto split: if_splits)
  with Inr show ?thesis by simp
qed

lemma next_sim:
  assumes "terminal_rel limit t b"
  shows "\<exists>b'. accepts (broadcast_step limit) b (term_obs mx limit t (Next aid)) = Some b' \<and>
              terminal_rel limit (term_step mx limit t (Next aid)) b'"
proof -
  obtain G dropped where r: "0 < limit" "limit < u64_limit" "hist_inv (t_hist t)"
    "good_chunks (b_base b) G (h_latest (t_hist t))" "payload G = b_stream b"
    "G = dropped @ live (t_hist t)" "fanout_inv G (t_fan t)" "synced (h_latest (t_hist t)) (t_fan t)"
    "position (h_latest (t_hist t)) (t_fan t) = b_pos b" "b_end b = h_latest (t_hist t)"
    "\<And>aid m. limits (t_fan t) aid = Some m \<Longrightarrow> m = limit"
    by (rule terminal_relE [OF assms]) blast
  let ?L = "h_latest (t_hist t)"
  show ?thesis
  proof (cases "position ?L (t_fan t) aid")
    case None
    then have "\<exists>e. next_owned (t_fan t) aid = Inl e"
      by (auto simp: position_def next_owned_def split: option.splits if_splits)
    with None r(9) assms show ?thesis by auto
  next
    case (Some p)
    then obtain c where c: "map_of (f_atts (t_fan t)) aid = Some c" "a_state c = Attached"
      and p: "p = (if a_has c then a_cursor c else ?L)"
      by (auto simp: position_def split: option.splits if_splits)
    show ?thesis
    proof (cases "a_has c \<and> a_cursor c < a_end c")
      case False
      have "cursor_ok G (f_ring (t_fan t)) c" using r(7) c(1) unfolding fanout_inv_def by blast
      moreover have "a_has c \<Longrightarrow> a_end c = ?L" using r(8) c unfolding synced_def by blast
      ultimately have "p = ?L" using p False c(2) by (auto simp: cursor_ok_def)
      moreover have "next_owned (t_fan t) aid = Inr (None, t_fan t)"
        using next_idle [OF c] False by (simp add: not_less)
      ultimately show ?thesis using Some r(9,10) assms by (cases t) simp
    next
      case True
      then obtain e f' where e: "next_owned (t_fan t) aid = Inr (Some e, f')" "fanout_inv G f'" "piece G e"
        "start_seq e = p" "end_seq e \<le> a_end c" "synced ?L f'"
        "position ?L f' = (position ?L (t_fan t))(aid \<mapsto> end_seq e)"
        using next_delivers [OF r(4,7) c, of ?L] r(8) p by auto
      have "b_pos b aid = Some (start_seq e)" using Some r(9) e(4) by simp
      moreover have "start_seq e < end_seq e" "end_seq e \<le> b_end b"
        using piece_bounds [OF r(4) e(3)] r(10) by simp_all
      moreover have "ev_data e = b_slice b (start_seq e) (end_seq e)"
        using piece_slice [OF r(4) e(3)] r(5) by (simp add: b_slice_def)
      moreover have "terminal_rel limit (t\<lparr>t_fan := f'\<rparr>) (b\<lparr>b_pos := (b_pos b)(aid \<mapsto> end_seq e)\<rparr>)"
        by (rule terminal_relI [where G = G and dropped = dropped])
          (use r e next_limits [OF e(1)] in auto)
      ultimately show ?thesis using e(1) by simp
    qed
  qed
qed

lemma acknowledge_sim:
  assumes "terminal_rel limit t b"
  shows "\<exists>b'. accepts (broadcast_step limit) b (term_obs mx limit t (Acknowledge aid n)) = Some b' \<and>
              terminal_rel limit (term_step mx limit t (Acknowledge aid n)) b'"
proof (cases "acknowledge_output (t_hist t) (t_fan t) aid n")
  case None
  with assms show ?thesis by simp
next
  case (Some h)
  then have a: "acknowledge (t_hist t) aid n = Inr h" "fanout_status (t_fan t) aid \<noteq> Inl e"
    "\<exists>q. fanout_status (t_fan t) aid = Inr (Attached, q)" for e
    by (auto simp: acknowledge_output_def split: sum.splits if_splits)
  have h: "live h = live (t_hist t)" using a(1) by (auto simp: acknowledge_def live_def split: if_splits)
  have "hist_inv (t_hist t)" "b_end b = h_latest (t_hist t)"
    using terminal_relE [OF assms] by metis+
  note k = acknowledge_effect [OF this(1) a(1)]
  have "position (h_latest (t_hist t)) (t_fan t) aid \<noteq> None"
    using a(3) by (auto simp: fanout_status_def position_def split: option.splits)
  moreover have "position (h_latest (t_hist t)) (t_fan t) = b_pos b"
    using assms by (simp add: terminal_rel_def)
  moreover have "terminal_rel limit (t\<lparr>t_hist := h\<rparr>) b"
    using k h by (intro terminal_rel_hist [OF assms]) auto
  ultimately show ?thesis using Some k \<open>b_end b = h_latest (t_hist t)\<close> by simp
qed

lemma clear_sim:
  assumes "terminal_rel limit t b"
  shows "\<exists>b'. accepts (broadcast_step limit) b (term_obs mx limit t Clear) = Some b' \<and>
              terminal_rel limit (term_step mx limit t Clear) b'"
proof -
  have i: "hist_inv (t_hist t)" "b_end b = h_latest (t_hist t)"
    using terminal_relE [OF assms] by metis+
  have l: "live (snd (clear (t_hist t))) = []" "h_latest (snd (clear (t_hist t))) = h_latest (t_hist t)"
    by (simp_all add: clear_def live_def)
  have "hist_inv (snd (clear (t_hist t)))" using clear_effect [OF i(1) surjective_pairing] by blast
  then have "terminal_rel limit (t\<lparr>t_hist := snd (clear (t_hist t))\<rparr>) b"
    using l by (intro terminal_rel_hist [OF assms]) auto
  then show ?thesis using i by (simp add: clear_def)
qed

interpretation broadcast: refinement
  "term_step mx limit" "term_obs mx limit" "broadcast_step limit" "terminal_rel limit"
proof
  fix t b x
  assume r: "terminal_rel limit t b"
  show "\<exists>b'. accepts (broadcast_step limit) b (term_obs mx limit t x) = Some b' \<and>
      terminal_rel limit (term_step mx limit t x) b'"
  proof (cases x)
    case (Attach aid frm)
    then show ?thesis using attach_sim [OF r, of aid mx frm] by auto
  next
    case (AttachLive aid)
    then show ?thesis using attach_sim [OF r, of aid mx "h_latest (t_hist t)"] by auto
  qed (use produce_sim [OF r] detach_sim [OF r] next_sim [OF r] acknowledge_sim [OF r] clear_sim [OF r] in auto)
qed

end
