(* ===== verification/Terminal_Delivery.thy ===== *)
theory Terminal_Delivery
  imports Terminal_Output
begin

section \<open>What the clients of a terminal receive\<close>

text \<open>
  The end-to-end properties of terminal output.  \<open>Terminal_Output\<close> shows that the
  history and the fanout refine the abstract broadcast; here the broadcast is
  analysed once (what one attachment receives between joining and going idle) and
  the results are carried over to every run of the model.
\<close>

subsection \<open>Runs from a restored history\<close>

inductive terminal_reachable :: "nat \<Rightarrow> nat \<Rightarrow> terminal \<Rightarrow> bool" for mx limit where
  start: "restore hmax earliest latest evs = Inr h \<Longrightarrow> earliest + length (payload evs) < u64_limit \<Longrightarrow>
    \<forall>e \<in> set evs. ev_data e \<noteq> [] \<and> end_seq e < u64_limit \<Longrightarrow> 0 < limit \<Longrightarrow> limit < u64_limit \<Longrightarrow>
    terminal_reachable mx limit \<lparr>t_hist = h, t_fan = new_fanout\<rparr>"
| step: "terminal_reachable mx limit t \<Longrightarrow> terminal_reachable mx limit (term_step mx limit t x)"

lemma restored_live:
  assumes "restore hmax earliest latest evs = Inr h" "earliest + length (payload evs) < u64_limit"
    "\<forall>e \<in> set evs. end_seq e < u64_limit"
  shows "live h = evs"
proof -
  let ?h = "\<lparr>h_max = hmax, h_bytes = 0, h_earliest = earliest, h_latest = earliest,
             h_events = [], h_head = 0, h_acks = []\<rparr>"
  have "restore_loop ?h evs = Inr h" "0 < hmax"
    using assms(1) by (auto simp: restore_def new_history_def split: if_splits sum.splits)
  moreover have "restore_loop ?h evs =
    (if chain earliest evs (earliest + length (payload evs))
     then Inr (?h\<lparr>h_events := evs, h_bytes := length (payload evs),
                  h_latest := earliest + length (payload evs)\<rparr>) else Inl ErrInvalidCursor)"
    using restore_loop_spec [of ?h evs] assms(2,3) by simp
  ultimately show ?thesis by (auto simp: live_def split: if_splits)
qed

lemma restored_rel:
  assumes "restore hmax earliest latest evs = Inr h" "earliest + length (payload evs) < u64_limit"
    "\<forall>e \<in> set evs. ev_data e \<noteq> [] \<and> end_seq e < u64_limit" "0 < limit" "limit < u64_limit"
  shows "terminal_rel limit \<lparr>t_hist = h, t_fan = new_fanout\<rparr>
    \<lparr>b_base = earliest, b_stream = payload evs, b_pos = (\<lambda>_. None)\<rparr>"
proof -
  have e: "\<forall>e \<in> set evs. end_seq e < u64_limit" using assms(3) by blast
  note lv = restored_live [OF assms(1,2) e]
  have h: "hist_inv h" "h_earliest h = earliest" "h_latest h = latest"
    using restore_correct(2) [OF assms(2) e assms(1)] by auto
  have "chain earliest evs latest" "latest < u64_limit" using h lv by (auto simp: hist_inv_def)
  then have "good_chunks earliest evs latest" using assms(3) by (auto simp: good_chunks_def)
  then show ?thesis
    by (intro terminal_relI [where G = evs and dropped = "[]"])
      (use h lv assms(4,5) fanout_inv_new in
        \<open>auto simp: synced_def new_fanout_def position_def limits_def\<close>)
qed

lemma terminal_reachable_rel: "terminal_reachable mx limit t \<Longrightarrow> \<exists>b. terminal_rel limit t b"
proof (induction rule: terminal_reachable.induct)
  case (start hmax earliest latest evs h)
  then show ?case using restored_rel by blast
next
  case (step t x)
  then show ?case using broadcast.step_sim by blast
qed

subsection \<open>Analysis of the broadcast\<close>


fun received :: "string \<Rightarrow> observation list \<Rightarrow> bytes" where
  "received aid [] = []"
| "received aid (Delivered a ev # obs) = (if a = aid then ev_data ev @ received aid obs else received aid obs)"
| "received aid (_ # obs) = received aid obs"

fun produced :: "observation list \<Rightarrow> bytes" where
  "produced [] = []"
| "produced (Produced data # obs) = data @ produced obs"
| "produced (_ # obs) = produced obs"

fun rejoins :: "string \<Rightarrow> observation \<Rightarrow> bool" where
  "rejoins aid (Joined a p d) \<longleftrightarrow> a = aid"
| "rejoins aid (Left a) \<longleftrightarrow> a = aid"
| "rejoins aid _ \<longleftrightarrow> False"

definition broadcast_wf :: "broadcast \<Rightarrow> bool" where
  "broadcast_wf b \<longleftrightarrow> (\<forall>aid p. b_pos b aid = Some p \<longrightarrow> b_base b \<le> p \<and> p \<le> b_end b)"

lemma broadcast_step_wf:
  assumes "broadcast_step limit b x = Some b'" "broadcast_wf b"
  shows "broadcast_wf b'" "b_base b' = b_base b" "b_stream b' = b_stream b @ produced [x]"
  using assms
  by (cases x; auto simp: broadcast_wf_def b_end_def survivors_def Let_def split: if_splits option.splits;
      fastforce)+

lemma slice_extend:
  assumes "b_base b \<le> p" "p \<le> q" "q \<le> b_end b" "b_base b' = b_base b" "b_stream b' = b_stream b @ ds"
  shows "b_slice b' p q = b_slice b p q"
proof -
  have "q - p \<le> length (b_stream b) - (p - b_base b)" using assms by (simp add: b_end_def)
  then show ?thesis using assms by (simp add: b_slice_def)
qed


lemma produced_Cons: "produced (x # xs) = produced [x] @ produced xs"
  by (cases x) auto

lemma received_Cons: "received aid (x # xs) = received aid [x] @ received aid xs"
  by (cases x) auto

lemma accepts_wf:
  "accepts (broadcast_step limit) b obs = Some b' \<Longrightarrow> broadcast_wf b \<Longrightarrow>
   broadcast_wf b' \<and> b_base b' = b_base b \<and> b_stream b' = b_stream b @ produced obs"
proof (induction obs arbitrary: b)
  case Nil
  then show ?case by simp
next
  case (Cons x obs)
  then obtain b1 where b1: "broadcast_step limit b x = Some b1"
    "accepts (broadcast_step limit) b1 obs = Some b'" by (auto split: option.splits)
  note w = broadcast_step_wf [OF b1(1) Cons.prems(2)]
  from Cons.IH [OF b1(2) w(1)] w show ?case unfolding produced_Cons [of x obs] by simp
qed

lemma step_pos_None:
  "broadcast_step limit b x = Some b' \<Longrightarrow> b_pos b aid = None \<Longrightarrow> \<not> rejoins aid x \<Longrightarrow> b_pos b' aid = None"
  by (cases x) (auto simp: survivors_def Let_def split: if_splits)

lemma accepts_pos_None:
  "accepts (broadcast_step limit) b obs = Some b' \<Longrightarrow> b_pos b aid = None \<Longrightarrow>
   \<forall>x \<in> set obs. \<not> rejoins aid x \<Longrightarrow> b_pos b' aid = None"
proof (induction obs arbitrary: b)
  case Nil
  then show ?case by simp
next
  case (Cons x obs)
  then obtain b1 where b1: "broadcast_step limit b x = Some b1"
    "accepts (broadcast_step limit) b1 obs = Some b'" by (auto split: option.splits)
  from Cons.IH [OF b1(2) step_pos_None [OF b1(1) Cons.prems(2)]] Cons.prems(3) show ?case by simp
qed

lemma step_pos_Some:
  assumes "broadcast_step limit b x = Some b'" "b_pos b aid = Some p" "\<not> rejoins aid x"
  shows "b_pos b' aid = None \<or> b_pos b' aid = Some p \<and> received aid [x] = [] \<or>
    (\<exists>p'. b_pos b' aid = Some p' \<and> p < p' \<and> p' \<le> b_end b \<and> received aid [x] = b_slice b p p')"
  using assms by (cases x) (auto simp: survivors_def Let_def split: if_splits)

lemma accepts_received:
  assumes "accepts (broadcast_step limit) b obs = Some b'" "broadcast_wf b" "b_pos b aid = Some p"
    "\<forall>x \<in> set obs. \<not> rejoins aid x" "b_pos b' aid = Some q"
  shows "p \<le> q \<and> received aid obs = b_slice b' p q"
  using assms
proof (induction obs arbitrary: b p)
  case Nil
  then show ?case by (simp add: b_slice_def)
next
  case (Cons x obs)
  then obtain b1 where b1: "broadcast_step limit b x = Some b1"
    "accepts (broadcast_step limit) b1 obs = Some b'" by (auto split: option.splits)
  note w = broadcast_step_wf [OF b1(1) Cons.prems(2)]
  have nr: "\<forall>x \<in> set obs. \<not> rejoins aid x" "\<not> rejoins aid x" using Cons.prems(4) by simp_all
  have all: "broadcast_wf b'" "b_base b' = b_base b" "b_stream b' = b_stream b @ produced (x # obs)"
    using accepts_wf [OF Cons.prems(1,2)] by simp_all
  from step_pos_Some [OF b1(1) Cons.prems(3) nr(2)] consider
      "b_pos b1 aid = None" | "b_pos b1 aid = Some p" "received aid [x] = []"
    | p' where "b_pos b1 aid = Some p'" "p < p'" "p' \<le> b_end b" "received aid [x] = b_slice b p p'"
    by (elim disjE exE conjE) iprover+
  then show ?case
  proof cases
    case 1
    then show ?thesis using accepts_pos_None [OF b1(2) _ nr(1)] Cons.prems(5) by simp
  next
    case 2
    then show ?thesis using Cons.IH [OF b1(2) w(1) 2(1) nr(1) Cons.prems(5)] received_Cons [of aid x obs] by simp
  next
    case 3
    have ih: "p' \<le> q" "received aid obs = b_slice b' p' q"
      using Cons.IH [OF b1(2) w(1) 3(1) nr(1) Cons.prems(5)] by simp_all
    have bp: "b_base b \<le> p" using Cons.prems(2,3) by (simp add: broadcast_wf_def)
    have "received aid [x] = b_slice b' p p'"
      using slice_extend [OF bp _ 3(3) all(2,3)] 3(2,4) by simp
    then have "received aid (x # obs) = b_slice b' p p' @ b_slice b' p' q"
      using received_Cons [of aid x obs] ih(2) by simp
    also have "\<dots> = b_slice b' p q"
      using take_drop_append_slice [of "p - b_base b" "p' - b_base b" "q - b_base b" "b_stream b'"]
        bp 3(2) ih(1) all(2) by (simp add: b_slice_def)
    finally show ?thesis using 3(2) ih(1) by simp
  qed
qed

lemma terminal_rel_wf:
  assumes "terminal_rel limit t b"
  shows "broadcast_wf b"
proof -
  obtain G dropped where r: "0 < limit" "limit < u64_limit" "hist_inv (t_hist t)"
    "good_chunks (b_base b) G (h_latest (t_hist t))" "payload G = b_stream b"
    "G = dropped @ live (t_hist t)" "fanout_inv G (t_fan t)" "synced (h_latest (t_hist t)) (t_fan t)"
    "position (h_latest (t_hist t)) (t_fan t) = b_pos b" "b_end b = h_latest (t_hist t)"
    "\<And>aid m. limits (t_fan t) aid = Some m \<Longrightarrow> m = limit"
    by (rule terminal_relE [OF assms]) blast
  show ?thesis unfolding broadcast_wf_def
  proof (intro allI impI)
    fix aid p
    assume "b_pos b aid = Some p"
    then obtain c where c: "map_of (f_atts (t_fan t)) aid = Some c" "a_state c = Attached"
      and p: "p = (if a_has c then a_cursor c else b_end b)"
      using r(9,10) by (auto simp: position_def split: option.splits if_splits dest: sym)
    have ok: "cursor_ok G (f_ring (t_fan t)) c" using r(7) c(1) unfolding fanout_inv_def by blast
    have en: "a_has c \<Longrightarrow> a_end c = b_end b" using r(8,10) c unfolding synced_def by metis
    have base: "b_base b \<le> a_cursor c" if "a_has c" "a_cursor c < a_end c"
    proof -
      have "covered (f_ring (t_fan t)) (a_cursor c)" using ok c(2) that by (simp add: cursor_ok_def)
      then obtain e where "e \<in> set (f_ring (t_fan t))" "start_seq e \<le> a_cursor c"
        by (auto simp: covered_def)
      moreover have "\<forall>e \<in> set (f_ring (t_fan t)). piece G e"
        using r(7) by (simp add: fanout_inv_def ring_inv_def)
      ultimately show ?thesis using piece_slice(2) [OF r(4)] le_trans by blast
    qed
    show "b_base b \<le> p \<and> p \<le> b_end b"
    proof (cases "a_has c \<and> a_cursor c < a_end c")
      case True
      then show ?thesis using base p en by simp
    next
      case False
      then have "p = b_end b" using ok c(2) p en by (auto simp: cursor_ok_def)
      then show ?thesis by (simp add: b_end_def)
    qed
  qed
qed

lemma attach_live_joins:
  assumes "terminal_rel limit t b" "term_obs mx limit t (AttachLive aid) = [Joined aid p d]"
  shows "p = b_end b"
proof -
  obtain G dropped where r: "0 < limit" "limit < u64_limit" "hist_inv (t_hist t)"
    "good_chunks (b_base b) G (h_latest (t_hist t))" "payload G = b_stream b"
    "G = dropped @ live (t_hist t)" "fanout_inv G (t_fan t)" "synced (h_latest (t_hist t)) (t_fan t)"
    "position (h_latest (t_hist t)) (t_fan t) = b_pos b" "b_end b = h_latest (t_hist t)"
    "\<And>aid m. limits (t_fan t) aid = Some m \<Longrightarrow> m = limit"
    by (rule terminal_relE [OF assms(1)]) blast
  have ne: "\<forall>e \<in> set (live (t_hist t)). ev_data e \<noteq> []" using r(4,6) by (auto simp: good_chunks_def)
  obtain rep f where a: "attach_locked mx limit (t_hist t) (t_fan t) aid (h_latest (t_hist t)) = (Inr rep, f)"
    and p: "p = r_from rep"
    using assms(2) by (auto simp: observe_attach_def split: sum.splits prod.splits) (metis prod.collapse)
  have le: "h_earliest (t_hist t) \<le> h_latest (t_hist t)"
    using r(3) by (auto simp: hist_inv_def dest: chain_le)
  obtain rep' where "attach_replay (t_hist t) (h_latest (t_hist t)) (attachment_replay_limit limit) = Inr rep'"
    "r_from rep' = h_latest (t_hist t)"
    using attach_replay_ok [OF r(3) ne _ le, of "attachment_replay_limit limit"] replay_limit_bounds [OF r(1)]
    by auto
  with a p r(10) show ?thesis
    by (auto simp: attach_locked_def split: if_splits sum.splits prod.splits option.splits)
qed

lemma active_position:
  assumes "fanout_inv G f"
  shows "aid \<in> set (f_active f) \<longleftrightarrow> position L f aid \<noteq> None"
  using assms by (auto simp: fanout_inv_def position_def split: option.splits)

lemma evicts_attached: "evicts f ev aid \<Longrightarrow> \<exists>p. position L f aid = Some p"
  by (auto simp: evicts_def evicted_by_def position_def)

lemma tail_payload:
  assumes "hist_inv h" "good_chunks b (dropped @ live h) (h_latest h)"
    and "\<forall>e \<in> set es. piece (dropped @ live h) e" "chain q es (h_latest h)" "h_earliest h \<le> q"
  shows "payload es = drop (q - h_earliest h) (content h)"
proof -
  note be = base_le_earliest [OF assms(1,2)]
  from assms(2) obtain m where m: "chain b dropped m" "chain m (live h) (h_latest h)"
    by (auto simp: good_chunks_def)
  have "chain (h_earliest h) (live h) (h_latest h)" using assms(1) by (simp add: hist_inv_def)
  with m(2) have "m = h_earliest h" using chain_length by (metis add_right_cancel)
  then have d: "length (payload dropped) = h_earliest h - b" using chain_length [OF m(1)] by simp
  have len: "length (content h) = h_latest h - h_earliest h"
    using content_length assms(1) hist_inv_pre by blast
  have "payload es = take (h_latest h - q) (drop (q - b) (payload dropped @ content h))"
    using pieces_payload [OF assms(2-4)] be assms(5) by (simp add: content_def)
  moreover have "drop (q - b) (payload dropped @ content h) = drop (q - h_earliest h) (content h)"
    using d be assms(5) by simp
  ultimately have "payload es = take (h_latest h - q) (drop (q - h_earliest h) (content h))" by (simp only:)
  then show ?thesis using len by simp
qed

subsection \<open>A concrete terminal\<close>

text \<open>A restored history of two chunks, limits 8 and 10, and no attachment yet.\<close>

definition sample_chunks :: "event list" where
  "sample_chunks = [\<lparr>channel = 1, start_seq = 3, end_seq = 6, ev_data = [1, 2, 3]\<rparr>,
                    \<lparr>channel = 1, start_seq = 6, end_seq = 8, ev_data = [4, 5]\<rparr>]"

definition sample_terminal :: terminal where
  "sample_terminal = \<lparr>t_hist = \<lparr>h_max = 10, h_bytes = 5, h_earliest = 3, h_latest = 8,
      h_events = sample_chunks, h_head = 0, h_acks = []\<rparr>, t_fan = new_fanout\<rparr>"

lemmas terminal_eval =
  capture_output_def append_owned_def compact_locked_def compact_loop.simps publish_owned_def
  valid_output_event_def insert_event.simps search_loop.simps event_at_def fanout_compact_def
  publish_to_def accept_def evict_def overflows_def evicted_by_def make_eviction_def out_of_order_def
  attach_locked_def attach_replay_def replay_owned_def replay_loop.simps attachment_replay_limit_def
  initial_replay_bytes_def fanout_attach_def fanout_count_def fresh_cursor_def enqueue_owned_def
  next_owned_def fanout_detach_def observe_attach_def live_def new_fanout_def contains_def
  slice_event_def ring_key_def u64_add_def u64_limit_def zero_event_def

lemma sample_restored: "restore 10 3 8 sample_chunks = Inr (t_hist sample_terminal)"
  by (simp add: restore_def new_history_def sample_chunks_def sample_terminal_def u64_add_def u64_limit_def)

lemma sample_reachable: "terminal_reachable 4 8 sample_terminal"
  using terminal_reachable.start [OF sample_restored, of 8 4]
  by (simp add: sample_chunks_def sample_terminal_def u64_limit_def)

lemma sample_facts:
  "h_earliest (t_hist sample_terminal) = 3" "h_latest (t_hist sample_terminal) = 8"
  "content (t_hist sample_terminal) = [1, 2, 3, 4, 5]" "attachment_replay_limit 8 = 4"
  "fanout_count (t_fan sample_terminal) = 0" "\<not> is_attached (t_fan sample_terminal) aid"
  by (simp_all add: sample_terminal_def sample_chunks_def new_fanout_def fanout_count_def is_attached_def
      attachment_replay_limit_def initial_replay_bytes_def content_def live_def)

definition sample_attached :: terminal where
  "sample_attached = term_step 4 8 sample_terminal (AttachLive ''a'')"

definition sample_ops :: "term_op list" where
  "sample_ops = [Produce [6, 7], Produce [8], Next ''a'', Next ''a'']"

lemma sample_attached_eq:
  "sample_attached = sample_terminal\<lparr>t_fan := \<lparr>f_atts = [(''a'', fresh_cursor 8)], f_active = [''a''], f_ring = []\<rparr>\<rparr>"
  "term_obs 4 8 sample_terminal (AttachLive ''a'') = [Joined ''a'' 8 []]"
  by (simp_all add: sample_attached_def sample_terminal_def sample_chunks_def terminal_eval)

subsection \<open>Properties\<close>

text \<open>
  C1: Every run of a terminal (produce, attach, detach, read, acknowledge and clear in
  any order, from any restored history) is a behaviour of the abstract broadcast:
  each delivery is the slice of the output stream at the reader's position, an
  attachment is dropped exactly when its backlog exceeds its queue limit, a reader
  that gets nothing has read everything, and only detached readers get an error.
\<close>
theorem terminal_refines_broadcast:
  assumes "restore hmax earliest latest evs = Inr h" "earliest + length (payload evs) < u64_limit"
    and "\<forall>e \<in> set evs. ev_data e \<noteq> [] \<and> end_seq e < u64_limit" "0 < limit" "limit < u64_limit"
  shows "accepts (broadcast_step limit) \<lparr>b_base = earliest, b_stream = payload evs, b_pos = (\<lambda>_. None)\<rparr>
           (trace (term_step mx limit) (term_obs mx limit) \<lparr>t_hist = h, t_fan = new_fanout\<rparr> ops) \<noteq> None"
  using broadcast.run_sim [OF restored_rel [OF assms], of mx ops] by auto

theorem terminal_refines_broadcast_witness:
  "accepts (broadcast_step 8) \<lparr>b_base = 3, b_stream = [1, 2, 3, 4, 5], b_pos = (\<lambda>_. None)\<rparr>
     (trace (term_step 4 8) (term_obs 4 8) \<lparr>t_hist = t_hist sample_terminal, t_fan = new_fanout\<rparr>
        (Attach ''b'' 4 # AttachLive ''a'' # sample_ops)) \<noteq> None"
  using terminal_refines_broadcast [OF sample_restored, of 8 4 "Attach ''b'' 4 # AttachLive ''a'' # sample_ops"]
  by (simp add: sample_chunks_def u64_limit_def)

text \<open>
  C2: What a client that attaches live receives.  If the attachment joins, does not
  leave or rejoin, and a later read finds nothing, then the bytes delivered to it are
  exactly the bytes the terminal produced in between, in order.
\<close>
theorem live_attachment_receives_everything:
  assumes "terminal_reachable mx limit t"
    and "term_obs mx limit t (AttachLive aid) = [Joined aid p d]"
    and "t' = term_step mx limit t (AttachLive aid)"
    and "\<forall>x \<in> set (trace (term_step mx limit) (term_obs mx limit) t' ops). \<not> rejoins aid x"
    and "term_obs mx limit (run (term_step mx limit) t' ops) (Next aid) = [Idle aid]"
  shows "received aid (trace (term_step mx limit) (term_obs mx limit) t' ops) = produced (trace (term_step mx limit) (term_obs mx limit) t' ops)"
proof -
  obtain b where b: "terminal_rel limit t b" using terminal_reachable_rel [OF assms(1)] ..
  obtain b0 where b0: "accepts (broadcast_step limit) b [Joined aid p d] = Some b0" "terminal_rel limit t' b0"
    using broadcast.step_sim [OF b, of mx "AttachLive aid"] assms(2,3) by auto
  obtain b1 where b1: "accepts (broadcast_step limit) b0 (trace (term_step mx limit) (term_obs mx limit) t' ops) = Some b1"
    "terminal_rel limit (run (term_step mx limit) t' ops) b1"
    using broadcast.run_sim [OF b0(2)] by blast
  obtain b2 where "accepts (broadcast_step limit) b1 [Idle aid] = Some b2"
    using broadcast.step_sim [OF b1(2), of mx "Next aid"] assms(5) by auto
  then have idle: "b_pos b1 aid = Some (b_end b1)" by (auto split: if_splits option.splits)
  have pos: "b_pos b0 aid = Some p" and wf: "broadcast_wf b0" and p: "p = b_end b0"
    using b0 terminal_rel_wf [OF b0(2)] attach_live_joins [OF b assms(2)]
    by (auto split: if_splits simp: b_end_def)
  have "received aid (trace (term_step mx limit) (term_obs mx limit) t' ops) = b_slice b1 (b_end b0) (b_end b1)"
    using accepts_received [OF b1(1) wf pos assms(4) idle] p by simp
  moreover have "b_base b1 = b_base b0" "b_stream b1 = b_stream b0 @ produced (trace (term_step mx limit) (term_obs mx limit) t' ops)"
    using accepts_wf [OF b1(1) wf] by simp_all
  ultimately show ?thesis by (simp add: b_slice_def b_end_def)
qed


lemma sample_trace:
  "trace (term_step 4 8) (term_obs 4 8) sample_attached sample_ops =
     [Produced [6, 7], Produced [8],
      Delivered ''a'' \<lparr>channel = 1, start_seq = 8, end_seq = 10, ev_data = [6, 7]\<rparr>,
      Delivered ''a'' \<lparr>channel = 1, start_seq = 10, end_seq = 11, ev_data = [8]\<rparr>]"
  "term_obs 4 8 (run (term_step 4 8) sample_attached sample_ops) (Next ''a'') = [Idle ''a'']"
  unfolding sample_attached_eq sample_ops_def
  by (simp_all add: sample_terminal_def sample_chunks_def terminal_eval Let_def)

theorem live_attachment_receives_everything_witness:
  "received ''a'' (trace (term_step 4 8) (term_obs 4 8) sample_attached sample_ops) = [6, 7, 8]"
  using live_attachment_receives_everything
    [OF sample_reachable sample_attached_eq(2) sample_attached_def, of sample_ops]
  by (simp add: sample_trace)


lemma replay_limit_bound: "attachment_replay_limit limit = min initial_replay_bytes (max 1 (limit div 2))"
  by (auto simp: attachment_replay_limit_def initial_replay_bytes_def Let_def)

text \<open>
  C5: Attaching never fails for a cursor the history still covers: the replay starts at
  the requested cursor, or, when more is outstanding than half of the limit of the
  attachment and the bound of a first replay, at the newest tail of that size, and carries exactly the retained bytes from there to the end.
\<close>
theorem attach_replays_bounded_tail:
  assumes "terminal_reachable mx limit t" "fanout_count (t_fan t) < mx" "aid \<noteq> []"
    and "\<not> is_attached (t_fan t) aid"
    and "h_earliest (t_hist t) \<le> frm" "frm \<le> h_latest (t_hist t)"
    and "bound = min initial_replay_bytes (max 1 (limit div 2))"
    and "q = (if h_latest (t_hist t) - frm \<le> bound then frm else h_latest (t_hist t) - bound)"
  shows "\<exists>rep f'. attach_locked mx limit (t_hist t) (t_fan t) aid frm = (Inr rep, f') \<and>
           r_from rep = q \<and> payload (r_events rep) = drop (q - h_earliest (t_hist t)) (content (t_hist t)) \<and>
           is_attached f' aid"
proof -
  obtain b where b: "terminal_rel limit t b" using terminal_reachable_rel [OF assms(1)] ..
  obtain G dropped where r: "0 < limit" "limit < u64_limit" "hist_inv (t_hist t)"
    "good_chunks (b_base b) G (h_latest (t_hist t))" "payload G = b_stream b"
    "G = dropped @ live (t_hist t)" "fanout_inv G (t_fan t)" "synced (h_latest (t_hist t)) (t_fan t)"
    "position (h_latest (t_hist t)) (t_fan t) = b_pos b" "b_end b = h_latest (t_hist t)"
    "\<And>aid m. limits (t_fan t) aid = Some m \<Longrightarrow> m = limit"
    by (rule terminal_relE [OF b]) blast
  let ?h = "t_hist t"
  have "position (h_latest ?h) (t_fan t) aid = None"
    using assms(4) active_position [OF r(7), of aid] unfolding is_attached_def by blast
  then obtain rep f' where a: "attach_locked mx limit ?h (t_fan t) aid frm = (Inr rep, f')" "r_from rep = q"
    "chain q (r_events rep) (h_latest ?h)" "\<forall>e \<in> set (r_events rep). piece G e" "h_earliest ?h \<le> q"
    "fanout_inv G f'" "position (h_latest ?h) f' = (position (h_latest ?h) (t_fan t))(aid \<mapsto> q)"
    using attach_locked_ok [OF r(1-4,6-8) assms(2,3) _ assms(5,6)] unfolding assms(8) assms(7) replay_limit_bound by blast
  have "is_attached f' aid" using a(6,7) by (simp add: is_attached_def active_position [of G f' aid "h_latest ?h"])
  moreover have "payload (r_events rep) = drop (q - h_earliest ?h) (content ?h)"
    using tail_payload [OF r(3) r(4) [unfolded r(6)] _ a(3,5)] a(4) r(6) by simp
  ultimately show ?thesis using a(1,2) by blast
qed

theorem attach_replays_bounded_tail_witness:
  "\<exists>rep f'. attach_locked 4 8 (t_hist sample_terminal) (t_fan sample_terminal) ''c'' 3 = (Inr rep, f') \<and>
     r_from rep = 4 \<and> payload (r_events rep) = [2, 3, 4, 5] \<and> is_attached f' ''c''"
proof -
  have "drop (4 - h_earliest (t_hist sample_terminal)) (content (t_hist sample_terminal)) = [2, 3, 4, 5]"
    by (simp add: sample_facts)
  moreover have "\<exists>rep f'. attach_locked 4 8 (t_hist sample_terminal) (t_fan sample_terminal) ''c'' 3 = (Inr rep, f') \<and>
     r_from rep = 4 \<and> payload (r_events rep) =
       drop (4 - h_earliest (t_hist sample_terminal)) (content (t_hist sample_terminal)) \<and> is_attached f' ''c''"
    by (rule attach_replays_bounded_tail [OF sample_reachable, where bound = 4]) (simp_all add: sample_facts initial_replay_bytes_def)
  ultimately show ?thesis by (simp only:)
qed

text \<open>
  C6: The fanout accepts every chunk the history produces: publishing never reports an
  ordering error, and it evicts exactly the attachments whose backlog would exceed
  their queue limit.
\<close>
theorem publish_evicts_exactly_the_slow:
  assumes "terminal_reachable mx limit t" "append_owned (t_hist t) 1 data = (Inr ev, h')" "data \<noteq> []"
  shows "\<exists>evs f'. publish_owned (t_fan t) ev = Inr (evs, f') \<and>
           (\<forall>aid. aid \<in> ev_attachment ` set evs \<longleftrightarrow>
              (\<exists>p. position (h_latest (t_hist t)) (t_fan t) aid = Some p \<and>
                   h_latest (t_hist t) + length data - p > limit))"
proof -
  obtain b where b: "terminal_rel limit t b" using terminal_reachable_rel [OF assms(1)] ..
  obtain G dropped where r: "0 < limit" "limit < u64_limit" "hist_inv (t_hist t)"
    "good_chunks (b_base b) G (h_latest (t_hist t))" "payload G = b_stream b"
    "G = dropped @ live (t_hist t)" "fanout_inv G (t_fan t)" "synced (h_latest (t_hist t)) (t_fan t)"
    "position (h_latest (t_hist t)) (t_fan t) = b_pos b" "b_end b = h_latest (t_hist t)"
    "\<And>aid m. limits (t_fan t) aid = Some m \<Longrightarrow> m = limit"
    by (rule terminal_relE [OF b]) blast
  let ?L = "h_latest (t_hist t)"
  have ev: "start_seq ev = ?L" "end_seq ev = ?L + length (ev_data ev)" "ev_data ev = data"
    "end_seq ev < u64_limit"
    using append_owned_effect [OF r(3) assms(2)] by (auto simp: hist_inv_def)
  have gc: "good_chunks (b_base b) (G @ [ev]) (end_seq ev)"
    using good_chunks_snoc [OF r(4) ev(1,2) _ ev(4)] ev(3) assms(3) by simp
  have inv: "fanout_inv (G @ [ev]) (t_fan t)" using r(7) by (rule fanout_inv_mono) auto
  have kd: "keys_distinct (f_atts (t_fan t))" using r(7) by (simp add: fanout_inv_def)
  obtain evs f' where p: "publish_owned (t_fan t) ev = Inr (evs, f')"
    "map ev_attachment evs = map fst (filter (evicted_by ev) (f_atts (t_fan t)))"
    using publish_ok [OF gc _ inv, where ev = ev] r(8) ev(1) by auto
  have ids: "aid \<in> ev_attachment ` set evs \<longleftrightarrow> evicts (t_fan t) ev aid" for aid
    using arg_cong [OF p(2), of set] gone_ids [OF kd, of aid ev] by simp
  have sv: "survivors limit (end_seq ev) (position ?L (t_fan t)) aid =
      (if evicts (t_fan t) ev aid then None else position ?L (t_fan t) aid)" for aid
    by (rule survivors_evicts [OF r(7,8,11)]) (use ev in auto)
  have "evicts (t_fan t) ev aid \<longleftrightarrow>
      (\<exists>p. position ?L (t_fan t) aid = Some p \<and> ?L + length data - p > limit)" for aid
    using sv [of aid] evicts_attached [of "t_fan t" ev aid ?L] ev(2,3)
    by (auto simp: survivors_def split: option.splits if_splits)
  with p(1) ids show ?thesis by blast
qed


lemma sample_slow:
  "append_owned (t_hist sample_attached) 1 [1, 2, 3, 4, 5, 6, 7, 8, 9] =
     (Inr \<lparr>channel = 1, start_seq = 8, end_seq = 17, ev_data = [1, 2, 3, 4, 5, 6, 7, 8, 9]\<rparr>,
      snd (append_owned (t_hist sample_attached) 1 [1, 2, 3, 4, 5, 6, 7, 8, 9]))"
  "h_latest (t_hist sample_attached) = 8" "position 8 (t_fan sample_attached) ''a'' = Some 8"
  unfolding sample_attached_eq
  by (simp_all add: sample_terminal_def append_owned_def Let_def u64_add_def u64_limit_def
      position_def fresh_cursor_def)

theorem publish_evicts_exactly_the_slow_witness:
  "\<exists>evs f'. publish_owned (t_fan sample_attached)
       \<lparr>channel = 1, start_seq = 8, end_seq = 17, ev_data = [1, 2, 3, 4, 5, 6, 7, 8, 9]\<rparr> = Inr (evs, f') \<and>
     ''a'' \<in> ev_attachment ` set evs"
proof -
  have "terminal_reachable 4 8 sample_attached"
    unfolding sample_attached_def using sample_reachable by (rule terminal_reachable.step)
  from publish_evicts_exactly_the_slow [OF this sample_slow(1)] show ?thesis
    using sample_slow(2,3) by auto
qed

end
