(* ===== verification/Input_Journal.thy ===== *)
theory Input_Journal
  imports Sha256
begin

section \<open>The journal of input decisions\<close>

text \<open>
  Model of \<open>src/internal/session/input.go\<close>.  \<open>input_journal\<close> is the struct
  \<open>InputJournal\<close>: the current process generation, the bound on the number of decisions
  and the decisions by key.  \<open>input_write\<close> is \<open>Write\<close>; the PTY it writes to is an
  argument, \<open>None\<close> for a nil writer and \<open>Some (n, failed)\<close> for a writer that takes
  \<open>n\<close> bytes and reports an error when \<open>failed\<close>.  Its third result says whether the
  writer was called, so that the properties can count PTY writes.
\<close>

datatype input_status = InputAccepted | InputDuplicate | InputRejected | InputUncertain

definition input_status_name :: "input_status \<Rightarrow> string" where
  "input_status_name st =
     (case st of InputAccepted \<Rightarrow> ''accepted'' | InputDuplicate \<Rightarrow> ''duplicate''
      | InputRejected \<Rightarrow> ''rejected'' | InputUncertain \<Rightarrow> ''uncertain'')"

definition parse_input_status :: "string \<Rightarrow> input_status option" where
  "parse_input_status name =
     (if name = ''accepted'' then Some InputAccepted
      else if name = ''duplicate'' then Some InputDuplicate
      else if name = ''rejected'' then Some InputRejected
      else if name = ''uncertain'' then Some InputUncertain
      else None)"

lemma parse_input_status_name [simp]: "parse_input_status (input_status_name st) = Some st"
  by (cases st) (simp_all add: parse_input_status_def input_status_name_def)

datatype input_error =
    ErrInvalidInput
  | ErrInputConflict
  | ErrInputUnknown
  | ErrInputJournalFull
  | StaleGeneration nat

record input_key =
  k_client :: string
  k_attachment :: string
  k_generation :: nat
  k_input :: string

record input_decision =
  d_status :: input_status
  d_written :: nat
  d_error :: string
  d_hash :: bytes

record input_journal =
  j_current :: nat
  j_max :: nat
  j_decisions :: "(input_key \<times> input_decision) list"

definition new_input_journal :: "nat \<Rightarrow> nat \<Rightarrow> input_journal" where
  "new_input_journal generation mx = \<lparr>j_current = generation, j_max = mx, j_decisions = []\<rparr>"

definition set_generation :: "input_journal \<Rightarrow> nat \<Rightarrow> input_journal" where
  "set_generation j generation = j\<lparr>j_current := generation\<rparr>"

text \<open>\<open>publicDecision\<close> blanks the digest (the zero array of 32 bytes).\<close>

definition public_decision :: "input_decision \<Rightarrow> input_decision" where
  "public_decision d = d\<lparr>d_hash := replicate 32 0\<rparr>"

definition valid_input_key :: "input_key \<Rightarrow> bool" where
  "valid_input_key key \<longleftrightarrow>
     k_client key \<noteq> [] \<and> k_attachment key \<noteq> [] \<and> k_input key \<noteq> [] \<and> k_generation key \<noteq> 0"

text \<open>The decision \<open>Write\<close> records for a write of \<open>n\<close> bytes of \<open>data\<close>.\<close>

definition decide :: "bytes \<Rightarrow> nat \<Rightarrow> bool \<Rightarrow> input_decision" where
  "decide data n failed =
     (let st = (if n = length data then InputAccepted else if n = 0 then InputRejected else InputUncertain);
          st' = (if failed \<and> 0 < n \<and> n < length data then InputUncertain else st)
      in \<lparr>d_status = st', d_written = n, d_error = (if failed then ''pty_write_failed'' else []),
          d_hash = sha256 data\<rparr>)"

definition input_write ::
    "input_journal \<Rightarrow> input_key \<Rightarrow> bytes \<Rightarrow> (nat \<times> bool) option \<Rightarrow>
     (input_error + input_decision) \<times> input_journal \<times> bool" where
  "input_write j key data writer =
     (case writer of
        None \<Rightarrow> (Inl ErrInvalidInput, j, False)
      | Some (n, failed) \<Rightarrow>
          if \<not> valid_input_key key then (Inl ErrInvalidInput, j, False)
          else (case map_of (j_decisions j) key of
             Some previous \<Rightarrow>
               if d_hash previous \<noteq> sha256 data then (Inl ErrInputConflict, j, False)
               else (Inr (public_decision
                       (if d_status previous = InputAccepted then previous\<lparr>d_status := InputDuplicate\<rparr>
                        else previous)), j, False)
           | None \<Rightarrow>
               if length (j_decisions j) \<ge> j_max j then (Inl ErrInputJournalFull, j, False)
               else if k_generation key \<noteq> j_current j then (Inl (StaleGeneration (j_current j)), j, False)
               else (Inr (public_decision (decide data n failed)),
                     j\<lparr>j_decisions := AList.update key (decide data n failed) (j_decisions j)\<rparr>, True)))"

definition input_query :: "input_journal \<Rightarrow> input_key \<Rightarrow> input_error + input_decision" where
  "input_query j key =
     (case map_of (j_decisions j) key of
        None \<Rightarrow> Inl ErrInputUnknown
      | Some d \<Rightarrow> Inr (public_decision d))"

definition input_admit :: "input_journal \<Rightarrow> input_key \<Rightarrow> input_error option" where
  "input_admit j key =
     (if map_of (j_decisions j) key \<noteq> None then None
      else if length (j_decisions j) \<ge> j_max j then Some ErrInputJournalFull
      else None)"

text \<open>The status is the stored string; only three of its values are restorable.\<close>

definition input_restore ::
    "input_journal \<Rightarrow> input_key \<Rightarrow> bytes \<Rightarrow> string \<Rightarrow> nat \<Rightarrow> string \<Rightarrow> input_error + input_journal" where
  "input_restore j key hash status written err =
     (if length hash \<noteq> 32 \<or> \<not> valid_input_key key then Inl ErrInvalidInput
      else case parse_input_status status of
        None \<Rightarrow> Inl ErrInvalidInput
      | Some st \<Rightarrow>
          if st = InputDuplicate then Inl ErrInvalidInput
          else if map_of (j_decisions j) key \<noteq> None then Inl ErrInputConflict
          else if length (j_decisions j) \<ge> j_max j then Inl ErrInputJournalFull
          else Inr (j\<lparr>j_decisions := AList.update key
                 \<lparr>d_status = st, d_written = written, d_error = err, d_hash = hash\<rparr> (j_decisions j)\<rparr>))"

subsection \<open>Invariant\<close>

definition journal_inv :: "input_journal \<Rightarrow> bool" where
  "journal_inv j \<longleftrightarrow>
     keys_distinct (j_decisions j) \<and> length (j_decisions j) \<le> j_max j \<and>
     (\<forall>(k, d) \<in> set (j_decisions j). valid_input_key k \<and> length (d_hash d) = 32 \<and> d_status d \<noteq> InputDuplicate)"

definition decided :: "input_journal \<Rightarrow> input_key \<Rightarrow> input_decision option" where
  "decided j = map_of (j_decisions j)"

lemma decide_status [simp]: "d_status (decide data n failed) \<noteq> InputDuplicate"
  "d_hash (decide data n failed) = sha256 data" "d_written (decide data n failed) = n"
  by (simp_all add: decide_def Let_def)

lemma journal_insert:
  assumes "journal_inv j" "map_of (j_decisions j) key = None" "length (j_decisions j) < j_max j"
    "valid_input_key key" "length (d_hash d) = 32" "d_status d \<noteq> InputDuplicate"
  shows "journal_inv (j\<lparr>j_decisions := AList.update key d (j_decisions j)\<rparr>)"
  using assms set_update_subset [of key d "j_decisions j"] unfolding journal_inv_def
  by (auto simp: length_update_new)

lemma input_write_cases:
  obtains (invalid) "input_write j key data w = (Inl ErrInvalidInput, j, False)" "w = None \<or> \<not> valid_input_key key"
  | (conflict) d where "decided j key = Some d" "d_hash d \<noteq> sha256 data"
      "input_write j key data w = (Inl ErrInputConflict, j, False)"
  | (repeat) d where "decided j key = Some d" "d_hash d = sha256 data"
      "input_write j key data w =
         (Inr (public_decision (if d_status d = InputAccepted then d\<lparr>d_status := InputDuplicate\<rparr> else d)), j, False)"
  | (full) "decided j key = None" "j_max j \<le> length (j_decisions j)"
      "input_write j key data w = (Inl ErrInputJournalFull, j, False)"
  | (stale) "decided j key = None" "k_generation key \<noteq> j_current j"
      "input_write j key data w = (Inl (StaleGeneration (j_current j)), j, False)"
  | (written) n failed where "decided j key = None" "k_generation key = j_current j" "w = Some (n, failed)"
      "length (j_decisions j) < j_max j" "valid_input_key key"
      "input_write j key data w = (Inr (public_decision (decide data n failed)),
         j\<lparr>j_decisions := AList.update key (decide data n failed) (j_decisions j)\<rparr>, True)"
proof (cases w)
  case None
  then show thesis using invalid by (simp add: input_write_def)
next
  case (Some p)
  obtain n failed where w: "w = Some (n, failed)" using Some by (cases p) simp
  show thesis
  proof (cases "valid_input_key key")
    case False
    then show thesis using invalid w by (simp add: input_write_def)
  next
    case True
    show thesis
    proof (cases "decided j key")
      case None
      then show thesis using full stale written w True
        by (cases "j_max j \<le> length (j_decisions j)"; cases "k_generation key = j_current j")
          (simp_all add: input_write_def decided_def)
    next
      case (Some d)
      then show thesis using conflict repeat w True
        by (cases "d_hash d = sha256 data") (simp_all add: input_write_def decided_def)
    qed
  qed
qed


lemma input_write_inv [inv_intros]:
  assumes "journal_inv j"
  shows "journal_inv (fst (snd (input_write j key data w)))"
  using assms by (cases rule: input_write_cases [of j key data w]) (auto simp: decided_def intro!: journal_insert)

lemma input_restore_inv [inv_intros]:
  "journal_inv j \<Longrightarrow> input_restore j key hash st n e = Inr j' \<Longrightarrow> journal_inv j'"
  by (auto simp: input_restore_def intro!: journal_insert split: if_splits option.splits)

lemma new_journal_inv [inv_intros]: "journal_inv (new_input_journal g mx)"
  by (simp add: journal_inv_def new_input_journal_def)

subsection \<open>Runs of the journal\<close>

datatype journal_op =
    JWrite input_key bytes "(nat \<times> bool) option"
  | JGeneration nat
  | JRestore input_key bytes string nat string

fun journal_step :: "input_journal \<Rightarrow> journal_op \<Rightarrow> input_journal" where
  "journal_step j (JWrite key data w) = fst (snd (input_write j key data w))"
| "journal_step j (JGeneration g) = set_generation j g"
| "journal_step j (JRestore key hash st n e) =
     (case input_restore j key hash st n e of Inl _ \<Rightarrow> j | Inr j' \<Rightarrow> j')"

text \<open>The keys under which the PTY was written.\<close>

fun journal_writes :: "input_journal \<Rightarrow> journal_op \<Rightarrow> input_key list" where
  "journal_writes j (JWrite key data w) = (if snd (snd (input_write j key data w)) then [key] else [])"
| "journal_writes j _ = []"

lemma decided_kept:
  assumes "decided j key = Some d"
  shows "decided (journal_step j x) key = Some d"
proof (cases x)
  case (JWrite k data w)
  then show ?thesis using assms
    by (cases rule: input_write_cases [of j k data w]) (auto simp: decided_def)
next
  case (JGeneration g)
  then show ?thesis using assms by (simp add: decided_def set_generation_def)
next
  case (JRestore k hash st n e)
  then show ?thesis using assms
    by (auto simp: decided_def input_restore_def split: if_splits option.splits sum.splits)
qed

lemma set_generation_inv [inv_intros]: "journal_inv j \<Longrightarrow> journal_inv (set_generation j g)"
  by (simp add: set_generation_def journal_inv_def)

lemma journal_step_inv: "journal_inv j \<Longrightarrow> journal_inv (journal_step j x)"
  by (cases x) (auto intro: inv_intros split: sum.splits)

lemma run_decided: "decided j key = Some d \<Longrightarrow> decided (run journal_step j ops) key = Some d"
  by (induction ops arbitrary: j) (simp_all add: decided_kept)

interpretation input_once: at_most_once journal_step journal_writes "\<lambda>j. dom (decided j)" "\<lambda>_. True" "\<lambda>_. True"
proof
  fix k j x
  assume k: "k \<in> set (journal_writes j x)"
  then obtain data w where x: "x = JWrite k data w" "snd (snd (input_write j k data w))"
    by (cases x) (auto split: if_splits)
  show "k \<notin> dom (decided j)" "k \<in> dom (decided (journal_step j x))"
    using x by (cases rule: input_write_cases [of j k data w]; auto simp: decided_def)+
next
  fix j x
  show "dom (decided j) \<subseteq> dom (decided (journal_step j x))"
    using decided_kept by (auto simp: dom_def)
next
  fix j x
  show "distinct (journal_writes j x)" by (cases x) auto
qed simp

interpretation journal_machine: traced_machine journal_step "\<lambda>_ _. []" "\<lambda>j (_ :: unit list). journal_inv j"
  by standard (simp add: journal_step_inv)

subsection \<open>Properties\<close>

text \<open>
  C3: Input is applied at most once: whatever clients send, whatever the PTY does, and
  across restores and generation changes, no run of the journal writes the PTY twice
  under the same key, nor under a key whose decision was restored.
\<close>
theorem input_written_at_most_once:
  "distinct (trace journal_step journal_writes j ops) \<and>
   set (trace journal_step journal_writes j ops) \<inter> dom (decided j) = {}"
  using input_once.trace_distinct input_once.trace_fresh by (intro conjI equals0I) blast+

text \<open>
  C4: A decision is final.  Once input was written under a key, every later write under
  that key, at any generation, leaves the PTY alone and returns the recorded decision
  (\<open>accepted\<close> reported as \<open>duplicate\<close>) when the content hash agrees, and a conflict
  otherwise.
\<close>
theorem input_decision_final:
  assumes "input_write j key data w = (Inr r, j', True)"
  shows "input_write (run journal_step j' ops) key data' (Some w') =
    (if sha256 data' = sha256 data
     then Inr (if d_status r = InputAccepted then r\<lparr>d_status := InputDuplicate\<rparr> else r)
     else Inl ErrInputConflict, run journal_step j' ops, False)"
proof (cases rule: input_write_cases [of j key data w])
  case (written n failed)
  then have r: "r = public_decision (decide data n failed)" and d: "decided j' key = Some (decide data n failed)"
    using assms by (auto simp: decided_def)
  have "decided (run journal_step j' ops) key = Some (decide data n failed)" by (rule run_decided [OF d])
  then show ?thesis using written(5) unfolding r
    by (cases w') (auto simp: input_write_def decided_def public_decision_def)
qed (use assms in auto)

definition sample_key :: input_key where
  "sample_key = \<lparr>k_client = ''c'', k_attachment = ''a'', k_generation = 2, k_input = ''i''\<rparr>"

lemma sample_write:
  "input_write (new_input_journal 2 5) sample_key [1, 2] (Some (2, False)) =
    (Inr (public_decision (decide [1, 2] 2 False)),
     (new_input_journal 2 5)\<lparr>j_decisions := [(sample_key, decide [1, 2] 2 False)]\<rparr>, True)"
  by (simp add: input_write_def new_input_journal_def valid_input_key_def sample_key_def)

theorem input_decision_final_witness:
  "fst (input_write (run journal_step ((new_input_journal 2 5)\<lparr>j_decisions := [(sample_key, decide [1, 2] 2 False)]\<rparr>)
     [JGeneration 3, JWrite sample_key [9] (Some (0, True))]) sample_key [1, 2] (Some (1, True))) =
   Inr \<lparr>d_status = InputDuplicate, d_written = 2, d_error = [], d_hash = replicate 32 0\<rparr>"
  using input_decision_final [OF sample_write, of "[JGeneration 3, JWrite sample_key [9] (Some (0, True))]" "[1, 2]" "(1, True)"]
  by (simp add: public_decision_def decide_def)

text \<open>
  The journal stays within its bound, with one decision per key and every stored
  digest of 32 bytes, in every run.
\<close>
theorem journal_bounded:
  "journal_inv (run journal_step (new_input_journal g mx) ops) \<and>
   length (j_decisions (run journal_step (new_input_journal g mx) ops)) \<le>
     j_max (run journal_step (new_input_journal g mx) ops)"
  using journal_machine.run_inv_init [of "new_input_journal g mx" ops] new_journal_inv
  by (simp add: journal_inv_def)

text \<open>
  Input for another process generation never reaches the PTY and never changes the
  journal; an undecided one is answered with the current generation.
\<close>
theorem stale_input_has_no_effect:
  assumes "k_generation key \<noteq> j_current j"
  shows "snd (input_write j key data w) = (j, False) \<and>
    (valid_input_key key \<and> w \<noteq> None \<and> decided j key = None \<and> length (j_decisions j) < j_max j \<longrightarrow>
       fst (input_write j key data w) = Inl (StaleGeneration (j_current j)))"
  using assms by (cases rule: input_write_cases [of j key data w]) auto

theorem stale_input_has_no_effect_witness:
  "input_write (new_input_journal 3 5) sample_key [1] (Some (1, False)) =
    (Inl (StaleGeneration 3), new_input_journal 3 5, False)"
  using stale_input_has_no_effect [of sample_key "new_input_journal 3 5" "[1]" "Some (1, False)"]
  by (simp add: sample_key_def new_input_journal_def valid_input_key_def decided_def prod_eq_iff)

end
