(* ===== verification/State_Store.thy ===== *)
theory State_Store
  imports Input_Journal Output_Event "HOL-Library.Char_ord" "HOL-Library.List_Lexorder"
    "HOL-Library.Product_Lexorder"
begin

section \<open>The durable state store: tables and sessions\<close>

text \<open>
  Model of \<open>src/internal/store/store.go\<close>: the SQLite tables \<open>sessions\<close>,
  \<open>output_events\<close>, \<open>input_decisions\<close>, \<open>operation_results\<close> and \<open>file_transfers\<close> as
  the fields of the record \<open>store\<close>, each keyed by its primary key, and the operations on
  the table of sessions.  The other tables have their own theories (\<open>Store_Output\<close>,
  \<open>Store_Journal\<close>, \<open>Store_Transfers\<close>).

  Every operation is one SQL statement or one transaction and so is atomic; the store
  holds a single connection.  The constraints of the schema (\<open>migrationV1\<close>,
  \<open>migrationV2\<close>) are conditions of the statements: a violated one is \<open>StoreConstraint\<close>
  and changes nothing.  A statement that fails for a reason outside the data (disk,
  cancelled context, injected fault) is \<open>with_fault\<close>, which the clients apply: the
  operation returns \<open>StoreFailure\<close> and either did nothing or was committed with the
  reply lost.  An integer column holds a signed 64-bit number, so a \<open>uint64\<close> parameter of
  \<open>2 ^ 63\<close> or more is refused by \<open>database/sql\<close>.  Times are nanoseconds; an empty string
  stands for both \<open>NULL\<close> and the empty text, as \<open>nullableString\<close> and \<open>COALESCE\<close> make
  them equal.  Not modelled: \<open>Open\<close>, \<open>migrate\<close>, \<open>check\<close> and the file permissions.
\<close>

datatype store_error =
    StoreConflict
  | StoreGap nat nat nat
  | StoreNoRows
  | StoreConstraint
  | StoreFailure
  | ErrResultTooLarge

definition sql_limit :: nat where
  "sql_limit = 2 ^ 63"

record session_row =
  sr_id :: string
  sr_name :: string
  sr_cwd :: string
  sr_path :: string
  sr_args :: "string list"
  sr_env :: "string list"
  sr_columns :: nat
  sr_rows :: nat
  sr_state :: string
  sr_generation :: nat
  sr_exit_code :: "int option"
  sr_exit_signal :: string
  sr_exited_at :: "int option"
  sr_earliest :: nat
  sr_latest :: nat
  sr_created :: "int option"
  sr_updated :: "int option"

record input_row =
  ir_hash :: bytes
  ir_status :: string
  ir_written :: nat
  ir_error :: string
  ir_created :: int

record operation_row =
  or_hash :: bytes
  or_state :: string
  or_result :: bytes
  or_error :: string
  or_completed :: "int option"
  or_expires :: int

record transfer_row =
  ft_batch :: string
  ft_direction :: string
  ft_session :: string
  ft_client :: string
  ft_basename :: string
  ft_size :: int
  ft_sha256 :: string
  ft_offset :: int
  ft_state :: string
  ft_result :: string
  ft_receipt :: string
  ft_created :: int
  ft_expires :: int

record store =
  st_sessions :: "session_row gomap"
  st_events :: "event list gomap"
  st_inputs :: "((string \<times> input_key) \<times> input_row) list"
  st_ops :: "operation_row gomap"
  st_transfers :: "transfer_row gomap"

definition empty_store :: store where
  "empty_store = \<lparr>st_sessions = [], st_events = [], st_inputs = [], st_ops = [], st_transfers = []\<rparr>"

text \<open>Failures of the database itself.\<close>

datatype fault = Healthy | Failing | LostReply

definition with_fault :: "fault \<Rightarrow> (store \<Rightarrow> (store_error + 'a) \<times> store) \<Rightarrow> store \<Rightarrow> (store_error + 'a) \<times> store" where
  "with_fault flt op st =
     (case flt of
        Healthy \<Rightarrow> op st
      | Failing \<Rightarrow> (Inl StoreFailure, st)
      | LostReply \<Rightarrow> (Inl StoreFailure, snd (op st)))"

lemma with_fault_cases:
  obtains "with_fault f op st = op st" | "with_fault f op st = (Inl StoreFailure, st)"
    | "with_fault f op st = (Inl StoreFailure, snd (op st))"
  by (cases f) (auto simp: with_fault_def)

lemma with_fault_keeps: "P st \<Longrightarrow> P (snd (op st)) \<Longrightarrow> P (snd (with_fault f op st))"
  by (cases f) (simp_all add: with_fault_def)

lemma with_fault_result: "with_fault f op st = (x, st') \<Longrightarrow> P st \<Longrightarrow> P (snd (op st)) \<Longrightarrow> P st'"
  by (cases f) (auto simp: with_fault_def)

lemma with_fault_Inr: "with_fault f op st = (Inr x, st') \<Longrightarrow> op st = (Inr x, st')"
  by (cases f) (auto simp: with_fault_def)

subsection \<open>Sessions\<close>

text \<open>The \<open>CHECK\<close> constraints of the table \<open>sessions\<close>, with the range of the integer columns.\<close>

definition session_constraints :: "session_row \<Rightarrow> bool" where
  "session_constraints r \<longleftrightarrow>
     1 \<le> sr_columns r \<and> sr_columns r \<le> 1000 \<and> 1 \<le> sr_rows r \<and> sr_rows r \<le> 1000 \<and>
     sr_generation r < sql_limit \<and> sr_latest r < sql_limit \<and> sr_earliest r \<le> sr_latest r"

definition stamp :: "int \<Rightarrow> int option \<Rightarrow> int option" where
  "stamp now t = (case t of None \<Rightarrow> Some now | Some u \<Rightarrow> Some u)"

definition name_taken :: "string \<Rightarrow> store \<Rightarrow> bool" where
  "name_taken name st \<longleftrightarrow> list_ex (\<lambda>(k, r). sr_name r = name) (st_sessions st)"

definition create_session :: "int \<Rightarrow> session_row \<Rightarrow> store \<Rightarrow> (store_error + unit) \<times> store" where
  "create_session now s st =
     (let r = s\<lparr>sr_created := stamp now (sr_created s), sr_updated := stamp now (sr_updated s)\<rparr>
      in if map_of (st_sessions st) (sr_id r) \<noteq> None \<or> name_taken (sr_name r) st \<or> \<not> session_constraints r
         then (Inl StoreConstraint, st)
         else (Inr (), st\<lparr>st_sessions := AList.update (sr_id r) r (st_sessions st)\<rparr>))"

definition all_sessions :: "store \<Rightarrow> session_row list" where
  "all_sessions st = sort_key sr_name (map snd (st_sessions st))"

text \<open>\<open>UpdateSession\<close> writes every column but the identity, the command and the output bounds.\<close>

definition updated_row :: "int \<Rightarrow> session_row \<Rightarrow> session_row \<Rightarrow> session_row" where
  "updated_row now nxt r =
     r\<lparr>sr_cwd := sr_cwd nxt, sr_columns := sr_columns nxt, sr_rows := sr_rows nxt,
       sr_state := sr_state nxt, sr_generation := sr_generation nxt,
       sr_exit_code := sr_exit_code nxt, sr_exit_signal := sr_exit_signal nxt,
       sr_exited_at := sr_exited_at nxt, sr_updated := Some now\<rparr>"

definition update_session ::
    "int \<Rightarrow> string \<Rightarrow> string \<Rightarrow> session_row \<Rightarrow> store \<Rightarrow> (store_error + unit) \<times> store" where
  "update_session now sid expected nxt st =
     (case map_of (st_sessions st) sid of
        None \<Rightarrow> (Inl StoreConflict, st)
      | Some r \<Rightarrow>
          if sr_state r \<noteq> expected then (Inl StoreConflict, st)
          else if \<not> session_constraints (updated_row now nxt r) then (Inl StoreConstraint, st)
          else (Inr (), st\<lparr>st_sessions := AList.update sid (updated_row now nxt r) (st_sessions st)\<rparr>))"

text \<open>Deleting a session deletes its output and its input decisions (\<open>ON DELETE CASCADE\<close>).\<close>

definition delete_session :: "string \<Rightarrow> store \<Rightarrow> (store_error + unit) \<times> store" where
  "delete_session sid st =
     (case map_of (st_sessions st) sid of
        None \<Rightarrow> (Inl StoreConflict, st)
      | Some r \<Rightarrow>
          if sr_state r \<noteq> ''exited'' \<and> sr_state r \<noteq> ''closed'' then (Inl StoreConflict, st)
          else (Inr (), st\<lparr>st_sessions := AList.delete sid (st_sessions st),
                           st_events := AList.delete sid (st_events st),
                           st_inputs := filter (\<lambda>p. fst (fst p) \<noteq> sid) (st_inputs st)\<rparr>))"

subsection \<open>Well-formed tables\<close>

text \<open>
  Primary keys are unique, session names are unique, rows of \<open>sessions\<close> satisfy their
  constraints and carry their key, and the dependent tables refer to existing sessions.
\<close>

definition sessions_wf :: "session_row gomap \<Rightarrow> bool" where
  "sessions_wf m \<longleftrightarrow>
     keys_distinct m \<and> distinct (map (sr_name \<circ> snd) m) \<and>
     (\<forall>(k, r) \<in> set m. sr_id r = k \<and> session_constraints r)"

definition references_wf :: "store \<Rightarrow> bool" where
  "references_wf st \<longleftrightarrow>
     fst ` set (st_events st) \<subseteq> fst ` set (st_sessions st) \<and>
     (fst \<circ> fst) ` set (st_inputs st) \<subseteq> fst ` set (st_sessions st)"

definition tables_wf :: "store \<Rightarrow> bool" where
  "tables_wf st \<longleftrightarrow>
     sessions_wf (st_sessions st) \<and> keys_distinct (st_events st) \<and> keys_distinct (st_inputs st) \<and>
     keys_distinct (st_ops st) \<and> keys_distinct (st_transfers st) \<and> references_wf st"

lemma keys_update: "fst ` set (AList.update k v m) = insert k (fst ` set m)"
proof -
  have "dom (map_of (AList.update k v m)) = insert k (dom (map_of m))" by auto
  then show ?thesis by (simp only: dom_map_of_conv_image_fst)
qed

lemma keys_delete: "fst ` set (AList.delete k m) = fst ` set m - {k}"
  by (auto simp: set_delete_filter)

lemma name_taken_iff: "name_taken name st \<longleftrightarrow> name \<in> set (map (sr_name \<circ> snd) (st_sessions st))"
  by (force simp: name_taken_def list_ex_iff)

lemma sessions_wf_update:
  assumes "sessions_wf m" "map_of m sid = Some r" "sr_name r' = sr_name r" "sr_id r' = sr_id r"
    "session_constraints r'"
  shows "sessions_wf (AList.update sid r' m)"
proof -
  have "map (sr_name \<circ> snd) (AList.update sid r' m) = map (sr_name \<circ> snd) m"
    if "map_of m sid = Some r" for m using that assms(3)
    by (induction m) (auto split: if_splits)
  moreover have "sr_id r = sid" using assms(1) map_of_SomeD [OF assms(2)] by (auto simp: sessions_wf_def)
  ultimately show ?thesis
    using assms set_update_subset [of sid r' m] by (auto simp: sessions_wf_def)
qed

lemma create_session_wf [inv_intros]:
  assumes "tables_wf st" "create_session now s st = (Inr (), st')"
  shows "tables_wf st'"
proof -
  let ?r = "s\<lparr>sr_created := stamp now (sr_created s), sr_updated := stamp now (sr_updated s)\<rparr>"
  have c: "map_of (st_sessions st) (sr_id s) = None" "\<not> name_taken (sr_name s) st"
    "session_constraints ?r" "st' = st\<lparr>st_sessions := AList.update (sr_id s) ?r (st_sessions st)\<rparr>"
    using assms(2) by (auto simp: create_session_def Let_def split: if_splits)
  then have "sessions_wf (st_sessions st')"
    using assms(1) by (auto simp: tables_wf_def sessions_wf_def update_fresh name_taken_iff keys_distinct_def
        map_of_eq_None_iff)
  moreover have "references_wf st'"
    using assms(1) c(4) by (auto simp: tables_wf_def references_wf_def keys_update)
  ultimately show ?thesis using assms(1) c(4) by (simp add: tables_wf_def)
qed

lemma update_session_Inr:
  assumes "update_session now sid expected nxt st = (Inr (), st')"
  obtains r where "map_of (st_sessions st) sid = Some r" "sr_state r = expected"
    "session_constraints (updated_row now nxt r)"
    "st' = st\<lparr>st_sessions := AList.update sid (updated_row now nxt r) (st_sessions st)\<rparr>"
  using assms by (auto simp: update_session_def split: option.splits if_splits)

lemma tables_wf_session_update:
  assumes "tables_wf st" "map_of (st_sessions st) sid = Some r" "sr_name r' = sr_name r"
    "sr_id r' = sr_id r" "session_constraints r'"
  shows "tables_wf (st\<lparr>st_sessions := AList.update sid r' (st_sessions st)\<rparr>)"
  using assms sessions_wf_update [OF _ assms(2-5)]
  by (auto simp: tables_wf_def references_wf_def keys_update)

lemma update_session_wf [inv_intros]:
  assumes "tables_wf st" "update_session now sid expected nxt st = (Inr (), st')"
  shows "tables_wf st'"
proof -
  obtain r where "map_of (st_sessions st) sid = Some r" "session_constraints (updated_row now nxt r)"
    "st' = st\<lparr>st_sessions := AList.update sid (updated_row now nxt r) (st_sessions st)\<rparr>"
    using update_session_Inr [OF assms(2)] by metis
  then show ?thesis using tables_wf_session_update [OF assms(1)] by (simp add: updated_row_def)
qed

lemma delete_session_wf [inv_intros]:
  assumes "tables_wf st" "delete_session sid st = (Inr (), st')"
  shows "tables_wf st'"
proof -
  let ?st = "st\<lparr>st_sessions := AList.delete sid (st_sessions st), st_events := AList.delete sid (st_events st),
      st_inputs := filter (\<lambda>p. fst (fst p) \<noteq> sid) (st_inputs st)\<rparr>"
  have st': "st' = ?st" using assms(2) by (auto simp: delete_session_def split: option.splits if_splits)
  have "distinct (map (sr_name \<circ> snd) (AList.delete sid (st_sessions st)))"
    using assms(1) by (auto simp: tables_wf_def sessions_wf_def AList.delete_eq intro: distinct_map_filter)
  then have "sessions_wf (AList.delete sid (st_sessions st))"
    using assms(1) by (auto simp: tables_wf_def sessions_wf_def set_delete_filter)
  moreover have "references_wf ?st"
    using assms(1) by (auto simp: tables_wf_def references_wf_def keys_delete)
  ultimately show ?thesis using assms(1) by (simp add: st' tables_wf_def keys_distinct_filter)
qed

end
