(* ===== verification/Store_Journal.thy ===== *)
theory Store_Journal
  imports State_Store
begin

section \<open>The durable state store: input decisions and operation results\<close>

text \<open>
  Model of the operations of \<open>src/internal/store/store.go\<close> on the tables
  \<open>input_decisions\<close> (\<open>PutInputDecision\<close>, \<open>InputDecisions\<close>, \<open>UpdateInputDecision\<close>) and
  \<open>operation_results\<close> (\<open>ReserveOperation\<close>, \<open>CompleteOperation\<close>, \<open>PutOperation\<close>,
  \<open>DeleteExpiredOperations\<close>, \<open>Operations\<close>, \<open>operation\<close>).  A \<open>NULL\<close> result and an empty
  result are the same, as \<open>bytes.Equal\<close> makes them.
\<close>

subsection \<open>Input decisions\<close>

definition put_input_decision ::
    "string \<Rightarrow> input_key \<Rightarrow> input_row \<Rightarrow> store \<Rightarrow> (store_error + bool) \<times> store" where
  "put_input_decision sid key row st =
     (case map_of (st_inputs st) (sid, key) of
        None \<Rightarrow>
          if map_of (st_sessions st) sid = None \<or> k_generation key \<ge> sql_limit then (Inl StoreConstraint, st)
          else (Inr True, st\<lparr>st_inputs := AList.update (sid, key) row (st_inputs st)\<rparr>)
      | Some old \<Rightarrow>
          if ir_hash old \<noteq> ir_hash row then (Inl StoreConflict, st) else (Inr False, st))"

definition input_order :: "(string \<times> input_key) \<times> input_row \<Rightarrow> nat \<times> int" where
  "input_order p = (k_generation (snd (fst p)), ir_created (snd p))"

definition input_decisions :: "string \<Rightarrow> store \<Rightarrow> (input_key \<times> input_row) list" where
  "input_decisions sid st =
     map (\<lambda>p. (snd (fst p), snd p)) (sort_key input_order (filter (\<lambda>p. fst (fst p) = sid) (st_inputs st)))"

definition update_input_decision ::
    "string \<Rightarrow> input_key \<Rightarrow> bytes \<Rightarrow> string \<Rightarrow> nat \<Rightarrow> string \<Rightarrow> store \<Rightarrow> (store_error + unit) \<times> store" where
  "update_input_decision sid key hash status written err st =
     (case map_of (st_inputs st) (sid, key) of
        None \<Rightarrow> (Inl StoreConflict, st)
      | Some row \<Rightarrow>
          if ir_hash row \<noteq> hash then (Inl StoreConflict, st)
          else (Inr (), st\<lparr>st_inputs := AList.update (sid, key)
                  (row\<lparr>ir_status := status, ir_written := written, ir_error := err\<rparr>) (st_inputs st)\<rparr>))"

subsection \<open>Operation results\<close>

definition max_operation_result_bytes :: nat where
  "max_operation_result_bytes = 65536"

definition pending_row :: "bytes \<Rightarrow> int \<Rightarrow> operation_row" where
  "pending_row hash expires =
     \<lparr>or_hash = hash, or_state = ''pending'', or_result = [], or_error = [], or_completed = None, or_expires = expires\<rparr>"

definition operation :: "string \<Rightarrow> store \<Rightarrow> store_error + operation_row" where
  "operation oid st = (case map_of (st_ops st) oid of None \<Rightarrow> Inl StoreNoRows | Some r \<Rightarrow> Inr r)"

definition reserve_operation ::
    "string \<Rightarrow> bytes \<Rightarrow> int \<Rightarrow> store \<Rightarrow> (store_error + (operation_row \<times> bool)) \<times> store" where
  "reserve_operation oid hash expires st =
     (case map_of (st_ops st) oid of
        None \<Rightarrow> (Inr (pending_row hash expires, True),
                 st\<lparr>st_ops := AList.update oid (pending_row hash expires) (st_ops st)\<rparr>)
      | Some r \<Rightarrow> if or_hash r \<noteq> hash then (Inl StoreConflict, st) else (Inr (r, False), st))"

definition complete_operation ::
    "string \<Rightarrow> bytes \<Rightarrow> bytes \<Rightarrow> string \<Rightarrow> int \<Rightarrow> int \<Rightarrow> store \<Rightarrow> (store_error + unit) \<times> store" where
  "complete_operation oid hash result err completed expires st =
     (if length result > max_operation_result_bytes then (Inl ErrResultTooLarge, st)
      else case map_of (st_ops st) oid of
        None \<Rightarrow> (Inl StoreNoRows, st)
      | Some r \<Rightarrow>
          if or_hash r = hash \<and> or_state r = ''pending''
          then (Inr (), st\<lparr>st_ops := AList.update oid
                  (r\<lparr>or_state := ''completed'', or_result := result, or_error := err,
                     or_completed := Some completed, or_expires := expires\<rparr>) (st_ops st)\<rparr>)
          else if or_hash r \<noteq> hash then (Inl StoreConflict, st)
          else if or_state r = ''completed'' \<and> or_result r = result \<and> or_error r = err then (Inr (), st)
          else (Inl StoreConflict, st))"

definition put_operation ::
    "string \<Rightarrow> bytes \<Rightarrow> bytes \<Rightarrow> string \<Rightarrow> int \<Rightarrow> int \<Rightarrow> store \<Rightarrow> (store_error + unit) \<times> store" where
  "put_operation oid hash result err completed expires st =
     (case reserve_operation oid hash expires st of
        (Inl e, st') \<Rightarrow> (Inl e, st')
      | (Inr _, st') \<Rightarrow> complete_operation oid hash result err completed expires st')"

definition delete_expired_operations :: "int \<Rightarrow> store \<Rightarrow> (store_error + unit) \<times> store" where
  "delete_expired_operations now st =
     (Inr (), st\<lparr>st_ops := filter (\<lambda>p. or_expires (snd p) > now) (st_ops st)\<rparr>)"

text \<open>\<open>Operations\<close>: drop what expired, forget oversized results, list pending ones first.\<close>

definition forget_oversized :: "operation_row \<Rightarrow> operation_row" where
  "forget_oversized r =
     (if length (or_result r) > max_operation_result_bytes
      then r\<lparr>or_state := ''pending'', or_result := [], or_error := [], or_completed := None\<rparr> else r)"

definition operation_order :: "string \<times> operation_row \<Rightarrow> nat \<times> nat \<times> int" where
  "operation_order p =
     (if or_state (snd p) = ''pending'' then 0 else 1,
      case or_completed (snd p) of None \<Rightarrow> (0, 0) | Some t \<Rightarrow> (1, t))"

definition operations ::
    "int \<Rightarrow> nat \<Rightarrow> store \<Rightarrow> (store_error + (string \<times> operation_row) list) \<times> store" where
  "operations now limit st =
     (if limit < 1 then (Inl StoreConflict, st)
      else let st' = st\<lparr>st_ops := map (\<lambda>(oid, r). (oid, forget_oversized r))
                            (filter (\<lambda>p. or_expires (snd p) > now) (st_ops st))\<rparr>
           in (Inr (take limit (sort_key operation_order (st_ops st'))), st'))"

subsection \<open>Well-formed tables are kept\<close>

lemma tables_wf_inputs:
  assumes "tables_wf st" "sid \<in> fst ` set (st_sessions st)"
  shows "tables_wf (st\<lparr>st_inputs := AList.update (sid, key) row (st_inputs st)\<rparr>)"
proof -
  have "(fst \<circ> fst) ` set (AList.update (sid, key) row (st_inputs st)) = insert sid ((fst \<circ> fst) ` set (st_inputs st))"
    by (simp only: image_comp [symmetric] keys_update image_insert fst_conv)
  then show ?thesis using assms unfolding tables_wf_def references_wf_def by simp
qed

lemma put_input_wf [inv_intros]:
  assumes "tables_wf st"
  shows "tables_wf (snd (put_input_decision sid key row st))"
  using assms tables_wf_inputs [OF assms, of sid key row]
  by (auto simp: put_input_decision_def map_of_eq_None_iff split: option.splits)

lemma update_input_wf [inv_intros]:
  assumes "tables_wf st"
  shows "tables_wf (snd (update_input_decision sid key hash status n e st))"
proof (cases "map_of (st_inputs st) (sid, key)")
  case (Some row)
  have "sid \<in> (fst \<circ> fst) ` set (st_inputs st)" using map_of_SomeD [OF Some] by force
  then have "sid \<in> fst ` set (st_sessions st)" using assms by (auto simp: tables_wf_def references_wf_def)
  then show ?thesis using assms tables_wf_inputs [OF assms] Some
    by (simp add: update_input_decision_def)
qed (simp add: update_input_decision_def assms)

lemma ops_wf [inv_intros]:
  "tables_wf st \<Longrightarrow> tables_wf (snd (reserve_operation oid hash ex st))"
  "tables_wf st \<Longrightarrow> tables_wf (snd (complete_operation oid hash res err co ex st))"
  "tables_wf st \<Longrightarrow> tables_wf (snd (delete_expired_operations now st))"
  "tables_wf st \<Longrightarrow> tables_wf (snd (operations now limit st))"
  by (auto simp: reserve_operation_def complete_operation_def delete_expired_operations_def operations_def
      tables_wf_def references_wf_def Let_def keys_distinct_filter split: option.splits)

subsection \<open>Lookup after each operation\<close>

definition op_row :: "store \<Rightarrow> string \<Rightarrow> operation_row option" where
  "op_row st = map_of (st_ops st)"

lemma map_of_filter_keys: "keys_distinct m \<Longrightarrow>
    map_of (filter P m) k = (case map_of m k of None \<Rightarrow> None | Some v \<Rightarrow> if P (k, v) then Some v else None)"
proof (induction m)
  case (Cons a m)
  obtain k' v where a: "a = (k', v)" by (cases a)
  show ?case
  proof (cases "k = k'")
    case True
    have "map_of m k' = None" using Cons.prems a by (auto simp: map_of_eq_None_iff)
    with True Cons a show ?thesis by auto
  next
    case False
    with Cons a show ?thesis by auto
  qed
qed simp

lemma reserve_row:
  "op_row (snd (reserve_operation oid hash ex st)) k =
     (if k = oid \<and> op_row st oid = None then Some (pending_row hash ex) else op_row st k)"
  by (auto simp: reserve_operation_def op_row_def split: option.splits)

lemma complete_row:
  "op_row (snd (complete_operation oid hash res err co ex st)) k =
     (case op_row st k of
        None \<Rightarrow> None
      | Some r \<Rightarrow> if k = oid \<and> length res \<le> max_operation_result_bytes \<and> or_hash r = hash \<and> or_state r = ''pending''
                  then Some (r\<lparr>or_state := ''completed'', or_result := res, or_error := err,
                               or_completed := Some co, or_expires := ex\<rparr>)
                  else Some r)"
  by (auto simp: complete_operation_def op_row_def split: option.splits)

lemma expired_row:
  "keys_distinct (st_ops st) \<Longrightarrow> op_row (snd (delete_expired_operations now st)) k =
     (case op_row st k of None \<Rightarrow> None | Some r \<Rightarrow> if or_expires r > now then Some r else None)"
  by (simp add: delete_expired_operations_def op_row_def map_of_filter_keys split: option.splits)

lemma operations_row:
  "keys_distinct (st_ops st) \<Longrightarrow> 0 < limit \<Longrightarrow> op_row (snd (operations now limit st)) k =
     (case op_row st k of None \<Rightarrow> None | Some r \<Rightarrow> if or_expires r > now then Some (forget_oversized r) else None)"
  using map_of_map_val [of "\<lambda>_. forget_oversized" "filter (\<lambda>p. or_expires (snd p) > now) (st_ops st)" k]
  by (simp add: operations_def op_row_def map_of_filter_keys Let_def split: option.splits)

text \<open>Completing what is already complete changes nothing, and the table forgets nothing but results.\<close>

lemma complete_twice:
  assumes "complete_operation oid hash res err co ex st = (Inr (), st')"
  shows "complete_operation oid hash res err co' ex' st' = (Inr (), st')"
proof -
  obtain r where "map_of (st_ops st') oid = Some r" "or_hash r = hash" "or_state r = ''completed''"
    "or_result r = res" "or_error r = err" "length res \<le> max_operation_result_bytes"
    using assms by (auto simp: complete_operation_def split: option.splits if_splits)
  then show ?thesis by (simp add: complete_operation_def)
qed

end
