(* ===== verification/Operation_Journal.thy ===== *)
theory Operation_Journal
  imports Store_Journal
begin

section \<open>The journal of control operations\<close>

text \<open>
  Model of \<open>src/internal/operation/journal.go\<close>.  \<open>op_journal\<close> is the struct \<open>Journal\<close>:
  the bound, the entries by operation id, the completed ids oldest first, whether a store
  backs the journal, the retention and the time of the last cleanup.

  \<open>Execute\<close> holds the mutex twice, around the call of the operation itself.  The two
  critical sections are \<open>execute_begin\<close>, which answers the request or decides to run the
  operation, and \<open>execute_finish\<close>, which records the outcome of the run.  Requests that
  find a running entry wait for it (\<open>Wait\<close>).  The request enters as its canonical hash
  (\<open>Canonical_Request\<close>), \<open>None\<close> when it is not canonical JSON.  Clock readings and
  database faults are arguments.
\<close>

record op_outcome =
  oc_result :: bytes
  oc_error :: string

datatype op_error =
    ErrInvalidOperationID
  | ErrInvalidRequest
  | ErrOperationConflict
  | ErrJournalFull
  | ErrOperationUncertain
  | OpStore store_error

record op_entry =
  e_hash :: bytes
  e_outcome :: op_outcome
  e_complete :: bool
  e_err :: "op_error option"

record op_journal =
  oj_max :: nat
  oj_entries :: "op_entry gomap"
  oj_order :: "string list"
  oj_durable :: bool
  oj_retention :: int
  oj_last_cleanup :: int

definition no_outcome :: op_outcome where
  "no_outcome = \<lparr>oc_result = [], oc_error = []\<rparr>"

definition cleanup_interval :: int where
  "cleanup_interval = 60000000000"

definition new_op_journal :: "nat \<Rightarrow> op_error + op_journal" where
  "new_op_journal mx =
     (if mx < 1 then Inl ErrJournalFull
      else Inr \<lparr>oj_max = mx, oj_entries = [], oj_order = [], oj_durable = False, oj_retention = 0,
                oj_last_cleanup = 0\<rparr>)"

subsection \<open>Starting from the store\<close>

definition row_entry :: "operation_row \<Rightarrow> op_entry" where
  "row_entry r =
     (if or_state r = ''pending''
      then \<lparr>e_hash = or_hash r, e_outcome = no_outcome, e_complete = True, e_err = Some ErrOperationUncertain\<rparr>
      else \<lparr>e_hash = or_hash r, e_outcome = \<lparr>oc_result = or_result r, oc_error = or_error r\<rparr>,
            e_complete = True, e_err = None\<rparr>)"

fun load_records :: "op_journal \<Rightarrow> (string \<times> operation_row) list \<Rightarrow> op_error + op_journal" where
  "load_records j [] = Inr j"
| "load_records j ((oid, r) # rs) =
     (if length (or_hash r) \<noteq> 32 then Inl ErrInvalidRequest
      else if or_state r = ''pending''
      then load_records (j\<lparr>oj_entries := AList.update oid (row_entry r) (oj_entries j)\<rparr>) rs
      else if or_state r = ''completed''
      then load_records (j\<lparr>oj_order := oj_order j @ [oid],
                           oj_entries := AList.update oid (row_entry r) (oj_entries j)\<rparr>) rs
      else Inl ErrInvalidRequest)"

definition new_persistent_journal ::
    "nat \<Rightarrow> int \<Rightarrow> int \<Rightarrow> fault \<Rightarrow> store \<Rightarrow> (op_error + op_journal) \<times> store" where
  "new_persistent_journal mx retention now flt st =
     (if retention \<le> 0 then (Inl ErrJournalFull, st)
      else case new_op_journal mx of
        Inl e \<Rightarrow> (Inl e, st)
      | Inr j \<Rightarrow>
          (case with_fault flt (operations now mx) st of
             (Inl e, st') \<Rightarrow> (Inl (OpStore e), st')
           | (Inr records, st') \<Rightarrow>
               (load_records (j\<lparr>oj_durable := True, oj_retention := retention, oj_last_cleanup := now\<rparr>) records,
                st')))"

subsection \<open>Executing an operation\<close>

datatype begin_result =
    Refuse op_error
  | Replayed op_outcome "op_error option"
  | Wait
  | Run

text \<open>Completed entries make room, oldest first.\<close>

fun evict_entries :: "op_entry gomap \<Rightarrow> string list \<Rightarrow> nat \<Rightarrow> op_entry gomap \<times> string list" where
  "evict_entries es [] mx = (es, [])"
| "evict_entries es (oldest # order) mx =
     (if length es \<ge> mx then evict_entries (AList.delete oldest es) order mx else (es, oldest # order))"

definition fresh_entry :: "bytes \<Rightarrow> op_entry" where
  "fresh_entry hash = \<lparr>e_hash = hash, e_outcome = no_outcome, e_complete = False, e_err = None\<rparr>"

text \<open>The durable half of the first critical section: clean up when due, then reserve.\<close>

definition reserve_durably ::
    "op_journal \<Rightarrow> string \<Rightarrow> bytes \<Rightarrow> int \<Rightarrow> int \<Rightarrow> fault \<Rightarrow> fault \<Rightarrow> store \<Rightarrow>
     begin_result \<times> op_journal \<times> store" where
  "reserve_durably j oid hash now now' flt flt' st =
     (let due = \<not> now < oj_last_cleanup j + cleanup_interval;
          (cleaned, st1) = (if due then with_fault flt (delete_expired_operations now) st else (Inr (), st))
      in case cleaned of
           Inl e \<Rightarrow> (Refuse (OpStore e), j, st1)
         | Inr _ \<Rightarrow>
             let j1 = (if due then j\<lparr>oj_last_cleanup := now\<rparr> else j)
             in case with_fault flt' (reserve_operation oid hash (now' + oj_retention j)) st1 of
                  (Inl e, st2) \<Rightarrow>
                    (Refuse (if e = StoreConflict then ErrOperationConflict else OpStore e), j1, st2)
                | (Inr (r, inserted), st2) \<Rightarrow>
                    if inserted
                    then (Run, j1\<lparr>oj_entries := AList.update oid (fresh_entry hash) (oj_entries j1)\<rparr>, st2)
                    else if or_state r = ''pending''
                    then (Replayed no_outcome (Some ErrOperationUncertain), j1, st2)
                    else (Replayed \<lparr>oc_result = or_result r, oc_error = or_error r\<rparr> None, j1, st2))"

definition execute_begin ::
    "op_journal \<Rightarrow> string \<Rightarrow> bytes option \<Rightarrow> int \<Rightarrow> int \<Rightarrow> fault \<Rightarrow> fault \<Rightarrow> store \<Rightarrow>
     begin_result \<times> op_journal \<times> store" where
  "execute_begin j oid request_hash now now' flt flt' st =
     (if length oid < 8 \<or> length oid > 128 then (Refuse ErrInvalidOperationID, j, st)
      else case request_hash of
        None \<Rightarrow> (Refuse ErrInvalidRequest, j, st)
      | Some hash \<Rightarrow>
          (case map_of (oj_entries j) oid of
             Some e \<Rightarrow>
               if e_hash e \<noteq> hash then (Refuse ErrOperationConflict, j, st)
               else if e_complete e then (Replayed (e_outcome e) (e_err e), j, st)
               else (Wait, j, st)
           | None \<Rightarrow>
               let (es, order) = evict_entries (oj_entries j) (oj_order j) (oj_max j);
                   j1 = j\<lparr>oj_entries := es, oj_order := order\<rparr>
               in if length es \<ge> oj_max j then (Refuse ErrJournalFull, j1, st)
                  else if oj_durable j then reserve_durably j1 oid hash now now' flt flt' st
                  else (Run, j1\<lparr>oj_entries := AList.update oid (fresh_entry hash) es\<rparr>, st)))"

text \<open>
  The second critical section, for an entry that is running; the last argument is the
  outcome that \<open>run\<close> returned.
\<close>

definition execute_finish ::
    "op_journal \<Rightarrow> string \<Rightarrow> op_outcome \<Rightarrow> int \<Rightarrow> fault \<Rightarrow> store \<Rightarrow> op_error option \<times> op_journal \<times> store" where
  "execute_finish j oid outcome now flt st =
     (case map_of (oj_entries j) oid of
        None \<Rightarrow> (None, j, st)
      | Some e \<Rightarrow>
          if e_complete e then (None, j, st)
          else
            let (persisted, st') =
              (if \<not> oj_durable j then (Inr (), st)
               else if length (oc_result outcome) > max_operation_result_bytes then (Inl ErrResultTooLarge, st)
               else with_fault flt (complete_operation oid (e_hash e) (oc_result outcome) (oc_error outcome)
                      now (now + oj_retention j)) st);
              err = (case persisted of Inl _ \<Rightarrow> Some ErrOperationUncertain | Inr _ \<Rightarrow> None);
              e' = e\<lparr>e_outcome := outcome, e_complete := True, e_err := err\<rparr>
            in (err,
                j\<lparr>oj_entries := AList.update oid e' (oj_entries j),
                  oj_order := (if err = None then oj_order j @ [oid] else oj_order j)\<rparr>,
                st'))"

subsection \<open>The journal over its life\<close>

text \<open>
  The journal of one helper over crashes and restarts: between restarts the journal is in
  memory, the store persists; a start that fails leaves no journal.  \<open>os_runs\<close> are the
  operations that are really executed.
\<close>

record op_system =
  os_journal :: "op_journal option"
  os_store :: store

datatype op_op =
    OBegin string "bytes option" int int fault fault
  | OFinish string op_outcome int fault
  | ORestart int fault

fun op_step :: "nat \<Rightarrow> int \<Rightarrow> op_system \<Rightarrow> op_op \<Rightarrow> op_system" where
  "op_step mx R s (OBegin oid h now now' f f') =
     (case os_journal s of
        None \<Rightarrow> s
      | Some j \<Rightarrow> (let (_, j', st') = execute_begin j oid h now now' f f' (os_store s)
                    in \<lparr>os_journal = Some j', os_store = st'\<rparr>))"
| "op_step mx R s (OFinish oid out now f) =
     (case os_journal s of
        None \<Rightarrow> s
      | Some j \<Rightarrow> (let (_, j', st') = execute_finish j oid out now f (os_store s)
                    in \<lparr>os_journal = Some j', os_store = st'\<rparr>))"
| "op_step mx R s (ORestart now f) =
     (case new_persistent_journal mx R now f (os_store s) of
        (Inl _, st') \<Rightarrow> \<lparr>os_journal = None, os_store = st'\<rparr>
      | (Inr j, st') \<Rightarrow> \<lparr>os_journal = Some j, os_store = st'\<rparr>)"

fun os_runs :: "op_system \<Rightarrow> op_op \<Rightarrow> string list" where
  "os_runs s (OBegin oid h now now' f f') =
     (case os_journal s of
        None \<Rightarrow> []
      | Some j \<Rightarrow> if fst (execute_begin j oid h now now' f f' (os_store s)) = Run then [oid] else [])"
| "os_runs s _ = []"

text \<open>Operations whose clock readings fall into a period.\<close>

fun within :: "int \<Rightarrow> int \<Rightarrow> op_op \<Rightarrow> bool" where
  "within a b (OBegin oid h now now' f f') \<longleftrightarrow> a \<le> now \<and> now \<le> b \<and> a \<le> now' \<and> now' \<le> b"
| "within a b (OFinish oid out now f) \<longleftrightarrow> a \<le> now \<and> now \<le> b"
| "within a b (ORestart now f) \<longleftrightarrow> a \<le> now \<and> now \<le> b"

definition live_row :: "int \<Rightarrow> store \<Rightarrow> string \<Rightarrow> bool" where
  "live_row t st oid \<longleftrightarrow> (\<exists>r. op_row st oid = Some r \<and> or_expires r > t)"

definition op_inv :: "int \<Rightarrow> op_system \<Rightarrow> bool" where
  "op_inv R s \<longleftrightarrow>
     keys_distinct (st_ops (os_store s)) \<and>
     (\<forall>j. os_journal s = Some j \<longrightarrow> oj_durable j \<and> oj_retention j = R)"

subsection \<open>What the store keeps\<close>

lemma ops_keys [simp]:
  "keys_distinct (st_ops st) \<Longrightarrow> keys_distinct (st_ops (snd (reserve_operation oid h ex st)))"
  "keys_distinct (st_ops st) \<Longrightarrow> keys_distinct (st_ops (snd (complete_operation oid h res err co ex st)))"
  "keys_distinct (st_ops st) \<Longrightarrow> keys_distinct (st_ops (snd (delete_expired_operations now st)))"
  "keys_distinct (st_ops st) \<Longrightarrow> keys_distinct (st_ops (snd (operations now limit st)))"
  by (auto simp: reserve_operation_def complete_operation_def delete_expired_operations_def operations_def
      Let_def keys_distinct_filter split: option.splits)

lemma live_reserve: "live_row t st k \<Longrightarrow> live_row t (snd (reserve_operation oid h ex st)) k"
  by (auto simp: live_row_def reserve_row)

lemma live_complete: "live_row t st k \<Longrightarrow> t < ex \<Longrightarrow> live_row t (snd (complete_operation oid h res err co ex st)) k"
  by (auto simp: live_row_def complete_row)

lemma live_expire:
  "keys_distinct (st_ops st) \<Longrightarrow> live_row t st k \<Longrightarrow> now \<le> t \<Longrightarrow> live_row t (snd (delete_expired_operations now st)) k"
  by (auto simp: live_row_def expired_row)

lemma live_operations:
  assumes "keys_distinct (st_ops st)" "live_row t st k" "now \<le> t"
  shows "live_row t (snd (operations now limit st)) k"
proof (cases "limit < 1")
  case False
  then show ?thesis using assms by (auto simp: live_row_def operations_row forget_oversized_def)
qed (simp add: operations_def assms)

lemmas live_intros = live_reserve live_complete live_expire live_operations

text \<open>The durable reservation keeps every live row, and runs only what it reserved.\<close>

lemma reserve_durably_spec:
  assumes "keys_distinct (st_ops st)" "now \<le> t" "reserve_durably j oid h now now' f f' st = (res, j', st')"
  shows "keys_distinct (st_ops st')" "live_row t st k \<Longrightarrow> live_row t st' k"
    "oj_durable j' = oj_durable j" "oj_retention j' = oj_retention j"
    "res = Run \<Longrightarrow> \<not> live_row t st oid \<and> (t < now' + oj_retention j \<longrightarrow> live_row t st' oid)"
proof -
  define due where "due = (\<not> now < oj_last_cleanup j + cleanup_interval)"
  define c where "c = (if due then with_fault f (delete_expired_operations now) st else (Inr (), st))"
  obtain cl st1 where cl: "c = (cl, st1)" by fastforce
  have s1: "keys_distinct (st_ops st1) \<and> (live_row t st k \<longrightarrow> live_row t st1 k)" for k
    using cl assms(1,2) live_expire [OF assms(1) _ assms(2)]
      with_fault_keeps [where P = "\<lambda>s. keys_distinct (st_ops s) \<and> (live_row t st k \<longrightarrow> live_row t s k)"
        and st = st and op = "delete_expired_operations now" and f = f]
    by (auto simp: c_def split: if_splits)
  obtain rv st2 where rv: "with_fault f' (reserve_operation oid h (now' + oj_retention j)) st1 = (rv, st2)"
    by fastforce
  have s2: "keys_distinct (st_ops st2) \<and> (live_row t st k \<longrightarrow> live_row t st2 k)" for k
    using s1 [of k] live_reserve
      with_fault_keeps [where P = "\<lambda>s. keys_distinct (st_ops s) \<and> (live_row t st k \<longrightarrow> live_row t s k)"
        and st = st1 and op = "reserve_operation oid h (now' + oj_retention j)" and f = f'] rv
    by auto
  note u = assms(3) [unfolded reserve_durably_def Let_def, folded due_def, folded c_def, unfolded cl, simplified]
  have st': "st' = st1 \<or> st' = st2" and j': "oj_durable j' = oj_durable j" "oj_retention j' = oj_retention j"
    using u rv by (auto split: sum.splits if_splits prod.splits)
  then show "keys_distinct (st_ops st')" "live_row t st k \<Longrightarrow> live_row t st' k"
    "oj_durable j' = oj_durable j" "oj_retention j' = oj_retention j"
    using s1 s2 by auto
  assume "res = Run"
  then obtain r where r: "rv = Inr (r, True)" "st' = st2"
    using u rv by (auto split: sum.splits if_splits prod.splits)
  then have res: "reserve_operation oid h (now' + oj_retention j) st1 = (Inr (r, True), st2)"
    using rv with_fault_Inr by metis
  then have none: "op_row st1 oid = None" and row: "op_row st2 oid = Some (pending_row h (now' + oj_retention j))"
    by (auto simp: reserve_operation_def op_row_def split: option.splits if_splits)
  have "\<not> live_row t st1 oid" using none by (simp add: live_row_def)
  then show "\<not> live_row t st oid \<and> (t < now' + oj_retention j \<longrightarrow> live_row t st' oid)"
    using s1 [of oid] r(2) row by (auto simp: live_row_def pending_row_def)
qed

definition evicted :: "op_journal \<Rightarrow> op_journal" where
  "evicted j = j\<lparr>oj_entries := fst (evict_entries (oj_entries j) (oj_order j) (oj_max j)),
                 oj_order := snd (evict_entries (oj_entries j) (oj_order j) (oj_max j))\<rparr>"

lemma execute_begin_cases:
  assumes "oj_durable j" "execute_begin j oid h now now' f f' st = (res, j', st')"
  obtains (durable) hash where "h = Some hash" "map_of (oj_entries j) oid = None"
      "reserve_durably (evicted j) oid hash now now' f f' st = (res, j', st')"
  | (same) "st' = st" "res \<noteq> Run" "j' = j \<or> j' = evicted j"
proof -
  have "(\<exists>hash. h = Some hash \<and> map_of (oj_entries j) oid = None \<and>
        reserve_durably (evicted j) oid hash now now' f f' st = (res, j', st')) \<or>
      (st' = st \<and> res \<noteq> Run \<and> (j' = j \<or> j' = evicted j))"
    using assms unfolding execute_begin_def
    by (auto simp: Let_def evicted_def split: if_splits option.splits prod.splits)
  with that show thesis by blast
qed

lemma execute_begin_spec:
  assumes "keys_distinct (st_ops st)" "now \<le> t" "oj_durable j"
    "execute_begin j oid h now now' f f' st = (res, j', st')"
  shows "keys_distinct (st_ops st')" "live_row t st k \<Longrightarrow> live_row t st' k"
    "oj_durable j'" "oj_retention j' = oj_retention j"
    "res = Run \<Longrightarrow> \<not> live_row t st oid \<and> (t < now' + oj_retention j \<longrightarrow> live_row t st' oid)"
proof -
  have j1: "oj_durable (evicted j)" "oj_retention (evicted j) = oj_retention j"
    using assms(3) by (simp_all add: evicted_def)
  have "(\<exists>hash. reserve_durably (evicted j) oid hash now now' f f' st = (res, j', st')) \<or>
      (st' = st \<and> res \<noteq> Run \<and> (j' = j \<or> j' = evicted j))"
    by (rule execute_begin_cases [OF assms(3,4)]) blast+
  then show "keys_distinct (st_ops st')" "live_row t st k \<Longrightarrow> live_row t st' k"
    "oj_durable j'" "oj_retention j' = oj_retention j"
    "res = Run \<Longrightarrow> \<not> live_row t st oid \<and> (t < now' + oj_retention j \<longrightarrow> live_row t st' oid)"
    using reserve_durably_spec [OF assms(1,2)] j1 assms(1,3) by metis+
qed

lemma execute_finish_store:
  assumes "execute_finish j oid out now f st = (res, j', st')"
  shows "st' = st \<or> (\<exists>e. map_of (oj_entries j) oid = Some e \<and> \<not> e_complete e \<and>
    st' = snd (with_fault f (complete_operation oid (e_hash e) (oc_result out) (oc_error out)
      now (now + oj_retention j)) st))"
proof (cases "map_of (oj_entries j) oid")
  case None
  then show ?thesis using assms by (simp add: execute_finish_def)
next
  case (Some e)
  show ?thesis
  proof (cases "e_complete e")
    case True
    then show ?thesis using assms Some by (simp add: execute_finish_def)
  next
    case False
    define p where "p = (if \<not> oj_durable j then (Inr (), st)
       else if length (oc_result out) > max_operation_result_bytes then (Inl ErrResultTooLarge, st)
       else with_fault f (complete_operation oid (e_hash e) (oc_result out) (oc_error out)
              now (now + oj_retention j)) st)"
    have "st' = snd p" using assms Some False
      by (simp add: execute_finish_def Let_def p_def [symmetric] split: prod.splits)
    then show ?thesis using Some False by (auto simp: p_def)
  qed
qed

lemma execute_finish_spec:
  assumes "keys_distinct (st_ops st)" "execute_finish j oid out now f st = (res, j', st')"
  shows "keys_distinct (st_ops st')" "t < now + oj_retention j \<Longrightarrow> live_row t st k \<Longrightarrow> live_row t st' k"
    "oj_durable j' = oj_durable j" "oj_retention j' = oj_retention j"
proof -
  have "st' = st \<or> (\<exists>e :: op_entry. st' = snd (with_fault f (complete_operation oid (e_hash e) (oc_result out) (oc_error out)
      now (now + oj_retention j)) st))"
    using execute_finish_store [OF assms(2)] by blast
  then show "keys_distinct (st_ops st')" "t < now + oj_retention j \<Longrightarrow> live_row t st k \<Longrightarrow> live_row t st' k"
    using assms(1) with_fault_keeps [where P = "\<lambda>s. keys_distinct (st_ops s)"]
      with_fault_keeps [where P = "\<lambda>s. live_row t s k"] live_complete by (metis ops_keys(2))+
  show "oj_durable j' = oj_durable j" "oj_retention j' = oj_retention j"
    using assms(2) unfolding execute_finish_def
    by (auto simp: Let_def split: option.splits if_splits prod.splits)
qed

lemma load_records_frame:
  "load_records j rs = Inr j' \<Longrightarrow> oj_durable j' = oj_durable j \<and> oj_retention j' = oj_retention j \<and>
     oj_max j' = oj_max j \<and> length (oj_entries j') \<le> length (oj_entries j) + length rs"
proof (induction rs arbitrary: j)
  case (Cons p rs)
  obtain oid r where p: "p = (oid, r)" by (cases p)
  have l: "length (AList.update oid (row_entry r) (oj_entries j)) \<le> Suc (length (oj_entries j))"
    by (rule length_update_le)
  show ?case using Cons.prems Cons.IH l unfolding p
    by (fastforce split: if_splits)
qed simp

lemma load_records_entries:
  "load_records j rs = Inr j' \<Longrightarrow> map_of (oj_entries j') oid = Some e \<Longrightarrow>
     map_of (oj_entries j) oid = Some e \<or> (\<exists>r. (oid, r) \<in> set rs \<and> e = row_entry r)"
proof (induction rs arbitrary: j)
  case (Cons p rs)
  obtain k r where p: "p = (k, r)" by (cases p)
  then obtain j1 where j1: "load_records j1 rs = Inr j'"
    "oj_entries j1 = AList.update k (row_entry r) (oj_entries j)"
    using Cons.prems(1) by (auto split: if_splits)
  from Cons.IH [OF j1(1) Cons.prems(2)] j1(2) p show ?case by (auto split: if_splits)
qed simp

lemma restart_spec:
  assumes "keys_distinct (st_ops st)" "now \<le> t" "new_persistent_journal mx R now f st = (res, st')"
  shows "keys_distinct (st_ops st')" "live_row t st k \<Longrightarrow> live_row t st' k"
    "res = Inr j \<Longrightarrow> oj_durable j \<and> oj_retention j = R"
proof -
  have "st' = st \<or> st' = snd (with_fault f (operations now mx) st)"
    using assms(3) by (auto simp: new_persistent_journal_def split: if_splits sum.splits prod.splits)
  then show "keys_distinct (st_ops st')" "live_row t st k \<Longrightarrow> live_row t st' k"
    using assms(1,2) with_fault_keeps [where P = "\<lambda>s. keys_distinct (st_ops s)"]
      with_fault_keeps [where P = "\<lambda>s. live_row t s k"] live_operations by (metis ops_keys(4))+
  assume "res = Inr j"
  then obtain j0 rs where "load_records (j0\<lparr>oj_durable := True, oj_retention := R, oj_last_cleanup := now\<rparr>) rs = Inr j"
    using assms(3) by (auto simp: new_persistent_journal_def split: if_splits sum.splits prod.splits)
  from load_records_frame [OF this] show "oj_durable j \<and> oj_retention j = R" by simp
qed

subsection \<open>At most once within the retention period\<close>

lemma op_step_inv: "op_inv R s \<Longrightarrow> op_inv R (op_step mx R s x)"
proof (cases x)
  case (OBegin oid h now now' f f')
  assume i: "op_inv R s"
  show ?thesis
  proof (cases "os_journal s")
    case (Some j)
    obtain res j' st' where b: "execute_begin j oid h now now' f f' (os_store s) = (res, j', st')"
      using prod_cases3 by blast
    with i Some execute_begin_spec [OF _ order_refl _ b] OBegin show ?thesis by (auto simp: op_inv_def)
  qed (use i OBegin in simp)
next
  case (OFinish oid out now f)
  assume i: "op_inv R s"
  show ?thesis
  proof (cases "os_journal s")
    case (Some j)
    obtain res j' st' where b: "execute_finish j oid out now f (os_store s) = (res, j', st')"
      using prod_cases3 by blast
    with i Some execute_finish_spec [OF _ b] OFinish show ?thesis by (auto simp: op_inv_def)
  qed (use i OFinish in simp)
next
  case (ORestart now f)
  assume i: "op_inv R s"
  obtain res st' where b: "new_persistent_journal mx R now f (os_store s) = (res, st')" by fastforce
  with i restart_spec [OF _ order_refl b] ORestart show ?thesis
    by (auto simp: op_inv_def split: sum.splits)
qed

lemma op_step_live:
  assumes "op_inv R s" "within a b x" "b < a + R" "live_row b (os_store s) k"
  shows "live_row b (os_store (op_step mx R s x)) k"
proof (cases x)
  case (OBegin oid h now now' f f')
  show ?thesis
  proof (cases "os_journal s")
    case (Some j)
    obtain res j' st' where e: "execute_begin j oid h now now' f f' (os_store s) = (res, j', st')"
      using prod_cases3 by blast
    with assms Some execute_begin_spec(2) [OF _ _ _ e] OBegin show ?thesis by (auto simp: op_inv_def)
  qed (use assms OBegin in simp)
next
  case (OFinish oid out now f)
  show ?thesis
  proof (cases "os_journal s")
    case (Some j)
    obtain res j' st' where e: "execute_finish j oid out now f (os_store s) = (res, j', st')"
      using prod_cases3 by blast
    have "b < now + oj_retention j" using assms(1-3) Some OFinish by (auto simp: op_inv_def)
    with assms Some execute_finish_spec(2) [OF _ e] OFinish e show ?thesis by (auto simp: op_inv_def)
  qed (use assms OFinish in simp)
next
  case (ORestart now f)
  obtain res st' where e: "new_persistent_journal mx R now f (os_store s) = (res, st')" by fastforce
  with assms restart_spec(2) [OF _ _ e] ORestart show ?thesis
    by (auto simp: op_inv_def split: sum.splits)
qed

lemma os_runs_reserved:
  assumes "op_inv R s" "within a b x" "b < a + R" "k \<in> set (os_runs s x)"
  shows "\<not> live_row b (os_store s) k" "live_row b (os_store (op_step mx R s x)) k"
proof -
  obtain h now now' f f' j where x: "x = OBegin k h now now' f f'" "os_journal s = Some j"
    "fst (execute_begin j k h now now' f f' (os_store s)) = Run"
    using assms(4) by (cases x; cases "os_journal s") (auto split: if_splits)
  then obtain j' st' where e: "execute_begin j k h now now' f f' (os_store s) = (Run, j', st')"
    by (metis prod.collapse)
  have "keys_distinct (st_ops (os_store s))" "now \<le> b" "oj_durable j" "b < now' + oj_retention j"
    using assms(1-3) x by (auto simp: op_inv_def)
  with execute_begin_spec(5) [OF _ _ _ e refl] x e
  show "\<not> live_row b (os_store s) k" "live_row b (os_store (op_step mx R s x)) k" by auto
qed

text \<open>The promise, for the part of the parameters in which it holds.\<close>

definition op_known :: "int \<Rightarrow> op_system \<Rightarrow> string set" where
  "op_known b s = {k. live_row b (os_store s) k}"

interpretation op_once: at_most_once "op_step mx R" os_runs "op_known b" "op_inv R"
    "\<lambda>x. within a b x \<and> b < a + R"
proof
  fix s x k
  assume "op_inv R s" "within a b x \<and> b < a + R" "k \<in> set (os_runs s x)"
  then show "k \<notin> op_known b s" "k \<in> op_known b (op_step mx R s x)"
    using os_runs_reserved by (auto simp: op_known_def)
next
  fix s x
  assume "op_inv R s" "within a b x \<and> b < a + R"
  then show "op_known b s \<subseteq> op_known b (op_step mx R s x)" "op_inv R (op_step mx R s x)"
    using op_step_live op_step_inv by (auto simp: op_known_def)
next
  fix s x
  show "distinct (os_runs s x)" by (cases x) (auto split: option.splits)
qed

subsection \<open>Properties\<close>

text \<open>
  C10: Control operations run at most once.  Over any period shorter than the retention, with
  any interleaving of requests, completions, database faults, crashes and restarts, no
  operation id is executed twice, and none whose reservation outlives the period is
  executed at all.
\<close>
theorem operation_runs_at_most_once:
  assumes "op_inv R s" "\<forall>x \<in> set ops. within a b x" "b < a + R"
  shows "distinct (trace (op_step mx R) os_runs s ops) \<and>
    (\<forall>k. live_row b (os_store s) k \<longrightarrow> k \<notin> set (trace (op_step mx R) os_runs s ops))"
  using op_once.trace_distinct [of R s ops a b mx] op_once.trace_fresh [of R s ops a b _ mx] assms
  by (auto simp: op_known_def)

definition sample_op :: "op_op list" where
  "sample_op = [OBegin ''operation'' (Some [1]) 10 11 Healthy Healthy, ORestart 20 Healthy,
     OBegin ''operation'' (Some [1]) 30 31 Healthy Healthy]"

definition sample_system :: op_system where
  "sample_system = \<lparr>os_journal = Some \<lparr>oj_max = 4, oj_entries = [], oj_order = [], oj_durable = True,
     oj_retention = 100, oj_last_cleanup = 0\<rparr>, os_store = empty_store\<rparr>"

lemma sample_system_inv: "op_inv 100 sample_system"
  by (simp add: op_inv_def sample_system_def empty_store_def)

theorem operation_runs_at_most_once_witness:
  "distinct (trace (op_step 4 100) os_runs sample_system sample_op) \<and>
   os_runs sample_system (hd sample_op) = [''operation'']"
  using operation_runs_at_most_once [OF sample_system_inv, of sample_op 10 31 4]
  by (simp add: sample_op_def sample_system_def execute_begin_def reserve_durably_def with_fault_def
      reserve_operation_def cleanup_interval_def empty_store_def)

text \<open>What is recorded: the completed row and, when an entry is in memory, the same outcome there.\<close>

definition completed_row :: "int \<Rightarrow> bytes \<Rightarrow> op_outcome \<Rightarrow> operation_row \<Rightarrow> bool" where
  "completed_row b hash out r \<longleftrightarrow>
     or_hash r = hash \<and> or_state r = ''completed'' \<and> or_result r = oc_result out \<and> or_error r = oc_error out \<and>
     or_expires r > b \<and> length (or_result r) \<le> max_operation_result_bytes"

definition settled_entry :: "bytes \<Rightarrow> op_outcome \<Rightarrow> op_entry \<Rightarrow> bool" where
  "settled_entry hash out e \<longleftrightarrow> e_hash e = hash \<and> e_complete e \<and> e_outcome e = out \<and> e_err e = None"

definition recorded :: "int \<Rightarrow> string \<Rightarrow> bytes \<Rightarrow> op_outcome \<Rightarrow> op_system \<Rightarrow> bool" where
  "recorded b oid hash out s \<longleftrightarrow>
     (\<exists>r. op_row (os_store s) oid = Some r \<and> completed_row b hash out r) \<and>
     (\<forall>j e. os_journal s = Some j \<and> map_of (oj_entries j) oid = Some e \<longrightarrow> settled_entry hash out e)"

lemma evict_entries_sub: "map_of (fst (evict_entries es order mx)) k = Some e \<Longrightarrow> map_of es k = Some e"
  by (induction es order mx rule: evict_entries.induct) (auto split: if_splits)

lemma completed_row_reserve:
  "op_row st oid = Some r \<Longrightarrow> completed_row b h out r \<Longrightarrow> op_row (snd (reserve_operation k h' ex st)) oid = Some r"
  by (auto simp: reserve_row)

lemma completed_row_expire:
  "keys_distinct (st_ops st) \<Longrightarrow> op_row st oid = Some r \<Longrightarrow> completed_row b h out r \<Longrightarrow> now \<le> b \<Longrightarrow>
   op_row (snd (delete_expired_operations now st)) oid = Some r"
  by (simp add: expired_row completed_row_def)

lemma completed_row_complete:
  "op_row st oid = Some r \<Longrightarrow> completed_row b h out r \<Longrightarrow>
   op_row (snd (complete_operation k h' res err co ex st)) oid = Some r"
  by (auto simp: complete_row completed_row_def)

lemma completed_row_operations:
  "keys_distinct (st_ops st) \<Longrightarrow> op_row st oid = Some r \<Longrightarrow> completed_row b h out r \<Longrightarrow> now \<le> b \<Longrightarrow>
   op_row (snd (operations now limit st)) oid = Some r"
  by (cases "limit < 1") (simp add: operations_def, auto simp: operations_row completed_row_def forget_oversized_def)

lemma reserve_durably_entries:
  assumes "reserve_durably j k h now now' f f' st = (res, j', st')"
  shows "oj_entries j' = (if res = Run then AList.update k (fresh_entry h) (oj_entries j) else oj_entries j)"
    "oj_max j' = oj_max j"
proof -
  define due where "due = (\<not> now < oj_last_cleanup j + cleanup_interval)"
  define c where "c = (if due then with_fault f (delete_expired_operations now) st else (Inr (), st))"
  obtain cl st1 where cl: "c = (cl, st1)" by fastforce
  note u = assms [unfolded reserve_durably_def Let_def, folded due_def, folded c_def, unfolded cl, simplified]
  show "oj_entries j' = (if res = Run then AList.update k (fresh_entry h) (oj_entries j) else oj_entries j)"
    "oj_max j' = oj_max j"
    using u by (auto split: sum.splits if_splits prod.splits)
qed

lemma reserve_durably_recorded:
  assumes "keys_distinct (st_ops st)" "now \<le> b" "op_row st oid = Some r" "completed_row b h out r"
    "reserve_durably j k h' now now' f f' st = (res, j', st')"
  shows "op_row st' oid = Some r"
    "map_of (oj_entries j') oid = Some e \<Longrightarrow> map_of (oj_entries j) oid = Some e \<or> k = oid"
proof -
  define due where "due = (\<not> now < oj_last_cleanup j + cleanup_interval)"
  define c where "c = (if due then with_fault f (delete_expired_operations now) st else (Inr (), st))"
  obtain cl st1 where cl: "c = (cl, st1)" by fastforce
  have s1: "op_row st1 oid = Some r"
    using cl assms(3) completed_row_expire [OF assms(1,3,4,2)]
    by (auto simp: c_def split: if_splits elim: with_fault_result [where P = "\<lambda>s. op_row s oid = Some r"])
  obtain rv st2 where rv: "with_fault f' (reserve_operation k h' (now' + oj_retention j)) st1 = (rv, st2)"
    by fastforce
  have s2: "op_row st2 oid = Some r"
    using with_fault_result [where P = "\<lambda>s. op_row s oid = Some r", OF rv s1 completed_row_reserve [OF s1 assms(4)]] .
  note u = assms(5) [unfolded reserve_durably_def Let_def, folded due_def, folded c_def, unfolded cl, simplified]
  show "op_row st' oid = Some r" using u rv s1 s2 by (auto split: sum.splits if_splits prod.splits)
  show "map_of (oj_entries j') oid = Some e \<Longrightarrow> map_of (oj_entries j) oid = Some e \<or> k = oid"
    using u rv by (auto split: sum.splits if_splits prod.splits)
qed

lemma reserve_durably_answer:
  assumes "keys_distinct (st_ops st)" "now \<le> b" "op_row st oid = Some r" "completed_row b h out r"
    "reserve_durably j oid h' now now' f f' st = (res, j', st')"
  shows "if h' = h then res = Replayed out None \<or> res = Refuse (OpStore StoreFailure)
         else res = Refuse ErrOperationConflict \<or> res = Refuse (OpStore StoreFailure)"
proof -
  define due where "due = (\<not> now < oj_last_cleanup j + cleanup_interval)"
  define c where "c = (if due then with_fault f (delete_expired_operations now) st else (Inr (), st))"
  obtain cl st1 where cl: "c = (cl, st1)" by fastforce
  have s1: "op_row st1 oid = Some r"
    using cl assms(3) completed_row_expire [OF assms(1,3,4,2)]
    by (auto simp: c_def split: if_splits elim: with_fault_result [where P = "\<lambda>s. op_row s oid = Some r"])
  have cf: "cl = Inr () \<or> cl = Inl StoreFailure"
    using cl by (cases f) (auto simp: c_def with_fault_def delete_expired_operations_def split: if_splits)
  have rv: "reserve_operation oid h' ex st1 = (if h = h' then (Inr (r, False), st1) else (Inl StoreConflict, st1))" for ex
    using s1 assms(4) by (simp add: reserve_operation_def op_row_def completed_row_def)
  have out: "\<lparr>oc_result = or_result r, oc_error = or_error r\<rparr> = out" "or_state r \<noteq> ''pending''"
    using assms(4) by (simp_all add: completed_row_def)
  note u = assms(5) [unfolded reserve_durably_def Let_def, folded due_def, folded c_def, unfolded cl, simplified]
  show ?thesis using u cf rv out
    by (cases f') (auto simp: with_fault_def split: if_splits)
qed

lemma execute_begin_recorded:
  assumes "keys_distinct (st_ops (os_store s))" "now \<le> b" "recorded b oid h out s" "os_journal s = Some j"
    "oj_durable j" "execute_begin j k h' now now' f f' (os_store s) = (res, j', st')"
  shows "recorded b oid h out \<lparr>os_journal = Some j', os_store = st'\<rparr>"
proof -
  obtain r where r: "op_row (os_store s) oid = Some r" "completed_row b h out r"
    using assms(3) by (auto simp: recorded_def)
  have old: "settled_entry h out e" if "map_of (oj_entries j) oid = Some e" for e
    using assms(3,4) that by (simp add: recorded_def)
  have j1: "map_of (oj_entries (evicted j)) oid = Some e \<Longrightarrow> map_of (oj_entries j) oid = Some e" for e
    by (rule evict_entries_sub [of "oj_entries j" "oj_order j" "oj_max j"]) (simp add: evicted_def)
  from assms(5,6) show ?thesis
  proof (cases rule: execute_begin_cases)
    case same
    then show ?thesis using r old j1 by (auto simp: recorded_def)
  next
    case (durable hash)
    note d = reserve_durably_recorded [OF assms(1,2) r durable(3)]
    have "settled_entry h out e" if e: "map_of (oj_entries j') oid = Some e" for e
    proof (cases "res = Run \<and> k = oid")
      case True
      have "live_row b (os_store s) oid" using r by (auto simp: live_row_def completed_row_def)
      then show ?thesis
        using reserve_durably_spec(5) [OF assms(1,2) durable(3)] True by simp
    next
      case False
      then have "map_of (oj_entries j') oid = map_of (oj_entries (evicted j)) oid"
        using reserve_durably_entries [OF durable(3)] by auto
      with e have "map_of (oj_entries (evicted j)) oid = Some e" by simp
      from old [OF j1 [OF this]] show ?thesis .
    qed
    then show ?thesis using d(1) r(2) by (auto simp: recorded_def)
  qed
qed

lemma execute_finish_recorded:
  assumes "recorded b oid h out s" "os_journal s = Some j"
    "execute_finish j k o' now f (os_store s) = (res, j', st')"
  shows "recorded b oid h out \<lparr>os_journal = Some j', os_store = st'\<rparr>"
proof -
  obtain r where r: "op_row (os_store s) oid = Some r" "completed_row b h out r"
    using assms(1) by (auto simp: recorded_def)
  have old: "settled_entry h out e" if "map_of (oj_entries j) oid = Some e" for e
    using assms(1,2) that by (simp add: recorded_def)
  have "op_row st' oid = Some r"
    using execute_finish_store [OF assms(3)] r(1) completed_row_complete [OF r]
    by (auto intro!: with_fault_keeps [where P = "\<lambda>s. op_row s oid = Some r"])
  moreover have "map_of (oj_entries j') oid = map_of (oj_entries j) oid"
  proof (cases "k = oid")
    case True
    then show ?thesis using assms(3) old unfolding execute_finish_def
      by (auto simp: settled_entry_def split: option.splits)
  next
    case False
    then show ?thesis using assms(3) unfolding execute_finish_def
      by (auto simp: Let_def split: option.splits if_splits prod.splits)
  qed
  ultimately show ?thesis using r(2) old by (auto simp: recorded_def)
qed

lemma restart_recorded:
  assumes "keys_distinct (st_ops (os_store s))" "now \<le> b" "recorded b oid h out s"
  shows "recorded b oid h out (op_step mx R s (ORestart now f))"
proof -
  obtain r where r: "op_row (os_store s) oid = Some r" "completed_row b h out r"
    using assms(3) by (auto simp: recorded_def)
  obtain res st' where e: "new_persistent_journal mx R now f (os_store s) = (res, st')" by fastforce
  have row: "op_row st' oid = Some r"
    using e r(1) completed_row_operations [OF assms(1) r assms(2), of mx]
    by (auto simp: new_persistent_journal_def split: if_splits sum.splits prod.splits
        elim: with_fault_result [where P = "\<lambda>s. op_row s oid = Some r"])
  show ?thesis
  proof (cases res)
    case (Inl x)
    then show ?thesis using e row r(2) by (auto simp: recorded_def)
  next
    case (Inr j)
    then obtain rs j0 where l: "load_records j0 rs = Inr j" "oj_entries j0 = []"
      "with_fault f (operations now mx) (os_store s) = (Inr rs, st')"
      using e by (auto simp: new_persistent_journal_def new_op_journal_def split: if_splits sum.splits prod.splits)
    have "set rs \<subseteq> set (st_ops st')"
      using with_fault_Inr [OF l(3)]
      by (auto simp: operations_def Let_def split: if_splits dest: in_set_takeD)
    moreover have kd: "keys_distinct (st_ops st')" using restart_spec(1) [OF assms(1) order_refl e] .
    ultimately have same: "ra = r" if "(oid, ra) \<in> set rs" for ra
      using row that map_of_eq_Some_iff_in [OF kd, of oid ra] unfolding op_row_def by auto
    have "settled_entry h out x" if "map_of (oj_entries j) oid = Some x" for x
      using load_records_entries [OF l(1) that] l(2) same r(2)
      by (auto simp: settled_entry_def row_entry_def completed_row_def)
    then show ?thesis using e Inr row r(2) by (auto simp: recorded_def)
  qed
qed

lemma op_step_recorded:
  assumes "op_inv R s" "within a b x" "recorded b oid h out s"
  shows "recorded b oid h out (op_step mx R s x)"
proof (cases x)
  case (OBegin k h' now now' f f')
  show ?thesis
  proof (cases "os_journal s")
    case (Some j)
    obtain res j' st' where e: "execute_begin j k h' now now' f f' (os_store s) = (res, j', st')"
      using prod_cases3 by blast
    have "recorded b oid h out \<lparr>os_journal = Some j', os_store = st'\<rparr>"
      by (rule execute_begin_recorded [OF _ _ assms(3) Some _ e])
        (use assms(1,2) Some OBegin in \<open>auto simp: op_inv_def\<close>)
    then show ?thesis using OBegin Some e by simp
  qed (use assms OBegin in simp)
next
  case (OFinish k o' now f)
  show ?thesis
  proof (cases "os_journal s")
    case (Some j)
    obtain res j' st' where e: "execute_finish j k o' now f (os_store s) = (res, j', st')"
      using prod_cases3 by blast
    from execute_finish_recorded [OF assms(3) Some e] show ?thesis using OFinish Some e by simp
  qed (use assms OFinish in simp)
next
  case (ORestart now f)
  then show ?thesis using restart_recorded [OF _ _ assms(3)] assms(1,2) by (auto simp: op_inv_def)
qed

lemma run_recorded:
  "op_inv R s \<Longrightarrow> \<forall>x \<in> set ops. within a b x \<Longrightarrow> recorded b oid h out s \<Longrightarrow>
   op_inv R (run (op_step mx R) s ops) \<and> recorded b oid h out (run (op_step mx R) s ops)"
proof (induction ops arbitrary: s)
  case (Cons x ops)
  from Cons.prems have x: "within a b x" and r: "\<forall>x \<in> set ops. within a b x" by simp_all
  from Cons.IH [OF op_step_inv [OF Cons.prems(1)] r op_step_recorded [OF Cons.prems(1) x Cons.prems(3)]]
  show ?case by simp
qed simp

lemma recorded_answer:
  assumes "op_inv R s" "recorded b oid hash out s"
    and "os_journal s = Some j" "8 \<le> length oid" "length oid \<le> 128" "now \<le> b"
    and "execute_begin j oid (Some hash') now now' f f' (os_store s) = (res, j', st')"
  shows "if hash' = hash then res = Replayed out None \<or> res = Refuse ErrJournalFull \<or> res = Refuse (OpStore StoreFailure)
         else res = Refuse ErrOperationConflict \<or> res = Refuse ErrJournalFull \<or> res = Refuse (OpStore StoreFailure)"
proof -
  note i = assms(1) and rec = assms(2)
  obtain r where r: "op_row (os_store s) oid = Some r" "completed_row b hash out r"
    using rec by (auto simp: recorded_def)
  have dur: "oj_durable j" and kd: "keys_distinct (st_ops (os_store s))" using i assms(3) by (auto simp: op_inv_def)
  show ?thesis
  proof (cases "map_of (oj_entries j) oid")
    case (Some e)
    then have "settled_entry hash out e" using rec assms(3) by (simp add: recorded_def)
    then show ?thesis using assms(4,5,7) Some by (auto simp: execute_begin_def settled_entry_def)
  next
    case None
    have b: "execute_begin j oid (Some hash') now now' f f' (os_store s) =
        (if length (oj_entries (evicted j)) \<ge> oj_max j then (Refuse ErrJournalFull, evicted j, os_store s)
         else reserve_durably (evicted j) oid hash' now now' f f' (os_store s))"
      using None assms(4,5) dur by (simp add: execute_begin_def evicted_def Let_def split: prod.splits)
    show ?thesis
    proof (cases "length (oj_entries (evicted j)) \<ge> oj_max j")
      case True
      then show ?thesis using b assms(7) by simp
    next
      case False
      then have "reserve_durably (evicted j) oid hash' now now' f f' (os_store s) = (res, j', st')"
        using b assms(7) by simp
      from reserve_durably_answer [OF kd assms(6) r this] show ?thesis by (auto split: if_splits)
    qed
  qed
qed

text \<open>A completion that succeeds records its outcome.\<close>

lemma execute_finish_records:
  assumes "op_inv R s" "os_journal s = Some j" "map_of (oj_entries j) oid = Some e" "\<not> e_complete e"
    and "op_row (os_store s) oid = Some r" "or_state r = ''pending''"
    and "fst (execute_finish j oid out now f (os_store s)) = None" "b < now + R"
  shows "recorded b oid (e_hash e) out (op_step mx R s (OFinish oid out now f))"
proof -
  have d: "oj_durable j" "oj_retention j = R" using assms(1,2) by (auto simp: op_inv_def)
  define q where "q = with_fault f (complete_operation oid (e_hash e) (oc_result out) (oc_error out) now (now + R)) (os_store s)"
  define e' where "e' = e\<lparr>e_outcome := out, e_complete := True, e_err := None\<rparr>"
  have size: "length (oc_result out) \<le> max_operation_result_bytes" and q: "fst q = Inr ()"
    using assms(3,4,7) d by (auto simp: execute_finish_def Let_def q_def [symmetric] split: prod.splits sum.splits if_splits)
  then have fin: "execute_finish j oid out now f (os_store s) =
      (None, j\<lparr>oj_entries := AList.update oid e' (oj_entries j), oj_order := oj_order j @ [oid]\<rparr>, snd q)"
    using assms(3,4) d by (cases q) (simp add: execute_finish_def Let_def q_def [symmetric] e'_def)
  have c: "complete_operation oid (e_hash e) (oc_result out) (oc_error out) now (now + R) (os_store s) = (Inr (), snd q)"
    by (rule with_fault_Inr [of f]) (use q in \<open>cases q, simp add: q_def [symmetric]\<close>)
  then have "or_hash r = e_hash e"
    using assms(5) size by (auto simp: complete_operation_def op_row_def split: if_splits)
  then have "op_row (snd q) oid = Some (r\<lparr>or_state := ''completed'', or_result := oc_result out,
      or_error := oc_error out, or_completed := Some now, or_expires := now + R\<rparr>)"
    using complete_row [of oid "e_hash e" "oc_result out" "oc_error out" now "now + R" "os_store s" oid] c assms(5,6) size
    by simp
  then show ?thesis using assms(2,8) fin size \<open>or_hash r = e_hash e\<close>
    by (simp add: recorded_def completed_row_def settled_entry_def e'_def)
qed

text \<open>
  The outcome of a completed operation is what every retry gets.  After a completion that
  succeeded, while the row is retained and over any sequence of other requests,
  completions, faults, crashes and restarts, a retry with the same request is never
  executed again: it gets the recorded outcome, or a refusal because the journal is full
  or the database fails; with another request it gets a conflict.
\<close>
theorem retry_gets_recorded_outcome:
  assumes "op_inv R s0" "os_journal s0 = Some j0" "map_of (oj_entries j0) oid = Some e" "\<not> e_complete e"
    and "op_row (os_store s0) oid = Some r" "or_state r = ''pending''"
    and "fst (execute_finish j0 oid out t f0 (os_store s0)) = None" "b < t + R"
    and "\<forall>x \<in> set ops. within a b x"
    and "s = run (op_step mx R) (op_step mx R s0 (OFinish oid out t f0)) ops"
    and "os_journal s = Some j" "8 \<le> length oid" "length oid \<le> 128" "now \<le> b"
    and "execute_begin j oid (Some hash) now now' f f' (os_store s) = (res, j', st')"
  shows "if hash = e_hash e then res = Replayed out None \<or> res = Refuse ErrJournalFull \<or> res = Refuse (OpStore StoreFailure)
         else res = Refuse ErrOperationConflict \<or> res = Refuse ErrJournalFull \<or> res = Refuse (OpStore StoreFailure)"
proof -
  have "op_inv R s" "recorded b oid (e_hash e) out s"
    using run_recorded [OF op_step_inv [OF assms(1)] assms(9) execute_finish_records [OF assms(1-8)]] assms(10) by auto
  from recorded_answer [OF this assms(11-15)] show ?thesis .
qed

definition sample_hash :: bytes where
  "sample_hash = replicate 32 1"

definition sample_finished :: op_system where
  "sample_finished = \<lparr>os_journal = Some \<lparr>oj_max = 4, oj_entries = [(''operation'', fresh_entry sample_hash)], oj_order = [],
     oj_durable = True, oj_retention = 100, oj_last_cleanup = 0\<rparr>,
     os_store = empty_store\<lparr>st_ops := [(''operation'', pending_row sample_hash 111)]\<rparr>\<rparr>"

definition sample_after :: op_system where
  "sample_after = run (op_step 4 100) (op_step 4 100 sample_finished
     (OFinish ''operation'' \<lparr>oc_result = [7], oc_error = []\<rparr> 20 Healthy)) [ORestart 30 Healthy]"

lemma sample_after_state:
  "os_journal sample_after = Some \<lparr>oj_max = 4, oj_entries = [(''operation'', \<lparr>e_hash = sample_hash,
     e_outcome = \<lparr>oc_result = [7], oc_error = []\<rparr>, e_complete = True, e_err = None\<rparr>)], oj_order = [''operation''],
     oj_durable = True, oj_retention = 100, oj_last_cleanup = 30\<rparr>"
  by (simp add: sample_after_def sample_finished_def fresh_entry_def execute_finish_def with_fault_def
      complete_operation_def pending_row_def new_persistent_journal_def new_op_journal_def operations_def
      forget_oversized_def row_entry_def max_operation_result_bytes_def empty_store_def sample_hash_def)

theorem retry_gets_recorded_outcome_witness:
  "\<exists>res j' st'. execute_begin (the (os_journal sample_after)) ''operation'' (Some sample_hash) 40 41 Healthy Healthy
     (os_store sample_after) = (res, j', st') \<and>
   (res = Replayed \<lparr>oc_result = [7], oc_error = []\<rparr> None \<or> res = Refuse ErrJournalFull \<or> res = Refuse (OpStore StoreFailure))"
proof -
  obtain res j' st' where e: "execute_begin (the (os_journal sample_after)) ''operation'' (Some sample_hash) 40 41 Healthy Healthy
     (os_store sample_after) = (res, j', st')" using prod_cases3 by blast
  have i: "op_inv 100 sample_finished" by (simp add: op_inv_def sample_finished_def empty_store_def)
  have f: "fst (execute_finish (the (os_journal sample_finished)) ''operation'' \<lparr>oc_result = [7], oc_error = []\<rparr> 20 Healthy
      (os_store sample_finished)) = None"
    by (simp add: sample_finished_def execute_finish_def with_fault_def complete_operation_def pending_row_def
        max_operation_result_bytes_def fresh_entry_def)
  have "if sample_hash = e_hash (fresh_entry sample_hash)
      then res = Replayed \<lparr>oc_result = [7], oc_error = []\<rparr> None \<or> res = Refuse ErrJournalFull \<or> res = Refuse (OpStore StoreFailure)
      else res = Refuse ErrOperationConflict \<or> res = Refuse ErrJournalFull \<or> res = Refuse (OpStore StoreFailure)"
    by (rule retry_gets_recorded_outcome [OF i _ _ _ _ _ f _ _ sample_after_def _ _ _ _ e, where r = "pending_row sample_hash 111"
          and b = 50 and a = 10])
      (simp_all add: sample_after_state, simp_all add: sample_finished_def fresh_entry_def pending_row_def op_row_def)
  then show ?thesis using e by (simp add: fresh_entry_def)
qed

end
