(* ===== verification/Store_Output.thy ===== *)
theory Store_Output
  imports State_Store Log_Contract
begin

section \<open>The durable state store: terminal output\<close>

text \<open>
  Model of the operations of \<open>src/internal/store/store.go\<close> on the table
  \<open>output_events\<close> and the output bounds of a session: \<open>ClearOutput\<close>,
  \<open>OutputBounds\<close>, \<open>AdvanceOutput\<close>, \<open>AppendOutput\<close>, \<open>Replay\<close> and \<open>TrimOutput\<close>.
  The rows of a session are kept in the order of the primary key
  \<open>(session_id, start_sequence)\<close>, which is the order the queries ask for.

  The stored output of a session is an output log (\<open>Log_Contract\<close>), the same contract
  the in-memory history satisfies.
\<close>

subsection \<open>Operations\<close>

definition rows_of :: "store \<Rightarrow> string \<Rightarrow> event list" where
  "rows_of st sid = (case map_of (st_events st) sid of None \<Rightarrow> [] | Some es \<Rightarrow> es)"

definition set_rows :: "string \<Rightarrow> event list \<Rightarrow> store \<Rightarrow> store" where
  "set_rows sid es st = st\<lparr>st_events := AList.update sid es (st_events st)\<rparr>"

definition set_bounds :: "string \<Rightarrow> session_row \<Rightarrow> nat \<Rightarrow> nat \<Rightarrow> int \<Rightarrow> store \<Rightarrow> store" where
  "set_bounds sid r earliest latest now st =
     st\<lparr>st_sessions := AList.update sid
          (r\<lparr>sr_earliest := earliest, sr_latest := latest, sr_updated := Some now\<rparr>) (st_sessions st)\<rparr>"

definition clear_output :: "int \<Rightarrow> string \<Rightarrow> nat \<Rightarrow> store \<Rightarrow> (store_error + unit) \<times> store" where
  "clear_output now sid next_seq st =
     (case map_of (st_sessions st) sid of
        None \<Rightarrow> (Inl StoreNoRows, st)
      | Some r \<Rightarrow>
          if sr_latest r \<noteq> next_seq then (Inl StoreConflict, st)
          else (Inr (), set_bounds sid r next_seq next_seq now (set_rows sid [] st)))"

definition output_bounds :: "string \<Rightarrow> store \<Rightarrow> store_error + (nat \<times> nat)" where
  "output_bounds sid st =
     (case map_of (st_sessions st) sid of
        None \<Rightarrow> Inl StoreNoRows
      | Some r \<Rightarrow> Inr (sr_earliest r, sr_latest r))"

definition advance_output :: "int \<Rightarrow> string \<Rightarrow> nat \<Rightarrow> nat \<Rightarrow> store \<Rightarrow> (store_error + unit) \<times> store" where
  "advance_output now sid expected next_seq st =
     (if next_seq < expected then (Inl StoreConflict, st)
      else case map_of (st_sessions st) sid of
        None \<Rightarrow> (Inl StoreNoRows, st)
      | Some r \<Rightarrow>
          if sr_latest r \<noteq> expected then (Inl StoreConflict, st)
          else if next_seq \<ge> sql_limit then (Inl StoreConstraint, st)
          else (Inr (), set_bounds sid r next_seq next_seq now (set_rows sid [] st)))"

text \<open>
  The loop that \<open>AppendOutput\<close> and \<open>TrimOutput\<close> share: while more than the limit is
  retained, select the first row and delete it.  \<open>None\<close> is the failing \<open>SELECT\<close> on an
  empty table.
\<close>

fun trim_rows :: "nat \<Rightarrow> nat \<Rightarrow> nat \<Rightarrow> event list \<Rightarrow> (nat \<times> nat \<times> event list) option" where
  "trim_rows limit retained earliest [] =
     (if retained > limit then None else Some (retained, earliest, []))"
| "trim_rows limit retained earliest (e # es) =
     (if retained > limit
      then trim_rows limit (u64_sub retained (length (ev_data e))) (end_seq e) es
      else Some (retained, earliest, e # es))"

definition append_output ::
    "int \<Rightarrow> string \<Rightarrow> byte \<Rightarrow> nat \<Rightarrow> bytes \<Rightarrow> nat \<Rightarrow> store \<Rightarrow> (store_error + (event \<times> nat)) \<times> store" where
  "append_output now sid ch start data max_retained st =
     (let en = u64_add start (length data);
          ev = \<lparr>channel = ch, start_seq = start, end_seq = en, ev_data = data\<rparr>
      in if data = [] \<or> max_retained = 0 then (Inl StoreConflict, st)
         else if en < start then (Inl StoreConflict, st)
         else case map_of (st_sessions st) sid of
           None \<Rightarrow> (Inl StoreNoRows, st)
         | Some r \<Rightarrow>
             if sr_latest r \<noteq> start \<or> sr_earliest r > sr_latest r then (Inl StoreConflict, st)
             else if en \<ge> sql_limit \<or> ch \<notin> {1, 2} \<or> start \<in> start_seq ` set (rows_of st sid)
             then (Inl StoreConstraint, st)
             else case trim_rows max_retained (u64_sub en (sr_earliest r)) (sr_earliest r)
                         (insort_key start_seq ev (rows_of st sid)) of
               None \<Rightarrow> (Inl StoreNoRows, st)
             | Some (retained, earliest, rows) \<Rightarrow>
                 let earliest' = (if retained = 0 then en else earliest)
                 in if earliest' > en then (Inl StoreConstraint, st)
                    else (Inr (ev, earliest'), set_bounds sid r earliest' en now (set_rows sid rows st)))"

definition store_replay ::
    "string \<Rightarrow> nat \<Rightarrow> nat \<Rightarrow> store \<Rightarrow> store_error + (event list \<times> nat \<times> nat)" where
  "store_replay sid frm limit st =
     (case map_of (st_sessions st) sid of
        None \<Rightarrow> Inl StoreNoRows
      | Some r \<Rightarrow>
          if frm < sr_earliest r then Inl (StoreGap frm (sr_earliest r) (sr_latest r))
          else if frm > sr_latest r then Inl StoreConflict
          else Inr (fst (replay_loop frm limit limit frm (filter (\<lambda>e. end_seq e > frm) (rows_of st sid))),
                    sr_earliest r, sr_latest r))"

definition trim_output :: "string \<Rightarrow> nat \<Rightarrow> store \<Rightarrow> (store_error + nat) \<times> store" where
  "trim_output sid max_retained st =
     (if max_retained = 0 then (Inl StoreConflict, st)
      else case map_of (st_sessions st) sid of
        None \<Rightarrow> (Inl StoreNoRows, st)
      | Some r \<Rightarrow>
          (case trim_rows max_retained (u64_sub (sr_latest r) (sr_earliest r)) (sr_earliest r) (rows_of st sid) of
             None \<Rightarrow> (Inl StoreNoRows, st)
           | Some (retained, earliest, rows) \<Rightarrow>
               let earliest' = (if retained = 0 then sr_latest r else earliest)
               in if earliest' > sr_latest r then (Inl StoreConstraint, st)
                  else (Inr earliest',
                        (set_rows sid rows st)\<lparr>st_sessions :=
                           AList.update sid (r\<lparr>sr_earliest := earliest'\<rparr>) (st_sessions st)\<rparr>)))"

subsection \<open>The invariant of a session's output\<close>

definition output_wf :: "string \<Rightarrow> store \<Rightarrow> bool" where
  "output_wf sid st \<longleftrightarrow>
     (case map_of (st_sessions st) sid of
        None \<Rightarrow> False
      | Some r \<Rightarrow> chain (sr_earliest r) (rows_of st sid) (sr_latest r) \<and> sr_latest r < sql_limit \<and>
                  (\<forall>e \<in> set (rows_of st sid). ev_data e \<noteq> []))"

definition out_lo :: "string \<Rightarrow> store \<Rightarrow> nat" where
  "out_lo sid st = (case map_of (st_sessions st) sid of None \<Rightarrow> 0 | Some r \<Rightarrow> sr_earliest r)"

definition out_hi :: "string \<Rightarrow> store \<Rightarrow> nat" where
  "out_hi sid st = (case map_of (st_sessions st) sid of None \<Rightarrow> 0 | Some r \<Rightarrow> sr_latest r)"

definition out_bytes :: "string \<Rightarrow> store \<Rightarrow> bytes" where
  "out_bytes sid st = payload (rows_of st sid)"

lemma output_wfE:
  assumes "output_wf sid st"
  obtains r where "map_of (st_sessions st) sid = Some r" "chain (sr_earliest r) (rows_of st sid) (sr_latest r)"
    "sr_latest r < sql_limit" "\<forall>e \<in> set (rows_of st sid). ev_data e \<noteq> []"
    "out_lo sid st = sr_earliest r" "out_hi sid st = sr_latest r" "sr_earliest r \<le> sr_latest r"
proof -
  from assms obtain r where r: "map_of (st_sessions st) sid = Some r"
      "chain (sr_earliest r) (rows_of st sid) (sr_latest r)" "sr_latest r < sql_limit"
      "\<forall>e \<in> set (rows_of st sid). ev_data e \<noteq> []"
    by (auto simp: output_wf_def split: option.splits)
  from that [OF r] r(1) chain_le [OF r(2)] show thesis by (simp add: out_lo_def out_hi_def)
qed

lemma sql_limit_u64 [simp]: "n < sql_limit \<Longrightarrow> n < u64_limit"
  by (simp add: sql_limit_def u64_limit_def)

lemma rows_of_set [simp]:
  "rows_of (set_rows sid es st) sid' = (if sid' = sid then es else rows_of st sid')"
  "rows_of (set_bounds sid r a b now st) sid' = rows_of st sid'"
  "st_sessions (set_rows sid es st) = st_sessions st"
  "map_of (st_sessions (set_bounds sid r a b now st)) =
     (map_of (st_sessions st))(sid \<mapsto> r\<lparr>sr_earliest := a, sr_latest := b, sr_updated := Some now\<rparr>)"
  by (simp_all add: rows_of_def set_rows_def set_bounds_def)

text \<open>No more rows are dropped than the limit demands: the last one dropped would not have fitted.\<close>

definition tight :: "nat \<Rightarrow> event list \<Rightarrow> event list \<Rightarrow> bool" where
  "tight limit dropped rest \<longleftrightarrow> (dropped \<noteq> [] \<longrightarrow> limit < length (payload (last dropped # rest)))"

lemma trim_rows_spec:
  assumes "chain a es b" "b < u64_limit" "retained = b - a"
  shows "\<exists>dropped rest m. es = dropped @ rest \<and> trim_rows limit retained a es = Some (b - m, m, rest) \<and>
    chain a dropped m \<and> chain m rest b \<and> b - m \<le> limit \<and> tight limit dropped rest"
  using assms
proof (induction es arbitrary: a retained)
  case Nil
  then show ?case by (simp add: tight_def)
next
  case (Cons e es)
  have e: "start_seq e = a" "end_seq e = a + length (ev_data e)" "chain (end_seq e) es b"
    using Cons.prems(1) by auto
  have le: "end_seq e \<le> b" using e(3) by (rule chain_le)
  show ?case
  proof (cases "retained > limit")
    case True
    have "u64_sub retained (length (ev_data e)) = b - end_seq e"
      using Cons.prems(3) e(2) le by simp
    from Cons.IH [OF e(3) Cons.prems(2) this] obtain dropped rest m where
      "es = dropped @ rest" "chain (end_seq e) dropped m" "chain m rest b" "b - m \<le> limit" "tight limit dropped rest"
      "trim_rows limit (u64_sub retained (length (ev_data e))) (end_seq e) es = Some (b - m, m, rest)"
      by blast
    moreover have "tight limit (e # dropped) rest"
      using calculation(2-5) True Cons.prems(3) e(1,2) chain_length [of m rest b] by (auto simp: tight_def)
    ultimately show ?thesis using True e
      by (intro exI [of _ "e # dropped"] exI [of _ rest] exI [of _ m]) simp
  next
    case False
    then show ?thesis using Cons.prems by (intro exI [of _ "[]"] exI [of _ "e # es"] exI [of _ a]) (auto simp: tight_def)
  qed
qed

lemma chain_starts_below: "chain a es b \<Longrightarrow> e \<in> set es \<Longrightarrow> ev_data e \<noteq> [] \<Longrightarrow> start_seq e < b"
  using chain_member [of a es b e] by (cases "ev_data e") auto

lemma insort_at_end:
  assumes "\<forall>e \<in> set es. start_seq e < start_seq ev"
  shows "insort_key start_seq ev es = es @ [ev]"
  using assms by (induction es) auto

lemma append_output_ok:
  assumes wf: "output_wf sid st" and d: "data \<noteq> []" "0 < limit" "out_hi sid st + length data < sql_limit" "ch \<in> {1, 2}"
  defines "ev \<equiv> \<lparr>channel = ch, start_seq = out_hi sid st, end_seq = out_hi sid st + length data, ev_data = data\<rparr>"
  shows "\<exists>m dropped rest st'. append_output now sid ch (out_hi sid st) data limit st = (Inr (ev, m), st') \<and>
    rows_of st sid @ [ev] = dropped @ rest \<and> rows_of st' sid = rest \<and> output_wf sid st' \<and>
    out_lo sid st' = m \<and> out_hi sid st' = out_hi sid st + length data \<and>
    m = out_lo sid st + length (payload dropped) \<and> out_hi sid st' - m \<le> limit \<and> tight limit dropped rest \<and>
    (\<forall>sid'. sid' \<noteq> sid \<longrightarrow> rows_of st' sid' = rows_of st sid' \<and>
       map_of (st_sessions st') sid' = map_of (st_sessions st) sid')"
proof -
  obtain r where r: "map_of (st_sessions st) sid = Some r" "chain (sr_earliest r) (rows_of st sid) (sr_latest r)"
    "sr_latest r < sql_limit" "\<forall>e \<in> set (rows_of st sid). ev_data e \<noteq> []"
    "out_lo sid st = sr_earliest r" "out_hi sid st = sr_latest r" "sr_earliest r \<le> sr_latest r"
    using output_wfE [OF wf] .
  let ?en = "sr_latest r + length data"
  have en: "?en < u64_limit" using d(3) r(6) by simp
  then have u: "u64_add (sr_latest r) (length data) = ?en" by (rule u64_add_small)
  have below: "\<forall>e \<in> set (rows_of st sid). start_seq e < sr_latest r"
    using chain_starts_below [OF r(2)] r(4) by blast
  have ins: "insort_key start_seq ev (rows_of st sid) = rows_of st sid @ [ev]"
    using below r(6) by (intro insort_at_end) (simp add: ev_def)
  have ch: "chain (sr_earliest r) (rows_of st sid @ [ev]) ?en" using r(2,6) by (auto simp: ev_def)
  obtain dropped rest m where t: "rows_of st sid @ [ev] = dropped @ rest"
    "trim_rows limit (?en - sr_earliest r) (sr_earliest r) (rows_of st sid @ [ev]) = Some (?en - m, m, rest)"
    "chain (sr_earliest r) dropped m" "chain m rest ?en" "?en - m \<le> limit" "tight limit dropped rest"
    using trim_rows_spec [OF ch en refl, of limit] by blast
  have m: "m \<le> ?en" "(if ?en - m = 0 then ?en else m) = m" using chain_le [OF t(4)] by auto
  let ?st = "set_bounds sid r m ?en now (set_rows sid rest st)"
  have ne: "sr_latest r \<notin> start_seq ` set (rows_of st sid)" using below by auto
  have tr: "trim_rows limit (u64_sub ?en (sr_earliest r)) (sr_earliest r)
      (insort_key start_seq ev (rows_of st sid)) = Some (?en - m, m, rest)"
    using t(2) ins r(7) by simp
  have "append_output now sid ch (out_hi sid st) data limit st = (Inr (ev, m), ?st)"
    using d r(1,3,6,7) u ne tr m unfolding append_output_def ev_def by (simp add: Let_def not_le)
  moreover have "set rest \<subseteq> set (rows_of st sid @ [ev])" unfolding t(1) by auto
  then have "\<forall>e \<in> set rest. ev_data e \<noteq> []" using r(4) d(1) by (auto simp: ev_def)
  then have "output_wf sid ?st" using t(4) d(3) r(6) by (simp add: output_wf_def)
  moreover have "m = out_lo sid st + length (payload dropped)" using chain_length [OF t(3)] r(5) by simp
  ultimately show ?thesis using t(1,5,6) r(6)
    by (intro exI [of _ m] exI [of _ dropped] exI [of _ rest] exI [of _ ?st])
      (simp add: out_lo_def out_hi_def)
qed

lemma append_output_Inr:
  assumes "append_output now sid ch start data limit st = (Inr (ev, m), st')" "output_wf sid st"
    "length data < u64_limit"
  shows "data \<noteq> []" "0 < limit" "start = out_hi sid st" "start + length data < sql_limit" "ch \<in> {1, 2}"
proof -
  obtain r where r: "map_of (st_sessions st) sid = Some r" "sr_latest r < sql_limit" "out_hi sid st = sr_latest r"
    using output_wfE [OF assms(2)] by metis
  have *: "data \<noteq> []" "0 < limit" "start = sr_latest r" "u64_add start (length data) < sql_limit"
    "\<not> u64_add start (length data) < start" "ch \<in> {1, 2}"
    using assms(1) r(1) by (auto simp: append_output_def Let_def split: if_splits option.splits)
  show "data \<noteq> []" "0 < limit" "start = out_hi sid st" "ch \<in> {1, 2}" using * r(3) by simp_all
  show "start + length data < sql_limit"
  proof (cases "start + length data < u64_limit")
    case True
    then show ?thesis using *(4) by (simp add: u64_add_small)
  next
    case False
    then have "u64_add start (length data) = start + length data - u64_limit"
      using *(3) sql_limit_u64 [OF r(2)] assms(3) by (simp add: u64_add_def le_mod_geq)
    then show ?thesis using *(5) assms(3) False by linarith
  qed
qed

subsection \<open>The store as an output log\<close>

text \<open>Appending at the end, with the chunk no longer than a Go slice can be.\<close>

definition store_put :: "int \<Rightarrow> nat \<Rightarrow> string \<Rightarrow> store \<Rightarrow> byte \<Rightarrow> bytes \<Rightarrow> store option" where
  "store_put now limit sid st ch data =
     (if length data < u64_limit
      then case append_output now sid ch (out_hi sid st) data limit st of
             (Inr _, st') \<Rightarrow> Some st' | (Inl _, _) \<Rightarrow> None
      else None)"

definition store_get :: "string \<Rightarrow> store \<Rightarrow> nat \<Rightarrow> nat \<Rightarrow> event list option" where
  "store_get sid st frm limit =
     (case store_replay sid frm limit st of Inr (es, _) \<Rightarrow> Some es | Inl _ \<Rightarrow> None)"

lemma store_put_Some:
  assumes "output_wf sid st" "store_put now limit sid st ch data = Some st'"
  shows "output_wf sid st'" "out_hi sid st' = out_hi sid st + length data" "out_lo sid st \<le> out_lo sid st'"
    "out_bytes sid st' = drop (out_lo sid st' - out_lo sid st) (out_bytes sid st @ data)"
    "out_hi sid st' - out_lo sid st' \<le> limit"
proof -
  obtain ev m where a: "append_output now sid ch (out_hi sid st) data limit st = (Inr (ev, m), st')"
    "length data < u64_limit"
    using assms(2) by (auto simp: store_put_def split: if_splits sum.splits prod.splits)
  note c = append_output_Inr [OF a(1) assms(1) a(2)]
  obtain dropped rest where k: "rows_of st sid @
      [\<lparr>channel = ch, start_seq = out_hi sid st, end_seq = out_hi sid st + length data, ev_data = data\<rparr>] = dropped @ rest"
    "rows_of st' sid = rest" "output_wf sid st'" "out_lo sid st' = m"
    "out_hi sid st' = out_hi sid st + length data" "m = out_lo sid st + length (payload dropped)"
    "out_hi sid st' - m \<le> limit"
    using append_output_ok [OF assms(1) c(1,2,4,5), of now] a(1) by auto
  have "out_bytes sid st @ data = payload dropped @ payload rest"
    using arg_cong [OF k(1), of payload] by (simp add: out_bytes_def)
  then show "out_bytes sid st' = drop (out_lo sid st' - out_lo sid st) (out_bytes sid st @ data)"
    using k(2,4,6) by (simp add: out_bytes_def)
  show "output_wf sid st'" "out_hi sid st' = out_hi sid st + length data" "out_lo sid st \<le> out_lo sid st'"
    "out_hi sid st' - out_lo sid st' \<le> limit"
    using k by auto
qed

lemma replay_loop_filter:
  "replay_loop frm limit remaining to (filter (\<lambda>e. frm < end_seq e) es) = replay_loop frm limit remaining to es"
proof (induction es arbitrary: remaining to)
  case Nil
  then show ?case by simp
next
  case (Cons e es)
  show ?case
  proof (cases "frm < end_seq e")
    case True
    then have "filter (\<lambda>e. frm < end_seq e) (e # es) = e # filter (\<lambda>e. frm < end_seq e) es" by simp
    then show ?thesis by (simp only: replay_loop.simps(2) Cons.IH)
  next
    case False
    then show ?thesis using Cons.IH by (simp add: replay_loop_skip)
  qed
qed

lemma store_replay_ok:
  assumes "output_wf sid st" "out_lo sid st \<le> frm" "frm \<le> out_hi sid st"
  shows "\<exists>es. store_replay sid frm limit st = Inr (es, out_lo sid st, out_hi sid st) \<and>
    chain frm es (frm + read_amount limit (out_hi sid st - frm)) \<and>
    payload es = take (read_amount limit (out_hi sid st - frm)) (drop (frm - out_lo sid st) (out_bytes sid st))"
proof -
  obtain r where r: "map_of (st_sessions st) sid = Some r" "chain (sr_earliest r) (rows_of st sid) (sr_latest r)"
    "sr_latest r < sql_limit" "out_lo sid st = sr_earliest r" "out_hi sid st = sr_latest r"
    using output_wfE [OF assms(1)] by metis
  obtain es to where l: "replay_loop frm limit limit frm (rows_of st sid) = (es, to)" by fastforce
  have "limit = 0 \<or> 0 < limit" by auto
  note c = replay_loop_correct [OF r(2) sql_limit_u64 [OF r(3)] this l]
  have "max frm (sr_earliest r) = frm" using assms(2) r(4) by simp
  with c have "chain frm es (frm + read_amount limit (sr_latest r - frm))"
    "payload es = take (read_amount limit (sr_latest r - frm)) (drop (frm - sr_earliest r) (payload (rows_of st sid)))"
    by (simp_all add: replay_amount_read)
  moreover have "store_replay sid frm limit st = Inr (es, sr_earliest r, sr_latest r)"
    using r(1,4,5) assms(2,3) l by (simp add: store_replay_def replay_loop_filter)
  ultimately show ?thesis using r(4,5) by (simp add: out_bytes_def)
qed

interpretation store_log: output_log "output_wf sid" "out_lo sid" "out_hi sid" "out_bytes sid"
  "store_put now limit sid" "store_get sid"
proof
  fix s
  assume wf: "output_wf sid s"
  then obtain r :: session_row where r: "chain (sr_earliest r) (rows_of s sid) (sr_latest r)"
    "out_lo sid s = sr_earliest r" "out_hi sid s = sr_latest r"
    by (rule output_wfE) blast
  then show "out_lo sid s \<le> out_hi sid s \<and> length (out_bytes sid s) = out_hi sid s - out_lo sid s"
    using chain_length [OF r(1)] by (simp add: out_bytes_def)
  { fix a n
    assume "out_lo sid s \<le> a" "a \<le> out_hi sid s"
    from store_replay_ok [OF wf this, of n]
    show "\<exists>es. store_get sid s a n = Some es \<and> chain a es (a + read_amount n (out_hi sid s - a)) \<and>
        payload es = take (read_amount n (out_hi sid s - a)) (drop (a - out_lo sid s) (out_bytes sid s))"
      by (auto simp: store_get_def) }
  { fix a n
    assume "a < out_lo sid s \<or> out_hi sid s < a"
    then show "store_get sid s a n = None"
      by (auto simp: store_get_def store_replay_def out_lo_def out_hi_def split: option.splits) }
qed (auto dest: store_put_Some)

subsection \<open>Clearing, advancing and trimming\<close>

lemma clear_output_ok:
  assumes "output_wf sid st" "clear_output now sid n st = (Inr (), st')"
  shows "output_wf sid st' \<and> n = out_hi sid st \<and> out_lo sid st' = n \<and> out_hi sid st' = n \<and> out_bytes sid st' = []"
  using assms by (auto simp: clear_output_def output_wf_def out_lo_def out_hi_def out_bytes_def
      split: option.splits if_splits)

lemma advance_output_ok:
  assumes "output_wf sid st" "advance_output now sid e n st = (Inr (), st')"
  shows "output_wf sid st' \<and> e = out_hi sid st \<and> e \<le> n \<and> out_lo sid st' = n \<and> out_hi sid st' = n \<and>
    out_bytes sid st' = []"
  using assms by (auto simp: advance_output_def output_wf_def out_lo_def out_hi_def out_bytes_def
      split: option.splits if_splits)

lemma trim_output_ok:
  assumes "output_wf sid st" "0 < limit"
  shows "\<exists>m dropped st'. trim_output sid limit st = (Inr m, st') \<and> output_wf sid st' \<and> out_lo sid st' = m \<and>
    rows_of st sid = dropped @ rows_of st' sid \<and> tight limit dropped (rows_of st' sid) \<and>
    out_hi sid st' = out_hi sid st \<and> out_hi sid st - m \<le> limit \<and> out_lo sid st \<le> m \<and>
    out_bytes sid st' = drop (m - out_lo sid st) (out_bytes sid st) \<and>
    (\<forall>sid'. sid' \<noteq> sid \<longrightarrow> rows_of st' sid' = rows_of st sid' \<and>
       map_of (st_sessions st') sid' = map_of (st_sessions st) sid')"
proof -
  obtain r where r: "map_of (st_sessions st) sid = Some r" "chain (sr_earliest r) (rows_of st sid) (sr_latest r)"
    "sr_latest r < sql_limit" "\<forall>e \<in> set (rows_of st sid). ev_data e \<noteq> []"
    "out_lo sid st = sr_earliest r" "out_hi sid st = sr_latest r" "sr_earliest r \<le> sr_latest r"
    using output_wfE [OF assms(1)] .
  obtain dropped rest m where t: "rows_of st sid = dropped @ rest"
    "trim_rows limit (sr_latest r - sr_earliest r) (sr_earliest r) (rows_of st sid) = Some (sr_latest r - m, m, rest)"
    "chain (sr_earliest r) dropped m" "chain m rest (sr_latest r)" "sr_latest r - m \<le> limit"
    "tight limit dropped rest"
    using trim_rows_spec [OF r(2) sql_limit_u64 [OF r(3)] refl, of limit] by blast
  have m: "m \<le> sr_latest r" "(if sr_latest r - m = 0 then sr_latest r else m) = m" using chain_le [OF t(4)] by auto
  let ?st = "(set_rows sid rest st)\<lparr>st_sessions := AList.update sid (r\<lparr>sr_earliest := m\<rparr>) (st_sessions st)\<rparr>"
  have rows: "rows_of ?st sid' = (if sid' = sid then rest else rows_of st sid')" for sid'
    by (simp add: rows_of_def set_rows_def)
  have "trim_output sid limit st = (Inr m, ?st)"
    using assms(2) r(1,7) t(2) m by (simp add: trim_output_def Let_def)
  moreover have "output_wf sid ?st" using r(3,4) t(1,4) by (simp add: output_wf_def rows)
  moreover have "out_bytes sid ?st = drop (m - sr_earliest r) (out_bytes sid st)"
    unfolding out_bytes_def rows using chain_length [OF t(3)] t(1) by simp
  ultimately show ?thesis using r(5,6) t(1,5,6) chain_le [OF t(3)] rows
    by (intro exI [of _ m] exI [of _ dropped] exI [of _ ?st]) (simp add: out_lo_def out_hi_def)
qed

subsection \<open>Properties\<close>

text \<open>
  Appending to the durable log.  For a session whose stored output is well formed, a
  non-empty chunk on a known channel that starts at the stored end (and stays within the
  integer range of the database) is accepted; afterwards the log is well formed, holds the
  newest rows of the old output followed by the chunk, at most the retention limit of
  bytes and no row fewer than the limit demands, and no other session's rows or bounds
  have changed.
\<close>
theorem append_output_keeps_tail:
  assumes "output_wf sid st" "data \<noteq> []" "0 < limit" "out_hi sid st + length data < sql_limit" "ch \<in> {1, 2}"
  shows "\<exists>ev m dropped st'. append_output now sid ch (out_hi sid st) data limit st = (Inr (ev, m), st') \<and>
    output_wf sid st' \<and> channel ev = ch \<and> ev_data ev = data \<and> out_hi sid st' = out_hi sid st + length data \<and>
    out_lo sid st' = m \<and> rows_of st sid @ [ev] = dropped @ rows_of st' sid \<and>
    tight limit dropped (rows_of st' sid) \<and> length (out_bytes sid st') \<le> limit \<and>
    (\<forall>sid'. sid' \<noteq> sid \<longrightarrow> rows_of st' sid' = rows_of st sid' \<and>
       map_of (st_sessions st') sid' = map_of (st_sessions st) sid')"
proof -
  obtain m dropped rest st' where k:
    "append_output now sid ch (out_hi sid st) data limit st =
       (Inr (\<lparr>channel = ch, start_seq = out_hi sid st, end_seq = out_hi sid st + length data, ev_data = data\<rparr>, m), st')"
    "rows_of st sid @ [\<lparr>channel = ch, start_seq = out_hi sid st, end_seq = out_hi sid st + length data, ev_data = data\<rparr>] =
       dropped @ rest"
    "rows_of st' sid = rest" "output_wf sid st'" "out_lo sid st' = m"
    "out_hi sid st' = out_hi sid st + length data" "m = out_lo sid st + length (payload dropped)"
    "out_hi sid st' - m \<le> limit" "tight limit dropped rest"
    "\<forall>sid'. sid' \<noteq> sid \<longrightarrow> rows_of st' sid' = rows_of st sid' \<and>
       map_of (st_sessions st') sid' = map_of (st_sessions st) sid'"
    using append_output_ok [OF assms, of now] by blast
  have "length (out_bytes sid st') \<le> limit"
    using store_log.log_bounds [OF k(4)] k(5,8) by simp
  then show ?thesis using k by (intro exI conjI) (rule k(1), auto)
qed

definition sample_row :: session_row where
  "sample_row = \<lparr>sr_id = ''s1'', sr_name = ''main'', sr_cwd = ''/'', sr_path = ''/bin/sh'', sr_args = [],
     sr_env = [], sr_columns = 80, sr_rows = 24, sr_state = ''running'', sr_generation = 1,
     sr_exit_code = None, sr_exit_signal = [], sr_exited_at = None, sr_earliest = 2, sr_latest = 5,
     sr_created = Some 0, sr_updated = Some 0\<rparr>"

definition sample_store :: store where
  "sample_store = empty_store\<lparr>st_sessions := [(''s1'', sample_row)],
     st_events := [(''s1'', [\<lparr>channel = 1, start_seq = 2, end_seq = 5, ev_data = [1, 2, 3]\<rparr>])]\<rparr>"

lemma sample_store_wf: "output_wf ''s1'' sample_store" "out_hi ''s1'' sample_store = 5"
  "out_lo ''s1'' sample_store = 2" "out_bytes ''s1'' sample_store = [1, 2, 3]"
  by (simp_all add: output_wf_def sample_store_def sample_row_def rows_of_def sql_limit_def
      out_hi_def out_lo_def out_bytes_def empty_store_def)

theorem append_output_keeps_tail_witness:
  "\<exists>ev m dropped st'. append_output 7 ''s1'' 1 5 [9, 8] 4 sample_store = (Inr (ev, m), st') \<and>
     output_wf ''s1'' st' \<and> out_hi ''s1'' st' = 7 \<and> tight 4 dropped (rows_of st' ''s1'')"
  using append_output_keeps_tail [OF sample_store_wf(1), of "[9, 8]" 4 1 7]
  by (simp add: sample_store_wf(2) sql_limit_def) blast

text \<open>
  Restarting with a smaller limit.  Trimming a well-formed log always succeeds, keeps
  its newest rows within the limit, dropping no more of them than the limit demands, and
  moves only the lower bound.
\<close>
theorem trim_output_keeps_newest:
  assumes "output_wf sid st" "0 < limit"
  shows "\<exists>m dropped st'. trim_output sid limit st = (Inr m, st') \<and> output_wf sid st' \<and>
    out_lo sid st' = m \<and> out_hi sid st' = out_hi sid st \<and> rows_of st sid = dropped @ rows_of st' sid \<and>
    tight limit dropped (rows_of st' sid) \<and> length (out_bytes sid st') \<le> limit"
  using trim_output_ok [OF assms] store_log.log_bounds by metis

theorem trim_output_keeps_newest_witness:
  "\<exists>m st'. trim_output ''s1'' 2 sample_store = (Inr m, st') \<and> output_wf ''s1'' st' \<and> out_hi ''s1'' st' = 5 \<and>
     length (out_bytes ''s1'' st') \<le> 2"
  using trim_output_keeps_newest [OF sample_store_wf(1), of 2] by (auto simp: sample_store_wf)

end
