(* ===== verification/Managed_Session.thy ===== *)
theory Managed_Session
  imports Terminal_Delivery Store_Output Store_Journal
begin

section \<open>Managed sessions\<close>

text \<open>
  Model of the types of \<open>src/internal/session/manager.go\<close> and of its operations on one
  session: attachments, input, resize, signal and clear.  \<open>managed_session\<close> is the struct
  \<open>managedSession\<close>, \<open>manager\<close> the struct \<open>Manager\<close> together with the store it may have
  (\<open>mg_store = None\<close> when \<open>config.Store\<close> is nil).

  A \<open>PTYProcess\<close> is an opaque handle; what it answers (the bytes a write took, the result
  of a termination, an error of a resize or a signal) is an argument of the operation, as
  are clock readings, the faults of each store call and a cancelled context.  Every
  operation holds \<open>opMu\<close> for its whole body and so is atomic; \<open>WriteStream\<close> holds only
  \<open>inputMu\<close> and reads \<open>liveProcess\<close> once.  The three persistence channels
  are created and cleared together; \<open>ms_worker\<close> stands for them and the goroutine behind
  them.  Metrics are not modelled.
\<close>

type_synonym process = nat

record dimensions =
  dim_columns :: nat
  dim_rows :: nat

record pty_command =
  pc_path :: string
  pc_args :: "string list"
  pc_env :: "string list"
  pc_cwd :: string
  pc_dims :: dimensions

record exit_result =
  ex_code :: int
  ex_signal :: string
  ex_at :: int

datatype manager_error =
    ErrSessionExists
  | ErrSessionUnknown
  | ErrSessionRunning
  | ErrInvalidSession
  | ErrManagerStopped
  | ErrResourceLimit
  | MgrTransition
  | MgrStore store_error
  | MgrInput input_error
  | MgrHistory history_error
  | MgrFanout fanout_error
  | MgrStaleGeneration
  | MgrProcess
  | MgrContext
  | MgrRandom
  | MgrShortWrite

record persist_worker =
  w_notified :: bool
  w_dirty :: bool
  w_done :: "manager_error option"

record managed_session =
  ms_id :: string
  ms_name :: string
  ms_command :: pty_command
  ms_lifecycle :: lifecycle
  ms_history :: history
  ms_fanout :: fanout
  ms_inputs :: input_journal
  ms_process :: "process option"
  ms_live :: "(process \<times> nat) option"
  ms_exit :: "exit_result option"
  ms_resize_id :: string
  ms_resize_time :: int
  ms_worker :: "persist_worker option"
  ms_persist_err :: "manager_error option"

record manager_config =
  mc_history_bytes :: nat
  mc_attachment_bytes :: nat
  mc_timeout :: int
  mc_grace :: int
  mc_max_sessions :: int
  mc_max_attachments :: int
  mc_max_inputs :: int
  mc_recovery_signal :: string

record manager =
  mg_config :: manager_config
  mg_sessions :: "managed_session gomap"
  mg_names :: "string gomap"
  mg_stopping :: bool
  mg_store :: "store option"

record snapshot =
  sn_id :: string
  sn_name :: string
  sn_cwd :: string
  sn_dims :: dimensions
  sn_state :: session_state
  sn_generation :: nat
  sn_earliest :: nat
  sn_latest :: nat
  sn_exit :: "exit_result option"

definition snapshot_locked :: "managed_session \<Rightarrow> snapshot" where
  "snapshot_locked s =
     (case bounds (ms_history s) of
        (earliest, latest, _) \<Rightarrow>
          \<lparr>sn_id = ms_id s, sn_name = ms_name s, sn_cwd = pc_cwd (ms_command s), sn_dims = pc_dims (ms_command s),
           sn_state = l_state (ms_lifecycle s), sn_generation = l_generation (ms_lifecycle s),
           sn_earliest = earliest, sn_latest = latest, sn_exit = ms_exit s\<rparr>)"

definition store_record_locked :: "managed_session \<Rightarrow> session_row" where
  "store_record_locked s =
     (let snap = snapshot_locked s
      in \<lparr>sr_id = sn_id snap, sr_name = sn_name snap, sr_cwd = sn_cwd snap, sr_path = pc_path (ms_command s),
          sr_args = pc_args (ms_command s), sr_env = pc_env (ms_command s),
          sr_columns = dim_columns (sn_dims snap), sr_rows = dim_rows (sn_dims snap),
          sr_state = state_name (sn_state snap), sr_generation = sn_generation snap,
          sr_exit_code = map_option ex_code (sn_exit snap),
          sr_exit_signal = (case sn_exit snap of None \<Rightarrow> [] | Some e \<Rightarrow> ex_signal e),
          sr_exited_at = map_option ex_at (sn_exit snap),
          sr_earliest = sn_earliest snap, sr_latest = sn_latest snap, sr_created = None, sr_updated = None\<rparr>)"

text \<open>A store call of a manager whose store may be absent.\<close>

definition on_store :: "fault \<Rightarrow> (store \<Rightarrow> (store_error + 'a) \<times> store) \<Rightarrow> 'a \<Rightarrow> store option \<Rightarrow>
    (store_error + 'a) \<times> store option" where
  "on_store flt op dflt sto =
     (case sto of
        None \<Rightarrow> (Inr dflt, None)
      | Some st \<Rightarrow> (case with_fault flt op st of (r, st') \<Rightarrow> (r, Some st')))"

definition persist ::
    "int \<Rightarrow> fault \<Rightarrow> managed_session \<Rightarrow> session_state \<Rightarrow> store option \<Rightarrow> (store_error + unit) \<times> store option" where
  "persist now flt s expected =
     on_store flt (update_session now (ms_id s) (state_name expected) (store_record_locked s)) ()"

definition get_session :: "manager \<Rightarrow> string \<Rightarrow> manager_error + managed_session" where
  "get_session m sid =
     (case map_of (mg_sessions m) sid of None \<Rightarrow> Inl ErrSessionUnknown | Some s \<Rightarrow> Inr s)"

definition put_session :: "manager \<Rightarrow> string \<Rightarrow> managed_session \<Rightarrow> store option \<Rightarrow> manager" where
  "put_session m sid s sto = m\<lparr>mg_sessions := AList.update sid s (mg_sessions m), mg_store := sto\<rparr>"

fun attach_failure :: "attach_error \<Rightarrow> manager_error" where
  "attach_failure AttachResourceLimit = ErrResourceLimit"
| "attach_failure (AttachHistory e) = MgrHistory e"
| "attach_failure (AttachFanout e) = MgrFanout e"

subsection \<open>Attachments\<close>

definition session_attach ::
    "manager_config \<Rightarrow> managed_session \<Rightarrow> string \<Rightarrow> nat \<Rightarrow> (manager_error + snapshot \<times> replay) \<times> managed_session" where
  "session_attach cfg s aid frm =
     (case attach_locked (nat (mc_max_attachments cfg)) (mc_attachment_bytes cfg) (ms_history s) (ms_fanout s) aid frm of
        (Inl e, f) \<Rightarrow> (Inl (attach_failure e), s\<lparr>ms_fanout := f\<rparr>)
      | (Inr r, f) \<Rightarrow> (Inr (snapshot_locked (s\<lparr>ms_fanout := f\<rparr>), r), s\<lparr>ms_fanout := f\<rparr>))"

definition manager_attach ::
    "manager \<Rightarrow> string \<Rightarrow> string \<Rightarrow> nat \<Rightarrow> (manager_error + snapshot \<times> replay) \<times> manager" where
  "manager_attach m sid aid frm =
     (case get_session m sid of
        Inl e \<Rightarrow> (Inl e, m)
      | Inr s \<Rightarrow> (case session_attach (mg_config m) s aid frm of
                    (r, s') \<Rightarrow> (r, put_session m sid s' (mg_store m))))"

definition manager_attach_live ::
    "manager \<Rightarrow> string \<Rightarrow> string \<Rightarrow> (manager_error + snapshot \<times> replay) \<times> manager" where
  "manager_attach_live m sid aid =
     (case get_session m sid of
        Inl e \<Rightarrow> (Inl e, m)
      | Inr s \<Rightarrow> (case bounds (ms_history s) of
                    (_, latest, _) \<Rightarrow>
                      (case session_attach (mg_config m) s aid latest of
                         (r, s') \<Rightarrow> (r, put_session m sid s' (mg_store m)))))"

definition manager_detach :: "manager \<Rightarrow> string \<Rightarrow> string \<Rightarrow> (manager_error + unit) \<times> manager" where
  "manager_detach m sid aid =
     (case get_session m sid of
        Inl e \<Rightarrow> (Inl e, m)
      | Inr s \<Rightarrow> (case fanout_detach (ms_fanout s) aid of
                    Inl e \<Rightarrow> (Inl (MgrFanout e), m)
                  | Inr f \<Rightarrow> (Inr (), put_session m sid (s\<lparr>ms_fanout := f\<rparr>) (mg_store m))))"

definition manager_next :: "manager \<Rightarrow> string \<Rightarrow> string \<Rightarrow> (manager_error + event option) \<times> manager" where
  "manager_next m sid aid =
     (case get_session m sid of
        Inl e \<Rightarrow> (Inl e, m)
      | Inr s \<Rightarrow> (case next_owned (ms_fanout s) aid of
                    Inl e \<Rightarrow> (Inl (MgrFanout e), m)
                  | Inr (ev, f) \<Rightarrow> (Inr ev, put_session m sid (s\<lparr>ms_fanout := f\<rparr>) (mg_store m))))"

definition manager_acknowledge :: "manager \<Rightarrow> string \<Rightarrow> string \<Rightarrow> nat \<Rightarrow> (manager_error + unit) \<times> manager" where
  "manager_acknowledge m sid aid next_seq =
     (case get_session m sid of
        Inl e \<Rightarrow> (Inl e, m)
      | Inr s \<Rightarrow>
          (case fanout_status (ms_fanout s) aid of
             Inl _ \<Rightarrow> (Inl (MgrInput ErrInvalidInput), m)
           | Inr (st, _) \<Rightarrow>
               if st \<noteq> Attached then (Inl (MgrInput ErrInvalidInput), m)
               else (case acknowledge (ms_history s) aid next_seq of
                       Inl e \<Rightarrow> (Inl (MgrHistory e), m)
                     | Inr h \<Rightarrow> (Inr (), put_session m sid (s\<lparr>ms_history := h\<rparr>) (mg_store m)))))"

definition manager_attachment_status :: "manager \<Rightarrow> string \<Rightarrow> string \<Rightarrow> manager_error + (attachment_state \<times> nat)" where
  "manager_attachment_status m sid aid =
     (case get_session m sid of
        Inl e \<Rightarrow> Inl e
      | Inr s \<Rightarrow> (case fanout_status (ms_fanout s) aid of Inl e \<Rightarrow> Inl (MgrFanout e) | Inr r \<Rightarrow> Inr r))"

subsection \<open>Input\<close>

text \<open>
  \<open>Write\<close> on one session: the result is the error and the decision it returns, then
  whether the PTY was written.  \<open>out\<close> is what the PTY answers, \<open>flt\<close> and \<open>flt'\<close> are the
  faults of the two store calls.
\<close>

type_synonym write_result = "manager_error option \<times> input_decision option \<times> bool"

definition journal_result :: "(input_error + input_decision) \<Rightarrow> bool \<Rightarrow> write_result" where
  "journal_result r wrote =
     (case r of Inl e \<Rightarrow> (Some (MgrInput e), None, wrote) | Inr d \<Rightarrow> (None, Some d, wrote))"

definition reserved_row :: "bytes \<Rightarrow> int \<Rightarrow> input_row" where
  "reserved_row hash now =
     \<lparr>ir_hash = hash, ir_status = input_status_name InputUncertain, ir_written = 0, ir_error = [], ir_created = now\<rparr>"

definition attached_here :: "managed_session \<Rightarrow> string \<Rightarrow> bool" where
  "attached_here s aid \<longleftrightarrow>
     (case fanout_status (ms_fanout s) aid of Inl _ \<Rightarrow> False | Inr (st, _) \<Rightarrow> st = Attached)"

definition stale_input :: "managed_session \<Rightarrow> input_key \<Rightarrow> bool" where
  "stale_input s key \<longleftrightarrow>
     l_state (ms_lifecycle s) \<noteq> Running \<or> ms_process s = None \<or> k_generation key \<noteq> l_generation (ms_lifecycle s)"

text \<open>The branch for a key without a decision: reserve it in the store, write, record what happened.\<close>

definition record_decision ::
    "managed_session \<Rightarrow> input_key \<Rightarrow> bytes \<Rightarrow> input_decision \<Rightarrow> bool \<Rightarrow> fault \<Rightarrow> store option \<Rightarrow>
     write_result \<times> store option" where
  "record_decision s key data d wrote flt sto =
     (case on_store flt (update_input_decision (ms_id s) key (sha256 data)
             (input_status_name (d_status d)) (d_written d) (d_error d)) () sto of
        (Inl e, sto') \<Rightarrow>
          ((Some (MgrStore e), Some (d\<lparr>d_status := InputUncertain, d_error := ''decision_persist_failed''\<rparr>), wrote), sto')
      | (Inr _, sto') \<Rightarrow> ((None, Some d, wrote), sto'))"

definition write_reserved ::
    "int \<Rightarrow> managed_session \<Rightarrow> input_key \<Rightarrow> bytes \<Rightarrow> nat \<times> bool \<Rightarrow> fault \<Rightarrow> fault \<Rightarrow> store option \<Rightarrow>
     write_result \<times> managed_session \<times> store option" where
  "write_reserved now s key data out flt flt' sto =
     (case on_store flt (put_input_decision (ms_id s) key (reserved_row (sha256 data) now)) True sto of
        (Inl e, sto') \<Rightarrow> ((Some (MgrStore e), None, False), s, sto')
      | (Inr False, sto') \<Rightarrow> ((Some (MgrInput ErrInputConflict), None, False), s, sto')
      | (Inr True, sto') \<Rightarrow>
          (case input_write (ms_inputs s) key data (Some out) of
             (Inl e, j, wrote) \<Rightarrow> ((Some (MgrInput e), None, wrote), s\<lparr>ms_inputs := j\<rparr>, sto')
           | (Inr d, j, wrote) \<Rightarrow>
               (case record_decision s key data d wrote flt' sto' of
                  (r, sto'') \<Rightarrow> (r, s\<lparr>ms_inputs := j\<rparr>, sto''))))"

definition session_write ::
    "int \<Rightarrow> managed_session \<Rightarrow> input_key \<Rightarrow> bytes \<Rightarrow> nat \<times> bool \<Rightarrow> fault \<Rightarrow> fault \<Rightarrow> store option \<Rightarrow>
     write_result \<times> managed_session \<times> store option" where
  "session_write now s key data out flt flt' sto =
     (if stale_input s key
      then ((Some (MgrInput (StaleGeneration (l_generation (ms_lifecycle s)))), None, False), s, sto)
      else if \<not> attached_here s (k_attachment key)
      then ((Some (MgrInput ErrInvalidInput), None, False), s, sto)
      else if input_query (ms_inputs s) key \<noteq> Inl ErrInputUnknown
      then (case input_write (ms_inputs s) key data (Some out) of
              (r, j, wrote) \<Rightarrow> (journal_result r wrote, s\<lparr>ms_inputs := j\<rparr>, sto))
      else case input_admit (ms_inputs s) key of
        Some e \<Rightarrow> ((Some (MgrInput e), None, False), s, sto)
      | None \<Rightarrow> write_reserved now s key data out flt flt' sto)"

definition manager_write ::
    "int \<Rightarrow> manager \<Rightarrow> string \<Rightarrow> input_key \<Rightarrow> bytes \<Rightarrow> nat \<times> bool \<Rightarrow> fault \<Rightarrow> fault \<Rightarrow> write_result \<times> manager" where
  "manager_write now m sid key data out flt flt' =
     (case get_session m sid of
        Inl e \<Rightarrow> ((Some e, None, False), m)
      | Inr s \<Rightarrow> (case session_write now s key data out flt flt' (mg_store m) of
                    (r, s', sto) \<Rightarrow> (r, put_session m sid s' sto)))"

text \<open>\<open>WriteStream\<close>: the error, and whether the PTY was written.\<close>

definition session_write_stream ::
    "managed_session \<Rightarrow> string \<Rightarrow> nat \<Rightarrow> bytes \<Rightarrow> nat \<times> bool \<Rightarrow> manager_error option \<times> process option" where
  "session_write_stream s aid generation data out =
     (case ms_live s of
        None \<Rightarrow> (Some (MgrInput (StaleGeneration (l_generation (ms_lifecycle s)))), None)
      | Some (p, g) \<Rightarrow>
          if generation \<noteq> g then (Some (MgrInput (StaleGeneration (l_generation (ms_lifecycle s)))), None)
          else if \<not> is_attached (ms_fanout s) aid then (Some (MgrInput ErrInvalidInput), None)
          else case out of
            (n, failed) \<Rightarrow>
              (if failed then Some MgrProcess else if n \<noteq> length data then Some MgrShortWrite else None, Some p))"

definition manager_write_stream ::
    "manager \<Rightarrow> string \<Rightarrow> string \<Rightarrow> nat \<Rightarrow> bytes \<Rightarrow> nat \<times> bool \<Rightarrow> manager_error option \<times> process option" where
  "manager_write_stream m sid aid generation data out =
     (if data = [] \<or> length data > 262144 then (Some (MgrInput ErrInvalidInput), None)
      else case get_session m sid of
        Inl e \<Rightarrow> (Some e, None)
      | Inr s \<Rightarrow> session_write_stream s aid generation data out)"

definition manager_query_input :: "manager \<Rightarrow> string \<Rightarrow> input_key \<Rightarrow> manager_error + input_decision" where
  "manager_query_input m sid key =
     (case get_session m sid of
        Inl e \<Rightarrow> Inl e
      | Inr s \<Rightarrow> (case input_query (ms_inputs s) key of Inl e \<Rightarrow> Inl (MgrInput e) | Inr d \<Rightarrow> Inr d))"

subsection \<open>Resize, signal, clear\<close>

text \<open>\<open>failed\<close> is the answer of the PTY to the resize or the signal.\<close>

definition session_resize ::
    "int \<Rightarrow> managed_session \<Rightarrow> string \<Rightarrow> dimensions \<Rightarrow> int \<Rightarrow> bool \<Rightarrow> fault \<Rightarrow> store option \<Rightarrow>
     (manager_error + unit) \<times> managed_session \<times> store option" where
  "session_resize now s aid dims active_at failed flt sto =
     (if \<not> attached_here s aid \<or> ms_process s = None
      then (Inl (MgrInput ErrInvalidInput), s, sto)
      else if active_at < ms_resize_time s \<or> active_at = ms_resize_time s \<and> aid < ms_resize_id s
      then (Inr (), s, sto)
      else if failed then (Inl MgrProcess, s, sto)
      else
        let s' = s\<lparr>ms_resize_id := aid, ms_resize_time := active_at,
                   ms_command := (ms_command s)\<lparr>pc_dims := dims\<rparr>\<rparr>
        in case persist now flt s' (l_state (ms_lifecycle s')) sto of
             (Inl e, sto') \<Rightarrow> (Inl (MgrStore e), s', sto')
           | (Inr _, sto') \<Rightarrow> (Inr (), s', sto'))"

definition manager_resize ::
    "int \<Rightarrow> manager \<Rightarrow> string \<Rightarrow> string \<Rightarrow> dimensions \<Rightarrow> int \<Rightarrow> bool \<Rightarrow> fault \<Rightarrow> (manager_error + unit) \<times> manager" where
  "manager_resize now m sid aid dims active_at failed flt =
     (case get_session m sid of
        Inl e \<Rightarrow> (Inl e, m)
      | Inr s \<Rightarrow> (case session_resize now s aid dims active_at failed flt (mg_store m) of
                    (r, s', sto) \<Rightarrow> (r, put_session m sid s' sto)))"

definition manager_signal :: "manager \<Rightarrow> string \<Rightarrow> nat \<Rightarrow> bool \<Rightarrow> manager_error + process" where
  "manager_signal m sid generation failed =
     (case get_session m sid of
        Inl e \<Rightarrow> Inl e
      | Inr s \<Rightarrow>
          if l_state (ms_lifecycle s) \<noteq> Running \<or> generation \<noteq> l_generation (ms_lifecycle s)
          then Inl MgrStaleGeneration
          else case ms_process s of
            None \<Rightarrow> Inl MgrStaleGeneration
          | Some p \<Rightarrow> if failed then Inl MgrProcess else Inr p)"

definition manager_clear :: "int \<Rightarrow> manager \<Rightarrow> string \<Rightarrow> fault \<Rightarrow> (manager_error + nat) \<times> manager" where
  "manager_clear now m sid flt =
     (case get_session m sid of
        Inl e \<Rightarrow> (Inl e, m)
      | Inr s \<Rightarrow>
          (case on_store flt (clear_output now (ms_id s) (h_latest (ms_history s))) () (mg_store m) of
             (Inl e, sto) \<Rightarrow> (Inl (MgrStore e), m\<lparr>mg_store := sto\<rparr>)
           | (Inr _, sto) \<Rightarrow>
               (case clear (ms_history s) of
                  (n, h) \<Rightarrow> (Inr n, put_session m sid (s\<lparr>ms_history := h\<rparr>) sto))))"

end
