(* ===== verification/Output_Persistence.thy ===== *)
theory Output_Persistence
  imports Managed_Session
begin

section \<open>Persisting the output of a session\<close>

text \<open>
  Model of the persistence of output in \<open>src/internal/session/manager.go\<close>:
  \<open>startOutputPersistence\<close>, \<open>queueOutputPersistence\<close>, \<open>stopOutputPersistence\<close>, and the
  goroutine \<open>runOutputPersistence\<close> with its closure \<open>flush\<close>.

  One iteration of the loop in \<open>flush\<close> is \<open>flush_round\<close>.  It reads the history twice,
  without \<open>opMu\<close>: \<open>h\<close> is the history when it asks for the bounds, \<open>h'\<close> when it replays;
  the capture loop may have appended in between.  \<open>flush\<close> runs one round per element of
  the list of environments it is given and is \<open>None\<close> while it is still looping.  With a
  history that does not change, one round is enough (\<open>flush_quiescent\<close>).
\<close>

datatype flush_result = FlushDone | FlushAgain | FlushFailed manager_error

record flush_env =
  fe_now :: int
  fe_bounds :: fault
  fe_advance :: fault
  fe_append :: "fault list"

fun append_events ::
    "int \<Rightarrow> string \<Rightarrow> nat \<Rightarrow> fault list \<Rightarrow> event list \<Rightarrow> store \<Rightarrow> store_error option \<times> store" where
  "append_events now sid limit flts [] st = (None, st)"
| "append_events now sid limit flts (ev # evs) st =
     (case with_fault (case flts of [] \<Rightarrow> Healthy | f # _ \<Rightarrow> f)
             (append_output now sid (channel ev) (start_seq ev) (ev_data ev) limit) st of
        (Inl e, st') \<Rightarrow> (Some e, st')
      | (Inr _, st') \<Rightarrow> append_events now sid limit (tl flts) evs st')"

definition flush_events ::
    "flush_env \<Rightarrow> string \<Rightarrow> nat \<Rightarrow> nat \<Rightarrow> nat \<Rightarrow> history \<Rightarrow> store \<Rightarrow> flush_result \<times> store" where
  "flush_events env sid limit persisted latest h' st =
     (if persisted \<ge> latest then (FlushDone, st)
      else case replay_owned h' persisted limit of
        Inl (GapError _ _ _) \<Rightarrow> (FlushAgain, st)
      | Inl e \<Rightarrow> (FlushFailed (MgrHistory e), st)
      | Inr r \<Rightarrow>
          (case append_events (fe_now env) sid limit (fe_append env) (r_events r) st of
             (Some e, st') \<Rightarrow> (FlushFailed (MgrStore e), st')
           | (None, st') \<Rightarrow> (if r_to r \<ge> latest then FlushDone else FlushAgain, st')))"

definition flush_round ::
    "flush_env \<Rightarrow> string \<Rightarrow> nat \<Rightarrow> history \<Rightarrow> history \<Rightarrow> store \<Rightarrow> flush_result \<times> store" where
  "flush_round env sid limit h h' st =
     (case with_fault (fe_bounds env) (\<lambda>st. (output_bounds sid st, st)) st of
        (Inl e, st1) \<Rightarrow> (FlushFailed (MgrStore e), st1)
      | (Inr (_, persisted), st1) \<Rightarrow>
          if persisted < h_earliest h
          then (case with_fault (fe_advance env) (advance_output (fe_now env) sid persisted (h_earliest h)) st1 of
                  (Inl e, st2) \<Rightarrow> (FlushFailed (MgrStore e), st2)
                | (Inr _, st2) \<Rightarrow> flush_events env sid limit (h_earliest h) (h_latest h) h' st2)
          else flush_events env sid limit persisted (h_latest h) h' st1)"

fun flush ::
    "(flush_env \<times> history \<times> history) list \<Rightarrow> string \<Rightarrow> nat \<Rightarrow> store \<Rightarrow> (manager_error option \<times> store) option" where
  "flush [] sid limit st = None"
| "flush ((env, h, h') # rounds) sid limit st =
     (case flush_round env sid limit h h' st of
        (FlushDone, st') \<Rightarrow> Some (None, st')
      | (FlushFailed e, st') \<Rightarrow> Some (Some e, st')
      | (FlushAgain, st') \<Rightarrow> flush rounds sid limit st')"

subsection \<open>The worker\<close>

definition start_output_persistence :: "managed_session \<Rightarrow> store option \<Rightarrow> managed_session" where
  "start_output_persistence s sto =
     (case sto of
        None \<Rightarrow> s
      | Some _ \<Rightarrow> s\<lparr>ms_worker := Some \<lparr>w_notified = False, w_dirty = False, w_done = None\<rparr>, ms_persist_err := None\<rparr>)"

definition queue_output_persistence :: "managed_session \<Rightarrow> managed_session" where
  "queue_output_persistence s =
     (case ms_worker s of None \<Rightarrow> s | Some w \<Rightarrow> s\<lparr>ms_worker := Some (w\<lparr>w_notified := True\<rparr>)\<rparr>)"

text \<open>
  The branches of the worker's \<open>select\<close>: a notification makes it dirty, the timer flushes
  when it is dirty, the stop signal flushes and ends it.  A flush that fails on the timer
  ends the worker and leaves its error for \<open>stopOutputPersistence\<close>.
\<close>

definition worker_notify :: "persist_worker \<Rightarrow> persist_worker" where
  "worker_notify w = (if w_done w = None \<and> w_notified w then w\<lparr>w_notified := False, w_dirty := True\<rparr> else w)"

definition worker_timer ::
    "(flush_env \<times> history \<times> history) list \<Rightarrow> string \<Rightarrow> nat \<Rightarrow> persist_worker \<Rightarrow> store \<Rightarrow>
     (persist_worker \<times> store) option" where
  "worker_timer rounds sid limit w st =
     (if w_done w \<noteq> None \<or> \<not> w_dirty w then Some (w, st)
      else case flush rounds sid limit st of
        None \<Rightarrow> None
      | Some (Some e, st') \<Rightarrow> Some (w\<lparr>w_done := Some e\<rparr>, st')
      | Some (None, st') \<Rightarrow> Some (w\<lparr>w_dirty := False\<rparr>, st'))"

definition stop_output_persistence ::
    "(flush_env \<times> history \<times> history) list \<Rightarrow> nat \<Rightarrow> managed_session \<Rightarrow> store option \<Rightarrow>
     (manager_error option \<times> managed_session \<times> store option) option" where
  "stop_output_persistence rounds limit s sto =
     (case ms_worker s of
        None \<Rightarrow> Some (None, s, sto)
      | Some w \<Rightarrow>
          (case w_done w of
             Some e \<Rightarrow> Some (Some e, s\<lparr>ms_worker := None\<rparr>, sto)
           | None \<Rightarrow>
               (case sto of
                  None \<Rightarrow> Some (None, s\<lparr>ms_worker := None\<rparr>, sto)
                | Some st \<Rightarrow>
                    (case flush rounds (ms_id s) limit st of
                       None \<Rightarrow> None
                     | Some (e, st') \<Rightarrow> Some (e, s\<lparr>ms_worker := None\<rparr>, Some st')))))"

subsection \<open>The store holds a prefix of the stream\<close>

text \<open>
  \<open>T\<close> is the whole stream of the session.  The history holds a tail of it (\<open>tail_of\<close>);
  the store holds the bytes from its lower to its upper bound, and never one that was not
  produced.
\<close>

definition store_tail :: "string \<Rightarrow> bytes \<Rightarrow> store \<Rightarrow> bool" where
  "store_tail sid T st \<longleftrightarrow>
     output_wf sid st \<and> out_hi sid st \<le> length T \<and> out_bytes sid st = drop (out_lo sid st) (take (out_hi sid st) T)"

lemma store_tail_extend: "store_tail sid T st \<Longrightarrow> store_tail sid (T @ d) st"
  by (simp add: store_tail_def)

lemma append_output_Inl: "append_output now sid ch a data limit st = (Inl e, st') \<Longrightarrow> st' = st"
  by (auto simp: append_output_def Let_def split: if_splits option.splits prod.splits)

lemma store_tail_append:
  assumes t: "store_tail sid T st" and a: "append_output now sid ch (out_hi sid st) data limit st = (Inr x, st')"
    and d: "data = take (length data) (drop (out_hi sid st) T)" "length data < u64_limit"
      "out_hi sid st + length data \<le> length T"
  shows "store_tail sid T st'" "out_hi sid st' = out_hi sid st + length data"
proof -
  have wf: "output_wf sid st" using t by (simp add: store_tail_def)
  have p: "store_put now limit sid st ch data = Some st'" using a d(2) by (simp add: store_put_def)
  note s = store_put_Some [OF wf p]
  have lo: "out_lo sid st \<le> out_hi sid st" using store_log.log_bounds [OF wf] by simp
  have j: "take (out_hi sid st') T = take (out_hi sid st) T @ data"
    using d(1) s(2) by (simp add: take_add)
  have "out_bytes sid st @ data = drop (out_lo sid st) (take (out_hi sid st') T)"
    using t lo unfolding j by (simp add: store_tail_def)
  then have "out_bytes sid st' = drop (out_lo sid st') (take (out_hi sid st') T)"
    unfolding s(4) using s(3) by simp
  then show "store_tail sid T st'" "out_hi sid st' = out_hi sid st + length data"
    using s(1,2) d(3) by (simp_all add: store_tail_def)
qed

lemma append_events_tail:
  assumes "store_tail sid T st" "chain (out_hi sid st) evs b" "payload evs = take (b - out_hi sid st) (drop (out_hi sid st) T)"
    "b \<le> length T" "length T < u64_limit" "append_events now sid limit flts evs st = (r, st')"
  shows "store_tail sid T st' \<and> out_hi sid st \<le> out_hi sid st' \<and> out_hi sid st' \<le> b \<and> (r = None \<longrightarrow> out_hi sid st' = b)"
  using assms
proof (induction evs arbitrary: st flts)
  case Nil
  then show ?case by simp
next
  case (Cons ev evs)
  let ?a = "out_hi sid st"
  define f where "f = (case flts of [] \<Rightarrow> Healthy | f # _ \<Rightarrow> f)"
  define op where "op = append_output now sid (channel ev) (start_seq ev) (ev_data ev) limit"
  have ev: "start_seq ev = ?a" "end_seq ev = ?a + length (ev_data ev)" "chain (end_seq ev) evs b"
    using Cons.prems(2) by auto
  have le: "end_seq ev \<le> b" using ev(3) by (rule chain_le)
  have pl: "ev_data ev @ payload evs = take (b - ?a) (drop ?a T)" using Cons.prems(3) by simp
  have d: "ev_data ev = take (length (ev_data ev)) (drop ?a T)"
    using arg_cong [OF pl, of "take (length (ev_data ev))"] ev(2) le by (simp add: min_absorb1)
  have rest: "payload evs = take (b - end_seq ev) (drop (end_seq ev) T)"
    using arg_cong [OF pl, of "drop (length (ev_data ev))"] ev(2) by (simp add: drop_take add.commute)
  have len: "length (ev_data ev) < u64_limit" "?a + length (ev_data ev) \<le> length T"
    using le Cons.prems(4,5) ev(2) by linarith+
  have op_ok: "op st = (Inr x, s1) \<Longrightarrow> store_tail sid T s1 \<and> out_hi sid s1 = end_seq ev" for x s1
    using store_tail_append [OF Cons.prems(1) _ d len] ev(1,2) unfolding op_def by simp
  have op_bad: "op st = (Inl e, s1) \<Longrightarrow> s1 = st" for e s1
    unfolding op_def by (rule append_output_Inl)
  obtain q s1 where w: "with_fault f op st = (q, s1)" by fastforce
  have st: "store_tail sid T s1 \<and> (out_hi sid s1 = ?a \<or> out_hi sid s1 = end_seq ev)"
    using w Cons.prems(1) op_ok op_bad by (cases f; cases "op st"; cases "fst (op st)") (auto simp: with_fault_def)
  show ?case
  proof (cases q)
    case (Inl e)
    then have "st' = s1" "r = Some e" using Cons.prems(6) w by (auto simp: f_def op_def)
    then show ?thesis using st le ev(2) by auto
  next
    case (Inr x)
    then have run: "append_events now sid limit (tl flts) evs s1 = (r, st')"
      using Cons.prems(6) w by (simp add: f_def op_def)
    have "op st = (Inr x, s1)" using w Inr by (cases f) (auto simp: with_fault_def)
    then have hi: "out_hi sid s1 = end_seq ev" using op_ok by blast
    then show ?thesis
      using Cons.IH [of s1 "tl flts"] st run ev(2,3) rest Cons.prems(4,5) by simp
  qed
qed

lemma advance_output_tail:
  assumes "store_tail sid T st" "advance_output now sid e n st = (Inr x, st')" "n \<le> length T"
  shows "store_tail sid T st'" "out_hi sid st' = n"
proof -
  have "advance_output now sid e n st = (Inr (), st')" using assms(2) by simp
  from advance_output_ok [OF _ this] assms(1,3) show "store_tail sid T st'" "out_hi sid st' = n"
    by (auto simp: store_tail_def)
qed

lemma advance_output_Inl: "advance_output now sid e n st = (Inl x, st') \<Longrightarrow> st' = st"
  by (auto simp: advance_output_def split: if_splits option.splits)

lemma flush_events_tail:
  assumes "store_tail sid T st" "tail_of h' T" "flush_events env sid limit (out_hi sid st) latest h' st = (r, st')"
  shows "store_tail sid T st' \<and> out_hi sid st \<le> out_hi sid st' \<and> (r = FlushDone \<longrightarrow> latest \<le> out_hi sid st')"
proof -
  let ?p = "out_hi sid st"
  have hi: "hist_inv h'" "h_latest h' = length T" "content h' = drop (h_earliest h') T" "length T < u64_limit"
    using assms(2) by (auto simp: tail_of_def hist_inv_def)
  consider (finished) "latest \<le> ?p" | (gap) "\<not> latest \<le> ?p" "?p < h_earliest h'" | (read) "\<not> latest \<le> ?p" "h_earliest h' \<le> ?p"
    by linarith
  then show ?thesis
  proof cases
    case finished
    then show ?thesis using assms(1,3) by (auto simp: flush_events_def)
  next
    case gap
    then show ?thesis using assms(1,3) by (auto simp: flush_events_def replay_owned_def)
  next
    case read
    have le: "?p \<le> h_latest h'" using assms(1) hi(2) by (simp add: store_tail_def)
    define n where "n = read_amount limit (h_latest h' - ?p)"
    obtain q where q: "replay_owned h' ?p limit = Inr q" "r_to q = ?p + n" "chain ?p (r_events q) (?p + n)"
      "payload (r_events q) = take n (drop (?p - h_earliest h') (content h'))"
      using replay_owned_ok [OF hi(1) read(2) le, of limit] unfolding n_def by metis
    obtain e st1 where a: "append_events (fe_now env) sid limit (fe_append env) (r_events q) st = (e, st1)" by fastforce
    have n: "?p + n \<le> length T" using le hi(2) by (auto simp: n_def read_amount_def)
    have pl: "payload (r_events q) = take (?p + n - ?p) (drop ?p T)" using q(4) read(2) hi(3) by simp
    note s = append_events_tail [OF assms(1) q(3) pl n hi(4) a]
    have "st' = st1" "r = FlushDone \<Longrightarrow> e = None \<and> latest \<le> ?p + n"
      using assms(3) read(1) q(1,2) a by (auto simp: flush_events_def split: option.splits if_splits)
    then show ?thesis using s by auto
  qed
qed

text \<open>One round, with output arriving between its two looks at the history, under any faults.\<close>

lemma flush_round_tail:
  assumes "store_tail sid T st" "tail_of h T" "tail_of h' (T @ d)" "flush_round env sid limit h h' st = (r, st')"
  shows "store_tail sid (T @ d) st' \<and> out_hi sid st \<le> out_hi sid st' \<and> (r = FlushDone \<longrightarrow> length T \<le> out_hi sid st')"
proof -
  have wf: "output_wf sid st" and t: "store_tail sid (T @ d) st"
    using assms(1) store_tail_extend by (auto simp: store_tail_def)
  have ob: "output_bounds sid st = Inr (out_lo sid st, out_hi sid st)"
    by (rule output_wfE [OF wf]) (simp add: output_bounds_def)
  have hl: "h_latest h = length T" "h_earliest h \<le> length T"
    using assms(2) hist_earliest_le [of h] by (auto simp: tail_of_def hist_inv_pre)
  show ?thesis
  proof (cases "fe_bounds env = Healthy")
    case False
    then have "st' = st" "r \<noteq> FlushDone"
      using assms(4) by (cases "fe_bounds env"; auto simp: flush_round_def with_fault_def)+
    then show ?thesis using t by simp
  next
    case True
    note b = assms(4) [unfolded flush_round_def True with_fault_def [of Healthy], simplified, unfolded ob, simplified]
    show ?thesis
    proof (cases "out_hi sid st < h_earliest h")
      case False
      then show ?thesis using flush_events_tail [OF t assms(3)] b hl(1) by auto
    next
      case True
      define op where "op = advance_output (fe_now env) sid (out_hi sid st) (h_earliest h)"
      obtain q s1 where w: "with_fault (fe_advance env) op st = (q, s1)" by fastforce
      have good: "op st = (Inr x, s) \<Longrightarrow> store_tail sid (T @ d) s \<and> out_hi sid s = h_earliest h" for x s
        using advance_output_tail [OF t, of "fe_now env" "out_hi sid st" "h_earliest h"] hl(2) unfolding op_def by auto
      have bad: "op st = (Inl e, s) \<Longrightarrow> s = st" for e s unfolding op_def by (rule advance_output_Inl)
      have s1: "store_tail sid (T @ d) s1 \<and> out_hi sid st \<le> out_hi sid s1 \<and> (isl q \<or> out_hi sid s1 = h_earliest h)"
        using w t good bad True
        by (cases "fe_advance env"; cases "op st"; cases "fst (op st)") (auto simp: with_fault_def)
      show ?thesis
      proof (cases q)
        case (Inl e)
        then show ?thesis using b True w s1 by (auto simp: op_def)
      next
        case (Inr x)
        then have "flush_events env sid limit (out_hi sid s1) (h_latest h) h' s1 = (r, st')"
          using b True w s1 by (auto simp: op_def)
        from flush_events_tail [OF _ assms(3) this] s1 hl(1) show ?thesis by auto
      qed
    qed
  qed
qed

subsection \<open>A flush without faults completes\<close>

definition recordable :: "event \<Rightarrow> bool" where
  "recordable e \<longleftrightarrow> ev_data e \<noteq> [] \<and> channel e \<in> {1, 2}"

definition healthy :: "flush_env \<Rightarrow> bool" where
  "healthy env \<longleftrightarrow> fe_bounds env = Healthy \<and> fe_advance env = Healthy \<and> list_all (\<lambda>f. f = Healthy) (fe_append env)"

lemma append_events_ok:
  assumes "output_wf sid st" "chain (out_hi sid st) evs b" "b < sql_limit" "0 < limit"
    "list_all recordable evs" "list_all (\<lambda>f. f = Healthy) flts"
  shows "fst (append_events now sid limit flts evs st) = None"
  using assms
proof (induction evs arbitrary: st flts)
  case (Cons ev evs)
  have ev: "start_seq ev = out_hi sid st" "end_seq ev = out_hi sid st + length (ev_data ev)" "chain (end_seq ev) evs b"
    using Cons.prems(2) by auto
  have sm: "out_hi sid st + length (ev_data ev) < sql_limit"
    using chain_le [OF ev(3)] ev(2) Cons.prems(3) by linarith
  have rc: "ev_data ev \<noteq> []" "channel ev \<in> {1, 2}" "list_all recordable evs"
    using Cons.prems(5) recordable_def [of ev] by simp_all
  obtain x st' where a: "append_output now sid (channel ev) (out_hi sid st) (ev_data ev) limit st = (Inr x, st')"
    "output_wf sid st'" "out_hi sid st' = end_seq ev"
    using append_output_ok [OF Cons.prems(1) rc(1) Cons.prems(4) sm rc(2), of now] ev(2) by auto
  have f: "(case flts of [] \<Rightarrow> Healthy | f # _ \<Rightarrow> f) = Healthy" "list_all (\<lambda>f. f = Healthy) (tl flts)"
    using Cons.prems(6) by (cases flts; simp)+
  have "fst (append_events now sid limit (tl flts) evs st') = None"
    by (rule Cons.IH) (use a ev(3) Cons.prems(3,4) rc(3) f(2) in auto)
  then show ?case using a(1) f(1) ev(1) by (simp add: with_fault_def)
qed simp

lemma piece_recordable:
  assumes "list_all recordable G" "piece G e" "end_seq e = start_seq e + length (ev_data e)"
  shows "recordable e"
  using assms by (auto simp: piece_def recordable_def list_all_iff)

lemma replay_recordable:
  assumes "hist_inv h" "list_all recordable (live h)" "0 < limit" "h_latest h - a \<le> limit"
    "h_earliest h \<le> a" "a \<le> h_latest h"
  obtains r where "replay_owned h a limit = Inr r" "r_to r = h_latest h" "chain a (r_events r) (h_latest h)"
    "list_all recordable (r_events r)"
proof -
  have ne: "\<forall>e \<in> set (live h). ev_data e \<noteq> []" using assms(2) by (auto simp: list_all_iff recordable_def)
  obtain r where r: "replay_owned h a limit = Inr r" "r_to r = h_latest h" "chain a (r_events r) (h_latest h)"
    "\<forall>e \<in> set (r_events r). piece (live h) e"
    using replay_owned_pieces [OF assms(1) ne assms(3,5,6,4)] by blast
  have "recordable e" if "e \<in> set (r_events r)" for e
    using piece_recordable [OF assms(2)] r(4) chain_member [OF r(3) that] that by blast
  then show thesis using r that by (simp add: list_all_iff)
qed

lemma flush_events_ok:
  assumes "hist_inv h" "list_all recordable (live h)" "h_max h \<le> limit" "h_latest h < sql_limit" "healthy env"
    "output_wf sid st" "h_earliest h \<le> out_hi sid st" "out_hi sid st \<le> h_latest h"
  shows "fst (flush_events env sid limit (out_hi sid st) (h_latest h) h st) = FlushDone"
proof (cases "h_latest h \<le> out_hi sid st")
  case False
  have pos: "0 < limit" "h_latest h - out_hi sid st \<le> limit" using assms(1,3,7) by (auto simp: hist_inv_def)
  obtain r where r: "replay_owned h (out_hi sid st) limit = Inr r" "r_to r = h_latest h"
    "chain (out_hi sid st) (r_events r) (h_latest h)" "list_all recordable (r_events r)"
    using replay_recordable [OF assms(1,2) pos assms(7,8)] .
  have "fst (append_events (fe_now env) sid limit (fe_append env) (r_events r) st) = None"
    by (rule append_events_ok [OF assms(6) r(3) assms(4) pos(1) r(4)]) (use assms(5) in \<open>simp add: healthy_def\<close>)
  then show ?thesis using False r(1,2) by (auto simp: flush_events_def split: prod.splits)
qed (simp add: flush_events_def)

lemma flush_round_ok:
  assumes "store_tail sid T st" "tail_of h T" "list_all recordable (live h)" "h_max h \<le> limit"
    "length T < sql_limit" "healthy env"
  shows "fst (flush_round env sid limit h h st) = FlushDone"
proof -
  have wf: "output_wf sid st" "out_hi sid st \<le> length T" using assms(1) by (auto simp: store_tail_def)
  have h: "hist_inv h" "h_latest h = length T" "h_earliest h \<le> length T"
    using assms(2) hist_earliest_le [of h] by (auto simp: tail_of_def hist_inv_pre)
  have ob: "output_bounds sid st = Inr (out_lo sid st, out_hi sid st)"
    by (rule output_wfE [OF wf(1)]) (simp add: output_bounds_def)
  have hl: "h_latest h < sql_limit" using h(2) assms(5) by simp
  have env: "fe_bounds env = Healthy" "fe_advance env = Healthy" using assms(6) by (auto simp: healthy_def)
  note ok = flush_events_ok [OF h(1) assms(3,4) hl assms(6)]
  show ?thesis
  proof (cases "out_hi sid st < h_earliest h")
    case False
    then show ?thesis using ok [OF wf(1)] wf(2) h(2) env(1) ob by (simp add: flush_round_def with_fault_def)
  next
    case True
    obtain st1 where a: "advance_output (fe_now env) sid (out_hi sid st) (h_earliest h) st = (Inr (), st1)"
      by (rule output_wfE [OF wf(1)]) (use True h(3) assms(5) in \<open>simp add: advance_output_def\<close>)
    from advance_output_ok [OF wf(1) a] have s1: "output_wf sid st1" "out_hi sid st1 = h_earliest h" by auto
    show ?thesis using ok [OF s1(1)] s1(2) h(2,3) True env a ob by (simp add: flush_round_def with_fault_def)
  qed
qed

subsection \<open>Properties\<close>

text \<open>Rounds of a flush, while the stream grows from \<open>T\<close> to \<open>T'\<close>.\<close>

inductive grows :: "bytes \<Rightarrow> (flush_env \<times> history \<times> history) list \<Rightarrow> bytes \<Rightarrow> bool" where
  no_round: "grows T [] T"
| one_round: "tail_of h (T @ a) \<Longrightarrow> tail_of h' (T @ a @ b) \<Longrightarrow> grows (T @ a @ b) rounds T' \<Longrightarrow>
    grows T ((env, h, h') # rounds) T'"

inductive_cases grows_ConsE: "grows T ((env, h, h') # rounds) T'"

lemma grows_extends: "grows T rounds T' \<Longrightarrow> \<exists>d. T' = T @ d"
  by (induction rule: grows.induct) auto


text \<open>
  C16: A flush completes.  When no store call fails and the history does not change, the first
  round of the flush is its last: it reports success, and the store's range ends where the
  stream ends.
\<close>
theorem flush_completes:
  assumes "store_tail sid T st" "tail_of h T" "list_all recordable (live h)" "h_max h \<le> limit"
    "length T < sql_limit" "healthy env"
  shows "\<exists>st'. flush ((env, h, h) # rounds) sid limit st = Some (None, st') \<and> store_tail sid T st' \<and>
    out_hi sid st' = length T"
proof -
  obtain st' where r: "flush_round env sid limit h h st = (FlushDone, st')"
    using flush_round_ok [OF assms] by (metis prod.collapse)
  have "tail_of h (T @ [])" using assms(2) by simp
  from flush_round_tail [OF assms(1,2) this r] have "store_tail sid T st'" "length T \<le> out_hi sid st'" by auto
  then show ?thesis using r by (auto simp: store_tail_def)
qed

definition sample_tail :: history where
  "sample_tail = \<lparr>h_max = 8, h_bytes = 4, h_earliest = 2, h_latest = 6,
     h_events = [\<lparr>channel = 1, start_seq = 2, end_seq = 5, ev_data = [1, 2, 3]\<rparr>,
       \<lparr>channel = 1, start_seq = 5, end_seq = 6, ev_data = [9]\<rparr>], h_head = 0, h_acks = []\<rparr>"

definition sample_env :: flush_env where
  "sample_env = \<lparr>fe_now = 7, fe_bounds = Healthy, fe_advance = Healthy, fe_append = []\<rparr>"

lemma sample_flush:
  "store_tail ''s1'' [0, 0, 1, 2, 3, 9] sample_store" "tail_of sample_tail [0, 0, 1, 2, 3, 9]"
  "list_all recordable (live sample_tail)" "healthy sample_env" "h_max sample_tail = 8"
  by (simp_all add: store_tail_def sample_store_wf tail_of_def sample_tail_def hist_inv_def content_def live_def
      u64_limit_def recordable_def healthy_def sample_env_def)


theorem flush_completes_witness:
  "\<exists>st'. flush [(sample_env, sample_tail, sample_tail)] ''s1'' 8 sample_store = Some (None, st') \<and>
     out_hi ''s1'' st' = 6"
  using flush_completes [OF sample_flush(1,2,3) _ _ sample_flush(4), of 8 "[]"]
  by (auto simp: sample_flush(5) sql_limit_def)

end
