(* ===== verification/Session_Lifecycle.thy ===== *)
theory Session_Lifecycle
  imports Output_Persistence
begin

section \<open>Creating, closing, restarting and recovering sessions\<close>

text \<open>
  Model of the lifecycle operations of \<open>src/internal/session/manager.go\<close>: \<open>NewManager\<close>,
  \<open>recover\<close>, \<open>Create\<close>, \<open>Close\<close>, \<open>finishClosing\<close>, \<open>Restart\<close>, \<open>Delete\<close>, \<open>capture\<close>,
  \<open>Shutdown\<close>, \<open>ShutdownForRecovery\<close>, \<open>Snapshot\<close>, \<open>List\<close> and \<open>ResourceCounts\<close>.

  The capture goroutine of a process is three operations: \<open>session_capture\<close> (one chunk of
  output, under \<open>opMu\<close>), the unlocked \<open>stop_output_persistence\<close> when the output ends, and
  \<open>capture_finish\<close> (under \<open>opMu\<close>).  The goroutines that \<open>Shutdown\<close> starts act on
  different sessions and are run one after the other; its early return when the context
  ends is not modelled.  One clock reading is used per operation.
\<close>

definition valid_name_char :: "char \<Rightarrow> bool" where
  "valid_name_char c \<longleftrightarrow>
     lower_alnum c \<or> c = CHR ''-'' \<or> c = CHR ''_''"

definition valid_session_name :: "string \<Rightarrow> bool" where
  "valid_session_name name \<longleftrightarrow>
     1 \<le> length name \<and> length name \<le> 64 \<and> list_all valid_name_char name \<and> take 1 name \<noteq> ''-''"

definition random_id :: "bytes \<Rightarrow> string" where
  "random_id bs = ''ses_'' @ hex_string bs"

text \<open>The loop that draws an id: each attempt reads sixteen random bytes or fails.\<close>

fun draw_id :: "nat \<Rightarrow> managed_session gomap \<Rightarrow> bytes option list \<Rightarrow> manager_error + string" where
  "draw_id 0 ss rnd = Inl ErrSessionExists"
| "draw_id (Suc n) ss rnd =
     (case rnd of
        Some bs # rnd' \<Rightarrow>
          if map_of ss (random_id bs) = None then Inr (random_id bs) else draw_id n ss rnd'
      | _ \<Rightarrow> Inl MgrRandom)"

definition choose_id :: "managed_session gomap \<Rightarrow> string \<Rightarrow> bytes option list \<Rightarrow> manager_error + string" where
  "choose_id ss requested rnd =
     (if requested \<noteq> [] then if map_of ss requested \<noteq> None then Inl ErrSessionExists else Inr requested
      else draw_id 8 ss rnd)"

definition step_to :: "session_state \<Rightarrow> managed_session \<Rightarrow> manager_error + managed_session" where
  "step_to q s = (case transition (ms_lifecycle s) q of Inl _ \<Rightarrow> Inl MgrTransition | Inr l \<Rightarrow> Inr (s\<lparr>ms_lifecycle := l\<rparr>))"

definition step_quietly :: "session_state \<Rightarrow> managed_session \<Rightarrow> managed_session" where
  "step_quietly q s = (case step_to q s of Inl _ \<Rightarrow> s | Inr s' \<Rightarrow> s')"

definition blank_session :: "string \<Rightarrow> string \<Rightarrow> pty_command \<Rightarrow> history \<Rightarrow> managed_session" where
  "blank_session sid name command h =
     \<lparr>ms_id = sid, ms_name = name, ms_command = command, ms_lifecycle = new_lifecycle, ms_history = h,
      ms_fanout = new_fanout, ms_inputs = new_input_journal 0 0, ms_process = None, ms_live = None, ms_exit = None,
      ms_resize_id = [], ms_resize_time = 0, ms_worker = None, ms_persist_err = None\<rparr>"

definition creating_row :: "string \<Rightarrow> string \<Rightarrow> pty_command \<Rightarrow> session_row" where
  "creating_row sid name command =
     \<lparr>sr_id = sid, sr_name = name, sr_cwd = pc_cwd command, sr_path = pc_path command, sr_args = pc_args command,
      sr_env = pc_env command, sr_columns = dim_columns (pc_dims command), sr_rows = dim_rows (pc_dims command),
      sr_state = state_name Creating, sr_generation = 0, sr_exit_code = None, sr_exit_signal = [],
      sr_exited_at = None, sr_earliest = 0, sr_latest = 0, sr_created = None, sr_updated = None\<rparr>"

definition discard_failed_create ::
    "int \<Rightarrow> fault \<Rightarrow> fault \<Rightarrow> managed_session \<Rightarrow> session_state \<Rightarrow> store option \<Rightarrow> store option" where
  "discard_failed_create now flt flt' s expected sto =
     snd (on_store flt' (delete_session (ms_id s)) () (snd (persist now flt s expected sto)))"

text \<open>A session whose process runs: what \<open>Create\<close> and \<open>Restart\<close> set once the launch succeeded.\<close>

definition run_process :: "process \<Rightarrow> input_journal \<Rightarrow> store option \<Rightarrow> managed_session \<Rightarrow> managed_session" where
  "run_process p inputs sto s =
     start_output_persistence
       (s\<lparr>ms_inputs := inputs, ms_process := Some p,
          ms_live := Some (p, l_generation (ms_lifecycle s))\<rparr>) sto"

record create_env =
  cr_now :: int
  cr_cancelled :: bool
  cr_random :: "bytes option list"
  cr_insert :: fault
  cr_launch :: "process option"
  cr_persist :: fault
  cr_discard :: fault
  cr_delete :: fault

definition launch_created ::
    "create_env \<Rightarrow> manager \<Rightarrow> managed_session \<Rightarrow> store option \<Rightarrow> (manager_error + snapshot) \<times> manager" where
  "launch_created env m s sto =
     (case cr_launch env of
        None \<Rightarrow>
          (Inl MgrProcess,
           m\<lparr>mg_store := discard_failed_create (cr_now env) (cr_discard env) (cr_delete env) (step_quietly Closed s) Creating sto\<rparr>)
      | Some p \<Rightarrow>
          (case step_to Running s of
             Inl e \<Rightarrow> (Inl e, m\<lparr>mg_store := sto\<rparr>)
           | Inr s1 \<Rightarrow>
               (case persist (cr_now env) (cr_persist env) s1 Creating sto of
                  (Inl e, sto1) \<Rightarrow>
                    (Inl (MgrStore e),
                     m\<lparr>mg_store := discard_failed_create (cr_now env) (cr_discard env) (cr_delete env) s1 Creating sto1\<rparr>)
                | (Inr _, sto1) \<Rightarrow>
                    let s2 = run_process p (new_input_journal (l_generation (ms_lifecycle s1)) (nat (mc_max_inputs (mg_config m)))) sto1 s1
                    in (Inr (snapshot_locked s2),
                        m\<lparr>mg_sessions := AList.update (ms_id s) s2 (mg_sessions m),
                          mg_names := AList.update (ms_name s) (ms_id s) (mg_names m), mg_store := sto1\<rparr>))))"

definition manager_create ::
    "create_env \<Rightarrow> manager \<Rightarrow> string \<Rightarrow> string \<Rightarrow> pty_command \<Rightarrow> (manager_error + snapshot) \<times> manager" where
  "manager_create env m requested name command =
     (if \<not> valid_session_name name then (Inl ErrInvalidSession, m)
      else if cr_cancelled env then (Inl MgrContext, m)
      else if mg_stopping m then (Inl ErrManagerStopped, m)
      else if int (length (mg_sessions m)) \<ge> mc_max_sessions (mg_config m) then (Inl ErrResourceLimit, m)
      else if map_of (mg_names m) name \<noteq> None then (Inl ErrSessionExists, m)
      else case choose_id (mg_sessions m) requested (cr_random env) of
        Inl e \<Rightarrow> (Inl e, m)
      | Inr sid \<Rightarrow>
          (case new_history (mc_history_bytes (mg_config m)) of
             Inl e \<Rightarrow> (Inl (MgrHistory e), m)
           | Inr h \<Rightarrow>
               (case on_store (cr_insert env) (create_session (cr_now env) (creating_row sid name command)) () (mg_store m) of
                  (Inl e, sto) \<Rightarrow> (Inl (MgrStore e), m\<lparr>mg_store := sto\<rparr>)
                | (Inr _, sto) \<Rightarrow> launch_created env m (blank_session sid name command h) sto)))"

subsection \<open>Closing\<close>

text \<open>
  What \<open>Terminate\<close> answers: the exit result, an error that ends the session all the same,
  or the end of its context.  \<open>Close\<close> may return a snapshot together with an error; the
  errors it joins are a list.  The third result says that \<open>finishClosing\<close> was started.
\<close>

datatype term_outcome = Terminated exit_result | TerminateFailed exit_result | TerminateTimeout

record close_env =
  cl_now :: int
  cl_cancelled :: bool
  cl_closing :: fault
  cl_term :: term_outcome
  cl_closed :: fault

type_synonym close_result = "manager_error list \<times> snapshot option \<times> process option"

definition closed_with :: "exit_result \<Rightarrow> managed_session \<Rightarrow> managed_session" where
  "closed_with result s = s\<lparr>ms_live := None, ms_exit := Some result, ms_process := None\<rparr>"

definition store_errors :: "(store_error + unit) \<Rightarrow> manager_error list" where
  "store_errors r = (case r of Inl e \<Rightarrow> [MgrStore e] | Inr _ \<Rightarrow> [])"

text \<open>The part of \<open>Close\<close> that terminates the process of a session that is closing.\<close>

definition close_process ::
    "close_env \<Rightarrow> process \<Rightarrow> managed_session \<Rightarrow> store option \<Rightarrow> close_result \<times> managed_session \<times> store option" where
  "close_process env p s sto =
     (let finish = (\<lambda>result errs.
        case step_to Closed (closed_with result s) of
          Inl e \<Rightarrow> ((errs @ [e], None, None), closed_with result s, sto)
        | Inr s' \<Rightarrow>
            (case persist (cl_now env) (cl_closed env) s' Closing sto of
               (Inl e, sto') \<Rightarrow> ((errs @ [MgrStore e], None, None), s', sto')
             | (Inr _, sto') \<Rightarrow> ((errs, Some (snapshot_locked s'), None), s', sto')))
      in case cl_term env of
           TerminateTimeout \<Rightarrow> (([MgrContext], Some (snapshot_locked s), Some p), s, sto)
         | Terminated result \<Rightarrow> finish result []
         | TerminateFailed result \<Rightarrow> finish result [MgrProcess])"

text \<open>\<open>Close\<close> of a session that has exited by itself: two transitions and one record.\<close>

definition close_exited ::
    "close_env \<Rightarrow> managed_session \<Rightarrow> store option \<Rightarrow> close_result \<times> managed_session \<times> store option" where
  "close_exited env s sto =
     (case step_to Closing s of
        Inl e \<Rightarrow> (([e], None, None), s, sto)
      | Inr s1 \<Rightarrow>
          (case step_to Closed s1 of
             Inl e \<Rightarrow> (([e], None, None), s1, sto)
           | Inr s2 \<Rightarrow>
               (case persist (cl_now env) (cl_closed env) s2 Exited sto of
                  (Inl e, sto') \<Rightarrow> (([MgrStore e], None, None), s2, sto')
                | (Inr _, sto') \<Rightarrow> (([], Some (snapshot_locked s2), None), s2, sto'))))"

text \<open>When the record of \<open>Closing\<close> fails, the process is killed and the session closed in memory.\<close>

definition close_running ::
    "close_env \<Rightarrow> process \<Rightarrow> managed_session \<Rightarrow> store option \<Rightarrow> close_result \<times> managed_session \<times> store option" where
  "close_running env p s sto =
     (let s0 = s\<lparr>ms_live := None\<rparr>
      in case step_to Closing s0 of
           Inl e \<Rightarrow> (([e], None, None), s0, sto)
         | Inr s1 \<Rightarrow>
             (case persist (cl_now env) (cl_closing env) s1 Running sto of
                (Inl e, sto') \<Rightarrow>
                  let result = (case cl_term env of Terminated r \<Rightarrow> r | TerminateFailed r \<Rightarrow> r
                                | TerminateTimeout \<Rightarrow> \<lparr>ex_code = 0, ex_signal = [], ex_at = 0\<rparr>)
                  in (([MgrStore e], None, None),
                      step_quietly Closed (s1\<lparr>ms_exit := Some result, ms_process := None\<rparr>), sto')
              | (Inr _, sto') \<Rightarrow> close_process env p s1 sto'))"

definition session_close ::
    "close_env \<Rightarrow> managed_session \<Rightarrow> store option \<Rightarrow> close_result \<times> managed_session \<times> store option" where
  "session_close env s sto =
     (let q = l_state (ms_lifecycle s)
      in if q = Closed then (([], Some (snapshot_locked s), None), s, sto)
         else if q = Exited then close_exited env s sto
         else case ms_process s of
           None \<Rightarrow> (([ErrSessionRunning], None, None), s, sto)
         | Some p \<Rightarrow>
             if q = Running then close_running env p s sto
             else if q = Closing then close_process env p s sto
             else (([ErrSessionRunning], None, None), s, sto))"

definition manager_close :: "close_env \<Rightarrow> manager \<Rightarrow> string \<Rightarrow> close_result \<times> manager" where
  "manager_close env m sid =
     (if cl_cancelled env then (([MgrContext], None, None), m)
      else case get_session m sid of
        Inl e \<Rightarrow> (([e], None, None), m)
      | Inr s \<Rightarrow> (case session_close env s (mg_store m) of (r, s', sto) \<Rightarrow> (r, put_session m sid s' sto)))"

definition finish_closing ::
    "close_env \<Rightarrow> process \<Rightarrow> managed_session \<Rightarrow> store option \<Rightarrow> managed_session \<times> store option" where
  "finish_closing env p s sto =
     (if l_state (ms_lifecycle s) \<noteq> Closing \<or> ms_process s \<noteq> Some p then (s, sto)
      else case cl_term env of
        Terminated result \<Rightarrow>
          (case step_to Closed (s\<lparr>ms_exit := Some result, ms_process := None\<rparr>) of
             Inl _ \<Rightarrow> (s\<lparr>ms_exit := Some result, ms_process := None\<rparr>, sto)
           | Inr s' \<Rightarrow> (s', snd (persist (cl_now env) (cl_closed env) s' Closing sto)))
      | _ \<Rightarrow> (s, sto))"

subsection \<open>Restarting and deleting\<close>

record restart_env =
  re_now :: int
  re_restarting :: fault
  re_launch :: "process option"
  re_running :: fault

definition relaunch ::
    "restart_env \<Rightarrow> managed_session \<Rightarrow> store option \<Rightarrow> (manager_error + snapshot) \<times> managed_session \<times> store option" where
  "relaunch env s sto =
     (case re_launch env of
        None \<Rightarrow>
          let s' = step_quietly Closed s
          in (Inl MgrProcess, s', snd (persist (re_now env) (re_running env) s' Restarting sto))
      | Some p \<Rightarrow>
          (case step_to Running s of
             Inl e \<Rightarrow> (Inl e, s, sto)
           | Inr s1 \<Rightarrow>
               let s2 = run_process p (set_generation (ms_inputs s1) (l_generation (ms_lifecycle s1))) sto (s1\<lparr>ms_exit := None\<rparr>)
               in case persist (re_now env) (re_running env) s2 Restarting sto of
                    (Inl e, sto') \<Rightarrow>
                      (Inl (MgrStore e), step_quietly Exited (s2\<lparr>ms_live := None, ms_process := None\<rparr>), sto')
                  | (Inr _, sto') \<Rightarrow> (Inr (snapshot_locked s2), s2, sto')))"

definition session_restart ::
    "restart_env \<Rightarrow> managed_session \<Rightarrow> store option \<Rightarrow> (manager_error + snapshot) \<times> managed_session \<times> store option" where
  "session_restart env s sto =
     (let q = l_state (ms_lifecycle s)
      in if q \<noteq> Exited \<and> q \<noteq> Closed then (Inl ErrSessionRunning, s, sto)
         else case step_to Restarting s of
           Inl e \<Rightarrow> (Inl e, s, sto)
         | Inr s1 \<Rightarrow>
             (case persist (re_now env) (re_restarting env) s1 q sto of
                (Inl e, sto') \<Rightarrow> (Inl (MgrStore e), step_quietly Closed s1, sto')
              | (Inr _, sto') \<Rightarrow> relaunch env s1 sto'))"

definition manager_restart :: "restart_env \<Rightarrow> manager \<Rightarrow> string \<Rightarrow> (manager_error + snapshot) \<times> manager" where
  "manager_restart env m sid =
     (case get_session m sid of
        Inl e \<Rightarrow> (Inl e, m)
      | Inr s \<Rightarrow> (case session_restart env s (mg_store m) of (r, s', sto) \<Rightarrow> (r, put_session m sid s' sto)))"

definition manager_delete :: "fault \<Rightarrow> manager \<Rightarrow> string \<Rightarrow> (manager_error + unit) \<times> manager" where
  "manager_delete flt m sid =
     (case get_session m sid of
        Inl e \<Rightarrow> (Inl e, m)
      | Inr s \<Rightarrow>
          if l_state (ms_lifecycle s) \<noteq> Exited \<and> l_state (ms_lifecycle s) \<noteq> Closed then (Inl ErrSessionRunning, m)
          else case on_store flt (delete_session sid) () (mg_store m) of
            (Inl e, sto) \<Rightarrow> (Inl (MgrStore e), m\<lparr>mg_store := sto\<rparr>)
          | (Inr _, sto) \<Rightarrow>
              (case step_to Deleted s of
                 Inl e \<Rightarrow> (Inl e, m\<lparr>mg_store := sto\<rparr>)
               | Inr _ \<Rightarrow> (Inr (), m\<lparr>mg_sessions := AList.delete sid (mg_sessions m),
                                     mg_names := AList.delete (ms_name s) (mg_names m), mg_store := sto\<rparr>)))"

subsection \<open>The capture goroutine\<close>

definition session_capture :: "managed_session \<Rightarrow> bytes \<Rightarrow> managed_session" where
  "session_capture s data =
     (if data = [] then s
      else case capture_output (ms_history s) (ms_fanout s) data of
        (Inl _, h, f) \<Rightarrow> s\<lparr>ms_history := h, ms_fanout := f\<rparr>
      | (Inr _, h, f) \<Rightarrow> queue_output_persistence (s\<lparr>ms_history := h, ms_fanout := f\<rparr>))"

definition manager_capture :: "manager \<Rightarrow> string \<Rightarrow> bytes \<Rightarrow> manager" where
  "manager_capture m sid data =
     (case get_session m sid of Inl _ \<Rightarrow> m | Inr s \<Rightarrow> put_session m sid (session_capture s data) (mg_store m))"

definition capture_finish ::
    "int \<Rightarrow> process \<Rightarrow> manager_error option \<Rightarrow> exit_result \<Rightarrow> fault \<Rightarrow> managed_session \<Rightarrow> store option \<Rightarrow>
     managed_session \<times> store option" where
  "capture_finish now p persist_err result flt s sto =
     (if ms_process s \<noteq> Some p then (s, sto)
      else
        let s1 = s\<lparr>ms_persist_err := persist_err\<rparr>
        in if l_state (ms_lifecycle s1) = Running
           then let s2 = (step_quietly Exited s1)\<lparr>ms_exit := Some result, ms_live := None, ms_process := None\<rparr>
                in (s2, snd (persist now flt s2 Running sto))
           else (s1, sto))"

subsection \<open>Observing\<close>

definition manager_snapshot :: "manager \<Rightarrow> string \<Rightarrow> manager_error + snapshot" where
  "manager_snapshot m sid = (case get_session m sid of Inl e \<Rightarrow> Inl e | Inr s \<Rightarrow> Inr (snapshot_locked s))"

definition manager_list :: "manager \<Rightarrow> snapshot list" where
  "manager_list m = sort_key sn_name (map (snapshot_locked \<circ> snd) (mg_sessions m))"

definition resource_counts :: "manager \<Rightarrow> nat \<times> nat \<times> nat" where
  "resource_counts m =
     (length (mg_sessions m),
      sum_list (map (\<lambda>(_, s). fanout_count (ms_fanout s)) (mg_sessions m)),
      length (filter (\<lambda>(_, s). ms_process s \<noteq> None) (mg_sessions m)))"

subsection \<open>Shutting down\<close>

fun close_all :: "(string \<Rightarrow> close_env) \<Rightarrow> string list \<Rightarrow> manager \<Rightarrow> manager_error list \<times> manager" where
  "close_all env [] m = ([], m)"
| "close_all env (sid # sids) m =
     (case manager_close (env sid) m sid of
        ((errs, _, _), m1) \<Rightarrow>
          (case close_all env sids m1 of
             (errs', m2) \<Rightarrow> ((if errs = [ErrSessionRunning] then [] else errs) @ errs', m2)))"

definition manager_shutdown :: "(string \<Rightarrow> close_env) \<Rightarrow> manager \<Rightarrow> manager_error list \<times> manager" where
  "manager_shutdown env m =
     (if mg_stopping m then ([], m)
      else close_all env (map fst (mg_sessions m)) (m\<lparr>mg_stopping := True\<rparr>))"

text \<open>The loop of \<open>ShutdownForRecovery\<close> that puts the recoverable state back into the record.\<close>

definition recoverable_record :: "managed_session \<Rightarrow> session_state \<Rightarrow> session_row" where
  "recoverable_record s original =
     (store_record_locked s)\<lparr>sr_state := state_name original, sr_exit_code := None, sr_exit_signal := [], sr_exited_at := None\<rparr>"

fun put_recoverable ::
    "int \<Rightarrow> (string \<Rightarrow> fault) \<Rightarrow> (string \<times> session_state) list \<Rightarrow> manager \<Rightarrow> manager_error list \<times> manager" where
  "put_recoverable now flt [] m = ([], m)"
| "put_recoverable now flt ((sid, original) # rest) m =
     (case get_session m sid of
        Inl e \<Rightarrow> (case put_recoverable now flt rest m of (errs, m') \<Rightarrow> (e # errs, m'))
      | Inr s \<Rightarrow>
          if l_state (ms_lifecycle s) \<noteq> Closed
          then (case put_recoverable now flt rest m of (errs, m') \<Rightarrow> (MgrTransition # errs, m'))
          else (case on_store (flt sid) (update_session now sid (state_name Closed) (recoverable_record s original)) ()
                       (mg_store m) of
                  (r, sto) \<Rightarrow>
                    (case put_recoverable now flt rest (m\<lparr>mg_store := sto\<rparr>) of
                       (errs, m') \<Rightarrow> (store_errors r @ errs, m'))))"

definition recoverable :: "manager \<Rightarrow> (string \<times> session_state) list" where
  "recoverable m =
     map (\<lambda>(sid, s). (sid, l_state (ms_lifecycle s)))
       (filter (\<lambda>(sid, s). l_state (ms_lifecycle s) = Running \<or> l_state (ms_lifecycle s) = Restarting) (mg_sessions m))"

definition shutdown_for_recovery ::
    "int \<Rightarrow> (string \<Rightarrow> close_env) \<Rightarrow> (string \<Rightarrow> fault) \<Rightarrow> manager \<Rightarrow> manager_error list \<times> manager" where
  "shutdown_for_recovery now env flt m =
     (case manager_shutdown env m of
        (errs, m1) \<Rightarrow>
          if mg_store m1 = None then (errs, m1)
          else (case put_recoverable now flt (recoverable m) m1 of (errs', m2) \<Rightarrow> (errs @ errs', m2)))"

subsection \<open>Recovering\<close>

record recover_env =
  rc_now :: int
  rc_update :: fault
  rc_trim :: fault
  rc_replay :: fault
  rc_inputs :: fault

text \<open>The \<open>switch\<close> of \<open>recover\<close>: the state a stored session resumes in, and its record.\<close>

definition recovered_record :: "int \<Rightarrow> string \<Rightarrow> session_row \<Rightarrow> manager_error + session_row" where
  "recovered_record now signal r =
     (case parse_state (sr_state r) of
        Some Creating \<Rightarrow> Inr (r\<lparr>sr_state := state_name Closed\<rparr>)
      | Some Running \<Rightarrow> Inr (r\<lparr>sr_state := state_name Exited, sr_exit_code := Some 255, sr_exit_signal := signal, sr_exited_at := Some now\<rparr>)
      | Some Restarting \<Rightarrow> Inr (r\<lparr>sr_state := state_name Exited, sr_exit_code := Some 255, sr_exit_signal := signal, sr_exited_at := Some now\<rparr>)
      | Some Closing \<Rightarrow> Inr (r\<lparr>sr_state := state_name Closed\<rparr>)
      | Some Exited \<Rightarrow> Inr r
      | Some Closed \<Rightarrow> Inr r
      | _ \<Rightarrow> Inl ErrInvalidSession)"

fun restore_inputs :: "input_journal \<Rightarrow> (input_key \<times> input_row) list \<Rightarrow> manager_error + input_journal" where
  "restore_inputs j [] = Inr j"
| "restore_inputs j ((key, row) # rows) =
     (case input_restore j key (ir_hash row) (ir_status row) (ir_written row) (ir_error row) of
        Inl e \<Rightarrow> Inl (MgrInput e)
      | Inr j' \<Rightarrow> restore_inputs j' rows)"

definition row_command :: "session_row \<Rightarrow> pty_command" where
  "row_command r = \<lparr>pc_path = sr_path r, pc_args = sr_args r, pc_env = sr_env r, pc_cwd = sr_cwd r,
     pc_dims = \<lparr>dim_columns = sr_columns r, dim_rows = sr_rows r\<rparr>\<rparr>"

definition row_exit :: "session_row \<Rightarrow> exit_result option" where
  "row_exit r =
     (case sr_exit_code r of
        None \<Rightarrow> None
      | Some c \<Rightarrow> Some \<lparr>ex_code = c, ex_signal = sr_exit_signal r,
                      ex_at = (case sr_exited_at r of None \<Rightarrow> 0 | Some t \<Rightarrow> t)\<rparr>)"

text \<open>The session built from a record, once its output has been trimmed and read back.\<close>

definition recovered_session ::
    "manager_config \<Rightarrow> session_row \<Rightarrow> event list \<times> nat \<times> nat \<Rightarrow> (store_error + (input_key \<times> input_row) list) \<Rightarrow>
     manager_error + managed_session" where
  "recovered_session cfg r out decisions =
     (case out of
        (evs, earliest, latest) \<Rightarrow>
          (case restore (mc_history_bytes cfg) earliest latest evs of
             Inl e \<Rightarrow> Inl (MgrHistory e)
           | Inr h \<Rightarrow>
               (case recover_lifecycle (sr_state r) (sr_generation r) of
                  Inl _ \<Rightarrow> Inl MgrTransition
                | Inr l \<Rightarrow>
                    (case decisions of
                       Inl e \<Rightarrow> Inl (MgrStore e)
                     | Inr ds \<Rightarrow>
                         (case restore_inputs (new_input_journal (sr_generation r) (nat (mc_max_inputs cfg))) ds of
                            Inl e \<Rightarrow> Inl e
                          | Inr j \<Rightarrow>
                              Inr ((blank_session (sr_id r) (sr_name r) (row_command r) h)
                                \<lparr>ms_lifecycle := l, ms_inputs := j, ms_exit := row_exit r\<rparr>))))))"

definition reads :: "(store \<Rightarrow> store_error + 'a) \<Rightarrow> store \<Rightarrow> (store_error + 'a) \<times> store" where
  "reads q st = (q st, st)"

definition read_back ::
    "recover_env \<Rightarrow> manager_config \<Rightarrow> session_row \<Rightarrow> store \<Rightarrow> (manager_error + managed_session) \<times> store" where
  "read_back env cfg r st =
     (case with_fault (rc_trim env) (trim_output (sr_id r) (mc_history_bytes cfg)) st of
        (Inl e, st1) \<Rightarrow> (Inl (MgrStore e), st1)
      | (Inr earliest, st1) \<Rightarrow>
          (case with_fault (rc_replay env) (reads (store_replay (sr_id r) earliest 0)) st1 of
             (Inl e, st2) \<Rightarrow> (Inl (MgrStore e), st2)
           | (Inr out, st2) \<Rightarrow>
               (recovered_session cfg r out
                  (fst (with_fault (rc_inputs env) (reads (\<lambda>st. Inr (input_decisions (sr_id r) st))) st2)), st2)))"

definition recover_row ::
    "recover_env \<Rightarrow> manager_config \<Rightarrow> session_row \<Rightarrow> store \<Rightarrow> (manager_error + managed_session) \<times> store" where
  "recover_row env cfg r st =
     (case recovered_record (rc_now env) (mc_recovery_signal cfg) r of
        Inl e \<Rightarrow> (Inl e, st)
      | Inr r' \<Rightarrow>
          if sr_state r' \<noteq> sr_state r
          then (case with_fault (rc_update env) (update_session (rc_now env) (sr_id r) (sr_state r) r') st of
                  (Inl e, st1) \<Rightarrow> (Inl (MgrStore e), st1)
                | (Inr _, st1) \<Rightarrow> read_back env cfg r' st1)
          else read_back env cfg r' st)"

fun recover_rows ::
    "(string \<Rightarrow> recover_env) \<Rightarrow> session_row list \<Rightarrow> manager \<Rightarrow> store \<Rightarrow> (manager_error + manager) \<times> store" where
  "recover_rows env [] m st = (Inr m, st)"
| "recover_rows env (r # rs) m st =
     (case recover_row (env (sr_id r)) (mg_config m) r st of
        (Inl e, st') \<Rightarrow> (Inl e, st')
      | (Inr s, st') \<Rightarrow>
          if map_of (mg_sessions m) (sr_id r) \<noteq> None
             \<or> (case map_of (mg_names m) (sr_name r) of None \<Rightarrow> False | Some sid \<Rightarrow> sid \<noteq> [])
          then (Inl ErrInvalidSession, st')
          else recover_rows env rs
                 (m\<lparr>mg_sessions := AList.update (sr_id r) s (mg_sessions m),
                    mg_names := AList.update (sr_name r) (sr_id r) (mg_names m)\<rparr>) st')"

definition with_defaults :: "manager_config \<Rightarrow> manager_config" where
  "with_defaults c =
     \<lparr>mc_history_bytes = (if mc_history_bytes c = 0 then 65536 else mc_history_bytes c),
      mc_attachment_bytes = (if mc_attachment_bytes c = 0 then 1048576 else mc_attachment_bytes c),
      mc_timeout = (if mc_timeout c = 0 then 10000000000 else mc_timeout c),
      mc_grace = (if mc_grace c = 0 then 2000000000 else mc_grace c),
      mc_max_sessions = (if mc_max_sessions c = 0 then 64 else mc_max_sessions c),
      mc_max_attachments = (if mc_max_attachments c = 0 then 16 else mc_max_attachments c),
      mc_max_inputs = (if mc_max_inputs c = 0 then 10000 else mc_max_inputs c),
      mc_recovery_signal = (if mc_recovery_signal c = [] then ''helper_restart'' else mc_recovery_signal c)\<rparr>"

definition valid_config :: "manager_config \<Rightarrow> bool" where
  "valid_config c \<longleftrightarrow>
     \<not> (mc_history_bytes c < 1 \<or> mc_attachment_bytes c < 1 \<or> mc_timeout c \<le> 0 \<or> mc_grace c < 0
        \<or> mc_grace c > mc_timeout c \<or> mc_max_sessions c < 1 \<or> mc_max_attachments c < 1 \<or> mc_max_inputs c < 1
        \<or> mc_recovery_signal c \<noteq> ''helper_restart'' \<and> mc_recovery_signal c \<noteq> ''machine_reboot'')"

text \<open>\<open>NewManager\<close>; the second result is the store it leaves behind.\<close>

definition new_manager ::
    "bool \<Rightarrow> fault \<Rightarrow> (string \<Rightarrow> recover_env) \<Rightarrow> manager_config \<Rightarrow> store option \<Rightarrow>
     (manager_error + manager) \<times> store option" where
  "new_manager has_launch flt env cfg sto =
     (let c = with_defaults cfg;
          m = \<lparr>mg_config = c, mg_sessions = [], mg_names = [], mg_stopping = False, mg_store = sto\<rparr>
      in if \<not> has_launch \<or> \<not> valid_config c then (Inl ErrInvalidSession, sto)
         else case sto of
           None \<Rightarrow> (Inr m, None)
         | Some st \<Rightarrow>
             (case with_fault flt (reads (\<lambda>st. Inr (all_sessions st))) st of
                (Inl e, st1) \<Rightarrow> (Inl (MgrStore e), Some st1)
              | (Inr rows, st1) \<Rightarrow>
                  (case recover_rows env rows m st1 of
                     (Inl e, st2) \<Rightarrow> (Inl e, Some st2)
                   | (Inr m', st2) \<Rightarrow> (Inr (m'\<lparr>mg_store := Some st2\<rparr>), Some st2))))"

end
