(* ===== verification/Session_Invariants.thy ===== *)
theory Session_Invariants
  imports Session_Lifecycle
begin

section \<open>Invariants of the session manager\<close>

text \<open>
  The session manager as a machine: one step per operation of \<open>src/internal/session/manager.go\<close>,
  with the answers of PTY, clock, store and random source as part of the step.  The
  invariant says of each session that its history and its input journal are well formed,
  that it has a process exactly while it runs or closes, that terminal input can reach that
  process exactly while it runs and under the current generation only, and of the manager
  that the two maps agree.
\<close>

definition process_ok :: "managed_session \<Rightarrow> bool" where
  "process_ok s \<longleftrightarrow>
     l_state (ms_lifecycle s) \<in> {Running, Closing, Exited, Closed} \<and>
     (ms_process s \<noteq> None \<longleftrightarrow> l_state (ms_lifecycle s) \<in> {Running, Closing}) \<and>
     ms_live s = (if l_state (ms_lifecycle s) = Running
                  then Some (the (ms_process s), l_generation (ms_lifecycle s)) else None)"

definition journals_ok :: "manager_config \<Rightarrow> managed_session \<Rightarrow> bool" where
  "journals_ok cfg s \<longleftrightarrow>
     hist_inv (ms_history s) \<and> h_max (ms_history s) = mc_history_bytes cfg \<and> list_all recordable (live (ms_history s)) \<and>
     journal_inv (ms_inputs s) \<and> j_current (ms_inputs s) = l_generation (ms_lifecycle s) \<and>
     j_max (ms_inputs s) = nat (mc_max_inputs cfg)"

definition session_ok :: "manager_config \<Rightarrow> managed_session \<Rightarrow> bool" where
  "session_ok cfg s \<longleftrightarrow> process_ok s \<and> journals_ok cfg s"

definition maps_ok :: "manager \<Rightarrow> bool" where
  "maps_ok m \<longleftrightarrow>
     keys_distinct (mg_sessions m) \<and> keys_distinct (mg_names m) \<and>
     (\<forall>sid s. map_of (mg_sessions m) sid = Some s \<longrightarrow> ms_id s = sid \<and> map_of (mg_names m) (ms_name s) = Some sid) \<and>
     (\<forall>name sid. map_of (mg_names m) name = Some sid \<longrightarrow>
        (\<exists>s. map_of (mg_sessions m) sid = Some s \<and> ms_name s = name))"

definition manager_ok :: "manager \<Rightarrow> bool" where
  "manager_ok m \<longleftrightarrow>
     maps_ok m \<and> valid_config (mg_config m) \<and>
     (\<forall>sid s. map_of (mg_sessions m) sid = Some s \<longrightarrow> session_ok (mg_config m) s)"

lemma manager_okI:
  "maps_ok m \<Longrightarrow> valid_config (mg_config m) \<Longrightarrow>
   (\<And>sid s. map_of (mg_sessions m) sid = Some s \<Longrightarrow> session_ok (mg_config m) s) \<Longrightarrow> manager_ok m"
  by (simp add: manager_ok_def)

lemma manager_ok_get:
  assumes "manager_ok m" "get_session m sid = Inr s"
  shows "map_of (mg_sessions m) sid = Some s" "session_ok (mg_config m) s" "ms_id s = sid"
  using assms by (auto simp: manager_ok_def maps_ok_def get_session_def split: option.splits)

lemma manager_ok_put [inv_intros]:
  assumes "manager_ok m" "get_session m sid = Inr s" "session_ok (mg_config m) s'" "ms_id s' = ms_id s" "ms_name s' = ms_name s"
  shows "manager_ok (put_session m sid s' sto)"
proof (rule manager_okI)
  note g = manager_ok_get [OF assms(1,2)]
  show "maps_ok (put_session m sid s' sto)"
    using assms g unfolding manager_ok_def maps_ok_def put_session_def
    by (auto simp: map_of_update) (metis option.sel)+
  show "valid_config (mg_config (put_session m sid s' sto))"
    using assms(1) by (simp add: manager_ok_def put_session_def)
  fix k t
  assume "map_of (mg_sessions (put_session m sid s' sto)) k = Some t"
  then show "session_ok (mg_config (put_session m sid s' sto)) t"
    using assms(1,3) by (auto simp: manager_ok_def put_session_def split: if_splits)
qed

lemma manager_ok_store [inv_intros, simp]: "manager_ok (m\<lparr>mg_store := sto\<rparr>) = manager_ok m"
  by (simp add: manager_ok_def maps_ok_def)

lemma manager_ok_stopping [simp]: "manager_ok (m\<lparr>mg_stopping := b\<rparr>) = manager_ok m"
  by (simp add: manager_ok_def maps_ok_def)

subsection \<open>Transitions\<close>

lemma step_to_simps [simp]:
  "step_to q s = (if q \<in> set (transitions (l_state (ms_lifecycle s)))
     then Inr (s\<lparr>ms_lifecycle := \<lparr>l_state = q,
        l_generation = (if q = Running \<and> (l_state (ms_lifecycle s) = Creating \<or> l_state (ms_lifecycle s) = Restarting)
          then u64_add (l_generation (ms_lifecycle s)) 1 else l_generation (ms_lifecycle s))\<rparr>\<rparr>)
     else Inl MgrTransition)"
  by (simp add: step_to_def transition_def Let_def)

lemma step_quietly_simps [simp]:
  "step_quietly q s = (if q \<in> set (transitions (l_state (ms_lifecycle s)))
     then s\<lparr>ms_lifecycle := \<lparr>l_state = q,
        l_generation = (if q = Running \<and> (l_state (ms_lifecycle s) = Creating \<or> l_state (ms_lifecycle s) = Restarting)
          then u64_add (l_generation (ms_lifecycle s)) 1 else l_generation (ms_lifecycle s))\<rparr>\<rparr>
     else s)"
  by (simp add: step_quietly_def)

lemma journals_ok_frame [simp]:
  "journals_ok cfg (s\<lparr>ms_process := p\<rparr>) = journals_ok cfg s"
  "journals_ok cfg (s\<lparr>ms_live := lv\<rparr>) = journals_ok cfg s"
  "journals_ok cfg (s\<lparr>ms_exit := x\<rparr>) = journals_ok cfg s"
  "journals_ok cfg (s\<lparr>ms_fanout := f\<rparr>) = journals_ok cfg s"
  "journals_ok cfg (s\<lparr>ms_worker := w\<rparr>) = journals_ok cfg s"
  "journals_ok cfg (s\<lparr>ms_persist_err := e\<rparr>) = journals_ok cfg s"
  "journals_ok cfg (s\<lparr>ms_command := c\<rparr>) = journals_ok cfg s"
  "journals_ok cfg (s\<lparr>ms_resize_id := i\<rparr>) = journals_ok cfg s"
  "journals_ok cfg (s\<lparr>ms_resize_time := t\<rparr>) = journals_ok cfg s"
  "journals_ok cfg (s\<lparr>ms_lifecycle := \<lparr>l_state = q, l_generation = l_generation (ms_lifecycle s)\<rparr>\<rparr>) = journals_ok cfg s"
  by (simp_all add: journals_ok_def)

lemma process_ok_frame [simp]:
  "process_ok (s\<lparr>ms_exit := x\<rparr>) = process_ok s"
  "process_ok (s\<lparr>ms_fanout := f\<rparr>) = process_ok s"
  "process_ok (s\<lparr>ms_worker := w\<rparr>) = process_ok s"
  "process_ok (s\<lparr>ms_persist_err := e\<rparr>) = process_ok s"
  "process_ok (s\<lparr>ms_command := c\<rparr>) = process_ok s"
  "process_ok (s\<lparr>ms_resize_id := i\<rparr>) = process_ok s"
  "process_ok (s\<lparr>ms_resize_time := t\<rparr>) = process_ok s"
  "process_ok (s\<lparr>ms_history := h\<rparr>) = process_ok s"
  "process_ok (s\<lparr>ms_inputs := j\<rparr>) = process_ok s"
  by (simp_all add: process_ok_def)

lemma start_persistence_frame [simp]:
  "session_ok cfg (start_output_persistence s sto) = session_ok cfg s"
  "ms_id (start_output_persistence s sto) = ms_id s"
  "ms_name (start_output_persistence s sto) = ms_name s"
  "ms_lifecycle (start_output_persistence s sto) = ms_lifecycle s"
  "ms_inputs (start_output_persistence s sto) = ms_inputs s"
  "ms_process (start_output_persistence s sto) = ms_process s"
  "ms_live (start_output_persistence s sto) = ms_live s"
  "ms_history (start_output_persistence s sto) = ms_history s"
  by (cases sto; simp add: start_output_persistence_def session_ok_def)+

subsection \<open>Operations on one session\<close>

text \<open>What an operation keeps: the invariant and the identity of the session.\<close>

definition keeps :: "manager_config \<Rightarrow> managed_session \<Rightarrow> managed_session \<Rightarrow> bool" where
  "keeps cfg s s' \<longleftrightarrow> session_ok cfg s' \<and> ms_id s' = ms_id s \<and> ms_name s' = ms_name s"

lemma keeps_refl: "session_ok cfg s \<Longrightarrow> keeps cfg s s"
  by (simp add: keeps_def)

lemma session_attach_keeps: "session_ok cfg s \<Longrightarrow> keeps cfg s (snd (session_attach cfg s aid frm))"
  by (auto simp: session_attach_def keeps_def session_ok_def split: prod.splits sum.splits)

lemma write_reserved_session:
  "\<exists>j. fst (snd (write_reserved now s key data out f f' sto)) = s\<lparr>ms_inputs := j\<rparr> \<and>
     (j = ms_inputs s \<or> j = fst (snd (input_write (ms_inputs s) key data (Some out))))"
proof -
  obtain q sto' where q: "on_store f (put_input_decision (ms_id s) key (reserved_row (sha256 data) now)) True sto = (q, sto')"
    by fastforce
  obtain r j wrote where w: "input_write (ms_inputs s) key data (Some out) = (r, j, wrote)" using prod_cases3 by blast
  have "fst (snd (write_reserved now s key data out f f' sto)) \<in> {s, s\<lparr>ms_inputs := j\<rparr>}"
  proof (cases q)
    case (Inr b)
    show ?thesis unfolding write_reserved_def q w Inr by (cases b; cases r) (simp_all split: prod.split)
  qed (simp add: write_reserved_def q)
  then show ?thesis using w by (auto intro: exI [of _ "ms_inputs s"])
qed

lemma session_write_session:
  "\<exists>j. fst (snd (session_write now s key data out f f' sto)) = s\<lparr>ms_inputs := j\<rparr> \<and>
     (j = ms_inputs s \<or> j = fst (snd (input_write (ms_inputs s) key data (Some out))))"
  using write_reserved_session [of now s key data out f f' sto]
  by (auto simp: session_write_def intro: exI [of _ "ms_inputs s"] split: option.splits prod.splits)

lemma write_keeps:
  assumes "session_ok cfg s"
  shows "keeps cfg s (fst (snd (session_write now s key data out f f' sto)))"
proof -
  obtain j where j: "fst (snd (session_write now s key data out f f' sto)) = s\<lparr>ms_inputs := j\<rparr>"
    "j = ms_inputs s \<or> j = fst (snd (input_write (ms_inputs s) key data (Some out)))"
    using session_write_session [of now s key data out f f' sto] by blast
  have "journal_inv (ms_inputs s)" using assms by (simp add: session_ok_def journals_ok_def)
  then have "journal_inv j" using j(2) input_write_inv by metis
  moreover have "j_current j = j_current (ms_inputs s) \<and> j_max j = j_max (ms_inputs s)"
    using j(2) by (cases rule: input_write_cases [of "ms_inputs s" key data "Some out"]) auto
  ultimately show ?thesis using assms j(1) by (simp add: keeps_def session_ok_def journals_ok_def)
qed

lemma resize_keeps:
  "session_ok cfg s \<Longrightarrow> keeps cfg s (fst (snd (session_resize now s aid dims t failed f sto)))"
  by (auto simp: session_resize_def keeps_def session_ok_def Let_def split: prod.splits sum.splits)

lemma clear_keeps:
  assumes "session_ok cfg s"
  shows "keeps cfg s (s\<lparr>ms_history := snd (clear (ms_history s))\<rparr>)"
proof -
  have "hist_inv (snd (clear (ms_history s)))"
    using assms clear_effect [of "ms_history s"] by (cases "clear (ms_history s)") (simp add: session_ok_def journals_ok_def)
  then show ?thesis using assms
    by (simp add: keeps_def session_ok_def journals_ok_def clear_def live_def)
qed

lemma idle_ok:
  "journals_ok cfg s \<Longrightarrow> ms_process s = None \<Longrightarrow> ms_live s = None \<Longrightarrow> l_state (ms_lifecycle s) \<in> {Exited, Closed} \<Longrightarrow>
   session_ok cfg s"
  by (auto simp: session_ok_def process_ok_def)

lemma closing_ok:
  "journals_ok cfg s \<Longrightarrow> ms_process s \<noteq> None \<Longrightarrow> ms_live s = None \<Longrightarrow> l_state (ms_lifecycle s) = Closing \<Longrightarrow>
   session_ok cfg s"
  by (auto simp: session_ok_def process_ok_def)

lemma running_ok:
  "journals_ok cfg s \<Longrightarrow> ms_process s = Some p \<Longrightarrow> ms_live s = Some (p, l_generation (ms_lifecycle s)) \<Longrightarrow>
   l_state (ms_lifecycle s) = Running \<Longrightarrow> session_ok cfg s"
  by (auto simp: session_ok_def process_ok_def)

lemma close_process_keeps:
  assumes "journals_ok cfg s" "l_state (ms_lifecycle s) = Closing" "ms_process s = Some p" "ms_live s = None"
  shows "keeps cfg s (fst (snd (close_process env p s sto)))"
proof -
  define fin where "fin r = (closed_with r s)\<lparr>ms_lifecycle := \<lparr>l_state = Closed, l_generation = l_generation (ms_lifecycle s)\<rparr>\<rparr>" for r
  have st: "step_to Closed (closed_with r s) = Inr (fin r)" for r
    using assms(2) by (simp add: fin_def closed_with_def)
  have fin: "keeps cfg s (fin r)" for r
    using assms(1) unfolding keeps_def fin_def closed_with_def by (intro conjI idle_ok) (simp_all add: journals_ok_def)
  have same: "keeps cfg s s" by (rule keeps_refl, rule closing_ok) (use assms in auto)
  show ?thesis
    by (cases "cl_term env") (simp_all add: close_process_def Let_def st fin same split: prod.split sum.split del: step_to_simps)
qed

lemma close_exited_keeps:
  assumes "session_ok cfg s" "l_state (ms_lifecycle s) = Exited"
  shows "keeps cfg s (fst (snd (close_exited env s sto)))"
  using assms by (auto simp: close_exited_def keeps_def session_ok_def process_ok_def journals_ok_def split: prod.splits sum.splits)

lemma close_running_keeps:
  assumes "session_ok cfg s" "l_state (ms_lifecycle s) = Running" "ms_process s = Some p"
  shows "keeps cfg s (fst (snd (close_running env p s sto)))"
proof -
  define s1 where "s1 = s\<lparr>ms_live := None, ms_lifecycle := \<lparr>l_state = Closing, l_generation = l_generation (ms_lifecycle s)\<rparr>\<rparr>"
  have j: "journals_ok cfg s1" using assms(1) by (simp add: s1_def session_ok_def journals_ok_def)
  have s1: "l_state (ms_lifecycle s1) = Closing" "ms_process s1 = Some p" "ms_live s1 = None" "ms_id s1 = ms_id s" "ms_name s1 = ms_name s"
    using assms(3) by (simp_all add: s1_def)
  have st: "step_to Closing (s\<lparr>ms_live := None\<rparr>) = Inr s1" using assms(2) by (simp add: s1_def)
  obtain q sto' where q: "persist (cl_now env) (cl_closing env) s1 Running sto = (q, sto')" by fastforce
  show ?thesis
  proof (cases q)
    case (Inl e)
    then show ?thesis using j s1 unfolding close_running_def Let_def st q
      by (auto simp: keeps_def session_ok_def process_ok_def journals_ok_def q)
  next
    case (Inr u)
    then show ?thesis using close_process_keeps [OF j s1(1-3), of env sto'] s1(4,5) unfolding close_running_def Let_def st
      by (simp add: q keeps_def)
  qed
qed

lemma close_keeps:
  assumes "session_ok cfg s"
  shows "keeps cfg s (fst (snd (session_close env s sto)))"
proof -
  have "keeps cfg s (fst (snd (close_process env p s sto)))" if "l_state (ms_lifecycle s) = Closing" "ms_process s = Some p" for p
    using close_process_keeps that assms by (simp add: session_ok_def process_ok_def)
  then show ?thesis
    using assms close_exited_keeps [OF assms, of env sto] close_running_keeps [OF assms, of _ env sto] keeps_refl [OF assms]
    by (auto simp: session_close_def Let_def split: option.splits)
qed

lemma finish_closing_keeps:
  assumes "session_ok cfg s"
  shows "keeps cfg s (fst (finish_closing env p s sto))"
proof (cases "l_state (ms_lifecycle s) = Closing \<and> ms_process s = Some p")
  case True
  define fin where "fin r = s\<lparr>ms_exit := Some r, ms_process := None,
    ms_lifecycle := \<lparr>l_state = Closed, l_generation = l_generation (ms_lifecycle s)\<rparr>\<rparr>" for r
  have st: "step_to Closed (s\<lparr>ms_exit := Some r, ms_process := None\<rparr>) = Inr (fin r)" for r
    using True by (simp add: fin_def)
  have j: "journals_ok cfg s" "ms_live s = None" using assms True by (simp_all add: session_ok_def process_ok_def)
  have fin: "keeps cfg s (fin r)" for r
    using j unfolding keeps_def fin_def by (intro conjI idle_ok) (simp_all add: journals_ok_def)
  show ?thesis using True
    by (cases "cl_term env") (simp_all add: finish_closing_def st fin keeps_refl [OF assms] del: step_to_simps)
qed (auto simp: finish_closing_def keeps_refl [OF assms])

lemma relaunch_keeps:
  assumes "journals_ok cfg s" "l_state (ms_lifecycle s) = Restarting" "ms_process s = None" "ms_live s = None"
  shows "keeps cfg s (fst (snd (relaunch env s sto)))"
proof (cases "re_launch env")
  case None
  then show ?thesis using assms
    by (auto simp: relaunch_def Let_def keeps_def session_ok_def process_ok_def journals_ok_def)
next
  case (Some p)
  define g where "g = u64_add (l_generation (ms_lifecycle s)) 1"
  define s1 where "s1 = s\<lparr>ms_lifecycle := \<lparr>l_state = Running, l_generation = g\<rparr>\<rparr>"
  define s2 where "s2 = run_process p (set_generation (ms_inputs s1) g) sto (s1\<lparr>ms_exit := None\<rparr>)"
  define s3 where "s3 = s2\<lparr>ms_live := None, ms_process := None, ms_lifecycle := \<lparr>l_state = Exited, l_generation = g\<rparr>\<rparr>"
  have st: "step_to Running s = Inr s1" "step_quietly Exited (s2\<lparr>ms_live := None, ms_process := None\<rparr>) = s3"
    using assms(2) by (simp_all add: s1_def s2_def s3_def g_def run_process_def)
  have "journals_ok cfg (s1\<lparr>ms_exit := None, ms_inputs := set_generation (ms_inputs s1) g\<rparr>)"
    using assms(1) set_generation_inv [of "ms_inputs s" g] by (simp add: s1_def journals_ok_def set_generation_def)
  then have j: "journals_ok cfg s2"
    by (simp add: s2_def run_process_def start_output_persistence_def journals_ok_def split: option.split)
  have "keeps cfg s s2"
    using running_ok [OF j, of p] by (simp add: keeps_def s2_def run_process_def s1_def)
  moreover have "keeps cfg s s3"
    using idle_ok [of cfg s3] j by (simp add: keeps_def s3_def journals_ok_def s2_def run_process_def s1_def)
  moreover have "l_generation (ms_lifecycle s1) = g" by (simp add: s1_def)
  ultimately show ?thesis using Some
    by (simp add: relaunch_def Let_def st s2_def [symmetric] split: prod.split sum.split del: step_to_simps step_quietly_simps)
qed

lemma restart_keeps:
  assumes "session_ok cfg s"
  shows "keeps cfg s (fst (snd (session_restart env s sto)))"
proof (cases "l_state (ms_lifecycle s) = Exited \<or> l_state (ms_lifecycle s) = Closed")
  case True
  define s1 where "s1 = s\<lparr>ms_lifecycle := \<lparr>l_state = Restarting, l_generation = l_generation (ms_lifecycle s)\<rparr>\<rparr>"
  have j: "journals_ok cfg s1" using assms by (simp add: s1_def session_ok_def journals_ok_def)
  have s1: "l_state (ms_lifecycle s1) = Restarting" "ms_process s1 = None" "ms_live s1 = None" "ms_id s1 = ms_id s" "ms_name s1 = ms_name s"
    using assms True by (auto simp: s1_def session_ok_def process_ok_def)
  have st: "step_to Restarting s = Inr s1" using True by (auto simp: s1_def)
  have nt: "\<not> (l_state (ms_lifecycle s) \<noteq> Exited \<and> l_state (ms_lifecycle s) \<noteq> Closed)" using True by simp
  obtain q sto' where q: "persist (re_now env) (re_restarting env) s1 (l_state (ms_lifecycle s)) sto = (q, sto')" by fastforce
  show ?thesis
  proof (cases q)
    case (Inl e)
    then show ?thesis using j s1 nt unfolding session_restart_def Let_def st
      by (auto simp: q keeps_def session_ok_def process_ok_def journals_ok_def)
  next
    case (Inr u)
    then show ?thesis using relaunch_keeps [OF j s1(1-3), of env sto'] s1(4,5) nt unfolding session_restart_def Let_def st
      by (auto simp: q keeps_def)
  qed
qed (use assms in \<open>simp add: session_restart_def keeps_def Let_def\<close>)

lemma capture_finish_keeps:
  assumes "session_ok cfg s"
  shows "keeps cfg s (fst (capture_finish now p perr r f s sto))"
proof (cases "ms_process s = Some p \<and> l_state (ms_lifecycle s) = Running")
  case True
  have j: "journals_ok cfg s" using assms by (simp add: session_ok_def)
  have "fst (capture_finish now p perr r f s sto) = s\<lparr>ms_persist_err := perr, ms_lifecycle := \<lparr>l_state = Exited,
      l_generation = l_generation (ms_lifecycle s)\<rparr>, ms_exit := Some r, ms_live := None, ms_process := None\<rparr>"
    using True by (simp add: capture_finish_def Let_def)
  then show ?thesis using idle_ok j by (simp add: keeps_def journals_ok_def)
next
  case False
  then show ?thesis using assms by (auto simp: capture_finish_def keeps_def session_ok_def Let_def)
qed

lemma capture_output_history:
  assumes "hist_inv h" "list_all recordable (live h)" "data \<noteq> []"
    "capture_output h f data = (r, h', f')"
  shows "hist_inv h' \<and> list_all recordable (live h') \<and> h_max h' = h_max h"
proof (cases "append_owned h 1 data")
  case (Pair q h1)
  show ?thesis
  proof (cases q)
    case (Inl e)
    then show ?thesis using Pair assms append_owned_error [of h 1 data e h1] by (auto simp: capture_output_def)
  next
    case (Inr ev)
    then have a: "append_owned h 1 data = (Inr ev, h1)" and h': "h' = h1"
      using Pair assms(4) by (auto simp: capture_output_def)
    note e = append_owned_effect [OF assms(1) a]
    obtain dropped where "live h @ [ev] = dropped @ live h1"
      using append_owned_drops [OF assms(1) a assms(3)] by blast
    moreover have "recordable ev" using e assms(3) by (simp add: recordable_def)
    ultimately have "list_all recordable (dropped @ live h1)" using assms(2) by (simp flip: \<open>live h @ [ev] = dropped @ live h1\<close>)
    then show ?thesis using e h' by simp
  qed
qed

lemma queue_frame [simp]:
  "session_ok cfg (queue_output_persistence s) = session_ok cfg s"
  "ms_id (queue_output_persistence s) = ms_id s" "ms_name (queue_output_persistence s) = ms_name s"
  "ms_lifecycle (queue_output_persistence s) = ms_lifecycle s" "ms_inputs (queue_output_persistence s) = ms_inputs s"
  by (cases "ms_worker s"; simp add: queue_output_persistence_def session_ok_def)+

lemma capture_keeps:
  assumes "session_ok cfg s"
  shows "keeps cfg s (session_capture s data)"
proof (cases "data = []")
  case False
  obtain r h f where c: "capture_output (ms_history s) (ms_fanout s) data = (r, h, f)" using prod_cases3 by blast
  have i: "hist_inv (ms_history s)" "list_all recordable (live (ms_history s))"
    using assms by (simp_all add: session_ok_def journals_ok_def)
  have "hist_inv h" "list_all recordable (live h)" "h_max h = h_max (ms_history s)"
    using capture_output_history [OF i False c] by simp_all
  then have "keeps cfg s (s\<lparr>ms_history := h, ms_fanout := f\<rparr>)"
    using assms by (simp add: keeps_def session_ok_def journals_ok_def process_ok_def)
  then show ?thesis using False c by (cases r) (simp_all add: session_capture_def keeps_def)
qed (simp add: session_capture_def keeps_refl [OF assms])

lemma stop_keeps:
  assumes "session_ok cfg s" "stop_output_persistence rounds limit s sto = Some (e, s', sto')"
  shows "keeps cfg s s'"
proof -
  have "s' = s \<or> s' = s\<lparr>ms_worker := None\<rparr>"
    using assms(2) by (auto simp: stop_output_persistence_def split: option.splits)
  then show ?thesis using assms(1) by (auto simp: keeps_def session_ok_def)
qed

subsection \<open>Recovered sessions\<close>

lemma restore_inputs_inv:
  "journal_inv j \<Longrightarrow> restore_inputs j rows = Inr j' \<Longrightarrow> journal_inv j' \<and> j_current j' = j_current j \<and> j_max j' = j_max j"
proof (induction rows arbitrary: j)
  case (Cons row rows)
  obtain key r where row: "row = (key, r)" by (cases row)
  obtain j1 where j1: "input_restore j key (ir_hash r) (ir_status r) (ir_written r) (ir_error r) = Inr j1"
    "restore_inputs j1 rows = Inr j'"
    using Cons.prems(2) row by (auto split: sum.splits)
  have "journal_inv j1" using input_restore_inv [OF Cons.prems(1) j1(1)] .
  moreover have "j_current j1 = j_current j" "j_max j1 = j_max j"
    using j1(1) by (auto simp: input_restore_def split: if_splits option.splits)
  ultimately show ?case using Cons.IH j1(2) by auto
qed simp

lemma restore_loop_events:
  "restore_loop h evs = Inr h' \<Longrightarrow> h_events h' = h_events h @ evs \<and> h_head h' = h_head h"
  by (induction evs arbitrary: h) (auto split: if_splits)

lemma restore_live: "restore n a b evs = Inr h \<Longrightarrow> live h = evs"
  by (auto simp: restore_def new_history_def live_def dest!: restore_loop_events split: if_splits sum.splits)

lemma recovered_session_ok:
  assumes "recovered_session cfg r (evs, a, b) ds = Inr s"
    and "a + length (payload evs) < u64_limit" "\<forall>e \<in> set evs. end_seq e < u64_limit" "list_all recordable evs"
    and "sr_state r = ''exited'' \<or> sr_state r = ''closed''"
  shows "session_ok cfg s" "ms_id s = sr_id r" "ms_name s = sr_name r" "ms_worker s = None"
    "content (ms_history s) = payload evs" "h_earliest (ms_history s) = a" "h_latest (ms_history s) = b"
    "l_generation (ms_lifecycle s) = sr_generation r" "state_name (l_state (ms_lifecycle s)) = sr_state r"
proof -
  obtain h l rows j where k: "restore (mc_history_bytes cfg) a b evs = Inr h"
    "recover_lifecycle (sr_state r) (sr_generation r) = Inr l" "ds = Inr rows"
    "restore_inputs (new_input_journal (sr_generation r) (nat (mc_max_inputs cfg))) rows = Inr j"
    "s = (blank_session (sr_id r) (sr_name r) (row_command r) h)\<lparr>ms_lifecycle := l, ms_inputs := j, ms_exit := row_exit r\<rparr>"
    using assms(1) by (auto simp: recovered_session_def split: sum.splits)
  have h: "hist_inv h" "content h = payload evs" "h_earliest h = a" "h_latest h = b" "h_max h = mc_history_bytes cfg"
    using restore_correct(2) [OF assms(2,3) k(1)] by auto
  have l: "l_generation l = sr_generation r" "l_state l \<in> {Exited, Closed}" "state_name (l_state l) = sr_state r"
    using k(2) assms(5) parse_state_name [of Exited] parse_state_name [of Closed]
    by (auto simp: recover_lifecycle_def split: option.splits if_splits)
  have j: "journal_inv j" "j_current j = sr_generation r" "j_max j = nat (mc_max_inputs cfg)"
    using restore_inputs_inv [OF new_journal_inv k(4)] by (auto simp: new_input_journal_def)
  have "journals_ok cfg s"
    using h(1,5) j l(1) restore_live [OF k(1)] assms(4) by (simp add: k(5) journals_ok_def blank_session_def)
  then show "session_ok cfg s" using l(2) by (intro idle_ok) (simp_all add: k(5) blank_session_def)
  show "ms_id s = sr_id r" "ms_name s = sr_name r" "ms_worker s = None" "content (ms_history s) = payload evs"
    "h_earliest (ms_history s) = a" "h_latest (ms_history s) = b"
    "l_generation (ms_lifecycle s) = sr_generation r" "state_name (l_state (ms_lifecycle s)) = sr_state r"
    using h l by (simp_all add: k(5) blank_session_def)
qed

subsection \<open>The manager as a machine\<close>

text \<open>One turn of the persistence worker of a session: it takes a notification, its timer fires.\<close>

definition manager_worker :: "flush_env \<Rightarrow> manager \<Rightarrow> string \<Rightarrow> manager" where
  "manager_worker env m sid =
     (case get_session m sid of
        Inl _ \<Rightarrow> m
      | Inr s \<Rightarrow>
          (case (ms_worker s, mg_store m) of
             (Some w, Some st) \<Rightarrow>
               (case worker_timer [(env, ms_history s, ms_history s)] (ms_id s) (mc_history_bytes (mg_config m)) (worker_notify w) st of
                  None \<Rightarrow> m
                | Some (w', st') \<Rightarrow> put_session m sid (s\<lparr>ms_worker := Some w'\<rparr>) (Some st'))
           | _ \<Rightarrow> m))"

text \<open>The end of a capture goroutine: the unlocked stop of the worker, then the locked part.\<close>

definition manager_stop_worker :: "flush_env \<Rightarrow> manager \<Rightarrow> string \<Rightarrow> manager_error option \<times> manager" where
  "manager_stop_worker env m sid =
     (case get_session m sid of
        Inl _ \<Rightarrow> (None, m)
      | Inr s \<Rightarrow>
          (case stop_output_persistence [(env, ms_history s, ms_history s)] (mc_history_bytes (mg_config m)) s (mg_store m) of
             None \<Rightarrow> (None, m)
           | Some (e, s', sto) \<Rightarrow> (e, put_session m sid s' sto)))"

definition manager_capture_finish ::
    "int \<Rightarrow> process \<Rightarrow> manager_error option \<Rightarrow> exit_result \<Rightarrow> fault \<Rightarrow> manager \<Rightarrow> string \<Rightarrow> manager" where
  "manager_capture_finish now p e result flt m sid =
     (case get_session m sid of
        Inl _ \<Rightarrow> m
      | Inr s \<Rightarrow> (case capture_finish now p e result flt s (mg_store m) of (s', sto) \<Rightarrow> put_session m sid s' sto))"

definition manager_finish_closing :: "close_env \<Rightarrow> process \<Rightarrow> manager \<Rightarrow> string \<Rightarrow> manager" where
  "manager_finish_closing env p m sid =
     (case get_session m sid of
        Inl _ \<Rightarrow> m
      | Inr s \<Rightarrow> (case finish_closing env p s (mg_store m) of (s', sto) \<Rightarrow> put_session m sid s' sto))"

datatype mgr_op =
    MCreate create_env string string pty_command
  | MAttach string string nat
  | MAttachLive string string
  | MDetach string string
  | MNext string string
  | MAck string string nat
  | MWrite int string input_key bytes "nat \<times> bool" fault fault
  | MResize int string string dimensions int bool fault
  | MClear int string fault
  | MClose close_env string
  | MFinishClosing close_env process string
  | MRestart restart_env string
  | MDelete fault string
  | MCapture string bytes
  | MWorker flush_env string
  | MStopWorker flush_env string
  | MCaptureFinish int process "manager_error option" exit_result fault string
  | MShutdown "string \<Rightarrow> close_env"

fun mgr_step :: "manager \<Rightarrow> mgr_op \<Rightarrow> manager" where
  "mgr_step m (MCreate env requested name command) = snd (manager_create env m requested name command)"
| "mgr_step m (MAttach sid aid frm) = snd (manager_attach m sid aid frm)"
| "mgr_step m (MAttachLive sid aid) = snd (manager_attach_live m sid aid)"
| "mgr_step m (MDetach sid aid) = snd (manager_detach m sid aid)"
| "mgr_step m (MNext sid aid) = snd (manager_next m sid aid)"
| "mgr_step m (MAck sid aid n) = snd (manager_acknowledge m sid aid n)"
| "mgr_step m (MWrite now sid key data out f f') = snd (manager_write now m sid key data out f f')"
| "mgr_step m (MResize now sid aid dims t failed f) = snd (manager_resize now m sid aid dims t failed f)"
| "mgr_step m (MClear now sid f) = snd (manager_clear now m sid f)"
| "mgr_step m (MClose env sid) = snd (manager_close env m sid)"
| "mgr_step m (MFinishClosing env p sid) = manager_finish_closing env p m sid"
| "mgr_step m (MRestart env sid) = snd (manager_restart env m sid)"
| "mgr_step m (MDelete f sid) = snd (manager_delete f m sid)"
| "mgr_step m (MCapture sid data) = manager_capture m sid data"
| "mgr_step m (MWorker env sid) = manager_worker env m sid"
| "mgr_step m (MStopWorker env sid) = snd (manager_stop_worker env m sid)"
| "mgr_step m (MCaptureFinish now p e result f sid) = manager_capture_finish now p e result f m sid"
| "mgr_step m (MShutdown env) = snd (manager_shutdown env m)"

lemma put_ok:
  "manager_ok m \<Longrightarrow> get_session m sid = Inr s \<Longrightarrow> keeps (mg_config m) s s' \<Longrightarrow> manager_ok (put_session m sid s' sto)"
  by (rule manager_ok_put) (simp_all add: keeps_def)

lemma fanout_keeps: "session_ok cfg s \<Longrightarrow> keeps cfg s (s\<lparr>ms_fanout := f\<rparr>)"
  by (simp add: keeps_def session_ok_def)

lemma worker_keeps: "session_ok cfg s \<Longrightarrow> keeps cfg s (s\<lparr>ms_worker := w\<rparr>)"
  by (simp add: keeps_def session_ok_def)

lemma ack_keeps:
  assumes "session_ok cfg s" "acknowledge (ms_history s) aid n = Inr h"
  shows "keeps cfg s (s\<lparr>ms_history := h\<rparr>)"
proof -
  have "hist_inv h" "live h = live (ms_history s)" "h_max h = h_max (ms_history s)"
    using assms acknowledge_effect [of "ms_history s" aid n h]
    by (auto simp: session_ok_def journals_ok_def acknowledge_def live_def split: if_splits)
  then show ?thesis using assms(1) by (simp add: keeps_def session_ok_def journals_ok_def)
qed

lemma session_ops_ok:
  assumes "manager_ok m"
  shows "manager_ok (snd (manager_attach m sid aid frm))"
    "manager_ok (snd (manager_attach_live m sid aid))"
    "manager_ok (snd (manager_write now m sid key data out f f'))"
    "manager_ok (snd (manager_resize now m sid aid dims t failed f))"
    "manager_ok (snd (manager_close cenv m sid))"
    "manager_ok (snd (manager_restart renv m sid))"
    "manager_ok (manager_capture m sid data)"
    "manager_ok (manager_capture_finish now p e result f m sid)"
    "manager_ok (manager_finish_closing cenv p m sid)"
proof -
  have ok: "session_ok (mg_config m) s" if "get_session m sid = Inr s" for s
    using manager_ok_get [OF assms that] by simp
  have put: "manager_ok (case get_session m sid of Inl x \<Rightarrow> m | Inr s \<Rightarrow> put_session m sid (g s) (k s))"
    if "\<And>s. session_ok (mg_config m) s \<Longrightarrow> keeps (mg_config m) s (g s)" for g k
    using put_ok [OF assms] ok that assms by (auto split: sum.split)
  have eq: "snd (manager_attach m sid aid frm) = (case get_session m sid of Inl x \<Rightarrow> m |
      Inr s \<Rightarrow> put_session m sid (snd (session_attach (mg_config m) s aid frm)) (mg_store m))"
    "snd (manager_attach_live m sid aid) = (case get_session m sid of Inl x \<Rightarrow> m |
      Inr s \<Rightarrow> put_session m sid (snd (session_attach (mg_config m) s aid (h_latest (ms_history s)))) (mg_store m))"
    "snd (manager_write now m sid key data out f f') = (case get_session m sid of Inl x \<Rightarrow> m |
      Inr s \<Rightarrow> put_session m sid (fst (snd (session_write now s key data out f f' (mg_store m))))
        (snd (snd (session_write now s key data out f f' (mg_store m)))))"
    "snd (manager_resize now m sid aid dims t failed f) = (case get_session m sid of Inl x \<Rightarrow> m |
      Inr s \<Rightarrow> put_session m sid (fst (snd (session_resize now s aid dims t failed f (mg_store m))))
        (snd (snd (session_resize now s aid dims t failed f (mg_store m)))))"
    "snd (manager_restart renv m sid) = (case get_session m sid of Inl x \<Rightarrow> m |
      Inr s \<Rightarrow> put_session m sid (fst (snd (session_restart renv s (mg_store m))))
        (snd (snd (session_restart renv s (mg_store m)))))"
    "manager_capture m sid data = (case get_session m sid of Inl x \<Rightarrow> m |
      Inr s \<Rightarrow> put_session m sid (session_capture s data) (mg_store m))"
    "manager_capture_finish now p e result f m sid = (case get_session m sid of Inl x \<Rightarrow> m |
      Inr s \<Rightarrow> put_session m sid (fst (capture_finish now p e result f s (mg_store m)))
        (snd (capture_finish now p e result f s (mg_store m))))"
    "manager_finish_closing cenv p m sid = (case get_session m sid of Inl x \<Rightarrow> m |
      Inr s \<Rightarrow> put_session m sid (fst (finish_closing cenv p s (mg_store m))) (snd (finish_closing cenv p s (mg_store m))))"
    by (simp_all add: manager_attach_def manager_attach_live_def manager_write_def manager_resize_def manager_restart_def
        manager_capture_def manager_capture_finish_def manager_finish_closing_def bounds_def split: sum.split prod.split)
  show "manager_ok (snd (manager_attach m sid aid frm))" "manager_ok (snd (manager_attach_live m sid aid))"
    "manager_ok (snd (manager_write now m sid key data out f f'))"
    "manager_ok (snd (manager_resize now m sid aid dims t failed f))"
    "manager_ok (snd (manager_restart renv m sid))" "manager_ok (manager_capture m sid data)"
    "manager_ok (manager_capture_finish now p e result f m sid)" "manager_ok (manager_finish_closing cenv p m sid)"
    unfolding eq by (rule put; intro session_attach_keeps write_keeps resize_keeps restart_keeps capture_keeps
        capture_finish_keeps finish_closing_keeps; assumption)+
  have "snd (manager_close cenv m sid) = (if cl_cancelled cenv then m else case get_session m sid of Inl x \<Rightarrow> m |
      Inr s \<Rightarrow> put_session m sid (fst (snd (session_close cenv s (mg_store m)))) (snd (snd (session_close cenv s (mg_store m)))))"
    by (simp add: manager_close_def split: sum.split prod.split)
  then show "manager_ok (snd (manager_close cenv m sid))"
    using put [OF close_keeps] assms by simp
qed

lemma other_ops_ok:
  assumes "manager_ok m"
  shows "manager_ok (snd (manager_detach m sid aid))" "manager_ok (snd (manager_next m sid aid))"
    "manager_ok (snd (manager_acknowledge m sid aid n))" "manager_ok (snd (manager_clear now m sid f))"
    "manager_ok (manager_worker env m sid)" "manager_ok (snd (manager_stop_worker env m sid))"
proof -
  have ok: "session_ok (mg_config m) s" if "get_session m sid = Inr s" for s
    using manager_ok_get [OF assms that] by simp
  note p = put_ok [OF assms]
  show "manager_ok (snd (manager_detach m sid aid))" "manager_ok (snd (manager_next m sid aid))"
    "manager_ok (manager_worker env m sid)"
    using assms p ok fanout_keeps worker_keeps
    by (auto simp: manager_detach_def manager_next_def manager_worker_def split: sum.split prod.split option.split)
  show "manager_ok (snd (manager_acknowledge m sid aid n))"
    using assms p ok ack_keeps
    by (auto simp: manager_acknowledge_def split: sum.split prod.split)
  show "manager_ok (snd (manager_clear now m sid f))"
    using assms p ok clear_keeps unfolding manager_clear_def by (auto simp: clear_def split: sum.split prod.split)
  show "manager_ok (snd (manager_stop_worker env m sid))"
    using assms p ok stop_keeps unfolding manager_stop_worker_def by (auto split: sum.split option.split)
qed

subsection \<open>Creating, deleting, shutting down\<close>

lemma draw_id_fresh: "draw_id n ss rnd = Inr sid \<Longrightarrow> map_of ss sid = None"
  by (induction n ss rnd rule: draw_id.induct) (auto split: list.splits option.splits if_splits)

lemma choose_id_fresh: "choose_id ss requested rnd = Inr sid \<Longrightarrow> map_of ss sid = None"
  by (auto simp: choose_id_def draw_id_fresh split: if_splits)

lemma created_session_ok:
  assumes "new_history (mc_history_bytes cfg) = Inr h"
    "s1 = (blank_session sid name command h)\<lparr>ms_lifecycle := \<lparr>l_state = Running, l_generation = g\<rparr>\<rparr>"
  shows "session_ok cfg (run_process p (new_input_journal g (nat (mc_max_inputs cfg))) sto s1)"
proof -
  have "hist_inv h" "h_max h = mc_history_bytes cfg" "live h = []"
    using assms(1) new_history_inv [OF assms(1)] by (auto simp: new_history_def live_def split: if_splits)
  then have j: "journals_ok cfg (s1\<lparr>ms_inputs := new_input_journal g (nat (mc_max_inputs cfg))\<rparr>)"
    using new_journal_inv by (simp add: journals_ok_def assms(2) blank_session_def new_input_journal_def)
  have "session_ok cfg (s1\<lparr>ms_inputs := new_input_journal g (nat (mc_max_inputs cfg)), ms_process := Some p, ms_live := Some (p, g)\<rparr>)"
    using j by (intro running_ok [of _ _ p]) (simp_all add: assms(2) journals_ok_def)
  then show ?thesis by (simp add: run_process_def assms(2))
qed

lemma add_session_ok:
  assumes "manager_ok m" "map_of (mg_sessions m) (ms_id s) = None" "map_of (mg_names m) (ms_name s) = None"
    "session_ok (mg_config m) s"
  shows "manager_ok (m\<lparr>mg_sessions := AList.update (ms_id s) s (mg_sessions m),
      mg_names := AList.update (ms_name s) (ms_id s) (mg_names m), mg_store := sto\<rparr>)"
proof -
  have sess: "ms_id t = sid \<and> map_of (mg_names m) (ms_name t) = Some sid" if "map_of (mg_sessions m) sid = Some t" for sid t
    using assms(1) that by (simp add: manager_ok_def maps_ok_def)
  have nam: "\<exists>t. map_of (mg_sessions m) sid = Some t \<and> ms_name t = n" if "map_of (mg_names m) n = Some sid" for n sid
    using assms(1) that by (simp add: manager_ok_def maps_ok_def)
  show ?thesis
    using assms sess nam unfolding manager_ok_def maps_ok_def
    by (auto split: if_splits) (metis option.distinct(1))+
qed

lemma create_ok:
  assumes "manager_ok m"
  shows "manager_ok (snd (manager_create env m requested name command))"
proof -
  have "manager_ok (snd (launch_created env m (blank_session sid name command h) sto))"
    if h: "new_history (mc_history_bytes (mg_config m)) = Inr h" and sid: "map_of (mg_sessions m) sid = None"
      and name: "map_of (mg_names m) name = None" for sid h sto
  proof (cases "cr_launch env")
    case None
    then show ?thesis using assms by (simp add: launch_created_def)
  next
    case (Some p)
    define g where "g = u64_add 0 1"
    define s1 where "s1 = (blank_session sid name command h)\<lparr>ms_lifecycle := \<lparr>l_state = Running, l_generation = g\<rparr>\<rparr>"
    have st: "step_to Running (blank_session sid name command h) = Inr s1"
      by (simp add: s1_def g_def blank_session_def new_lifecycle_def)
    obtain q sto1 where q: "persist (cr_now env) (cr_persist env) s1 Creating sto = (q, sto1)" by fastforce
    define s2 where "s2 = run_process p (new_input_journal g (nat (mc_max_inputs (mg_config m)))) sto1 s1"
    have ok: "session_ok (mg_config m) s2" unfolding s2_def by (rule created_session_ok [OF h s1_def])
    have ids: "ms_id s2 = sid" "ms_name s2 = name" "ms_id s1 = sid" "ms_name s1 = name" "l_generation (ms_lifecycle s1) = g"
      by (simp_all add: s2_def run_process_def s1_def blank_session_def)
    have "manager_ok (m\<lparr>mg_sessions := AList.update sid s2 (mg_sessions m),
        mg_names := AList.update name sid (mg_names m), mg_store := sto1\<rparr>)"
      using add_session_ok [OF assms, of s2 sto1] ok ids sid name by simp
    moreover have "ms_id (blank_session sid name command h) = sid" "ms_name (blank_session sid name command h) = name"
      by (simp_all add: blank_session_def)
    ultimately show ?thesis using assms Some
      by (cases q) (simp_all add: launch_created_def st q Let_def ids(5) s2_def [symmetric] del: step_to_simps)
  qed
  then show ?thesis using assms choose_id_fresh
    by (auto simp: manager_create_def split: sum.splits prod.splits)
qed

lemma delete_ok:
  assumes "manager_ok m"
  shows "manager_ok (snd (manager_delete f m sid))"
proof (cases "get_session m sid")
  case (Inr s)
  note g = manager_ok_get [OF assms Inr]
  have "manager_ok (m\<lparr>mg_sessions := AList.delete sid (mg_sessions m), mg_names := AList.delete (ms_name s) (mg_names m), mg_store := sto\<rparr>)" for sto
  proof -
    have sess: "ms_id t = k \<and> map_of (mg_names m) (ms_name t) = Some k" if "map_of (mg_sessions m) k = Some t" for k t
      using assms that by (simp add: manager_ok_def maps_ok_def)
    have nam: "\<exists>t. map_of (mg_sessions m) k = Some t \<and> ms_name t = n" if "map_of (mg_names m) n = Some k" for n k
      using assms that by (simp add: manager_ok_def maps_ok_def)
    let ?m = "m\<lparr>mg_sessions := AList.delete sid (mg_sessions m), mg_names := AList.delete (ms_name s) (mg_names m), mg_store := sto\<rparr>"
    show ?thesis
    proof (rule manager_okI)
      have "ms_id t = k \<and> map_of (mg_names ?m) (ms_name t) = Some k" if "map_of (mg_sessions ?m) k = Some t" for k t
        using that sess [of k t] sess [OF g(1)] by (auto split: if_splits)
      moreover have "\<exists>t. map_of (mg_sessions ?m) k = Some t \<and> ms_name t = n" if "map_of (mg_names ?m) n = Some k" for n k
        using that nam [of n k] g(1) by (auto split: if_splits)
      moreover have "keys_distinct (mg_sessions ?m)" "keys_distinct (mg_names ?m)"
        using assms by (simp_all add: manager_ok_def maps_ok_def)
      ultimately show "maps_ok ?m" unfolding maps_ok_def by blast
      show "valid_config (mg_config ?m)" using assms by (simp add: manager_ok_def)
      show "session_ok (mg_config ?m) t" if "map_of (mg_sessions ?m) k = Some t" for k t
        using assms that by (auto simp: manager_ok_def split: if_splits)
    qed
  qed
  then show ?thesis using assms Inr by (auto simp: manager_delete_def split: sum.splits prod.splits)
qed (simp add: manager_delete_def assms)

lemma close_all_ok: "manager_ok m \<Longrightarrow> manager_ok (snd (close_all env sids m))"
proof (induction sids arbitrary: m)
  case (Cons sid sids)
  have "manager_ok (snd (manager_close (env sid) m sid))" by (rule session_ops_ok [OF Cons.prems])
  moreover have "snd (close_all env (sid # sids) m) = snd (close_all env sids (snd (manager_close (env sid) m sid)))"
    by (simp split: prod.split)
  ultimately show ?case using Cons.IH by simp
qed simp

lemma mgr_step_ok: "manager_ok m \<Longrightarrow> manager_ok (mgr_step m x)"
  by (cases x) (simp_all add: create_ok session_ops_ok other_ops_ok delete_ok close_all_ok manager_shutdown_def)

lemma run_manager_ok: "manager_ok m \<Longrightarrow> manager_ok (run mgr_step m ops)"
  by (induction ops arbitrary: m) (simp_all add: mgr_step_ok)

lemma fresh_manager_ok:
  assumes "new_manager has_launch f env cfg sto = (Inr m, sto')" "sto = None \<or> sto = Some empty_store"
  shows "manager_ok m"
proof -
  have "valid_config (with_defaults cfg)" "mg_config m = with_defaults cfg" "mg_sessions m = []" "mg_names m = []"
    using assms by (auto simp: new_manager_def Let_def with_fault_def reads_def all_sessions_def empty_store_def
        split: if_splits fault.splits)
  then show ?thesis by (simp add: manager_ok_def maps_ok_def)
qed

subsection \<open>Properties\<close>

text \<open>
  C13: The session manager keeps its invariant.  From a fresh start, over any sequence of
  operations of the manager, its capture loops and its persistence workers, with any
  failures of the store, the PTY, the launcher and the random source: the maps by id and by
  name agree; every session is running, exited, closing or closed between operations; it
  has a process exactly while it runs or closes; the live process that terminal input uses
  is that process with the current generation exactly while it runs; history and input
  journal are well formed, within their limits and of the current generation.
\<close>
theorem manager_invariant:
  assumes "new_manager has_launch f env cfg sto = (Inr m, sto')" "sto = None \<or> sto = Some empty_store"
  shows "manager_ok (run mgr_step m ops)"
  by (rule run_manager_ok [OF fresh_manager_ok [OF assms]])

definition sample_config :: manager_config where
  "sample_config = \<lparr>mc_history_bytes = 0, mc_attachment_bytes = 0, mc_timeout = 0, mc_grace = 0, mc_max_sessions = 0,
     mc_max_attachments = 0, mc_max_inputs = 0, mc_recovery_signal = []\<rparr>"

definition sample_manager :: manager where
  "sample_manager = \<lparr>mg_config = with_defaults sample_config, mg_sessions = [], mg_names = [], mg_stopping = False,
     mg_store = None\<rparr>"

lemma sample_manager_new:
  "new_manager True Healthy (\<lambda>_. \<lparr>rc_now = 0, rc_update = Healthy, rc_trim = Healthy, rc_replay = Healthy, rc_inputs = Healthy\<rparr>)
     sample_config None = (Inr sample_manager, None)"
  by (simp add: new_manager_def sample_manager_def valid_config_def with_defaults_def sample_config_def)

definition sample_create :: mgr_op where
  "sample_create = MCreate \<lparr>cr_now = 1, cr_cancelled = False, cr_random = [], cr_insert = Healthy, cr_launch = Some 7,
      cr_persist = Healthy, cr_discard = Healthy, cr_delete = Healthy\<rparr> ''s1'' ''main''
     \<lparr>pc_path = ''/bin/sh'', pc_args = [], pc_env = [], pc_cwd = ''/'', pc_dims = \<lparr>dim_columns = 80, dim_rows = 24\<rparr>\<rparr>"

theorem manager_invariant_witness:
  "manager_ok (run mgr_step sample_manager [sample_create, MAttachLive ''s1'' ''a1''])"
  by (rule manager_invariant [OF sample_manager_new]) simp


definition sample_running :: manager where
  "sample_running = run mgr_step sample_manager [sample_create, MAttachLive ''s1'' ''a1'']"

lemmas manager_eval = sample_manager_def sample_create_def sample_config_def with_defaults_def manager_create_def
  valid_session_name_def valid_name_char_def char_classes choose_id_def new_history_def on_store_def launch_created_def persist_def
  blank_session_def new_lifecycle_def run_process_def start_output_persistence_def manager_attach_live_def get_session_def
  session_attach_def attach_locked_def fanout_count_def new_fanout_def bounds_def attach_replay_def replay_owned_def live_def
  fanout_attach_def put_session_def Let_def

lemma sample_running_write:
  "manager_write_stream sample_running ''s1'' ''a1'' 1 [65] (1, False) = (None, Some 7)"
  by (simp add: sample_running_def manager_eval manager_write_stream_def session_write_stream_def is_attached_def u64_add_def u64_limit_def)


end
