(* ===== verification/Durable_Sessions.thy ===== *)
theory Durable_Sessions
  imports Session_Invariants
begin

section \<open>The durable side of the session manager\<close>

text \<open>
  What the manager of \<open>src/internal/session/manager.go\<close> leaves in the tables of
  \<open>src/internal/store/store.go\<close>.  \<open>store_base\<close> says of the tables what \<open>recover\<close> relies
  on: every session record is in a state that can be resumed, its output rows join up, and
  its input decisions can be restored.  Every operation keeps it under every fault of every
  store call.  Two operations are excluded, as they do break it: restarting a session that
  has never run, and reserving input under an invalid key; the theory of crash recovery
  shows what happens then.
\<close>

subsection \<open>What recovery relies on\<close>

definition row_ok :: "session_row \<Rightarrow> bool" where
  "row_ok r \<longleftrightarrow>
     (case parse_state (sr_state r) of
        None \<Rightarrow> False
      | Some q \<Rightarrow> q \<noteq> Deleted \<and> (q = Creating \<or> q = Closed \<or> 0 < sr_generation r))"

lemma row_okI:
  "sr_state r = state_name q \<Longrightarrow> q \<noteq> Deleted \<Longrightarrow> q = Creating \<or> q = Closed \<or> 0 < sr_generation r \<Longrightarrow> row_ok r"
  by (simp add: row_ok_def)

definition restorable :: "(string \<times> input_key) \<times> input_row \<Rightarrow> bool" where
  "restorable p \<longleftrightarrow>
     length (ir_hash (snd p)) = 32 \<and> valid_input_key (snd (fst p)) \<and>
     (\<exists>st. parse_input_status (ir_status (snd p)) = Some st \<and> st \<noteq> InputDuplicate)"

definition session_base :: "store \<Rightarrow> string \<Rightarrow> bool" where
  "session_base st sid \<longleftrightarrow>
     (case map_of (st_sessions st) sid of
        None \<Rightarrow> True
      | Some r \<Rightarrow> row_ok r \<and> output_wf sid st \<and> list_all recordable (rows_of st sid))"

definition store_base :: "store \<Rightarrow> bool" where
  "store_base st \<longleftrightarrow> tables_wf st \<and> (\<forall>sid. session_base st sid) \<and> list_all restorable (st_inputs st)"

lemma store_baseD:
  assumes "store_base st" "map_of (st_sessions st) sid = Some r"
  shows "tables_wf st" "row_ok r" "output_wf sid st" "list_all recordable (rows_of st sid)"
    "session_constraints r" "sr_id r = sid"
proof -
  have "session_base st sid" using assms(1) by (simp add: store_base_def)
  then show "row_ok r" "output_wf sid st" "list_all recordable (rows_of st sid)"
    using assms(2) by (simp_all add: session_base_def)
  show "tables_wf st" using assms(1) by (simp add: store_base_def)
  then show "session_constraints r" "sr_id r = sid"
    using map_of_SomeD [OF assms(2)] by (auto simp: tables_wf_def sessions_wf_def)
qed

lemma session_base_frame:
  assumes "map_of (st_sessions st') sid = map_of (st_sessions st) sid" "rows_of st' sid = rows_of st sid"
  shows "session_base st' sid = session_base st sid"
  using assms by (simp add: session_base_def output_wf_def split: option.split)

subsection \<open>Store operations keep it\<close>

lemma update_session_base:
  assumes "store_base st" "update_session now sid expected nxt st = (r, st')"
    "\<exists>q. sr_state nxt = state_name q \<and> q \<noteq> Deleted \<and> (q = Creating \<or> q = Closed \<or> 0 < sr_generation nxt)"
  shows "store_base st' \<and> st_inputs st' = st_inputs st \<and> (r = Inr () \<longrightarrow> sr_generation nxt < sql_limit)"
proof (cases r)
  case (Inl e)
  then show ?thesis using assms by (auto simp: update_session_def split: option.splits if_splits)
next
  case (Inr u)
  then have ok: "update_session now sid expected nxt st = (Inr (), st')" using assms(2) by simp
  obtain old where k: "map_of (st_sessions st) sid = Some old" "session_constraints (updated_row now nxt old)"
    "st' = st\<lparr>st_sessions := AList.update sid (updated_row now nxt old) (st_sessions st)\<rparr>"
    using update_session_Inr [OF ok] by metis
  note d = store_baseD [OF assms(1) k(1)]
  have rows: "rows_of st' = rows_of st" by (rule ext) (simp add: k(3) rows_of_def)
  have "session_base st' k" for k
  proof (cases "k = sid")
    case True
    obtain q where "sr_state nxt = state_name q" "q \<noteq> Deleted" "q = Creating \<or> q = Closed \<or> 0 < sr_generation nxt"
      using assms(3) by blast
    then have "row_ok (updated_row now nxt old)" by (intro row_okI [of _ q]) (simp_all add: updated_row_def)
    moreover have "output_wf sid st'" using d(3) k(1) rows by (simp add: output_wf_def k(3) updated_row_def)
    ultimately show ?thesis using True d(4) rows by (simp add: session_base_def k(3))
  next
    case False
    then have "session_base st' k = session_base st k" by (intro session_base_frame) (simp_all add: rows, simp add: k(3))
    then show ?thesis using assms(1) by (simp add: store_base_def)
  qed
  moreover have "tables_wf st'" by (rule update_session_wf [OF d(1) ok])
  moreover have "sr_generation nxt < sql_limit" using k(2) by (simp add: session_constraints_def updated_row_def)
  ultimately show ?thesis using assms(1) by (simp add: store_base_def k(3))
qed

lemma delete_session_base:
  assumes "store_base st" "delete_session sid st = (r, st')"
  shows "store_base st' \<and> set (st_inputs st') \<subseteq> set (st_inputs st) \<and>
    (r = Inr () \<longrightarrow> sid \<notin> (fst \<circ> fst) ` set (st_inputs st'))"
proof (cases r)
  case (Inl e)
  then show ?thesis using assms by (auto simp: delete_session_def split: option.splits if_splits)
next
  case (Inr u)
  then have ok: "delete_session sid st = (Inr (), st')" using assms(2) by simp
  then have st': "st' = st\<lparr>st_sessions := AList.delete sid (st_sessions st), st_events := AList.delete sid (st_events st),
      st_inputs := filter (\<lambda>p. fst (fst p) \<noteq> sid) (st_inputs st)\<rparr>"
    by (auto simp: delete_session_def split: option.splits if_splits)
  have wf: "tables_wf st'" using delete_session_wf [OF _ ok] assms(1) by (simp add: store_base_def)
  have "session_base st' k" for k
  proof (cases "k = sid")
    case False
    then have "session_base st' k = session_base st k"
      by (intro session_base_frame) (simp_all add: st' rows_of_def)
    then show ?thesis using assms(1) by (simp add: store_base_def)
  qed (simp add: session_base_def st')
  moreover have "list_all restorable (st_inputs st')" using assms(1) by (auto simp: store_base_def st' list_all_iff)
  ultimately show ?thesis using wf by (auto simp: store_base_def st')
qed

lemma no_rows: "tables_wf st \<Longrightarrow> map_of (st_sessions st) sid = None \<Longrightarrow> rows_of st sid = []"
proof -
  assume wf: "tables_wf st" and n: "map_of (st_sessions st) sid = None"
  then have "sid \<notin> fst ` set (st_events st)" by (auto simp: tables_wf_def references_wf_def map_of_eq_None_iff)
  then have "map_of (st_events st) sid = None" by (simp add: map_of_eq_None_iff)
  then show ?thesis by (simp add: rows_of_def)
qed

lemma create_session_base:
  assumes "store_base st" "create_session now (creating_row sid name command) st = (r, st')"
  shows "store_base st' \<and> st_inputs st' = st_inputs st"
proof (cases r)
  case (Inl e)
  then show ?thesis using assms by (auto simp: create_session_def Let_def split: if_splits)
next
  case (Inr u)
  then have ok: "create_session now (creating_row sid name command) st = (Inr (), st')" using assms(2) by simp
  define row where "row = (creating_row sid name command)\<lparr>sr_created := Some now, sr_updated := Some now\<rparr>"
  have st': "st' = st\<lparr>st_sessions := AList.update sid row (st_sessions st)\<rparr>" and n: "map_of (st_sessions st) sid = None"
    using ok by (auto simp: create_session_def Let_def row_def creating_row_def stamp_def split: if_splits)
  have wf: "tables_wf st" "tables_wf st'"
    using create_session_wf [OF _ ok] assms(1) by (simp_all add: store_base_def)
  have rows: "rows_of st' = rows_of st" by (rule ext) (simp add: st' rows_of_def)
  have "session_base st' k" for k
  proof (cases "k = sid")
    case True
    have r0: "rows_of st' sid = []" unfolding rows by (rule no_rows [OF wf(1) n])
    have mp: "map_of (st_sessions st') sid = Some row" by (simp add: st')
    have "row_ok row" by (rule row_okI [of _ Creating]) (simp_all add: row_def creating_row_def)
    then show ?thesis using True mp r0
      by (simp add: session_base_def output_wf_def row_def creating_row_def sql_limit_def)
  next
    case False
    then have "session_base st' k = session_base st k" by (intro session_base_frame) (simp_all add: rows, simp add: st')
    then show ?thesis using assms(1) by (simp add: store_base_def)
  qed
  then show ?thesis using assms(1) wf(2) by (simp add: store_base_def st')
qed

text \<open>Output operations change the bounds and the rows of one session.\<close>

lemma output_change_base:
  assumes "store_base st" "map_of (st_sessions st) sid = Some r" "output_wf sid st'" "list_all recordable rows"
    and st': "st' = st\<lparr>st_sessions := AList.update sid (r\<lparr>sr_earliest := a, sr_latest := b, sr_updated := u\<rparr>) (st_sessions st),
      st_events := AList.update sid rows (st_events st)\<rparr>"
  shows "store_base st' \<and> st_inputs st' = st_inputs st"
proof -
  let ?r = "r\<lparr>sr_earliest := a, sr_latest := b, sr_updated := u\<rparr>"
  note d = store_baseD [OF assms(1,2)]
  have mp: "map_of (st_sessions st') sid = Some ?r" by (simp add: st')
  have rows: "rows_of st' k = (if k = sid then rows else rows_of st k)" for k by (simp add: st' rows_of_def)
  have "a \<le> b" "b < sql_limit"
    using assms(3) mp by (auto simp: output_wf_def dest: chain_le)
  then have "session_constraints ?r" using d(5) by (simp add: session_constraints_def)
  then have "tables_wf (st\<lparr>st_sessions := AList.update sid ?r (st_sessions st)\<rparr>)"
    using tables_wf_session_update [OF d(1) assms(2), of ?r] by simp
  then have wf: "tables_wf st'"
    using map_of_SomeD [OF assms(2)] by (auto simp: st' tables_wf_def references_wf_def keys_update)
  have "row_ok ?r" using d(2) by (simp add: row_ok_def cong: option.case_cong)
  then have "session_base st' k" for k
    using assms(1,3,4) mp rows session_base_frame [of st' k st]
    by (cases "k = sid") (simp_all add: session_base_def store_base_def, simp add: st')
  then show ?thesis using assms(1) wf by (simp add: store_base_def st')
qed

lemma append_output_base:
  assumes "store_base st" "append_output now sid ch start data limit st = (r, st')" "length data < u64_limit"
  shows "store_base st' \<and> st_inputs st' = st_inputs st"
proof (cases r)
  case (Inl e)
  then show ?thesis using assms append_output_Inl by blast
next
  case (Inr x)
  obtain ev m where x: "x = (ev, m)" by (cases x)
  have a: "append_output now sid ch start data limit st = (Inr (ev, m), st')" using assms(2) Inr x by simp
  obtain row where row: "map_of (st_sessions st) sid = Some row"
    using a by (auto simp: append_output_def Let_def split: if_splits option.splits)
  note d = store_baseD [OF assms(1) row]
  note c = append_output_Inr [OF a d(3) assms(3)]
  define new where "new = \<lparr>channel = ch, start_seq = out_hi sid st, end_seq = out_hi sid st + length data, ev_data = data\<rparr>"
  obtain dropped rest where k: "rows_of st sid @ [new] = dropped @ rest" "rows_of st' sid = rest" "output_wf sid st'"
    using append_output_ok [OF d(3) c(1,2) _ c(5), of now] a c(3,4) by (auto simp: new_def)
  have "recordable new" using c(1,5) by (simp add: recordable_def new_def)
  then have "list_all recordable (rows_of st sid @ [new])" using d(4) by simp
  then have rec: "list_all recordable rest" unfolding k(1) by simp
  obtain rows e l where st': "st' = set_bounds sid row e l now (set_rows sid rows st)"
    using a row by (auto simp: append_output_def Let_def split: if_splits option.splits prod.splits)
  then have "rows = rest" using k(2) by simp
  then show ?thesis using output_change_base [OF assms(1) row k(3) rec, where a = e and b = l and u = "Some now"] st'
    by (simp add: set_bounds_def set_rows_def)
qed

lemma clear_output_base:
  assumes "store_base st" "clear_output now sid n st = (r, st')"
  shows "store_base st' \<and> st_inputs st' = st_inputs st"
proof (cases r)
  case (Inl e)
  then show ?thesis using assms by (auto simp: clear_output_def split: option.splits if_splits)
next
  case (Inr u)
  then have c: "clear_output now sid n st = (Inr (), st')" using assms(2) by simp
  then obtain row where row: "map_of (st_sessions st) sid = Some row"
    "st' = set_bounds sid row n n now (set_rows sid [] st)"
    by (auto simp: clear_output_def split: option.splits if_splits)
  note d = store_baseD [OF assms(1) row(1)]
  show ?thesis using output_change_base [OF assms(1) row(1), where st' = st' and rows = "[]" and a = n and b = n and u = "Some now"] row(2) clear_output_ok [OF d(3) c]
    by (simp add: set_bounds_def set_rows_def)
qed

lemma advance_output_base:
  assumes "store_base st" "advance_output now sid e n st = (r, st')"
  shows "store_base st' \<and> st_inputs st' = st_inputs st"
proof (cases r)
  case (Inl e)
  then show ?thesis using assms by (auto simp: advance_output_def split: option.splits if_splits)
next
  case (Inr u)
  then have c: "advance_output now sid e n st = (Inr (), st')" using assms(2) by simp
  then obtain row where row: "map_of (st_sessions st) sid = Some row"
    "st' = set_bounds sid row n n now (set_rows sid [] st)"
    by (auto simp: advance_output_def split: option.splits if_splits)
  note d = store_baseD [OF assms(1) row(1)]
  show ?thesis using output_change_base [OF assms(1) row(1), where st' = st' and rows = "[]" and a = n and b = n and u = "Some now"] row(2) advance_output_ok [OF d(3) c]
    by (simp add: set_bounds_def set_rows_def)
qed

lemma trim_output_base:
  assumes "store_base st" "trim_output sid limit st = (r, st')"
  shows "store_base st' \<and> st_inputs st' = st_inputs st"
proof (cases r)
  case (Inl e)
  then show ?thesis using assms
    by (auto simp: trim_output_def Let_def split: option.splits if_splits prod.splits)
next
  case (Inr n)
  have pos: "0 < limit" using assms(2) Inr by (auto simp: trim_output_def split: if_splits)
  obtain row rows e where row: "map_of (st_sessions st) sid = Some row"
    "st' = (set_rows sid rows st)\<lparr>st_sessions := AList.update sid (row\<lparr>sr_earliest := e\<rparr>) (st_sessions st)\<rparr>"
    using assms(2) Inr by (auto simp: trim_output_def Let_def split: option.splits if_splits prod.splits)
  note d = store_baseD [OF assms(1) row(1)]
  obtain dropped where k: "output_wf sid st'" "rows_of st sid = dropped @ rows_of st' sid"
    using trim_output_ok [OF d(3) pos] assms(2) by auto
  have "rows_of st' sid = rows" by (simp add: row(2) rows_of_def set_rows_def)
  then have "list_all recordable rows" using d(4) k(2) by simp
  then show ?thesis using output_change_base [OF assms(1) row(1) k(1), where rows = rows and a = e and b = "sr_latest row" and u = "sr_updated row"] row(2)
    by (simp add: set_rows_def)
qed

lemma put_input_base:
  assumes "store_base st" "put_input_decision sid key row st = (r, st')" "restorable ((sid, key), row)"
  shows "store_base st' \<and> fst ` set (st_inputs st') \<subseteq> insert (sid, key) (fst ` set (st_inputs st)) \<and>
    (r \<noteq> Inr True \<longrightarrow> st' = st)"
proof -
  have wf: "tables_wf st'" using put_input_wf [of st sid key row] assms(1,2) by (simp add: store_base_def)
  have "st' = st \<or> (st' = st\<lparr>st_inputs := AList.update (sid, key) row (st_inputs st)\<rparr> \<and> r = Inr True)"
    using assms(2) by (auto simp: put_input_decision_def split: option.splits if_splits)
  moreover have "session_base (st\<lparr>st_inputs := i\<rparr>) k = session_base st k" for i k
    by (rule session_base_frame) (simp_all add: rows_of_def)
  moreover have "list_all restorable (AList.update (sid, key) row (st_inputs st))"
    using assms(1,3) set_update_subset [of "(sid, key)" row "st_inputs st"] by (auto simp: store_base_def list_all_iff)
  ultimately show ?thesis using assms(1) wf by (elim disjE conjE) (simp_all add: store_base_def keys_update subset_insertI)
qed

lemma update_input_base:
  assumes "store_base st" "update_input_decision sid key hash (input_status_name q) n e st = (r, st')" "q \<noteq> InputDuplicate"
  shows "store_base st' \<and> fst ` set (st_inputs st') = fst ` set (st_inputs st)"
proof -
  have wf: "tables_wf st'" using update_input_wf [of st sid key hash "input_status_name q" n e] assms(1,2) by (simp add: store_base_def)
  consider "st' = st" | row where "map_of (st_inputs st) (sid, key) = Some row"
      "st' = st\<lparr>st_inputs := AList.update (sid, key)
         (row\<lparr>ir_status := input_status_name q, ir_written := n, ir_error := e\<rparr>) (st_inputs st)\<rparr>"
    using assms(2) by (auto simp: update_input_decision_def split: option.splits if_splits)
  then show ?thesis
  proof cases
    case (2 row)
    have m: "((sid, key), row) \<in> set (st_inputs st)" using map_of_SomeD [OF 2(1)] .
    then have "restorable ((sid, key), row)" using assms(1) by (auto simp: store_base_def list_all_iff)
    then have "restorable ((sid, key), row\<lparr>ir_status := input_status_name q, ir_written := n, ir_error := e\<rparr>)"
      using assms(3) by (simp add: restorable_def)
    then have "list_all restorable (st_inputs st')"
      using assms(1) set_update_subset [of "(sid, key)" _ "st_inputs st"] by (fastforce simp: 2(2) store_base_def list_all_iff)
    moreover have "session_base (st\<lparr>st_inputs := i\<rparr>) k = session_base st k" for i k
      by (rule session_base_frame) (simp_all add: rows_of_def)
    moreover have "(sid, key) \<in> fst ` set (st_inputs st)" using m by force
    ultimately show ?thesis using assms(1) wf by (auto simp: store_base_def 2(2) keys_update)
  qed (use assms(1) in simp)
qed

subsection \<open>Flushing keeps it\<close>

definition based :: "store \<Rightarrow> store \<Rightarrow> bool" where
  "based st st' \<longleftrightarrow> store_base st' \<and> st_inputs st' = st_inputs st"

lemma append_events_base:
  assumes "store_base st" "\<forall>e \<in> set evs. length (ev_data e) < u64_limit"
  shows "based st (snd (append_events now sid limit flts evs st))"
  using assms
proof (induction evs arbitrary: st flts)
  case (Cons ev evs)
  define f where "f = (case flts of [] \<Rightarrow> Healthy | f # _ \<Rightarrow> f)"
  define op where "op = append_output now sid (channel ev) (start_seq ev) (ev_data ev) limit"
  obtain r s1 where w: "with_fault f op st = (r, s1)" by fastforce
  have "based st (snd (op st))"
    using append_output_base [OF Cons.prems(1), of now sid "channel ev" "start_seq ev" "ev_data ev" limit] Cons.prems(2)
    unfolding op_def based_def by (metis list.set_intros(1) prod.collapse)
  moreover have "based st st" using Cons.prems(1) by (simp add: based_def)
  ultimately have s1: "based st s1" using with_fault_result [OF w, of "based st"] by blast
  show ?case
  proof (cases r)
    case (Inl e)
    then show ?thesis using w s1 by (simp add: f_def op_def)
  next
    case (Inr x)
    have "based s1 (snd (append_events now sid limit (tl flts) evs s1))"
      using Cons.IH [of s1 "tl flts"] s1 Cons.prems(2) by (simp add: based_def)
    then show ?thesis using w s1 Inr by (simp add: f_def op_def based_def)
  qed
qed (simp add: based_def)

lemma replay_event_sizes:
  assumes "hist_inv h" "replay_owned h a limit = Inr r"
  shows "\<forall>e \<in> set (r_events r). length (ev_data e) < u64_limit"
proof -
  have le: "h_earliest h \<le> a" "a \<le> h_latest h" using assms(2) by (auto simp: replay_owned_def split: if_splits)
  obtain r' where r': "replay_owned h a limit = Inr r'" "chain a (r_events r') (a + read_amount limit (h_latest h - a))"
    using replay_owned_ok [OF assms(1) le] by blast
  have "a + read_amount limit (h_latest h - a) < u64_limit"
    using assms(1) le(2) by (auto simp: hist_inv_def read_amount_def)
  then show ?thesis using r' assms(2) chain_member [OF r'(2)] by fastforce
qed

lemma flush_events_base:
  assumes "store_base st" "hist_inv h"
  shows "based st (snd (flush_events env sid limit persisted latest h st))"
proof -
  have refl: "based st st" using assms(1) by (simp add: based_def)
  have app: "based st (snd (append_events (fe_now env) sid limit (fe_append env) (r_events r) st))"
    if "replay_owned h persisted limit = Inr r" for r
    by (rule append_events_base [OF assms(1) replay_event_sizes [OF assms(2) that]])
  show ?thesis
  proof (cases "replay_owned h persisted limit")
    case (Inl e)
    then show ?thesis using refl by (cases e) (simp_all add: flush_events_def)
  next
    case (Inr r)
    then show ?thesis using refl app [OF Inr]
      by (auto simp: flush_events_def split: prod.splits option.splits)
  qed
qed

lemma flush_round_base:
  assumes "store_base st" "hist_inv h"
  shows "based st (snd (flush_round env sid limit h h st))"
proof -
  have refl: "based st st" using assms(1) by (simp add: based_def)
  obtain r1 st1 where b: "with_fault (fe_bounds env) (\<lambda>st. (output_bounds sid st, st)) st = (r1, st1)" by fastforce
  then have st1: "st1 = st" by (cases "fe_bounds env") (auto simp: with_fault_def)
  show ?thesis
  proof (cases r1)
    case (Inl e)
    then show ?thesis using b st1 refl by (simp add: flush_round_def)
  next
    case (Inr p)
    obtain lo hi where p: "p = (lo, hi)" by (cases p)
    show ?thesis
    proof (cases "hi < h_earliest h")
      case False
      then show ?thesis using b st1 Inr p flush_events_base [OF assms] by (simp add: flush_round_def)
    next
      case True
      define op where "op = advance_output (fe_now env) sid hi (h_earliest h)"
      obtain r2 st2 where a: "with_fault (fe_advance env) op st = (r2, st2)" by fastforce
      have "based st (snd (op st))"
        using advance_output_base [OF assms(1)] unfolding op_def based_def by (metis prod.collapse)
      then have st2: "based st st2" using with_fault_result [OF a, of "based st"] refl by blast
      then have "based st2 (snd (flush_events env sid limit (h_earliest h) (h_latest h) h st2))"
        by (intro flush_events_base assms(2)) (simp add: based_def)
      then show ?thesis using b st1 Inr p True a st2
        by (cases r2) (simp_all add: flush_round_def op_def based_def)
    qed
  qed
qed

lemma flush_base:
  assumes "store_base st" "hist_inv h" "flush [(env, h, h)] sid limit st = Some (e, st')"
  shows "based st st'"
proof -
  obtain r st1 where r: "flush_round env sid limit h h st = (r, st1)" by fastforce
  then have "st' = st1" using assms(3) by (cases r) simp_all
  then show ?thesis using flush_round_base [OF assms(1,2), of env sid limit] r by simp
qed

subsection \<open>Sessions and their records\<close>

text \<open>
  What ties the memory to the store: a session that is not closed has run at least once, its
  generation fits the record, and every stored input decision is decided in memory too.
\<close>

definition gen_ok :: "managed_session \<Rightarrow> bool" where
  "gen_ok s \<longleftrightarrow>
     l_generation (ms_lifecycle s) \<le> sql_limit \<and> (l_state (ms_lifecycle s) \<noteq> Closed \<longrightarrow> 0 < l_generation (ms_lifecycle s))"

definition linked :: "manager \<Rightarrow> store \<Rightarrow> bool" where
  "linked m st \<longleftrightarrow>
     (\<forall>(sid, key) \<in> fst ` set (st_inputs st).
        \<exists>s. map_of (mg_sessions m) sid = Some s \<and> decided (ms_inputs s) key \<noteq> None)"

lemma linked_subset:
  assumes "linked m st" "fst ` set (st_inputs st') \<subseteq> fst ` set (st_inputs st)"
  shows "linked m st'"
  unfolding linked_def
proof
  fix p
  assume "p \<in> fst ` set (st_inputs st')"
  with assms(2) have "p \<in> fst ` set (st_inputs st)" by (rule subsetD)
  with assms(1) show "case p of (sid, key) \<Rightarrow> \<exists>s. map_of (mg_sessions m) sid = Some s \<and> decided (ms_inputs s) key \<noteq> None"
    unfolding linked_def by (rule bspec)
qed

definition durable :: "manager \<Rightarrow> bool" where
  "durable m \<longleftrightarrow>
     manager_ok m \<and> (\<forall>sid s. map_of (mg_sessions m) sid = Some s \<longrightarrow> gen_ok s) \<and>
     (case mg_store m of None \<Rightarrow> False | Some st \<Rightarrow> store_base st \<and> linked m st)"

text \<open>What an operation on one session keeps.\<close>

definition safe :: "managed_session \<Rightarrow> store \<Rightarrow> managed_session \<Rightarrow> store option \<Rightarrow> bool" where
  "safe s st s' sto \<longleftrightarrow>
     gen_ok s' \<and> dom (decided (ms_inputs s)) \<subseteq> dom (decided (ms_inputs s')) \<and>
     (\<exists>st'. sto = Some st' \<and> store_base st' \<and>
        (\<forall>p \<in> fst ` set (st_inputs st'). p \<in> fst ` set (st_inputs st) \<or> fst p = ms_id s \<and> decided (ms_inputs s') (snd p) \<noteq> None))"

lemma safe_based: "gen_ok s' \<Longrightarrow> decided (ms_inputs s') = decided (ms_inputs s) \<Longrightarrow> based st st' \<Longrightarrow> safe s st s' (Some st')"
  by (simp add: safe_def based_def)

lemma safe_Some:
  "safe s st s' (Some st') \<longleftrightarrow>
     gen_ok s' \<and> dom (decided (ms_inputs s)) \<subseteq> dom (decided (ms_inputs s')) \<and> store_base st' \<and>
     (\<forall>p \<in> fst ` set (st_inputs st'). p \<in> fst ` set (st_inputs st) \<or> fst p = ms_id s \<and> decided (ms_inputs s') (snd p) \<noteq> None)"
  by (simp add: safe_def)

lemma safe_same: "gen_ok s \<Longrightarrow> store_base st \<Longrightarrow> safe s st s (Some st)"
  by (rule safe_based) (simp_all add: based_def)

lemma durable_get:
  assumes "durable m" "get_session m sid = Inr s"
  shows "gen_ok s" "session_ok (mg_config m) s" "ms_id s = sid" "\<exists>st. mg_store m = Some st \<and> store_base st \<and> linked m st"
  using assms manager_ok_get [of m sid s]
  by (auto simp: durable_def split: option.splits)

lemma durable_put:
  assumes "durable m" "get_session m sid = Inr s" "mg_store m = Some st" "keeps (mg_config m) s s'" "safe s st s' sto"
  shows "durable (put_session m sid s' sto)"
proof -
  note g = durable_get [OF assms(1,2)]
  obtain st' where st': "sto = Some st'" "store_base st'"
    "\<And>p. p \<in> fst ` set (st_inputs st') \<Longrightarrow> p \<in> fst ` set (st_inputs st) \<or> fst p = sid \<and> decided (ms_inputs s') (snd p) \<noteq> None"
    using assms(5) g(3) unfolding safe_def by blast
  have ok: "manager_ok (put_session m sid s' sto)" by (rule put_ok [OF _ assms(2,4)]) (use assms(1) in \<open>simp add: durable_def\<close>)
  have get: "map_of (mg_sessions m) sid = Some s" using assms(2) by (auto simp: get_session_def split: option.splits)
  have l: "linked m st" using g(4) assms(3) by simp
  have sub: "dom (decided (ms_inputs s)) \<subseteq> dom (decided (ms_inputs s'))" using assms(5) by (simp add: safe_def)
  have link: "linked (put_session m sid s' sto) st'"
  proof -
    have "\<exists>t. map_of (mg_sessions (put_session m sid s' sto)) k = Some t \<and> decided (ms_inputs t) key \<noteq> None"
      if p: "(k, key) \<in> fst ` set (st_inputs st')" for k key
    proof (cases "(k, key) \<in> fst ` set (st_inputs st)")
      case True
      then obtain t where "map_of (mg_sessions m) k = Some t" "decided (ms_inputs t) key \<noteq> None"
        using l unfolding linked_def by blast
      then show ?thesis using get sub by (cases "k = sid") (auto simp: put_session_def)
    next
      case False
      then show ?thesis using st'(3) [OF p] by (simp add: put_session_def)
    qed
    then show ?thesis unfolding linked_def by blast
  qed
  have "gen_ok t" if "map_of (mg_sessions (put_session m sid s' sto)) k = Some t" for k t
    using that assms(1,5) by (auto simp: put_session_def durable_def safe_def split: if_splits)
  then show ?thesis using ok link st'(1,2) by (simp add: durable_def put_session_def)
qed

lemma persist_based:
  assumes "store_base st" "l_state (ms_lifecycle s) \<noteq> Deleted"
    "l_state (ms_lifecycle s) = Creating \<or> l_state (ms_lifecycle s) = Closed \<or> 0 < l_generation (ms_lifecycle s)"
  obtains r st' where "persist now f s q (Some st) = (r, Some st')" "based st st'"
    "r = Inr () \<Longrightarrow> l_generation (ms_lifecycle s) < sql_limit"
proof -
  define op where "op = update_session now (ms_id s) (state_name q) (store_record_locked s)"
  have rec: "sr_state (store_record_locked s) = state_name (l_state (ms_lifecycle s))"
    "sr_generation (store_record_locked s) = l_generation (ms_lifecycle s)"
    by (simp_all add: store_record_locked_def snapshot_locked_def bounds_def Let_def)
  have op: "based st (snd (op st))" "fst (op st) = Inr () \<Longrightarrow> l_generation (ms_lifecycle s) < sql_limit"
  proof -
    obtain u st2 where o: "op st = (u, st2)" by fastforce
    have "\<exists>q. sr_state (store_record_locked s) = state_name q \<and> q \<noteq> Deleted \<and>
        (q = Creating \<or> q = Closed \<or> 0 < sr_generation (store_record_locked s))"
      unfolding rec using assms(2,3) by blast
    from update_session_base [OF assms(1) o [unfolded op_def] this]
    show "based st (snd (op st))" "fst (op st) = Inr () \<Longrightarrow> l_generation (ms_lifecycle s) < sql_limit"
      unfolding o rec by (simp_all add: based_def)
  qed
  obtain r st' where w: "with_fault f op st = (r, st')" by fastforce
  have "based st st'" using with_fault_result [OF w, of "based st"] op(1) assms(1) by (simp add: based_def)
  moreover have "r = Inr () \<Longrightarrow> l_generation (ms_lifecycle s) < sql_limit"
    using with_fault_Inr [of f op st "()" st'] w op(2) by simp
  moreover have "persist now f s q (Some st) = (r, Some st')"
    using w by (simp add: persist_def on_store_def op_def)
  ultimately show thesis using that by blast
qed

subsection \<open>Session operations are safe\<close>

lemma gen_ok_frame [simp]:
  "gen_ok (s\<lparr>ms_process := p\<rparr>) = gen_ok s" "gen_ok (s\<lparr>ms_live := lv\<rparr>) = gen_ok s" "gen_ok (s\<lparr>ms_exit := x\<rparr>) = gen_ok s"
  "gen_ok (s\<lparr>ms_fanout := fo\<rparr>) = gen_ok s" "gen_ok (s\<lparr>ms_worker := w\<rparr>) = gen_ok s" "gen_ok (s\<lparr>ms_persist_err := e\<rparr>) = gen_ok s"
  "gen_ok (s\<lparr>ms_command := c\<rparr>) = gen_ok s" "gen_ok (s\<lparr>ms_resize_id := i\<rparr>) = gen_ok s" "gen_ok (s\<lparr>ms_resize_time := t\<rparr>) = gen_ok s"
  "gen_ok (s\<lparr>ms_history := h\<rparr>) = gen_ok s" "gen_ok (s\<lparr>ms_inputs := j\<rparr>) = gen_ok s"
  by (simp_all add: gen_ok_def)

lemma attach_safe:
  "gen_ok s \<Longrightarrow> store_base st \<Longrightarrow> safe s st (snd (session_attach cfg s aid frm)) (Some st)"
  by (rule safe_based) (auto simp: session_attach_def based_def split: prod.split sum.split)

lemma resize_safe:
  assumes "session_ok cfg s" "gen_ok s" "store_base st"
  shows "safe s st (fst (snd (session_resize now s aid dims t failed f (Some st))))
    (snd (snd (session_resize now s aid dims t failed f (Some st))))"
proof -
  define s' where "s' = s\<lparr>ms_resize_id := aid, ms_resize_time := t, ms_command := (ms_command s)\<lparr>pc_dims := dims\<rparr>\<rparr>"
  have l: "ms_lifecycle s' = ms_lifecycle s" "decided (ms_inputs s') = decided (ms_inputs s)" "gen_ok s'"
    using assms(2) by (simp_all add: s'_def)
  have c: "l_state (ms_lifecycle s') \<noteq> Deleted" "l_state (ms_lifecycle s') = Creating \<or> l_state (ms_lifecycle s') = Closed \<or>
      0 < l_generation (ms_lifecycle s')"
    using assms(1,2) l(1) by (auto simp: session_ok_def process_ok_def gen_ok_def)
  obtain r st' where p: "persist now f s' (l_state (ms_lifecycle s')) (Some st) = (r, Some st')" "based st st'"
    by (rule persist_based [OF assms(3) c])
  have same: "safe s st s (Some st)" by (rule safe_same [OF assms(2,3)])
  have new: "safe s st s' (Some st')" by (rule safe_based [OF l(3,2) p(2)])
  show ?thesis using same new p(1) unfolding session_resize_def Let_def s'_def [symmetric] by (cases r) auto
qed

lemma put_input_safe:
  assumes "store_base st" "length hash = 32" "valid_input_key key" "f \<noteq> LostReply"
  obtains r st' where "on_store f (put_input_decision sid key (reserved_row hash now)) True (Some st) = (r, Some st')"
    "store_base st'" "fst ` set (st_inputs st') \<subseteq> insert (sid, key) (fst ` set (st_inputs st))" "r \<noteq> Inr True \<Longrightarrow> st' = st"
proof -
  obtain r st' where p: "put_input_decision sid key (reserved_row hash now) st = (r, st')" by fastforce
  have "restorable ((sid, key), reserved_row hash now)"
    using assms(2,3) by (simp add: restorable_def reserved_row_def)
  note b = put_input_base [OF assms(1) p this]
  show thesis
  proof (cases f)
    case Healthy
    then show thesis using that [of r st'] b p by (simp add: on_store_def with_fault_def)
  next
    case Failing
    then show thesis using that [of "Inl StoreFailure" st] assms(1) by (simp add: on_store_def with_fault_def subset_insertI)
  qed (use assms(4) in simp)
qed

lemma input_write_admitted:
  assumes "journal_inv j" "decided j key = None" "length (j_decisions j) < j_max j" "k_generation key = j_current j" "valid_input_key key"
  shows "input_write j key data (Some (n, failed)) =
    (Inr (public_decision (decide data n failed)), j\<lparr>j_decisions := AList.update key (decide data n failed) (j_decisions j)\<rparr>, True)"
  using assms by (simp add: input_write_def decided_def)

lemma write_decided: "dom (decided j) \<subseteq> dom (decided (fst (snd (input_write j key data w))))"
  by (cases rule: input_write_cases [of j key data w]) (auto simp: decided_def)

lemma record_decision_base:
  assumes "store_base st" "d_status d \<noteq> InputDuplicate"
  obtains r st' where "record_decision s key data d wrote f (Some st) = (r, Some st')" "store_base st'"
    "fst ` set (st_inputs st') = fst ` set (st_inputs st)"
proof -
  define op where "op = update_input_decision (ms_id s) key (sha256 data) (input_status_name (d_status d)) (d_written d) (d_error d)"
  define P where "P st' \<longleftrightarrow> store_base st' \<and> fst ` set (st_inputs st') = fst ` set (st_inputs st)" for st' :: store
  obtain r st' where w: "with_fault f op st = (r, st')" by fastforce
  have "P (snd (op st))"
    using update_input_base [OF assms(1) _ assms(2)] unfolding P_def op_def by (metis prod.collapse)
  then have "P st'" using with_fault_result [OF w, of P] assms(1) by (simp add: P_def)
  moreover have "\<exists>q. record_decision s key data d wrote f (Some st) = (q, Some st')"
    using w by (cases r) (simp_all add: record_decision_def on_store_def op_def)
  ultimately show thesis using that unfolding P_def by blast
qed

lemma write_reserved_safe:
  assumes "session_ok cfg s" "gen_ok s" "store_base st" "valid_input_key key" "f \<noteq> LostReply"
    and new: "\<not> stale_input s key" "decided (ms_inputs s) key = None" "length (j_decisions (ms_inputs s)) < j_max (ms_inputs s)"
  shows "safe s st (fst (snd (write_reserved now s key data out f f' (Some st))))
    (snd (snd (write_reserved now s key data out f f' (Some st))))"
proof -
  obtain n failed where out: "out = (n, failed)" by (cases out)
  obtain r st1 where p: "on_store f (put_input_decision (ms_id s) key (reserved_row (sha256 data) now)) True (Some st) = (r, Some st1)"
    "store_base st1" "fst ` set (st_inputs st1) \<subseteq> insert (ms_id s, key) (fst ` set (st_inputs st))" "r \<noteq> Inr True \<Longrightarrow> st1 = st"
    by (rule put_input_safe [OF assms(3) sha256_length [of data] assms(4,5), where sid = "ms_id s" and now = now]) blast
  show ?thesis
  proof (cases "r = Inr True")
    case False
    then have "st1 = st" using p(4) by blast
    then show ?thesis using False p(1) safe_same [OF assms(2,3)]
      by (cases r) (auto simp: write_reserved_def split: bool.split)
  next
    case True
    have j: "journal_inv (ms_inputs s)" "k_generation key = j_current (ms_inputs s)"
      using assms(1) new(1) by (auto simp: session_ok_def journals_ok_def stale_input_def)
    define j' where "j' = (ms_inputs s)\<lparr>j_decisions := AList.update key (decide data n failed) (j_decisions (ms_inputs s))\<rparr>"
    have w: "input_write (ms_inputs s) key data (Some out) = (Inr (public_decision (decide data n failed)), j', True)"
      unfolding out j'_def by (rule input_write_admitted [OF j(1) new(2,3) j(2) assms(4)])
    have "d_status (public_decision (decide data n failed)) \<noteq> InputDuplicate" by (simp add: public_decision_def)
    then obtain q st2 where u: "record_decision s key data (public_decision (decide data n failed)) True f' (Some st1) = (q, Some st2)"
      "store_base st2" "fst ` set (st_inputs st2) = fst ` set (st_inputs st1)"
      by (rule record_decision_base [OF p(2)])
    have dom: "dom (decided (ms_inputs s)) \<subseteq> dom (decided j')" "decided j' key \<noteq> None" by (auto simp: j'_def decided_def)
    have "x \<in> fst ` set (st_inputs st) \<or> fst x = ms_id s \<and> decided j' (snd x) \<noteq> None" if "x \<in> fst ` set (st_inputs st2)" for x
    proof -
      have "x = (ms_id s, key) \<or> x \<in> fst ` set (st_inputs st)" using that u(3) p(3) by blast
      then show ?thesis using dom(2) by (elim disjE) simp_all
    qed
    then have "safe s st (s\<lparr>ms_inputs := j'\<rparr>) (Some st2)"
      unfolding safe_Some using assms(2) dom(1) u(2) by simp
    then show ?thesis using p(1) True w u(1) by (simp add: write_reserved_def)
  qed
qed

lemma write_safe:
  assumes "session_ok cfg s" "gen_ok s" "store_base st" "valid_input_key key" "f \<noteq> LostReply"
  shows "safe s st (fst (snd (session_write now s key data out f f' (Some st))))
    (snd (snd (session_write now s key data out f f' (Some st))))"
proof -
  have same: "safe s st s (Some st)" by (rule safe_same [OF assms(2,3)])
  show ?thesis
  proof (cases "stale_input s key \<or> \<not> attached_here s (k_attachment key)")
    case True
    then show ?thesis using same by (auto simp: session_write_def)
  next
    case False
    show ?thesis
    proof (cases "input_query (ms_inputs s) key = Inl ErrInputUnknown")
      case known: False
      obtain r j w where i: "input_write (ms_inputs s) key data (Some out) = (r, j, w)" using prod_cases3 by blast
      have "dom (decided (ms_inputs s)) \<subseteq> dom (decided j)" using write_decided [of "ms_inputs s" key data "Some out"] i by simp
      then have "safe s st (s\<lparr>ms_inputs := j\<rparr>) (Some st)" using assms(2,3) by (simp add: safe_def)
      then show ?thesis using False known i by (simp add: session_write_def)
    next
      case True
      then have dec: "decided (ms_inputs s) key = None" by (auto simp: input_query_def decided_def split: option.splits)
      show ?thesis
      proof (cases "length (j_decisions (ms_inputs s)) < j_max (ms_inputs s)")
        case room: True
        then show ?thesis using write_reserved_safe [OF assms _ dec room] False True dec
          by (simp add: session_write_def input_admit_def decided_def)
      next
        case full: False
        then show ?thesis using same False True dec by (simp add: session_write_def input_admit_def decided_def)
      qed
    qed
  qed
qed

lemma stepped_gen_ok:
  "gen_ok s \<Longrightarrow> q = Closed \<or> l_state (ms_lifecycle s) \<noteq> Closed \<Longrightarrow>
   gen_ok (s\<lparr>ms_lifecycle := \<lparr>l_state = q, l_generation = l_generation (ms_lifecycle s)\<rparr>\<rparr>)"
  by (auto simp: gen_ok_def)

text \<open>Recording a session whose state may be recorded.\<close>

lemma persist_safe:
  assumes "store_base st" "gen_ok s'" "l_state (ms_lifecycle s') \<in> {Running, Exited, Closing, Closed}"
    "decided (ms_inputs s') = decided (ms_inputs s)"
  obtains r st' where "persist now f s' q (Some st) = (r, Some st')" "safe s st s' (Some st')" "based st st'"
proof -
  have c: "l_state (ms_lifecycle s') \<noteq> Deleted"
    "l_state (ms_lifecycle s') = Creating \<or> l_state (ms_lifecycle s') = Closed \<or> 0 < l_generation (ms_lifecycle s')"
    using assms(2,3) by (auto simp: gen_ok_def)
  obtain r st' where "persist now f s' q (Some st) = (r, Some st')" "based st st'"
    by (rule persist_based [OF assms(1) c])
  then show thesis using that safe_based [OF assms(2,4)] by blast
qed

lemma close_process_safe:
  assumes "gen_ok s" "store_base st" "l_state (ms_lifecycle s) = Closing"
  shows "safe s st (fst (snd (close_process env p s (Some st)))) (snd (snd (close_process env p s (Some st))))"
proof -
  define fin where "fin r = (closed_with r s)\<lparr>ms_lifecycle := \<lparr>l_state = Closed, l_generation = l_generation (ms_lifecycle s)\<rparr>\<rparr>" for r
  have st: "step_to Closed (closed_with r s) = Inr (fin r)" for r
    using assms(3) by (simp add: fin_def closed_with_def)
  have same: "safe s st s (Some st)" by (rule safe_same [OF assms(1,2)])
  have step: "\<exists>q st'. persist (cl_now env) (cl_closed env) (fin r) Closing (Some st) = (q, Some st') \<and> safe s st (fin r) (Some st')" for r
  proof -
    have "gen_ok (fin r)" "l_state (ms_lifecycle (fin r)) \<in> {Running, Exited, Closing, Closed}" "decided (ms_inputs (fin r)) = decided (ms_inputs s)"
      using assms(1) by (simp_all add: fin_def closed_with_def gen_ok_def)
    then show ?thesis using persist_safe [OF assms(2), of "fin r" s] by metis
  qed
  show ?thesis
  proof (cases "cl_term env")
    case (Terminated r)
    then show ?thesis using step [of r] by (auto simp: close_process_def Let_def st split: sum.split simp del: step_to_simps)
  next
    case (TerminateFailed r)
    then show ?thesis using step [of r] by (auto simp: close_process_def Let_def st split: sum.split simp del: step_to_simps)
  qed (simp add: close_process_def same)
qed

lemma safe_trans:
  assumes "safe s st s1 (Some st1)" "safe s1 st1 s2 sto" "ms_id s1 = ms_id s"
  shows "safe s st s2 sto"
proof -
  obtain st2 where sto: "sto = Some st2" using assms(2) by (auto simp: safe_def)
  note a = assms(1) [unfolded safe_Some] and b = assms(2) [unfolded sto safe_Some]
  have "p \<in> fst ` set (st_inputs st) \<or> fst p = ms_id s \<and> decided (ms_inputs s2) (snd p) \<noteq> None"
    if "p \<in> fst ` set (st_inputs st2)" for p
  proof (cases "p \<in> fst ` set (st_inputs st1)")
    case True
    have "p \<in> fst ` set (st_inputs st) \<or> fst p = ms_id s \<and> snd p \<in> dom (decided (ms_inputs s1))"
      using a True unfolding dom_def by blast
    then show ?thesis using b unfolding dom_def by blast
  next
    case False
    have "fst p = ms_id s1 \<and> decided (ms_inputs s2) (snd p) \<noteq> None" using b that False by blast
    then show ?thesis using assms(3) by simp
  qed
  moreover have "dom (decided (ms_inputs s)) \<subseteq> dom (decided (ms_inputs s2))"
    using a b by (elim conjE) (rule subset_trans)
  ultimately show ?thesis unfolding sto safe_Some using b by (intro conjI ballI) (elim conjE; assumption)+
qed

lemma close_safe:
  assumes "session_ok cfg s" "gen_ok s" "store_base st"
  shows "safe s st (fst (snd (session_close env s (Some st)))) (snd (snd (session_close env s (Some st))))"
proof -
  have same: "safe s st s (Some st)" by (rule safe_same [OF assms(2,3)])
  consider (closed) "l_state (ms_lifecycle s) = Closed" | (exited) "l_state (ms_lifecycle s) = Exited"
    | (running) p where "l_state (ms_lifecycle s) = Running" "ms_process s = Some p"
    | (closing) p where "l_state (ms_lifecycle s) = Closing" "ms_process s = Some p"
    using assms(1) by (auto simp: session_ok_def process_ok_def)
  then show ?thesis
  proof cases
    case closed
    then show ?thesis using same by (simp add: session_close_def)
  next
    case exited
    define s2 where "s2 = s\<lparr>ms_lifecycle := \<lparr>l_state = Closed, l_generation = l_generation (ms_lifecycle s)\<rparr>\<rparr>"
    have g: "gen_ok s2" "l_state (ms_lifecycle s2) \<in> {Running, Exited, Closing, Closed}" "decided (ms_inputs s2) = decided (ms_inputs s)"
      using assms(2) by (simp_all add: s2_def gen_ok_def)
    obtain r st' where p: "persist (cl_now env) (cl_closed env) s2 Exited (Some st) = (r, Some st')" "safe s st s2 (Some st')"
      by (rule persist_safe [OF assms(3) g])
    have "session_close env s (Some st) = close_exited env s (Some st)" using exited by (simp add: session_close_def)
    moreover have "\<exists>x. close_exited env s (Some st) = (x, s2, Some st')"
      using exited p(1) by (cases r) (simp_all add: close_exited_def s2_def)
    ultimately show ?thesis using p(2) by auto
  next
    case (closing p)
    then show ?thesis using close_process_safe [OF assms(2,3) closing(1)] by (simp add: session_close_def)
  next
    case (running p)
    define s1 where "s1 = s\<lparr>ms_live := None, ms_lifecycle := \<lparr>l_state = Closing, l_generation = l_generation (ms_lifecycle s)\<rparr>\<rparr>"
    have g: "gen_ok s1" "l_state (ms_lifecycle s1) \<in> {Running, Exited, Closing, Closed}" "decided (ms_inputs s1) = decided (ms_inputs s)"
      using assms(2) running(1) by (simp_all add: s1_def gen_ok_def)
    have st: "step_to Closing (s\<lparr>ms_live := None\<rparr>) = Inr s1" using running(1) by (simp add: s1_def)
    obtain r st' where q: "persist (cl_now env) (cl_closing env) s1 Running (Some st) = (r, Some st')" "safe s st s1 (Some st')" "based st st'"
      by (rule persist_safe [OF assms(3) g])
    have eq: "session_close env s (Some st) = close_running env p s (Some st)" using running by (simp add: session_close_def)
    show ?thesis
    proof (cases r)
      case (Inr u)
      have "close_running env p s (Some st) = close_process env p s1 (Some st')"
        using Inr q(1) by (simp add: close_running_def Let_def st del: step_to_simps)
      moreover have "safe s1 st' (fst (snd (close_process env p s1 (Some st')))) (snd (snd (close_process env p s1 (Some st'))))"
        by (rule close_process_safe [OF g(1)]) (use q(3) in \<open>simp_all add: based_def s1_def\<close>)
      ultimately show ?thesis using safe_trans [OF q(2)] eq by (simp add: s1_def)
    next
      case (Inl e)
      then have "\<exists>x s2. close_running env p s (Some st) = (x, s2, Some st') \<and> gen_ok s2 \<and> decided (ms_inputs s2) = decided (ms_inputs s)"
        using q(1) assms(2) running(1) by (simp add: close_running_def Let_def st s1_def gen_ok_def)
      then show ?thesis using eq safe_based [OF _ _ q(3)] by fastforce
    qed
  qed
qed

lemma finish_closing_safe:
  assumes "gen_ok s" "store_base st"
  shows "safe s st (fst (finish_closing env p s (Some st))) (snd (finish_closing env p s (Some st)))"
proof (cases "l_state (ms_lifecycle s) = Closing \<and> ms_process s = Some p")
  case True
  define fin where "fin r = s\<lparr>ms_exit := Some r, ms_process := None,
    ms_lifecycle := \<lparr>l_state = Closed, l_generation = l_generation (ms_lifecycle s)\<rparr>\<rparr>" for r
  have st: "step_to Closed (s\<lparr>ms_exit := Some r, ms_process := None\<rparr>) = Inr (fin r)" for r
    using True by (simp add: fin_def)
  show ?thesis
  proof (cases "cl_term env")
    case (Terminated r)
    have g: "gen_ok (fin r)" "l_state (ms_lifecycle (fin r)) \<in> {Running, Exited, Closing, Closed}"
      "decided (ms_inputs (fin r)) = decided (ms_inputs s)"
      using assms(1) by (simp_all add: fin_def gen_ok_def)
    obtain q st' where "persist (cl_now env) (cl_closed env) (fin r) Closing (Some st) = (q, Some st')" "safe s st (fin r) (Some st')"
      by (rule persist_safe [OF assms(2) g])
    then show ?thesis using True Terminated by (simp add: finish_closing_def st del: step_to_simps)
  qed (use safe_same [OF assms] in \<open>simp_all add: finish_closing_def\<close>)
qed (use safe_same [OF assms] in \<open>auto simp: finish_closing_def\<close>)

lemma capture_finish_safe:
  assumes "gen_ok s" "store_base st"
  shows "safe s st (fst (capture_finish now p e r f s (Some st))) (snd (capture_finish now p e r f s (Some st)))"
proof (cases "ms_process s = Some p \<and> l_state (ms_lifecycle s) = Running")
  case True
  define s' where "s' = s\<lparr>ms_persist_err := e, ms_lifecycle := \<lparr>l_state = Exited,
      l_generation = l_generation (ms_lifecycle s)\<rparr>, ms_exit := Some r, ms_live := None, ms_process := None\<rparr>"
  have g: "gen_ok s'" "l_state (ms_lifecycle s') \<in> {Running, Exited, Closing, Closed}" "decided (ms_inputs s') = decided (ms_inputs s)"
    using assms(1) True by (simp_all add: s'_def gen_ok_def)
  obtain q st' where "persist now f s' Running (Some st) = (q, Some st')" "safe s st s' (Some st')"
    by (rule persist_safe [OF assms(2) g])
  moreover have "capture_finish now p e r f s (Some st) = (s', snd (persist now f s' Running (Some st)))"
    using True by (simp add: capture_finish_def Let_def s'_def)
  ultimately show ?thesis by simp
next
  case False
  have "safe s st (s\<lparr>ms_persist_err := e\<rparr>) (Some st)" using safe_same [OF assms] by (simp add: safe_Some)
  then show ?thesis using False safe_same [OF assms] by (auto simp: capture_finish_def Let_def)
qed

lemma restarted_safe:
  assumes "gen_ok s" "store_base st" "0 < l_generation (ms_lifecycle s)" "l_generation (ms_lifecycle s) < sql_limit"
    "l_state (ms_lifecycle s) = Restarting"
  shows "safe s st (fst (snd (relaunch env s (Some st)))) (snd (snd (relaunch env s (Some st))))"
proof (cases "re_launch env")
  case None
  define s' where "s' = s\<lparr>ms_lifecycle := \<lparr>l_state = Closed, l_generation = l_generation (ms_lifecycle s)\<rparr>\<rparr>"
  have g: "gen_ok s'" "l_state (ms_lifecycle s') \<in> {Running, Exited, Closing, Closed}" "decided (ms_inputs s') = decided (ms_inputs s)"
    using assms(1) by (simp_all add: s'_def gen_ok_def)
  obtain q st' where "persist (re_now env) (re_running env) s' Restarting (Some st) = (q, Some st')" "safe s st s' (Some st')"
    by (rule persist_safe [OF assms(2) g])
  moreover have "relaunch env s (Some st) = (Inl MgrProcess, s', snd (persist (re_now env) (re_running env) s' Restarting (Some st)))"
    using None assms(5) by (simp add: relaunch_def Let_def s'_def)
  ultimately show ?thesis by simp
next
  case (Some p)
  define g where "g = l_generation (ms_lifecycle s) + 1"
  have g: "u64_add (l_generation (ms_lifecycle s)) 1 = g" "g \<le> sql_limit" "0 < g"
    using assms(4) sql_limit_u64 [OF assms(4)] by (auto simp: g_def u64_add_def sql_limit_def u64_limit_def)
  define s1 where "s1 = s\<lparr>ms_lifecycle := \<lparr>l_state = Running, l_generation = g\<rparr>\<rparr>"
  define s2 where "s2 = run_process p (set_generation (ms_inputs s1) g) (Some st) (s1\<lparr>ms_exit := None\<rparr>)"
  define s3 where "s3 = s2\<lparr>ms_live := None, ms_process := None, ms_lifecycle := \<lparr>l_state = Exited, l_generation = g\<rparr>\<rparr>"
  have st: "step_to Running s = Inr s1" "step_quietly Exited (s2\<lparr>ms_live := None, ms_process := None\<rparr>) = s3"
    "l_generation (ms_lifecycle s1) = g"
    using assms(5) g(1) by (simp_all add: s1_def s2_def s3_def run_process_def)
  have s2: "gen_ok s2" "l_state (ms_lifecycle s2) \<in> {Running, Exited, Closing, Closed}" "decided (ms_inputs s2) = decided (ms_inputs s)"
    using g(2,3) by (simp_all add: s2_def s1_def run_process_def gen_ok_def set_generation_def decided_def)
  obtain q st' where q: "persist (re_now env) (re_running env) s2 Restarting (Some st) = (q, Some st')" "safe s st s2 (Some st')" "based st st'"
    by (rule persist_safe [OF assms(2) s2])
  have "gen_ok s3" "decided (ms_inputs s3) = decided (ms_inputs s)" using g(2,3) s2(3) by (simp_all add: s3_def gen_ok_def)
  then have "safe s st s3 (Some st')" using safe_based q(3) by blast
  then show ?thesis using Some q(1,2)
    by (cases q) (simp_all add: relaunch_def Let_def st s2_def [symmetric] del: step_to_simps step_quietly_simps)
qed

lemma restart_safe:
  assumes "session_ok cfg s" "gen_ok s" "store_base st" "0 < l_generation (ms_lifecycle s)"
  shows "safe s st (fst (snd (session_restart env s (Some st)))) (snd (snd (session_restart env s (Some st))))"
proof (cases "l_state (ms_lifecycle s) = Exited \<or> l_state (ms_lifecycle s) = Closed")
  case True
  define s1 where "s1 = s\<lparr>ms_lifecycle := \<lparr>l_state = Restarting, l_generation = l_generation (ms_lifecycle s)\<rparr>\<rparr>"
  have nt: "\<not> (l_state (ms_lifecycle s) \<noteq> Exited \<and> l_state (ms_lifecycle s) \<noteq> Closed)" using True by simp
  have st: "step_to Restarting s = Inr s1" using True by (auto simp: s1_def)
  have c: "l_state (ms_lifecycle s1) \<noteq> Deleted"
    "l_state (ms_lifecycle s1) = Creating \<or> l_state (ms_lifecycle s1) = Closed \<or> 0 < l_generation (ms_lifecycle s1)"
    using assms(4) by (simp_all add: s1_def)
  obtain q st' where q: "persist (re_now env) (re_restarting env) s1 (l_state (ms_lifecycle s)) (Some st) = (q, Some st')" "based st st'"
    "q = Inr () \<Longrightarrow> l_generation (ms_lifecycle s1) < sql_limit"
    by (rule persist_based [OF assms(3) c]) blast
  have g1: "gen_ok s1" "decided (ms_inputs s1) = decided (ms_inputs s)" using assms(2,4) by (simp_all add: s1_def gen_ok_def)
  have s1: "safe s st s1 (Some st')" by (rule safe_based [OF g1 q(2)])
  show ?thesis
  proof (cases q)
    case (Inl e)
    have "gen_ok (step_quietly Closed s1)" "decided (ms_inputs (step_quietly Closed s1)) = decided (ms_inputs s)"
      using g1 by (simp_all add: s1_def gen_ok_def)
    from safe_based [OF this q(2)] show ?thesis using Inl q(1) nt
      by (auto simp: session_restart_def Let_def st simp del: step_to_simps step_quietly_simps)
  next
    case (Inr u)
    have "safe s1 st' (fst (snd (relaunch env s1 (Some st')))) (snd (snd (relaunch env s1 (Some st'))))"
      by (rule restarted_safe [OF g1(1)]) (use q(2,3) Inr assms(4) in \<open>simp_all add: based_def s1_def\<close>)
    from safe_trans [OF s1 this] have "safe s st (fst (snd (relaunch env s1 (Some st')))) (snd (snd (relaunch env s1 (Some st'))))"
      by (simp add: s1_def)
    then show ?thesis using Inr q(1) nt
      by (auto simp: session_restart_def Let_def st simp del: step_to_simps step_quietly_simps)
  qed
qed (use safe_same [OF assms(2,3)] in \<open>simp add: session_restart_def Let_def\<close>)

subsection \<open>Every step of the manager is durable\<close>

text \<open>
  The two exclusions: a restart of a session that has never run, and the reservation of an
  input under an invalid key or with its reply lost.
\<close>

fun guarded :: "manager \<Rightarrow> mgr_op \<Rightarrow> bool" where
  "guarded m (MWrite now sid key data out f f') \<longleftrightarrow> valid_input_key key \<and> f \<noteq> LostReply"
| "guarded m (MRestart env sid) \<longleftrightarrow>
     (case map_of (mg_sessions m) sid of None \<Rightarrow> True | Some s \<Rightarrow> 0 < l_generation (ms_lifecycle s))"
| "guarded m _ \<longleftrightarrow> True"

lemma durable_op:
  assumes "durable m"
    and "\<And>s st. session_ok (mg_config m) s \<Longrightarrow> gen_ok s \<Longrightarrow> store_base st \<Longrightarrow> mg_store m = Some st \<Longrightarrow>
      get_session m sid = Inr s \<Longrightarrow> keeps (mg_config m) s (g s) \<and> safe s st (g s) (k s)"
  shows "durable (case get_session m sid of Inl x \<Rightarrow> m | Inr s \<Rightarrow> put_session m sid (g s) (k s))"
proof (cases "get_session m sid")
  case (Inr s)
  note d = durable_get [OF assms(1) Inr]
  obtain st where st: "mg_store m = Some st" "store_base st" using d(4) by blast
  from assms(2) [OF d(2,1) st(2,1) Inr] durable_put [OF assms(1) Inr st(1)] Inr show ?thesis by simp
qed (use assms(1) in simp)

lemma session_ops_durable:
  assumes "durable m"
  shows "durable (snd (manager_attach m sid aid frm))" "durable (snd (manager_attach_live m sid aid))"
    "durable (snd (manager_resize now m sid aid dims t failed f))" "durable (snd (manager_close cenv m sid))"
    "durable (manager_capture_finish now p e result f m sid)" "durable (manager_finish_closing cenv p m sid)"
    "guarded m (MRestart renv sid) \<Longrightarrow> durable (snd (manager_restart renv m sid))"
    "guarded m (MWrite now sid key data out f f') \<Longrightarrow> durable (snd (manager_write now m sid key data out f f'))"
proof -
  have eq: "snd (manager_attach m sid aid frm) = (case get_session m sid of Inl x \<Rightarrow> m |
      Inr s \<Rightarrow> put_session m sid (snd (session_attach (mg_config m) s aid frm)) (mg_store m))"
    "snd (manager_attach_live m sid aid) = (case get_session m sid of Inl x \<Rightarrow> m |
      Inr s \<Rightarrow> put_session m sid (snd (session_attach (mg_config m) s aid (h_latest (ms_history s)))) (mg_store m))"
    "snd (manager_resize now m sid aid dims t failed f) = (case get_session m sid of Inl x \<Rightarrow> m |
      Inr s \<Rightarrow> put_session m sid (fst (snd (session_resize now s aid dims t failed f (mg_store m))))
        (snd (snd (session_resize now s aid dims t failed f (mg_store m)))))"
    "snd (manager_close cenv m sid) = (if cl_cancelled cenv then m else case get_session m sid of Inl x \<Rightarrow> m |
      Inr s \<Rightarrow> put_session m sid (fst (snd (session_close cenv s (mg_store m)))) (snd (snd (session_close cenv s (mg_store m)))))"
    "manager_capture_finish now p e result f m sid = (case get_session m sid of Inl x \<Rightarrow> m |
      Inr s \<Rightarrow> put_session m sid (fst (capture_finish now p e result f s (mg_store m)))
        (snd (capture_finish now p e result f s (mg_store m))))"
    "manager_finish_closing cenv p m sid = (case get_session m sid of Inl x \<Rightarrow> m |
      Inr s \<Rightarrow> put_session m sid (fst (finish_closing cenv p s (mg_store m))) (snd (finish_closing cenv p s (mg_store m))))"
    "snd (manager_restart renv m sid) = (case get_session m sid of Inl x \<Rightarrow> m |
      Inr s \<Rightarrow> put_session m sid (fst (snd (session_restart renv s (mg_store m))))
        (snd (snd (session_restart renv s (mg_store m)))))"
    "snd (manager_write now m sid key data out f f') = (case get_session m sid of Inl x \<Rightarrow> m |
      Inr s \<Rightarrow> put_session m sid (fst (snd (session_write now s key data out f f' (mg_store m))))
        (snd (snd (session_write now s key data out f f' (mg_store m)))))"
    by (simp_all add: manager_attach_def manager_attach_live_def manager_write_def manager_resize_def manager_restart_def
        manager_close_def manager_capture_finish_def manager_finish_closing_def bounds_def split: sum.split prod.split)
  note op = durable_op [OF assms]
  show "durable (snd (manager_attach m sid aid frm))" "durable (snd (manager_attach_live m sid aid))"
    unfolding eq(1,2) by (rule op; simp add: session_attach_keeps attach_safe)+
  show "durable (snd (manager_resize now m sid aid dims t failed f))"
    unfolding eq(3) by (rule op) (simp add: resize_keeps resize_safe)
  show "durable (manager_capture_finish now p e result f m sid)" "durable (manager_finish_closing cenv p m sid)"
    unfolding eq(5,6) by (rule op; simp add: capture_finish_keeps capture_finish_safe finish_closing_keeps finish_closing_safe)+
  show "durable (snd (manager_close cenv m sid))"
  proof (cases "cl_cancelled cenv")
    case False
    then show ?thesis unfolding eq(4) if_not_P [OF False] by (intro op) (simp add: close_keeps close_safe)
  qed (simp add: eq(4) assms)
  show "guarded m (MRestart renv sid) \<Longrightarrow> durable (snd (manager_restart renv m sid))"
    unfolding eq(7) by (rule op) (auto simp: restart_keeps get_session_def split: option.splits intro!: restart_safe)
  show "guarded m (MWrite now sid key data out f f') \<Longrightarrow> durable (snd (manager_write now m sid key data out f f'))"
    unfolding eq(8) by (rule op) (simp add: write_keeps write_safe)
qed

lemma based_safe: "gen_ok s' \<Longrightarrow> decided (ms_inputs s') = decided (ms_inputs s) \<Longrightarrow> store_base st \<Longrightarrow> safe s st s' (Some st)"
  by (rule safe_based) (simp_all add: based_def)

lemma memory_durable:
  assumes "durable m" "get_session m sid = Inr s" "keeps (mg_config m) s s'"
    "ms_lifecycle s' = ms_lifecycle s" "ms_inputs s' = ms_inputs s"
  shows "durable (put_session m sid s' (mg_store m))"
proof -
  note d = durable_get [OF assms(1,2)]
  obtain st where st: "mg_store m = Some st" "store_base st" using d(4) by blast
  have "safe s st s' (mg_store m)" unfolding st(1) using d(1) st(2) assms(4,5) by (intro based_safe) (simp_all add: gen_ok_def)
  from durable_put [OF assms(1,2) st(1) assms(3) this] show ?thesis .
qed

lemma stored_durable:
  assumes "durable m" "get_session m sid = Inr s" "mg_store m = Some st" "keeps (mg_config m) s s'"
    "ms_lifecycle s' = ms_lifecycle s" "ms_inputs s' = ms_inputs s" "based st st'"
  shows "durable (put_session m sid s' (Some st'))"
proof -
  have "gen_ok s'" using durable_get(1) [OF assms(1,2)] assms(5) by (simp add: gen_ok_def)
  then show ?thesis using durable_put [OF assms(1-4)] safe_based [OF _ _ assms(7), of s' s] assms(6) by simp
qed

lemma durable_store:
  assumes "durable m" "mg_store m = Some st" "store_base st'" "fst ` set (st_inputs st') \<subseteq> fst ` set (st_inputs st)"
  shows "durable (m\<lparr>mg_store := Some st'\<rparr>)"
proof -
  have "linked m st" using assms(1,2) by (simp add: durable_def)
  then have "linked m st'" by (rule linked_subset [OF _ assms(4)])
  then show ?thesis using assms(1,3) by (simp add: durable_def linked_def)
qed

lemma other_ops_durable:
  assumes "durable m"
  shows "durable (snd (manager_detach m sid aid))" "durable (snd (manager_next m sid aid))"
    "durable (snd (manager_acknowledge m sid aid n))" "durable (manager_capture m sid data)"
proof -
  have ok: "session_ok (mg_config m) s" if "get_session m sid = Inr s" for s
    using durable_get(2) [OF assms that] .
  note p = memory_durable [OF assms]
  show "durable (snd (manager_detach m sid aid))" "durable (snd (manager_next m sid aid))"
    using assms p ok fanout_keeps by (auto simp: manager_detach_def manager_next_def split: sum.split prod.split)
  show "durable (snd (manager_acknowledge m sid aid n))"
    using assms p ok ack_keeps by (auto simp: manager_acknowledge_def split: sum.split prod.split)
  have "ms_lifecycle (session_capture s data) = ms_lifecycle s" "ms_inputs (session_capture s data) = ms_inputs s" for s
    by (auto simp: session_capture_def split: prod.split sum.split)
  then show "durable (manager_capture m sid data)"
    using assms p ok capture_keeps by (auto simp: manager_capture_def split: sum.split)
qed

lemma clear_durable:
  assumes "durable m"
  shows "durable (snd (manager_clear now m sid f))"
proof (cases "get_session m sid")
  case (Inr s)
  note d = durable_get [OF assms Inr]
  obtain st where st: "mg_store m = Some st" "store_base st" using d(4) by blast
  define op where "op = clear_output now (ms_id s) (h_latest (ms_history s))"
  obtain r st' where w: "with_fault f op st = (r, st')" by fastforce
  have "based st (snd (op st))" using clear_output_base [OF st(2)] unfolding op_def based_def by (metis prod.collapse)
  then have b: "based st st'" using with_fault_result [OF w, of "based st"] st(2) by (simp add: based_def)
  have e: "durable (m\<lparr>mg_store := Some st'\<rparr>)" using b by (intro durable_store [OF assms st(1)]) (auto simp: based_def)
  have k: "durable (put_session m sid (s\<lparr>ms_history := snd (clear (ms_history s))\<rparr>) (Some st'))"
    by (rule stored_durable [OF assms Inr st(1) clear_keeps [OF d(2)] _ _ b]) simp_all
  show ?thesis using Inr st(1) w e k
    by (cases r) (auto simp: manager_clear_def on_store_def op_def split: prod.split)
qed (simp add: manager_clear_def assms)

lemma worker_durable:
  assumes "durable m"
  shows "durable (manager_worker env m sid)" "durable (snd (manager_stop_worker env m sid))"
proof -
  have "durable (manager_worker env m sid) \<and> durable (snd (manager_stop_worker env m sid))"
  proof (cases "get_session m sid")
    case (Inr s)
    note d = durable_get [OF assms Inr]
    obtain st where st: "mg_store m = Some st" "store_base st" using d(4) by blast
    let ?h = "ms_history s" and ?n = "mc_history_bytes (mg_config m)"
    have h: "hist_inv ?h" using d(2) by (simp add: session_ok_def journals_ok_def)
    have refl: "based st st" using st(2) by (simp add: based_def)
    have fl: "based st st'" if "flush [(env, ?h, ?h)] (ms_id s) ?n st = Some (e, st')" for e st'
      by (rule flush_base [OF st(2) h that])
    have put: "durable (put_session m sid (s\<lparr>ms_worker := w\<rparr>) (Some st'))" if "based st st'" for w st'
      by (rule stored_durable [OF assms Inr st(1) worker_keeps [OF d(2)] _ _ that]) simp_all
    have same: "durable (put_session m sid s (Some st))"
      by (rule stored_durable [OF assms Inr st(1) keeps_refl [OF d(2)] _ _ refl]) simp_all
    have "durable (manager_worker env m sid)"
    proof (cases "ms_worker s")
      case (Some w)
      have "based st st'" if "worker_timer [(env, ?h, ?h)] (ms_id s) ?n (worker_notify w) st = Some (w', st')" for w' st'
        using that refl fl by (auto simp: worker_timer_def simp del: flush.simps split: if_splits option.splits)
      then show ?thesis using Inr Some st(1) put assms
        by (auto simp: manager_worker_def simp del: flush.simps split: option.split prod.split)
    qed (simp add: manager_worker_def Inr assms)
    moreover have "durable (put_session m sid s' sto)"
      if "stop_output_persistence [(env, ?h, ?h)] ?n s (Some st) = Some (e, s', sto)" for e s' sto
      using that refl fl put same by (auto simp: stop_output_persistence_def simp del: flush.simps split: option.splits)
    ultimately show ?thesis using Inr st(1) assms
      by (auto simp: manager_stop_worker_def split: option.split prod.split)
  qed (simp add: manager_worker_def manager_stop_worker_def assms)
  then show "durable (manager_worker env m sid)" "durable (snd (manager_stop_worker env m sid))" by simp_all
qed

lemma on_store_result:
  assumes "on_store f op d (Some st) = (r, sto)" "P st" "P (snd (op st))"
  obtains st' where "sto = Some st'" "P st'"
  using assms with_fault_result [of f op st r _ P] by (auto simp: on_store_def split: prod.splits)

lemma discard_base:
  assumes "store_base st" "l_state (ms_lifecycle s) \<noteq> Deleted"
    "l_state (ms_lifecycle s) = Creating \<or> l_state (ms_lifecycle s) = Closed \<or> 0 < l_generation (ms_lifecycle s)"
  obtains st' where "discard_failed_create now f f' s q (Some st) = Some st'" "store_base st'"
    "fst ` set (st_inputs st') \<subseteq> fst ` set (st_inputs st)"
proof -
  obtain r st1 where p: "persist now f s q (Some st) = (r, Some st1)" "based st st1"
    by (rule persist_based [OF assms])
  define P where "P st' \<longleftrightarrow> store_base st' \<and> fst ` set (st_inputs st') \<subseteq> fst ` set (st_inputs st)" for st' :: store
  obtain u st2 where d: "delete_session (ms_id s) st1 = (u, st2)" by fastforce
  have b1: "store_base st1" "st_inputs st1 = st_inputs st" using p(2) by (simp_all add: based_def)
  have "P st1" "P st2" using b1 delete_session_base [OF b1(1) d] by (auto simp: P_def)
  then obtain st' where "discard_failed_create now f f' s q (Some st) = Some st'" "P st'"
    using on_store_result [of f' "delete_session (ms_id s)" "()" st1 _ _ P] p(1) d
    by (metis discard_failed_create_def prod.collapse snd_conv)
  then show thesis using that by (simp add: P_def)
qed

lemma launch_durable:
  assumes "durable m" "mg_store m = Some st" "based st st1" "map_of (mg_sessions m) sid = None"
    and ok: "manager_ok (snd (launch_created env m (blank_session sid name command h) (Some st1)))"
  shows "durable (snd (launch_created env m (blank_session sid name command h) (Some st1)))"
proof -
  define s where "s = blank_session sid name command h"
  have l: "ms_lifecycle s = \<lparr>l_state = Creating, l_generation = 0\<rparr>" by (simp add: s_def blank_session_def new_lifecycle_def)
  have b1: "store_base st1" "st_inputs st1 = st_inputs st" using assms(3) by (simp_all add: based_def)
  have drop: "durable (m\<lparr>mg_store := Some st2\<rparr>)" if "store_base st2" "fst ` set (st_inputs st2) \<subseteq> fst ` set (st_inputs st1)" for st2
    using durable_store [OF assms(1,2) that(1)] that(2) b1(2) by simp
  show ?thesis
  proof (cases "cr_launch env")
    case None
    have c: "l_state (ms_lifecycle (step_quietly Closed s)) \<noteq> Deleted"
      "l_state (ms_lifecycle (step_quietly Closed s)) = Creating \<or> l_state (ms_lifecycle (step_quietly Closed s)) = Closed \<or>
       0 < l_generation (ms_lifecycle (step_quietly Closed s))"
      using l by simp_all
    obtain st2 where "discard_failed_create (cr_now env) (cr_discard env) (cr_delete env) (step_quietly Closed s) Creating (Some st1) = Some st2"
      "store_base st2" "fst ` set (st_inputs st2) \<subseteq> fst ` set (st_inputs st1)"
      by (rule discard_base [OF b1(1) c])
    then show ?thesis using None drop by (simp add: launch_created_def s_def del: step_quietly_simps)
  next
    case (Some p)
    define s1 where "s1 = s\<lparr>ms_lifecycle := \<lparr>l_state = Running, l_generation = 1\<rparr>\<rparr>"
    have stp: "step_to Running s = Inr s1" using l by (simp add: s1_def u64_add_def u64_limit_def)
    have c: "l_state (ms_lifecycle s1) \<noteq> Deleted"
      "l_state (ms_lifecycle s1) = Creating \<or> l_state (ms_lifecycle s1) = Closed \<or> 0 < l_generation (ms_lifecycle s1)"
      by (simp_all add: s1_def)
    obtain r st2 where p: "persist (cr_now env) (cr_persist env) s1 Creating (Some st1) = (r, Some st2)" "based st1 st2"
      by (rule persist_based [OF b1(1) c])
    have b2: "store_base st2" "st_inputs st2 = st_inputs st" using p(2) b1(2) by (simp_all add: based_def)
    show ?thesis
    proof (cases r)
      case (Inl e)
      obtain st3 where "discard_failed_create (cr_now env) (cr_discard env) (cr_delete env) s1 Creating (Some st2) = Some st3"
        "store_base st3" "fst ` set (st_inputs st3) \<subseteq> fst ` set (st_inputs st2)"
        by (rule discard_base [OF b2(1) c])
      then show ?thesis using Some Inl p(1) stp drop b1(2) b2(2) by (simp add: launch_created_def s_def [symmetric] del: step_to_simps)
    next
      case (Inr u)
      define s2 where "s2 = run_process p (new_input_journal 1 (nat (mc_max_inputs (mg_config m)))) (Some st2) s1"
      have m': "snd (launch_created env m s (Some st1)) = m\<lparr>mg_sessions := AList.update sid s2 (mg_sessions m),
          mg_names := AList.update name sid (mg_names m), mg_store := Some st2\<rparr>"
        using Some Inr p(1) stp by (simp add: launch_created_def Let_def s2_def s1_def s_def blank_session_def del: step_to_simps)
      have g: "gen_ok s2" by (simp add: s2_def run_process_def s1_def gen_ok_def sql_limit_def)
      have lk: "linked m st" using assms(1,2) by (simp add: durable_def)
      have "linked (m\<lparr>mg_sessions := AList.update sid s2 (mg_sessions m), mg_names := AList.update name sid (mg_names m),
          mg_store := Some st2\<rparr>) st2"
        using lk assms(4) b2(2) unfolding linked_def by fastforce
      then show ?thesis
        using ok [folded s_def] assms(1) b2(1) g unfolding s_def [symmetric] m' by (auto simp: durable_def split: if_splits)
    qed
  qed
qed

lemma manager_create_cases:
  obtains (refused) e where "manager_create env m requested name command = (Inl e, m)"
  | (tried) sid h where "map_of (mg_sessions m) sid = None"
      "manager_create env m requested name command =
        (case on_store (cr_insert env) (create_session (cr_now env) (creating_row sid name command)) () (mg_store m) of
           (Inl e, sto) \<Rightarrow> (Inl (MgrStore e), m\<lparr>mg_store := sto\<rparr>)
         | (Inr _, sto) \<Rightarrow> launch_created env m (blank_session sid name command h) sto)"
proof (cases "\<not> valid_session_name name \<or> cr_cancelled env \<or> mg_stopping m \<or>
    int (length (mg_sessions m)) \<ge> mc_max_sessions (mg_config m) \<or> map_of (mg_names m) name \<noteq> None")
  case True
  then have "\<exists>e. manager_create env m requested name command = (Inl e, m)"
    unfolding manager_create_def
    by (cases "valid_session_name name"; cases "cr_cancelled env"; cases "mg_stopping m";
        cases "mc_max_sessions (mg_config m) \<le> int (length (mg_sessions m))"; cases "map_of (mg_names m) name") simp_all
  then show thesis using refused by blast
next
  case False
  show thesis
  proof (cases "choose_id (mg_sessions m) requested (cr_random env)")
    case (Inl e)
    then show thesis using False refused by (simp add: manager_create_def)
  next
    case sid: (Inr sid)
    show thesis
    proof (cases "new_history (mc_history_bytes (mg_config m))")
      case (Inl e)
      then show thesis using False sid refused by (simp add: manager_create_def)
    next
      case (Inr h)
      show thesis
        by (rule tried [of sid h]) (use False sid Inr choose_id_fresh [OF sid] in \<open>simp_all add: manager_create_def\<close>)
    qed
  qed
qed

lemma create_durable:
  assumes "durable m"
  shows "durable (snd (manager_create env m requested name command))"
proof (cases rule: manager_create_cases [of env m requested name command])
  case (refused e)
  then show ?thesis using assms by simp
next
  case (tried sid h)
  have mok: "manager_ok (snd (manager_create env m requested name command))"
    using assms by (intro create_ok) (simp add: durable_def)
  obtain st where st: "mg_store m = Some st" "store_base st" using assms by (auto simp: durable_def split: option.splits)
  define op where "op = create_session (cr_now env) (creating_row sid name command)"
  obtain r sto where o: "on_store (cr_insert env) op () (Some st) = (r, sto)" by fastforce
  have "based st (snd (op st))" using create_session_base [OF st(2)] unfolding op_def based_def by (metis prod.collapse)
  then obtain st1 where st1: "sto = Some st1" "based st st1"
    using on_store_result [OF o, of "based st"] st(2) by (auto simp: based_def)
  show ?thesis
  proof (cases r)
    case (Inl e)
    then show ?thesis using tried(2) o st(1) st1 durable_store [OF assms st(1), of st1] by (simp add: op_def based_def)
  next
    case (Inr u)
    then have "manager_create env m requested name command = launch_created env m (blank_session sid name command h) (Some st1)"
      using tried(2) o st(1) st1(1) by (simp add: op_def)
    then show ?thesis using launch_durable [OF assms st(1) st1(2) tried(1)] mok by simp
  qed
qed

lemma delete_durable:
  assumes "durable m"
  shows "durable (snd (manager_delete f m sid))"
proof (cases "get_session m sid")
  case (Inr s)
  have mok: "manager_ok (snd (manager_delete f m sid))" using assms by (intro delete_ok) (simp add: durable_def)
  obtain st where st: "mg_store m = Some st" "store_base st" "linked m st"
    using assms by (auto simp: durable_def split: option.splits)
  obtain u st2 where d: "delete_session sid st = (u, st2)" by fastforce
  note b = delete_session_base [OF st(2) d]
  define P where "P st' \<longleftrightarrow> store_base st' \<and> fst ` set (st_inputs st') \<subseteq> fst ` set (st_inputs st)" for st' :: store
  obtain r sto where o: "on_store f (delete_session sid) () (Some st) = (r, sto)" by fastforce
  have "P st" "P st2" using st(2) b by (auto simp: P_def)
  then obtain st1 where st1: "sto = Some st1" "P st1" using on_store_result [OF o, of P] d by auto
  have keep: "durable (m\<lparr>mg_store := Some st1\<rparr>)"
    using durable_store [OF assms st(1)] st1(2) by (simp add: P_def)
  show ?thesis
  proof (cases "(l_state (ms_lifecycle s) = Exited \<or> l_state (ms_lifecycle s) = Closed) \<and> r = Inr ()")
    case False
    then show ?thesis using Inr o st(1) st1(1) assms keep
      by (cases r) (auto simp: manager_delete_def)
  next
    case True
    then have "st1 = st2" "u = Inr ()" using o st1(1) d by (cases f; auto simp: on_store_def with_fault_def)+
    then have gone: "sid \<notin> (fst \<circ> fst) ` set (st_inputs st1)" using b by simp
    have m': "snd (manager_delete f m sid) = m\<lparr>mg_sessions := AList.delete sid (mg_sessions m),
        mg_names := AList.delete (ms_name s) (mg_names m), mg_store := Some st1\<rparr>"
      using True Inr o st(1) st1(1) by (auto simp: manager_delete_def)
    have l1: "linked m st1" by (rule linked_subset [OF st(3)]) (use st1(2) in \<open>simp add: P_def\<close>)
    have "linked (snd (manager_delete f m sid)) st1"
      unfolding linked_def m'
    proof
      fix p
      assume p: "p \<in> fst ` set (st_inputs st1)"
      obtain k key where pk: "p = (k, key)" by (cases p)
      have "k \<noteq> sid" using gone p pk by force
      moreover obtain t where "map_of (mg_sessions m) k = Some t" "decided (ms_inputs t) key \<noteq> None"
        using bspec [OF l1 [unfolded linked_def] p] pk by auto
      ultimately show "case p of (sida, key) \<Rightarrow> \<exists>s'. map_of (mg_sessions (m\<lparr>mg_sessions := AList.delete sid (mg_sessions m),
          mg_names := AList.delete (ms_name s) (mg_names m), mg_store := Some st1\<rparr>)) sida = Some s' \<and> decided (ms_inputs s') key \<noteq> None"
        using pk by simp
    qed
    then show ?thesis using mok assms st1(2) m' by (auto simp: durable_def P_def split: if_splits)
  qed
qed (simp add: manager_delete_def assms)

lemma close_all_durable: "durable m \<Longrightarrow> durable (snd (close_all env sids m))"
proof (induction sids arbitrary: m)
  case (Cons sid sids)
  have "durable (snd (manager_close (env sid) m sid))" by (rule session_ops_durable [OF Cons.prems])
  moreover have "snd (close_all env (sid # sids) m) = snd (close_all env sids (snd (manager_close (env sid) m sid)))"
    by (simp split: prod.split)
  ultimately show ?case using Cons.IH by simp
qed simp

lemma durable_stopping [simp]: "durable (m\<lparr>mg_stopping := b\<rparr>) = durable m"
  by (simp add: durable_def linked_def split: option.split)

lemma mgr_step_durable:
  assumes "durable m" "guarded m x"
  shows "durable (mgr_step m x)"
  using assms
  by (cases x) (simp_all add: create_durable session_ops_durable other_ops_durable clear_durable worker_durable
      delete_durable close_all_durable manager_shutdown_def del: guarded.simps)

end
