(* ===== verification/Crash_Recovery.thy ===== *)
theory Crash_Recovery
  imports Durable_Sessions
begin

section \<open>Crash recovery\<close>

text \<open>
  \<open>recover\<close> and \<open>NewManager\<close> of \<open>src/internal/session/manager.go\<close> over a store left behind
  by a process that may have died between any two steps: the start succeeds, brings back
  every stored session, and the manager it builds again satisfies its invariants.
\<close>

subsection \<open>Restoring input decisions\<close>

definition inputs_of :: "string \<Rightarrow> store \<Rightarrow> ((string \<times> input_key) \<times> input_row) list" where
  "inputs_of sid st = filter (\<lambda>p. fst (fst p) = sid) (st_inputs st)"

definition fits :: "nat \<Rightarrow> store \<Rightarrow> bool" where
  "fits n st \<longleftrightarrow> (\<forall>sid. length (inputs_of sid st) \<le> n)"

lemma inputs_of_keys:
  assumes "keys_distinct (st_inputs st)"
  shows "distinct (map (snd \<circ> fst) (inputs_of sid st))"
proof -
  have "distinct (map fst (inputs_of sid st))"
    using assms keys_distinct_filter [of "st_inputs st" "\<lambda>p. fst (fst p) = sid"] by (simp add: inputs_of_def keys_distinct_def)
  moreover have "inj_on snd (set (map fst (inputs_of sid st)))"
    by (auto simp: inj_on_def inputs_of_def)
  ultimately have "distinct (map snd (map fst (inputs_of sid st)))" by (simp only: distinct_map)
  then show ?thesis by simp
qed

lemma durable_fits:
  assumes "durable m" "mg_store m = Some st"
  shows "fits (nat (mc_max_inputs (mg_config m))) st"
  unfolding fits_def
proof
  fix sid
  have base: "store_base st" "linked m st" using assms by (simp_all add: durable_def)
  show "length (inputs_of sid st) \<le> nat (mc_max_inputs (mg_config m))"
  proof (cases "inputs_of sid st")
    case (Cons p ps)
    have sub: "\<exists>s. map_of (mg_sessions m) sid = Some s \<and> key \<in> dom (decided (ms_inputs s))"
      if "key \<in> set (map (snd \<circ> fst) (inputs_of sid st))" for key
    proof -
      have "(sid, key) \<in> fst ` set (st_inputs st)" using that by (force simp: inputs_of_def)
      then show ?thesis using bspec [OF base(2) [unfolded linked_def]] by fastforce
    qed
    have "snd (fst p) \<in> set (map (snd \<circ> fst) (inputs_of sid st))" using Cons by simp
    then obtain s where s: "map_of (mg_sessions m) sid = Some s" using sub by blast
    have "session_ok (mg_config m) s" using assms(1) s by (simp add: durable_def manager_ok_def)
    then have j: "journal_inv (ms_inputs s)" "j_max (ms_inputs s) = nat (mc_max_inputs (mg_config m))"
      by (simp_all add: session_ok_def journals_ok_def)
    have "set (map (snd \<circ> fst) (inputs_of sid st)) \<subseteq> fst ` set (j_decisions (ms_inputs s))"
      using sub s by (fastforce simp: decided_def dom_map_of_conv_image_fst)
    then have "card (set (map (snd \<circ> fst) (inputs_of sid st))) \<le> card (fst ` set (j_decisions (ms_inputs s)))"
      by (intro card_mono) simp_all
    also have "\<dots> \<le> length (j_decisions (ms_inputs s))"
      by (metis card_image_le card_length finite_set le_trans)
    also have "\<dots> \<le> nat (mc_max_inputs (mg_config m))" using j by (simp add: journal_inv_def)
    finally show ?thesis
      using distinct_card [OF inputs_of_keys] base(1) by (simp add: store_base_def tables_wf_def)
  qed simp
qed

lemma restore_inputs_ok:
  assumes "\<forall>(key, row) \<in> set rows. restorable ((sid, key), row)" "distinct (map fst rows)"
    "\<forall>key \<in> fst ` set rows. decided j key = None" "length (j_decisions j) + length rows \<le> j_max j"
  shows "\<exists>j'. restore_inputs j rows = Inr j' \<and> dom (decided j') = dom (decided j) \<union> fst ` set rows"
  using assms
proof (induction rows arbitrary: j)
  case (Cons p rows)
  obtain key row where p: "p = (key, row)" by (cases p)
  obtain q where q: "length (ir_hash row) = 32" "valid_input_key key" "parse_input_status (ir_status row) = Some q" "q \<noteq> InputDuplicate"
    using Cons.prems(1) p by (auto simp: restorable_def)
  define j1 where "j1 = j\<lparr>j_decisions := AList.update key
    \<lparr>d_status = q, d_written = ir_written row, d_error = ir_error row, d_hash = ir_hash row\<rparr> (j_decisions j)\<rparr>"
  have n: "map_of (j_decisions j) key = None" using Cons.prems(3) p by (simp add: decided_def)
  have r: "input_restore j key (ir_hash row) (ir_status row) (ir_written row) (ir_error row) = Inr j1"
    using q n Cons.prems(4) by (simp add: input_restore_def j1_def)
  have d: "decided j1 = (decided j)(key \<mapsto> \<lparr>d_status = q, d_written = ir_written row, d_error = ir_error row, d_hash = ir_hash row\<rparr>)"
    by (simp add: j1_def decided_def)
  have len: "length (j_decisions j1) + length rows \<le> j_max j1"
    using Cons.prems(4) n by (simp add: j1_def length_update_new)
  have "key \<notin> fst ` set rows" using Cons.prems(2) p by simp
  then have "\<forall>k \<in> fst ` set rows. decided j1 k = None" unfolding d using Cons.prems(3) by auto
  then obtain j' where "restore_inputs j1 rows = Inr j'" "dom (decided j') = dom (decided j1) \<union> fst ` set rows"
    using Cons.IH [of j1] Cons.prems(1,2) len by auto
  then show ?case using p r d by auto
qed simp

lemma input_decisions_ok:
  assumes "store_base st" "length (inputs_of sid st) \<le> n"
  obtains j where "restore_inputs (new_input_journal g n) (input_decisions sid st) = Inr j"
    "dom (decided j) = {key. (sid, key) \<in> fst ` set (st_inputs st)}"
proof -
  define xs where "xs = sort_key input_order (inputs_of sid st)"
  have id: "input_decisions sid st = map (\<lambda>p. (snd (fst p), snd p)) xs" by (simp add: input_decisions_def xs_def inputs_of_def)
  have xs: "set xs = set (inputs_of sid st)" "length xs = length (inputs_of sid st)"
    by (simp_all add: xs_def)
  have "distinct (map (snd \<circ> fst) (inputs_of sid st))"
    using assms(1) inputs_of_keys by (simp add: store_base_def tables_wf_def)
  then have "distinct (map (snd \<circ> fst) xs)"
    by (simp add: distinct_map xs_def)
  then have dist: "distinct (map fst (input_decisions sid st))" by (simp add: id comp_def)
  have rest: "\<forall>(key, row) \<in> set (input_decisions sid st). restorable ((sid, key), row)"
    using assms(1) xs(1) by (auto simp: id inputs_of_def store_base_def list_all_iff)
  have keys: "fst ` set (input_decisions sid st) = {key. (sid, key) \<in> fst ` set (st_inputs st)}"
    using xs(1) by (force simp: id inputs_of_def)
  have dn: "decided (new_input_journal g n) = (\<lambda>_. None)" by (simp add: decided_def new_input_journal_def)
  obtain j where "restore_inputs (new_input_journal g n) (input_decisions sid st) = Inr j"
    "dom (decided j) = fst ` set (input_decisions sid st)"
    using restore_inputs_ok [OF rest dist, of "new_input_journal g n"] assms(2) xs(2) dn
    by (auto simp: new_input_journal_def id)
  then show thesis using that keys by simp
qed

subsection \<open>Recovering one record\<close>

lemma replay_all:
  assumes "chain a evs b" "b < u64_limit" "\<forall>e \<in> set evs. ev_data e \<noteq> []" "frm \<le> a"
  shows "fst (replay_loop frm 0 r to evs) = evs"
  using assms
proof (induction evs arbitrary: a r to)
  case (Cons e evs)
  have e: "start_seq e = a" "end_seq e = a + length (ev_data e)" "chain (end_seq e) evs b" "ev_data e \<noteq> []"
    using Cons.prems(1,3) by auto
  have le: "end_seq e \<le> b" using e(3) by (rule chain_le)
  have sl: "slice_event e a (end_seq e) = e"
    using e(1,2) le Cons.prems(2) by (simp add: slice_event_def)
  have "fst (replay_loop frm 0 r' (end_seq e) evs) = evs" for r'
    using Cons.IH [OF e(3) Cons.prems(2)] Cons.prems(3,4) e(2) by simp
  moreover have "0 < length (ev_data e)" using e(4) by simp
  then have "\<not> end_seq e \<le> frm" "max frm a = a" "a < end_seq e" using e(2) Cons.prems(4) by linarith+
  ultimately show ?case using e(1) sl by (simp add: replay_loop.simps(2) Let_def case_prod_beta)
qed simp

lemma store_replay_rows:
  assumes "output_wf sid st"
  shows "store_replay sid (out_lo sid st) 0 st = Inr (rows_of st sid, out_lo sid st, out_hi sid st)"
proof (rule output_wfE [OF assms])
  fix r
  assume r: "map_of (st_sessions st) sid = Some r" "chain (sr_earliest r) (rows_of st sid) (sr_latest r)"
    "sr_latest r < sql_limit" "\<forall>e \<in> set (rows_of st sid). ev_data e \<noteq> []"
    "out_lo sid st = sr_earliest r" "out_hi sid st = sr_latest r" "sr_earliest r \<le> sr_latest r"
  have "fst (replay_loop (sr_earliest r) 0 0 (sr_earliest r) (rows_of st sid)) = rows_of st sid"
    by (rule replay_all [OF r(2) sql_limit_u64 [OF r(3)] r(4) order_refl])
  then show ?thesis using r(1,5-7) by (simp add: store_replay_def replay_loop_filter)
qed

lemma recovered_record_spec:
  assumes "row_ok r"
  obtains r' where "recovered_record now sg r = Inr r'" "sr_state r' = ''exited'' \<or> sr_state r' = ''closed''"
    "sr_state r' = ''exited'' \<Longrightarrow> 0 < sr_generation r" "sr_generation r' = sr_generation r"
    "sr_id r' = sr_id r" "sr_name r' = sr_name r" "sr_columns r' = sr_columns r" "sr_rows r' = sr_rows r"
proof -
  obtain q where q: "parse_state (sr_state r) = Some q" "q \<noteq> Deleted" "q = Creating \<or> q = Closed \<or> 0 < sr_generation r"
    using assms by (auto simp: row_ok_def split: option.splits)
  have s: "sr_state r = state_name q" by (rule parse_state_Some [OF q(1)])
  define closed where "closed = r\<lparr>sr_state := ''closed''\<rparr>"
  define exited where "exited = r\<lparr>sr_state := ''exited'', sr_exit_code := Some 255, sr_exit_signal := sg, sr_exited_at := Some now\<rparr>"
  have rec: "recovered_record now sg r = (if q = Creating \<or> q = Closing then Inr closed
      else if q = Running \<or> q = Restarting then Inr exited else Inr r)"
    using q(1,2) unfolding recovered_record_def closed_def exited_def by (cases q) simp_all
  show thesis
  proof (cases "q = Creating \<or> q = Closing")
    case True
    show thesis by (rule that [of closed]) (use True rec in \<open>simp_all add: closed_def\<close>)
  next
    case c: False
    show thesis
    proof (cases "q = Running \<or> q = Restarting")
      case True
      show thesis by (rule that [of exited]) (use True c rec q(3) in \<open>auto simp: exited_def\<close>)
    next
      case False
      then have "q = Exited \<or> q = Closed" using c q(2) by (cases q) simp_all
      then show thesis using c False rec s q(3) by (intro that [of r]) auto
    qed
  qed
qed

definition sound_row :: "manager_config \<Rightarrow> session_row \<Rightarrow> store \<Rightarrow> managed_session \<Rightarrow> bool" where
  "sound_row cfg r st s \<longleftrightarrow>
     session_ok cfg s \<and> gen_ok s \<and> ms_id s = sr_id r \<and> ms_name s = sr_name r \<and>
     l_generation (ms_lifecycle s) = sr_generation r \<and>
     dom (decided (ms_inputs s)) = {key. (sr_id r, key) \<in> fst ` set (st_inputs st)}"

definition healthy_recovery :: "recover_env \<Rightarrow> bool" where
  "healthy_recovery env \<longleftrightarrow> rc_update env = Healthy \<and> rc_trim env = Healthy \<and> rc_replay env = Healthy \<and> rc_inputs env = Healthy"

lemma read_back_spec:
  assumes base: "store_base st" and row: "map_of (st_sessions st) (sr_id r) = Some r0" "sr_generation r0 = sr_generation r"
    and state: "sr_state r = ''exited'' \<or> sr_state r = ''closed''" "sr_state r = ''exited'' \<Longrightarrow> 0 < sr_generation r"
    and cfg: "0 < mc_history_bytes cfg" and fit: "length (inputs_of (sr_id r) st) \<le> nat (mc_max_inputs cfg)"
    and run: "read_back env cfg r st = (res, st')"
  shows "based st st'" "\<forall>k. k \<noteq> sr_id r \<longrightarrow> map_of (st_sessions st') k = map_of (st_sessions st) k"
    "res = Inr s \<Longrightarrow> sound_row cfg r st s" "healthy_recovery env \<Longrightarrow> \<exists>s. res = Inr s"
proof -
  let ?sid = "sr_id r" and ?n = "mc_history_bytes cfg"
  note d = store_baseD [OF base row(1)]
  obtain m st1 where t: "trim_output ?sid ?n st = (Inr m, st1)" "output_wf ?sid st1" "out_lo ?sid st1 = m"
    "out_hi ?sid st1 - m \<le> ?n" "\<forall>k. k \<noteq> ?sid \<longrightarrow> map_of (st_sessions st1) k = map_of (st_sessions st) k"
    using trim_output_ok [OF d(3) cfg] by metis
  have b1: "based st st1" using trim_output_base [OF base t(1)] by (simp add: based_def)
  have refl: "based st st" using base by (simp add: based_def)
  obtain q st2 where w: "with_fault (rc_trim env) (trim_output ?sid ?n) st = (q, st2)" by fastforce
  have st2: "st2 = st \<or> st2 = st1" "q = Inr x \<Longrightarrow> x = m \<and> st2 = st1" "rc_trim env = Healthy \<Longrightarrow> q = Inr m" for x
    using w t(1) by (cases "rc_trim env"; auto simp: with_fault_def)+
  have rep: "store_replay ?sid m 0 st1 = Inr (rows_of st1 ?sid, m, out_hi ?sid st1)"
    using store_replay_rows [OF t(2)] t(3) by simp
  have "st' = st2" using run w by (auto simp: read_back_def with_fault_def reads_def split: sum.splits prod.splits fault.splits)
  then show "based st st'" "\<forall>k. k \<noteq> sr_id r \<longrightarrow> map_of (st_sessions st') k = map_of (st_sessions st) k"
    using st2(1) b1 refl t(5) by auto
  have base1: "store_base st1" "st_inputs st1 = st_inputs st" using b1 by (simp_all add: based_def)
  obtain r1 where r1: "map_of (st_sessions st1) ?sid = Some r1" using t(2) by (auto simp: output_wf_def split: option.splits)
  note d1 = store_baseD [OF base1(1) r1]
  define out where "out = (rows_of st1 ?sid, m, out_hi ?sid st1)"
  have ch: "chain m (rows_of st1 ?sid) (out_hi ?sid st1)" "out_hi ?sid st1 < u64_limit"
    using t(2,3) r1 sql_limit_u64 by (auto simp: output_wf_def out_lo_def out_hi_def)
  have sizes: "m + length (payload (rows_of st1 ?sid)) < u64_limit" "\<forall>e \<in> set (rows_of st1 ?sid). end_seq e < u64_limit"
    using ch(2) chain_length [OF ch(1)] chain_member [OF ch(1)] by (simp, meson le_less_trans)
  have gl: "sr_generation r < sql_limit" using d(5) row(2) by (simp add: session_constraints_def)
  obtain j where j: "restore_inputs (new_input_journal (sr_generation r) (nat (mc_max_inputs cfg))) (input_decisions ?sid st1) = Inr j"
    "dom (decided j) = {key. (?sid, key) \<in> fst ` set (st_inputs st1)}"
    by (rule input_decisions_ok [OF base1(1)]) (use fit base1(2) in \<open>simp add: inputs_of_def\<close>)
  have read: "with_fault f (reads (store_replay ?sid m 0)) st1 = (Inr x, s2) \<Longrightarrow> x = out" for f x s2
    using rep by (cases f) (auto simp: with_fault_def reads_def out_def)
  show "sound_row cfg r st s" if res: "res = Inr s"
  proof -
    obtain ds where rs: "recovered_session cfg r out ds = Inr s" "ds = fst (with_fault (rc_inputs env) (reads (\<lambda>st. Inr (input_decisions ?sid st))) st1)"
      using run w res st2(2) read
      by (fastforce simp: read_back_def with_fault_def reads_def split: sum.splits prod.splits fault.splits)
    note s = recovered_session_ok [OF rs(1) [unfolded out_def] sizes d1(4) state(1)]
    obtain js where js: "restore_inputs (new_input_journal (sr_generation r) (nat (mc_max_inputs cfg))) js = Inr (ms_inputs s)" "ds = Inr js"
      using rs(1) by (auto simp: recovered_session_def out_def split: sum.splits)
    have "js = input_decisions ?sid st1" using js(2) rs(2) by (cases "rc_inputs env") (auto simp: with_fault_def reads_def)
    then have dd: "dom (decided (ms_inputs s)) = {key. (?sid, key) \<in> fst ` set (st_inputs st)}" using js(1) j base1(2) by simp
    have "gen_ok s"
      using s(8,9) state gl parse_state_name [of "l_state (ms_lifecycle s)"] parse_state_name [of Closed] by (auto simp: gen_ok_def)
    then show ?thesis using s(1,2,3,8) dd by (simp add: sound_row_def)
  qed
  show "\<exists>s. res = Inr s" if h: "healthy_recovery env"
  proof -
    have len: "length (payload (rows_of st1 ?sid)) \<le> ?n" using t(4) chain_length [OF ch(1)] by simp
    obtain h where h': "restore ?n m (out_hi ?sid st1) (rows_of st1 ?sid) = Inr h"
      using restore_correct(1) [OF sizes, of ?n "out_hi ?sid st1"] ch(1) cfg len by blast
    obtain l where l: "recover_lifecycle (sr_state r) (sr_generation r) = Inr l"
      using state parse_state_name [of Exited] parse_state_name [of Closed] by (auto simp: recover_lifecycle_def)
    have "\<exists>s. recovered_session cfg r out (Inr (input_decisions ?sid st1)) = Inr s"
      using h' l j(1) by (simp add: recovered_session_def out_def)
    then show ?thesis using run w h st2(2,3) rep
      by (auto simp: healthy_recovery_def read_back_def with_fault_def reads_def out_def)
  qed
qed

lemma recover_row_spec:
  assumes base: "store_base st" and row: "map_of (st_sessions st) (sr_id r) = Some r"
    and cfg: "valid_config cfg" and fit: "length (inputs_of (sr_id r) st) \<le> nat (mc_max_inputs cfg)"
    and run: "recover_row env cfg r st = (res, st')"
  shows "based st st'" "\<forall>k. k \<noteq> sr_id r \<longrightarrow> map_of (st_sessions st') k = map_of (st_sessions st) k"
    "res = Inr s \<Longrightarrow> sound_row cfg r st s" "healthy_recovery env \<Longrightarrow> \<exists>s. res = Inr s"
proof -
  let ?now = "rc_now env" and ?sid = "sr_id r"
  note d = store_baseD [OF base row]
  have n: "0 < mc_history_bytes cfg" using cfg by (simp add: valid_config_def)
  obtain r' where r': "recovered_record ?now (mc_recovery_signal cfg) r = Inr r'" "sr_state r' = ''exited'' \<or> sr_state r' = ''closed''"
    "sr_state r' = ''exited'' \<Longrightarrow> 0 < sr_generation r" "sr_generation r' = sr_generation r" "sr_id r' = sr_id r" "sr_name r' = sr_name r"
    "sr_columns r' = sr_columns r" "sr_rows r' = sr_rows r"
    using recovered_record_spec [OF d(2)] by metis
  have sound: "sound_row cfg r' st0 s \<Longrightarrow> st_inputs st0 = st_inputs st \<Longrightarrow> sound_row cfg r st s" for st0
    using r'(4-6) by (simp add: sound_row_def)
  have reading: "based st0 st2 \<and> (\<forall>k. k \<noteq> sr_id r \<longrightarrow> map_of (st_sessions st2) k = map_of (st_sessions st0) k) \<and>
      (q = Inr s \<longrightarrow> sound_row cfg r st s) \<and> (healthy_recovery env \<longrightarrow> (\<exists>s. q = Inr s))"
    if b: "based st st0" and m: "map_of (st_sessions st0) ?sid = Some r0" "sr_generation r0 = sr_generation r"
      and rb: "read_back env cfg r' st0 = (q, st2)" for st0 r0 q st2
  proof -
    have b0: "store_base st0" "st_inputs st0 = st_inputs st" using b by (simp_all add: based_def)
    have "length (inputs_of (sr_id r') st0) \<le> nat (mc_max_inputs cfg)" using fit b0(2) r'(5) by (simp add: inputs_of_def)
    note rs = read_back_spec [OF b0(1) m(1) [folded r'(5)] _ r'(2) _ n this rb]
    show ?thesis using rs sound [OF _ b0(2)] m(2) r'(3-5) by auto
  qed
  have refl: "based st st" using base by (simp add: based_def)
  have "based st st' \<and> (\<forall>k. k \<noteq> sr_id r \<longrightarrow> map_of (st_sessions st') k = map_of (st_sessions st) k) \<and>
      (res = Inr s \<longrightarrow> sound_row cfg r st s) \<and> (healthy_recovery env \<longrightarrow> (\<exists>s. res = Inr s))"
  proof (cases "sr_state r' = sr_state r")
    case True
    then have "read_back env cfg r' st = (res, st')" using run r'(1) by (simp add: recover_row_def)
    from reading [OF refl row _ this] show ?thesis by simp
  next
    case False
    define up where "up = updated_row ?now r' r"
    define stU where "stU = st\<lparr>st_sessions := AList.update ?sid up (st_sessions st)\<rparr>"
    have "session_constraints up" using d(5) r'(4,7,8) by (simp add: session_constraints_def up_def updated_row_def)
    then have ok: "update_session ?now ?sid (sr_state r) r' st = (Inr (), stU)"
      using row by (simp add: update_session_def up_def stU_def)
    have "\<exists>q. sr_state r' = state_name q \<and> q \<noteq> Deleted \<and> (q = Creating \<or> q = Closed \<or> 0 < sr_generation r')"
    proof (cases "sr_state r' = ''exited''")
      case True
      then show ?thesis using r'(3,4) by (intro exI [of _ Exited]) simp
    next
      case False
      then show ?thesis using r'(2) by (intro exI [of _ Closed]) simp
    qed
    from update_session_base [OF base ok this] have bU: "based st stU" by (simp add: based_def)
    have mU: "map_of (st_sessions stU) ?sid = Some up" "sr_generation up = sr_generation r"
      "\<forall>k. k \<noteq> ?sid \<longrightarrow> map_of (st_sessions stU) k = map_of (st_sessions st) k"
      using r'(4) by (simp_all add: stU_def up_def updated_row_def)
    obtain u st1 where w: "with_fault (rc_update env) (update_session ?now ?sid (sr_state r) r') st = (u, st1)" by fastforce
    have st1: "st1 = st \<or> st1 = stU" "u = Inr x \<Longrightarrow> st1 = stU" "rc_update env = Healthy \<Longrightarrow> u = Inr ()" for x
      using w ok by (cases "rc_update env"; auto simp: with_fault_def)+
    have eq: "recover_row env cfg r st = (case u of Inl e \<Rightarrow> (Inl (MgrStore e), st1) | Inr _ \<Rightarrow> read_back env cfg r' st1)"
      using False r'(1) w by (simp add: recover_row_def split: sum.split)
    show ?thesis
    proof (cases u)
      case (Inl e)
      then show ?thesis using run eq st1(1,3) bU mU(3) refl by (auto simp: healthy_recovery_def)
    next
      case (Inr x)
      then have "read_back env cfg r' stU = (res, st')" using run eq st1(2) by simp
      from reading [OF bU mU(1,2) this] mU(3) bU show ?thesis by (auto simp: based_def)
    qed
  qed
  then show "based st st'" "\<forall>k. k \<noteq> sr_id r \<longrightarrow> map_of (st_sessions st') k = map_of (st_sessions st) k"
    "res = Inr s \<Longrightarrow> sound_row cfg r st s" "healthy_recovery env \<Longrightarrow> \<exists>s. res = Inr s"
    by simp_all
qed

subsection \<open>Recovering all of them\<close>

text \<open>The manager while \<open>recover\<close> runs: the rows in \<open>rs\<close> are still to be read.\<close>

definition partial_ok :: "manager \<Rightarrow> store \<Rightarrow> session_row list \<Rightarrow> bool" where
  "partial_ok m st rs \<longleftrightarrow>
     manager_ok m \<and> (\<forall>sid s. map_of (mg_sessions m) sid = Some s \<longrightarrow> gen_ok s) \<and>
     (\<forall>(sid, key) \<in> fst ` set (st_inputs st).
        sid \<in> sr_id ` set rs \<or> (\<exists>s. map_of (mg_sessions m) sid = Some s \<and> decided (ms_inputs s) key \<noteq> None)) \<and>
     (\<forall>r \<in> set rs. map_of (st_sessions st) (sr_id r) = Some r \<and> map_of (mg_sessions m) (sr_id r) = None \<and>
        map_of (mg_names m) (sr_name r) = None) \<and>
     distinct (map sr_id rs) \<and> distinct (map sr_name rs)"

lemma partial_step:
  assumes p: "partial_ok m st (r # rs)" and s: "sound_row (mg_config m) r st s" and b: "based st st'"
    and frame: "\<forall>k. k \<noteq> sr_id r \<longrightarrow> map_of (st_sessions st') k = map_of (st_sessions st) k"
  shows "partial_ok (m\<lparr>mg_sessions := AList.update (sr_id r) s (mg_sessions m),
    mg_names := AList.update (sr_name r) (sr_id r) (mg_names m)\<rparr>) st' rs"
proof -
  let ?m = "m\<lparr>mg_sessions := AList.update (sr_id r) s (mg_sessions m), mg_names := AList.update (sr_name r) (sr_id r) (mg_names m)\<rparr>"
  have sr: "session_ok (mg_config m) s" "gen_ok s" "ms_id s = sr_id r" "ms_name s = sr_name r"
    "dom (decided (ms_inputs s)) = {key. (sr_id r, key) \<in> fst ` set (st_inputs st)}"
    using s by (simp_all add: sound_row_def)
  have m: "manager_ok m" "map_of (mg_sessions m) (sr_id r) = None" "map_of (mg_names m) (sr_name r) = None"
    using p by (simp_all add: partial_ok_def)
  have "manager_ok (?m\<lparr>mg_store := mg_store m\<rparr>)"
    using add_session_ok [OF m(1), of s "mg_store m"] m(2,3) sr(1,3,4) by simp
  then have ok: "manager_ok ?m" by (simp only: manager_ok_store)
  have inp: "st_inputs st' = st_inputs st" using b by (simp add: based_def)
  have link: "case p of (sid, key) \<Rightarrow> sid \<in> sr_id ` set rs \<or>
      (\<exists>t. map_of (mg_sessions ?m) sid = Some t \<and> decided (ms_inputs t) key \<noteq> None)"
    if mem: "p \<in> fst ` set (st_inputs st')" for p
  proof -
    obtain sid key where pk: "p = (sid, key)" by (cases p)
    have old: "\<forall>(sid, key) \<in> fst ` set (st_inputs st). sid \<in> sr_id ` set (r # rs) \<or>
        (\<exists>t. map_of (mg_sessions m) sid = Some t \<and> decided (ms_inputs t) key \<noteq> None)"
      using p unfolding partial_ok_def by (elim conjE)
    have "sid \<in> sr_id ` set (r # rs) \<or> (\<exists>t. map_of (mg_sessions m) sid = Some t \<and> decided (ms_inputs t) key \<noteq> None)"
      using bspec [OF old, of p] mem pk inp by simp
    moreover have "sid = sr_id r \<Longrightarrow> key \<in> dom (decided (ms_inputs s))"
      using mem pk inp sr(5) by simp
    ultimately show ?thesis using pk m(2) by (cases "sid = sr_id r") auto
  qed
  have rest: "\<forall>q \<in> set rs. map_of (st_sessions st') (sr_id q) = Some q \<and> map_of (mg_sessions ?m) (sr_id q) = None \<and>
      map_of (mg_names ?m) (sr_name q) = None"
  proof
    fix q
    assume q: "q \<in> set rs"
    have "sr_id r \<notin> sr_id ` set rs" "sr_name r \<notin> sr_name ` set rs"
      "map_of (st_sessions st) (sr_id q) = Some q" "map_of (mg_sessions m) (sr_id q) = None" "map_of (mg_names m) (sr_name q) = None"
      using p q by (simp_all add: partial_ok_def)
    moreover from this have "sr_id q \<noteq> sr_id r" "sr_name q \<noteq> sr_name r" using q by (metis imageI)+
    ultimately show "map_of (st_sessions st') (sr_id q) = Some q \<and> map_of (mg_sessions ?m) (sr_id q) = None \<and>
        map_of (mg_names ?m) (sr_name q) = None"
      using frame by simp
  qed
  have gens: "gen_ok t" if "map_of (mg_sessions ?m) k = Some t" for k t
    using that p sr(2) by (auto simp: partial_ok_def split: if_splits)
  have "distinct (map sr_id rs)" "distinct (map sr_name rs)" using p by (simp_all add: partial_ok_def)
  then show ?thesis unfolding partial_ok_def using ok gens link rest by blast
qed

lemma recover_rows_spec:
  assumes "partial_ok m st rs" "store_base st" "fits (nat (mc_max_inputs (mg_config m))) st"
    and "recover_rows env rs m st = (res, st')"
  shows "based st st' \<and> (\<forall>m'. res = Inr m' \<longrightarrow> partial_ok m' st' [] \<and> mg_config m' = mg_config m) \<and>
    ((\<forall>sid. healthy_recovery (env sid)) \<longrightarrow> (\<exists>m'. res = Inr m'))"
  using assms
proof (induction rs arbitrary: m st)
  case Nil
  then show ?case by (auto simp: based_def)
next
  case (Cons r rs)
  obtain q st1 where q: "recover_row (env (sr_id r)) (mg_config m) r st = (q, st1)" by fastforce
  have p: "map_of (st_sessions st) (sr_id r) = Some r" "map_of (mg_sessions m) (sr_id r) = None" "map_of (mg_names m) (sr_name r) = None"
    "valid_config (mg_config m)"
    using Cons.prems(1) by (simp_all add: partial_ok_def manager_ok_def)
  have f: "length (inputs_of (sr_id r) st) \<le> nat (mc_max_inputs (mg_config m))" using Cons.prems(3) by (simp add: fits_def)
  note rr = recover_row_spec [OF Cons.prems(2) p(1,4) f q]
  show ?case
  proof (cases q)
    case (Inl e)
    then have "res = Inl e" "st' = st1" using Cons.prems(4) q by simp_all
    then show ?thesis using rr(1,4) Inl by auto
  next
    case (Inr s)
    define m1 where "m1 = m\<lparr>mg_sessions := AList.update (sr_id r) s (mg_sessions m),
        mg_names := AList.update (sr_name r) (sr_id r) (mg_names m)\<rparr>"
    have next_run: "recover_rows env rs m1 st1 = (res, st')" using Cons.prems(4) q Inr p(2,3) by (simp add: m1_def)
    have b1: "store_base st1" "st_inputs st1 = st_inputs st" using rr(1) by (simp_all add: based_def)
    have pk: "partial_ok m1 st1 rs"
      unfolding m1_def using partial_step [OF Cons.prems(1) rr(3) [OF Inr] rr(1,2)] .
    have fk: "fits (nat (mc_max_inputs (mg_config m1))) st1"
      using Cons.prems(3) b1(2) by (simp add: fits_def inputs_of_def m1_def)
    note ih = Cons.IH [OF pk b1(1) fk next_run]
    have cfg: "mg_config m1 = mg_config m" by (simp add: m1_def)
    have "based st st'" using conjunct1 [OF ih] b1(2) by (simp add: based_def)
    then show ?thesis using conjunct2 [OF ih] unfolding cfg by (rule conjI)
  qed
qed

lemma distinct_map_sort_key: "distinct (map f (sort_key g xs)) = distinct (map f xs)"
  by (simp add: distinct_map)

lemma all_sessions_spec:
  assumes "tables_wf st"
  shows "distinct (map sr_id (all_sessions st))" "distinct (map sr_name (all_sessions st))"
    "\<forall>r \<in> set (all_sessions st). map_of (st_sessions st) (sr_id r) = Some r"
    "sr_id ` set (all_sessions st) = fst ` set (st_sessions st)"
proof -
  have wf: "keys_distinct (st_sessions st)" "distinct (map (sr_name \<circ> snd) (st_sessions st))"
    "\<forall>(k, r) \<in> set (st_sessions st). sr_id r = k"
    using assms by (auto simp: tables_wf_def sessions_wf_def)
  have ids: "map sr_id (map snd (st_sessions st)) = map fst (st_sessions st)" using wf(3) by auto
  have "distinct (map sr_id (map snd (st_sessions st)))" unfolding ids using wf(1) by (simp add: keys_distinct_def)
  then show "distinct (map sr_id (all_sessions st))" unfolding all_sessions_def distinct_map_sort_key .
  have "distinct (map sr_name (map snd (st_sessions st)))" using wf(2) by simp
  then show "distinct (map sr_name (all_sessions st))" unfolding all_sessions_def distinct_map_sort_key .
  show "\<forall>r \<in> set (all_sessions st). map_of (st_sessions st) (sr_id r) = Some r"
    using wf(1,3) by (auto simp: all_sessions_def keys_distinct_def)
  show "sr_id ` set (all_sessions st) = fst ` set (st_sessions st)"
    using arg_cong [OF ids, of set] by (simp add: all_sessions_def image_image)
qed

text \<open>The manager before \<open>recover\<close> has read a record.\<close>

definition unread :: "manager_config \<Rightarrow> store \<Rightarrow> manager" where
  "unread cfg st = \<lparr>mg_config = with_defaults cfg, mg_sessions = [], mg_names = [], mg_stopping = False, mg_store = Some st\<rparr>"

lemma unread_ok:
  assumes "store_base st" "valid_config (with_defaults cfg)"
  shows "partial_ok (unread cfg st) st (all_sessions st)"
proof -
  have wf: "tables_wf st" using assms(1) by (simp add: store_base_def)
  note a = all_sessions_spec [OF wf]
  have "manager_ok (unread cfg st)" using assms(2) by (simp add: manager_ok_def maps_ok_def unread_def)
  moreover have "case p of (sid, key) \<Rightarrow> sid \<in> sr_id ` set (all_sessions st)"
    if "p \<in> fst ` set (st_inputs st)" for p
  proof -
    have "fst ` fst ` set (st_inputs st) \<subseteq> sr_id ` set (all_sessions st)"
      unfolding a(4) using wf by (simp add: tables_wf_def references_wf_def image_comp)
    then have "fst p \<in> sr_id ` set (all_sessions st)" using that by (rule subsetD [OF _ imageI])
    then show ?thesis by (cases p) simp
  qed
  ultimately show ?thesis
    unfolding partial_ok_def using a(1-3) by (intro conjI ballI) (simp_all add: unread_def)
qed

lemma new_manager_spec:
  assumes "store_base st" "fits (nat (mc_max_inputs (with_defaults cfg))) st" "valid_config (with_defaults cfg)"
    and "new_manager True f env cfg (Some st) = (res, sto)"
  obtains st' where "sto = Some st'" "based st st'" "\<And>m. res = Inr m \<Longrightarrow> durable m \<and> mg_store m = Some st' \<and> mg_config m = with_defaults cfg"
    "f = Healthy \<Longrightarrow> (\<And>sid. healthy_recovery (env sid)) \<Longrightarrow> \<exists>m. res = Inr m"
proof -
  define m0 where "m0 = unread cfg st"
  have p: "partial_ok m0 st (all_sessions st)" unfolding m0_def by (rule unread_ok [OF assms(1,3)])
  show thesis
  proof (cases "f = Healthy")
    case False
    then have "res = Inl (MgrStore StoreFailure) \<and> sto = Some st"
      using assms(3,4) by (cases f) (auto simp: new_manager_def Let_def with_fault_def reads_def)
    then show thesis using that [of st] assms(1) False by (simp add: based_def)
  next
    case True
    obtain q st' where q: "recover_rows env (all_sessions st) m0 st = (q, st')" by fastforce
    have r: "res = (case q of Inl e \<Rightarrow> Inl e | Inr m' \<Rightarrow> Inr (m'\<lparr>mg_store := Some st'\<rparr>))" "sto = Some st'"
      using assms(3,4) q True by (auto simp: new_manager_def Let_def with_fault_def reads_def m0_def unread_def split: sum.splits)
    have fit: "fits (nat (mc_max_inputs (mg_config m0))) st" using assms(2) by (simp add: m0_def unread_def)
    note s = recover_rows_spec [OF p assms(1) fit q]
    have dur: "durable (m'\<lparr>mg_store := Some st'\<rparr>)" if "q = Inr m'" for m'
    proof -
      have p': "partial_ok m' st' []" using s that by blast
      have "linked m' st'" using p' by (simp add: partial_ok_def linked_def)
      then have "linked (m'\<lparr>mg_store := Some st'\<rparr>) st'" by (simp add: linked_def)
      moreover have "store_base st'" using conjunct1 [OF s] by (simp add: based_def)
      moreover note conjunct1 [OF p' [unfolded partial_ok_def]] conjunct1 [OF conjunct2 [OF p' [unfolded partial_ok_def]]]
      ultimately show ?thesis by (simp add: durable_def)
    qed
    show thesis
    proof (rule that [of st'])
      show "sto = Some st'" "based st st'" using r(2) s by simp_all
      show "durable m \<and> mg_store m = Some st' \<and> mg_config m = with_defaults cfg" if res: "res = Inr m" for m
      proof -
        obtain m' where m': "q = Inr m'" "m = m'\<lparr>mg_store := Some st'\<rparr>" using r(1) res by (cases q) simp_all
        have "mg_config m' = mg_config m0" using s m'(1) by blast
        then show ?thesis using dur [OF m'(1)] m'(2) by (simp add: m0_def unread_def)
      qed
      show "\<exists>m. res = Inr m" if "\<And>sid. healthy_recovery (env sid)"
        using s that r(1) by (cases q) auto
    qed
  qed
qed

subsection \<open>What a recovered session holds\<close>

definition resumed_state :: "session_row \<Rightarrow> session_state" where
  "resumed_state r = (if sr_state r \<in> {''creating'', ''closing'', ''closed''} then Closed else Exited)"

text \<open>The session \<open>s\<close> takes up the record \<open>r\<close> with the output rows \<open>evs\<close>, under the limit \<open>n\<close>.\<close>

definition restored :: "nat \<Rightarrow> session_row \<Rightarrow> event list \<Rightarrow> managed_session \<Rightarrow> bool" where
  "restored n r evs s \<longleftrightarrow>
     ms_id s = sr_id r \<and> ms_name s = sr_name r \<and> ms_command s = row_command r \<and> ms_process s = None \<and>
     l_generation (ms_lifecycle s) = sr_generation r \<and> l_state (ms_lifecycle s) = resumed_state r \<and>
     h_latest (ms_history s) = sr_latest r \<and> sr_earliest r \<le> h_earliest (ms_history s) \<and>
     content (ms_history s) = drop (h_earliest (ms_history s) - sr_earliest r) (payload evs) \<and>
     (length (payload evs) \<le> n \<longrightarrow> h_earliest (ms_history s) = sr_earliest r)"

lemma tight_within:
  assumes "tight limit dropped rest" "length (payload (dropped @ rest)) \<le> limit"
  shows "dropped = []"
proof (rule ccontr)
  assume ne: "dropped \<noteq> []"
  have "payload (dropped @ rest) = payload (butlast dropped) @ payload (last dropped # rest)"
    by (subst append_butlast_last_id [OF ne, symmetric]) (simp add: payload_def)
  then show False using assms ne by (simp add: tight_def)
qed

lemma read_back_restored:
  assumes wf: "output_wf (sr_id r) st" and row: "map_of (st_sessions st) (sr_id r) = Some r0"
    "sr_earliest r0 = sr_earliest r" "sr_latest r0 = sr_latest r"
    and n: "0 < mc_history_bytes cfg" and state: "sr_state r = state_name q" "q \<in> {Exited, Closed}"
    and run: "read_back env cfg r st = (Inr s, st')"
  shows "restored (mc_history_bytes cfg) r (rows_of st (sr_id r)) s"
proof -
  let ?sid = "sr_id r" and ?n = "mc_history_bytes cfg"
  obtain m dropped st1 where t: "trim_output ?sid ?n st = (Inr m, st1)" "output_wf ?sid st1" "out_lo ?sid st1 = m"
    "rows_of st ?sid = dropped @ rows_of st1 ?sid" "tight ?n dropped (rows_of st1 ?sid)" "out_hi ?sid st1 = out_hi ?sid st"
    "out_lo ?sid st \<le> m" "out_bytes ?sid st1 = drop (m - out_lo ?sid st) (out_bytes ?sid st)"
    using trim_output_ok [OF wf n] by metis
  have b: "out_lo ?sid st = sr_earliest r" "out_hi ?sid st = sr_latest r" using row by (simp_all add: out_lo_def out_hi_def)
  have rep: "store_replay ?sid m 0 st1 = Inr (rows_of st1 ?sid, m, sr_latest r)"
    using store_replay_rows [OF t(2)] t(3,6) b(2) by simp
  obtain ds where rs: "recovered_session cfg r (rows_of st1 ?sid, m, sr_latest r) ds = Inr s"
    using run t(1) rep by (auto simp: read_back_def reads_def split: sum.splits prod.splits dest!: with_fault_Inr)
  have ch: "chain m (rows_of st1 ?sid) (sr_latest r)" "sr_latest r < u64_limit"
    using t(2,3,6) b(2) sql_limit_u64 by (auto simp: output_wf_def out_lo_def out_hi_def split: option.splits)
  have sizes: "m + length (payload (rows_of st1 ?sid)) < u64_limit" "\<forall>e \<in> set (rows_of st1 ?sid). end_seq e < u64_limit"
    using ch(2) chain_length [OF ch(1)] chain_member [OF ch(1)] by (simp, meson le_less_trans)
  obtain h l j where k: "restore ?n m (sr_latest r) (rows_of st1 ?sid) = Inr h" "recover_lifecycle (sr_state r) (sr_generation r) = Inr l"
    "s = (blank_session ?sid (sr_name r) (row_command r) h)\<lparr>ms_lifecycle := l, ms_inputs := j, ms_exit := row_exit r\<rparr>"
    using rs by (auto simp: recovered_session_def split: sum.splits)
  note hh = restore_correct(2) [OF sizes k(1)]
  have l: "l_generation l = sr_generation r" "l_state l = q"
    using k(2) state by (auto simp: recover_lifecycle_def split: if_splits option.splits)
  have q: "resumed_state r = q" using state by (auto simp: resumed_state_def)
  have "m = sr_earliest r" if "length (payload (rows_of st ?sid)) \<le> ?n"
  proof -
    have "dropped = []" by (rule tight_within [OF t(5)]) (use that t(4) in simp)
    then have "rows_of st1 ?sid = rows_of st ?sid" using t(4) by simp
    moreover have "chain (sr_earliest r) (rows_of st ?sid) (sr_latest r)" using wf row by (simp add: output_wf_def)
    ultimately show ?thesis using chain_length [OF ch(1)] chain_length [of "sr_earliest r" "rows_of st ?sid" "sr_latest r"] by simp
  qed
  then show ?thesis
    using hh k(3) l q t(7,8) b(1) by (simp add: restored_def blank_session_def out_bytes_def)
qed

lemma updated_row_output [simp]:
  "sr_earliest (updated_row now n r) = sr_earliest r" "sr_latest (updated_row now n r) = sr_latest r"
  by (simp_all add: updated_row_def)

lemma update_session_frame:
  assumes "update_session now sid expected n st = (res, st')" "output_wf k st"
  shows "rows_of st' x = rows_of st x" "output_wf k st'"
    "map_of (st_sessions st) k = Some r \<Longrightarrow> \<exists>r'. map_of (st_sessions st') k = Some r' \<and> sr_earliest r' = sr_earliest r \<and> sr_latest r' = sr_latest r"
  using assms by (auto simp: update_session_def output_wf_def rows_of_def update_conv' split: if_splits option.splits)

lemma recovered_record_output:
  assumes "recovered_record now sg r = Inr r'"
  shows "sr_earliest r' = sr_earliest r \<and> sr_latest r' = sr_latest r \<and> row_command r' = row_command r \<and> sr_id r' = sr_id r \<and>
    sr_name r' = sr_name r \<and> sr_generation r' = sr_generation r \<and> sr_state r' = state_name (resumed_state r) \<and>
    resumed_state r' = resumed_state r"
proof -
  obtain q where q: "parse_state (sr_state r) = Some q" "q \<noteq> Deleted"
    using assms by (auto simp: recovered_record_def split: option.splits session_state.splits)
  have s: "sr_state r = state_name q" by (rule parse_state_Some [OF q(1)])
  show ?thesis using assms q s
    by (cases q) (auto simp: recovered_record_def resumed_state_def row_command_def)
qed

lemma recover_row_restored:
  assumes wf: "output_wf (sr_id r) st" and row: "map_of (st_sessions st) (sr_id r) = Some r"
    and n: "0 < mc_history_bytes cfg" and run: "recover_row env cfg r st = (Inr s, st')"
  shows "restored (mc_history_bytes cfg) r (rows_of st (sr_id r)) s"
proof -
  let ?now = "rc_now env"
  obtain r' where r': "recovered_record ?now (mc_recovery_signal cfg) r = Inr r'"
    using run by (auto simp: recover_row_def split: sum.splits)
  note o = recovered_record_output [OF r']
  have q: "resumed_state r \<in> {Exited, Closed}" by (simp add: resumed_state_def)
  have res: "restored (mc_history_bytes cfg) r (rows_of st0 (sr_id r)) s"
    if "output_wf (sr_id r) st0" "map_of (st_sessions st0) (sr_id r) = Some r0" "sr_earliest r0 = sr_earliest r" "sr_latest r0 = sr_latest r"
      "read_back env cfg r' st0 = (Inr s, st')" for st0 r0
    using read_back_restored [of r' st0 r0 cfg "resumed_state r" env s st'] that n o q by (simp add: restored_def)
  show ?thesis
  proof (cases "sr_state r' = sr_state r")
    case True
    then have "read_back env cfg r' st = (Inr s, st')" using run r' by (simp add: recover_row_def)
    then show ?thesis using res [OF wf row] by simp
  next
    case False
    obtain u st1 where w: "update_session ?now (sr_id r) (sr_state r) r' st = (Inr u, st1)" "read_back env cfg r' st1 = (Inr s, st')"
      using run r' False by (auto simp: recover_row_def split: sum.splits prod.splits dest!: with_fault_Inr)
    note f = update_session_frame [OF w(1) wf]
    obtain r1 where "map_of (st_sessions st1) (sr_id r) = Some r1" "sr_earliest r1 = sr_earliest r" "sr_latest r1 = sr_latest r"
      using f(3) [OF row] by blast
    then show ?thesis using res [OF f(2) _ _ _ w(2)] f(1) by simp
  qed
qed

lemma trim_frame:
  assumes "trim_output sid limit st = (res, st')" "output_wf sid st" "0 < limit" "k \<noteq> sid"
  shows "rows_of st' k = rows_of st k"
  using trim_output_ok [OF assms(2,3)] assms(1,4) by auto

lemma recover_row_frame:
  assumes wf: "output_wf (sr_id r) st" and n: "0 < mc_history_bytes cfg"
    and run: "recover_row env cfg r st = (res, st')" and k: "k \<noteq> sr_id r"
  shows "rows_of st' k = rows_of st k"
proof -
  let ?P = "\<lambda>x. output_wf (sr_id r) x \<and> rows_of x k = rows_of st k"
  let ?Q = "\<lambda>x. rows_of x k = rows_of st k"
  have reading: "?Q s2" if "?P s1" "read_back env cfg r' s1 = (q, s2)" "sr_id r' = sr_id r" for r' s1 s2 q
  proof -
    obtain t s3 where w: "with_fault (rc_trim env) (trim_output (sr_id r') (mc_history_bytes cfg)) s1 = (t, s3)" by fastforce
    have "?Q (snd (trim_output (sr_id r') (mc_history_bytes cfg) s1))"
      using trim_frame [of "sr_id r'" "mc_history_bytes cfg" s1 _ _ k] that(1,3) n k
      by (cases "trim_output (sr_id r') (mc_history_bytes cfg) s1") simp
    then have "?Q s3" using with_fault_result [OF w, of ?Q] that(1) by simp
    moreover have "s2 = s3" using that(2) w by (auto simp: read_back_def with_fault_def reads_def split: sum.splits prod.splits fault.splits)
    ultimately show ?thesis by simp
  qed
  have up: "?P s1" if "with_fault f (update_session now (sr_id r) e r') st = (u, s1)" for f now e r' u s1
  proof (rule with_fault_result [OF that])
    show "?P st" using wf by simp
    obtain v s2 where "update_session now (sr_id r) e r' st = (v, s2)" by fastforce
    then show "?P (snd (update_session now (sr_id r) e r' st))" using update_session_frame [OF _ wf] by auto
  qed
  show ?thesis
  proof (cases "recovered_record (rc_now env) (mc_recovery_signal cfg) r")
    case (Inl e)
    then show ?thesis using run by (simp add: recover_row_def)
  next
    case (Inr r')
    have i: "sr_id r' = sr_id r" using recovered_record_output [OF Inr] by simp
    show ?thesis
    proof (cases "sr_state r' = sr_state r")
      case True
      then have "read_back env cfg r' st = (res, st')" using run Inr by (simp add: recover_row_def)
      then show ?thesis using reading [OF _ _ i] wf by blast
    next
      case False
      obtain u s1 where w: "with_fault (rc_update env) (update_session (rc_now env) (sr_id r) (sr_state r) r') st = (u, s1)" by fastforce
      have "st' = s1 \<or> read_back env cfg r' s1 = (res, st')"
        using run Inr False w by (cases u) (simp_all add: recover_row_def)
      then show ?thesis using reading [OF up [OF w] _ i] up [OF w] by blast
    qed
  qed
qed

lemma recover_rows_restored:
  assumes "partial_ok m st rs" "store_base st" "fits (nat (mc_max_inputs (mg_config m))) st"
    and "recover_rows env rs m st = (Inr m', st')" "map_of (mg_sessions m') sid = Some s"
  shows "(map_of (mg_sessions m) sid = Some s \<and> sid \<notin> sr_id ` set rs) \<or>
    (\<exists>r \<in> set rs. sr_id r = sid \<and> restored (mc_history_bytes (mg_config m)) r (rows_of st sid) s)"
  using assms
proof (induction rs arbitrary: m st)
  case (Cons r rs)
  obtain q st1 where q: "recover_row (env (sr_id r)) (mg_config m) r st = (q, st1)" by fastforce
  have p: "map_of (st_sessions st) (sr_id r) = Some r" "map_of (mg_sessions m) (sr_id r) = None" "map_of (mg_names m) (sr_name r) = None"
    "valid_config (mg_config m)" "sr_id r \<notin> sr_id ` set rs"
    using Cons.prems(1) by (simp_all add: partial_ok_def manager_ok_def)
  have n: "0 < mc_history_bytes (mg_config m)" using p(4) by (simp add: valid_config_def)
  have wf: "output_wf (sr_id r) st" using store_baseD(3) [OF Cons.prems(2) p(1)] .
  have f: "length (inputs_of (sr_id r) st) \<le> nat (mc_max_inputs (mg_config m))" using Cons.prems(3) by (simp add: fits_def)
  note rr = recover_row_spec [OF Cons.prems(2) p(1,4) f q]
  obtain t where t: "q = Inr t" using Cons.prems(4) q by (cases q) simp_all
  define m1 where "m1 = m\<lparr>mg_sessions := AList.update (sr_id r) t (mg_sessions m),
      mg_names := AList.update (sr_name r) (sr_id r) (mg_names m)\<rparr>"
  have run: "recover_rows env rs m1 st1 = (Inr m', st')" using Cons.prems(4) q t p(2,3) by (simp add: m1_def)
  have b: "store_base st1" "st_inputs st1 = st_inputs st" using rr(1) by (simp_all add: based_def)
  have p1: "partial_ok m1 st1 rs" unfolding m1_def by (rule partial_step [OF Cons.prems(1) rr(3) [OF t] rr(1,2)])
  have f1: "fits (nat (mc_max_inputs (mg_config m1))) st1" using Cons.prems(3) b(2) by (simp add: m1_def fits_def inputs_of_def)
  have c: "mg_config m1 = mg_config m" by (simp add: m1_def)
  have t': "restored (mc_history_bytes (mg_config m)) r (rows_of st (sr_id r)) t"
    using recover_row_restored [OF wf p(1) n] q t by simp
  from Cons.IH [OF p1 b(1) f1 run Cons.prems(5)] show ?case
  proof (elim disjE conjE bexE)
    assume a: "map_of (mg_sessions m1) sid = Some s" "sid \<notin> sr_id ` set rs"
    show ?thesis
    proof (cases "sid = sr_id r")
      case True
      then show ?thesis using a(1) t' by (simp add: m1_def)
    next
      case False
      then show ?thesis using a by (simp add: m1_def)
    qed
  next
    fix r1
    assume a: "r1 \<in> set rs" "sr_id r1 = sid" "restored (mc_history_bytes (mg_config m1)) r1 (rows_of st1 sid) s"
    have "sid \<noteq> sr_id r" using imageI [OF a(1), of sr_id] a(2) p(5) by metis
    then have "rows_of st1 sid = rows_of st sid" using recover_row_frame [OF wf n q] by blast
    then show ?thesis using a c by (intro disjI2 bexI [of _ r1]) simp_all
  qed
qed simp

lemma recover_rows_ids:
  "recover_rows env rs m st = (Inr m', st') \<Longrightarrow> fst ` set (mg_sessions m') = fst ` set (mg_sessions m) \<union> sr_id ` set rs"
proof (induction rs arbitrary: m st)
  case (Cons r rs)
  obtain q st1 where q: "recover_row (env (sr_id r)) (mg_config m) r st = (q, st1)" by fastforce
  obtain t where t: "q = Inr t" using Cons.prems q by (cases q) simp_all
  have "recover_rows env rs (m\<lparr>mg_sessions := AList.update (sr_id r) t (mg_sessions m),
      mg_names := AList.update (sr_name r) (sr_id r) (mg_names m)\<rparr>) st1 = (Inr m', st')"
    using Cons.prems q t by (simp split: if_splits)
  from Cons.IH [OF this] show ?case by (simp add: keys_update)
qed simp

subsection \<open>The helper on a machine that may fail at any time\<close>

text \<open>
  The helper is up with a manager, or down with the database it left behind.  While it is
  up it runs operations of the manager; at any time it may crash, and all that is left is
  the store.  A crash inside an operation, between two of its store calls, leaves the store
  of the same operation with every later store call failing, which the faults of the
  operations cover.  When it is down it may be started; a start whose own store calls fail
  leaves it down.
\<close>

datatype host = Up manager | Down store

inductive host_step :: "manager_config \<Rightarrow> host \<Rightarrow> host \<Rightarrow> bool" for cfg where
  operate: "guarded m x \<Longrightarrow> host_step cfg (Up m) (Up (mgr_step m x))"
| crash: "mg_store m = Some st \<Longrightarrow> host_step cfg (Up m) (Down st)"
| start: "new_manager True f env cfg (Some st) = (Inr m, sto) \<Longrightarrow> host_step cfg (Down st) (Up m)"
| failed_start: "new_manager True f env cfg (Some st) = (Inl e, Some st') \<Longrightarrow> host_step cfg (Down st) (Down st')"

fun host_ok :: "manager_config \<Rightarrow> host \<Rightarrow> bool" where
  "host_ok cfg (Up m) \<longleftrightarrow> durable m \<and> mg_config m = with_defaults cfg"
| "host_ok cfg (Down st) \<longleftrightarrow> store_base st \<and> fits (nat (mc_max_inputs (with_defaults cfg))) st"

lemma based_fits: "based st st' \<Longrightarrow> fits n st \<Longrightarrow> fits n st'"
  by (simp add: based_def fits_def inputs_of_def)

lemma put_session_config [simp]: "mg_config (put_session m sid s sto) = mg_config m"
  by (simp add: put_session_def)

lemma close_all_config: "mg_config (snd (close_all env sids m)) = mg_config m"
proof (induction sids arbitrary: m)
  case (Cons sid sids)
  have "mg_config (snd (manager_close (env sid) m sid)) = mg_config m"
    by (simp add: manager_close_def split: sum.split prod.split)
  then show ?case using Cons.IH [of "snd (manager_close (env sid) m sid)"] by (simp add: case_prod_beta)
qed simp

lemma mgr_step_config: "mg_config (mgr_step m x) = mg_config m"
proof (cases x)
  case (MCreate env requested name command)
  then show ?thesis by (auto simp: manager_create_def launch_created_def Let_def split: sum.split prod.split option.split)
next
  case (MShutdown env)
  then show ?thesis by (simp add: manager_shutdown_def close_all_config)
qed (auto simp: manager_attach_def manager_attach_live_def manager_detach_def manager_next_def manager_acknowledge_def
    manager_write_def manager_resize_def manager_clear_def manager_close_def manager_finish_closing_def manager_restart_def
    manager_delete_def manager_capture_def manager_worker_def manager_stop_worker_def manager_capture_finish_def
    split: sum.split prod.split option.split)

lemma host_step_ok:
  assumes "host_step cfg h h'" "host_ok cfg h" "valid_config (with_defaults cfg)"
  shows "host_ok cfg h'"
  using assms(1)
proof (cases rule: host_step.cases)
  case (operate m x)
  then show ?thesis using assms(2) mgr_step_durable [of m x] by (simp add: mgr_step_config)
next
  case (crash m st)
  then show ?thesis using assms(2) durable_fits [of m st] by (auto simp: durable_def)
next
  case (start f env st m sto)
  have b: "store_base st" "fits (nat (mc_max_inputs (with_defaults cfg))) st" using start(1) assms(2) by simp_all
  show ?thesis using new_manager_spec [OF b assms(3) start(3)] start(2) by (metis host_ok.simps(1))
next
  case (failed_start f env st e st')
  have b: "store_base st" "fits (nat (mc_max_inputs (with_defaults cfg))) st" using failed_start(1) assms(2) by simp_all
  obtain st1 where "Some st' = Some st1" "based st st1" by (rule new_manager_spec [OF b assms(3) failed_start(3)])
  then show ?thesis using failed_start(2) based_fits b(2) by (auto simp: based_def)
qed

lemma empty_store_base: "store_base empty_store" "fits n empty_store"
  by (simp_all add: store_base_def fits_def inputs_of_def empty_store_def tables_wf_def sessions_wf_def references_wf_def
      session_base_def keys_distinct_def)

lemma host_reachable_ok:
  assumes "(host_step cfg)\<^sup>*\<^sup>* (Down empty_store) h" "valid_config (with_defaults cfg)"
  shows "host_ok cfg h"
  using assms(1)
proof (induction rule: rtranclp_induct)
  case base
  show ?case by (simp add: empty_store_base)
next
  case (step h h')
  then show ?case using host_step_ok assms(2) by blast
qed

fun host_store :: "host \<Rightarrow> store option" where
  "host_store (Up m) = mg_store m"
| "host_store (Down st) = Some st"

lemma host_store_ok:
  assumes "host_ok cfg h" "host_store h = Some st"
  shows "store_base st \<and> fits (nat (mc_max_inputs (with_defaults cfg))) st"
proof (cases h)
  case (Up m)
  then have m: "durable m" "mg_config m = with_defaults cfg" "mg_store m = Some st" using assms by simp_all
  then show ?thesis using durable_fits [OF m(1,3)] by (simp add: durable_def)
qed (use assms in simp)

lemma new_manager_rows:
  assumes "new_manager True f env cfg (Some st) = (Inr m, sto)"
  obtains m' st' where "recover_rows env (all_sessions st) \<lparr>mg_config = with_defaults cfg, mg_sessions = [], mg_names = [],
      mg_stopping = False, mg_store = Some st\<rparr> st = (Inr m', st')" "m = m'\<lparr>mg_store := Some st'\<rparr>"
  using assms
  by (cases f) (auto simp: new_manager_def Let_def with_fault_def reads_def split: if_splits sum.splits prod.splits)

lemma new_manager_restored:
  assumes "store_base st" "fits (nat (mc_max_inputs (with_defaults cfg))) st" "valid_config (with_defaults cfg)"
    and "new_manager True f env cfg (Some st) = (Inr m, sto)"
  shows "fst ` set (mg_sessions m) = fst ` set (st_sessions st)"
    "map_of (st_sessions st) sid = Some r \<Longrightarrow>
     \<exists>s. map_of (mg_sessions m) sid = Some s \<and> restored (mc_history_bytes (with_defaults cfg)) r (rows_of st sid) s"
proof -
  have wf: "tables_wf st" using assms(1) by (simp add: store_base_def)
  note a = all_sessions_spec [OF wf]
  obtain m' st' where m': "recover_rows env (all_sessions st) (unread cfg st) st = (Inr m', st')" "m = m'\<lparr>mg_store := Some st'\<rparr>"
    unfolding unread_def by (rule new_manager_rows [OF assms(4)])
  show ids: "fst ` set (mg_sessions m) = fst ` set (st_sessions st)"
    using recover_rows_ids [OF m'(1)] m'(2) a(4) by (simp add: unread_def)
  show "\<exists>s. map_of (mg_sessions m) sid = Some s \<and> restored (mc_history_bytes (with_defaults cfg)) r (rows_of st sid) s"
    if r: "map_of (st_sessions st) sid = Some r"
  proof -
    have "sid \<in> fst ` set (mg_sessions m)" unfolding ids using r by (rule map_of_SomeD [THEN imageI, of _ _ _ fst, simplified])
    then obtain s where s: "map_of (mg_sessions m') sid = Some s"
      using m'(2) map_of_eq_None_iff [of "mg_sessions m'" sid] by (cases "map_of (mg_sessions m') sid") simp_all
    have fit: "fits (nat (mc_max_inputs (mg_config (unread cfg st)))) st" using assms(2) by (simp add: unread_def)
    from recover_rows_restored [OF unread_ok [OF assms(1,3)] assms(1) fit m'(1) s]
    obtain r' where "r' \<in> set (all_sessions st)" "sr_id r' = sid" "restored (mc_history_bytes (with_defaults cfg)) r' (rows_of st sid) s"
      by (auto simp: unread_def)
    moreover have "r' = r" using a(3) calculation(1,2) r by auto
    ultimately show ?thesis using s m'(2) by simp
  qed
qed



subsection \<open>A concrete crash\<close>

definition calm_recovery :: "string \<Rightarrow> recover_env" where
  "calm_recovery _ = \<lparr>rc_now = 5, rc_update = Healthy, rc_trim = Healthy, rc_replay = Healthy, rc_inputs = Healthy\<rparr>"

definition sample_up :: manager where
  "sample_up = unread sample_config empty_store"

definition sample_crashed :: store where
  "sample_crashed = the (mg_store (mgr_step sample_up sample_create))"

lemma sample_start: "new_manager True Healthy calm_recovery sample_config (Some empty_store) = (Inr sample_up, Some empty_store)"
  by (simp add: new_manager_def sample_up_def unread_def valid_config_def with_defaults_def sample_config_def reads_def with_fault_def
      all_sessions_def empty_store_def)

lemma sample_crashed_row:
  "mg_store (mgr_step sample_up sample_create) = Some sample_crashed"
  "\<exists>r. map_of (st_sessions sample_crashed) ''s1'' = Some r \<and> sr_state r = ''running'' \<and> sr_generation r = 1"
  by (simp_all add: sample_crashed_def sample_up_def unread_def manager_eval empty_store_def with_fault_def create_session_def
      creating_row_def session_constraints_def store_record_locked_def update_session_def updated_row_def u64_add_def
      u64_limit_def sql_limit_def snapshot_locked_def name_taken_def)

lemma sample_history: "(host_step sample_config)\<^sup>*\<^sup>* (Down empty_store) (Down sample_crashed)"
proof -
  have a: "host_step sample_config (Down empty_store) (Up sample_up)" by (rule host_step.start [OF sample_start])
  have b: "host_step sample_config (Up sample_up) (Up (mgr_step sample_up sample_create))"
    by (rule host_step.operate) (simp add: sample_create_def)
  have c: "host_step sample_config (Up (mgr_step sample_up sample_create)) (Down sample_crashed)"
    by (rule host_step.crash [OF sample_crashed_row(1)])
  show ?thesis
    by (rule rtranclp.rtrancl_into_rtrancl [OF rtranclp.rtrancl_into_rtrancl [OF r_into_rtranclp [of "host_step sample_config", OF a] b] c])
qed

lemma sample_config_valid: "valid_config (with_defaults sample_config)"
  by (simp add: valid_config_def with_defaults_def sample_config_def)

lemma calm_recovery_healthy: "healthy_recovery (calm_recovery sid)"
  by (simp add: healthy_recovery_def calm_recovery_def)


lemma sample_restart: "\<exists>m sto. new_manager True Healthy calm_recovery sample_config (Some sample_crashed) = (Inr m, sto)"
proof -
  have b: "store_base sample_crashed" "fits (nat (mc_max_inputs (with_defaults sample_config))) sample_crashed"
    using host_reachable_ok [OF sample_history sample_config_valid] by simp_all
  obtain res sto where run: "new_manager True Healthy calm_recovery sample_config (Some sample_crashed) = (res, sto)" by fastforce
  have "\<exists>m. res = Inr m" by (rule new_manager_spec [OF b sample_config_valid run]) (use calm_recovery_healthy in blast)
  then show ?thesis using run by blast
qed


subsection \<open>Where recovery fails\<close>

text \<open>
  The two operations that \<open>guarded\<close> excludes, and the record a failed creation leaves.

  First, a crash inside \<open>Create\<close> leaves a record in the state creating.  The next start
  closes it, with generation 0.  \<open>Restart\<close> of that session writes the state restarting
  with generation 0; a crash before the process runs leaves a record that
  \<open>RecoverLifecycle\<close> refuses, so that every later start of the helper fails.
\<close>

definition created_only :: store where
  "created_only = the (mg_store (mgr_step sample_up (MCreate
     \<lparr>cr_now = 1, cr_cancelled = False, cr_random = [], cr_insert = Healthy, cr_launch = None,
      cr_persist = Failing, cr_discard = Failing, cr_delete = Failing\<rparr> ''s1'' ''main''
     \<lparr>pc_path = ''/bin/sh'', pc_args = [], pc_env = [], pc_cwd = ''/'', pc_dims = \<lparr>dim_columns = 80, dim_rows = 24\<rparr>\<rparr>)))"

definition restarted_only :: "manager \<Rightarrow> store" where
  "restarted_only m = the (mg_store (mgr_step m (MRestart
     \<lparr>re_now = 9, re_restarting = Healthy, re_launch = None, re_running = Failing\<rparr> ''s1'')))"

lemmas recovery_eval = new_manager_def unread_def valid_config_def reads_def with_fault_def all_sessions_def recover_row_def
  recovered_record_def read_back_def trim_output_def store_replay_def recovered_session_def restore_def recover_lifecycle_def
  input_decisions_def new_input_journal_def row_command_def row_exit_def empty_store_def create_session_def creating_row_def
  session_constraints_def store_record_locked_def update_session_def updated_row_def u64_add_def u64_limit_def sql_limit_def
  snapshot_locked_def name_taken_def rows_of_def stamp_def set_rows_def

lemma created_only_row:
  "created_only = empty_store\<lparr>st_sessions := [(''s1'', (creating_row ''s1'' ''main''
     \<lparr>pc_path = ''/bin/sh'', pc_args = [], pc_env = [], pc_cwd = ''/'', pc_dims = \<lparr>dim_columns = 80, dim_rows = 24\<rparr>\<rparr>)
     \<lparr>sr_created := Some 1, sr_updated := Some 1\<rparr>)]\<rparr>"
  by (simp add: created_only_def sample_up_def manager_eval recovery_eval discard_failed_create_def)

lemma parse_state_strings:
  "parse_state ''creating'' = Some Creating" "parse_state ''closed'' = Some Closed" "parse_state ''restarting'' = Some Restarting"
  "parse_state ''exited'' = Some Exited"
  using parse_state_name [of Exited] parse_state_name [of Creating] parse_state_name [of Closed] parse_state_name [of Restarting] by simp_all

lemma never_run_restart_breaks_recovery:
  "\<exists>m sto. new_manager True Healthy calm_recovery sample_config (Some created_only) = (Inr m, sto) \<and>
     fst (new_manager True Healthy calm_recovery sample_config (Some (restarted_only m))) = Inl MgrTransition"
  by (simp add: created_only_row restarted_only_def sample_config_def with_defaults_def calm_recovery_def recovery_eval
      new_history_def blank_session_def manager_restart_def get_session_def session_restart_def persist_def on_store_def
      relaunch_def put_session_def new_lifecycle_def Let_def parse_state_strings bounds_def)

text \<open>
  Second, \<open>Write\<close> reserves its decision in the store before the journal looks at the key,
  so that a key without a client identity is stored; the journal then refuses it, and
  \<open>Restore\<close> refuses it at every later start.
\<close>

lemma write_stores_invalid_key:
  assumes "\<not> valid_input_key key" "\<not> stale_input s key" "attached_here s (k_attachment key)"
    and "map_of (j_decisions (ms_inputs s)) key = None" "length (j_decisions (ms_inputs s)) < j_max (ms_inputs s)"
    and "map_of (st_inputs st) (ms_id s, key) = None" "map_of (st_sessions st) (ms_id s) \<noteq> None" "k_generation key < sql_limit"
  shows "\<exists>s' st'. session_write now s key data out Healthy f (Some st) = ((Some (MgrInput ErrInvalidInput), None, False), s', Some st') \<and>
    ((ms_id s, key), reserved_row (sha256 data) now) \<in> set (st_inputs st')"
proof -
  have "input_write (ms_inputs s) key data (Some out) = (Inl ErrInvalidInput, ms_inputs s, False)"
    using assms(1) by (simp add: input_write_def)
  then show ?thesis
    using assms(2-8) by (simp add: session_write_def input_query_def input_admit_def write_reserved_def on_store_def with_fault_def
        put_input_decision_def update_fresh)
qed

lemma restore_inputs_invalid:
  "(key, row) \<in> set rows \<Longrightarrow> \<not> valid_input_key key \<Longrightarrow> \<exists>e. restore_inputs j rows = Inl e"
  by (induction j rows rule: restore_inputs.induct) (auto simp: input_restore_def split: sum.split)

lemma invalid_key_breaks_recovery:
  assumes "store_base (st\<lparr>st_inputs := []\<rparr>)" "map_of (st_sessions st) sid = Some r" "((sid, key), row) \<in> set (st_inputs st)"
    and "\<not> valid_input_key key"
  shows "\<exists>e. fst (read_back env cfg r st) = Inl e"
proof -
  have id: "sr_id r = sid" using store_baseD(6) [OF assms(1), of sid r] assms(2) by simp
  have "(key, row) \<in> set (input_decisions sid st')" if "st_inputs st' = st_inputs st" for st'
    using assms(3) that by (force simp: input_decisions_def)
  then have "\<exists>e. restore_inputs j (input_decisions sid st') = Inl e" if "st_inputs st' = st_inputs st" for st' j
    using restore_inputs_invalid [OF _ assms(4)] that by blast
  moreover have "st_inputs st' = st_inputs st" if "trim_output sid n st = (q, st')" for q n st'
    using that by (auto simp: trim_output_def set_rows_def set_bounds_def Let_def split: if_splits option.splits prod.splits)
  ultimately have bad: "restore_inputs j (input_decisions sid st') \<noteq> Inr x" if "trim_output sid n st = (q, st')" for q n st' j x
    using that by (metis sum.distinct(1))
  show ?thesis
    using id bad by (auto simp: read_back_def reads_def recovered_session_def with_fault_def split: sum.split prod.split fault.split)
qed

text \<open>
  Third, when the write of the state running fails in \<open>Create\<close>, \<open>discardFailedCreate\<close>
  tries it once more; if it now succeeds, the record is running, which \<open>DeleteSession\<close>
  refuses.  The record stays although no session exists, and its name cannot be used.
\<close>

definition failed_create :: manager where
  "failed_create = mgr_step sample_up (MCreate
     \<lparr>cr_now = 1, cr_cancelled = False, cr_random = [], cr_insert = Healthy, cr_launch = Some 7,
      cr_persist = Failing, cr_discard = Healthy, cr_delete = Healthy\<rparr> ''s1'' ''main''
     \<lparr>pc_path = ''/bin/sh'', pc_args = [], pc_env = [], pc_cwd = ''/'', pc_dims = \<lparr>dim_columns = 80, dim_rows = 24\<rparr>\<rparr>)"

lemma failed_create_keeps_name:
  "mg_sessions failed_create = []"
  "fst (manager_create \<lparr>cr_now = 2, cr_cancelled = False, cr_random = [], cr_insert = Healthy, cr_launch = Some 8,
      cr_persist = Healthy, cr_discard = Healthy, cr_delete = Healthy\<rparr> failed_create ''s2'' ''main''
     \<lparr>pc_path = ''/bin/sh'', pc_args = [], pc_env = [], pc_cwd = ''/'', pc_dims = \<lparr>dim_columns = 80, dim_rows = 24\<rparr>\<rparr>)
   = Inl (MgrStore StoreConstraint)"
  by (simp_all add: failed_create_def sample_up_def manager_eval recovery_eval discard_failed_create_def delete_session_def)

text \<open>
  Fourth, the capture loop of a closed process calls \<open>stopOutputPersistence\<close> without the
  session's lock, after its last read.  When the session has been restarted by then, it
  stops the worker of the new process: the session runs, and nothing persists its output.
\<close>

definition late_stop :: manager where
  "late_stop = run mgr_step sample_up
     [sample_create,
      MClose \<lparr>cl_now = 2, cl_cancelled = False, cl_closing = Healthy,
        cl_term = Terminated \<lparr>ex_code = 0, ex_signal = [], ex_at = 2\<rparr>, cl_closed = Healthy\<rparr> ''s1'',
      MRestart \<lparr>re_now = 3, re_restarting = Healthy, re_launch = Some 8, re_running = Healthy\<rparr> ''s1'',
      MStopWorker \<lparr>fe_now = 4, fe_bounds = Healthy, fe_advance = Healthy, fe_append = []\<rparr> ''s1'']"

lemma late_stop_loses_worker:
  "\<exists>s. get_session late_stop ''s1'' = Inr s \<and> l_state (ms_lifecycle s) = Running \<and> ms_process s = Some 8 \<and> ms_worker s = None"
  by (simp add: late_stop_def sample_up_def manager_eval recovery_eval manager_close_def session_close_def close_running_def
      close_process_def closed_with_def manager_restart_def session_restart_def relaunch_def manager_stop_worker_def
      stop_output_persistence_def flush_round_def output_bounds_def flush_events_def set_generation_def)

end
