(* ===== verification/Wire_Format.thy ===== *)
theory Wire_Format
  imports Prelude
begin

section \<open>Byte order, readers and writers\<close>

text \<open>
  What the wire formats of the helper are built from: big-endian integers
  (\<open>encoding/binary\<close>), reading from a stream (\<open>io.ReadFull\<close>), writing to a connection that
  takes a part of the bytes at a time (\<open>writeAll\<close> of \<open>src/internal/protocol/binary.go\<close>,
  \<open>writeFull\<close> of \<open>src/internal/nativeproto/nativeproto.go\<close>), and frame buffers that are
  reused (\<open>growFrame\<close> of \<open>src/internal/protocol/terminal_v1.go\<close>).  The error codes of
  \<open>src/internal/protocol\<close> are one datatype.

  A reader is the list of bytes it still delivers before the end of the stream.  Two
  locales state what a format promises: \<open>message_codec\<close> for one message, \<open>stream_codec\<close>
  for frames that follow each other on a stream.
\<close>

subsection \<open>Errors\<close>

datatype code =
    Malformed | Oversized | UnsupportedMessage | InvalidFrame | CapabilityRequired | InvalidDeadline
  | CredentialExpired | UnsupportedChannel | ProtocolIncompatible

datatype wire_error = EndOfStream | UnexpectedEOF | Protocol code

subsection \<open>Big-endian integers\<close>

fun put_be :: "nat \<Rightarrow> nat \<Rightarrow> bytes" where
  "put_be 0 v = []"
| "put_be (Suc n) v = put_be n (v div 256) @ [word_of_nat v]"

lemma put_be_numeral: "put_be (numeral k) v = put_be (pred_numeral k) (v div 256) @ [word_of_nat v]"
  by (simp only: numeral_eq_Suc put_be.simps)

definition get_be :: "bytes \<Rightarrow> nat" where
  "get_be bs = foldl (\<lambda>a b. a * 256 + unat b) 0 bs"

lemma length_put_be [simp]: "length (put_be n v) = n"
  by (induction n arbitrary: v) simp_all

lemma get_be_Nil [simp]: "get_be [] = 0"
  by (simp add: get_be_def)

lemma get_be_snoc [simp]: "get_be (bs @ [b]) = get_be bs * 256 + unat b"
  by (simp add: get_be_def)

lemma get_put_be: "get_be (put_be n v) = v mod 256 ^ n"
proof (induction n arbitrary: v)
  case (Suc n)
  have "unat (word_of_nat v :: byte) = v mod 256" by (simp add: unat_of_nat)
  moreover have "v mod 256 ^ Suc n = v div 256 mod 256 ^ n * 256 + v mod 256"
    by (metis mod_mult2_eq power_Suc mult.commute)
  ultimately show ?case using Suc by simp
qed simp

lemma put_get_be: "put_be (length bs) (get_be bs) = bs"
proof (induction bs rule: rev_induct)
  case (snoc b bs)
  have b: "unat b < 256" using unsigned_less [of b] by simp
  then have "(get_be bs * 256 + unat b) div 256 = get_be bs" by simp
  moreover have "(256 :: byte) = 0" by simp
  then have "word_of_nat (get_be bs * 256 + unat b) = b" by (simp only: of_nat_add of_nat_mult of_nat_numeral) simp
  ultimately show ?case using snoc by simp
qed simp

lemma put_get_be': "length bs = n \<Longrightarrow> put_be n (get_be bs) = bs"
  using put_get_be [of bs] by simp

lemma get_be_bound: "get_be bs < 256 ^ length bs"
proof (induction bs rule: rev_induct)
  case (snoc b bs)
  have "unat b < 256" using unsigned_less [of b] by simp
  then show ?case using snoc by simp
qed simp

text \<open>\<open>Uint16\<close>, \<open>Uint32\<close> and \<open>Uint64\<close> at their widths.\<close>

definition put_word :: "nat \<Rightarrow> 'a::len word \<Rightarrow> bytes" where
  "put_word n w = put_be n (unat w)"

definition get_word :: "bytes \<Rightarrow> 'a::len word" where
  "get_word bs = word_of_nat (get_be bs)"

lemma length_put_word [simp]: "length (put_word n w) = n"
  by (simp add: put_word_def)

lemma get_put_word:
  fixes w :: "'a::len word"
  assumes "LENGTH('a) = 8 * n"
  shows "get_word (put_word n w) = w"
proof -
  have "unat w < 256 ^ n" using unsigned_less [of w] assms by (simp add: power_mult)
  then show ?thesis by (simp add: get_word_def put_word_def get_put_be)
qed

lemma put_get_word:
  assumes "LENGTH('a::len) = 8 * n" "length bs = n"
  shows "put_word n (get_word bs :: 'a word) = bs"
proof -
  have "get_be bs < 2 ^ LENGTH('a)" using get_be_bound [of bs] assms by (simp add: power_mult)
  then have "unat (get_word bs :: 'a word) = get_be bs" by (simp add: get_word_def unat_of_nat)
  then show ?thesis by (simp add: put_word_def put_get_be' [OF assms(2)])
qed

lemma put_word_inverses [simp]:
  "get_word (put_word 2 w2) = (w2 :: 16 word)" "get_word (put_word 4 w4) = (w4 :: 32 word)"
  "get_word (put_word 8 w8) = (w8 :: 64 word)"
  by (simp_all add: get_put_word)

lemma get_word_inverses:
  "length bs = 2 \<Longrightarrow> put_word 2 (get_word bs :: 16 word) = bs"
  "length bs = 4 \<Longrightarrow> put_word 4 (get_word bs :: 32 word) = bs"
  "length bs = 8 \<Longrightarrow> put_word 8 (get_word bs :: 64 word) = bs"
  by (simp_all add: put_get_word)

subsection \<open>Readers\<close>

definition read_full :: "nat \<Rightarrow> bytes \<Rightarrow> wire_error + bytes \<times> bytes" where
  "read_full n r =
     (if n \<le> length r then Inr (take n r, drop n r)
      else if r = [] then Inl EndOfStream else Inl UnexpectedEOF)"

lemma read_full_append [simp]: "length bs = n \<Longrightarrow> read_full n (bs @ rest) = Inr (bs, rest)"
  by (auto simp: read_full_def)

lemma read_full_Inr: "read_full n r = Inr (bs, rest) \<Longrightarrow> r = bs @ rest \<and> length bs = n"
  by (auto simp: read_full_def split: if_splits)

text \<open>A slice \<open>b[i:j]\<close> of a buffer.\<close>

definition slice :: "nat \<Rightarrow> nat \<Rightarrow> 'a list \<Rightarrow> 'a list" where
  "slice i j bs = take (j - i) (drop i bs)"

lemma length_slice [simp]: "j \<le> length bs \<Longrightarrow> length (slice i j bs) = j - i"
  by (auto simp: slice_def)

lemma slice_append: "i \<le> j \<Longrightarrow> slice i j bs @ drop j bs = drop i bs"
  by (metis append_take_drop_id drop_drop le_add_diff_inverse2 slice_def)

lemma slice_inside:
  "length xs = i \<Longrightarrow> length ys = j - i \<Longrightarrow> slice i j (xs @ ys @ zs) = ys"
  by (simp add: slice_def)

subsection \<open>Writers\<close>

text \<open>
  A writer takes a part of the bytes it is offered: each call answers with the number it
  took and whether it failed.  \<open>write_all\<close> is \<open>None\<close> while it still waits for an answer;
  otherwise it gives its error and the bytes that reached the connection.  A writer that
  keeps the contract of \<open>io.Writer\<close> takes at most what it was offered (\<open>fair_writer\<close>) and
  reports an error when it takes less.
\<close>

datatype write_error = WriteFailed | ErrShortWrite

fun write_all :: "(nat \<times> bool) list \<Rightarrow> bytes \<Rightarrow> (write_error option \<times> bytes \<times> (nat \<times> bool) list) option" where
  "write_all ws [] = Some (None, [], ws)"
| "write_all [] (b # bs) = None"
| "write_all ((n, failed) # ws) (b # bs) =
     (if failed then Some (Some WriteFailed, take n (b # bs), ws)
      else if n = 0 then Some (Some ErrShortWrite, [], ws)
      else map_option (\<lambda>(e, out, ws'). (e, take n (b # bs) @ out, ws')) (write_all ws (drop n (b # bs))))"

lemma write_all_prefix:
  assumes "write_all ws p = Some (e, out, ws')"
  shows "\<exists>rest. p = out @ rest \<and> (e = None \<longrightarrow> rest = [])"
  using assms
proof (induction ws p arbitrary: e out ws' rule: write_all.induct)
  case (3 n failed ws b bs)
  show ?case
  proof (cases "failed \<or> n = 0")
    case True
    then have "out = take n (b # bs) \<and> e \<noteq> None" using "3.prems" by (auto split: if_splits)
    then show ?thesis by (intro exI [of _ "drop n (b # bs)"]) auto
  next
    case False
    then obtain out1 where o: "write_all ws (drop n (b # bs)) = Some (e, out1, ws')" "out = take n (b # bs) @ out1"
      using "3.prems" by (auto split: if_splits)
    obtain rest where "drop n (b # bs) = out1 @ rest" "e = None \<longrightarrow> rest = []" using "3.IH" False o(1) by blast
    moreover have "b # bs = take n (b # bs) @ drop n (b # bs)" by simp
    ultimately show ?thesis using o(2) by (intro exI [of _ rest]) simp
  qed
qed (use assms in auto)

lemma write_all_success: "write_all ws p = Some (None, out, ws') \<Longrightarrow> out = p"
  using write_all_prefix by fastforce

text \<open>Every call makes progress or ends the loop, so as many answers as there are bytes are enough.\<close>

lemma write_all_ends:
  "length p \<le> length ws \<Longrightarrow> \<exists>e out ws'. write_all ws p = Some (e, out, ws') \<and> length ws \<le> length ws' + length p"
proof (induction ws p rule: write_all.induct)
  case (3 n failed ws b bs)
  show ?case
  proof (cases "failed \<or> n = 0")
    case False
    then have le: "length (drop n (b # bs)) \<le> length ws" "length (drop n (b # bs)) \<le> length bs" using "3.prems" by auto
    obtain e out ws' where "write_all ws (drop n (b # bs)) = Some (e, out, ws')" "length ws \<le> length ws' + length (drop n (b # bs))"
      using "3.IH" False le(1) by blast
    then show ?thesis using False le(2) by auto
  qed auto
qed auto

subsection \<open>Frame buffers\<close>

definition grow_frame :: "bytes \<Rightarrow> nat \<Rightarrow> bytes" where
  "grow_frame dst n = (if length dst < n then replicate n 0 else take n dst)"

lemma length_grow_frame [simp]: "length (grow_frame dst n) = n"
  by (simp add: grow_frame_def)

text \<open>\<open>copy(dst[off:], bs)\<close>, and the same for \<open>PutUint\<close> and single bytes.\<close>

definition poke :: "nat \<Rightarrow> bytes \<Rightarrow> bytes \<Rightarrow> bytes" where
  "poke off bs dst = take off dst @ take (length dst - off) bs @ drop (off + length bs) dst"

lemma length_poke [simp]: "off \<le> length dst \<Longrightarrow> length (poke off bs dst) = length dst"
  by (auto simp: poke_def)

text \<open>A buffer that is filled from the left holds nothing of what it held before.\<close>

definition filled :: "bytes \<Rightarrow> bytes \<Rightarrow> bool" where
  "filled bs dst \<longleftrightarrow> length bs \<le> length dst \<and> take (length bs) dst = bs"

lemma filled_Nil [simp]: "filled [] dst"
  by (simp add: filled_def)

lemma filled_poke:
  assumes "filled xs dst" "length xs = off" "off + length bs \<le> length dst"
  shows "filled (xs @ bs) (poke off bs dst)"
  using assms by (auto simp: filled_def poke_def min_def)

lemma filled_all: "filled bs dst \<Longrightarrow> length bs = length dst \<Longrightarrow> dst = bs"
  by (simp add: filled_def)

subsection \<open>What a format promises\<close>

text \<open>One message: decoding inverts encoding, and only what an encoder can produce is accepted.\<close>

locale message_codec =
  fixes enc :: "'a \<Rightarrow> 'e + bytes" and dec :: "bytes \<Rightarrow> 'e + 'a"
  assumes dec_enc: "enc x = Inr bs \<Longrightarrow> dec bs = Inr x"
    and enc_dec: "dec bs = Inr x \<Longrightarrow> enc x = Inr bs"
begin

lemma accepts_exactly: "dec bs = Inr x \<longleftrightarrow> enc x = Inr bs"
  using dec_enc enc_dec by blast

lemma enc_injective: "enc x = Inr bs \<Longrightarrow> enc y = Inr bs \<Longrightarrow> x = y"
  using dec_enc [of x bs] dec_enc [of y bs] by simp

lemma dec_injective: "dec bs = Inr x \<Longrightarrow> dec cs = Inr x \<Longrightarrow> bs = cs"
  using enc_dec [of bs x] enc_dec [of cs x] by simp

end

text \<open>Frames on a stream: reading gives back the frame and leaves the rest.\<close>

fun read_frames :: "(bytes \<Rightarrow> 'e + 'a \<times> bytes) \<Rightarrow> nat \<Rightarrow> bytes \<Rightarrow> 'a list \<times> bytes" where
  "read_frames rd 0 r = ([], r)"
| "read_frames rd (Suc n) r =
     (case rd r of
        Inl _ \<Rightarrow> ([], r)
      | Inr (x, rest) \<Rightarrow> (case read_frames rd n rest of (xs, left) \<Rightarrow> (x # xs, left)))"

locale stream_codec =
  fixes wr :: "'a \<Rightarrow> 'e + bytes" and rd :: "bytes \<Rightarrow> 'f + 'a \<times> bytes"
  assumes rd_wr: "wr x = Inr bs \<Longrightarrow> rd (bs @ rest) = Inr (x, rest)"
    and wr_rd: "rd r = Inr (x, rest) \<Longrightarrow> \<exists>bs. wr x = Inr bs \<and> r = bs @ rest"
begin

lemma frames_roundtrip:
  assumes "list_all2 (\<lambda>x bs. wr x = Inr bs) xs ws"
  shows "read_frames rd (length xs) (concat ws @ rest) = (xs, rest)"
  using assms
proof (induction xs ws rule: list_all2_induct)
  case (Cons x xs w ws)
  have "rd (w @ concat ws @ rest) = Inr (x, concat ws @ rest)" using Cons(1) by (rule rd_wr)
  then show ?case using Cons(3) by simp
qed simp

lemma frame_boundary:
  assumes "wr x = Inr bs" "wr y = Inr cs" "bs @ r = cs @ s"
  shows "x = y \<and> r = s"
  using rd_wr [OF assms(1), of r] rd_wr [OF assms(2), of s] assms(3) by simp

end

end
