(* ===== verification/Binary_Frames.thy ===== *)
theory Binary_Frames
  imports Wire_Format
begin

section \<open>Binary frames on a stream\<close>

text \<open>
  Model of \<open>src/internal/protocol/binary.go\<close>: length-prefixed frames of terminal bytes with
  a channel and a start sequence.  Sequences are words of 64 bits, the length prefix a word
  of 32.  \<open>binary_wire\<close> is what \<open>WriteBinaryFrame\<close> hands to the connection when the frame
  passes its checks; \<open>write_binary_frame\<close> adds the two calls of \<open>writeAll\<close>.  The field
  \<open>Release\<close> returns a buffer to a pool and has no counterpart.
\<close>

definition max_binary_frame :: nat where
  "max_binary_frame = 262144"

definition binary_header_len :: nat where
  "binary_header_len = 9"

definition binary_channel :: "byte \<Rightarrow> bool" where
  "binary_channel c \<longleftrightarrow> c = 1 \<or> c = 2 \<or> c = 3"

record binary_frame =
  bf_channel :: byte
  bf_start :: "64 word"
  bf_data :: bytes

definition end_sequence :: "binary_frame \<Rightarrow> code + 64 word" where
  "end_sequence f =
     (if - 1 - bf_start f < word_of_nat (length (bf_data f)) then Inl InvalidFrame
      else Inr (bf_start f + word_of_nat (length (bf_data f))))"

definition read_binary_frame :: "bytes \<Rightarrow> wire_error + binary_frame \<times> bytes" where
  "read_binary_frame r =
     (case read_full 4 r of
        Inl e \<Rightarrow> Inl e
      | Inr (prefix, r1) \<Rightarrow>
          let n = unat (get_word prefix :: 32 word)
          in if n < binary_header_len then Inl (Protocol InvalidFrame)
             else if n > max_binary_frame then Inl (Protocol Oversized)
             else case read_full binary_header_len r1 of
               Inl _ \<Rightarrow> Inl (Protocol InvalidFrame)
             | Inr (header, r2) \<Rightarrow>
                 if \<not> binary_channel (header ! 0) then Inl (Protocol UnsupportedChannel)
                 else case read_full (n - binary_header_len) r2 of
                   Inl _ \<Rightarrow> Inl (Protocol InvalidFrame)
                 | Inr (data, r3) \<Rightarrow>
                     let f = \<lparr>bf_channel = header ! 0, bf_start = get_word (drop 1 header), bf_data = data\<rparr>
                     in case end_sequence f of Inl e \<Rightarrow> Inl (Protocol e) | Inr _ \<Rightarrow> Inr (f, r3))"

definition binary_header :: "binary_frame \<Rightarrow> bytes" where
  "binary_header f =
     put_word 4 (word_of_nat (binary_header_len + length (bf_data f)) :: 32 word) @
     bf_channel f # put_word 8 (bf_start f)"

definition check_binary_frame :: "binary_frame \<Rightarrow> code option" where
  "check_binary_frame f =
     (if \<not> binary_channel (bf_channel f) then Some UnsupportedChannel
      else if length (bf_data f) > max_binary_frame - binary_header_len then Some Oversized
      else case end_sequence f of Inl e \<Rightarrow> Some e | Inr _ \<Rightarrow> None)"

definition binary_wire :: "binary_frame \<Rightarrow> code + bytes" where
  "binary_wire f = (case check_binary_frame f of Some e \<Rightarrow> Inl e | None \<Rightarrow> Inr (binary_header f @ bf_data f))"

datatype send_error = Rejected code | SendFailed write_error

definition write_binary_frame ::
    "(nat \<times> bool) list \<Rightarrow> binary_frame \<Rightarrow> (send_error option \<times> bytes \<times> (nat \<times> bool) list) option" where
  "write_binary_frame ws f =
     (case check_binary_frame f of
        Some e \<Rightarrow> Some (Some (Rejected e), [], ws)
      | None \<Rightarrow>
          (case write_all ws (binary_header f) of
             None \<Rightarrow> None
           | Some (Some e, out, ws1) \<Rightarrow> Some (Some (SendFailed e), out, ws1)
           | Some (None, out, ws1) \<Rightarrow>
               map_option (\<lambda>(e, out', ws2). (map_option SendFailed e, out @ out', ws2)) (write_all ws1 (bf_data f))))"

lemma end_sequence_exact:
  assumes "length (bf_data f) < 2 ^ 64" "end_sequence f = Inr e"
  shows "unat e = unat (bf_start f) + length (bf_data f)"
proof -
  let ?n = "word_of_nat (length (bf_data f)) :: 64 word"
  have n: "unat ?n = length (bf_data f)" using assms(1) by (simp add: unat_of_nat)
  have e: "?n \<le> - 1 - bf_start f" "e = bf_start f + ?n" using assms(2) by (auto simp: end_sequence_def split: if_splits)
  have "unat (- 1 - bf_start f) = 2 ^ 64 - 1 - unat (bf_start f)"
    by (subst unat_sub) (simp_all add: unsigned_minus_1_eq_mask mask_eq_exp_minus_1)
  then have "unat (bf_start f) + length (bf_data f) < 2 ^ 64"
    using e(1) n unsigned_less [of "bf_start f", where 'a = nat] by (simp add: word_le_nat_alt)
  then show ?thesis using e(2) n by (simp add: unat_word_ariths)
qed

lemma binary_wire_Inr:
  "binary_wire f = Inr bs \<longleftrightarrow>
     bs = binary_header f @ bf_data f \<and> binary_channel (bf_channel f) \<and> length (bf_data f) \<le> max_binary_frame - binary_header_len \<and>
     (\<exists>e. end_sequence f = Inr e)"
  by (auto simp: binary_wire_def check_binary_frame_def split: sum.splits)

lemma unat_frame_length:
  "n \<le> max_binary_frame \<Longrightarrow> unat (word_of_nat n :: 32 word) = n"
  by (simp add: unat_of_nat max_binary_frame_def)

lemma read_binary_wire:
  assumes "binary_wire f = Inr bs"
  shows "read_binary_frame (bs @ rest) = Inr (f, rest)"
proof -
  note a = assms [unfolded binary_wire_Inr]
  let ?n = "binary_header_len + length (bf_data f)"
  have n: "unat (word_of_nat ?n :: 32 word) = ?n" by (rule unat_frame_length) (use a in \<open>simp add: max_binary_frame_def binary_header_len_def\<close>)
  have bs: "bs @ rest = put_word 4 (word_of_nat ?n :: 32 word) @ (bf_channel f # put_word 8 (bf_start f)) @ bf_data f @ rest"
    using a by (simp add: binary_header_def)
  have "read_full binary_header_len ((bf_channel f # put_word 8 (bf_start f)) @ bf_data f @ rest) =
      Inr (bf_channel f # put_word 8 (bf_start f), bf_data f @ rest)"
    by (rule read_full_append) (simp add: binary_header_len_def)
  then show ?thesis unfolding bs read_binary_frame_def using a n
    by (cases f) (auto simp: Let_def max_binary_frame_def binary_header_len_def)
qed

lemma read_binary_frame_Inr:
  assumes "read_binary_frame r = Inr (f, rest)"
  shows "\<exists>bs. binary_wire f = Inr bs \<and> r = bs @ rest"
proof -
  obtain prefix r1 where p: "read_full 4 r = Inr (prefix, r1)"
    using assms by (auto simp: read_binary_frame_def split: sum.splits)
  let ?n = "unat (get_word prefix :: 32 word)"
  have n: "\<not> ?n < binary_header_len" "\<not> max_binary_frame < ?n"
    using assms p by (auto simp: read_binary_frame_def Let_def split: if_splits)
  obtain header r2 where h: "read_full binary_header_len r1 = Inr (header, r2)" "binary_channel (header ! 0)"
    using assms p n by (auto simp: read_binary_frame_def Let_def split: sum.splits if_splits)
  obtain data where d: "read_full (?n - binary_header_len) r2 = Inr (data, rest)"
    "f = \<lparr>bf_channel = header ! 0, bf_start = get_word (drop 1 header), bf_data = data\<rparr>" "\<exists>e. end_sequence f = Inr e"
    using assms p n h by (auto simp: read_binary_frame_def Let_def split: sum.splits if_splits)
  have e: "r = prefix @ r1" "length prefix = 4" "r1 = header @ r2" "length header = 9" "r2 = data @ rest" "length data = ?n - 9"
    using read_full_Inr [OF p] read_full_Inr [OF h(1)] read_full_Inr [OF d(1)] by (auto simp: binary_header_len_def)
  have "binary_header_len + length data = ?n" using e(6) n(1) by (simp add: binary_header_len_def)
  then have "put_word 4 (word_of_nat (binary_header_len + length data) :: 32 word) = prefix"
    using e(2) by (simp add: get_word_inverses)
  moreover have "header = header ! 0 # drop 1 header" using e(4) by (cases header) auto
  then have "header = header ! 0 # put_word 8 (get_word (drop 1 header) :: 64 word)" using e(4) by (simp add: get_word_inverses)
  ultimately have "binary_header f = prefix @ header" using d(2) by (simp add: binary_header_def)
  then have "binary_wire f = Inr (prefix @ header @ data)"
    using d(2,3) h(2) n e(6) by (simp add: binary_wire_Inr max_binary_frame_def binary_header_len_def)
  then show ?thesis using e by (intro exI [of _ "prefix @ header @ data"]) simp
qed

interpretation binary: stream_codec binary_wire read_binary_frame
  by unfold_locales (use read_binary_wire read_binary_frame_Inr in blast)+

lemma write_binary_frame_success:
  assumes "write_binary_frame ws f = Some (None, out, ws')"
  shows "binary_wire f = Inr out"
proof -
  have c: "check_binary_frame f = None" using assms by (auto simp: write_binary_frame_def split: option.splits)
  obtain out1 ws1 where o: "write_all ws (binary_header f) = Some (None, out1, ws1)"
    using assms c by (auto simp: write_binary_frame_def split: option.splits)
  obtain out2 where o2: "write_all ws1 (bf_data f) = Some (None, out2, ws')" "out = out1 @ out2"
    using assms c o by (auto simp: write_binary_frame_def)
  have "out = binary_header f @ bf_data f" using write_all_success [OF o] write_all_success [OF o2(1)] o2(2) by simp
  then show ?thesis using c by (simp add: binary_wire_def)
qed

text \<open>
  C23: Binary frames survive the stream.  Write any frames one after another, over connections
  that take the bytes in pieces of any size: when every write reports success, a reader gets
  back exactly these frames, in order, and is left with whatever follows them.
\<close>
theorem binary_frames_roundtrip:
  assumes "list_all2 (\<lambda>f out. \<exists>ws ws'. write_binary_frame ws f = Some (None, out, ws')) fs outs"
  shows "read_frames read_binary_frame (length fs) (concat outs @ rest) = (fs, rest)"
proof (rule binary.frames_roundtrip)
  show "list_all2 (\<lambda>f bs. binary_wire f = Inr bs) fs outs"
    by (rule list_all2_mono [OF assms]) (use write_binary_frame_success in blast)
qed

definition sample_frame :: binary_frame where
  "sample_frame = \<lparr>bf_channel = 1, bf_start = 258, bf_data = [7, 8]\<rparr>"

lemma sample_frame_written:
  "write_binary_frame [(5, False), (8, False), (1, False), (1, False)] sample_frame =
     Some (None, [0, 0, 0, 11, 1, 0, 0, 0, 0, 0, 0, 1, 2, 7, 8], [])"
  by (simp add: write_binary_frame_def check_binary_frame_def binary_channel_def end_sequence_def binary_header_def sample_frame_def
      max_binary_frame_def binary_header_len_def put_word_def put_be_numeral)

theorem binary_frames_roundtrip_witness:
  "read_frames read_binary_frame 1 ([0, 0, 0, 11, 1, 0, 0, 0, 0, 0, 0, 1, 2, 7, 8] @ [9]) = ([sample_frame], [9])"
  using binary_frames_roundtrip [of "[sample_frame]" "[[0, 0, 0, 11, 1, 0, 0, 0, 0, 0, 0, 1, 2, 7, 8]]" "[9]"] sample_frame_written
  by auto

end
