(* ===== verification/Native_Records.thy ===== *)
theory Native_Records
  imports Wire_Format
begin

section \<open>Prefaces and records of native connections\<close>

text \<open>
  Model of \<open>src/internal/nativeproto/nativeproto.go\<close>.  A native connection starts with a
  preface that names its role, its connection, and either a token (control) or the binding
  of an earlier control connection (input and output); records with a length follow, on
  control connections with a kind before the length.  The 16 bytes of a connection identity
  are one word of 128 bits, written with its most significant byte first.
\<close>

definition native_magic :: bytes where
  "native_magic = [80, 66, 84, 49]"

definition native_version :: byte where
  "native_version = 1"

definition max_token_size :: nat where
  "max_token_size = 16384"

definition max_record_size :: nat where
  "max_record_size = 1048576"

datatype native_error = NativeIO wire_error | ErrPreface | ErrRecord

record preface =
  pf_role :: byte
  pf_connection :: "128 word"
  pf_binding :: bytes
  pf_token :: bytes

definition valid_lengths :: "byte \<Rightarrow> nat \<Rightarrow> nat \<Rightarrow> bool" where
  "valid_lengths role binding_len token_len \<longleftrightarrow>
     role = 1 \<and> binding_len = 0 \<and> token_len > 0 \<or>
     (role = 2 \<or> role = 3) \<and> binding_len = 32 \<and> token_len = 0"

definition zero_id :: "128 word \<Rightarrow> bool" where
  "zero_id cid \<longleftrightarrow> cid = 0"

definition read_preface :: "bytes \<Rightarrow> native_error + preface \<times> bytes" where
  "read_preface r =
     (case read_full 26 r of
        Inl e \<Rightarrow> Inl (NativeIO e)
      | Inr (header, r1) \<Rightarrow>
          if take 4 header \<noteq> native_magic \<or> header ! 4 \<noteq> native_version then Inl ErrPreface
          else
            let role = header ! 5;
                connection = get_word (slice 6 22 header);
                binding_len = unat (get_word (slice 22 24 header) :: 16 word);
                token_len = unat (get_word (slice 24 26 header) :: 16 word)
            in if zero_id connection \<or> token_len > max_token_size \<or> \<not> valid_lengths role binding_len token_len
               then Inl ErrPreface
               else case read_full binding_len r1 of
                 Inl e \<Rightarrow> Inl (NativeIO e)
               | Inr (binding, r2) \<Rightarrow>
                   (case read_full token_len r2 of
                      Inl e \<Rightarrow> Inl (NativeIO e)
                    | Inr (token, r3) \<Rightarrow>
                        Inr (\<lparr>pf_role = role, pf_connection = connection, pf_binding = binding, pf_token = token\<rparr>, r3)))"

text \<open>The buffer \<open>WritePreface\<close> fills.\<close>

definition preface_wire :: "preface \<Rightarrow> native_error + bytes" where
  "preface_wire p =
     (if zero_id (pf_connection p) \<or> length (pf_token p) > max_token_size
         \<or> \<not> valid_lengths (pf_role p) (length (pf_binding p)) (length (pf_token p))
      then Inl ErrPreface
      else Inr (native_magic @ [native_version, pf_role p] @ put_word 16 (pf_connection p) @
                put_word 2 (word_of_nat (length (pf_binding p)) :: 16 word) @
                put_word 2 (word_of_nat (length (pf_token p)) :: 16 word) @ pf_binding p @ pf_token p))"

definition write_full :: "(nat \<times> bool) list \<Rightarrow> bytes \<Rightarrow> (write_error option \<times> bytes \<times> (nat \<times> bool) list) option" where
  "write_full ws data = write_all ws data"

datatype native_send_error = Refused native_error | NotSent write_error

definition send_wire ::
    "(nat \<times> bool) list \<Rightarrow> native_error + bytes \<Rightarrow> (native_send_error option \<times> bytes \<times> (nat \<times> bool) list) option" where
  "send_wire ws wire =
     (case wire of
        Inl e \<Rightarrow> Some (Some (Refused e), [], ws)
      | Inr bs \<Rightarrow> map_option (\<lambda>(e, out, ws'). (map_option NotSent e, out, ws')) (write_full ws bs))"

definition write_preface ::
    "(nat \<times> bool) list \<Rightarrow> preface \<Rightarrow> (native_send_error option \<times> bytes \<times> (nat \<times> bool) list) option" where
  "write_preface ws p = send_wire ws (preface_wire p)"

definition record_kind :: "byte \<Rightarrow> bool" where
  "record_kind k \<longleftrightarrow> k = 1 \<or> k = 2"

definition read_record :: "bool \<Rightarrow> bytes \<Rightarrow> native_error + (byte \<times> bytes) \<times> bytes" where
  "read_record typed r =
     (case read_full (if typed then 5 else 4) r of
        Inl e \<Rightarrow> Inl (NativeIO e)
      | Inr (header, r1) \<Rightarrow>
          let kind = (if typed then header ! 0 else 2);
              len = unat (get_word (if typed then drop 1 header else header) :: 32 word)
          in if typed \<and> \<not> record_kind kind then Inl ErrRecord
             else if len = 0 \<or> len > max_record_size then Inl ErrRecord
             else case read_full len r1 of
               Inl e \<Rightarrow> Inl (NativeIO e)
             | Inr (payload, r2) \<Rightarrow> Inr ((kind, payload), r2))"

definition record_wire :: "bool \<Rightarrow> byte \<times> bytes \<Rightarrow> native_error + bytes" where
  "record_wire typed kp =
     (case kp of
        (kind, payload) \<Rightarrow>
          if payload = [] \<or> length payload > max_record_size \<or> typed \<and> \<not> record_kind kind then Inl ErrRecord
          else Inr ((if typed then [kind] else []) @ put_word 4 (word_of_nat (length payload) :: 32 word) @ payload))"

definition write_record ::
    "(nat \<times> bool) list \<Rightarrow> byte \<Rightarrow> bytes \<Rightarrow> bool \<Rightarrow> (native_send_error option \<times> bytes \<times> (nat \<times> bool) list) option" where
  "write_record ws kind payload typed = send_wire ws (record_wire typed (kind, payload))"

lemma send_wire_success: "send_wire ws wire = Some (None, out, ws') \<Longrightarrow> wire = Inr out"
  using write_all_success by (fastforce simp: send_wire_def write_full_def split: sum.splits)

subsection \<open>Prefaces\<close>

lemma connection_inverse [simp]: "get_word (put_word 16 w) = (w :: 128 word)"
  by (simp add: get_put_word)

lemma preface_lengths:
  "n \<le> max_token_size \<Longrightarrow> unat (word_of_nat n :: 16 word) = n" "n \<le> max_record_size \<Longrightarrow> unat (word_of_nat n :: 32 word) = n"
  by (simp_all add: unat_of_nat max_token_size_def max_record_size_def)

lemma read_preface_wire:
  assumes "preface_wire p = Inr bs"
  shows "read_preface (bs @ rest) = Inr (p, rest)"
proof -
  let ?b = "length (pf_binding p)" and ?t = "length (pf_token p)"
  have v: "\<not> zero_id (pf_connection p)" "?t \<le> max_token_size" "valid_lengths (pf_role p) ?b ?t"
    using assms by (auto simp: preface_wire_def split: if_splits)
  have "?b \<le> max_token_size" using v(3) by (auto simp: valid_lengths_def max_token_size_def)
  then have len: "unat (word_of_nat ?b :: 16 word) = ?b" "unat (word_of_nat ?t :: 16 word) = ?t"
    using v(2) by (simp_all add: preface_lengths)
  define header where "header = native_magic @ [native_version, pf_role p] @ put_word 16 (pf_connection p) @
    put_word 2 (word_of_nat ?b :: 16 word) @ put_word 2 (word_of_nat ?t :: 16 word)"
  have h: "length header = 26" "take 4 header = native_magic" "header ! 4 = native_version" "header ! 5 = pf_role p"
    "slice 6 22 header = put_word 16 (pf_connection p)" "slice 22 24 header = put_word 2 (word_of_nat ?b :: 16 word)"
    "slice 24 26 header = put_word 2 (word_of_nat ?t :: 16 word)"
    by (simp_all add: header_def native_magic_def slice_def nth_append)
  have bs: "bs @ rest = header @ pf_binding p @ pf_token p @ rest"
    using assms v by (simp add: preface_wire_def header_def)
  show ?thesis
    unfolding bs read_preface_def using h v len by (cases p) (simp add: Let_def)
qed

lemma read_preface_Inr:
  assumes "read_preface r = Inr (p, rest)"
  shows "\<exists>bs. preface_wire p = Inr bs \<and> r = bs @ rest"
proof -
  obtain header r1 where h: "read_full 26 r = Inr (header, r1)" "take 4 header = native_magic" "header ! 4 = native_version"
    using assms by (auto simp: read_preface_def split: sum.splits if_splits)
  define b t where "b = unat (get_word (slice 22 24 header) :: 16 word)" and "t = unat (get_word (slice 24 26 header) :: 16 word)"
  obtain binding r2 token where d: "read_full b r1 = Inr (binding, r2)" "read_full t r2 = Inr (token, rest)"
    "p = \<lparr>pf_role = header ! 5, pf_connection = get_word (slice 6 22 header), pf_binding = binding, pf_token = token\<rparr>"
    "\<not> zero_id (pf_connection p)" "t \<le> max_token_size" "valid_lengths (pf_role p) b t"
    using assms h by (auto simp: read_preface_def Let_def b_def t_def split: sum.splits if_splits)
  have e: "r = header @ r1" "length header = 26" "r1 = binding @ r2" "length binding = b" "r2 = token @ rest" "length token = t"
    using read_full_Inr [OF h(1)] read_full_Inr [OF d(1)] read_full_Inr [OF d(2)] by auto
  have sl: "put_word 16 (get_word (slice 6 22 header) :: 128 word) = slice 6 22 header"
    "put_word 2 (word_of_nat b :: 16 word) = slice 22 24 header" "put_word 2 (word_of_nat t :: 16 word) = slice 24 26 header"
    using e(2) by (simp_all add: b_def t_def put_get_word)
  have "slice 22 24 header @ slice 24 26 header = drop 22 header" "slice 6 22 header @ drop 22 header = drop 6 header"
    using slice_append [of 22 24 header] slice_append [of 24 26 header] slice_append [of 6 22 header] e(2) by simp_all
  moreover have "drop 4 header = header ! 4 # header ! 5 # drop 6 header"
    using Cons_nth_drop_Suc [of 4 header] Cons_nth_drop_Suc [of 5 header] e(2) by simp
  then have "header = take 4 header @ [header ! 4, header ! 5] @ drop 6 header"
    using append_take_drop_id [of 4 header] by simp
  ultimately have "header = native_magic @ [native_version, header ! 5] @ slice 6 22 header @ slice 22 24 header @ slice 24 26 header"
    using h(2,3) by simp
  then have "preface_wire p = Inr (header @ binding @ token)"
    using d(3-6) e(4,6) sl by (simp add: preface_wire_def)
  then show ?thesis using e by (intro exI [of _ "header @ binding @ token"]) simp
qed

interpretation prefaces: stream_codec preface_wire read_preface
  by unfold_locales (use read_preface_wire read_preface_Inr in blast)+

subsection \<open>Records\<close>

lemma read_record_wire:
  assumes "record_wire typed (kind, payload) = Inr bs" "typed \<or> kind = 2"
  shows "read_record typed (bs @ rest) = Inr ((kind, payload), rest)"
proof -
  have v: "payload \<noteq> []" "length payload \<le> max_record_size" "typed \<Longrightarrow> record_kind kind"
    "bs = (if typed then [kind] else []) @ put_word 4 (word_of_nat (length payload) :: 32 word) @ payload"
    using assms(1) by (auto simp: record_wire_def split: if_splits)
  define header where "header = (if typed then [kind] else []) @ put_word 4 (word_of_nat (length payload) :: 32 word)"
  have bs: "bs @ rest = header @ payload @ rest" using v(4) by (simp add: header_def)
  have h: "length header = (if typed then 5 else 4)" "typed \<Longrightarrow> header ! 0 = kind"
    "(if typed then drop 1 header else header) = put_word 4 (word_of_nat (length payload) :: 32 word)"
    by (simp_all add: header_def)
  have "read_full (if typed then 5 else 4) (header @ payload @ rest) = Inr (header, payload @ rest)"
    using h(1) by (rule read_full_append)
  then show ?thesis
    unfolding bs read_record_def using h v(1-3) assms(2) preface_lengths(2) [OF v(2)] by (auto simp: Let_def)
qed

lemma read_record_Inr:
  assumes "read_record typed r = Inr ((kind, payload), rest)"
  shows "\<exists>bs. record_wire typed (kind, payload) = Inr bs \<and> r = bs @ rest" "typed \<or> kind = 2"
proof -
  let ?h = "if typed then 5 else 4 :: nat"
  obtain header r1 where h: "read_full ?h r = Inr (header, r1)" using assms by (auto simp: read_record_def split: sum.splits)
  define lenb where "lenb = (if typed then drop 1 header else header)"
  define len where "len = unat (get_word lenb :: 32 word)"
  have d: "kind = (if typed then header ! 0 else 2)" "typed \<Longrightarrow> record_kind kind" "len \<noteq> 0" "len \<le> max_record_size"
    "read_full len r1 = Inr (payload, rest)"
    using assms h by (auto simp: read_record_def Let_def len_def lenb_def split: sum.splits if_splits)
  then show "typed \<or> kind = 2" by simp
  have e: "r = header @ r1" "length header = ?h" "r1 = payload @ rest" "length payload = len"
    using read_full_Inr [OF h] read_full_Inr [OF d(5)] by auto
  have "length lenb = 4" using e(2) by (simp add: lenb_def)
  then have "put_word 4 (word_of_nat len :: 32 word) = lenb" by (simp add: len_def get_word_inverses)
  moreover have "header = (if typed then [kind] else []) @ lenb" using e(2) d(1) by (cases header) (auto simp: lenb_def)
  ultimately have "record_wire typed (kind, payload) = Inr (header @ payload)"
    using d(2-4) e(4) by (auto simp: record_wire_def)
  then show "\<exists>bs. record_wire typed (kind, payload) = Inr bs \<and> r = bs @ rest" using e by (intro exI [of _ "header @ payload"]) simp
qed

interpretation typed_records: stream_codec "record_wire True" "read_record True"
proof
  fix x bs rest
  assume "record_wire True x = Inr bs"
  then show "read_record True (bs @ rest) = Inr (x, rest)" using read_record_wire by (cases x) simp
next
  fix r x rest
  assume "read_record True r = Inr (x, rest)"
  then show "\<exists>bs. record_wire True x = Inr bs \<and> r = bs @ rest" using read_record_Inr(1) by (cases x) simp
qed

text \<open>On input and output connections every record is binary.\<close>

definition read_plain :: "bytes \<Rightarrow> native_error + bytes \<times> bytes" where
  "read_plain r = (case read_record False r of Inl e \<Rightarrow> Inl e | Inr ((_, payload), rest) \<Rightarrow> Inr (payload, rest))"

definition plain_wire :: "bytes \<Rightarrow> native_error + bytes" where
  "plain_wire payload = record_wire False (2, payload)"

interpretation plain_records: stream_codec plain_wire read_plain
proof
  fix x bs rest
  assume "plain_wire x = Inr bs"
  then show "read_plain (bs @ rest) = Inr (x, rest)" using read_record_wire [of False 2 x bs] by (simp add: plain_wire_def read_plain_def)
next
  fix r x rest
  assume "read_plain r = Inr (x, rest)"
  then obtain kind where "read_record False r = Inr ((kind, x), rest)" by (auto simp: read_plain_def split: sum.splits)
  from read_record_Inr [OF this] show "\<exists>bs. plain_wire x = Inr bs \<and> r = bs @ rest" by (simp add: plain_wire_def)
qed

text \<open>
  C24: A native control connection carries its preface and its records.  When the preface and
  every record were written successfully, in pieces of any size, the other side reads the
  same preface and then the same records, and is left with whatever follows.
\<close>
theorem native_control_roundtrip:
  assumes "write_preface ws p = Some (None, out, ws')"
    and "list_all2 (\<lambda>(kind, payload) sent. \<exists>ws ws'. write_record ws kind payload True = Some (None, sent, ws')) recs outs"
  shows "read_preface (out @ concat outs @ rest) = Inr (p, concat outs @ rest) \<and>
    read_frames (read_record True) (length recs) (concat outs @ rest) = (recs, rest)"
proof
  show "read_preface (out @ concat outs @ rest) = Inr (p, concat outs @ rest)"
    by (rule prefaces.rd_wr [OF send_wire_success]) (use assms(1) in \<open>simp add: write_preface_def\<close>)
  have "list_all2 (\<lambda>x sent. record_wire True x = Inr sent) recs outs"
    by (rule list_all2_mono [OF assms(2)]) (auto simp: write_record_def dest: send_wire_success)
  then show "read_frames (read_record True) (length recs) (concat outs @ rest) = (recs, rest)"
    by (rule typed_records.frames_roundtrip)
qed

text \<open>
  Only well-formed prefaces are accepted.  Whatever bytes arrive, a preface that is
  accepted names a connection that is not zero and a known role: a control connection has a
  token within the limit and no binding, an input or output connection has a binding of 32
  bytes and no token.  Its bytes are exactly the ones a writer would have sent for it.
\<close>
theorem accepted_preface_well_formed:
  assumes "read_preface r = Inr (p, rest)"
  shows "pf_connection p \<noteq> 0 \<and> length (pf_token p) \<le> max_token_size \<and>
    (pf_role p = 1 \<and> pf_binding p = [] \<and> pf_token p \<noteq> [] \<or>
     pf_role p \<in> {2, 3} \<and> length (pf_binding p) = 32 \<and> pf_token p = []) \<and>
    (\<exists>bs. preface_wire p = Inr bs \<and> r = bs @ rest)"
proof -
  obtain bs where bs: "preface_wire p = Inr bs" "r = bs @ rest" using read_preface_Inr [OF assms] by blast
  then show ?thesis by (auto simp: preface_wire_def zero_id_def valid_lengths_def split: if_splits)
qed

subsection \<open>A concrete connection\<close>

definition sample_preface :: preface where
  "sample_preface = \<lparr>pf_role = 1, pf_connection = 5, pf_binding = [], pf_token = [65]\<rparr>"

definition sample_preface_bytes :: bytes where
  "sample_preface_bytes = [80, 66, 84, 49, 1, 1, 0, 0, 0, 0, 0, 0, 0, 0, 0, 0, 0, 0, 0, 0, 0, 5, 0, 0, 0, 1, 65]"

lemma sample_preface_written:
  "write_preface [(20, False), (7, False)] sample_preface = Some (None, sample_preface_bytes, [])"
  "write_record [(6, False)] 2 [9] True = Some (None, [2, 0, 0, 0, 1, 9], [])"
  by (simp_all add: write_preface_def write_record_def send_wire_def write_full_def preface_wire_def record_wire_def sample_preface_def
      sample_preface_bytes_def zero_id_def valid_lengths_def record_kind_def max_token_size_def max_record_size_def native_magic_def
      native_version_def put_word_def put_be_numeral)

theorem native_control_roundtrip_witness:
  "read_preface (sample_preface_bytes @ [2, 0, 0, 0, 1, 9]) = Inr (sample_preface, [2, 0, 0, 0, 1, 9]) \<and>
   read_frames (read_record True) 1 [2, 0, 0, 0, 1, 9] = ([(2, [9])], [])"
  using native_control_roundtrip [OF sample_preface_written(1), of "[(2, [9])]" "[[2, 0, 0, 0, 1, 9]]" "[]"] sample_preface_written(2)
  by auto

theorem accepted_preface_well_formed_witness:
  "\<exists>p. read_preface sample_preface_bytes = Inr (p, []) \<and> pf_connection p \<noteq> 0 \<and> pf_token p \<noteq> [] \<and> pf_binding p = []"
proof -
  have r: "read_preface sample_preface_bytes = Inr (sample_preface, [])"
    using prefaces.rd_wr [OF send_wire_success [OF sample_preface_written(1) [unfolded write_preface_def]], of "[]"] by simp
  show ?thesis using accepted_preface_well_formed [OF r] r by (auto simp: sample_preface_def)
qed

end
