(* ===== verification/Terminal_Frames.thy ===== *)
theory Terminal_Frames
  imports Binary_Frames
begin

section \<open>Terminal v1 frames\<close>

text \<open>
  Model of \<open>src/internal/protocol/terminal_v1.go\<close>: the input, output, acknowledgement and
  resize messages of the terminal protocol, one WebSocket message each.  Encoders fill a
  buffer that the caller may hand in for reuse (\<open>dst\<close>, its whole capacity), so that the
  theorems quantify over what it held before.

  The zstd library is not part of the source: \<open>zstd\<close> is a record of the three functions
  the code calls, an argument of the definitions that use it.  \<open>zstdFrameSize\<close>, which walks
  over the blocks of a compressed frame, is code of the helper and is modelled.  Encoder and
  decoder objects come from pools and may fail to be created; a boolean argument says
  whether they were.  The counters of \<open>CompressionMetrics\<close> are a state that is passed
  through.  The semaphore \<open>terminalCodecSlots\<close> only delays and is not modelled.
\<close>

unbundle bit_operations_syntax

subsection \<open>Input, acknowledgement and resize\<close>

record terminal_input_frame =
  ti_stream :: "32 word"
  ti_sequence :: "64 word"
  ti_data :: bytes

record terminal_ack_frame =
  ta_stream :: "32 word"
  ta_next :: "64 word"

record terminal_resize_frame =
  tr_stream :: "32 word"
  tr_columns :: "16 word"
  tr_rows :: "16 word"
  tr_sequence :: "64 word"

definition encode_terminal_input :: "terminal_input_frame \<Rightarrow> bytes \<Rightarrow> code + bytes" where
  "encode_terminal_input f dst =
     (if ti_stream f = 0 \<or> ti_sequence f = 0 \<or> ti_data f = [] \<or> length (ti_data f) > max_binary_frame - 13
      then Inl InvalidFrame
      else Inr (poke 13 (ti_data f) (poke 5 (put_word 8 (ti_sequence f)) (poke 1 (put_word 4 (ti_stream f))
             (poke 0 [1] (grow_frame dst (13 + length (ti_data f))))))))"

definition decode_terminal_input :: "bytes \<Rightarrow> code + terminal_input_frame" where
  "decode_terminal_input m =
     (if length m \<le> 13 \<or> length m > max_binary_frame \<or> m ! 0 \<noteq> 1 then Inl InvalidFrame
      else let f = \<lparr>ti_stream = get_word (slice 1 5 m), ti_sequence = get_word (slice 5 13 m), ti_data = drop 13 m\<rparr>
           in if ti_stream f = 0 \<or> ti_sequence f = 0 then Inl InvalidFrame else Inr f)"

definition encode_terminal_ack :: "terminal_ack_frame \<Rightarrow> bytes \<Rightarrow> code + bytes" where
  "encode_terminal_ack f dst =
     (if ta_stream f = 0 then Inl InvalidFrame
      else Inr (poke 5 (put_word 8 (ta_next f)) (poke 1 (put_word 4 (ta_stream f)) (poke 0 [3] (grow_frame dst 13)))))"

definition decode_terminal_ack :: "bytes \<Rightarrow> code + terminal_ack_frame" where
  "decode_terminal_ack m =
     (if length m \<noteq> 13 \<or> m ! 0 \<noteq> 3 then Inl InvalidFrame
      else let f = \<lparr>ta_stream = get_word (slice 1 5 m), ta_next = get_word (slice 5 13 m)\<rparr>
           in if ta_stream f = 0 then Inl InvalidFrame else Inr f)"

definition encode_terminal_resize :: "terminal_resize_frame \<Rightarrow> bytes \<Rightarrow> code + bytes" where
  "encode_terminal_resize f dst =
     (if tr_stream f = 0 \<or> tr_columns f = 0 \<or> tr_rows f = 0 \<or> tr_sequence f = 0 then Inl InvalidFrame
      else Inr (poke 9 (put_word 8 (tr_sequence f)) (poke 7 (put_word 2 (tr_rows f)) (poke 5 (put_word 2 (tr_columns f))
             (poke 1 (put_word 4 (tr_stream f)) (poke 0 [4] (grow_frame dst 17)))))))"

definition decode_terminal_resize :: "bytes \<Rightarrow> code + terminal_resize_frame" where
  "decode_terminal_resize m =
     (if length m \<noteq> 17 \<or> m ! 0 \<noteq> 4 then Inl InvalidFrame
      else let f = \<lparr>tr_stream = get_word (slice 1 5 m), tr_columns = get_word (slice 5 7 m), tr_rows = get_word (slice 7 9 m),
                    tr_sequence = get_word (slice 9 17 m)\<rparr>
           in if tr_stream f = 0 \<or> tr_columns f = 0 \<or> tr_rows f = 0 \<or> tr_sequence f = 0 then Inl InvalidFrame else Inr f)"

definition terminal_opcode :: "bytes \<Rightarrow> code + byte" where
  "terminal_opcode m =
     (if m = [] then Inl InvalidFrame
      else if m ! 0 < 1 \<or> m ! 0 > 4 then Inl UnsupportedChannel else Inr (m ! 0))"

subsection \<open>Output\<close>

record terminal_output_frame =
  to_channel :: byte
  to_stream :: "32 word"
  to_start :: "64 word"
  to_encoding :: byte
  to_length :: "32 word"
  to_data :: bytes

record terminal_output_info =
  oi_encoding :: byte
  oi_stream :: "32 word"
  oi_start :: "64 word"
  oi_length :: "32 word"

record zstd_header =
  zh_size :: nat
  zh_skippable :: bool
  zh_dictionary :: nat
  zh_has_content_size :: bool
  zh_content_size :: nat
  zh_single_segment :: bool
  zh_window :: nat
  zh_checksum :: bool

record zstd =
  z_header :: "bytes \<Rightarrow> zstd_header option"
  z_encode :: "bytes \<Rightarrow> bytes"
  z_decode :: "bytes \<Rightarrow> bytes option"

definition output_header_len :: nat where
  "output_header_len = 19"

definition max_terminal_output :: nat where
  "max_terminal_output = max_binary_frame - output_header_len"

text \<open>The block header at an offset: whether it is the last, its type and its size.\<close>

definition zstd_block :: "bytes \<Rightarrow> nat \<Rightarrow> bool \<times> nat \<times> nat" where
  "zstd_block payload offset =
     (let block = (ucast (payload ! offset) :: 32 word) OR push_bit 8 (ucast (payload ! (offset + 1)))
                  OR push_bit 16 (ucast (payload ! (offset + 2)))
      in (block AND 1 \<noteq> 0, unat (drop_bit 1 block AND 3), unat (drop_bit 3 block)))"

function frame_size_loop :: "bytes \<Rightarrow> bool \<Rightarrow> nat \<Rightarrow> nat option" where
  "frame_size_loop payload checksum offset =
     (if length payload < offset + 3 then None
      else case zstd_block payload offset of
        (is_last, block_type, block_size) \<Rightarrow>
          let offset1 = offset + 3;
              payload_size = (if block_type = 1 then 1 else block_size)
          in if block_type = 3 then None
             else if payload_size > length payload - offset1 then None
             else if is_last
               then (if checksum
                     then (if length payload - (offset1 + payload_size) < 4 then None else Some (offset1 + payload_size + 4))
                     else Some (offset1 + payload_size))
             else frame_size_loop payload checksum (offset1 + payload_size))"
  by pat_completeness auto

termination
  by (relation "measure (\<lambda>(payload, checksum, offset). length payload - offset)") auto

declare frame_size_loop.simps [simp del]

definition zstd_frame_size :: "bytes \<Rightarrow> zstd_header \<Rightarrow> nat option" where
  "zstd_frame_size payload h = frame_size_loop payload (zh_checksum h) (zh_size h)"

text \<open>The checks on a compressed payload that \<open>InspectTerminalOutput\<close> and \<open>zstdDecode\<close> share.\<close>

definition zstd_payload_ok :: "zstd \<Rightarrow> bytes \<Rightarrow> nat \<Rightarrow> bool" where
  "zstd_payload_ok z payload declared \<longleftrightarrow>
     (case z_header z payload of
        None \<Rightarrow> False
      | Some h \<Rightarrow>
          \<not> (zh_skippable h \<or> zh_dictionary h \<noteq> 0 \<or> \<not> zh_has_content_size h \<or> zh_content_size h \<noteq> declared
             \<or> \<not> zh_single_segment h \<and> zh_window h > max_terminal_output)
          \<and> zstd_frame_size payload h = Some (length payload))"

definition inspect_terminal_output :: "zstd \<Rightarrow> bytes \<Rightarrow> code + terminal_output_info" where
  "inspect_terminal_output z m =
     (if length m \<le> output_header_len \<or> length m > max_binary_frame \<or> m ! 0 \<noteq> 2
         \<or> m ! 1 \<noteq> 1 \<and> m ! 1 \<noteq> 2 \<or> m ! 2 \<noteq> 0 \<and> m ! 2 \<noteq> 1
      then Inl InvalidFrame
      else
        let info = \<lparr>oi_encoding = m ! 2, oi_stream = get_word (slice 3 7 m), oi_start = get_word (slice 7 15 m),
                    oi_length = get_word (slice 15 19 m)\<rparr>;
            payload = drop output_header_len m
        in if oi_stream info = 0 \<or> oi_length info = 0 \<or> unat (oi_length info) > max_terminal_output
              \<or> ucast (oi_length info) > - 1 - oi_start info
           then Inl InvalidFrame
           else if oi_encoding info = 0
             then (if length payload \<noteq> unat (oi_length info) then Inl InvalidFrame else Inr info)
           else if zstd_payload_ok z payload (unat (oi_length info)) then Inr info else Inl InvalidFrame)"

definition declared_length :: "terminal_output_frame \<Rightarrow> 32 word" where
  "declared_length f =
     (if to_length f = 0 \<and> to_encoding f = 0 then word_of_nat (length (to_data f)) else to_length f)"

definition encode_terminal_output :: "terminal_output_frame \<Rightarrow> bytes \<Rightarrow> code + bytes" where
  "encode_terminal_output f dst =
     (let declared = declared_length f
      in if to_channel f \<noteq> 1 \<and> to_channel f \<noteq> 2 \<or> to_stream f = 0 \<or> to_data f = []
            \<or> length (to_data f) > max_binary_frame - output_header_len \<or> declared = 0
            \<or> unat declared > max_binary_frame - output_header_len \<or> ucast declared > - 1 - to_start f
         then Inl InvalidFrame
         else if to_encoding f \<noteq> 0 \<and> to_encoding f \<noteq> 1 then Inl InvalidFrame
         else if to_encoding f = 0 \<and> unat declared \<noteq> length (to_data f) then Inl InvalidFrame
         else Inr (poke 19 (to_data f) (poke 15 (put_word 4 declared) (poke 7 (put_word 8 (to_start f))
                (poke 3 (put_word 4 (to_stream f)) (poke 0 [2, to_channel f, to_encoding f]
                  (grow_frame dst (output_header_len + length (to_data f)))))))))"

subsection \<open>Compression\<close>

record compression_metrics =
  cm_small :: nat
  cm_insufficient :: nat
  cm_compressed :: nat
  cm_raw_bytes :: nat
  cm_encoded_bytes :: nat
  cm_encode_failures :: nat
  cm_decode_failures :: nat
  cm_encode_nanos :: nat
  cm_decode_nanos :: nat

definition zstd_decode :: "zstd \<Rightarrow> bool \<Rightarrow> bytes \<Rightarrow> nat \<Rightarrow> bytes option" where
  "zstd_decode z decoder_ok payload declared =
     (if \<not> zstd_payload_ok z payload declared then None
      else if \<not> decoder_ok then None
      else case z_decode z payload of
        None \<Rightarrow> None
      | Some out \<Rightarrow> if length out \<noteq> declared then None else Some out)"

definition decode_terminal_output ::
    "zstd \<Rightarrow> bool \<Rightarrow> nat \<Rightarrow> bytes \<Rightarrow> compression_metrics \<Rightarrow> (code + terminal_output_frame) \<times> compression_metrics" where
  "decode_terminal_output z decoder_ok nanos m cm =
     (case inspect_terminal_output z m of
        Inl e \<Rightarrow> (Inl e, cm\<lparr>cm_decode_failures := u64_add (cm_decode_failures cm) 1\<rparr>)
      | Inr info \<Rightarrow>
          let frame = (\<lambda>decoded. \<lparr>to_channel = m ! 1, to_stream = oi_stream info, to_start = oi_start info,
                         to_encoding = oi_encoding info, to_length = oi_length info, to_data = decoded\<rparr>);
              finish = (\<lambda>decoded. if length decoded \<noteq> unat (oi_length info) then Inl InvalidFrame else Inr (frame decoded))
          in if oi_encoding info = 0 then (finish (drop 19 m), cm)
             else
               let cm1 = cm\<lparr>cm_decode_nanos := u64_add (cm_decode_nanos cm) nanos\<rparr>
               in case zstd_decode z decoder_ok (drop 19 m) (unat (oi_length info)) of
                    None \<Rightarrow> (Inl InvalidFrame, cm1\<lparr>cm_decode_failures := u64_add (cm_decode_failures cm1) 1\<rparr>)
                  | Some decoded \<Rightarrow> (finish decoded, cm1))"

datatype compression_decision = SmallFrame | Insufficient | Compressed

fun count_decision :: "compression_decision \<Rightarrow> compression_metrics \<Rightarrow> compression_metrics" where
  "count_decision SmallFrame cm = cm\<lparr>cm_small := u64_add (cm_small cm) 1\<rparr>"
| "count_decision Insufficient cm = cm\<lparr>cm_insufficient := u64_add (cm_insufficient cm) 1\<rparr>"
| "count_decision Compressed cm = cm\<lparr>cm_compressed := u64_add (cm_compressed cm) 1\<rparr>"

text \<open>Compress when it saves at least 32 bytes and 5 percent; \<open>None\<close> when no encoder could be made.\<close>

definition choose_encoding :: "zstd \<Rightarrow> bool \<Rightarrow> terminal_output_frame \<Rightarrow> (terminal_output_frame \<times> compression_decision) option" where
  "choose_encoding z encoder_ok f =
     (let raw = f\<lparr>to_encoding := 0, to_length := word_of_nat (length (to_data f))\<rparr>
      in if length (to_data f) < 1024 then Some (raw, SmallFrame)
         else if \<not> encoder_ok then None
         else let compressed = z_encode z (to_data f)
              in if length compressed + 32 \<le> length (to_data f) \<and> length compressed * 100 \<le> length (to_data f) * (100 - 5)
                 then Some (raw\<lparr>to_encoding := 1, to_data := compressed\<rparr>, Compressed)
                 else Some (raw, Insufficient))"

definition encode_terminal_output_adaptive ::
    "zstd \<Rightarrow> bool \<Rightarrow> nat \<Rightarrow> terminal_output_frame \<Rightarrow> bytes \<Rightarrow> compression_metrics \<Rightarrow> (code + bytes) \<times> compression_metrics" where
  "encode_terminal_output_adaptive z encoder_ok nanos f dst cm =
     (case choose_encoding z encoder_ok f of
        None \<Rightarrow> (Inl InvalidFrame, cm\<lparr>cm_encode_failures := u64_add (cm_encode_failures cm) 1\<rparr>)
      | Some (f', decision) \<Rightarrow>
          let cm1 = cm\<lparr>cm_encode_nanos := u64_add (cm_encode_nanos cm) nanos\<rparr>
          in case encode_terminal_output f' dst of
               Inl e \<Rightarrow> (Inl e, cm1\<lparr>cm_encode_failures := u64_add (cm_encode_failures cm1) 1\<rparr>)
             | Inr wire \<Rightarrow>
                 (Inr wire,
                  count_decision decision
                    (cm1\<lparr>cm_encoded_bytes := u64_add (cm_encoded_bytes cm1) (length wire - output_header_len),
                         cm_raw_bytes := u64_add (cm_raw_bytes cm1) (unat (to_length f'))\<rparr>)))"

subsection \<open>Encoders overwrite the whole buffer\<close>

lemma poke_fills:
  assumes "filled xs dst" "length xs = off" "off + length bs = length dst"
  shows "poke off bs dst = xs @ bs"
proof -
  have "filled (xs @ bs) (poke off bs dst)" by (rule filled_poke [OF assms(1,2)]) (use assms(3) in simp)
  then show ?thesis by (rule filled_all) (use assms(2,3) in simp)
qed

lemma encode_terminal_input_wire:
  "encode_terminal_input f dst =
     (if ti_stream f = 0 \<or> ti_sequence f = 0 \<or> ti_data f = [] \<or> length (ti_data f) > max_binary_frame - 13
      then Inl InvalidFrame
      else Inr (1 # put_word 4 (ti_stream f) @ put_word 8 (ti_sequence f) @ ti_data f))"
proof -
  let ?g = "grow_frame dst (13 + length (ti_data f))"
  have 1: "filled ([] @ [1]) (poke 0 [1] ?g)" by (rule filled_poke) simp_all
  have 2: "filled (([] @ [1]) @ put_word 4 (ti_stream f)) (poke 1 (put_word 4 (ti_stream f)) (poke 0 [1] ?g))"
    by (rule filled_poke [OF 1]) simp_all
  have 3: "filled ((([] @ [1]) @ put_word 4 (ti_stream f)) @ put_word 8 (ti_sequence f))
      (poke 5 (put_word 8 (ti_sequence f)) (poke 1 (put_word 4 (ti_stream f)) (poke 0 [1] ?g)))"
    by (rule filled_poke [OF 2]) simp_all
  have "poke 13 (ti_data f) (poke 5 (put_word 8 (ti_sequence f)) (poke 1 (put_word 4 (ti_stream f)) (poke 0 [1] ?g))) =
      ((([] @ [1]) @ put_word 4 (ti_stream f)) @ put_word 8 (ti_sequence f)) @ ti_data f"
    by (rule poke_fills [OF 3]) simp_all
  then show ?thesis by (simp add: encode_terminal_input_def)
qed

lemma encode_terminal_ack_wire:
  "encode_terminal_ack f dst =
     (if ta_stream f = 0 then Inl InvalidFrame else Inr (3 # put_word 4 (ta_stream f) @ put_word 8 (ta_next f)))"
proof -
  let ?g = "grow_frame dst 13"
  have 1: "filled ([] @ [3]) (poke 0 [3] ?g)" by (rule filled_poke) simp_all
  have 2: "filled (([] @ [3]) @ put_word 4 (ta_stream f)) (poke 1 (put_word 4 (ta_stream f)) (poke 0 [3] ?g))"
    by (rule filled_poke [OF 1]) simp_all
  have "poke 5 (put_word 8 (ta_next f)) (poke 1 (put_word 4 (ta_stream f)) (poke 0 [3] ?g)) =
      (([] @ [3]) @ put_word 4 (ta_stream f)) @ put_word 8 (ta_next f)"
    by (rule poke_fills [OF 2]) simp_all
  then show ?thesis by (simp add: encode_terminal_ack_def)
qed

lemma encode_terminal_resize_wire:
  "encode_terminal_resize f dst =
     (if tr_stream f = 0 \<or> tr_columns f = 0 \<or> tr_rows f = 0 \<or> tr_sequence f = 0 then Inl InvalidFrame
      else Inr (4 # put_word 4 (tr_stream f) @ put_word 2 (tr_columns f) @ put_word 2 (tr_rows f) @ put_word 8 (tr_sequence f)))"
proof -
  let ?g = "poke 0 [4] (grow_frame dst 17)"
  let ?h = "poke 1 (put_word 4 (tr_stream f)) ?g"
  let ?i = "poke 5 (put_word 2 (tr_columns f)) ?h"
  have 1: "filled ([] @ [4]) ?g" by (rule filled_poke) simp_all
  have 2: "filled (([] @ [4]) @ put_word 4 (tr_stream f)) ?h" by (rule filled_poke [OF 1]) simp_all
  have 3: "filled ((([] @ [4]) @ put_word 4 (tr_stream f)) @ put_word 2 (tr_columns f)) ?i" by (rule filled_poke [OF 2]) simp_all
  have 4: "filled (((([] @ [4]) @ put_word 4 (tr_stream f)) @ put_word 2 (tr_columns f)) @ put_word 2 (tr_rows f))
      (poke 7 (put_word 2 (tr_rows f)) ?i)"
    by (rule filled_poke [OF 3]) simp_all
  have "poke 9 (put_word 8 (tr_sequence f)) (poke 7 (put_word 2 (tr_rows f)) ?i) =
      (((([] @ [4]) @ put_word 4 (tr_stream f)) @ put_word 2 (tr_columns f)) @ put_word 2 (tr_rows f)) @ put_word 8 (tr_sequence f)"
    by (rule poke_fills [OF 4]) simp_all
  then show ?thesis by (simp add: encode_terminal_resize_def)
qed

lemma output_wire_filled:
  "poke 19 data (poke 15 (put_word 4 (d :: 32 word)) (poke 7 (put_word 8 (s :: 64 word)) (poke 3 (put_word 4 (i :: 32 word))
     (poke 0 [2, c, e] (grow_frame dst (19 + length data)))))) =
   2 # c # e # put_word 4 i @ put_word 8 s @ put_word 4 d @ data"
proof -
  let ?g = "poke 0 [2, c, e] (grow_frame dst (19 + length data))"
  let ?h = "poke 3 (put_word 4 i) ?g"
  let ?i = "poke 7 (put_word 8 s) ?h"
  have 1: "filled ([] @ [2, c, e]) ?g" by (rule filled_poke) simp_all
  have 2: "filled (([] @ [2, c, e]) @ put_word 4 i) ?h" by (rule filled_poke [OF 1]) simp_all
  have 3: "filled ((([] @ [2, c, e]) @ put_word 4 i) @ put_word 8 s) ?i" by (rule filled_poke [OF 2]) simp_all
  have 4: "filled (((([] @ [2, c, e]) @ put_word 4 i) @ put_word 8 s) @ put_word 4 d) (poke 15 (put_word 4 d) ?i)"
    by (rule filled_poke [OF 3]) simp_all
  have "poke 19 data (poke 15 (put_word 4 d) ?i) = (((([] @ [2, c, e]) @ put_word 4 i) @ put_word 8 s) @ put_word 4 d) @ data"
    by (rule poke_fills [OF 4]) simp_all
  then show ?thesis by simp
qed

subsection \<open>Round trips of the small frames\<close>

lemma message_parts:
  assumes "1 + (j - 1) \<le> length m" "1 \<le> j"
  shows "m = m ! 0 # slice 1 j m @ drop j m"
proof -
  have "m = m ! 0 # drop 1 m" using assms by (cases m) auto
  then show ?thesis using slice_append [of 1 j m] assms(2) by simp
qed

lemma decode_input_wire:
  assumes "ti_stream f \<noteq> 0" "ti_sequence f \<noteq> 0" "ti_data f \<noteq> []" "length (ti_data f) \<le> max_binary_frame - 13"
  shows "decode_terminal_input (1 # put_word 4 (ti_stream f) @ put_word 8 (ti_sequence f) @ ti_data f) = Inr f"
proof -
  let ?m = "1 # put_word 4 (ti_stream f) @ put_word 8 (ti_sequence f) @ ti_data f"
  have "slice 1 5 ?m = put_word 4 (ti_stream f)" "slice 5 13 ?m = put_word 8 (ti_sequence f)" "drop 13 ?m = ti_data f"
    by (simp_all add: slice_def)
  then show ?thesis using assms by (cases f) (auto simp: decode_terminal_input_def max_binary_frame_def Suc_le_eq)
qed

lemma decode_input_Inr:
  assumes "decode_terminal_input m = Inr f"
  shows "encode_terminal_input f dst = Inr m"
proof -
  have a: "13 < length m" "length m \<le> max_binary_frame" "m ! 0 = 1" "ti_stream f \<noteq> 0" "ti_sequence f \<noteq> 0"
    "f = \<lparr>ti_stream = get_word (slice 1 5 m), ti_sequence = get_word (slice 5 13 m), ti_data = drop 13 m\<rparr>"
    using assms by (auto simp: decode_terminal_input_def Let_def split: if_splits)
  have "m = m ! 0 # slice 1 5 m @ slice 5 13 m @ drop 13 m"
    using message_parts [of 5 m] slice_append [of 5 13 m] a(1) by simp
  then have "m = 1 # put_word 4 (ti_stream f) @ put_word 8 (ti_sequence f) @ ti_data f"
    using a(1,3,6) by (simp add: get_word_inverses)
  moreover have "ti_data f \<noteq> []" "length (ti_data f) \<le> max_binary_frame - 13" using a(1,2,6) by (simp_all add: max_binary_frame_def)
  ultimately show ?thesis using a(4,5) by (simp add: encode_terminal_input_wire)
qed

interpretation input_frames: message_codec "\<lambda>f. encode_terminal_input f dst" decode_terminal_input
proof
  show "decode_terminal_input bs = Inr x" if "encode_terminal_input x dst = Inr bs" for x bs
    using that decode_input_wire [of x] by (auto simp: encode_terminal_input_wire split: if_splits)
qed (rule decode_input_Inr)

lemma decode_ack_Inr:
  assumes "decode_terminal_ack m = Inr f"
  shows "encode_terminal_ack f dst = Inr m"
proof -
  have a: "length m = 13" "m ! 0 = 3" "ta_stream f \<noteq> 0" "f = \<lparr>ta_stream = get_word (slice 1 5 m), ta_next = get_word (slice 5 13 m)\<rparr>"
    using assms by (auto simp: decode_terminal_ack_def Let_def split: if_splits)
  have "m = m ! 0 # slice 1 5 m @ slice 5 13 m" using message_parts [of 5 m] slice_append [of 5 13 m] a(1) by simp
  then have "m = 3 # put_word 4 (ta_stream f) @ put_word 8 (ta_next f)" using a(1,2,4) by (simp add: get_word_inverses)
  then show ?thesis using a(3) by (simp add: encode_terminal_ack_wire)
qed

interpretation ack_frames: message_codec "\<lambda>f. encode_terminal_ack f dst" decode_terminal_ack
proof
  fix x bs
  assume e: "encode_terminal_ack x dst = Inr bs"
  let ?m = "3 # put_word 4 (ta_stream x) @ put_word 8 (ta_next x)"
  have "slice 1 5 ?m = put_word 4 (ta_stream x)" "slice 5 13 ?m = put_word 8 (ta_next x)" by (simp_all add: slice_def)
  then show "decode_terminal_ack bs = Inr x"
    using e by (cases x) (auto simp: encode_terminal_ack_wire decode_terminal_ack_def split: if_splits)
qed (rule decode_ack_Inr)

lemma decode_resize_Inr:
  assumes "decode_terminal_resize m = Inr f"
  shows "encode_terminal_resize f dst = Inr m"
proof -
  have a: "length m = 17" "m ! 0 = 4" "tr_stream f \<noteq> 0" "tr_columns f \<noteq> 0" "tr_rows f \<noteq> 0" "tr_sequence f \<noteq> 0"
    "f = \<lparr>tr_stream = get_word (slice 1 5 m), tr_columns = get_word (slice 5 7 m), tr_rows = get_word (slice 7 9 m),
      tr_sequence = get_word (slice 9 17 m)\<rparr>"
    using assms by (auto simp: decode_terminal_resize_def Let_def split: if_splits)
  have "m = m ! 0 # slice 1 5 m @ slice 5 7 m @ slice 7 9 m @ slice 9 17 m"
    using message_parts [of 5 m] slice_append [of 5 7 m] slice_append [of 7 9 m] slice_append [of 9 17 m] a(1) by simp
  then have "m = 4 # put_word 4 (tr_stream f) @ put_word 2 (tr_columns f) @ put_word 2 (tr_rows f) @ put_word 8 (tr_sequence f)"
    using a(1,2,7) by (simp add: get_word_inverses)
  then show ?thesis using a(3-6) by (simp add: encode_terminal_resize_wire)
qed

interpretation resize_frames: message_codec "\<lambda>f. encode_terminal_resize f dst" decode_terminal_resize
proof
  fix x bs
  assume e: "encode_terminal_resize x dst = Inr bs"
  let ?m = "4 # put_word 4 (tr_stream x) @ put_word 2 (tr_columns x) @ put_word 2 (tr_rows x) @ put_word 8 (tr_sequence x)"
  have "slice 1 5 ?m = put_word 4 (tr_stream x)" "slice 5 7 ?m = put_word 2 (tr_columns x)" "slice 7 9 ?m = put_word 2 (tr_rows x)"
    "slice 9 17 ?m = put_word 8 (tr_sequence x)"
    by (simp_all add: slice_def)
  then show "decode_terminal_resize bs = Inr x"
    using e by (cases x) (auto simp: encode_terminal_resize_wire decode_terminal_resize_def split: if_splits)
qed (rule decode_resize_Inr)

text \<open>
  C25: Input, acknowledgement and resize messages decode to exactly what was encoded.  For each
  of the three kinds and whatever the reused buffer held, a message decodes to a frame if
  and only if encoding that frame gives that message: nothing is lost, nothing else is
  accepted, and no byte of the old buffer remains.
\<close>
theorem terminal_messages_roundtrip:
  "(decode_terminal_input m = Inr f \<longleftrightarrow> encode_terminal_input f dst = Inr m) \<and>
   (decode_terminal_ack m = Inr g \<longleftrightarrow> encode_terminal_ack g dst = Inr m) \<and>
   (decode_terminal_resize m = Inr h \<longleftrightarrow> encode_terminal_resize h dst = Inr m)"
  by (intro conjI input_frames.accepts_exactly ack_frames.accepts_exactly resize_frames.accepts_exactly)

subsection \<open>Round trip of compressed output\<close>

text \<open>
  What the code relies on of the zstd library for one payload: \<open>EncodeAll\<close> gives a single
  frame without a dictionary whose header names the length of the content and a window
  within the bound, whose blocks add up to the frame, and \<open>DecodeAll\<close> inverts it.
\<close>

definition faithful_zstd :: "zstd \<Rightarrow> bytes \<Rightarrow> bool" where
  "faithful_zstd z data \<longleftrightarrow>
     z_decode z (z_encode z data) = Some data \<and>
     (\<exists>h. z_header z (z_encode z data) = Some h \<and> \<not> zh_skippable h \<and> zh_dictionary h = 0 \<and> zh_has_content_size h \<and>
        zh_content_size h = length data \<and> (zh_single_segment h \<or> zh_window h \<le> max_terminal_output) \<and>
        zstd_frame_size (z_encode z data) h = Some (length (z_encode z data)))"

lemma faithful_payload_ok: "faithful_zstd z data \<Longrightarrow> zstd_payload_ok z (z_encode z data) (length data)"
  by (auto simp: faithful_zstd_def zstd_payload_ok_def)

lemma frame_size_loop_bounds:
  "frame_size_loop payload checksum offset = Some n \<Longrightarrow> offset + 3 \<le> n \<and> n \<le> length payload"
proof (induction payload checksum offset rule: frame_size_loop.induct)
  case (1 payload checksum offset)
  obtain l t s where b: "zstd_block payload offset = (l, t, s)" by (metis prod_cases3)
  show ?case
    using "1.prems" "1.IH" [OF _ b [symmetric] refl refl refl] b
    by (subst (asm) frame_size_loop.simps) (auto simp: Let_def split: if_splits)
qed

lemma faithful_nonempty: "faithful_zstd z data \<Longrightarrow> z_encode z data \<noteq> []"
  using frame_size_loop_bounds by (fastforce simp: faithful_zstd_def zstd_frame_size_def)

definition output_wire :: "byte \<Rightarrow> byte \<Rightarrow> 32 word \<Rightarrow> 64 word \<Rightarrow> 32 word \<Rightarrow> bytes \<Rightarrow> bytes" where
  "output_wire c e i s d data = 2 # c # e # put_word 4 i @ put_word 8 s @ put_word 4 d @ data"

lemma output_wire_parts [simp]:
  "output_wire c e i s d data ! 0 = 2" "output_wire c e i s d data ! 1 = c" "output_wire c e i s d data ! Suc 0 = c" "output_wire c e i s d data ! 2 = e"
  "slice 3 7 (output_wire c e i s d data) = put_word 4 i" "slice 7 15 (output_wire c e i s d data) = put_word 8 s"
  "slice 15 19 (output_wire c e i s d data) = put_word 4 d" "drop 19 (output_wire c e i s d data) = data"
  "length (output_wire c e i s d data) = 19 + length data"
  by (simp_all add: output_wire_def slice_def)

text \<open>What both sides ask of the header fields.\<close>

definition output_fields_ok :: "byte \<Rightarrow> 32 word \<Rightarrow> 64 word \<Rightarrow> 32 word \<Rightarrow> bytes \<Rightarrow> bool" where
  "output_fields_ok c i s d data \<longleftrightarrow>
     (c = 1 \<or> c = 2) \<and> i \<noteq> 0 \<and> data \<noteq> [] \<and> length data \<le> max_terminal_output \<and> d \<noteq> 0 \<and> unat d \<le> max_terminal_output \<and>
     ucast d \<le> - 1 - s"

lemma encode_output_fields:
  assumes "output_fields_ok (to_channel f) (to_stream f) (to_start f) (to_length f) (to_data f)"
    and "to_encoding f = 1 \<or> to_encoding f = 0 \<and> unat (to_length f) = length (to_data f)"
  shows "encode_terminal_output f dst =
    Inr (output_wire (to_channel f) (to_encoding f) (to_stream f) (to_start f) (to_length f) (to_data f))"
proof -
  have "declared_length f = to_length f" using assms(1) by (simp add: declared_length_def output_fields_ok_def)
  then show ?thesis using assms
    by (auto simp: encode_terminal_output_def Let_def output_fields_ok_def output_wire_def output_wire_filled output_header_len_def
        max_terminal_output_def not_less)
qed

lemma inspect_output_wire:
  assumes "output_fields_ok c i s d data" "e = 1 \<and> zstd_payload_ok z data (unat d) \<or> e = 0 \<and> unat d = length data"
  shows "inspect_terminal_output z (output_wire c e i s d data) = Inr \<lparr>oi_encoding = e, oi_stream = i, oi_start = s, oi_length = d\<rparr>"
proof -
  have f: "19 + length data \<le> max_binary_frame" "data \<noteq> []" "\<not> (c \<noteq> 1 \<and> c \<noteq> 2)" "i \<noteq> 0" "d \<noteq> 0" "\<not> max_terminal_output < unat d"
    "\<not> - 1 - s < ucast d"
    using assms(1) by (auto simp: output_fields_ok_def max_terminal_output_def output_header_len_def max_binary_frame_def)
  have p: "\<not> (e \<noteq> 0 \<and> e \<noteq> 1)" using assms(2) by auto
  have "\<not> 19 + length data \<le> 19" "\<not> max_binary_frame < 19 + length data" using f(1,2) by simp_all
  then show ?thesis unfolding inspect_terminal_output_def Let_def output_header_len_def output_wire_parts
    using f(3-7) p assms(2) by (simp del: not_less) force
qed

lemma start_below_limit:
  assumes "unat (s :: 64 word) + n < 2 ^ 64" "n \<le> max_terminal_output"
  shows "ucast (word_of_nat n :: 32 word) \<le> - 1 - s"
proof -
  have "unat (ucast (word_of_nat n :: 32 word) :: 64 word) = n"
    using assms(2) by (simp add: unsigned_ucast_eq take_bit_eq_mod unat_of_nat max_terminal_output_def max_binary_frame_def output_header_len_def)
  moreover have "unat (- 1 - s) = 2 ^ 64 - 1 - unat s"
    by (subst unat_sub) (simp_all add: unsigned_minus_1_eq_mask mask_eq_exp_minus_1)
  ultimately show ?thesis using assms(1) by (simp add: word_le_nat_alt)
qed

lemma adaptive_choice:
  assumes "faithful_zstd z (to_data f)" "choose_encoding z ok f = Some (f', decision)"
  obtains e data where "f' = f\<lparr>to_encoding := e, to_length := word_of_nat (length (to_data f)), to_data := data\<rparr>"
    "length data \<le> length (to_data f)" "data = [] \<Longrightarrow> to_data f = []"
    "e = 0 \<and> data = to_data f \<or> e = 1 \<and> data = z_encode z (to_data f)"
  using assms faithful_nonempty [OF assms(1)]
  by (auto simp: choose_encoding_def Let_def split: if_splits intro: that [where e = 0 and data = "to_data f"] that [where e = 1 and data = "z_encode z (to_data f)"])

text \<open>
  Terminal output survives adaptive compression.  A frame with a valid channel and stream,
  with data within the bound and a sequence range within 64 bits, is always encoded, into a
  message that is never longer than the uncompressed one; and decoding the message gives
  back the frame with its data, whether it was compressed or not.
\<close>
theorem adaptive_output_roundtrip:
  assumes "faithful_zstd z (to_data f)" "to_channel f \<in> {1, 2}" "to_stream f \<noteq> 0" "to_data f \<noteq> []"
    and "length (to_data f) \<le> max_terminal_output" "unat (to_start f) + length (to_data f) < 2 ^ 64"
  shows "\<exists>wire cm' e. encode_terminal_output_adaptive z True nanos f dst cm = (Inr wire, cm') \<and>
    length wire \<le> output_header_len + length (to_data f) \<and>
    fst (decode_terminal_output z True nanos' wire cm'') =
      Inr (f\<lparr>to_encoding := e, to_length := word_of_nat (length (to_data f))\<rparr>)"
proof -
  obtain f' decision where c: "choose_encoding z True f = Some (f', decision)"
    by (cases "choose_encoding z True f") (auto simp: choose_encoding_def Let_def split: if_splits)
  obtain e data where f': "f' = f\<lparr>to_encoding := e, to_length := word_of_nat (length (to_data f)), to_data := data\<rparr>"
    "length data \<le> length (to_data f)" "data \<noteq> []" "e = 0 \<and> data = to_data f \<or> e = 1 \<and> data = z_encode z (to_data f)"
    by (rule adaptive_choice [OF assms(1) c]) (use assms(4) in blast)
  let ?d = "word_of_nat (length (to_data f)) :: 32 word"
  have d: "unat ?d = length (to_data f)"
    using assms(5) by (simp add: unat_of_nat max_terminal_output_def max_binary_frame_def output_header_len_def)
  have "?d \<noteq> 0" using d assms(4) by (metis length_0_conv unat_0)
  then have ok: "output_fields_ok (to_channel f) (to_stream f) (to_start f) ?d data"
    using assms(2-6) f'(2,3) d start_below_limit [OF assms(6,5)] by (auto simp: output_fields_ok_def)
  define wire where "wire = output_wire (to_channel f) e (to_stream f) (to_start f) ?d data"
  have enc: "encode_terminal_output f' dst = Inr wire"
    using encode_output_fields [of f' dst] ok f' d by (auto simp: wire_def)
  have ins: "inspect_terminal_output z wire = Inr \<lparr>oi_encoding = e, oi_stream = to_stream f, oi_start = to_start f, oi_length = ?d\<rparr>"
    unfolding wire_def by (rule inspect_output_wire [OF ok]) (use f'(4) d faithful_payload_ok [OF assms(1)] in auto)
  have "fst (decode_terminal_output z True nanos' wire cm'') = Inr (f\<lparr>to_encoding := e, to_length := ?d\<rparr>)"
  proof (cases "e = 0")
    case True
    then show ?thesis using ins f'(4) d by (cases f) (simp add: decode_terminal_output_def Let_def wire_def)
  next
    case False
    then have "data = z_encode z (to_data f)" using f'(4) by simp
    then have "zstd_decode z True data (length (to_data f)) = Some (to_data f)"
      using faithful_payload_ok [OF assms(1)] assms(1) by (simp add: zstd_decode_def faithful_zstd_def)
    then show ?thesis using False ins d by (cases f) (simp add: decode_terminal_output_def Let_def wire_def)
  qed
  moreover have "length wire \<le> output_header_len + length (to_data f)" using f'(2) by (simp add: wire_def output_header_len_def)
  ultimately show ?thesis using c enc by (auto simp: encode_terminal_output_adaptive_def Let_def)
qed

text \<open>A codec that compresses the run of 2000 equal bytes below into one block of repeated bytes.\<close>

definition run_zstd :: zstd where
  "run_zstd =
     \<lparr>z_header = (\<lambda>p. Some \<lparr>zh_size = 4, zh_skippable = False, zh_dictionary = 0, zh_has_content_size = True,
                     zh_content_size = get_be (take 4 p), zh_single_segment = True, zh_window = 0, zh_checksum = False\<rparr>),
      z_encode = (\<lambda>d. put_be 4 (length d) @ [131, 62, 0, hd d]),
      z_decode = (\<lambda>p. Some (replicate (get_be (take 4 p)) (p ! 7)))\<rparr>"

lemma run_zstd_faithful: "faithful_zstd run_zstd (replicate 2000 7)"
proof -
  have e: "z_encode run_zstd (replicate 2000 7) = [0, 0, 7, 208, 131, 62, 0, 7]"
    by (simp add: run_zstd_def put_be_numeral)
  have b: "zstd_block [0, 0, 7, 208, 131, 62, 0, 7] 4 = (True, 1, 2000)"
    by (simp add: zstd_block_def Let_def)
  have "frame_size_loop [0, 0, 7, 208, 131, 62, 0, 7] False 4 = Some 8"
    by (subst frame_size_loop.simps) (simp add: b)
  moreover have "get_be [0, 0, 7, 208] = 2000" by (simp add: get_be_def)
  ultimately show ?thesis unfolding faithful_zstd_def e by (simp add: run_zstd_def zstd_frame_size_def)
qed

definition sample_output :: terminal_output_frame where
  "sample_output = \<lparr>to_channel = 1, to_stream = 9, to_start = 40, to_encoding = 0, to_length = 0, to_data = replicate 2000 7\<rparr>"

definition zero_metrics :: compression_metrics where
  "zero_metrics = \<lparr>cm_small = 0, cm_insufficient = 0, cm_compressed = 0, cm_raw_bytes = 0, cm_encoded_bytes = 0,
     cm_encode_failures = 0, cm_decode_failures = 0, cm_encode_nanos = 0, cm_decode_nanos = 0\<rparr>"

theorem adaptive_output_roundtrip_witness:
  "\<exists>wire cm' e. encode_terminal_output_adaptive run_zstd True 5 sample_output [1, 2, 3] zero_metrics = (Inr wire, cm') \<and>
     length wire \<le> 2019 \<and>
     fst (decode_terminal_output run_zstd True 6 wire zero_metrics) = Inr (sample_output\<lparr>to_encoding := e, to_length := 2000\<rparr>)"
  using adaptive_output_roundtrip [of run_zstd sample_output 5 "[1, 2, 3]" zero_metrics 6 zero_metrics] run_zstd_faithful
  by (simp add: sample_output_def max_terminal_output_def max_binary_frame_def output_header_len_def)

end
