(* ===== verification/Store_Transfers.thy ===== *)
theory Store_Transfers
  imports State_Store
begin

section \<open>The table of file transfers\<close>

text \<open>
  The operations of \<open>src/internal/store/store.go\<close> on the table \<open>file_transfers\<close>, in the
  order of the source.  States, directions and result codes are the strings the statements
  use.  Sizes and offsets are signed 64-bit numbers: the sum over a request wraps
  (\<open>i64_add\<close>), the stored ones are bounded by the constraints of the schema.
\<close>

definition i64_add :: "int \<Rightarrow> int \<Rightarrow> int" where
  "i64_add a b = i64_wrap (a + b)"

text \<open>The zero value of \<open>time.Time\<close>, the first of January of year one, in nanoseconds of the Unix epoch.\<close>

definition zero_time :: int where
  "zero_time = - 62135596800000000000"

definition active_state :: "string \<Rightarrow> bool" where
  "active_state s \<longleftrightarrow> s = ''created'' \<or> s = ''uploading'' \<or> s = ''pending''"

definition open_state :: "string \<Rightarrow> bool" where
  "open_state s \<longleftrightarrow> s = ''created'' \<or> s = ''uploading''"

definition finished_state :: "string \<Rightarrow> bool" where
  "finished_state s \<longleftrightarrow> s = ''published'' \<or> s = ''pending'' \<or> s = ''delivered''"

text \<open>The \<open>CHECK\<close> constraints of the table.\<close>

definition transfer_constraints :: "transfer_row \<Rightarrow> bool" where
  "transfer_constraints r \<longleftrightarrow>
     (ft_direction r = ''pb_to_pbh'' \<or> ft_direction r = ''pbh_to_pb'') \<and>
     0 \<le> ft_size r \<and> ft_size r \<le> 52428800 \<and> length (ft_sha256 r) = 64 \<and> 0 \<le> ft_offset r \<and> ft_offset r \<le> ft_size r \<and>
     (active_state (ft_state r) \<or> ft_state r = ''published'' \<or> ft_state r = ''delivered'' \<or> ft_state r = ''failed''
      \<or> ft_state r = ''canceled'')"

definition active_rows :: "store \<Rightarrow> transfer_row list" where
  "active_rows st = filter (\<lambda>r. active_state (ft_state r)) (map snd (st_transfers st))"

definition active_batches :: "store \<Rightarrow> nat" where
  "active_batches st = length (remdups (map ft_batch (active_rows st)))"

definition active_bytes :: "store \<Rightarrow> int" where
  "active_bytes st = sum_list (map ft_size (active_rows st))"

text \<open>The loop that inserts the rows; the transaction is rolled back when it fails.\<close>

fun insert_transfers :: "(string \<times> transfer_row) list \<Rightarrow> transfer_row gomap \<Rightarrow> store_error + transfer_row gomap" where
  "insert_transfers [] m = Inr m"
| "insert_transfers ((tid, t) # ts) m =
     (if tid = [] \<or> ft_batch t = [] \<or> ft_basename t = [] \<or> ft_size t < 0 \<or> ft_offset t \<noteq> 0
         \<or> ft_created t = zero_time \<or> ft_expires t = zero_time
      then Inl StoreConflict
      else
        let r = t\<lparr>ft_offset := 0, ft_state := ''created'', ft_result := [], ft_receipt := []\<rparr>
        in if map_of m tid \<noteq> None \<or> \<not> transfer_constraints r then Inl StoreConstraint
           else insert_transfers ts (AList.update tid r m))"

definition create_file_transfers_within_limits ::
    "(string \<times> transfer_row) list \<Rightarrow> int \<Rightarrow> int \<Rightarrow> store \<Rightarrow> (store_error + unit) \<times> store" where
  "create_file_transfers_within_limits ts max_spool max_active st =
     (let incoming = foldl (\<lambda>a t. i64_add a (ft_size (snd t))) 0 ts
      in if length ts < 1 \<or> length ts > 10 then (Inl StoreConflict, st)
         else if max_active > 0 \<and> int (active_batches st) \<ge> max_active then (Inl StoreConflict, st)
         else if max_spool > 0 \<and> (incoming < 0 \<or> active_bytes st > max_spool - incoming) then (Inl StoreConflict, st)
         else case insert_transfers ts (st_transfers st) of
           Inl e \<Rightarrow> (Inl e, st)
         | Inr m \<Rightarrow> (Inr (), st\<lparr>st_transfers := m\<rparr>))"

definition create_file_transfers :: "(string \<times> transfer_row) list \<Rightarrow> store \<Rightarrow> (store_error + unit) \<times> store" where
  "create_file_transfers ts = create_file_transfers_within_limits ts 0 0"

definition create_file_transfers_within_spool :: "(string \<times> transfer_row) list \<Rightarrow> int \<Rightarrow> store \<Rightarrow> (store_error + unit) \<times> store" where
  "create_file_transfers_within_spool ts max_spool = create_file_transfers_within_limits ts max_spool 0"

definition file_transfer :: "string \<Rightarrow> store \<Rightarrow> store_error + transfer_row" where
  "file_transfer tid st = (case map_of (st_transfers st) tid of None \<Rightarrow> Inl StoreNoRows | Some r \<Rightarrow> Inr r)"

definition created_order :: "string \<times> transfer_row \<Rightarrow> int \<times> string" where
  "created_order p = (ft_created (snd p), fst p)"

definition batch_rows :: "string \<Rightarrow> store \<Rightarrow> (string \<times> transfer_row) list" where
  "batch_rows batch st = filter (\<lambda>p. ft_batch (snd p) = batch) (st_transfers st)"

definition file_transfers_by_batch :: "string \<Rightarrow> store \<Rightarrow> store_error + (string \<times> transfer_row) list" where
  "file_transfers_by_batch batch st =
     (if batch = [] \<or> batch_rows batch st = [] then Inl StoreConflict
      else Inr (sort_key created_order (batch_rows batch st)))"

definition set_transfer :: "string \<Rightarrow> transfer_row \<Rightarrow> store \<Rightarrow> store" where
  "set_transfer tid r st = st\<lparr>st_transfers := AList.update tid r (st_transfers st)\<rparr>"

definition commit_file_transfer_offset :: "string \<Rightarrow> int \<Rightarrow> int \<Rightarrow> store \<Rightarrow> (store_error + unit) \<times> store" where
  "commit_file_transfer_offset tid expected nxt st =
     (if expected < 0 \<or> nxt < expected then (Inl StoreConflict, st)
      else case map_of (st_transfers st) tid of
        None \<Rightarrow> (Inl StoreConflict, st)
      | Some r \<Rightarrow>
          if ft_offset r = expected \<and> open_state (ft_state r) \<and> nxt \<le> ft_size r
          then (Inr (), set_transfer tid (r\<lparr>ft_offset := nxt, ft_state := ''uploading''\<rparr>) st)
          else (Inl StoreConflict, st))"

definition finished_row :: "transfer_row \<Rightarrow> transfer_row" where
  "finished_row r =
     (let s = (if ft_direction r = ''pb_to_pbh'' then ''published'' else ''pending'')
      in r\<lparr>ft_state := s, ft_result := s\<rparr>)"

definition complete_row_ready :: "transfer_row \<Rightarrow> bool" where
  "complete_row_ready r \<longleftrightarrow> ft_offset r = ft_size r \<and> open_state (ft_state r)"

definition complete_file_transfer :: "string \<Rightarrow> store \<Rightarrow> (store_error + unit) \<times> store" where
  "complete_file_transfer tid st =
     (case map_of (st_transfers st) tid of
        None \<Rightarrow> (Inl StoreConflict, st)
      | Some r \<Rightarrow>
          if complete_row_ready r then (Inr (), set_transfer tid (finished_row r) st)
          else if finished_state (ft_state r) then (Inr (), st)
          else (Inl StoreConflict, st))"

text \<open>An \<open>UPDATE\<close> of every row that satisfies a condition.\<close>

definition update_rows :: "(transfer_row \<Rightarrow> bool) \<Rightarrow> (transfer_row \<Rightarrow> transfer_row) \<Rightarrow> store \<Rightarrow> store" where
  "update_rows P f st = st\<lparr>st_transfers := map (\<lambda>(tid, r). (tid, if P r then f r else r)) (st_transfers st)\<rparr>"

definition complete_file_transfer_batch :: "string \<Rightarrow> store \<Rightarrow> (store_error + unit) \<times> store" where
  "complete_file_transfer_batch batch st =
     (let rows = map snd (batch_rows batch st);
          total = length rows;
          ready = length (filter complete_row_ready rows)
      in if total < 1 \<or> ready \<noteq> total
         then (if length (filter (\<lambda>r. finished_state (ft_state r)) rows) = total then (Inr (), st) else (Inl StoreConflict, st))
         else (Inr (), update_rows (\<lambda>r. ft_batch r = batch \<and> complete_row_ready r) finished_row st))"

definition canceled_row :: "transfer_row \<Rightarrow> transfer_row" where
  "canceled_row r = r\<lparr>ft_state := ''canceled'', ft_result := ''canceled''\<rparr>"

definition cancel_file_transfer_batch :: "string \<Rightarrow> store \<Rightarrow> (store_error + unit) \<times> store" where
  "cancel_file_transfer_batch batch st =
     (let rows = map snd (batch_rows batch st)
      in if list_ex (\<lambda>r. active_state (ft_state r)) rows
         then (Inr (), update_rows (\<lambda>r. ft_batch r = batch \<and> active_state (ft_state r)) canceled_row st)
         else if rows \<noteq> [] \<and> list_all (\<lambda>r. ft_state r = ''canceled'') rows then (Inr (), st)
         else (Inl StoreConflict, st))"

definition pending_file_transfers :: "string \<Rightarrow> string \<Rightarrow> int \<Rightarrow> int \<Rightarrow> store \<Rightarrow> store_error + (string \<times> transfer_row) list" where
  "pending_file_transfers client session now limit st =
     (if client = [] \<or> session = [] \<or> limit < 1 \<or> limit > 10 then Inl StoreConflict
      else Inr (take (nat limit) (sort_key created_order
             (filter (\<lambda>(tid, r). ft_direction r = ''pbh_to_pb'' \<and> ft_client r = client \<and> ft_session r = session
                \<and> ft_state r = ''pending'' \<and> ft_expires r > now) (st_transfers st)))))"

definition expirable :: "transfer_row \<Rightarrow> bool" where
  "expirable r \<longleftrightarrow> active_state (ft_state r) \<or> ft_state r = ''published''"

definition expired_file_transfers :: "int \<Rightarrow> store \<Rightarrow> (string \<times> transfer_row) list" where
  "expired_file_transfers now st =
     take 100 (sort_key (\<lambda>p. (ft_expires (snd p), fst p))
       (filter (\<lambda>(tid, r). ft_expires r \<le> now \<and> expirable r) (st_transfers st)))"

definition expired_row :: "transfer_row \<Rightarrow> transfer_row \<Rightarrow> transfer_row" where
  "expired_row seen r =
     (if ft_direction seen = ''pbh_to_pb'' then r\<lparr>ft_state := ''failed'', ft_result := ''delivery_timeout''\<rparr> else canceled_row r)"

fun expire_file_transfers :: "(string \<times> transfer_row) list \<Rightarrow> store \<Rightarrow> (store_error + unit) \<times> store" where
  "expire_file_transfers [] st = (Inr (), st)"
| "expire_file_transfers ((tid, seen) # ts) st =
     expire_file_transfers ts
       (case map_of (st_transfers st) tid of
          None \<Rightarrow> st
        | Some r \<Rightarrow> if ft_expires r \<le> ft_expires seen \<and> expirable r then set_transfer tid (expired_row seen r) st else st)"

definition receipt_file_transfer :: "string \<Rightarrow> string \<Rightarrow> string \<Rightarrow> string \<Rightarrow> store \<Rightarrow> (store_error + unit) \<times> store" where
  "receipt_file_transfer tid client code path st =
     (if code = [] then (Inl StoreConflict, st)
      else case map_of (st_transfers st) tid of
        None \<Rightarrow> (Inl StoreConflict, st)
      | Some r \<Rightarrow>
          if ft_client r = client \<and> ft_direction r = ''pbh_to_pb'' \<and>
             (ft_state r = ''pending'' \<or>
              (ft_state r = ''delivered'' \<or> ft_state r = ''failed'') \<and> ft_result r = code \<and> ft_receipt r = path)
          then (Inr (), set_transfer tid
                  (r\<lparr>ft_state := (if code = ''stored'' then ''delivered'' else ''failed''), ft_result := code, ft_receipt := path\<rparr>) st)
          else (Inl StoreConflict, st))"

definition cancel_file_transfer :: "string \<Rightarrow> store \<Rightarrow> (store_error + unit) \<times> store" where
  "cancel_file_transfer tid st =
     (case map_of (st_transfers st) tid of
        None \<Rightarrow> (Inl StoreConflict, st)
      | Some r \<Rightarrow>
          if active_state (ft_state r) then (Inr (), set_transfer tid (canceled_row r) st)
          else if ft_state r = ''canceled'' then (Inr (), st)
          else (Inl StoreConflict, st))"

subsection \<open>The life of a transfer\<close>

text \<open>
  The changes a row may go through.  A transfer is created, uploaded, and published on this
  machine or pending for the client; it ends delivered, failed or canceled.
\<close>

inductive transfer_step :: "transfer_row \<Rightarrow> transfer_row \<Rightarrow> bool" where
  upload: "open_state (ft_state r) \<Longrightarrow> ft_offset r \<le> n \<Longrightarrow> n \<le> ft_size r \<Longrightarrow>
    transfer_step r (r\<lparr>ft_offset := n, ft_state := ''uploading''\<rparr>)"
| complete: "complete_row_ready r \<Longrightarrow> transfer_step r (finished_row r)"
| cancel: "expirable r \<Longrightarrow> transfer_step r (canceled_row r)"
| time_out: "expirable r \<Longrightarrow> transfer_step r (r\<lparr>ft_state := ''failed'', ft_result := ''delivery_timeout''\<rparr>)"
| receipt: "ft_state r = ''pending'' \<Longrightarrow>
    transfer_step r (r\<lparr>ft_state := (if code = ''stored'' then ''delivered'' else ''failed''), ft_result := code, ft_receipt := path\<rparr>)"

inductive_cases transfer_stepE: "transfer_step r r'"

lemmas transfer_states = active_state_def open_state_def finished_state_def expirable_def complete_row_ready_def finished_row_def
  canceled_row_def

text \<open>What a row never loses, and how it may move.\<close>

definition same_transfer :: "transfer_row \<Rightarrow> transfer_row \<Rightarrow> bool" where
  "same_transfer r r' \<longleftrightarrow>
     ft_batch r' = ft_batch r \<and> ft_direction r' = ft_direction r \<and> ft_session r' = ft_session r \<and> ft_client r' = ft_client r \<and>
     ft_basename r' = ft_basename r \<and> ft_size r' = ft_size r \<and> ft_sha256 r' = ft_sha256 r \<and> ft_created r' = ft_created r \<and>
     ft_expires r' = ft_expires r"

text \<open>The phases of a transfer; a phase is left only for a later one.\<close>

datatype phase = Uploading | Published | Pending | Ended

definition phase_of :: "transfer_row \<Rightarrow> phase" where
  "phase_of r =
     (if open_state (ft_state r) then Uploading
      else if ft_state r = ''published'' then Published
      else if ft_state r = ''pending'' then Pending else Ended)"

fun phase_le :: "phase \<Rightarrow> phase \<Rightarrow> bool" where
  "phase_le Uploading q = True"
| "phase_le Published q \<longleftrightarrow> q = Published \<or> q = Ended"
| "phase_le Pending q \<longleftrightarrow> q = Pending \<or> q = Ended"
| "phase_le Ended q \<longleftrightarrow> q = Ended"

lemma phase_le_refl [simp]: "phase_le p p"
  by (cases p) simp_all

lemma phase_le_trans: "phase_le p q \<Longrightarrow> phase_le q s \<Longrightarrow> phase_le p s"
  by (cases p; cases q) auto

lemma active_phase: "active_state (ft_state r) \<longleftrightarrow> phase_of r \<in> {Uploading, Pending}"
  by (auto simp: phase_of_def transfer_states)

text \<open>The constraints of the schema, and that the result of an ended transfer agrees with its state.\<close>

definition row_wf :: "transfer_row \<Rightarrow> bool" where
  "row_wf r \<longleftrightarrow>
     transfer_constraints r \<and> (ft_state r = ''delivered'' \<longrightarrow> ft_result r = ''stored'') \<and>
     (ft_state r = ''failed'' \<longrightarrow> ft_result r \<noteq> ''stored'')"

definition forward :: "transfer_row \<Rightarrow> transfer_row \<Rightarrow> bool" where
  "forward r r' \<longleftrightarrow>
     same_transfer r r' \<and> phase_le (phase_of r) (phase_of r') \<and> ft_offset r \<le> ft_offset r' \<and>
     (row_wf r \<longrightarrow> row_wf r') \<and>
     (phase_of r \<noteq> Uploading \<longrightarrow> ft_offset r' = ft_offset r) \<and>
     (phase_of r = Uploading \<and> phase_of r' \<in> {Published, Pending} \<longrightarrow> ft_offset r' = ft_size r) \<and>
     (phase_of r = Ended \<longrightarrow> r' = r)"

lemma forward_refl: "forward r r"
  by (auto simp: forward_def same_transfer_def)

lemma phase_cases:
  "open_state (ft_state r) \<Longrightarrow> phase_of r = Uploading" "ft_state r = ''published'' \<Longrightarrow> phase_of r = Published"
  "ft_state r = ''pending'' \<Longrightarrow> phase_of r = Pending"
  "ft_state r = ''canceled'' \<or> ft_state r = ''failed'' \<or> ft_state r = ''delivered'' \<Longrightarrow> phase_of r = Ended"
  by (auto simp: phase_of_def open_state_def)

lemma ended_forward:
  assumes "same_transfer r r'" "phase_of r' = Ended" "phase_of r \<noteq> Ended" "ft_offset r' = ft_offset r" "row_wf r \<Longrightarrow> row_wf r'"
  shows "forward r r'"
  using assms by (cases "phase_of r") (simp_all add: forward_def)

lemma expirable_phase: "expirable r \<Longrightarrow> phase_of r \<noteq> Ended"
  by (auto simp: phase_of_def expirable_def active_state_def open_state_def)

lemma transfer_step_forward:
  assumes "transfer_step r r'"
  shows "forward r r'"
  using assms
proof (cases rule: transfer_step.cases)
  case (upload n)
  then have "phase_of r = Uploading" "phase_of r' = Uploading" by (auto intro!: phase_cases simp: open_state_def)
  then show ?thesis using upload by (simp add: forward_def same_transfer_def row_wf_def transfer_constraints_def active_state_def)
next
  case complete
  have p: "phase_of r = Uploading" using complete by (auto intro!: phase_cases simp: complete_row_ready_def)
  show ?thesis
  proof (cases "ft_direction r = ''pb_to_pbh''")
    case True
    then have "phase_of r' = Published" using complete by (auto intro!: phase_cases simp: finished_row_def Let_def)
    then show ?thesis using p complete True
      by (simp add: forward_def same_transfer_def row_wf_def transfer_constraints_def finished_row_def Let_def complete_row_ready_def)
  next
    case False
    then have "phase_of r' = Pending" using complete by (auto intro!: phase_cases simp: finished_row_def Let_def)
    then show ?thesis using p complete False
      by (simp add: forward_def same_transfer_def row_wf_def transfer_constraints_def finished_row_def Let_def complete_row_ready_def
          active_state_def)
  qed
next
  case cancel
  show ?thesis
    by (rule ended_forward [OF _ _ expirable_phase [OF cancel(2)]])
      (auto simp: cancel(1) canceled_row_def same_transfer_def row_wf_def transfer_constraints_def intro!: phase_cases)
next
  case time_out
  show ?thesis
    by (rule ended_forward [OF _ _ expirable_phase [OF time_out(2)]])
      (auto simp: time_out(1) same_transfer_def row_wf_def transfer_constraints_def intro!: phase_cases)
next
  case (receipt code path)
  show ?thesis
    by (rule ended_forward)
      (auto simp: receipt same_transfer_def row_wf_def transfer_constraints_def phase_cases(3) intro!: phase_cases)
qed

lemma forward_trans:
  assumes "forward a b" "forward b c"
  shows "forward a c"
proof -
  have "same_transfer a c" "phase_le (phase_of a) (phase_of c)" "ft_offset a \<le> ft_offset c"
    "row_wf a \<longrightarrow> row_wf c"
    using assms phase_le_trans by (auto simp: forward_def same_transfer_def)
  moreover have "phase_of a = Ended \<longrightarrow> c = a" "phase_of a \<noteq> Uploading \<longrightarrow> ft_offset c = ft_offset a"
    using assms by (cases "phase_of a"; auto simp: forward_def)+
  moreover have "ft_offset c = ft_size a" if "phase_of a = Uploading" "phase_of c \<in> {Published, Pending}"
    using assms that by (cases "phase_of b") (auto simp: forward_def same_transfer_def)
  ultimately show ?thesis by (simp add: forward_def)
qed

subsection \<open>What the operations do to the table\<close>

definition moves :: "transfer_row gomap \<Rightarrow> transfer_row gomap \<Rightarrow> bool" where
  "moves m m' \<longleftrightarrow> list_all2 (\<lambda>(k, r) (k', r'). k' = k \<and> forward r r') m m'"

lemma moves_refl [simp]: "moves m m"
  by (auto simp: moves_def forward_refl intro!: list_all2_refl)

lemma moves_trans: "moves a b \<Longrightarrow> moves b c \<Longrightarrow> moves a c"
  unfolding moves_def by (erule (1) list_all2_trans [rotated]) (auto intro: forward_trans)

lemma moves_update: "map_of m k = Some r \<Longrightarrow> forward r r' \<Longrightarrow> moves m (AList.update k r' m)"
  by (induction m) (auto simp: moves_def forward_refl split: if_splits intro!: list_all2_refl)

lemma moves_map: "(\<And>r. r \<in> snd ` set m \<Longrightarrow> P r \<Longrightarrow> forward r (f r)) \<Longrightarrow> moves m (map (\<lambda>(k, r). (k, if P r then f r else r)) m)"
  by (induction m) (auto simp: moves_def forward_refl)

lemma moves_keys: "moves m m' \<Longrightarrow> map fst m' = map fst m"
  unfolding moves_def by (induction m m' rule: list_all2_induct) auto

lemma moves_map_of:
  assumes "moves m m'"
  shows "map_of m k = None \<Longrightarrow> map_of m' k = None"
    and "map_of m k = Some r \<Longrightarrow> \<exists>r'. map_of m' k = Some r' \<and> forward r r'"
  using assms unfolding moves_def by (induction m m' rule: list_all2_induct) (auto split: if_splits)

definition transfers_wf :: "store \<Rightarrow> bool" where
  "transfers_wf st \<longleftrightarrow> keys_distinct (st_transfers st) \<and> (\<forall>(k, r) \<in> set (st_transfers st). row_wf r)"

lemma moves_wf:
  assumes "moves (st_transfers st) (st_transfers st')" "transfers_wf st"
  shows "transfers_wf st'"
proof -
  have "\<forall>(k, r) \<in> set m'. row_wf r" if "moves m m'" "\<forall>(k, r) \<in> set m. row_wf r" for m m'
    using that unfolding moves_def by (induction m m' rule: list_all2_induct) (auto simp: forward_def)
  then show ?thesis using assms moves_keys [OF assms(1)] by (simp add: transfers_wf_def keys_distinct_def)
qed

lemma commit_moves: "moves (st_transfers st) (st_transfers (snd (commit_file_transfer_offset tid e n st)))"
  by (auto simp: commit_file_transfer_offset_def set_transfer_def split: option.split
      intro!: moves_update transfer_step_forward transfer_step.upload)

lemma complete_moves:
  "moves (st_transfers st) (st_transfers (snd (complete_file_transfer tid st)))"
  "moves (st_transfers st) (st_transfers (snd (complete_file_transfer_batch batch st)))"
  by (auto simp: complete_file_transfer_def complete_file_transfer_batch_def Let_def set_transfer_def update_rows_def
      split: option.split intro!: moves_update moves_map transfer_step_forward transfer_step.complete)

lemma cancel_moves:
  "moves (st_transfers st) (st_transfers (snd (cancel_file_transfer_batch batch st)))"
  "moves (st_transfers st) (st_transfers (snd (cancel_file_transfer tid st)))"
  by (auto simp: cancel_file_transfer_batch_def cancel_file_transfer_def Let_def set_transfer_def update_rows_def expirable_def
      split: option.split intro!: moves_update moves_map transfer_step_forward transfer_step.cancel)

lemma transfer_row_wf: "transfers_wf st \<Longrightarrow> map_of (st_transfers st) tid = Some r \<Longrightarrow> row_wf r"
  by (auto simp: transfers_wf_def dest: map_of_SomeD)

lemma receipt_moves:
  assumes "transfers_wf st"
  shows "moves (st_transfers st) (st_transfers (snd (receipt_file_transfer tid client code path st)))"
proof (cases "map_of (st_transfers st) tid")
  case (Some r)
  let ?r = "r\<lparr>ft_state := (if code = ''stored'' then ''delivered'' else ''failed''), ft_result := code, ft_receipt := path\<rparr>"
  have "forward r ?r" if "ft_state r = ''pending''"
    by (rule transfer_step_forward, rule transfer_step.receipt [OF that])
  moreover have eq: "?r = r" if "ft_state r = ''delivered'' \<or> ft_state r = ''failed''" "ft_result r = code" "ft_receipt r = path"
    using transfer_row_wf [OF assms Some] that by (cases r) (auto simp: row_wf_def)
  have "forward r ?r" if "ft_state r = ''delivered'' \<or> ft_state r = ''failed''" "ft_result r = code" "ft_receipt r = path"
    by (subst eq [OF that]) (rule forward_refl)
  ultimately have "moves (st_transfers st) (AList.update tid ?r (st_transfers st))"
    if "ft_state r = ''pending'' \<or> (ft_state r = ''delivered'' \<or> ft_state r = ''failed'') \<and> ft_result r = code \<and> ft_receipt r = path"
    using that moves_update [OF Some] by blast
  then show ?thesis using Some by (simp add: receipt_file_transfer_def set_transfer_def)
qed (simp add: receipt_file_transfer_def)

lemma expire_moves: "moves (st_transfers st) (st_transfers (snd (expire_file_transfers ts st)))"
proof (induction ts arbitrary: st)
  case (Cons t ts)
  obtain tid seen where t: "t = (tid, seen)" by fastforce
  have f: "forward r (expired_row seen r)" if "expirable r" for r
    using that by (auto simp: expired_row_def intro!: transfer_step_forward transfer_step.time_out transfer_step.cancel)
  show ?case unfolding t
    by (simp split: option.split) (auto simp: set_transfer_def intro!: moves_trans [OF _ Cons.IH] Cons.IH moves_update f)
qed simp

subsection \<open>The spool stays within its limits\<close>

lemma moves_active:
  assumes "moves (st_transfers st) (st_transfers st')" "transfers_wf st"
  shows "active_bytes st' \<le> active_bytes st" "active_batches st' \<le> active_batches st"
proof -
  have rows: "sum_list (map ft_size (filter (\<lambda>r. active_state (ft_state r)) (map snd m'))) \<le>
      sum_list (map ft_size (filter (\<lambda>r. active_state (ft_state r)) (map snd m))) \<and>
      set (map ft_batch (filter (\<lambda>r. active_state (ft_state r)) (map snd m'))) \<subseteq>
      set (map ft_batch (filter (\<lambda>r. active_state (ft_state r)) (map snd m)))"
    if "moves m m'" "\<forall>(k, r) \<in> set m. row_wf r" for m m'
    using that unfolding moves_def
  proof (induction m m' rule: list_all2_induct)
    case (Cons x xs y ys)
    obtain k r r' where xy: "x = (k, r)" "y = (k, r')" "forward r r'" using Cons(1) by (cases x; cases y) auto
    have "active_state (ft_state r') \<Longrightarrow> active_state (ft_state r)"
      using xy(3) by (cases "phase_of r") (auto simp: forward_def active_phase)
    moreover have "ft_size r' = ft_size r" "ft_batch r' = ft_batch r" using xy(3) by (simp_all add: forward_def same_transfer_def)
    moreover have "0 \<le> ft_size r" using Cons.prems xy(1) by (simp add: row_wf_def transfer_constraints_def)
    ultimately show ?case using Cons.IH Cons.prems xy by auto
  qed simp
  have w: "\<forall>(k, r) \<in> set (st_transfers st). row_wf r" using assms(2) by (simp add: transfers_wf_def)
  from rows [OF assms(1) w] show "active_bytes st' \<le> active_bytes st" by (simp add: active_bytes_def active_rows_def)
  have "set (map ft_batch (active_rows st')) \<subseteq> set (map ft_batch (active_rows st))"
    using rows [OF assms(1) w] unfolding active_rows_def by blast
  then have "card (set (map ft_batch (active_rows st'))) \<le> card (set (map ft_batch (active_rows st)))"
    by (intro card_mono) simp_all
  then show "active_batches st' \<le> active_batches st"
    by (simp only: active_batches_def length_remdups_card_conv)
qed

definition fresh_row :: "transfer_row \<Rightarrow> transfer_row" where
  "fresh_row t = t\<lparr>ft_offset := 0, ft_state := ''created'', ft_result := [], ft_receipt := []\<rparr>"

lemma insert_transfers_Inr:
  assumes "insert_transfers ts m = Inr m'" "keys_distinct m"
  shows "m' = m @ map (\<lambda>(k, t). (k, fresh_row t)) ts \<and> keys_distinct m' \<and> list_all (\<lambda>(k, t). row_wf (fresh_row t) \<and> k \<noteq> []) ts"
  using assms
proof (induction ts arbitrary: m)
  case (Cons p ts)
  obtain k t where p: "p = (k, t)" by fastforce
  have a: "map_of m k = None" "transfer_constraints (fresh_row t)" "k \<noteq> []" "insert_transfers ts (AList.update k (fresh_row t) m) = Inr m'"
    using Cons.prems(1) unfolding p by (auto simp: Let_def fresh_row_def split: if_splits)
  have "row_wf (fresh_row t)" using a(2) by (simp add: row_wf_def fresh_row_def)
  then show ?case
    using Cons.IH [OF a(4) keys_distinct_update [OF Cons.prems(2)]] a(3) p update_fresh [OF a(1), of "fresh_row t"] by auto
qed simp

lemma fresh_active: "active_state (ft_state (fresh_row t))"
  by (simp add: fresh_row_def active_state_def)

lemma i64_sum_exact:
  assumes "list_all (\<lambda>(k, t). 0 \<le> ft_size t \<and> ft_size t \<le> 52428800) ts" "0 \<le> a" "a + 52428800 * int (length ts) < 2 ^ 63"
  shows "foldl (\<lambda>a t. i64_add a (ft_size (snd t))) a ts = a + sum_list (map (\<lambda>p. ft_size (snd p)) ts)"
  using assms
proof (induction ts arbitrary: a)
  case (Cons p ts)
  obtain k t where p: "p = (k, t)" by fastforce
  have t: "0 \<le> ft_size t" "ft_size t \<le> 52428800" using Cons.prems(1) p by simp_all
  have s: "a + ft_size t + 52428800 * int (length ts) < 2 ^ 63" using Cons.prems(3) t(2) by simp
  then have "i64_add a (ft_size t) = a + ft_size t" using Cons.prems(2) t(1) by (simp add: i64_add_def i64_wrap_def)
  then show ?case using Cons.IH [of "a + ft_size t"] Cons.prems(1,2) t s p by simp
qed simp

lemma create_within_limits:
  assumes "create_file_transfers_within_limits ts max_spool max_active st = (Inr u, st')" "transfers_wf st"
  shows "st_transfers st' = st_transfers st @ map (\<lambda>(k, t). (k, fresh_row t)) ts" "transfers_wf st'"
    "0 < max_spool \<Longrightarrow> active_bytes st' \<le> max_spool"
    "0 < max_active \<Longrightarrow> list_all (\<lambda>(k, t). ft_batch t = b) ts \<Longrightarrow> int (active_batches st') \<le> max_active"
    "list_all (\<lambda>(k, t). row_wf (fresh_row t) \<and> k \<noteq> []) ts"
proof -
  let ?in = "foldl (\<lambda>a t. i64_add a (ft_size (snd t))) 0 ts"
  obtain m where m: "insert_transfers ts (st_transfers st) = Inr m" "st' = st\<lparr>st_transfers := m\<rparr>"
    and lim: "length ts \<le> 10" "max_active > 0 \<longrightarrow> int (active_batches st) < max_active"
      "max_spool > 0 \<longrightarrow> active_bytes st \<le> max_spool - ?in"
    using assms(1) by (auto simp: create_file_transfers_within_limits_def Let_def split: if_splits sum.splits)
  have kd: "keys_distinct (st_transfers st)" using assms(2) by (simp add: transfers_wf_def)
  note ins = insert_transfers_Inr [OF m(1) kd]
  show st': "st_transfers st' = st_transfers st @ map (\<lambda>(k, t). (k, fresh_row t)) ts" using ins m(2) by simp
  show wf: "list_all (\<lambda>(k, t). row_wf (fresh_row t) \<and> k \<noteq> []) ts" using ins by blast
  then have "\<forall>(k, r) \<in> set (map (\<lambda>(k, t). (k, fresh_row t)) ts). row_wf r" by (auto simp: list_all_iff)
  then show "transfers_wf st'" using ins m(2) assms(2) unfolding transfers_wf_def st' by auto
  have act: "active_rows st' = active_rows st @ map (\<lambda>p. fresh_row (snd p)) ts"
    unfolding active_rows_def st' by (auto simp: fresh_active case_prod_beta comp_def)
  have "list_all (\<lambda>(k, t). 0 \<le> ft_size t \<and> ft_size t \<le> 52428800) ts"
    using wf by (auto simp: list_all_iff row_wf_def transfer_constraints_def fresh_row_def)
  then have "?in = sum_list (map (\<lambda>p. ft_size (snd p)) ts)" using i64_sum_exact [of ts 0] lim(1) by simp
  moreover have "active_bytes st' = active_bytes st + sum_list (map (\<lambda>p. ft_size (snd p)) ts)"
    by (simp add: active_bytes_def act comp_def fresh_row_def)
  ultimately show "0 < max_spool \<Longrightarrow> active_bytes st' \<le> max_spool" using lim(3) by simp
  show "int (active_batches st') \<le> max_active" if "0 < max_active" "list_all (\<lambda>(k, t). ft_batch t = b) ts"
  proof -
    have "set (map ft_batch (active_rows st')) \<subseteq> insert b (set (map ft_batch (active_rows st)))"
      using that(2) by (auto simp: act list_all_iff fresh_row_def)
    then have "card (set (map ft_batch (active_rows st'))) \<le> card (insert b (set (map ft_batch (active_rows st))))"
      by (intro card_mono) simp_all
    also have "\<dots> \<le> Suc (card (set (map ft_batch (active_rows st))))" by (simp add: card_insert_if)
    finally have "active_batches st' \<le> Suc (active_batches st)"
      by (simp only: active_batches_def length_remdups_card_conv)
    then show ?thesis using lim(2) that(1) by simp
  qed
qed

end
