(* ===== verification/File_Transfer.thy ===== *)
theory File_Transfer
  imports Store_Transfers
begin

section \<open>The file transfer service\<close>

text \<open>
  Model of \<open>src/internal/filetransfer/service.go\<close>: the service that takes files in pieces,
  keeps them in a spool directory, checks their digests and hands them out.  Its state is
  the policy, the store, the files of the spool directory, the number of running uploads
  and the cancellation signals.  The files of a transfer are \<open>Part\<close> (\<open>partialPath\<close>),
  \<open>Content\<close> (\<open>contentPath\<close>) and \<open>Link\<close> (\<open>publishedPath\<close>, a hard link to the content).

  Every operation is one step.  What the operating system, the database, the request body
  and the random source answer is in the environment argument of the operation, so that
  every error path is a branch.  An upload and the completion of its batch use different
  locks in the source; the model runs them one after the other.
\<close>

subsection \<open>Policy\<close>

record transfer_policy =
  tp_revision :: string
  tp_max_file :: int
  tp_max_files :: int
  tp_max_batch :: int
  tp_concurrent :: int
  tp_retention :: int
  tp_delivery :: int
  tp_spool :: int

definition default_policy :: transfer_policy where
  "default_policy = \<lparr>tp_revision = ''file-transfer-v1'', tp_max_file = 52428800, tp_max_files = 10, tp_max_batch = 524288000,
     tp_concurrent = 2, tp_retention = 604800, tp_delivery = 600, tp_spool = 1073741824\<rparr>"

definition valid_policy :: "transfer_policy \<Rightarrow> bool" where
  "valid_policy p \<longleftrightarrow>
     tp_revision p \<noteq> [] \<and> tp_max_file p > 0 \<and> tp_max_file p \<le> 52428800 \<and> tp_max_files p > 0 \<and> tp_max_files p \<le> 10 \<and>
     tp_max_batch p \<ge> tp_max_file p \<and> tp_max_batch p \<le> 524288000 \<and> tp_concurrent p > 0 \<and> tp_concurrent p \<le> 2 \<and>
     tp_retention p > 0 \<and> tp_delivery p > 0 \<and> tp_spool p \<ge> tp_max_batch p"

definition new_policy_store :: "transfer_policy \<Rightarrow> transfer_policy" where
  "new_policy_store p = (if valid_policy p then p else default_policy)"

subsection \<open>Errors, files and the state\<close>

datatype ft_code =
    InvalidPath | InvalidSize | BatchLimit | OffsetConflict | DigestMismatch | StorageUnavailable | ResourceLimit
  | TransferCanceled | DeliveryTimeout

datatype ft_error = FT ft_code | FTContext | FTStore store_error

datatype ft_path = Part string | Content string | Link string string

record transfer_service =
  fs_policy :: transfer_policy
  fs_store :: store
  fs_files :: "(ft_path \<times> bytes) list"
  fs_active :: int
  fs_cancels :: "bool gomap"

definition update_policy :: "transfer_policy \<Rightarrow> transfer_service \<Rightarrow> ft_error option \<times> transfer_service" where
  "update_policy p s = (if valid_policy p then (None, s\<lparr>fs_policy := p\<rparr>) else (Some (FT InvalidSize), s))"

definition link_path :: "string \<Rightarrow> transfer_row \<Rightarrow> ft_path" where
  "link_path tid r = Link tid (ft_basename r)"

definition put_file :: "ft_path \<Rightarrow> bytes \<Rightarrow> transfer_service \<Rightarrow> transfer_service" where
  "put_file p b s = s\<lparr>fs_files := AList.update p b (fs_files s)\<rparr>"

definition remove_file :: "ft_path \<Rightarrow> transfer_service \<Rightarrow> transfer_service" where
  "remove_file p s = s\<lparr>fs_files := AList.delete p (fs_files s)\<rparr>"

definition rename_file :: "ft_path \<Rightarrow> ft_path \<Rightarrow> transfer_service \<Rightarrow> transfer_service option" where
  "rename_file p q s =
     (case map_of (fs_files s) p of None \<Rightarrow> None | Some b \<Rightarrow> Some (put_file q b (remove_file p s)))"

text \<open>A call of the store from the service.\<close>

definition ft_store_call ::
    "fault \<Rightarrow> (store \<Rightarrow> (store_error + 'a) \<times> store) \<Rightarrow> transfer_service \<Rightarrow> (store_error + 'a) \<times> transfer_service" where
  "ft_store_call flt op s = (case with_fault flt op (fs_store s) of (r, st) \<Rightarrow> (r, s\<lparr>fs_store := st\<rparr>))"

definition ft_store_read :: "fault \<Rightarrow> (store \<Rightarrow> store_error + 'a) \<Rightarrow> transfer_service \<Rightarrow> store_error + 'a" where
  "ft_store_read flt q s = fst (with_fault flt (\<lambda>st. (q st, st)) (fs_store s))"

text \<open>\<open>cancelSignal\<close> and \<open>signalCancel\<close>.\<close>

definition cancel_signal :: "string \<Rightarrow> transfer_service \<Rightarrow> transfer_service" where
  "cancel_signal tid s =
     (if map_of (fs_cancels s) tid = None then s\<lparr>fs_cancels := AList.update tid False (fs_cancels s)\<rparr> else s)"

definition signal_cancel :: "string \<Rightarrow> transfer_service \<Rightarrow> transfer_service" where
  "signal_cancel tid s = s\<lparr>fs_cancels := AList.update tid True (fs_cancels s)\<rparr>"

definition drop_signal :: "string \<Rightarrow> transfer_service \<Rightarrow> transfer_service" where
  "drop_signal tid s = s\<lparr>fs_cancels := AList.delete tid (fs_cancels s)\<rparr>"

subsection \<open>Checks on names and digests\<close>

text \<open>\<open>filepath.Base\<close> on Unix.\<close>

definition filepath_base :: "string \<Rightarrow> string" where
  "filepath_base v =
     (if v = [] then ''.''
      else let w = rev (dropWhile (\<lambda>c. c = CHR ''/'') (rev v))
           in if w = [] then ''/'' else rev (takeWhile (\<lambda>c. c \<noteq> CHR ''/'') (rev w)))"

definition valid_basename :: "string \<Rightarrow> bool" where
  "valid_basename v \<longleftrightarrow>
     v \<noteq> [] \<and> utf8_valid (map of_char v) \<and> length v \<le> 255 \<and> v = filepath_base v \<and> v \<noteq> ''.'' \<and> v \<noteq> ''..'' \<and>
     list_all (\<lambda>c. c \<noteq> CHR ''/'' \<and> c \<noteq> CHR 0x5C \<and> c \<noteq> CHR 0x00) v"

definition valid_digest :: "string \<Rightarrow> bool" where
  "valid_digest v \<longleftrightarrow> length v = 64 \<and> list_all (\<lambda>c. c \<in> set ''0123456789abcdef'') v"

subsection \<open>Cancelling\<close>

record cancel_env =
  ce_db :: fault
  ce_remove :: "ft_path \<Rightarrow> bool"
  ce_sync :: bool

text \<open>\<open>os.Remove\<close> of every path of a transfer; a missing file is no error.\<close>

fun remove_paths :: "(ft_path \<Rightarrow> bool) \<Rightarrow> ft_path list \<Rightarrow> transfer_service \<Rightarrow> ft_error list \<times> transfer_service" where
  "remove_paths ok [] s = ([], s)"
| "remove_paths ok (p # ps) s =
     (let (errs, s') = remove_paths ok ps (if ok p then remove_file p s else s)
      in (if \<not> ok p \<and> map_of (fs_files s) p \<noteq> None then FT StorageUnavailable # errs else errs, s'))"

definition transfer_paths :: "string \<times> transfer_row \<Rightarrow> ft_path list" where
  "transfer_paths t = [Part (fst t), Content (fst t), link_path (fst t) (snd t)]"

fun remove_transfers :: "(ft_path \<Rightarrow> bool) \<Rightarrow> (string \<times> transfer_row) list \<Rightarrow> transfer_service \<Rightarrow> ft_error list \<times> transfer_service" where
  "remove_transfers ok [] s = ([], s)"
| "remove_transfers ok (t # ts) s =
     (let (errs, s1) = remove_paths ok (transfer_paths t) s;
          (errs', s2) = remove_transfers ok ts (drop_signal (fst t) s1)
      in (errs @ errs', s2))"

definition cancel_batch_locked ::
    "cancel_env \<Rightarrow> (string \<times> transfer_row) list \<Rightarrow> transfer_service \<Rightarrow> ft_error list \<times> transfer_service" where
  "cancel_batch_locked env ts s =
     (let s1 = fold (\<lambda>t. signal_cancel (fst t)) ts s;
          (r, s2) = (case ts of [] \<Rightarrow> (Inr (), s1) | t # _ \<Rightarrow> ft_store_call (ce_db env) (cancel_file_transfer_batch (ft_batch (snd t))) s1);
          (errs, s3) = remove_transfers (ce_remove env) ts s2
      in ((case r of Inl e \<Rightarrow> [FTStore e] | Inr _ \<Rightarrow> []) @ errs @ (if ce_sync env then [] else [FT StorageUnavailable]), s3))"

definition cancel_transfer :: "fault \<Rightarrow> fault \<Rightarrow> cancel_env \<Rightarrow> string \<Rightarrow> transfer_service \<Rightarrow> ft_error list \<times> transfer_service" where
  "cancel_transfer flt flt' env tid s =
     (case ft_store_read flt (file_transfer tid) s of
        Inl e \<Rightarrow> ([FTStore e], s)
      | Inr r \<Rightarrow>
          (case ft_store_read flt' (file_transfers_by_batch (ft_batch r)) s of
             Inl e \<Rightarrow> ([FTStore e], s)
           | Inr ts \<Rightarrow> cancel_batch_locked env ts s))"

text \<open>\<open>cancelLocked\<close> of a single transfer.\<close>

fun remove_until :: "(ft_path \<Rightarrow> bool) \<Rightarrow> ft_path list \<Rightarrow> transfer_service \<Rightarrow> ft_error option \<times> transfer_service" where
  "remove_until ok [] s = (None, s)"
| "remove_until ok (p # ps) s =
     (if \<not> ok p \<and> map_of (fs_files s) p \<noteq> None then (Some (FT StorageUnavailable), s)
      else remove_until ok ps (if ok p then remove_file p s else s))"

definition cancel_locked :: "fault \<Rightarrow> cancel_env \<Rightarrow> string \<Rightarrow> transfer_service \<Rightarrow> ft_error option \<times> transfer_service" where
  "cancel_locked flt env tid s =
     (case ft_store_read flt (file_transfer tid) s of
        Inl e \<Rightarrow> (Some (FTStore e), s)
      | Inr r \<Rightarrow>
          (case ft_store_call (ce_db env) (cancel_file_transfer tid) s of
             (Inl e, s1) \<Rightarrow> (Some (FTStore e), s1)
           | (Inr _, s1) \<Rightarrow>
               (case remove_until (ce_remove env) (transfer_paths (tid, r)) s1 of
                  (Some e, s2) \<Rightarrow> (Some e, s2)
                | (None, s2) \<Rightarrow> (if ce_sync env then None else Some (FT StorageUnavailable), s2))))"

subsection \<open>Creating a batch\<close>

record ft_file =
  ff_basename :: string
  ff_size :: int
  ff_sha256 :: string

record ft_request =
  rq_batch :: string
  rq_direction :: string
  rq_session :: string
  rq_client :: string
  rq_files :: "ft_file list"

record ft_create_env =
  te_now :: int
  te_random :: "bytes option list"
  te_insert :: fault
  te_open :: "string \<Rightarrow> bool"
  te_close :: "string \<Rightarrow> bool"
  te_sync :: bool
  te_cancel :: cancel_env

definition new_transfer_id :: "bytes \<Rightarrow> string" where
  "new_transfer_id bs = ''ft_'' @ hex_string bs"

definition expiry :: "transfer_policy \<Rightarrow> ft_request \<Rightarrow> int \<Rightarrow> int" where
  "expiry p req now =
     (if rq_direction req = ''pbh_to_pb'' then now + i64_wrap (tp_delivery p * 1000000000)
      else now + i64_wrap (tp_retention p * 1000000000))"

definition requested_row :: "transfer_policy \<Rightarrow> ft_request \<Rightarrow> int \<Rightarrow> ft_file \<Rightarrow> transfer_row" where
  "requested_row p req now f =
     \<lparr>ft_batch = rq_batch req, ft_direction = rq_direction req, ft_session = rq_session req, ft_client = rq_client req,
      ft_basename = ff_basename f, ft_size = ff_size f, ft_sha256 = ff_sha256 f, ft_offset = 0, ft_state = ''created'',
      ft_result = [], ft_receipt = [], ft_created = now, ft_expires = expiry p req now\<rparr>"

fun check_files ::
    "transfer_policy \<Rightarrow> ft_request \<Rightarrow> int \<Rightarrow> int \<Rightarrow> bytes option list \<Rightarrow> ft_file list \<Rightarrow> ft_error + (string \<times> transfer_row) list" where
  "check_files p req now acc rnd [] = Inr []"
| "check_files p req now acc rnd (f # fs) =
     (if \<not> valid_basename (ff_basename f) then Inl (FT InvalidPath)
      else if ff_size f < 0 \<or> ff_size f > tp_max_file p then Inl (FT InvalidSize)
      else if \<not> valid_digest (ff_sha256 f) then Inl (FT DigestMismatch)
      else if acc + ff_size f > tp_max_batch p then Inl (FT BatchLimit)
      else case rnd of
        Some bs # rnd' \<Rightarrow>
          (case check_files p req now (acc + ff_size f) rnd' fs of
             Inl e \<Rightarrow> Inl e
           | Inr ts \<Rightarrow> Inr ((new_transfer_id bs, requested_row p req now f) # ts))
      | _ \<Rightarrow> Inl (FT StorageUnavailable))"

text \<open>The loop that creates the empty files; \<open>True\<close> when all of them could be made.\<close>

fun open_parts :: "ft_create_env \<Rightarrow> (string \<times> transfer_row) list \<Rightarrow> transfer_service \<Rightarrow> bool \<times> transfer_service" where
  "open_parts env [] s = (True, s)"
| "open_parts env ((tid, r) # ts) s =
     (let s1 = cancel_signal tid s
      in if \<not> te_open env tid \<or> map_of (fs_files s1) (Part tid) \<noteq> None then (False, s1)
         else let s2 = put_file (Part tid) [] s1
              in if \<not> te_close env tid then (False, s2) else open_parts env ts s2)"

definition create_batch ::
    "ft_create_env \<Rightarrow> ft_request \<Rightarrow> transfer_service \<Rightarrow> (ft_error + (string \<times> transfer_row) list) \<times> transfer_service" where
  "create_batch env req s =
     (let p = fs_policy s
      in if rq_batch req = [] \<or> rq_session req = [] \<or> rq_client req = []
            \<or> rq_direction req \<noteq> ''pb_to_pbh'' \<and> rq_direction req \<noteq> ''pbh_to_pb''
         then (Inl (FT InvalidPath), s)
         else if length (rq_files req) < 1 \<or> int (length (rq_files req)) > tp_max_files p then (Inl (FT BatchLimit), s)
         else case check_files p req (te_now env) 0 (te_random env) (rq_files req) of
           Inl e \<Rightarrow> (Inl e, s)
         | Inr ts \<Rightarrow>
             (case ft_store_call (te_insert env) (create_file_transfers_within_limits ts (tp_spool p) (tp_concurrent p)) s of
                (Inl StoreConflict, s1) \<Rightarrow> (Inl (FT ResourceLimit), s1)
              | (Inl _, s1) \<Rightarrow> (Inl (FT StorageUnavailable), s1)
              | (Inr _, s1) \<Rightarrow>
                  (case open_parts env ts s1 of
                     (ok, s2) \<Rightarrow>
                       if ok \<and> te_sync env then (Inr ts, s2)
                       else (Inl (FT StorageUnavailable), snd (cancel_batch_locked (te_cancel env) ts s2)))))"

subsection \<open>Uploading\<close>

text \<open>
  How a copy ends: the reader is exhausted, the context of the request ends, the transfer is
  canceled, or reading or writing fails.
\<close>

datatype body_end = BodyDone | BodyContext | BodyCanceled | BodyFailed

text \<open>
  The answers an upload meets.  \<open>ae_body\<close> is what arrives before the copy ends as \<open>ae_end\<close>
  says; \<open>ae_cut\<close> is whether the second \<open>Truncate\<close>, whose error is dropped, works.
\<close>

record append_env =
  ae_slot :: bool
  ae_read :: fault
  ae_open :: bool
  ae_truncate :: bool
  ae_seek :: bool
  ae_body :: bytes
  ae_end :: body_end
  ae_cut :: bool
  ae_sync :: bool
  ae_commit :: fault

text \<open>
  \<open>acquire\<close> waits for one of the slots of the policy; \<open>ae_slot\<close> says whether it got one
  before the context of the request ended.
\<close>

definition acquire :: "bool \<Rightarrow> transfer_service \<Rightarrow> transfer_service option" where
  "acquire slot s = (if slot \<and> fs_active s < tp_concurrent (fs_policy s) then Some (s\<lparr>fs_active := fs_active s + 1\<rparr>) else None)"

definition release :: "transfer_service \<Rightarrow> transfer_service" where
  "release s = s\<lparr>fs_active := fs_active s - 1\<rparr>"

definition truncate_file :: "nat \<Rightarrow> bytes \<Rightarrow> bytes" where
  "truncate_file n b = take n b @ replicate (n - length b) 0"

text \<open>The part of \<open>Append\<close> after the row was read: the file is cut at the offset, then written.\<close>

definition append_body ::
    "append_env \<Rightarrow> string \<Rightarrow> transfer_row \<Rightarrow> int \<Rightarrow> transfer_service \<Rightarrow> (ft_error + transfer_row) \<times> transfer_service" where
  "append_body env tid r offset s =
     (case map_of (fs_files s) (Part tid) of
        None \<Rightarrow> (Inl (FT StorageUnavailable), s)
      | Some b \<Rightarrow>
          if \<not> ae_open env \<or> \<not> ae_truncate env then (Inl (FT StorageUnavailable), s)
          else
            let base = truncate_file (nat offset) b;
                s1 = put_file (Part tid) base s;
                remaining = ft_size r - offset;
                data = take (nat (remaining + 1)) (ae_body env);
                s2 = put_file (Part tid) (base @ data) (cancel_signal tid s1);
                written = int (length data)
            in if \<not> ae_seek env then (Inl (FT StorageUnavailable), s1)
               else if written < remaining + 1 \<and> ae_end env \<noteq> BodyDone
                 then (Inl (case ae_end env of BodyContext \<Rightarrow> FTContext | BodyCanceled \<Rightarrow> FT TransferCanceled
                            | _ \<Rightarrow> FT StorageUnavailable), s2)
               else if written > remaining then (Inl (FT InvalidSize), if ae_cut env then put_file (Part tid) base s2 else s2)
               else if \<not> ae_sync env then (Inl (FT StorageUnavailable), s2)
               else case ft_store_call (ae_commit env) (commit_file_transfer_offset tid offset (offset + written)) s2 of
                 (Inl _, s3) \<Rightarrow> (Inl (FT OffsetConflict), s3)
               | (Inr _, s3) \<Rightarrow> (Inr (r\<lparr>ft_offset := ft_offset r + written, ft_state := ''uploading''\<rparr>), s3))"

definition append_transfer ::
    "append_env \<Rightarrow> string \<Rightarrow> int \<Rightarrow> transfer_service \<Rightarrow> (ft_error + transfer_row) \<times> transfer_service" where
  "append_transfer env tid offset s =
     (case acquire (ae_slot env) s of
        None \<Rightarrow> (Inl FTContext, s)
      | Some s0 \<Rightarrow>
          (case ft_store_read (ae_read env) (file_transfer tid) s0 of
             Inl _ \<Rightarrow> (Inl (FT InvalidPath), release s0)
           | Inr r \<Rightarrow>
               if ft_state r = ''canceled'' then (Inl (FT TransferCanceled), release s0)
               else if offset \<noteq> ft_offset r then (Inl (FT OffsetConflict), release s0)
               else (case append_body env tid r offset s0 of (res, s1) \<Rightarrow> (res, release s1))))"

subsection \<open>Completing a batch\<close>

record complete_env =
  co_read :: fault
  co_batch :: fault
  co_open :: "string \<Rightarrow> bool"
  co_hash :: "string \<Rightarrow> body_end"
  co_rename :: "string \<Rightarrow> bool"
  co_undo :: "string \<Rightarrow> bool"
  co_sync :: bool
  co_commit :: fault
  co_final :: fault
  co_cancel :: cancel_env

definition content_of :: "string \<Rightarrow> transfer_service \<Rightarrow> bytes option" where
  "content_of tid s =
     (case map_of (fs_files s) (Part tid) of Some b \<Rightarrow> Some b | None \<Rightarrow> map_of (fs_files s) (Content tid))"

definition digest_ok :: "transfer_row \<Rightarrow> bytes \<Rightarrow> bool" where
  "digest_ok r b \<longleftrightarrow> int (length b) = ft_size r \<and> hex_string (sha256 b) = ft_sha256 r"

datatype check_result = CheckOk | CheckFails ft_error | CheckMismatch

fun check_contents ::
    "complete_env \<Rightarrow> (string \<times> transfer_row) list \<Rightarrow> transfer_service \<Rightarrow> check_result \<times> transfer_service" where
  "check_contents env [] s = (CheckOk, s)"
| "check_contents env ((tid, r) # ts) s =
     (if ft_offset r \<noteq> ft_size r \<or> \<not> open_state (ft_state r) then (CheckFails (FT InvalidSize), s)
      else case content_of tid s of
        None \<Rightarrow> (CheckFails (FT StorageUnavailable), s)
      | Some b \<Rightarrow>
          if \<not> co_open env tid then (CheckFails (FT StorageUnavailable), s)
          else
            let s1 = cancel_signal tid s
            in case co_hash env tid of
                 BodyDone \<Rightarrow> if digest_ok r b then check_contents env ts s1 else (CheckMismatch, s1)
               | BodyFailed \<Rightarrow> (CheckFails (FT StorageUnavailable), s1)
               | _ \<Rightarrow> (CheckFails FTContext, s1))"

text \<open>The renames, with those already made undone in reverse order when one fails.\<close>

definition undo_renames :: "complete_env \<Rightarrow> string list \<Rightarrow> transfer_service \<Rightarrow> transfer_service" where
  "undo_renames env renamed s =
     fold (\<lambda>tid s. if co_undo env tid then (case rename_file (Content tid) (Part tid) s of None \<Rightarrow> s | Some s' \<Rightarrow> s') else s) renamed s"

fun rename_contents ::
    "complete_env \<Rightarrow> string list \<Rightarrow> (string \<times> transfer_row) list \<Rightarrow> transfer_service \<Rightarrow> bool \<times> transfer_service" where
  "rename_contents env renamed [] s = (True, s)"
| "rename_contents env renamed ((tid, r) # ts) s =
     (if map_of (fs_files s) (Content tid) \<noteq> None then rename_contents env renamed ts s
      else case (if co_rename env tid then rename_file (Part tid) (Content tid) s else None) of
        None \<Rightarrow> (False, undo_renames env renamed s)
      | Some s' \<Rightarrow> rename_contents env (tid # renamed) ts s')"

text \<open>The part of \<open>Complete\<close> once every content was checked.\<close>

definition publish_batch ::
    "complete_env \<Rightarrow> string \<Rightarrow> string \<Rightarrow> (string \<times> transfer_row) list \<Rightarrow> transfer_service \<Rightarrow> (ft_error + transfer_row) \<times> transfer_service" where
  "publish_batch env tid batch ts s =
     (case rename_contents env [] ts s of
        (False, s1) \<Rightarrow> (Inl (FT StorageUnavailable), s1)
      | (True, s1) \<Rightarrow>
          if \<not> co_sync env then (Inl (FT StorageUnavailable), s1)
          else case ft_store_call (co_commit env) (complete_file_transfer_batch batch) s1 of
            (Inl _, s2) \<Rightarrow> (Inl (FT StorageUnavailable), s2)
          | (Inr _, s2) \<Rightarrow>
              let s3 = fold (\<lambda>t s. if ft_direction (snd t) = ''pb_to_pbh'' then drop_signal (fst t) s else s) ts s2
              in (case ft_store_read (co_final env) (file_transfer tid) s3 of Inl e \<Rightarrow> Inl (FTStore e) | Inr r \<Rightarrow> Inr r, s3))"

definition complete_batch :: "complete_env \<Rightarrow> string \<Rightarrow> transfer_service \<Rightarrow> (ft_error + transfer_row) \<times> transfer_service" where
  "complete_batch env tid s =
     (case ft_store_read (co_read env) (file_transfer tid) s of
        Inl _ \<Rightarrow> (Inl (FT InvalidPath), s)
      | Inr r \<Rightarrow>
          (case ft_store_read (co_batch env) (file_transfers_by_batch (ft_batch r)) s of
             Inl _ \<Rightarrow> (Inl (FT InvalidPath), s)
           | Inr ts \<Rightarrow>
               if list_all (\<lambda>t. finished_state (ft_state (snd t))) ts
               then (case ft_store_read (co_final env) (file_transfer tid) s of Inl e \<Rightarrow> Inl (FTStore e) | Inr r \<Rightarrow> Inr r, s)
               else case check_contents env ts s of
                 (CheckFails e, s1) \<Rightarrow> (Inl e, s1)
               | (CheckMismatch, s1) \<Rightarrow> (Inl (FT DigestMismatch), snd (cancel_batch_locked (co_cancel env) ts s1))
               | (CheckOk, s1) \<Rightarrow> publish_batch env tid (ft_batch r) ts s1))"

subsection \<open>Handing out, receipts and expiry\<close>

definition open_content :: "fault \<Rightarrow> bool \<Rightarrow> string \<Rightarrow> transfer_service \<Rightarrow> ft_error + bytes \<times> transfer_row" where
  "open_content flt ok tid s =
     (case ft_store_read flt (file_transfer tid) s of
        Inl _ \<Rightarrow> Inl (FT InvalidPath)
      | Inr r \<Rightarrow>
          if \<not> finished_state (ft_state r) then Inl (FT InvalidPath)
          else case (if ok then map_of (fs_files s) (Content tid) else None) of
            None \<Rightarrow> Inl (FT StorageUnavailable)
          | Some b \<Rightarrow> Inr (b, r))"

text \<open>
  \<open>PublishedPath\<close>: the hard link is made unless it exists; \<open>same\<close> is the answer of the
  checks that the link is a regular file and the same as the content.
\<close>

definition published_path :: "fault \<Rightarrow> bool \<Rightarrow> bool \<Rightarrow> bool \<Rightarrow> string \<Rightarrow> transfer_service \<Rightarrow> (ft_error + ft_path) \<times> transfer_service" where
  "published_path flt link_ok same sync tid s =
     (case ft_store_read flt (file_transfer tid) s of
        Inl _ \<Rightarrow> (Inl (FT InvalidPath), s)
      | Inr r \<Rightarrow>
          if ft_direction r \<noteq> ''pb_to_pbh'' \<or> ft_state r \<noteq> ''published'' then (Inl (FT InvalidPath), s)
          else
            let p = link_path tid r
            in case map_of (fs_files s) (Content tid) of
                 None \<Rightarrow> (Inl (FT StorageUnavailable), s)
               | Some b \<Rightarrow>
                   if map_of (fs_files s) p = None \<and> \<not> link_ok then (Inl (FT StorageUnavailable), s)
                   else
                     let s1 = (if map_of (fs_files s) p = None then put_file p b s else s)
                     in if \<not> same \<or> map_of (fs_files s1) p \<noteq> Some b then (Inl (FT StorageUnavailable), s1)
                        else if \<not> sync then (Inl (FT StorageUnavailable), s1)
                        else (Inr p, s1))"

definition receipt_transfer ::
    "fault \<Rightarrow> bool \<Rightarrow> bool \<Rightarrow> string \<Rightarrow> string \<Rightarrow> string \<Rightarrow> string \<Rightarrow> transfer_service \<Rightarrow> ft_error option \<times> transfer_service" where
  "receipt_transfer flt remove sync tid client code path s =
     (case ft_store_call flt (receipt_file_transfer tid client code path) s of
        (Inl e, s1) \<Rightarrow> (Some (FTStore e), s1)
      | (Inr _, s1) \<Rightarrow>
          if \<not> remove \<and> map_of (fs_files s1) (Content tid) \<noteq> None then (Some (FT StorageUnavailable), s1)
          else
            let s2 = drop_signal tid (if remove then remove_file (Content tid) s1 else s1)
            in (if sync then None else Some (FT StorageUnavailable), s2))"

definition cleanup_expired ::
    "int \<Rightarrow> fault \<Rightarrow> (ft_path \<Rightarrow> bool) \<Rightarrow> fault \<Rightarrow> transfer_service \<Rightarrow> ft_error option \<times> transfer_service" where
  "cleanup_expired now flt ok flt' s =
     (case ft_store_read flt (\<lambda>st. Inr (expired_file_transfers now st)) s of
        Inl e \<Rightarrow> (Some (FTStore e), s)
      | Inr ts \<Rightarrow>
          (case ft_store_call flt' (expire_file_transfers ts) (snd (remove_transfers ok ts s)) of
             (Inl e, s2) \<Rightarrow> (Some (FTStore e), s2)
           | (Inr _, s2) \<Rightarrow> (None, s2)))"

definition pending_transfers :: "fault \<Rightarrow> string \<Rightarrow> string \<Rightarrow> int \<Rightarrow> int \<Rightarrow> transfer_service \<Rightarrow> store_error + (string \<times> transfer_row) list" where
  "pending_transfers flt client session now limit s = ft_store_read flt (pending_file_transfers client session now limit) s"

text \<open>\<open>New\<close>, on the store and the files that are there; \<open>mkdir\<close> and \<open>chmod\<close> say whether the directory can be prepared.\<close>

definition new_service ::
    "transfer_policy option \<Rightarrow> string \<Rightarrow> store option \<Rightarrow> bool \<Rightarrow> bool \<Rightarrow> (ft_path \<times> bytes) list \<Rightarrow> ft_error + transfer_service" where
  "new_service p root st mkdir chmod files =
     (let pol = (case p of None \<Rightarrow> new_policy_store default_policy | Some p \<Rightarrow> p)
      in case st of
           None \<Rightarrow> Inl (FT InvalidPath)
         | Some st \<Rightarrow>
             if take 1 root \<noteq> ''/'' then Inl (FT InvalidPath)
             else if \<not> mkdir then Inl (FT StorageUnavailable)
             else if \<not> chmod then Inl (FT StorageUnavailable)
             else Inr \<lparr>fs_policy = pol, fs_store = st, fs_files = files, fs_active = 0, fs_cancels = []\<rparr>)"

end
