(* ===== verification/Transfer_Safety.thy ===== *)
theory Transfer_Safety
  imports File_Transfer
begin

section \<open>What the file transfer service guarantees\<close>

text \<open>
  The service as a machine: its operations one after the other, crashes in between.  The
  abstract service is a log of bytes per transfer; an accepted upload appends to it at its
  end.  The relation \<open>ft_rel\<close> between both says that every file of the spool directory
  belongs to a row, that a partial file begins with the log, and that a content or published
  file is the log and has the declared length and digest.  The interpretation \<open>uploads\<close> of
  \<open>refinement\<close> carries it over every run.
\<close>

subsection \<open>The machine\<close>

fun path_id :: "ft_path \<Rightarrow> string" where
  "path_id (Part t) = t"
| "path_id (Content t) = t"
| "path_id (Link t n) = t"

text \<open>
  The directory after a power loss.  A file keeps what was synced: of a partial file the first
  bytes up to the committed offset, of the others everything.  The rename of a transfer whose
  completion is not in the store may be lost; a transfer keeps one of the two files.
\<close>

definition crash_file_ok :: "transfer_service \<Rightarrow> ft_path \<times> bytes \<Rightarrow> bool" where
  "crash_file_ok s f \<longleftrightarrow>
     (case f of
        (Part t, b') \<Rightarrow>
          (case (content_of t s, map_of (st_transfers (fs_store s)) t) of
             (Some b, Some r) \<Rightarrow>
               nat (ft_offset r) \<le> length b' \<and> take (nat (ft_offset r)) b' = take (nat (ft_offset r)) b
             | _ \<Rightarrow> False)
      | (p, b') \<Rightarrow> map_of (fs_files s) p = Some b')"

definition crash_ok :: "transfer_service \<Rightarrow> (ft_path \<times> bytes) list \<Rightarrow> bool" where
  "crash_ok s files \<longleftrightarrow>
     list_all (crash_file_ok s) files \<and>
     list_all (\<lambda>(p, b). Part (path_id p) \<notin> fst ` set files \<or> Content (path_id p) \<notin> fst ` set files) files \<and>
     list_all (\<lambda>(t, r). content_of t s \<noteq> None \<longrightarrow>
       (if open_state (ft_state r) then Part t \<in> fst ` set files \<or> Content t \<in> fst ` set files
        else Content t \<in> fst ` set (fs_files s) \<longrightarrow> Content t \<in> fst ` set files)) (st_transfers (fs_store s))"

datatype ft_op =
    CreateBatch ft_create_env ft_request
  | Append append_env string int
  | Complete complete_env string
  | Cancel fault fault cancel_env string
  | CancelOne fault cancel_env string
  | Receipt fault bool bool string string string string
  | PublishedPath fault bool bool bool string
  | Cleanup int fault "ft_path \<Rightarrow> bool" fault
  | UpdatePolicy transfer_policy
  | Crash transfer_policy "(ft_path \<times> bytes) list"

fun ft_step :: "transfer_service \<Rightarrow> ft_op \<Rightarrow> transfer_service" where
  "ft_step s (CreateBatch env req) = snd (create_batch env req s)"
| "ft_step s (Append env tid offset) = snd (append_transfer env tid offset s)"
| "ft_step s (Complete env tid) = snd (complete_batch env tid s)"
| "ft_step s (Cancel f f' env tid) = snd (cancel_transfer f f' env tid s)"
| "ft_step s (CancelOne f env tid) = snd (cancel_locked f env tid s)"
| "ft_step s (Receipt f remove sync tid client code path) = snd (receipt_transfer f remove sync tid client code path s)"
| "ft_step s (PublishedPath f link same sync tid) = snd (published_path f link same sync tid s)"
| "ft_step s (Cleanup now f ok f') = snd (cleanup_expired now f ok f' s)"
| "ft_step s (UpdatePolicy p) = snd (update_policy p s)"
| "ft_step s (Crash p files) =
     (if crash_ok s files
      then (case new_service (Some (new_policy_store p)) ''/'' (Some (fs_store s)) True True files of Inl _ \<Rightarrow> s | Inr s' \<Rightarrow> s')
      else s)"

text \<open>The bytes of the request an upload committed, with their offset.\<close>

definition committed :: "transfer_service \<Rightarrow> string \<Rightarrow> int" where
  "committed s tid = (case map_of (st_transfers (fs_store s)) tid of None \<Rightarrow> 0 | Some r \<Rightarrow> ft_offset r)"

fun ft_emit :: "transfer_service \<Rightarrow> ft_op \<Rightarrow> (string \<times> int \<times> bytes) list" where
  "ft_emit s (Append env tid offset) =
     (let n = committed (ft_step s (Append env tid offset)) tid - committed s tid
      in if n = 0 then [] else [(tid, offset, take (nat n) (ae_body env))])"
| "ft_emit s _ = []"

subsection \<open>The log of bytes\<close>

fun log_accepts :: "(string \<Rightarrow> bytes) \<Rightarrow> string \<times> int \<times> bytes \<Rightarrow> (string \<Rightarrow> bytes) option" where
  "log_accepts a (tid, offset, data) =
     (if int (length (a tid)) = offset \<and> data \<noteq> [] then Some (a(tid := a tid @ data)) else None)"

definition file_ok :: "transfer_row gomap \<Rightarrow> (string \<Rightarrow> bytes) \<Rightarrow> ft_path \<Rightarrow> bytes \<Rightarrow> bool" where
  "file_ok rows a p b \<longleftrightarrow>
     (\<exists>r. map_of rows (path_id p) = Some r \<and>
       (case p of Part t \<Rightarrow> take (length (a t)) b = a t | _ \<Rightarrow> b = a (path_id p) \<and> digest_ok r b))"

definition ft_rel :: "transfer_service \<Rightarrow> (string \<Rightarrow> bytes) \<Rightarrow> bool" where
  "ft_rel s a \<longleftrightarrow>
     transfers_wf (fs_store s) \<and> (\<forall>t. int (length (a t)) = committed s t) \<and>
     (\<forall>p b. map_of (fs_files s) p = Some b \<longrightarrow> file_ok (st_transfers (fs_store s)) a p b) \<and>
     (\<forall>t. map_of (fs_files s) (Part t) = None \<or> map_of (fs_files s) (Content t) = None)"

subsection \<open>Changes that only lose files\<close>

definition offsets :: "transfer_row gomap \<Rightarrow> int gomap" where
  "offsets m = map (\<lambda>(k, r). (k, ft_offset r)) m"

definition shrinks :: "transfer_service \<Rightarrow> transfer_service \<Rightarrow> bool" where
  "shrinks s s' \<longleftrightarrow>
     (transfers_wf (fs_store s) \<longrightarrow>
       moves (st_transfers (fs_store s)) (st_transfers (fs_store s')) \<and>
       offsets (st_transfers (fs_store s')) = offsets (st_transfers (fs_store s))) \<and>
     map_of (fs_files s') \<subseteq>\<^sub>m map_of (fs_files s)"

lemma shrinks_refl: "shrinks s s"
  by (simp add: shrinks_def)

lemma shrinks_trans: "shrinks a b \<Longrightarrow> shrinks b c \<Longrightarrow> shrinks a c"
  by (auto simp: shrinks_def intro: moves_trans map_le_trans dest: moves_wf)

lemma shrinks_same: "fs_store s' = fs_store s \<Longrightarrow> fs_files s' = fs_files s \<Longrightarrow> shrinks s s'"
  by (simp add: shrinks_def)

lemma map_of_offsets: "map_of (offsets m) k = map_option ft_offset (map_of m k)"
  by (induction m) (auto simp: offsets_def)

lemma committed_offsets: "committed s t = (case map_of (offsets (st_transfers (fs_store s))) t of None \<Rightarrow> 0 | Some n \<Rightarrow> n)"
  by (cases "map_of (st_transfers (fs_store s)) t") (simp_all add: committed_def map_of_offsets)

lemma file_ok_moves:
  assumes "file_ok m a p b" "moves m m'"
  shows "file_ok m' a p b"
proof -
  obtain r where r: "map_of m (path_id p) = Some r"
    "case p of Part t \<Rightarrow> take (length (a t)) b = a t | _ \<Rightarrow> b = a (path_id p) \<and> digest_ok r b"
    using assms(1) by (auto simp: file_ok_def)
  obtain r' where r': "map_of m' (path_id p) = Some r'" "forward r r'" using moves_map_of(2) [OF assms(2) r(1)] by blast
  then have "digest_ok r' b = digest_ok r b" by (simp add: digest_ok_def forward_def same_transfer_def)
  then show ?thesis using r r' unfolding file_ok_def by (cases p) auto
qed

lemma shrinks_rel:
  assumes "ft_rel s a" "shrinks s s'"
  shows "ft_rel s' a"
proof -
  have wf: "transfers_wf (fs_store s)" using assms(1) by (simp add: ft_rel_def)
  then have m: "moves (st_transfers (fs_store s)) (st_transfers (fs_store s'))"
    and off: "offsets (st_transfers (fs_store s')) = offsets (st_transfers (fs_store s))"
    and f: "map_of (fs_files s') \<subseteq>\<^sub>m map_of (fs_files s)"
    using assms(2) by (simp_all add: shrinks_def)
  have sub: "map_of (fs_files s) p = Some b" if "map_of (fs_files s') p = Some b" for p b
    using f that by (metis domI map_le_def)
  have "\<forall>t. map_of (fs_files s') (Part t) = None \<or> map_of (fs_files s') (Content t) = None"
  proof
    fix t
    have "map_of (fs_files s) (Part t) = None \<or> map_of (fs_files s) (Content t) = None"
      using assms(1) by (simp add: ft_rel_def)
    then show "map_of (fs_files s') (Part t) = None \<or> map_of (fs_files s') (Content t) = None"
      using sub by (metis not_None_eq)
  qed
  moreover have "\<forall>p b. map_of (fs_files s') p = Some b \<longrightarrow> file_ok (st_transfers (fs_store s')) a p b"
    using assms(1) sub by (auto simp: ft_rel_def intro: file_ok_moves [OF _ m])
  moreover have "committed s' t = committed s t" for t by (simp add: committed_offsets off)
  ultimately show ?thesis using assms(1) moves_wf [OF m wf] by (simp add: ft_rel_def)
qed

subsection \<open>Cancelling, receipts and expiry only lose files\<close>

lemma files_put: "map_of (fs_files (put_file p b s)) q = (if q = p then Some b else map_of (fs_files s) q)"
  by (simp add: put_file_def update_conv')

lemma files_remove: "map_of (fs_files (remove_file p s)) q = (if q = p then None else map_of (fs_files s) q)"
  by (simp add: remove_file_def delete_conv')

lemma store_files [simp]:
  "fs_store (put_file p b s) = fs_store s" "fs_store (remove_file p s) = fs_store s"
  by (simp_all add: put_file_def remove_file_def)

lemma signals_keep [simp]:
  "fs_store (cancel_signal t s) = fs_store s" "fs_files (cancel_signal t s) = fs_files s"
  "fs_store (signal_cancel t s) = fs_store s" "fs_files (signal_cancel t s) = fs_files s"
  "fs_store (drop_signal t s) = fs_store s" "fs_files (drop_signal t s) = fs_files s"
  "fs_store (release s) = fs_store s" "fs_files (release s) = fs_files s"
  by (simp_all add: cancel_signal_def signal_cancel_def drop_signal_def release_def)

lemma shrinks_remove: "shrinks s (remove_file p s)"
  by (auto simp: shrinks_def map_le_def files_remove split: if_splits)

lemma shrinks_fold: "(\<And>x s. shrinks s (f x s)) \<Longrightarrow> shrinks s (fold f xs s)"
  by (induction xs arbitrary: s) (auto intro: shrinks_refl shrinks_trans)

lemma shrinks_remove_paths: "shrinks s (snd (remove_paths ok ps s))"
proof (induction ps arbitrary: s)
  case (Cons p ps)
  have "shrinks s (if ok p then remove_file p s else s)" by (simp add: shrinks_remove shrinks_refl)
  from shrinks_trans [OF this Cons.IH] show ?case by (simp add: Let_def case_prod_beta)
qed (simp add: shrinks_refl)

lemma shrinks_remove_transfers: "shrinks s (snd (remove_transfers ok ts s))"
proof (induction ts arbitrary: s)
  case (Cons t ts)
  have "shrinks (snd (remove_paths ok (transfer_paths t) s)) (drop_signal (fst t) (snd (remove_paths ok (transfer_paths t) s)))"
    by (rule shrinks_same) simp_all
  from shrinks_trans [OF shrinks_trans [OF shrinks_remove_paths this] Cons.IH]
  show ?case by (simp add: Let_def case_prod_beta)
qed (simp add: shrinks_refl)

lemma shrinks_remove_until: "shrinks s (snd (remove_until ok ps s))"
proof (induction ps arbitrary: s)
  case (Cons p ps)
  have "shrinks s (if ok p then remove_file p s else s)" by (simp add: shrinks_remove shrinks_refl)
  from shrinks_trans [OF this Cons.IH] show ?case by (simp add: shrinks_refl)
qed (simp add: shrinks_refl)

text \<open>An operation of the store that moves rows forward and keeps their offsets.\<close>

definition steady :: "(store \<Rightarrow> (store_error + 'a) \<times> store) \<Rightarrow> bool" where
  "steady op \<longleftrightarrow>
     (\<forall>st. transfers_wf st \<longrightarrow>
       moves (st_transfers st) (st_transfers (snd (op st))) \<and> offsets (st_transfers (snd (op st))) = offsets (st_transfers st))"

lemma shrinks_store_call:
  assumes "steady op"
  shows "shrinks s (snd (ft_store_call flt op s))"
  using assms by (cases flt) (auto simp: ft_store_call_def with_fault_def shrinks_def steady_def case_prod_beta)

lemma offsets_update: "map_of m k = Some r \<Longrightarrow> ft_offset r' = ft_offset r \<Longrightarrow> offsets (AList.update k r' m) = offsets m"
  by (induction m) (auto simp: offsets_def split: if_splits)

lemma offsets_map: "(\<And>r. ft_offset (f r) = ft_offset r) \<Longrightarrow> offsets (map (\<lambda>(k, r). (k, if P r then f r else r)) m) = offsets m"
  by (induction m) (auto simp: offsets_def)

lemmas row_offsets = canceled_row_def finished_row_def Let_def

lemma steady_complete: "steady (complete_file_transfer_batch batch)"
  by (auto simp: steady_def complete_moves)
    (simp add: complete_file_transfer_batch_def Let_def update_rows_def finished_row_def offsets_map)

lemma steady_cancel: "steady (cancel_file_transfer_batch batch)" "steady (cancel_file_transfer tid)"
  by (auto simp: steady_def cancel_moves)
    (simp_all add: cancel_file_transfer_batch_def cancel_file_transfer_def Let_def update_rows_def canceled_row_def offsets_map
      set_transfer_def offsets_update split: option.split)

lemma steady_receipt: "steady (receipt_file_transfer tid client code path)"
  by (auto simp: steady_def receipt_moves)
    (simp add: receipt_file_transfer_def set_transfer_def offsets_update split: option.split)

lemma expire_offsets: "offsets (st_transfers (snd (expire_file_transfers ts st))) = offsets (st_transfers st)"
proof (induction ts arbitrary: st)
  case (Cons t ts)
  obtain tid seen where t: "t = (tid, seen)" by fastforce
  show ?case unfolding t
    by (simp add: Cons.IH set_transfer_def expired_row_def canceled_row_def offsets_update split: option.split)
qed simp

lemma steady_expire: "steady (expire_file_transfers ts)"
  by (simp add: steady_def expire_moves expire_offsets)

lemma shrinks_cancel_batch: "shrinks s (snd (cancel_batch_locked env ts s))"
proof -
  let ?s1 = "fold (\<lambda>t. signal_cancel (fst t)) ts s"
  let ?c = "case ts of [] \<Rightarrow> (Inr (), ?s1) | t # _ \<Rightarrow> ft_store_call (ce_db env) (cancel_file_transfer_batch (ft_batch (snd t))) ?s1"
  have "shrinks s ?s1" by (rule shrinks_fold) (rule shrinks_same, simp_all)
  moreover have "shrinks ?s1 (snd ?c)" by (cases ts) (simp_all add: shrinks_refl shrinks_store_call steady_cancel)
  ultimately have "shrinks s (snd (remove_transfers (ce_remove env) ts (snd ?c)))"
    by (blast intro: shrinks_trans shrinks_remove_transfers)
  then show ?thesis by (simp add: cancel_batch_locked_def Let_def case_prod_beta)
qed

lemma shrinks_cancel: "shrinks s (snd (cancel_transfer f f' env tid s))"
  by (auto simp: cancel_transfer_def shrinks_refl shrinks_cancel_batch split: sum.split)

lemma shrinks_cancel_locked: "shrinks s (snd (cancel_locked f env tid s))"
proof -
  have c: "shrinks s s1" if "ft_store_call (ce_db env) (cancel_file_transfer tid) s = (x, s1)" for x s1
    using shrinks_store_call [OF steady_cancel(2), of s "ce_db env" tid] that by simp
  have "shrinks s s2" if "ft_store_call (ce_db env) (cancel_file_transfer tid) s = (x, s1)"
    "remove_until (ce_remove env) ps s1 = (y, s2)" for x s1 y s2 ps
    using shrinks_trans [OF c [OF that(1)] shrinks_remove_until, of "ce_remove env" ps] that(2) by simp
  with c show ?thesis
    by (auto simp: cancel_locked_def shrinks_refl split: sum.split prod.split option.split)
qed

lemma shrinks_receipt: "shrinks s (snd (receipt_transfer f remove sync tid client code path s))"
proof -
  have c: "shrinks s s1" if "ft_store_call f (receipt_file_transfer tid client code path) s = (x, s1)" for x s1
    using shrinks_store_call [OF steady_receipt, of s f tid client code path] that by simp
  have d: "shrinks s1 (drop_signal tid s1)" for s1 by (rule shrinks_same) simp_all
  have e: "shrinks s1 (drop_signal tid (remove_file (Content tid) s1))" for s1
    by (rule shrinks_trans [OF shrinks_remove d])
  show ?thesis
    by (auto simp: receipt_transfer_def Let_def split: sum.split prod.split intro: c shrinks_trans [OF c d] shrinks_trans [OF c e])
qed

lemma shrinks_cleanup: "shrinks s (snd (cleanup_expired now f ok f' s))"
proof -
  have "shrinks s s2" if "ft_store_call f' (expire_file_transfers ts) (snd (remove_transfers ok ts s)) = (x, s2)" for ts x s2
    using shrinks_trans [OF shrinks_remove_transfers shrinks_store_call [OF steady_expire]] that by (metis snd_conv)
  then show ?thesis by (auto simp: cleanup_expired_def shrinks_refl split: sum.split prod.split)
qed

subsection \<open>Uploads extend the log\<close>

lemma rel_length: "ft_rel s a \<Longrightarrow> map_of (st_transfers (fs_store s)) t = Some r \<Longrightarrow> int (length (a t)) = ft_offset r"
  by (auto simp: ft_rel_def committed_def)

lemma rel_file: "ft_rel s a \<Longrightarrow> map_of (fs_files s) p = Some b \<Longrightarrow> file_ok (st_transfers (fs_store s)) a p b"
  by (simp add: ft_rel_def)

lemma put_part_rel:
  assumes "ft_rel s a" "map_of (st_transfers (fs_store s)) t = Some r" "take (length (a t)) b = a t"
    "map_of (fs_files s) (Content t) = None"
  shows "ft_rel (put_file (Part t) b s) a"
  using assms by (auto simp: ft_rel_def committed_def files_put file_ok_def)

lemma shrinks_keeps_rel: "ft_rel s a \<Longrightarrow> fs_store s' = fs_store s \<Longrightarrow> fs_files s' = fs_files s \<Longrightarrow> ft_rel s' a"
  by (rule shrinks_rel [OF _ shrinks_same])

lemma commit_rel:
  assumes rel: "ft_rel s a" and row: "map_of (st_transfers (fs_store s)) t = Some r"
    and part: "map_of (fs_files s) (Part t) = Some (a t @ data)" and size: "ft_offset r + int (length data) \<le> ft_size r"
    and st: "st_transfers (fs_store s') = AList.update t (r\<lparr>ft_offset := ft_offset r + int (length data), ft_state := x\<rparr>) (st_transfers (fs_store s))"
    and fs: "fs_files s' = fs_files s" and wf: "transfers_wf (fs_store s')"
  shows "ft_rel s' (a(t := a t @ data))"
proof -
  let ?r = "r\<lparr>ft_offset := ft_offset r + int (length data), ft_state := x\<rparr>"
  let ?a = "a(t := a t @ data)"
  have rows: "map_of (st_transfers (fs_store s')) u = (if u = t then Some ?r else map_of (st_transfers (fs_store s)) u)" for u
    by (simp add: st update_conv')
  have "int (length (?a u)) = committed s' u" for u
    using rel row rel_length [OF rel row] by (auto simp: ft_rel_def committed_def rows)
  moreover have "file_ok (st_transfers (fs_store s')) ?a p b" if f: "map_of (fs_files s) p = Some b" for p b
  proof (cases "path_id p = t \<and> (\<forall>u. p \<noteq> Part u)")
    case False
    then show ?thesis using rel_file [OF rel f] part f by (cases p) (auto simp: file_ok_def rows)
  next
    case True
    then have b: "b = a t" "digest_ok r b" using rel_file [OF rel f] row by (auto simp: file_ok_def split: ft_path.splits)
    then have "data = []" using size rel_length [OF rel row] by (simp add: digest_ok_def)
    then show ?thesis using True b by (cases p) (auto simp: file_ok_def rows digest_ok_def)
  qed
  ultimately show ?thesis using rel wf by (simp add: ft_rel_def fs)
qed

lemma commit_Inr_or_same:
  assumes "commit_file_transfer_offset t off n st = (x, st')" "map_of (st_transfers st) t = Some r"
  shows "st' = st \<and> x = Inl StoreConflict \<or>
    x = Inr () \<and> off = ft_offset r \<and> n \<le> ft_size r \<and> open_state (ft_state r) \<and> st' = set_transfer t (r\<lparr>ft_offset := n, ft_state := ''uploading''\<rparr>) st"
  using assms by (auto simp: commit_file_transfer_offset_def split: if_splits)

lemma commit_call_cases:
  assumes "ft_store_call flt (commit_file_transfer_offset t off n) s = (x, s')" "map_of (st_transfers (fs_store s)) t = Some r"
  shows "s' = s \<or> off = ft_offset r \<and> n \<le> ft_size r \<and> fs_files s' = fs_files s \<and>
    fs_store s' = set_transfer t (r\<lparr>ft_offset := n, ft_state := ''uploading''\<rparr>) (fs_store s)"
proof -
  obtain y st' where c: "commit_file_transfer_offset t off n (fs_store s) = (y, st')" by fastforce
  from commit_Inr_or_same [OF c assms(2)] assms(1) c show ?thesis
    by (cases flt) (auto simp: ft_store_call_def with_fault_def)
qed

lemma store_call_moves:
  assumes "\<And>st. moves (st_transfers st) (st_transfers (snd (op st)))"
  shows "moves (st_transfers (fs_store s)) (st_transfers (fs_store (snd (ft_store_call flt op s))))"
  using assms by (cases flt) (simp_all add: ft_store_call_def with_fault_def case_prod_beta)

lemma upload_commit:
  assumes rel: "ft_rel s a" and row: "map_of (st_transfers (fs_store s)) t = Some r"
    and part: "map_of (fs_files s) (Part t) = Some (a t @ data)"
    and call: "ft_store_call flt (commit_file_transfer_offset t (ft_offset r) (ft_offset r + int (length data))) s = (x, s')"
  shows "committed s' t = committed s t \<and> ft_rel s' a \<or>
    committed s' t = committed s t + int (length data) \<and> ft_rel s' (a(t := a t @ data))"
proof (cases "s' = s")
  case False
  let ?r = "r\<lparr>ft_offset := ft_offset r + int (length data), ft_state := ''uploading''\<rparr>"
  from commit_call_cases [OF call row] False
  have c: "ft_offset r + int (length data) \<le> ft_size r" "fs_files s' = fs_files s" "fs_store s' = set_transfer t ?r (fs_store s)"
    by auto
  have "moves (st_transfers (fs_store s)) (st_transfers (fs_store s'))"
  proof -
    have "moves (st_transfers (fs_store s)) (st_transfers (fs_store (snd (x, s'))))"
      unfolding call [symmetric] by (rule store_call_moves) (rule commit_moves)
    then show ?thesis by simp
  qed
  then have wf: "transfers_wf (fs_store s')" using rel moves_wf by (auto simp: ft_rel_def)
  have st: "st_transfers (fs_store s') = AList.update t ?r (st_transfers (fs_store s))" using c(3) by (simp add: set_transfer_def)
  have "committed s' t = committed s t + int (length data)" using row by (simp add: committed_def st update_conv')
  then show ?thesis using commit_rel [OF rel row part c(1) st c(2) wf] by simp
qed (use rel in simp)

definition upload_data :: "append_env \<Rightarrow> transfer_row \<Rightarrow> bytes" where
  "upload_data env r = take (nat (ft_size r - ft_offset r + 1)) (ae_body env)"

lemma append_body_cases:
  assumes "map_of (fs_files s) (Part t) = Some b"
    and "s1 = put_file (Part t) (truncate_file (nat (ft_offset r)) b) s"
    and "s2 = put_file (Part t) (truncate_file (nat (ft_offset r)) b @ upload_data env r) (cancel_signal t s1)"
  shows "snd (append_body env t r (ft_offset r) s) \<in>
    {s, s1, s2, put_file (Part t) (truncate_file (nat (ft_offset r)) b) s2,
     snd (ft_store_call (ae_commit env) (commit_file_transfer_offset t (ft_offset r) (ft_offset r + int (length (upload_data env r)))) s2)}"
proof -
  let ?c = "ft_store_call (ae_commit env) (commit_file_transfer_offset t (ft_offset r) (ft_offset r + int (length (upload_data env r)))) s2"
  have c: "snd (case ?c of (Inl _, s3) \<Rightarrow> (Inl (FT OffsetConflict), s3) | (Inr _, s3) \<Rightarrow> (y, s3)) = snd ?c" for y
    by (simp split: prod.split sum.split)
  show ?thesis
    unfolding append_body_def Let_def assms(1) option.case upload_data_def [symmetric] assms(2) [symmetric] assms(3) [symmetric]
    by (simp only: if_distrib [of snd] snd_conv insert_iff if_split c) simp
qed

lemma append_body_rel:
  assumes rel: "ft_rel s a" and row: "map_of (st_transfers (fs_store s)) t = Some r"
  shows "(let s' = snd (append_body env t r (ft_offset r) s) in
    committed s' t = committed s t \<and> ft_rel s' a \<or>
    committed s' t = committed s t + int (length (upload_data env r)) \<and> ft_rel s' (a(t := a t @ upload_data env r)))"
proof (cases "map_of (fs_files s) (Part t)")
  case (Some b)
  let ?d = "upload_data env r"
  let ?s1 = "put_file (Part t) (a t) s"
  let ?s2 = "put_file (Part t) (a t @ ?d) (cancel_signal t ?s1)"
  let ?s3 = "put_file (Part t) (a t) ?s2"
  have pre: "take (length (a t)) b = a t" using rel_file [OF rel Some] by (simp add: file_ok_def)
  have off: "nat (ft_offset r) = length (a t)" using rel_length [OF rel row] by simp
  have base: "truncate_file (nat (ft_offset r)) b = a t"
  proof -
    have "length (a t) \<le> length b" by (metis length_take min.cobounded1 pre)
    then show ?thesis using pre by (simp add: truncate_file_def off)
  qed
  have cont: "map_of (fs_files s) (Content t) = None" using rel Some by (metis ft_rel_def option.distinct(1))
  have r1: "ft_rel ?s1 a" by (rule put_part_rel [OF rel row]) (simp_all add: cont)
  have r2: "ft_rel ?s2 a"
    by (rule put_part_rel [OF shrinks_keeps_rel [OF r1]]) (simp_all add: row cont files_put)
  have r3: "ft_rel ?s3 a" by (rule put_part_rel [OF r2]) (simp_all add: row cont files_put)
  have com: "committed ?s1 t = committed s t" "committed ?s2 t = committed s t" "committed ?s3 t = committed s t"
    by (simp_all add: committed_def)
  have c: "committed s' t = committed s t \<and> ft_rel s' a \<or>
      committed s' t = committed s t + int (length ?d) \<and> ft_rel s' (a(t := a t @ ?d))"
    if "ft_store_call (ae_commit env) (commit_file_transfer_offset t (ft_offset r) (ft_offset r + int (length ?d))) ?s2 = (x, s')" for x s'
    using upload_commit [OF r2 _ _ that] row com by (simp add: files_put)
  let ?e = "snd (append_body env t r (ft_offset r) s)"
  consider "?e = snd (ft_store_call (ae_commit env) (commit_file_transfer_offset t (ft_offset r) (ft_offset r + int (length ?d))) ?s2)"
    | "?e \<in> {s, ?s1, ?s2, ?s3}"
    using append_body_cases [OF Some refl refl, of env r] unfolding base by blast
  then show ?thesis
  proof cases
    case 1
    show ?thesis unfolding 1 Let_def by (rule c [OF surjective_pairing])
  next
    case 2
    then have "committed ?e t = committed s t \<and> ft_rel ?e a"
      unfolding insert_iff empty_iff by (elim disjE) (simp_all only: rel r1 r2 r3 com simp_thms)
    then show ?thesis by (simp add: Let_def)
  qed
qed (use rel in \<open>simp add: append_body_def Let_def\<close>)

lemma append_unfold:
  obtains "fs_store (snd (append_transfer env t off s)) = fs_store s" "fs_files (snd (append_transfer env t off s)) = fs_files s"
  | s0 r where "fs_store s0 = fs_store s" "fs_files s0 = fs_files s" "map_of (st_transfers (fs_store s)) t = Some r" "off = ft_offset r"
      "snd (append_transfer env t off s) = release (snd (append_body env t r off s0))"
proof (cases "acquire (ae_slot env) s")
  case None
  then show ?thesis using that(1) by (simp add: append_transfer_def)
next
  case (Some s0)
  then have s0: "fs_store s0 = fs_store s" "fs_files s0 = fs_files s" by (auto simp: acquire_def split: if_splits)
  show ?thesis
  proof (cases "ft_store_read (ae_read env) (file_transfer t) s0")
    case (Inl e)
    then show ?thesis using Some s0 that(1) by (simp add: append_transfer_def)
  next
    case (Inr r)
    then have r: "map_of (st_transfers (fs_store s)) t = Some r"
      using s0 by (cases "ae_read env") (auto simp: ft_store_read_def with_fault_def file_transfer_def split: option.splits)
    show ?thesis
      using Some s0 Inr that(1) that(2) [OF s0 r] by (cases "ft_state r = ''canceled'' \<or> off \<noteq> ft_offset r")
        (auto simp: append_transfer_def split: prod.split)
  qed
qed

lemma append_sim:
  assumes rel: "ft_rel s a"
  shows "\<exists>a'. accepts log_accepts a (ft_emit s (Append env t off)) = Some a' \<and> ft_rel (ft_step s (Append env t off)) a'"
proof (cases rule: append_unfold [of env t off s])
  case 1
  then have "committed (ft_step s (Append env t off)) t = committed s t" by (simp add: committed_def)
  then show ?thesis using shrinks_keeps_rel [OF rel 1] by simp
next
  case (2 s0 r)
  let ?s' = "snd (append_body env t r off s0)"
  have rel0: "ft_rel s0 a" by (rule shrinks_keeps_rel [OF rel 2(1,2)])
  have fin: "ft_rel (ft_step s (Append env t off)) a'" if "ft_rel ?s' a'" for a'
    using shrinks_keeps_rel [OF that, of "release ?s'"] 2(5) by simp
  have com: "committed (ft_step s (Append env t off)) t = committed ?s' t" "committed s0 t = committed s t"
    using 2(1,5) by (simp_all add: committed_def)
  have len: "int (length (a t)) = off" using rel_length [OF rel 2(3)] 2(4) by simp
  from append_body_rel [OF rel0, of t r env] 2(1,3,4)
  consider "committed ?s' t = committed s0 t" "ft_rel ?s' a"
    | "committed ?s' t = committed s0 t + int (length (upload_data env r))" "ft_rel ?s' (a(t := a t @ upload_data env r))"
    by (auto simp: Let_def)
  then show ?thesis
  proof cases
    case 1
    then show ?thesis using fin com by simp
  next
    case 2
    then have n: "committed (ft_step s (Append env t off)) t - committed s t = int (length (upload_data env r))"
      using com by simp
    show ?thesis
    proof (cases "upload_data env r = []")
      case True
      then show ?thesis using 2 n fin by simp
    next
      case False
      have "take (length (upload_data env r)) (ae_body env) = upload_data env r" by (simp add: upload_data_def min_def)
      then have "ft_emit s (Append env t off) = [(t, off, upload_data env r)]" using n False by (simp add: Let_def)
      then show ?thesis using fin [OF 2(2)] len False by simp
    qed
  qed
qed

subsection \<open>Creating a batch\<close>

lemma create_call_cases:
  assumes "ft_store_call flt (create_file_transfers_within_limits ts sp ac) s = (x, s')" "transfers_wf (fs_store s)"
  shows "s' = s \<and> x \<noteq> Inr () \<or> fs_files s' = fs_files s \<and> transfers_wf (fs_store s') \<and>
    st_transfers (fs_store s') = st_transfers (fs_store s) @ map (\<lambda>(k, t). (k, fresh_row t)) ts"
proof -
  obtain y st' where c: "create_file_transfers_within_limits ts sp ac (fs_store s) = (y, st')" by fastforce
  show ?thesis
  proof (cases y)
    case (Inl e)
    then have "st' = fs_store s" using c
      by (auto simp: create_file_transfers_within_limits_def Let_def split: if_splits sum.splits)
    then show ?thesis using assms(1) c Inl by (cases flt) (auto simp: ft_store_call_def with_fault_def)
  next
    case (Inr u)
    from create_within_limits(1,2) [OF c [unfolded Inr] assms(2)] show ?thesis
      using assms(1) c by (cases flt) (auto simp: ft_store_call_def with_fault_def)
  qed
qed

lemma new_rows_rel:
  assumes rel: "ft_rel s a" and fs: "fs_files s' = fs_files s" and wf: "transfers_wf (fs_store s')"
    and st: "st_transfers (fs_store s') = st_transfers (fs_store s) @ map (\<lambda>(k, t). (k, fresh_row t)) ts"
  shows "ft_rel s' a" "\<forall>(k, t) \<in> set ts. map_of (fs_files s') (Part k) = None \<and> map_of (fs_files s') (Content k) = None
    \<and> a k = [] \<and> map_of (st_transfers (fs_store s')) k \<noteq> None"
proof -
  let ?n = "map (\<lambda>(k, t). (k, fresh_row t)) ts"
  have new: "ft_offset r = 0" if "map_of ?n k = Some r" for k r
    using map_of_SomeD [OF that] by (auto simp: fresh_row_def)
  have rows: "map_of (st_transfers (fs_store s')) k =
      (case map_of (st_transfers (fs_store s)) k of None \<Rightarrow> map_of ?n k | Some r \<Rightarrow> Some r)" for k
    by (auto simp: st map_add_def split: option.split)
  have com: "committed s' k = committed s k" for k by (auto simp: committed_def rows new split: option.split)
  have "file_ok (st_transfers (fs_store s')) a p b" if "file_ok (st_transfers (fs_store s)) a p b" for p b
    using that by (auto simp: file_ok_def rows)
  then show r': "ft_rel s' a" using rel wf by (simp add: ft_rel_def fs com)
  have "map_of (st_transfers (fs_store s)) k = None \<and> map_of ?n k \<noteq> None" if "(k, t) \<in> set ts" for k t
  proof -
    have "k \<in> fst ` set ?n" using that by force
    moreover have "distinct (map fst (st_transfers (fs_store s)) @ map fst ?n)"
      using wf by (simp only: transfers_wf_def keys_distinct_def st map_append)
    then have "fst ` set (st_transfers (fs_store s)) \<inter> fst ` set ?n = {}" by (simp only: distinct_append set_map)
    ultimately show ?thesis by (simp only: map_of_eq_None_iff) blast
  qed
  then have fresh: "map_of (st_transfers (fs_store s)) k = None" "map_of (st_transfers (fs_store s')) k \<noteq> None" if "(k, t) \<in> set ts" for k t
    using that rows by force+
  have "map_of (fs_files s) p = None" if "map_of (st_transfers (fs_store s)) (path_id p) = None" for p
    using rel_file [OF rel, of p] that unfolding file_ok_def by (cases "map_of (fs_files s) p") force+
  moreover have "a k = []" if "map_of (st_transfers (fs_store s)) k = None" for k
  proof -
    have "int (length (a k)) = committed s k" using rel by (simp add: ft_rel_def)
    then show ?thesis using that by (simp add: committed_def)
  qed
  ultimately show "\<forall>(k, t) \<in> set ts. map_of (fs_files s') (Part k) = None \<and> map_of (fs_files s') (Content k) = None
    \<and> a k = [] \<and> map_of (st_transfers (fs_store s')) k \<noteq> None"
    using fresh by (auto simp: fs)
qed

lemma open_parts_rel:
  assumes "ft_rel s a" "\<forall>(k, t) \<in> set ts. map_of (fs_files s) (Content k) = None \<and> a k = [] \<and> map_of (st_transfers (fs_store s)) k \<noteq> None"
  shows "ft_rel (snd (open_parts env ts s)) a"
  using assms
proof (induction ts arbitrary: s)
  case (Cons p ts)
  obtain k t where p: "p = (k, t)" by fastforce
  let ?s1 = "cancel_signal k s"
  let ?s2 = "put_file (Part k) [] ?s1"
  have r1: "ft_rel ?s1 a" by (rule shrinks_keeps_rel [OF Cons.prems(1)]) simp_all
  obtain r where row: "map_of (st_transfers (fs_store s)) k = Some r" using Cons.prems(2) p by auto
  have r2: "ft_rel ?s2 a"
    by (rule put_part_rel [OF r1]) (use row Cons.prems(2) p in auto)
  moreover have "\<forall>(k, t) \<in> set ts. map_of (fs_files ?s2) (Content k) = None \<and> a k = [] \<and> map_of (st_transfers (fs_store ?s2)) k \<noteq> None"
    using Cons.prems(2) by (auto simp: files_put)
  ultimately have "ft_rel (snd (open_parts env ts ?s2)) a" by (rule Cons.IH)
  then show ?case using r1 r2 by (simp add: p Let_def)
qed simp

lemma create_rel:
  assumes rel: "ft_rel s a"
  shows "ft_rel (snd (create_batch env req s)) a"
proof (cases "check_files (fs_policy s) req (te_now env) 0 (te_random env) (rq_files req)")
  case (Inr ts)
  let ?p = "fs_policy s"
  obtain x s1 where c: "ft_store_call (te_insert env) (create_file_transfers_within_limits ts (tp_spool ?p) (tp_concurrent ?p)) s = (x, s1)"
    by fastforce
  have wf: "transfers_wf (fs_store s)" using rel by (simp add: ft_rel_def)
  have r1: "ft_rel s1 a" using create_call_cases [OF c wf] rel new_rows_rel(1) by blast
  have r2: "ft_rel (snd (open_parts env ts s1)) a" if "x = Inr ()"
  proof -
    have s1: "fs_files s1 = fs_files s" "transfers_wf (fs_store s1)"
      "st_transfers (fs_store s1) = st_transfers (fs_store s) @ map (\<lambda>(k, t). (k, fresh_row t)) ts"
      using create_call_cases [OF c wf] that by auto
    show ?thesis
    proof (rule open_parts_rel [OF r1])
      show "\<forall>(k, t) \<in> set ts. map_of (fs_files s1) (Content k) = None \<and> a k = [] \<and> map_of (st_transfers (fs_store s1)) k \<noteq> None"
        using new_rows_rel(2) [OF rel s1] by auto
    qed
  qed
  have r3: "ft_rel (snd (cancel_batch_locked (te_cancel env) ts (snd (open_parts env ts s1)))) a" if "x = Inr ()"
    by (rule shrinks_rel [OF r2 [OF that] shrinks_cancel_batch])
  show ?thesis
    using rel r1 r2 r3 by (auto simp: create_batch_def Let_def Inr c split: sum.split prod.split store_error.split)
qed (use rel in \<open>auto simp: create_batch_def Let_def\<close>)

subsection \<open>Completing a batch\<close>

lemma read_Inr: "ft_store_read flt q s = Inr x \<Longrightarrow> q (fs_store s) = Inr x"
  by (cases flt) (auto simp: ft_store_read_def with_fault_def)

lemma content_of_same: "fs_files s' = fs_files s \<Longrightarrow> content_of k s' = content_of k s"
  by (simp add: content_of_def cong: option.case_cong)

lemma check_contents_ok:
  assumes "check_contents env ts s = (c, s')"
  shows "fs_store s' = fs_store s \<and> fs_files s' = fs_files s \<and>
    (c = CheckOk \<longrightarrow> (\<forall>(k, r) \<in> set ts. ft_offset r = ft_size r \<and> (\<exists>b. content_of k s = Some b \<and> digest_ok r b)))"
  using assms
proof (induction ts arbitrary: s)
  case (Cons p ts)
  obtain k r where p: "p = (k, r)" by fastforce
  have [simp]: "content_of j (cancel_signal k s) = content_of j s" for j by (rule content_of_same) simp
  show ?case
    using Cons.prems Cons.IH [of "cancel_signal k s"] unfolding p
    by (auto simp: Let_def split: if_splits option.splits body_end.splits)
qed simp

lemma rename_file_rel:
  assumes rel: "ft_rel s a" and ren: "rename_file (Part t) (Content t) s = Some s'"
    and row: "map_of (st_transfers (fs_store s)) t = Some r" and off: "ft_offset r = ft_size r"
    and dig: "content_of t s = Some b" "digest_ok r b"
  shows "ft_rel s' a" "fs_store s' = fs_store s" "\<And>u. content_of u s' = content_of u s"
proof -
  have part: "map_of (fs_files s) (Part t) = Some b" and s': "s' = put_file (Content t) b (remove_file (Part t) s)"
    using ren dig(1) by (auto simp: rename_file_def content_of_def split: option.splits)
  have none: "map_of (fs_files s) (Content t) = None" using rel part by (metis ft_rel_def option.distinct(1))
  have "take (length (a t)) b = a t" using rel_file [OF rel part] by (simp add: file_ok_def)
  moreover have "length (a t) = length b" using rel_length [OF rel row] off dig(2) by (simp add: digest_ok_def)
  ultimately have "b = a t" by simp
  then have "file_ok (st_transfers (fs_store s)) a (Content t) b" using row dig(2) by (simp add: file_ok_def)
  then show "ft_rel s' a"
    using rel unfolding s' by (auto simp: ft_rel_def files_put files_remove committed_def)
  show "fs_store s' = fs_store s" by (simp add: s')
  show "content_of u s' = content_of u s" for u
    using part none by (auto simp: s' content_of_def files_put files_remove split: option.split)
qed

lemma undo_rename_rel:
  assumes rel: "ft_rel s a" and ren: "rename_file (Content t) (Part t) s = Some s'"
  shows "ft_rel s' a"
proof -
  obtain b where b: "map_of (fs_files s) (Content t) = Some b" and s': "s' = put_file (Part t) b (remove_file (Content t) s)"
    using ren by (auto simp: rename_file_def split: option.splits)
  have "file_ok (st_transfers (fs_store s)) a (Part t) b" using rel_file [OF rel b] by (auto simp: file_ok_def)
  then show ?thesis using rel unfolding s' by (auto simp: ft_rel_def files_put files_remove committed_def)
qed

lemma undo_renames_rel: "ft_rel s a \<Longrightarrow> ft_rel (undo_renames env renamed s) a"
  unfolding undo_renames_def
  by (induction renamed arbitrary: s) (auto intro: undo_rename_rel split: option.split)

lemma rename_contents_rel:
  assumes "ft_rel s a" "\<forall>(k, r) \<in> set ts. map_of (st_transfers (fs_store s)) k = Some r \<and> ft_offset r = ft_size r \<and>
    (\<exists>b. content_of k s = Some b \<and> digest_ok r b)"
  shows "ft_rel (snd (rename_contents env renamed ts s)) a"
  using assms
proof (induction ts arbitrary: s renamed)
  case (Cons p ts)
  obtain k r where p: "p = (k, r)" by fastforce
  obtain b where k: "map_of (st_transfers (fs_store s)) k = Some r" "ft_offset r = ft_size r" "content_of k s = Some b" "digest_ok r b"
    using Cons.prems(2) p by auto
  have "ft_rel (snd (rename_contents env (k # renamed) ts s')) a" if "rename_file (Part k) (Content k) s = Some s'" for s'
    using rename_file_rel [OF Cons.prems(1) that k] Cons.prems(2) by (intro Cons.IH) auto
  moreover have "ft_rel (snd (rename_contents env renamed ts s)) a" using Cons.prems by (intro Cons.IH) auto
  ultimately show ?case
    using undo_renames_rel [OF Cons.prems(1)] by (auto simp: p split: option.split if_splits)
qed simp

lemma batch_rows_found:
  assumes "file_transfers_by_batch batch st = Inr ts" "transfers_wf st" "(k, r) \<in> set ts"
  shows "map_of (st_transfers st) k = Some r"
  using assms by (auto simp: file_transfers_by_batch_def batch_rows_def transfers_wf_def keys_distinct_def split: if_splits)

lemma publish_rel:
  assumes "ft_rel s a" "\<forall>(k, r) \<in> set ts. map_of (st_transfers (fs_store s)) k = Some r \<and> ft_offset r = ft_size r \<and>
    (\<exists>b. content_of k s = Some b \<and> digest_ok r b)"
  shows "ft_rel (snd (publish_batch env tid batch ts s)) a"
proof -
  obtain ok s1 where c: "rename_contents env [] ts s = (ok, s1)" by fastforce
  have r1: "ft_rel s1 a" using rename_contents_rel [OF assms, of env "[]"] c by simp
  have r2: "ft_rel s2 a" if "ft_store_call (co_commit env) (complete_file_transfer_batch batch) s1 = (x, s2)" for x s2
    using shrinks_rel [OF r1 shrinks_store_call [OF steady_complete], of "co_commit env" batch] that by simp
  have r3: "ft_rel (fold (\<lambda>t s. if ft_direction (snd t) = ''pb_to_pbh'' then drop_signal (fst t) s else s) ts s2) a"
    if "ft_store_call (co_commit env) (complete_file_transfer_batch batch) s1 = (x, s2)" for x s2
    by (rule shrinks_rel [OF r2 [OF that] shrinks_fold]) (auto intro: shrinks_same)
  show ?thesis using r1 r2 r3 by (auto simp: publish_batch_def c Let_def split: prod.split sum.split bool.split)
qed

lemma complete_rel:
  assumes rel: "ft_rel s a"
  shows "ft_rel (snd (complete_batch env tid s)) a"
proof -
  have wf: "transfers_wf (fs_store s)" using rel by (simp add: ft_rel_def)
  have main: "ft_rel (snd (case check_contents env ts s of
                 (CheckFails e, s1) \<Rightarrow> (Inl e, s1)
               | (CheckMismatch, s1) \<Rightarrow> (Inl (FT DigestMismatch), snd (cancel_batch_locked (co_cancel env) ts s1))
               | (CheckOk, s1) \<Rightarrow> publish_batch env tid batch ts s1)) a"
    if ts: "ft_store_read flt (file_transfers_by_batch batch) s = Inr ts" for ts batch flt
  proof -
    obtain c s1 where c: "check_contents env ts s = (c, s1)" by fastforce
    note ok = check_contents_ok [OF c]
    have r1: "ft_rel s1 a" using shrinks_keeps_rel [OF rel] ok by blast
    have same: "content_of k s1 = content_of k s" for k by (rule content_of_same) (use ok in simp)
    have "ft_rel (snd (publish_batch env tid batch ts s1)) a" if "c = CheckOk"
      using batch_rows_found [OF read_Inr [OF ts] wf] ok that by (intro publish_rel [OF r1]) (auto simp: same)
    moreover have "ft_rel (snd (cancel_batch_locked (co_cancel env) ts s1)) a" by (rule shrinks_rel [OF r1 shrinks_cancel_batch])
    ultimately show ?thesis using r1 by (auto simp: c split: check_result.split)
  qed
  show ?thesis
    using rel main by (auto simp: complete_batch_def split: sum.split)
qed

subsection \<open>Links and crashes\<close>

lemma link_rel:
  assumes rel: "ft_rel s a"
  shows "ft_rel (snd (published_path flt link same sync tid s)) a"
proof -
  have "ft_rel (put_file (link_path tid r) b s) a" if "map_of (fs_files s) (Content tid) = Some b" for r b
  proof -
    have "file_ok (st_transfers (fs_store s)) a (link_path tid r) b"
      using rel_file [OF rel that] by (simp add: file_ok_def link_path_def)
    then show ?thesis
      using rel by (auto simp: ft_rel_def files_put committed_def link_path_def)
  qed
  then show ?thesis using rel by (auto simp: published_path_def Let_def split: sum.split option.split)
qed

lemma crash_part_ok:
  assumes rel: "ft_rel s a" and c: "crash_file_ok s (Part t, b')"
  shows "file_ok (st_transfers (fs_store s)) a (Part t) b'"
proof -
  obtain b r where b: "content_of t s = Some b" and r: "map_of (st_transfers (fs_store s)) t = Some r"
    and pre: "take (nat (ft_offset r)) b' = take (nat (ft_offset r)) b"
    using c by (auto simp: crash_file_ok_def split: option.splits)
  have len: "nat (ft_offset r) = length (a t)" using rel_length [OF rel r] by simp
  consider "map_of (fs_files s) (Part t) = Some b" | "map_of (fs_files s) (Content t) = Some b"
    using b by (auto simp: content_of_def split: option.splits)
  then have "take (length (a t)) b = a t"
    by cases (use rel_file [OF rel, of "Part t" b] rel_file [OF rel, of "Content t" b] in \<open>auto simp: file_ok_def\<close>)
  then show ?thesis using pre r by (simp add: file_ok_def len)
qed

lemma crash_rel:
  assumes rel: "ft_rel s a" and c: "crash_ok s files" and s': "fs_store s' = fs_store s" "fs_files s' = files"
  shows "ft_rel s' a"
proof -
  have "file_ok (st_transfers (fs_store s)) a p b" if "map_of files p = Some b" for p b
  proof -
    have ok: "crash_file_ok s (p, b)" using c map_of_SomeD [OF that] by (auto simp: crash_ok_def list_all_iff)
    show ?thesis
    proof (cases p)
      case (Part t)
      then show ?thesis using crash_part_ok [OF rel] ok by simp
    qed (use ok rel_file [OF rel] in \<open>auto simp: crash_file_ok_def\<close>)
  qed
  moreover have "map_of files (Part t) = None \<or> map_of files (Content t) = None" for t
  proof (rule ccontr)
    assume n: "\<not> ?thesis"
    then obtain b where "(Part t, b) \<in> set files" by (auto dest: map_of_SomeD)
    moreover have "\<forall>x \<in> set files. Part (path_id (fst x)) \<notin> fst ` set files \<or> Content (path_id (fst x)) \<notin> fst ` set files"
      using c by (simp only: crash_ok_def list_all_iff case_prod_unfold) blast
    ultimately have "Part t \<notin> fst ` set files \<or> Content t \<notin> fst ` set files" by (metis fst_conv path_id.simps(1))
    then show False using n by (simp only: map_of_eq_None_iff de_Morgan_disj) blast
  qed
  ultimately show ?thesis using rel by (simp add: ft_rel_def s' committed_def)
qed

subsection \<open>The service refines the log\<close>

lemma ft_sim: "ft_rel s a \<Longrightarrow> \<exists>a'. accepts log_accepts a (ft_emit s x) = Some a' \<and> ft_rel (ft_step s x) a'"
proof (cases x)
  case (Append env t off)
  assume "ft_rel s a"
  then show ?thesis unfolding Append by (rule append_sim)
next
  case (Crash p files)
  assume "ft_rel s a"
  then show ?thesis unfolding Crash by (auto simp: new_service_def Let_def intro: crash_rel)
qed (auto simp: update_policy_def create_rel complete_rel link_rel intro: shrinks_keeps_rel
      shrinks_rel [OF _ shrinks_cancel] shrinks_rel [OF _ shrinks_cancel_locked] shrinks_rel [OF _ shrinks_receipt]
      shrinks_rel [OF _ shrinks_cleanup])

interpretation uploads: refinement ft_step ft_emit log_accepts ft_rel
  by unfold_locales (rule ft_sim)

definition first_service :: "transfer_policy \<Rightarrow> store \<Rightarrow> transfer_service" where
  "first_service p st = \<lparr>fs_policy = p, fs_store = st, fs_files = [], fs_active = 0, fs_cancels = []\<rparr>"

lemma first_rel: "st_transfers st = [] \<Longrightarrow> ft_rel (first_service p st) (\<lambda>_. [])"
  by (simp add: ft_rel_def first_service_def transfers_wf_def keys_distinct_def committed_def)

lemma content_is_log:
  assumes "ft_rel s a" "open_content flt ok tid s = Inr (b, r)"
  shows "map_of (st_transfers (fs_store s)) tid = Some r \<and> b = a tid \<and> digest_ok r b"
proof -
  have r: "map_of (st_transfers (fs_store s)) tid = Some r" "map_of (fs_files s) (Content tid) = Some b"
    using assms(2) by (auto simp: open_content_def file_transfer_def split: sum.splits if_splits option.splits dest!: read_Inr)
  then show ?thesis using rel_file [OF assms(1) r(2)] by (auto simp: file_ok_def)
qed

lemma link_is_log:
  assumes "ft_rel s a" "published_path flt link same sync tid s = (Inr p, s')"
  shows "\<exists>r b. map_of (st_transfers (fs_store s)) tid = Some r \<and> map_of (fs_files s') p = Some b \<and> b = a tid \<and> digest_ok r b"
proof -
  obtain r where r: "map_of (st_transfers (fs_store s)) tid = Some r" "p = link_path tid r"
    and b: "map_of (fs_files s') p \<noteq> None"
    using assms(2)
    by (auto simp: published_path_def file_transfer_def Let_def split: sum.splits if_splits option.splits dest!: read_Inr)
  have rel: "ft_rel s' a" using link_rel [OF assms(1), of flt link same sync tid] assms(2) by simp
  have st: "fs_store s' = fs_store s"
    using assms(2) by (auto simp: published_path_def Let_def split: sum.splits if_splits option.splits)
  obtain b where "map_of (fs_files s') p = Some b" using b by blast
  then show ?thesis using rel_file [OF rel] r by (force simp: file_ok_def link_path_def st)
qed

subsection \<open>What a step does to the rows\<close>

lemma store_open_parts: "fs_store (snd (open_parts env ts s)) = fs_store s"
  by (induction ts arbitrary: s) (auto simp: Let_def)

lemma store_rename_file: "rename_file p q s = Some s' \<Longrightarrow> fs_store s' = fs_store s"
  by (auto simp: rename_file_def split: option.splits)

lemma store_undo_renames: "fs_store (undo_renames env renamed s) = fs_store s"
  unfolding undo_renames_def by (induction renamed arbitrary: s) (auto dest: store_rename_file split: option.split)

lemma store_rename_contents: "fs_store (snd (rename_contents env renamed ts s)) = fs_store s"
  by (induction ts arbitrary: s renamed)
    (auto simp: store_undo_renames dest: store_rename_file split: option.split)

definition rows_move :: "transfer_service \<Rightarrow> transfer_service \<Rightarrow> bool" where
  "rows_move s s' \<longleftrightarrow> moves (st_transfers (fs_store s)) (st_transfers (fs_store s'))"

lemma rows_move_same: "fs_store s' = fs_store s \<Longrightarrow> rows_move s s'"
  by (simp add: rows_move_def)

lemma rows_move_trans: "rows_move a b \<Longrightarrow> rows_move b c \<Longrightarrow> rows_move a c"
  unfolding rows_move_def by (rule moves_trans)

lemma rows_move_shrinks: "shrinks s s' \<Longrightarrow> transfers_wf (fs_store s) \<Longrightarrow> rows_move s s'"
  by (simp add: shrinks_def rows_move_def)

lemma rows_move_append: "rows_move s (snd (append_transfer env t off s))"
proof (cases rule: append_unfold [of env t off s])
  case 1
  then show ?thesis by (simp add: rows_move_same)
next
  case (2 s0 r)
  have "rows_move s0 (snd (append_body env t r (ft_offset r) s0))"
  proof (cases "map_of (fs_files s0) (Part t)")
    case None
    then show ?thesis by (simp add: append_body_def rows_move_same)
  next
    case (Some b)
    let ?s2 = "put_file (Part t) (truncate_file (nat (ft_offset r)) b @ upload_data env r)
      (cancel_signal t (put_file (Part t) (truncate_file (nat (ft_offset r)) b) s0))"
    have "rows_move ?s2 (snd (ft_store_call (ae_commit env)
        (commit_file_transfer_offset t (ft_offset r) (ft_offset r + int (length (upload_data env r)))) ?s2))"
      unfolding rows_move_def by (rule store_call_moves) (rule commit_moves)
    then show ?thesis
      using append_body_cases [OF Some refl refl, of env r] rows_move_same [of ?s2 s0]
      by (auto intro: rows_move_same rows_move_trans)
  qed
  then show ?thesis using 2 by (simp add: rows_move_def)
qed

lemma rows_move_complete:
  assumes "transfers_wf (fs_store s)"
  shows "rows_move s (snd (complete_batch env tid s))"
proof -
  have pub: "rows_move s1 (snd (publish_batch env tid batch ts s1))" if "transfers_wf (fs_store s1)" for batch ts s1
  proof -
    obtain ok s2 where c: "rename_contents env [] ts s1 = (ok, s2)" by fastforce
    have s2: "fs_store s2 = fs_store s1" using store_rename_contents [of env "[]" ts s1] c by simp
    have call: "rows_move s1 s3" if "ft_store_call (co_commit env) (complete_file_transfer_batch batch) s2 = (x, s3)" for x s3
    proof -
      have "moves (st_transfers (fs_store s2)) (st_transfers (fs_store (snd (x, s3))))"
        unfolding that [symmetric] by (rule store_call_moves) (rule complete_moves)
      then show ?thesis by (simp add: rows_move_def s2)
    qed
    have st: "fs_store (fold (\<lambda>t s. if ft_direction (snd t) = ''pb_to_pbh'' then drop_signal (fst t) s else s) us s3) = fs_store s3" for us s3
      by (induction us arbitrary: s3) simp_all
    show ?thesis
      using s2 call by (auto simp: publish_batch_def c Let_def rows_move_same st split: prod.split sum.split bool.split
          intro: rows_move_trans [OF call rows_move_same])
  qed
  have "rows_move s (snd (case check_contents env ts s of
                 (CheckFails e, s1) \<Rightarrow> (Inl e, s1)
               | (CheckMismatch, s1) \<Rightarrow> (Inl (FT DigestMismatch), snd (cancel_batch_locked (co_cancel env) ts s1))
               | (CheckOk, s1) \<Rightarrow> publish_batch env tid batch ts s1))" for ts batch
  proof -
    obtain c s1 where c: "check_contents env ts s = (c, s1)" by fastforce
    have s1: "fs_store s1 = fs_store s" using check_contents_ok [OF c] by simp
    have "rows_move s1 (snd (cancel_batch_locked (co_cancel env) ts s1))"
      by (rule rows_move_shrinks [OF shrinks_cancel_batch]) (simp add: s1 assms)
    then show ?thesis
      using pub [of s1 batch ts] rows_move_same [OF s1] s1 assms by (auto simp: c split: check_result.split intro: rows_move_trans)
  qed
  then show ?thesis by (auto simp: complete_batch_def rows_move_same split: sum.split)
qed

lemma check_files_batch: "check_files p req now acc rnd fs = Inr ts \<Longrightarrow> list_all (\<lambda>(k, t). ft_batch t = rq_batch req) ts"
  by (induction fs arbitrary: acc rnd ts) (auto simp: requested_row_def split: if_splits list.splits option.splits sum.splits)

text \<open>Either the rows only move, or a batch within the limits of the policy was added before.\<close>

definition rows_added :: "transfer_service \<Rightarrow> transfer_service \<Rightarrow> bool" where
  "rows_added s s' \<longleftrightarrow>
     (\<exists>ts b st1. list_all (\<lambda>(k, t). ft_batch t = b) ts \<and> moves (st_transfers st1) (st_transfers (fs_store s')) \<and>
       create_file_transfers_within_limits ts (tp_spool (fs_policy s)) (tp_concurrent (fs_policy s)) (fs_store s) = (Inr (), st1))"

lemma create_rows:
  assumes wf: "transfers_wf (fs_store s)"
  shows "rows_move s (snd (create_batch env req s)) \<or> rows_added s (snd (create_batch env req s))"
proof (cases "check_files (fs_policy s) req (te_now env) 0 (te_random env) (rq_files req)")
  case (Inr ts)
  let ?op = "create_file_transfers_within_limits ts (tp_spool (fs_policy s)) (tp_concurrent (fs_policy s))"
  obtain x s1 where c: "ft_store_call (te_insert env) ?op s = (x, s1)" by fastforce
  have ins: "?op (fs_store s) = (Inr (), fs_store s1) \<or> fs_store s1 = fs_store s"
  proof (cases "fst (?op (fs_store s))")
    case (Inl e)
    then have "snd (?op (fs_store s)) = fs_store s"
      by (auto simp: create_file_transfers_within_limits_def Let_def split: if_splits sum.splits)
    then show ?thesis using c by (cases "te_insert env") (auto simp: ft_store_call_def with_fault_def split: prod.splits)
  next
    case (Inr u)
    then show ?thesis using c by (cases "te_insert env") (auto simp: ft_store_call_def with_fault_def prod_eq_iff split: prod.splits)
  qed
  have wf1: "transfers_wf (fs_store s1)" using create_call_cases [OF c wf] wf by auto
  have "rows_move s1 (snd (cancel_batch_locked (te_cancel env) ts (snd (open_parts env ts s1))))"
    using rows_move_shrinks [OF shrinks_cancel_batch, of "snd (open_parts env ts s1)" "te_cancel env" ts] wf1
    by (simp add: store_open_parts rows_move_def)
  moreover have "rows_move s1 (snd (open_parts env ts s1))" by (rule rows_move_same) (rule store_open_parts)
  ultimately have fin: "snd (create_batch env req s) = s \<or> rows_move s1 (snd (create_batch env req s))"
    by (auto simp: create_batch_def Let_def Inr c rows_move_same [OF refl] split: sum.split prod.split store_error.split)
  show ?thesis
    using ins fin check_files_batch [OF Inr] rows_move_same [of s s] by (auto simp: rows_added_def rows_move_def)
qed (auto simp: create_batch_def Let_def rows_move_same)

lemma step_rows:
  assumes "transfers_wf (fs_store s)"
  shows "rows_move s (ft_step s x) \<or> rows_added s (ft_step s x)"
proof (cases x)
  case (CreateBatch env req)
  then show ?thesis using create_rows [OF assms] by simp
next
  case (PublishedPath flt link same sync tid)
  have "fs_store (snd (published_path flt link same sync tid s)) = fs_store s"
    by (auto simp: published_path_def Let_def split: sum.split option.split)
  then show ?thesis by (simp add: PublishedPath rows_move_same)
qed (auto simp: update_policy_def new_service_def Let_def rows_move_append rows_move_complete assms
    intro: rows_move_same rows_move_shrinks [OF _ assms] shrinks_cancel shrinks_cancel_locked shrinks_receipt shrinks_cleanup)

lemma step_carries:
  assumes "transfers_wf (fs_store s)" "map_of (st_transfers (fs_store s)) tid = Some r"
  shows "\<exists>r'. map_of (st_transfers (fs_store (ft_step s x))) tid = Some r' \<and> forward r r'"
  using step_rows [OF assms(1), of x]
proof
  assume "rows_move s (ft_step s x)"
  then show ?thesis using moves_map_of(2) assms(2) by (auto simp: rows_move_def)
next
  assume "rows_added s (ft_step s x)"
  then obtain ts st1 where st1: "moves (st_transfers st1) (st_transfers (fs_store (ft_step s x)))"
    "create_file_transfers_within_limits ts (tp_spool (fs_policy s)) (tp_concurrent (fs_policy s)) (fs_store s) = (Inr (), st1)"
    by (auto simp: rows_added_def)
  have "map_of (st_transfers st1) tid = Some r"
    using create_within_limits(1) [OF st1(2) assms(1)] assms(2) by (simp add: map_add_Some_iff)
  then show ?thesis using moves_map_of(2) [OF st1(1)] by simp
qed

lemma run_carries:
  "ft_rel s a \<Longrightarrow> map_of (st_transfers (fs_store s)) tid = Some r \<Longrightarrow>
    \<exists>r'. map_of (st_transfers (fs_store (run ft_step s ops))) tid = Some r' \<and> forward r r'"
proof (induction ops arbitrary: s a r)
  case (Cons x ops)
  obtain r1 where r1: "map_of (st_transfers (fs_store (ft_step s x))) tid = Some r1" "forward r r1"
    using step_carries [OF _ Cons.prems(2), of x] Cons.prems(1) unfolding ft_rel_def by blast
  obtain a1 where "ft_rel (ft_step s x) a1" using ft_sim [OF Cons.prems(1)] by blast
  from Cons.IH [OF this r1(1)] r1(2) show ?case by (auto intro: forward_trans)
qed (simp add: forward_refl)

fun policy_within :: "int \<Rightarrow> ft_op \<Rightarrow> bool" where
  "policy_within S (UpdatePolicy q) \<longleftrightarrow> tp_spool q \<le> S"
| "policy_within S (Crash q files) \<longleftrightarrow> tp_spool (new_policy_store q) \<le> S"
| "policy_within S _ \<longleftrightarrow> True"

definition spool_inv :: "int \<Rightarrow> transfer_service \<Rightarrow> bool" where
  "spool_inv S s \<longleftrightarrow>
     valid_policy (fs_policy s) \<and> tp_spool (fs_policy s) \<le> S \<and> active_bytes (fs_store s) \<le> S \<and> active_batches (fs_store s) \<le> 2"

lemma default_valid: "valid_policy default_policy"
  by (simp add: valid_policy_def default_policy_def)

subsection \<open>The policy changes only by an update or a restart\<close>

lemma policy_basic [simp]:
  "fs_policy (put_file p b s) = fs_policy s" "fs_policy (remove_file p s) = fs_policy s" "fs_policy (cancel_signal t s) = fs_policy s"
  "fs_policy (signal_cancel t s) = fs_policy s" "fs_policy (drop_signal t s) = fs_policy s" "fs_policy (release s) = fs_policy s"
  "fs_policy (snd (ft_store_call flt op s)) = fs_policy s"
  by (simp_all add: put_file_def remove_file_def cancel_signal_def signal_cancel_def drop_signal_def release_def ft_store_call_def
      case_prod_beta)

lemma policy_store_call: "ft_store_call flt op s = (x, s') \<Longrightarrow> fs_policy s' = fs_policy s"
  by (metis policy_basic(7) snd_conv)

lemma policy_fold: "(\<And>x s. fs_policy (f x s) = fs_policy s) \<Longrightarrow> fs_policy (fold f xs s) = fs_policy s"
  by (induction xs arbitrary: s) auto

lemma policy_remove_paths [simp]: "fs_policy (snd (remove_paths ok ps s)) = fs_policy s"
  by (induction ps arbitrary: s) (auto simp: Let_def case_prod_beta)

lemma policy_remove_transfers [simp]: "fs_policy (snd (remove_transfers ok ts s)) = fs_policy s"
  by (induction ts arbitrary: s) (auto simp: Let_def case_prod_beta)

lemma policy_remove_until [simp]: "fs_policy (snd (remove_until ok ps s)) = fs_policy s"
  by (induction ps arbitrary: s) auto

lemma policy_cancel_batch [simp]: "fs_policy (snd (cancel_batch_locked env ts s)) = fs_policy s"
  by (cases ts) (auto simp: cancel_batch_locked_def Let_def case_prod_beta policy_fold)

lemma policy_open_parts [simp]: "fs_policy (snd (open_parts env ts s)) = fs_policy s"
  by (induction ts arbitrary: s) (auto simp: Let_def)

lemma policy_rename: "rename_file p q s = Some s' \<Longrightarrow> fs_policy s' = fs_policy s"
  by (auto simp: rename_file_def split: option.splits)

lemma policy_rename_contents [simp]: "fs_policy (snd (rename_contents env renamed ts s)) = fs_policy s"
proof (induction ts arbitrary: s renamed)
  case (Cons p ts)
  have "fs_policy (undo_renames env renamed s) = fs_policy s"
    unfolding undo_renames_def by (rule policy_fold) (auto dest: policy_rename split: option.split)
  then show ?case using Cons.IH by (cases p) (auto dest: policy_rename split: option.split)
qed simp

lemma policy_check_contents [simp]: "fs_policy (snd (check_contents env ts s)) = fs_policy s"
  by (induction ts arbitrary: s) (auto simp: Let_def split: option.split body_end.split)

lemma policy_append_body: "fs_policy (snd (append_body env t r (ft_offset r) s)) = fs_policy s"
proof (cases "map_of (fs_files s) (Part t)")
  case (Some b)
  show ?thesis using append_body_cases [OF Some refl refl, of env r] by auto
qed (simp add: append_body_def)

lemma policy_append: "fs_policy (snd (append_transfer env t off s)) = fs_policy s"
proof (cases "acquire (ae_slot env) s")
  case (Some s0)
  then have s0: "fs_policy s0 = fs_policy s" by (auto simp: acquire_def split: if_splits)
  have "fs_policy s1 = fs_policy s" if "append_body env t r (ft_offset r) s0 = (x, s1)" for r x s1
    using policy_append_body [of env t r s0] s0 that by simp
  then show ?thesis using s0 by (auto simp: append_transfer_def Some split: sum.split prod.split)
qed (simp add: append_transfer_def)

lemma policy_complete: "fs_policy (snd (complete_batch env tid s)) = fs_policy s"
proof -
  have pub: "fs_policy (snd (publish_batch env tid batch ts s1)) = fs_policy s1" for batch ts s1
  proof -
    obtain ok s2 where c: "rename_contents env [] ts s1 = (ok, s2)" by fastforce
    have s2: "fs_policy s2 = fs_policy s1" using policy_rename_contents [of env "[]" ts s1] c by simp
    show ?thesis
      by (cases ok) (auto simp: publish_batch_def c s2 Let_def policy_fold dest: policy_store_call split: sum.split prod.split)
  qed
  have "fs_policy (snd (case check_contents env ts s of
                 (CheckFails e, s1) \<Rightarrow> (Inl e, s1)
               | (CheckMismatch, s1) \<Rightarrow> (Inl (FT DigestMismatch), snd (cancel_batch_locked (co_cancel env) ts s1))
               | (CheckOk, s1) \<Rightarrow> publish_batch env tid batch ts s1)) = fs_policy s" for ts batch
  proof -
    obtain c s1 where c: "check_contents env ts s = (c, s1)" by fastforce
    have "fs_policy s1 = fs_policy s" using policy_check_contents [of env ts s] c by simp
    then show ?thesis by (auto simp: c pub split: check_result.split)
  qed
  then show ?thesis by (auto simp: complete_batch_def split: sum.split)
qed

lemma policy_create: "fs_policy (snd (create_batch env req s)) = fs_policy s"
proof (cases "check_files (fs_policy s) req (te_now env) 0 (te_random env) (rq_files req)")
  case (Inr ts)
  let ?op = "create_file_transfers_within_limits ts (tp_spool (fs_policy s)) (tp_concurrent (fs_policy s))"
  obtain x s1 where c: "ft_store_call (te_insert env) ?op s = (x, s1)" by fastforce
  obtain ok s2 where d: "open_parts env ts s1 = (ok, s2)" by fastforce
  have "fs_policy s1 = fs_policy s" "fs_policy s2 = fs_policy s1"
    using policy_store_call [OF c] policy_open_parts [of env ts s1] d by simp_all
  then show ?thesis by (auto simp: create_batch_def Let_def Inr c d split: sum.split store_error.split)
qed (auto simp: create_batch_def Let_def)

lemma policy_rest:
  "fs_policy (snd (cancel_transfer f f' env tid s)) = fs_policy s"
  "fs_policy (snd (cancel_locked f env tid s)) = fs_policy s"
  "fs_policy (snd (receipt_transfer f remove sync tid client code path s)) = fs_policy s"
  "fs_policy (snd (published_path f link same sync tid s)) = fs_policy s"
  "fs_policy (snd (cleanup_expired now f ok f' s)) = fs_policy s"
proof -
  have ru: "fs_policy s2 = fs_policy s1" if "remove_until ok ps s1 = (y, s2)" for ok ps s1 y s2
    using policy_remove_until [of ok ps s1] that by simp
  show "fs_policy (snd (cancel_locked f env tid s)) = fs_policy s"
    by (auto simp: cancel_locked_def split: sum.split prod.split option.split dest!: policy_store_call ru)
  show "fs_policy (snd (cleanup_expired now f ok f' s)) = fs_policy s"
    by (auto simp: cleanup_expired_def split: sum.split prod.split dest!: policy_store_call)
qed (auto simp: cancel_transfer_def receipt_transfer_def published_path_def Let_def split: sum.split prod.split option.split
    dest!: policy_store_call)

lemma step_policy:
  assumes "policy_within S x" "valid_policy (fs_policy s)" "tp_spool (fs_policy s) \<le> S"
  shows "valid_policy (fs_policy (ft_step s x)) \<and> tp_spool (fs_policy (ft_step s x)) \<le> S"
  using assms by (cases x) (auto simp: policy_create policy_append policy_complete policy_rest update_policy_def new_service_def Let_def
      new_policy_store_def default_valid)

subsection \<open>The spool is bounded\<close>

lemma step_spool_rows:
  assumes inv: "spool_inv S s" and wf: "transfers_wf (fs_store s)"
  shows "active_bytes (fs_store (ft_step s x)) \<le> S \<and> active_batches (fs_store (ft_step s x)) \<le> 2"
  using step_rows [OF wf, of x]
proof
  assume "rows_move s (ft_step s x)"
  then show ?thesis using moves_active [OF _ wf, of "fs_store (ft_step s x)"] inv by (auto simp: rows_move_def spool_inv_def)
next
  assume "rows_added s (ft_step s x)"
  then obtain ts b st1 where b: "list_all (\<lambda>(k, t). ft_batch t = b) ts" and m: "moves (st_transfers st1) (st_transfers (fs_store (ft_step s x)))"
    and c: "create_file_transfers_within_limits ts (tp_spool (fs_policy s)) (tp_concurrent (fs_policy s)) (fs_store s) = (Inr (), st1)"
    by (auto simp: rows_added_def)
  have p: "0 < tp_spool (fs_policy s)" "0 < tp_concurrent (fs_policy s)" "tp_concurrent (fs_policy s) \<le> 2" "tp_spool (fs_policy s) \<le> S"
    using inv by (auto simp: spool_inv_def valid_policy_def)
  have "active_bytes st1 \<le> tp_spool (fs_policy s)" "int (active_batches st1) \<le> tp_concurrent (fs_policy s)"
    by (rule create_within_limits(3) [OF c wf p(1)], rule create_within_limits(4) [OF c wf p(2) b])
  moreover have "active_bytes (fs_store (ft_step s x)) \<le> active_bytes st1" "active_batches (fs_store (ft_step s x)) \<le> active_batches st1"
    using moves_active [OF m create_within_limits(2) [OF c wf]] by simp_all
  ultimately show ?thesis using p by simp
qed

lemma run_spool:
  "spool_inv S s \<Longrightarrow> \<forall>x \<in> set ops. policy_within S x \<Longrightarrow> ft_rel s a \<Longrightarrow> spool_inv S (run ft_step s ops)"
proof (induction ops arbitrary: s a)
  case (Cons x ops)
  have "spool_inv S (ft_step s x)"
    using step_spool_rows [OF Cons.prems(1)] step_policy [of S x s] Cons.prems by (simp add: spool_inv_def ft_rel_def)
  moreover obtain a1 where "ft_rel (ft_step s x) a1" using ft_sim [OF Cons.prems(3)] by blast
  ultimately show ?case using Cons.IH Cons.prems(2) by simp
qed simp

subsection \<open>A sample run\<close>

lemma valid_digest_sha: "valid_digest (hex_string (sha256 b))"
  using hex_digits [of "sha256 b"] by (simp add: valid_digest_def)

definition sample_cancel :: cancel_env where
  "sample_cancel = \<lparr>ce_db = Healthy, ce_remove = \<lambda>_. True, ce_sync = True\<rparr>"

definition sample_create :: ft_op where
  "sample_create = CreateBatch
     \<lparr>te_now = 5, te_random = [Some (replicate 16 0)], te_insert = Healthy, te_open = \<lambda>_. True, te_close = \<lambda>_. True, te_sync = True,
      te_cancel = sample_cancel\<rparr>
     \<lparr>rq_batch = ''b'', rq_direction = ''pb_to_pbh'', rq_session = ''s'', rq_client = ''c'',
      rq_files = [\<lparr>ff_basename = ''f'', ff_size = 2, ff_sha256 = hex_string (sha256 [7, 9])\<rparr>]\<rparr>"

definition sample_id :: string where
  "sample_id = new_transfer_id (replicate 16 0)"

definition sample_append :: "int \<Rightarrow> bytes \<Rightarrow> ft_op" where
  "sample_append off body = Append
     \<lparr>ae_slot = True, ae_read = Healthy, ae_open = True, ae_truncate = True, ae_seek = True, ae_body = body, ae_end = BodyDone,
      ae_cut = True, ae_sync = True, ae_commit = Healthy\<rparr> sample_id off"

definition sample_complete :: ft_op where
  "sample_complete = Complete
     \<lparr>co_read = Healthy, co_batch = Healthy, co_open = \<lambda>_. True, co_hash = \<lambda>_. BodyDone, co_rename = \<lambda>_. True, co_undo = \<lambda>_. True,
      co_sync = True, co_commit = Healthy, co_final = Healthy, co_cancel = sample_cancel\<rparr> sample_id"

definition sample_row :: "int \<Rightarrow> string \<Rightarrow> transfer_row" where
  "sample_row off state =
     \<lparr>ft_batch = ''b'', ft_direction = ''pb_to_pbh'', ft_session = ''s'', ft_client = ''c'', ft_basename = ''f'', ft_size = 2,
      ft_sha256 = hex_string (sha256 [7, 9]), ft_offset = off, ft_state = state,
      ft_result = (if state = ''published'' then state else []), ft_receipt = [], ft_created = 5, ft_expires = 604800000000005\<rparr>"

definition sample_state :: "transfer_row \<Rightarrow> (ft_path \<times> bytes) list \<Rightarrow> bool gomap \<Rightarrow> transfer_service" where
  "sample_state r fs cs =
     \<lparr>fs_policy = default_policy, fs_store = empty_store\<lparr>st_transfers := [(sample_id, r)]\<rparr>, fs_files = fs, fs_active = 0, fs_cancels = cs\<rparr>"

lemma sample_id_ne: "sample_id \<noteq> []"
  by (simp add: sample_id_def new_transfer_id_def)

lemma sample_create_step:
  "ft_step (first_service default_policy empty_store) sample_create =
     sample_state (sample_row 0 ''created'') [(Part sample_id, [])] [(sample_id, False)]"
  using sample_id_ne hex_digits [of "sha256 [7, 9]"]
  by (simp add: sample_create_def create_batch_def first_service_def default_policy_def valid_basename_def filepath_base_def Let_def
      valid_digest_sha ft_store_call_def with_fault_def create_file_transfers_within_limits_def empty_store_def active_batches_def
      active_rows_def active_bytes_def i64_add_def i64_wrap_def requested_row_def expiry_def zero_time_def transfer_constraints_def
      active_state_def cancel_signal_def put_file_def sample_state_def sample_row_def sample_id_def [symmetric])

lemma sample_append_step:
  "ft_step (sample_state (sample_row (int (length b)) st) [(Part sample_id, b)] [(sample_id, False)]) (sample_append (int (length b)) [c]) =
     sample_state (sample_row (int (length b) + 1) ''uploading'') [(Part sample_id, b @ [c])] [(sample_id, False)]"
  if "length b < 2" "st = ''created'' \<or> st = ''uploading''"
  using that
  by (auto simp: sample_append_def append_transfer_def sample_state_def acquire_def default_policy_def ft_store_read_def with_fault_def
      file_transfer_def sample_row_def append_body_def truncate_file_def put_file_def cancel_signal_def ft_store_call_def
      commit_file_transfer_offset_def open_state_def set_transfer_def release_def Let_def)

lemma sample_reads:
  "ft_store_read Healthy (file_transfer sample_id) (sample_state r fs cs) = Inr r"
  "ft_store_read Healthy (file_transfers_by_batch ''b'') (sample_state (sample_row n st) fs cs) = Inr [(sample_id, sample_row n st)]"
  by (simp_all add: ft_store_read_def with_fault_def file_transfer_def file_transfers_by_batch_def batch_rows_def sample_state_def
      sample_row_def)

lemma sample_finishes: "finished_row (sample_row 2 ''uploading'') = sample_row 2 ''published''"
  by (simp add: finished_row_def sample_row_def Let_def)

lemma sample_ready: "complete_row_ready (sample_row 2 ''uploading'')" "\<not> finished_state (ft_state (sample_row 2 ''uploading''))"
  "ft_batch (sample_row n st) = ''b''" "ft_direction (sample_row n st) = ''pb_to_pbh''" "digest_ok (sample_row n st) [7, 9]"
  by (simp_all add: complete_row_ready_def open_state_def finished_state_def sample_row_def digest_ok_def)

lemma sample_commit:
  "ft_store_call Healthy (complete_file_transfer_batch ''b'') (sample_state (sample_row 2 ''uploading'') fs cs) =
     (Inr (), sample_state (sample_row 2 ''published'') fs cs)"
  by (simp add: ft_store_call_def with_fault_def complete_file_transfer_batch_def batch_rows_def sample_state_def sample_ready
      update_rows_def sample_finishes Let_def)

lemma sample_renames:
  "rename_contents env [] [(sample_id, r')] (sample_state r [(Part sample_id, b)] cs) = (True, sample_state r [(Content sample_id, b)] cs)"
  if "co_rename env sample_id"
  using that by (simp add: rename_file_def put_file_def remove_file_def sample_state_def)

lemma sample_checks:
  "check_contents env [(sample_id, sample_row 2 ''uploading'')] (sample_state r [(Part sample_id, [7, 9])] [(sample_id, False)]) =
     (CheckOk, sample_state r [(Part sample_id, [7, 9])] [(sample_id, False)])"
  if "co_open env sample_id" "co_hash env sample_id = BodyDone"
proof -
  have "ft_offset (sample_row 2 ''uploading'') = ft_size (sample_row 2 ''uploading'')" "open_state (ft_state (sample_row 2 ''uploading''))"
    using sample_ready(1) by (simp_all add: complete_row_ready_def)
  then show ?thesis using that by (simp add: content_of_def sample_ready(5) cancel_signal_def sample_state_def Let_def)
qed

lemma sample_complete_step:
  "ft_step (sample_state (sample_row 2 ''uploading'') [(Part sample_id, [7, 9])] [(sample_id, False)]) sample_complete =
     sample_state (sample_row 2 ''published'') [(Content sample_id, [7, 9])] []"
  by (simp add: sample_complete_def complete_batch_def sample_reads sample_ready sample_checks publish_batch_def sample_renames
      sample_commit Let_def del: check_contents.simps rename_contents.simps)
    (simp add: drop_signal_def sample_state_def)

definition sample_run :: "ft_op list" where
  "sample_run = [sample_create, sample_append 0 [7], sample_append 1 [9], sample_complete]"

lemma sample_run_state:
  "run ft_step (first_service default_policy empty_store) sample_run =
     sample_state (sample_row 2 ''published'') [(Content sample_id, [7, 9])] []"
  using sample_append_step [of "[]" "''created''" 7] sample_append_step [of "[7]" "''uploading''" 9]
  by (simp add: sample_run_def sample_create_step sample_complete_step)

subsection \<open>Properties\<close>





text \<open>
  C20: a transfer only moves forward.  Whatever runs after a moment in which a transfer has a
  row, crashes included, the row is still there, with the same batch, client, session, name,
  size, digest and expiry; its committed offset has not gone back; it has not left the phase
  it was in for an earlier one; and the row of a transfer that was delivered, failed or
  canceled is unchanged.
\<close>

theorem transfers_move_forward:
  assumes "st_transfers st = []" "map_of (st_transfers (fs_store (run ft_step (first_service p st) ops))) tid = Some r"
  shows "\<exists>r'. map_of (st_transfers (fs_store (run ft_step (first_service p st) (ops @ later)))) tid = Some r' \<and> same_transfer r r' \<and>
    ft_offset r \<le> ft_offset r' \<and> phase_le (phase_of r) (phase_of r') \<and> (phase_of r = Ended \<longrightarrow> r' = r)"
proof -
  obtain a where "ft_rel (run ft_step (first_service p st) ops) a"
    using uploads.run_sim [OF first_rel [OF assms(1)], of p ops] by blast
  then have "\<exists>r'. map_of (st_transfers (fs_store (run ft_step (run ft_step (first_service p st) ops) later))) tid = Some r' \<and> forward r r'"
    by (rule run_carries [OF _ assms(2)])
  then show ?thesis by (auto simp: run_append forward_def)
qed

theorem transfers_move_forward_witness:
  "\<exists>r'. map_of (st_transfers (fs_store (run ft_step (first_service default_policy empty_store) (sample_run @ [sample_create])))) sample_id = Some r' \<and>
     same_transfer (sample_row 2 ''published'') r' \<and> ft_offset r' = 2"
proof -
  have s: "st_transfers empty_store = []" by (simp add: empty_store_def)
  have r: "map_of (st_transfers (fs_store (run ft_step (first_service default_policy empty_store) sample_run))) sample_id =
      Some (sample_row 2 ''published'')"
    unfolding sample_run_state by (simp add: sample_state_def)
  obtain r' where r': "map_of (st_transfers (fs_store (run ft_step (first_service default_policy empty_store) (sample_run @ [sample_create])))) sample_id = Some r'"
    "same_transfer (sample_row 2 ''published'') r'" "ft_offset (sample_row 2 ''published'') \<le> ft_offset r'"
    using transfers_move_forward [OF s r, of "[sample_create]"] by blast
  have "ft_rel (first_service default_policy empty_store) (\<lambda>_. [])" by (rule first_rel [OF s])
  then obtain a where "ft_rel (run ft_step (first_service default_policy empty_store) (sample_run @ [sample_create])) a"
    using uploads.run_sim by blast
  then have "row_wf r'" using transfer_row_wf r'(1) by (auto simp: ft_rel_def)
  then show ?thesis using r' by (auto simp: row_wf_def transfer_constraints_def same_transfer_def sample_row_def)
qed

text \<open>
  C19: the spool is bounded.  When the policy in force is never one that allows more than
  \<open>S\<close> pending bytes, the declared sizes of the transfers that are created, uploading or
  pending never exceed \<open>S\<close> in sum, and they never belong to more than two batches, over
  every run and across crashes.
\<close>

theorem spool_stays_bounded:
  assumes "st_transfers st = []" "valid_policy p" "tp_spool p \<le> S" "\<forall>x \<in> set ops. policy_within S x"
  shows "active_bytes (fs_store (run ft_step (first_service p st) ops)) \<le> S \<and>
    active_batches (fs_store (run ft_step (first_service p st) ops)) \<le> 2"
proof -
  have "spool_inv S (first_service p st)"
    using assms(1-3) by (auto simp: spool_inv_def first_service_def active_bytes_def active_batches_def active_rows_def valid_policy_def
        transfers_wf_def keys_distinct_def)
  then have "spool_inv S (run ft_step (first_service p st) ops)"
    using run_spool [OF _ assms(4) first_rel [OF assms(1)]] by blast
  then show ?thesis by (simp add: spool_inv_def)
qed

theorem spool_stays_bounded_witness:
  "active_bytes (fs_store (run ft_step (first_service default_policy empty_store) sample_run)) \<le> 1073741824 \<and>
   active_batches (fs_store (run ft_step (first_service default_policy empty_store) sample_run)) \<le> 2"
  by (rule spool_stays_bounded) (simp_all add: empty_store_def default_policy_def valid_policy_def sample_run_def sample_create_def
      sample_append_def sample_complete_def)

subsection \<open>Where the service falls short\<close>

text \<open>
  Cancelling a batch that was published: the store refuses, but the files are removed, so the
  row still says published and the content is gone.
\<close>

lemma cancel_destroys_published:
  "fst (cancel_transfer Healthy Healthy sample_cancel sample_id (run ft_step (first_service default_policy empty_store) sample_run))
     = [FTStore StoreConflict] \<and>
   snd (cancel_transfer Healthy Healthy sample_cancel sample_id (run ft_step (first_service default_policy empty_store) sample_run))
     = sample_state (sample_row 2 ''published'') [] [] \<and>
   open_content Healthy True sample_id (sample_state (sample_row 2 ''published'') [] []) = Inl (FT StorageUnavailable)"
proof -
  let ?s = "sample_state (sample_row 2 ''published'') [(Content sample_id, [7, 9])] []"
  let ?s1 = "sample_state (sample_row 2 ''published'') [(Content sample_id, [7, 9])] [(sample_id, True)]"
  have sig: "signal_cancel sample_id ?s = ?s1" by (simp add: signal_cancel_def sample_state_def)
  have db: "ft_store_call Healthy (cancel_file_transfer_batch ''b'') ?s1 = (Inl StoreConflict, ?s1)"
    by (simp add: ft_store_call_def with_fault_def cancel_file_transfer_batch_def batch_rows_def sample_state_def sample_ready(3))
      (simp add: sample_row_def active_state_def)
  have rm: "remove_transfers (\<lambda>_. True) [(sample_id, sample_row 2 ''published'')] ?s1 = ([], sample_state (sample_row 2 ''published'') [] [])"
    by (simp add: transfer_paths_def link_path_def remove_file_def drop_signal_def sample_state_def Let_def)
  have "cancel_transfer Healthy Healthy sample_cancel sample_id ?s =
      ([FTStore StoreConflict], sample_state (sample_row 2 ''published'') [] [])"
    by (simp add: cancel_transfer_def sample_reads sample_ready(3) cancel_batch_locked_def sample_cancel_def sig db rm
        del: remove_transfers.simps)
  moreover have "open_content Healthy True sample_id (sample_state (sample_row 2 ''published'') [] []) = Inl (FT StorageUnavailable)"
    by (simp add: open_content_def sample_reads) (simp add: sample_row_def finished_state_def sample_state_def)
  ultimately show ?thesis unfolding sample_run_state by simp
qed

text \<open>Completing a batch the store does not know is reported as done.\<close>

lemma complete_unknown_batch: "batch_rows batch st = [] \<Longrightarrow> complete_file_transfer_batch batch st = (Inr (), st)"
  by (simp add: complete_file_transfer_batch_def)

text \<open>A retention of three hundred years passes \<open>Valid\<close> and makes every transfer expire before it was created.\<close>

lemma long_retention_expires_at_once:
  "\<exists>p. valid_policy p \<and> tp_retention p = 300 * 365 * 86400 \<and> (\<forall>req now. rq_direction req = ''pb_to_pbh'' \<longrightarrow> expiry p req now < now)"
  by (rule exI [of _ "default_policy\<lparr>tp_retention := 300 * 365 * 86400\<rparr>"])
    (simp add: default_policy_def valid_policy_def expiry_def i64_wrap_def)

end
