(* ===== verification/Json_Tokens.thy ===== *)
theory Json_Tokens
  imports Prelude
begin

section \<open>The check for repeated keys\<close>

text \<open>
  Model of \<open>rejectDuplicateKeys\<close>, of which \<open>src/internal/auth/verifier.go\<close>,
  \<open>src/internal/protocol/frame.go\<close>, \<open>src/internal/identity/store.go\<close> and
  \<open>src/internal/update/update.go\<close> have a copy each: a walk over the tokens of
  \<open>json.Decoder\<close> that refuses a document in which an object has a key twice.  The decoder is
  modelled from the standard library down to its lexemes: \<open>Token\<close> with its state and stack,
  and \<open>More\<close>.  The lexemes of the input are its argument; \<open>Bad\<close> is a lexical error.  The
  walk is given fuel; the theorem at the end shows that the fuel it gets is enough, as it
  accepts every document without repeated keys.
\<close>

subsection \<open>The decoder\<close>

datatype lexeme = LBrace | RBrace | LBrack | RBrack | Comma | Colon | Text string | Scalar string | Bad

datatype token_state =
    TopValue | ArrayStart | ArrayValue | ArrayComma | ObjectStart | ObjectKey | ObjectColon | ObjectValue | ObjectComma

record decoder =
  dec_state :: token_state
  dec_stack :: "token_state list"
  dec_input :: "lexeme list"

datatype jtoken = Delim lexeme | Str string | Atom string

definition new_decoder :: "lexeme list \<Rightarrow> decoder" where
  "new_decoder ls = \<lparr>dec_state = TopValue, dec_stack = [], dec_input = ls\<rparr>"

definition value_allowed :: "token_state \<Rightarrow> bool" where
  "value_allowed st \<longleftrightarrow> st = TopValue \<or> st = ArrayStart \<or> st = ArrayValue \<or> st = ObjectValue"

fun value_end :: "token_state \<Rightarrow> token_state" where
  "value_end ArrayStart = ArrayComma"
| "value_end ArrayValue = ArrayComma"
| "value_end ObjectValue = ObjectComma"
| "value_end st = st"

text \<open>\<open>Token\<close> once the separator, if one is due, has been read.\<close>

definition next_token :: "decoder \<Rightarrow> (jtoken \<times> decoder) option" where
  "next_token d =
     (case dec_input d of
        LBrack # ls \<Rightarrow>
          if value_allowed (dec_state d)
          then Some (Delim LBrack, \<lparr>dec_state = ArrayStart, dec_stack = dec_state d # dec_stack d, dec_input = ls\<rparr>) else None
      | RBrack # ls \<Rightarrow>
          if dec_state d = ArrayStart \<or> dec_state d = ArrayComma
          then (case dec_stack d of
                  st # sts \<Rightarrow> Some (Delim RBrack, \<lparr>dec_state = value_end st, dec_stack = sts, dec_input = ls\<rparr>) | [] \<Rightarrow> None)
          else None
      | LBrace # ls \<Rightarrow>
          if value_allowed (dec_state d)
          then Some (Delim LBrace, \<lparr>dec_state = ObjectStart, dec_stack = dec_state d # dec_stack d, dec_input = ls\<rparr>) else None
      | RBrace # ls \<Rightarrow>
          if dec_state d = ObjectStart \<or> dec_state d = ObjectComma
          then (case dec_stack d of
                  st # sts \<Rightarrow> Some (Delim RBrace, \<lparr>dec_state = value_end st, dec_stack = sts, dec_input = ls\<rparr>) | [] \<Rightarrow> None)
          else None
      | Text s # ls \<Rightarrow>
          if dec_state d = ObjectStart \<or> dec_state d = ObjectKey
          then Some (Str s, d\<lparr>dec_state := ObjectColon, dec_input := ls\<rparr>)
          else if value_allowed (dec_state d)
          then Some (Str s, d\<lparr>dec_state := value_end (dec_state d), dec_input := ls\<rparr>) else None
      | Scalar s # ls \<Rightarrow>
          if value_allowed (dec_state d)
          then Some (Atom s, d\<lparr>dec_state := value_end (dec_state d), dec_input := ls\<rparr>) else None
      | _ \<Rightarrow> None)"

definition decoder_token :: "decoder \<Rightarrow> (jtoken \<times> decoder) option" where
  "decoder_token d =
     (case dec_input d of
        Colon # ls \<Rightarrow>
          if dec_state d = ObjectColon then next_token (d\<lparr>dec_state := ObjectValue, dec_input := ls\<rparr>) else None
      | Comma # ls \<Rightarrow>
          if dec_state d = ArrayComma then next_token (d\<lparr>dec_state := ArrayValue, dec_input := ls\<rparr>)
          else if dec_state d = ObjectComma then next_token (d\<lparr>dec_state := ObjectKey, dec_input := ls\<rparr>) else None
      | _ \<Rightarrow> next_token d)"

definition decoder_more :: "decoder \<Rightarrow> bool" where
  "decoder_more d \<longleftrightarrow> (case dec_input d of [] \<Rightarrow> False | l # _ \<Rightarrow> l \<noteq> RBrack \<and> l \<noteq> RBrace)"

subsection \<open>The walk\<close>

fun walk :: "nat \<Rightarrow> decoder \<Rightarrow> decoder option"
  and walk_object :: "nat \<Rightarrow> string list \<Rightarrow> decoder \<Rightarrow> decoder option"
  and walk_array :: "nat \<Rightarrow> decoder \<Rightarrow> decoder option" where
  "walk 0 d = None"
| "walk (Suc n) d =
     (case decoder_token d of
        None \<Rightarrow> None
      | Some (Delim l, d1) \<Rightarrow> if l = LBrace then walk_object n [] d1 else if l = LBrack then walk_array n d1 else None
      | Some (_, d1) \<Rightarrow> Some d1)"
| "walk_object 0 seen d = None"
| "walk_object (Suc n) seen d =
     (if decoder_more d
      then (case decoder_token d of
              Some (Str k, d1) \<Rightarrow>
                if k \<in> set seen then None
                else (case walk n d1 of None \<Rightarrow> None | Some d2 \<Rightarrow> walk_object n (k # seen) d2)
            | _ \<Rightarrow> None)
      else map_option snd (decoder_token d))"
| "walk_array 0 d = None"
| "walk_array (Suc n) d =
     (if decoder_more d
      then (case walk n d of None \<Rightarrow> None | Some d1 \<Rightarrow> walk_array n d1)
      else map_option snd (decoder_token d))"

text \<open>The result is whether the document is accepted; the last \<open>Token\<close> has to find the end of the input.\<close>

definition reject_duplicate_keys :: "lexeme list \<Rightarrow> bool" where
  "reject_duplicate_keys ls =
     (case walk (2 * length ls + 2) (new_decoder ls) of None \<Rightarrow> False | Some d \<Rightarrow> dec_input d = [])"

subsection \<open>Documents\<close>

datatype json = JText string | JScalar string | JArray "json list" | JObject "(string \<times> json) list"

fun separated :: "lexeme list list \<Rightarrow> lexeme list" where
  "separated [] = []"
| "separated [x] = x"
| "separated (x # y # zs) = x @ Comma # separated (y # zs)"

fun lexemes :: "json \<Rightarrow> lexeme list" where
  "lexemes (JText s) = [Text s]"
| "lexemes (JScalar s) = [Scalar s]"
| "lexemes (JArray vs) = LBrack # separated (map lexemes vs) @ [RBrack]"
| "lexemes (JObject kvs) = LBrace # separated (map (\<lambda>(k, v). Text k # Colon # lexemes v) kvs) @ [RBrace]"

fun unique_keys :: "json \<Rightarrow> bool" where
  "unique_keys (JText s) \<longleftrightarrow> True"
| "unique_keys (JScalar s) \<longleftrightarrow> True"
| "unique_keys (JArray vs) \<longleftrightarrow> list_all unique_keys vs"
| "unique_keys (JObject kvs) \<longleftrightarrow> distinct (map fst kvs) \<and> list_all (\<lambda>(k, v). unique_keys v) kvs"

subsection \<open>Every document without repeated keys is accepted\<close>

definition after_comma :: "('a \<Rightarrow> lexeme list) \<Rightarrow> 'a list \<Rightarrow> lexeme list" where
  "after_comma f xs = concat (map (\<lambda>x. Comma # f x) xs)"

lemma after_comma_simps [simp]: "after_comma f [] = []" "after_comma f (x # xs) = Comma # f x @ after_comma f xs"
  by (simp_all add: after_comma_def)

lemma separated_Cons: "separated (map f (x # xs)) = f x @ after_comma f xs"
  by (induction xs arbitrary: x) simp_all

definition member_lexemes :: "string \<times> json \<Rightarrow> lexeme list" where
  "member_lexemes p = (case p of (k, v) \<Rightarrow> Text k # Colon # lexemes v)"

lemma member_lexemes_pair: "member_lexemes (k, v) = Text k # Colon # lexemes v"
  by (simp add: member_lexemes_def)

lemma lexemes_object: "lexemes (JObject kvs) = LBrace # separated (map member_lexemes kvs) @ [RBrace]"
proof -
  have "(\<lambda>(k, v). Text k # Colon # lexemes v) = member_lexemes" by (auto simp: member_lexemes_def fun_eq_iff)
  then show ?thesis by simp
qed

text \<open>\<open>d\<close> is about to read a value whose separator leads to \<open>d0\<close>.\<close>

definition value_due :: "decoder \<Rightarrow> decoder \<Rightarrow> bool" where
  "value_due d d0 \<longleftrightarrow> value_allowed (dec_state d0) \<and> decoder_token d = next_token d0"

definition reads_value :: "json \<Rightarrow> bool" where
  "reads_value v \<longleftrightarrow>
     (\<forall>n d d0 rest. value_due d d0 \<longrightarrow> dec_input d0 = lexemes v @ rest \<longrightarrow> length (lexemes v) \<le> n \<longrightarrow>
       walk n d = Some (d0\<lparr>dec_state := value_end (dec_state d0), dec_input := rest\<rparr>))"

lemma first_lexeme: "\<exists>l ls. lexemes v = l # ls \<and> l \<notin> {Comma, Colon, RBrack, RBrace}"
  by (cases v) auto

lemma lexemes_pos: "0 < length (lexemes v)"
  using first_lexeme [of v] by auto

lemma more_lexemes [simp]: "dec_input d = lexemes v @ rest \<Longrightarrow> decoder_more d"
  using first_lexeme [of v] by (auto simp: decoder_more_def)

lemma value_due_here:
  assumes "value_allowed (dec_state d)" "dec_input d = lexemes v @ rest"
  shows "value_due d d"
  using assms first_lexeme [of v] by (auto simp: value_due_def decoder_token_def split: lexeme.split)

lemma value_due_comma: "dec_state d = ArrayComma \<Longrightarrow> dec_input d = Comma # ls \<Longrightarrow> value_due d (d\<lparr>dec_state := ArrayValue, dec_input := ls\<rparr>)"
  by (simp add: value_due_def decoder_token_def value_allowed_def)

lemma value_due_colon: "dec_state d = ObjectColon \<Longrightarrow> dec_input d = Colon # ls \<Longrightarrow> value_due d (d\<lparr>dec_state := ObjectValue, dec_input := ls\<rparr>)"
  by (simp add: value_due_def decoder_token_def value_allowed_def)

lemma array_tail_read:
  assumes "\<forall>v \<in> set vs. reads_value v" "dec_state d = ArrayComma" "dec_stack d = st # stk"
    "dec_input d = after_comma lexemes vs @ RBrack # rest" "length (after_comma lexemes vs) < n"
  shows "walk_array n d = Some \<lparr>dec_state = value_end st, dec_stack = stk, dec_input = rest\<rparr>"
  using assms
proof (induction vs arbitrary: d n)
  case Nil
  then obtain m where "n = Suc m" by (cases n) auto
  then show ?case using Nil by (simp add: decoder_more_def decoder_token_def next_token_def)
next
  case (Cons v vs)
  obtain m where m: "n = Suc m" using Cons.prems(5) by (cases n) auto
  let ?d0 = "d\<lparr>dec_state := ArrayValue, dec_input := lexemes v @ after_comma lexemes vs @ RBrack # rest\<rparr>"
  let ?d1 = "d\<lparr>dec_state := ArrayComma, dec_input := after_comma lexemes vs @ RBrack # rest\<rparr>"
  have "walk m d = Some (?d0\<lparr>dec_state := value_end (dec_state ?d0), dec_input := after_comma lexemes vs @ RBrack # rest\<rparr>)"
    using Cons.prems(1,5) m value_due_comma [OF Cons.prems(2)] Cons.prems(4) unfolding reads_value_def by auto
  then have w: "walk m d = Some ?d1" by simp
  have "walk_array m ?d1 = Some \<lparr>dec_state = value_end st, dec_stack = stk, dec_input = rest\<rparr>"
    by (rule Cons.IH) (use Cons.prems m in auto)
  then show ?case using Cons.prems(4) m w by (simp add: decoder_more_def)
qed

lemma array_read:
  assumes "\<forall>v \<in> set vs. reads_value v"
  shows "reads_value (JArray vs)"
  unfolding reads_value_def
proof (intro allI impI)
  fix n d d0 rest
  assume due: "value_due d d0" and inp: "dec_input d0 = lexemes (JArray vs) @ rest" and n: "length (lexemes (JArray vs)) \<le> n"
  obtain m where m: "n = Suc (Suc m)" using n by (cases n; cases "n - 1") auto
  let ?d1 = "\<lparr>dec_state = ArrayStart, dec_stack = dec_state d0 # dec_stack d0, dec_input = separated (map lexemes vs) @ RBrack # rest\<rparr>"
  have t: "decoder_token d = Some (Delim LBrack, ?d1)"
    using due inp by (simp add: value_due_def next_token_def)
  have "walk_array (Suc m) ?d1 = Some (d0\<lparr>dec_state := value_end (dec_state d0), dec_input := rest\<rparr>)"
  proof (cases vs)
    case Nil
    then show ?thesis by (simp add: decoder_more_def decoder_token_def next_token_def)
  next
    case (Cons v ws)
    let ?d2 = "\<lparr>dec_state = ArrayComma, dec_stack = dec_state d0 # dec_stack d0, dec_input = after_comma lexemes ws @ RBrack # rest\<rparr>"
    have i: "dec_input ?d1 = lexemes v @ after_comma lexemes ws @ RBrack # rest" by (simp only: Cons separated_Cons decoder.simps append_assoc)
    have "value_due ?d1 ?d1" by (rule value_due_here [OF _ i]) (simp add: value_allowed_def)
    moreover have "length (lexemes v) \<le> m" using n m by (simp add: Cons separated_Cons del: list.map)
    ultimately have w: "walk m ?d1 = Some ?d2" using assms Cons i unfolding reads_value_def by auto
    have "length (after_comma lexemes ws) < m"
      using n m lexemes_pos [of v] by (simp add: Cons separated_Cons del: list.map length_greater_0_conv)
    then have "walk_array m ?d2 = Some \<lparr>dec_state = value_end (dec_state d0), dec_stack = dec_stack d0, dec_input = rest\<rparr>"
      by (intro array_tail_read) (use assms Cons in auto)
    then show ?thesis using w more_lexemes [OF i] by simp
  qed
  then show "walk n d = Some (d0\<lparr>dec_state := value_end (dec_state d0), dec_input := rest\<rparr>)"
    using t m by simp
qed

lemma member_read:
  assumes v: "reads_value v" and d: "dec_input d = sep @ Text k # Colon # lexemes v @ rest"
    and sep: "dec_state d = ObjectStart \<and> sep = [] \<or> dec_state d = ObjectComma \<and> sep = [Comma]"
    and n: "length (lexemes v) \<le> n" and k: "k \<notin> set seen"
  shows "walk_object (Suc n) seen d = walk_object n (k # seen) (d\<lparr>dec_state := ObjectComma, dec_input := rest\<rparr>)"
proof -
  let ?d1 = "d\<lparr>dec_state := ObjectColon, dec_input := Colon # lexemes v @ rest\<rparr>"
  let ?d0 = "?d1\<lparr>dec_state := ObjectValue, dec_input := lexemes v @ rest\<rparr>"
  have t: "decoder_more d" "decoder_token d = Some (Str k, ?d1)"
    using d sep by (auto simp: decoder_more_def decoder_token_def next_token_def)
  have "value_due ?d1 ?d0" by (rule value_due_colon) simp_all
  then have "walk n ?d1 = Some (?d0\<lparr>dec_state := value_end (dec_state ?d0), dec_input := rest\<rparr>)"
    using v n unfolding reads_value_def by auto
  then show ?thesis using t k by simp
qed

lemma object_tail_read:
  assumes "\<forall>(k, v) \<in> set kvs. reads_value v" "dec_state d = ObjectComma" "dec_stack d = st # stk"
    "dec_input d = after_comma member_lexemes kvs @ RBrace # rest" "length (after_comma member_lexemes kvs) < n"
    "distinct (map fst kvs)" "set seen \<inter> fst ` set kvs = {}"
  shows "walk_object n seen d = Some \<lparr>dec_state = value_end st, dec_stack = stk, dec_input = rest\<rparr>"
  using assms
proof (induction kvs arbitrary: d n seen)
  case Nil
  then obtain m where "n = Suc m" by (cases n) auto
  then show ?case using Nil by (simp add: decoder_more_def decoder_token_def next_token_def)
next
  case (Cons p kvs)
  obtain k v where p: "p = (k, v)" by fastforce
  obtain m where m: "n = Suc m" using Cons.prems(5) by (cases n) auto
  let ?d1 = "d\<lparr>dec_state := ObjectComma, dec_input := after_comma member_lexemes kvs @ RBrace # rest\<rparr>"
  have "walk_object (Suc m) seen d = walk_object m (k # seen) ?d1"
    by (rule member_read [where v = v and sep = "[Comma]"])
      (use Cons.prems m p in \<open>auto simp: member_lexemes_pair\<close>)
  also have "\<dots> = Some \<lparr>dec_state = value_end st, dec_stack = stk, dec_input = rest\<rparr>"
    by (rule Cons.IH) (use Cons.prems m p in \<open>auto simp: member_lexemes_pair\<close>)
  finally show ?case by (simp only: m)
qed

lemma object_read:
  assumes "\<forall>(k, v) \<in> set kvs. reads_value v" "distinct (map fst kvs)"
  shows "reads_value (JObject kvs)"
  unfolding reads_value_def lexemes_object
proof (intro allI impI)
  fix n d d0 rest
  let ?ls = "LBrace # separated (map member_lexemes kvs) @ [RBrace]"
  assume due: "value_due d d0" and inp: "dec_input d0 = ?ls @ rest" and n: "length ?ls \<le> n"
  obtain m where m: "n = Suc (Suc m)" using n by (cases n; cases "n - 1") auto
  let ?d1 = "\<lparr>dec_state = ObjectStart, dec_stack = dec_state d0 # dec_stack d0, dec_input = separated (map member_lexemes kvs) @ RBrace # rest\<rparr>"
  let ?e = "\<lparr>dec_state = value_end (dec_state d0), dec_stack = dec_stack d0, dec_input = rest\<rparr>"
  have t: "decoder_token d = Some (Delim LBrace, ?d1)"
    using due inp by (simp add: value_due_def next_token_def)
  have "walk_object (Suc m) [] ?d1 = Some ?e"
  proof (cases kvs)
    case Nil
    then show ?thesis by (simp add: decoder_more_def decoder_token_def next_token_def)
  next
    case (Cons p ws)
    obtain k v where p: "p = (k, v)" by fastforce
    let ?d2 = "?d1\<lparr>dec_state := ObjectComma, dec_input := after_comma member_lexemes ws @ RBrace # rest\<rparr>"
    have i: "dec_input ?d1 = [] @ Text k # Colon # lexemes v @ after_comma member_lexemes ws @ RBrace # rest"
      by (simp add: Cons separated_Cons p member_lexemes_pair del: list.map)
    have len: "length (lexemes v) + length (after_comma member_lexemes ws) + 2 \<le> m"
      using n m by (simp add: Cons separated_Cons p member_lexemes_pair del: list.map)
    have "walk_object (Suc m) [] ?d1 = walk_object m [k] ?d2"
      by (rule member_read [OF _ i]) (use assms Cons p len in auto)
    also have "\<dots> = Some ?e"
      by (rule object_tail_read) (use assms Cons p len in auto)
    finally show ?thesis .
  qed
  then show "walk n d = Some (d0\<lparr>dec_state := value_end (dec_state d0), dec_input := rest\<rparr>)"
    using t m by simp
qed

lemma unique_is_read: "unique_keys v \<Longrightarrow> reads_value v"
proof (induction v rule: unique_keys.induct)
  case (3 vs)
  then show ?case by (intro array_read) (auto simp: list_all_iff)
next
  case (4 kvs)
  then show ?case by (intro object_read) (auto simp: list_all_iff)
qed (auto simp: reads_value_def value_due_def next_token_def value_allowed_def Suc_le_eq gr0_conv_Suc split: lexeme.split)

subsection \<open>Nothing else is accepted\<close>

text \<open>The separator due before a value in a state, and the state after the value.\<close>

fun entry :: "token_state \<Rightarrow> (lexeme list \<times> token_state) option" where
  "entry TopValue = Some ([], TopValue)"
| "entry ArrayStart = Some ([], ArrayComma)"
| "entry ArrayComma = Some ([Comma], ArrayComma)"
| "entry ObjectColon = Some ([Colon], ObjectComma)"
| "entry _ = None"

lemma next_token_value:
  assumes "next_token d = Some (t, d1)" "value_allowed (dec_state d)"
  shows "t = Delim RBrack \<or>
    (\<exists>s. t = Str s \<and> dec_input d = Text s # dec_input d1 \<and> dec_state d1 = value_end (dec_state d) \<and> dec_stack d1 = dec_stack d) \<or>
    (\<exists>s. t = Atom s \<and> dec_input d = Scalar s # dec_input d1 \<and> dec_state d1 = value_end (dec_state d) \<and> dec_stack d1 = dec_stack d) \<or>
    t = Delim LBrack \<and> dec_input d = LBrack # dec_input d1 \<and> dec_state d1 = ArrayStart \<and> dec_stack d1 = dec_state d # dec_stack d \<or>
    t = Delim LBrace \<and> dec_input d = LBrace # dec_input d1 \<and> dec_state d1 = ObjectStart \<and> dec_stack d1 = dec_state d # dec_stack d"
  using assms by (auto simp: next_token_def value_allowed_def split: list.splits lexeme.splits if_splits)

lemma entry_token:
  assumes "decoder_token d = Some (t, d1)" "entry (dec_state d) = Some (sep, st)" "t \<noteq> Delim RBrack"
  obtains d0 where "next_token d0 = Some (t, d1)" "value_allowed (dec_state d0)" "value_end (dec_state d0) = st"
    "dec_stack d0 = dec_stack d" "dec_input d = sep @ dec_input d0"
proof (cases "dec_state d = ArrayComma \<or> dec_state d = ObjectColon")
  case False
  then have s: "dec_state d = TopValue \<and> sep = [] \<and> st = TopValue \<or> dec_state d = ArrayStart \<and> sep = [] \<and> st = ArrayComma"
    using assms(2) by (cases "dec_state d") auto
  then have "next_token d = Some (t, d1)"
    using assms(1) by (auto simp: decoder_token_def split: list.splits lexeme.splits if_splits)
  then show ?thesis using s by (intro that [of d]) (auto simp: value_allowed_def)
next
  case True
  show ?thesis
  proof (cases "dec_state d = ArrayComma")
    case True
    have "\<exists>ls. dec_input d = Comma # ls \<and> next_token (d\<lparr>dec_state := ArrayValue, dec_input := ls\<rparr>) = Some (t, d1)"
      using assms(1,3) True
      by (auto simp: decoder_token_def next_token_def value_allowed_def split: list.splits lexeme.splits if_splits)
    then show ?thesis using True assms(2) by (auto simp: value_allowed_def intro: that)
  next
    case False
    then have oc: "dec_state d = ObjectColon" using True by simp
    have "\<exists>ls. dec_input d = Colon # ls \<and> next_token (d\<lparr>dec_state := ObjectValue, dec_input := ls\<rparr>) = Some (t, d1)"
      using assms(1) oc
      by (auto simp: decoder_token_def next_token_def value_allowed_def split: list.splits lexeme.splits if_splits)
    then show ?thesis using oc assms(2) by (auto simp: value_allowed_def intro: that)
  qed
qed

definition array_rest :: "token_state \<Rightarrow> json list \<Rightarrow> lexeme list" where
  "array_rest st vs = (if st = ArrayStart then separated (map lexemes vs) else after_comma lexemes vs)"

definition object_rest :: "token_state \<Rightarrow> (string \<times> json) list \<Rightarrow> lexeme list" where
  "object_rest st kvs = (if st = ObjectStart then separated (map member_lexemes kvs) else after_comma member_lexemes kvs)"

lemma key_token:
  assumes "decoder_token d = Some (Str k, d1)" "dec_state d = ObjectStart \<or> dec_state d = ObjectComma"
  shows "dec_state d1 = ObjectColon \<and> dec_stack d1 = dec_stack d \<and>
    dec_input d = (if dec_state d = ObjectStart then [] else [Comma]) @ Text k # dec_input d1"
  using assms by (auto simp: decoder_token_def next_token_def value_allowed_def split: list.splits lexeme.splits if_splits)

lemma close_token:
  assumes "decoder_token d = Some (t, d1)" "\<not> decoder_more d" "dec_stack d = st # stk"
  shows "d1 = \<lparr>dec_state = value_end st, dec_stack = stk, dec_input = dec_input d1\<rparr> \<and>
    ((dec_state d = ArrayStart \<or> dec_state d = ArrayComma) \<and> dec_input d = RBrack # dec_input d1 \<or>
     (dec_state d = ObjectStart \<or> dec_state d = ObjectComma) \<and> dec_input d = RBrace # dec_input d1)"
  using assms by (auto simp: decoder_token_def next_token_def decoder_more_def split: list.splits lexeme.splits if_splits)

definition walk_ok :: "nat \<Rightarrow> decoder \<Rightarrow> bool" where
  "walk_ok n d \<longleftrightarrow>
     (\<forall>d' sep st. walk n d = Some d' \<longrightarrow> entry (dec_state d) = Some (sep, st) \<longrightarrow>
       (\<exists>v. unique_keys v \<and> dec_input d = sep @ lexemes v @ dec_input d' \<and> dec_state d' = st \<and> dec_stack d' = dec_stack d))"

definition walk_object_ok :: "nat \<Rightarrow> string list \<Rightarrow> decoder \<Rightarrow> bool" where
  "walk_object_ok n seen d \<longleftrightarrow>
     (\<forall>d' st stk. walk_object n seen d = Some d' \<longrightarrow> dec_state d = ObjectStart \<or> dec_state d = ObjectComma \<longrightarrow> dec_stack d = st # stk \<longrightarrow>
       (\<exists>kvs. list_all (\<lambda>(k, v). unique_keys v) kvs \<and> distinct (map fst kvs) \<and> set seen \<inter> fst ` set kvs = {} \<and>
         dec_input d = object_rest (dec_state d) kvs @ RBrace # dec_input d' \<and> dec_state d' = value_end st \<and> dec_stack d' = stk))"

definition walk_array_ok :: "nat \<Rightarrow> decoder \<Rightarrow> bool" where
  "walk_array_ok n d \<longleftrightarrow>
     (\<forall>d' st stk. walk_array n d = Some d' \<longrightarrow> dec_state d = ArrayStart \<or> dec_state d = ArrayComma \<longrightarrow> dec_stack d = st # stk \<longrightarrow>
       (\<exists>vs. list_all unique_keys vs \<and> dec_input d = array_rest (dec_state d) vs @ RBrack # dec_input d' \<and>
         dec_state d' = value_end st \<and> dec_stack d' = stk))"

lemma walk_step_ok:
  assumes obj: "\<And>d1. walk_object_ok n [] d1" and arr: "\<And>d1. walk_array_ok n d1"
  shows "walk_ok (Suc n) d"
  unfolding walk_ok_def
proof (intro allI impI)
  fix d' sep st
  assume w: "walk (Suc n) d = Some d'" and e: "entry (dec_state d) = Some (sep, st)"
  obtain t d1 where t: "decoder_token d = Some (t, d1)" using w by (auto split: option.splits)
  have nb: "t \<noteq> Delim RBrack" using w t by auto
  from entry_token [OF t e nb] obtain d0 where d0: "next_token d0 = Some (t, d1)" "value_allowed (dec_state d0)" "value_end (dec_state d0) = st"
    "dec_stack d0 = dec_stack d" "dec_input d = sep @ dec_input d0" by blast
  let ?goal = "\<lambda>v. unique_keys v \<and> dec_input d = sep @ lexemes v @ dec_input d' \<and> dec_state d' = st \<and> dec_stack d' = dec_stack d"
  from next_token_value [OF d0(1,2)] nb
  consider (str) s where "t = Str s" "dec_input d0 = Text s # dec_input d1" "dec_state d1 = st" "dec_stack d1 = dec_stack d"
    | (atom) s where "t = Atom s" "dec_input d0 = Scalar s # dec_input d1" "dec_state d1 = st" "dec_stack d1 = dec_stack d"
    | (arr) "t = Delim LBrack" "dec_input d0 = LBrack # dec_input d1" "dec_state d1 = ArrayStart" "dec_stack d1 = dec_state d0 # dec_stack d"
    | (obj) "t = Delim LBrace" "dec_input d0 = LBrace # dec_input d1" "dec_state d1 = ObjectStart" "dec_stack d1 = dec_state d0 # dec_stack d"
    using d0(3,4) by auto
  then show "\<exists>v. ?goal v"
  proof cases
    case str
    then have "?goal (JText s)" using w t d0(5) by simp
    then show ?thesis ..
  next
    case atom
    then have "?goal (JScalar s)" using w t d0(5) by simp
    then show ?thesis ..
  next
    case arr
    then obtain vs where "list_all unique_keys vs" "dec_input d1 = separated (map lexemes vs) @ RBrack # dec_input d'"
      "dec_state d' = st" "dec_stack d' = dec_stack d"
      using assms(2) [of d1] w t d0(3) by (auto simp: walk_array_ok_def array_rest_def)
    then have "?goal (JArray vs)" using d0(5) arr by simp
    then show ?thesis ..
  next
    case obj
    then obtain kvs where "list_all (\<lambda>(k, v). unique_keys v) kvs" "distinct (map fst kvs)"
      "dec_input d1 = separated (map member_lexemes kvs) @ RBrace # dec_input d'" "dec_state d' = st" "dec_stack d' = dec_stack d"
      using assms(1) [of d1] w t d0(3) by (auto simp: walk_object_ok_def object_rest_def)
    then have "?goal (JObject kvs)" using d0(5) obj by (simp add: lexemes_object del: lexemes.simps)
    then show ?thesis ..
  qed
qed

lemma array_rest_Cons:
  "array_rest ArrayStart (v # vs) = lexemes v @ array_rest ArrayComma vs" "array_rest ArrayComma (v # vs) = Comma # lexemes v @ array_rest ArrayComma vs"
  by (simp_all add: array_rest_def separated_Cons del: list.map)

lemma object_rest_Cons:
  "object_rest ObjectStart ((k, v) # kvs) = Text k # Colon # lexemes v @ object_rest ObjectComma kvs"
  "object_rest ObjectComma ((k, v) # kvs) = Comma # Text k # Colon # lexemes v @ object_rest ObjectComma kvs"
  by (simp_all add: object_rest_def separated_Cons member_lexemes_pair del: list.map)

lemma rest_Nil [simp]: "array_rest st [] = []" "object_rest st [] = []"
  by (simp_all add: array_rest_def object_rest_def)

lemma walk_array_step_ok:
  assumes w: "\<And>d. walk_ok n d" and arr: "\<And>d. walk_array_ok n d"
  shows "walk_array_ok (Suc n) d"
  unfolding walk_array_ok_def
proof (intro allI impI)
  fix d' st stk
  assume run: "walk_array (Suc n) d = Some d'" and s: "dec_state d = ArrayStart \<or> dec_state d = ArrayComma" and stk: "dec_stack d = st # stk"
  let ?goal = "\<lambda>vs. list_all unique_keys vs \<and> dec_input d = array_rest (dec_state d) vs @ RBrack # dec_input d' \<and>
    dec_state d' = value_end st \<and> dec_stack d' = stk"
  show "\<exists>vs. ?goal vs"
  proof (cases "decoder_more d")
    case False
    then obtain t where "decoder_token d = Some (t, d')" using run by auto
    from close_token [OF this False stk] s have "dec_input d = RBrack # dec_input d'" "dec_state d' = value_end st" "dec_stack d' = stk"
      by (auto intro: sym [OF arg_cong] simp: decoder.defs) (metis decoder.select_convs)+
    then have "?goal []" by simp
    then show ?thesis ..
  next
    case True
    then obtain d1 where d1: "walk n d = Some d1" "walk_array n d1 = Some d'" using run by (auto split: option.splits)
    obtain sep where e: "entry (dec_state d) = Some (sep, ArrayComma)" "sep = (if dec_state d = ArrayStart then [] else [Comma])" using s by auto
    obtain v where v: "unique_keys v" "dec_input d = sep @ lexemes v @ dec_input d1" "dec_state d1 = ArrayComma" "dec_stack d1 = st # stk"
      using w [of d] d1(1) e(1) stk unfolding walk_ok_def by fastforce
    obtain vs where vs: "list_all unique_keys vs" "dec_input d1 = array_rest ArrayComma vs @ RBrack # dec_input d'"
      "dec_state d' = value_end st" "dec_stack d' = stk"
      using arr [of d1] d1(2) v(3,4) unfolding walk_array_ok_def by fastforce
    have "?goal (v # vs)" using v vs e(2) s by (auto simp: array_rest_Cons)
    then show ?thesis ..
  qed
qed

lemma walk_object_step_ok:
  assumes w: "\<And>d. walk_ok n d" and obj: "\<And>seen d. walk_object_ok n seen d"
  shows "walk_object_ok (Suc n) seen d"
  unfolding walk_object_ok_def
proof (intro allI impI)
  fix d' st stk
  assume run: "walk_object (Suc n) seen d = Some d'" and s: "dec_state d = ObjectStart \<or> dec_state d = ObjectComma" and stk: "dec_stack d = st # stk"
  let ?goal = "\<lambda>kvs. list_all (\<lambda>(k, v). unique_keys v) kvs \<and> distinct (map fst kvs) \<and> set seen \<inter> fst ` set kvs = {} \<and>
    dec_input d = object_rest (dec_state d) kvs @ RBrace # dec_input d' \<and> dec_state d' = value_end st \<and> dec_stack d' = stk"
  show "\<exists>kvs. ?goal kvs"
  proof (cases "decoder_more d")
    case False
    then obtain t where "decoder_token d = Some (t, d')" using run by auto
    from close_token [OF this False stk] s have "dec_input d = RBrace # dec_input d'" "dec_state d' = value_end st" "dec_stack d' = stk"
      by (auto simp: decoder.defs) (metis decoder.select_convs)+
    then have "?goal []" by simp
    then show ?thesis ..
  next
    case True
    then obtain k d1 d2 where t: "decoder_token d = Some (Str k, d1)" "k \<notin> set seen" "walk n d1 = Some d2" "walk_object n (k # seen) d2 = Some d'"
      using run by (auto split: option.splits jtoken.splits if_splits)
    from key_token [OF t(1) s] have d1: "dec_state d1 = ObjectColon" "dec_stack d1 = st # stk"
      "dec_input d = (if dec_state d = ObjectStart then [] else [Comma]) @ Text k # dec_input d1" using stk by auto
    obtain v where v: "unique_keys v" "dec_input d1 = Colon # lexemes v @ dec_input d2" "dec_state d2 = ObjectComma" "dec_stack d2 = st # stk"
      using w [of d1] t(3) d1(1,2) unfolding walk_ok_def by fastforce
    obtain kvs where kvs: "list_all (\<lambda>(k, v). unique_keys v) kvs" "distinct (map fst kvs)" "set (k # seen) \<inter> fst ` set kvs = {}"
      "dec_input d2 = object_rest ObjectComma kvs @ RBrace # dec_input d'" "dec_state d' = value_end st" "dec_stack d' = stk"
      using obj [of "k # seen" d2] t(4) v(3,4) unfolding walk_object_ok_def by fastforce
    have "?goal ((k, v) # kvs)" using v kvs d1(3) s t(2) by (auto simp: object_rest_Cons)
    then show ?thesis ..
  qed
qed

lemma walks_ok: "(\<forall>d. walk_ok n d) \<and> (\<forall>seen d. walk_object_ok n seen d) \<and> (\<forall>d. walk_array_ok n d)"
proof (induction n)
  case 0
  show ?case by (simp add: walk_ok_def walk_object_ok_def walk_array_ok_def)
next
  case (Suc n)
  then show ?case using walk_step_ok walk_object_step_ok walk_array_step_ok by blast
qed

lemma unique_accepted:
  assumes "unique_keys v"
  shows "reject_duplicate_keys (lexemes v)"
proof -
  let ?d = "new_decoder (lexemes v)"
  have "value_due ?d ?d"
    by (rule value_due_here [where v = v and rest = "[]"]) (simp_all add: new_decoder_def value_allowed_def)
  moreover have "dec_input ?d = lexemes v @ []" "length (lexemes v) \<le> 2 * length (lexemes v) + 2" by (simp_all add: new_decoder_def)
  ultimately have "walk (2 * length (lexemes v) + 2) ?d = Some (?d\<lparr>dec_state := value_end (dec_state ?d), dec_input := []\<rparr>)"
    using unique_is_read [OF assms] unfolding reads_value_def by blast
  then show ?thesis by (simp only: reject_duplicate_keys_def option.case) simp
qed

lemma accepted_unique: "reject_duplicate_keys ls \<Longrightarrow> \<exists>v. ls = lexemes v \<and> unique_keys v"
proof -
  assume "reject_duplicate_keys ls"
  then obtain d where d: "walk (2 * length ls + 2) (new_decoder ls) = Some d" "dec_input d = []"
    by (auto simp: reject_duplicate_keys_def split: option.splits)
  then show ?thesis
    using walks_ok [of "2 * length ls + 2"] unfolding walk_ok_def by (fastforce simp: new_decoder_def)
qed

text \<open>
  C29: the streaming check equals its specification.  Whatever lexemes arrive, the walk over the
  tokens of the decoder accepts them if and only if they are those of one JSON document in
  which no object, at any depth, has a key twice.
\<close>

theorem duplicate_check_is_exact:
  "reject_duplicate_keys ls \<longleftrightarrow> (\<exists>v. ls = lexemes v \<and> unique_keys v)"
  using accepted_unique unique_accepted by blast

text \<open>
  Keys are compared as they are.  \<open>encoding/json\<close> matches the fields of a struct without
  regard to case, so that both members of this document set the field \<open>type\<close>.
\<close>

lemma case_variants_pass:
  "reject_duplicate_keys [LBrace, Text ''type'', Colon, Text ''hello'', Comma, Text ''TYPE'', Colon, Text ''request'', RBrace]"
  using unique_accepted [of "JObject [(''type'', JText ''hello''), (''TYPE'', JText ''request'')]"] by simp

end
