(* ===== verification/Control_Frames.thy ===== *)
theory Control_Frames
  imports Wire_Format Json_Tokens "HOL-Library.Char_ord" "HOL-Library.List_Lexorder"
begin

section \<open>Control frames and negotiation\<close>

text \<open>
  Model of \<open>src/internal/protocol/frame.go\<close>, \<open>negotiation.go\<close> and \<open>close.go\<close>: the
  structured frames of a connection, what the helper agrees on with a client, and the codes a
  connection is closed with.  What \<open>encoding/json\<close> makes of bytes is the argument
  \<open>frame_json\<close>: the lexemes of a text, whether it is valid, and the frame it decodes to.  The
  check for repeated keys is the one of \<open>Json_Tokens\<close>, on those lexemes.
\<close>

subsection \<open>Frames\<close>

definition max_structured_frame :: nat where
  "max_structured_frame = 65536"

record control_frame =
  cf_type :: string
  cf_request :: string
  cf_version :: string
  cf_operation :: string
  cf_capability :: string
  cf_deadline :: "32 word"
  cf_payload :: "bytes option"

record frame_json =
  fj_lexemes :: "bytes \<Rightarrow> lexeme list"
  fj_valid :: "bytes \<Rightarrow> bool"
  fj_decode :: "bytes \<Rightarrow> (control_frame \<times> bool) option"
  fj_marshal :: "control_frame \<Rightarrow> bytes option"

definition allowed_types :: "string list" where
  "allowed_types = [''hello'', ''welcome'', ''request'', ''response'', ''error'', ''event'', ''cancel'', ''heartbeat'', ''detach'']"

text \<open>\<open>capabilityPattern\<close>.\<close>

definition capability_pattern :: "string \<Rightarrow> bool" where
  "capability_pattern s \<longleftrightarrow>
     (case s of
        [] \<Rightarrow> False
      | c # cs \<Rightarrow> lower_letter c \<and> 1 \<le> length cs \<and> length cs \<le> 63 \<and>
          list_all (\<lambda>c. lower_alnum c \<or> c = CHR ''_'' \<or> c = CHR ''.'' \<or> c = CHR ''-'') cs)"

definition protocol_version :: string where
  "protocol_version = ''1.0''"

definition frame_reject_duplicate_keys :: "frame_json \<Rightarrow> bytes \<Rightarrow> bool" where
  "frame_reject_duplicate_keys J b = reject_duplicate_keys (fj_lexemes J b)"

definition validate_kind :: "control_frame \<Rightarrow> code option" where
  "validate_kind f =
     (if cf_type f = ''hello'' then (if cf_payload f = None then Some InvalidFrame else None)
      else if cf_type f = ''request'' then
        (if cf_operation f = [] \<or> cf_payload f = None then Some InvalidFrame
         else if cf_capability f = [] then Some CapabilityRequired
         else if cf_deadline f < 1 \<or> cf_deadline f > 300000 then Some InvalidDeadline
         else None)
      else if cf_type f = ''cancel'' then (if cf_operation f = [] then Some InvalidFrame else None)
      else None)"

definition validate_frame :: "frame_json \<Rightarrow> control_frame \<Rightarrow> code option" where
  "validate_frame J f =
     (if cf_type f \<notin> set allowed_types then Some UnsupportedMessage
      else if length (cf_request f) < 1 \<or> length (cf_request f) > 128 \<or> cf_version f \<noteq> protocol_version then Some InvalidFrame
      else if cf_operation f \<noteq> [] \<and> (length (cf_operation f) < 8 \<or> length (cf_operation f) > 128) then Some InvalidFrame
      else if cf_capability f \<noteq> [] \<and> \<not> capability_pattern (cf_capability f) then Some CapabilityRequired
      else case cf_payload f of
        None \<Rightarrow> validate_kind f
      | Some b \<Rightarrow>
          if \<not> fj_valid J b then Some InvalidFrame
          else if \<not> frame_reject_duplicate_keys J b then Some InvalidFrame
          else validate_kind f)"

definition read_frame :: "frame_json \<Rightarrow> bytes \<Rightarrow> wire_error + control_frame \<times> bytes" where
  "read_frame J r =
     (case read_full 4 r of
        Inl e \<Rightarrow> Inl e
      | Inr (prefix, r1) \<Rightarrow>
          let n = unat (get_word prefix :: 32 word)
          in if n = 0 then Inl (Protocol Malformed)
             else if n > max_structured_frame then Inl (Protocol Oversized)
             else case read_full n r1 of
               Inl _ \<Rightarrow> Inl (Protocol Malformed)
             | Inr (b, r2) \<Rightarrow>
                 if \<not> utf8_valid (map unat b) then Inl (Protocol Malformed)
                 else if \<not> frame_reject_duplicate_keys J b then Inl (Protocol Malformed)
                 else case fj_decode J b of
                   None \<Rightarrow> Inl (Protocol Malformed)
                 | Some (f, at_end) \<Rightarrow>
                     if \<not> at_end then Inl (Protocol Malformed)
                     else case validate_frame J f of Some e \<Rightarrow> Inl (Protocol e) | None \<Rightarrow> Inr (f, r2))"

datatype frame_send_error = FrameRejected code | FrameSendFailed write_error

definition frame_prefix :: "bytes \<Rightarrow> bytes" where
  "frame_prefix b = put_word 4 (word_of_nat (length b) :: 32 word)"

definition write_frame ::
    "frame_json \<Rightarrow> (nat \<times> bool) list \<Rightarrow> control_frame \<Rightarrow> (frame_send_error option \<times> bytes \<times> (nat \<times> bool) list) option" where
  "write_frame J ws f =
     (case validate_frame J f of
        Some e \<Rightarrow> Some (Some (FrameRejected e), [], ws)
      | None \<Rightarrow>
          (case fj_marshal J f of
             None \<Rightarrow> Some (Some (FrameRejected Malformed), [], ws)
           | Some b \<Rightarrow>
               if length b > max_structured_frame then Some (Some (FrameRejected Oversized), [], ws)
               else (case write_all ws (frame_prefix b) of
                       None \<Rightarrow> None
                     | Some (Some e, out, ws1) \<Rightarrow> Some (Some (FrameSendFailed e), out, ws1)
                     | Some (None, out, ws1) \<Rightarrow>
                         map_option (\<lambda>(e, out', ws2). (map_option FrameSendFailed e, out @ out', ws2)) (write_all ws1 b))))"

subsection \<open>Close codes\<close>

datatype any_error = ProtocolError code | OtherError

definition close_code :: "any_error option \<Rightarrow> nat" where
  "close_code err =
     (case err of
        None \<Rightarrow> 1000
      | Some OtherError \<Rightarrow> 4503
      | Some (ProtocolError c) \<Rightarrow>
          (case c of
             CredentialExpired \<Rightarrow> 4401
           | ProtocolIncompatible \<Rightarrow> 4406 | CapabilityRequired \<Rightarrow> 4406
           | Malformed \<Rightarrow> 4409 | Oversized \<Rightarrow> 4409 | UnsupportedMessage \<Rightarrow> 4409 | InvalidFrame \<Rightarrow> 4409
           | InvalidDeadline \<Rightarrow> 4409 | UnsupportedChannel \<Rightarrow> 4409))"

subsection \<open>Capabilities and versions\<close>

text \<open>A provider is its list of capabilities, \<open>None\<close> a missing one; the error is \<open>ErrInvalidCapabilities\<close>.\<close>

fun add_capabilities :: "string list \<Rightarrow> string list \<Rightarrow> string list option" where
  "add_capabilities available [] = Some available"
| "add_capabilities available (c # cs) =
     (if \<not> capability_pattern c \<or> c \<in> set available then None else add_capabilities (c # available) cs)"

fun collect_capabilities :: "string list \<Rightarrow> string list option list \<Rightarrow> string list option" where
  "collect_capabilities available [] = Some available"
| "collect_capabilities available (None # ps) = None"
| "collect_capabilities available (Some cs # ps) =
     (case add_capabilities available cs of None \<Rightarrow> None | Some available' \<Rightarrow> collect_capabilities available' ps)"

definition available_capabilities :: "string list option list \<Rightarrow> string list option" where
  "available_capabilities providers =
     (case collect_capabilities [] providers of
        None \<Rightarrow> None
      | Some available \<Rightarrow>
          if ''terminal.v1'' \<notin> set available \<or> ''health.v1'' \<notin> set available then None else Some available)"

definition required_capabilities :: "string list" where
  "required_capabilities = [''terminal.v1'', ''health.v1'']"

text \<open>\<open>allowedCapabilities\<close> by profile; \<open>None\<close> for a profile that is not in the map.\<close>

definition allowed_capabilities :: "string \<Rightarrow> string list option" where
  "allowed_capabilities profile =
     (if profile = ''hosted'' then
        Some [''terminal.v1'', ''health.v1'', ''preview.public.v1'', ''config.apply.v1'', ''hosted.lifecycle.v1'', ''update.signed.v1'']
      else if profile = ''byod'' then
        Some [''terminal.v1'', ''health.v1'', ''preview.public.v1'', ''config.apply.v1'', ''update.signed.v1'']
      else None)"

record negotiator =
  ng_profile :: string
  ng_available :: "string list"
  ng_proof :: bool

record welcome_message =
  wl_version :: string
  wl_capabilities :: "string list"

text \<open>\<open>strconv.Atoi\<close> on 64-bit machines.\<close>

definition digits_value :: "string \<Rightarrow> int" where
  "digits_value s = foldl (\<lambda>v c. v * 10 + (int (of_char c) - 48)) 0 s"

definition atoi :: "string \<Rightarrow> int option" where
  "atoi s =
     (let (negative, ds) = (case s of [] \<Rightarrow> (False, []) | c # cs \<Rightarrow> if c = CHR ''-'' then (True, cs) else if c = CHR ''+'' then (False, cs) else (False, s));
          v = (if negative then - digits_value ds else digits_value ds)
      in if ds \<noteq> [] \<and> list_all decimal_digit ds \<and> - (2 ^ 63) \<le> v \<and> v < 2 ^ 63 then Some v else None)"

definition parse_version :: "string \<Rightarrow> (int \<times> int) option" where
  "parse_version v =
     (let major = takeWhile (\<lambda>c. c \<noteq> CHR ''.'') v;
          rest = dropWhile (\<lambda>c. c \<noteq> CHR ''.'') v
      in case rest of
           [] \<Rightarrow> None
         | _ # minor \<Rightarrow>
             if major = [] \<or> minor = [] \<or> CHR ''.'' \<in> set minor then None
             else (case (atoi major, atoi minor) of
                     (Some a, Some b) \<Rightarrow> if 0 \<le> a \<and> 0 \<le> b then Some (a, b) else None
                   | _ \<Rightarrow> None))"

definition versions_compatible :: "string \<Rightarrow> string \<Rightarrow> bool" where
  "versions_compatible lo hi \<longleftrightarrow>
     (case (parse_version lo, parse_version hi) of
        (Some (a, b), Some (c, d)) \<Rightarrow> a = 1 \<and> c = 1 \<and> \<not> b > 0 \<and> \<not> d < 0 \<and> \<not> b > d
      | _ \<Rightarrow> False)"

definition negotiate :: "negotiator \<Rightarrow> string \<Rightarrow> string \<Rightarrow> string list \<Rightarrow> code + welcome_message" where
  "negotiate n lo hi offered =
     (if \<not> versions_compatible lo hi then Inl ProtocolIncompatible
      else case allowed_capabilities (ng_profile n) of
        None \<Rightarrow> Inl ProtocolIncompatible
      | Some allowed \<Rightarrow>
          if \<not> list_all (\<lambda>c. c \<in> set offered \<and> c \<in> set (ng_available n)) required_capabilities then Inl CapabilityRequired
          else
            let selected = filter (\<lambda>c. c \<in> set allowed \<and> c \<in> set (ng_available n) \<and>
                              \<not> (c = ''config.apply.v1'' \<and> ng_profile n = ''byod'' \<and> \<not> ng_proof n)) (remdups offered)
            in Inr \<lparr>wl_version = protocol_version, wl_capabilities = sort selected\<rparr>)"

subsection \<open>What an accepted frame is\<close>

text \<open>The rules of the protocol for a frame, kind by kind.\<close>

definition document_ok :: "frame_json \<Rightarrow> bytes \<Rightarrow> bool" where
  "document_ok J b \<longleftrightarrow> (\<exists>v. fj_lexemes J b = lexemes v \<and> unique_keys v)"

definition frame_rules :: "frame_json \<Rightarrow> control_frame \<Rightarrow> bool" where
  "frame_rules J f \<longleftrightarrow>
     cf_type f \<in> set allowed_types \<and> cf_version f = ''1.0'' \<and> 1 \<le> length (cf_request f) \<and> length (cf_request f) \<le> 128 \<and>
     (cf_operation f \<noteq> [] \<longrightarrow> 8 \<le> length (cf_operation f) \<and> length (cf_operation f) \<le> 128) \<and>
     (cf_capability f \<noteq> [] \<longrightarrow> capability_pattern (cf_capability f)) \<and>
     (\<forall>b. cf_payload f = Some b \<longrightarrow> fj_valid J b \<and> document_ok J b) \<and>
     (cf_type f = ''hello'' \<longrightarrow> cf_payload f \<noteq> None) \<and>
     (cf_type f = ''cancel'' \<longrightarrow> cf_operation f \<noteq> []) \<and>
     (cf_type f = ''request'' \<longrightarrow> cf_operation f \<noteq> [] \<and> cf_payload f \<noteq> None \<and> cf_capability f \<noteq> [] \<and>
        1 \<le> unat (cf_deadline f) \<and> unat (cf_deadline f) \<le> 300000)"

lemma duplicate_document: "frame_reject_duplicate_keys J b \<Longrightarrow> document_ok J b"
  unfolding frame_reject_duplicate_keys_def document_ok_def by (rule accepted_unique)

lemma valid_frame_rules:
  assumes "validate_frame J f = None"
  shows "frame_rules J f"
proof -
  have basic: "cf_type f \<in> set allowed_types" "cf_version f = ''1.0''" "1 \<le> length (cf_request f)" "length (cf_request f) \<le> 128"
    "cf_operation f \<noteq> [] \<Longrightarrow> 8 \<le> length (cf_operation f) \<and> length (cf_operation f) \<le> 128"
    "cf_capability f \<noteq> [] \<Longrightarrow> capability_pattern (cf_capability f)"
    using assms unfolding validate_frame_def protocol_version_def by (auto split: if_splits simp: Suc_le_eq)
  have kind: "validate_kind f = None" and payload: "\<And>b. cf_payload f = Some b \<Longrightarrow> fj_valid J b \<and> frame_reject_duplicate_keys J b"
    using assms unfolding validate_frame_def by (auto split: if_splits option.splits)
  have req: "cf_operation f \<noteq> [] \<and> cf_payload f \<noteq> None \<and> cf_capability f \<noteq> [] \<and> 1 \<le> unat (cf_deadline f) \<and> unat (cf_deadline f) \<le> 300000"
    if "cf_type f = ''request''"
    using kind that unfolding validate_kind_def
    by (auto split: if_splits simp: word_less_nat_alt not_less Suc_le_eq)
  have "cf_type f = ''hello'' \<Longrightarrow> cf_payload f \<noteq> None" "cf_type f = ''cancel'' \<Longrightarrow> cf_operation f \<noteq> []"
    using kind unfolding validate_kind_def by (auto split: if_splits)
  then show ?thesis
    unfolding frame_rules_def using basic req payload duplicate_document by blast
qed

text \<open>
  C30: whatever bytes arrive, a structured frame that is read obeys the rules of the protocol.
  It was carried by a length prefix and exactly that many bytes, at least one and at most 64
  KiB of UTF-8 whose lexemes are one JSON document with no key twice in an object; it has a
  known type and version and a request identifier of 1 to 128 bytes; and a request has an
  operation, a capability, a payload and a deadline of at most five minutes.
\<close>

theorem read_frames_obey_protocol:
  assumes "read_frame J r = Inr (f, rest)"
  shows "frame_rules J f \<and>
    (\<exists>b. r = frame_prefix b @ b @ rest \<and> 1 \<le> length b \<and> length b \<le> 65536 \<and> utf8_valid (map unat b) \<and> document_ok J b)"
proof -
  obtain prefix r1 where p: "read_full 4 r = Inr (prefix, r1)"
    using assms by (auto simp: read_frame_def split: sum.splits)
  let ?n = "unat (get_word prefix :: 32 word)"
  have n: "?n \<noteq> 0" "?n \<le> max_structured_frame"
    using assms p by (auto simp: read_frame_def Let_def split: if_splits)
  obtain b where b: "read_full ?n r1 = Inr (b, rest)" "utf8_valid (map unat b)" "frame_reject_duplicate_keys J b" "validate_frame J f = None"
    using assms p n by (auto simp: read_frame_def Let_def split: sum.splits if_splits option.splits prod.splits)
  have e: "r = prefix @ r1" "length prefix = 4" "r1 = b @ rest" "length b = ?n"
    using read_full_Inr [OF p] read_full_Inr [OF b(1)] by auto
  then have "frame_prefix b = prefix" by (simp add: frame_prefix_def get_word_inverses)
  then show ?thesis
    using valid_frame_rules [OF b(4)] duplicate_document [OF b(3)] b(2) n e by (intro conjI exI [of _ b]) (auto simp: max_structured_frame_def)
qed

definition sample_frame_json :: frame_json where
  "sample_frame_json =
     \<lparr>fj_lexemes = (\<lambda>b. [Scalar ''1'']), fj_valid = (\<lambda>b. True),
      fj_decode = (\<lambda>b. Some (\<lparr>cf_type = ''heartbeat'', cf_request = ''r'', cf_version = ''1.0'', cf_operation = [], cf_capability = [],
        cf_deadline = 0, cf_payload = None\<rparr>, True)),
      fj_marshal = (\<lambda>f. Some [49])\<rparr>"

theorem read_frames_obey_protocol_witness:
  "\<exists>f. read_frame sample_frame_json ([0, 0, 0, 1, 49] @ [5]) = Inr (f, [5]) \<and> frame_rules sample_frame_json f"
proof -
  have dup: "frame_reject_duplicate_keys sample_frame_json [49]"
    unfolding frame_reject_duplicate_keys_def using unique_accepted [of "JScalar ''1''"] by (simp add: sample_frame_json_def)
  have full: "read_full 4 ([0, 0, 0, 1, 49] @ [5]) = Inr ([0, 0, 0, 1], [49, 5])" "read_full (Suc 0) [49, 5] = Inr ([49], [5 :: 8 word])"
    by (simp_all add: read_full_def)
  have n: "unat (get_word [0, 0, 0, 1] :: 32 word) = 1" by (simp add: get_word_def get_be_def)
  obtain f where f: "fj_decode sample_frame_json [49] = Some (f, True)" "validate_frame sample_frame_json f = None"
    by (simp add: sample_frame_json_def validate_frame_def validate_kind_def allowed_types_def protocol_version_def)
  have "read_frame sample_frame_json ([0, 0, 0, 1, 49] @ [5]) = Inr (f, [5])"
    unfolding read_frame_def full by (simp add: n full Let_def max_structured_frame_def dup f)
  then show ?thesis using read_frames_obey_protocol by blast
qed

subsection \<open>What a negotiation agrees on\<close>

text \<open>
  A negotiation agrees on exactly what both sides may use.  It succeeds if and only if the
  version range of the client covers 1.0, the profile is known, and both required capabilities
  are offered and available; then the answer is version 1.0 with, sorted and each once, the
  capabilities that are offered, available and allowed for the profile, where applying a
  configuration on a machine of the user takes a proof.  Lifecycle control is never agreed on
  for a machine of the user.
\<close>

theorem negotiation_is_exact:
  "(\<exists>w. negotiate n lo hi offered = Inr w) =
     (versions_compatible lo hi \<and> ng_profile n \<in> {''hosted'', ''byod''} \<and>
      {''terminal.v1'', ''health.v1''} \<subseteq> set offered \<inter> set (ng_available n)) \<and>
   (case negotiate n lo hi offered of
      Inl c \<Rightarrow> c = ProtocolIncompatible \<or> c = CapabilityRequired
    | Inr w \<Rightarrow>
        wl_version w = ''1.0'' \<and> sorted (wl_capabilities w) \<and> distinct (wl_capabilities w) \<and>
        {''terminal.v1'', ''health.v1''} \<subseteq> set (wl_capabilities w) \<and>
        (ng_profile n = ''byod'' \<and> ''hosted.lifecycle.v1'' \<in> set (wl_capabilities w)) = False \<and>
        set (wl_capabilities w) =
          {c \<in> set offered \<inter> set (ng_available n). c \<in> set (the (allowed_capabilities (ng_profile n))) \<and>
             (c = ''config.apply.v1'' \<and> ng_profile n = ''byod'' \<and> \<not> ng_proof n) = False})"
proof (cases "allowed_capabilities (ng_profile n)")
  case None
  then have "ng_profile n \<notin> {''hosted'', ''byod''}" by (auto simp: allowed_capabilities_def split: if_splits)
  then show ?thesis using None by (simp add: negotiate_def)
next
  case (Some allowed)
  then have prof: "ng_profile n \<in> {''hosted'', ''byod''}" by (auto simp: allowed_capabilities_def split: if_splits)
  have req: "{''terminal.v1'', ''health.v1''} \<subseteq> set allowed" using Some by (auto simp: allowed_capabilities_def split: if_splits)
  have life: "''hosted.lifecycle.v1'' \<notin> set allowed" if "ng_profile n = ''byod''" using Some that by (auto simp: allowed_capabilities_def)
  show ?thesis
  proof (cases "versions_compatible lo hi \<and> {''terminal.v1'', ''health.v1''} \<subseteq> set offered \<inter> set (ng_available n)")
    case False
    then show ?thesis using Some by (auto simp: negotiate_def required_capabilities_def)
  next
    case True
    let ?sel = "filter (\<lambda>c. c \<in> set allowed \<and> c \<in> set (ng_available n) \<and>
      \<not> (c = ''config.apply.v1'' \<and> ng_profile n = ''byod'' \<and> \<not> ng_proof n)) (remdups offered)"
    have "negotiate n lo hi offered = Inr \<lparr>wl_version = protocol_version, wl_capabilities = sort ?sel\<rparr>"
      using True Some by (simp add: negotiate_def required_capabilities_def)
    moreover have "{''terminal.v1'', ''health.v1''} \<subseteq> set ?sel" using True req by auto
    moreover have "ng_profile n = ''byod'' \<Longrightarrow> ''hosted.lifecycle.v1'' \<notin> set ?sel" using life by simp
    ultimately show ?thesis using True prof Some by (auto simp: protocol_version_def)
  qed
qed

text \<open>\<open>Atoi\<close> takes a sign, so that these spellings of a version are taken too.\<close>

lemma signed_versions_accepted: "versions_compatible ''+1.-0'' ''01.+7''"
  by (simp add: versions_compatible_def parse_version_def atoi_def digits_value_def char_classes Let_def)

end
