(* ===== verification/Credential_Stores.thy ===== *)
theory Credential_Stores
  imports Json_Tokens Store_Transfers
begin

section \<open>Replay, revocation and key caches\<close>

text \<open>
  Model of \<open>src/internal/auth/replay.go\<close>, \<open>revocations.go\<close> and \<open>jwks.go\<close>: the cache of
  used credentials, the snapshot of revoked ones with its watchers, and the cache of
  verification keys.  Times are nanoseconds.  Every reading of the clock is an argument, in
  the order of the source.  What \<open>encoding/json\<close> makes of a document is an argument
  (\<open>key_json\<close>); the fetcher, the file system and the contexts answer through the
  environment of \<open>refresh\<close> and of \<open>new_jwks_cache\<close>.  The HTTP fetcher is not modelled.
\<close>

subsection \<open>Single use\<close>

record replay_cache =
  rp_entries :: "int gomap"
  rp_max :: int

definition new_replay_cache :: "int \<Rightarrow> replay_cache" where
  "new_replay_cache mx = \<lparr>rp_entries = [], rp_max = mx\<rparr>"

text \<open>\<open>Consume\<close>, with the reading of the clock before the lock and the one under it.\<close>

definition consume :: "int \<Rightarrow> int \<Rightarrow> string \<Rightarrow> int \<Rightarrow> replay_cache \<Rightarrow> bool \<times> replay_cache" where
  "consume now1 now2 jti expires c =
     (if jti = [] \<or> \<not> expires > now1 \<or> rp_max c < 1 then (False, c)
      else
        let live = filter (\<lambda>(k, e). e > now2) (rp_entries c)
        in if map_of live jti \<noteq> None \<or> int (length live) \<ge> rp_max c then (False, c\<lparr>rp_entries := live\<rparr>)
           else (True, c\<lparr>rp_entries := AList.update jti expires live\<rparr>))"

subsection \<open>Revocations\<close>

text \<open>A watcher is a number; its flag is what the terminal reads, its signal is closed when the flag is set.\<close>

record revocation_cache =
  rv_revoked :: "string list"
  rv_watchers :: "nat list gomap"
  rv_flags :: "(nat \<times> bool) list"
  rv_next :: nat

definition max_revoked_jtis :: nat where
  "max_revoked_jtis = 10000"

definition new_revocation_cache :: revocation_cache where
  "new_revocation_cache = \<lparr>rv_revoked = [], rv_watchers = [], rv_flags = [], rv_next = 0\<rparr>"

definition revoked :: "string \<Rightarrow> revocation_cache \<Rightarrow> bool" where
  "revoked jti c \<longleftrightarrow> jti \<noteq> [] \<and> jti \<in> set (rv_revoked c)"

definition watchers_of :: "string \<Rightarrow> revocation_cache \<Rightarrow> nat list" where
  "watchers_of jti c = (case map_of (rv_watchers c) jti of None \<Rightarrow> [] | Some ws \<Rightarrow> ws)"

definition watch :: "string \<Rightarrow> revocation_cache \<Rightarrow> nat option \<times> revocation_cache" where
  "watch jti c =
     (if jti = [] then (None, c)
      else
        let w = rv_next c
        in (Some w, c\<lparr>rv_flags := (w, jti \<in> set (rv_revoked c)) # rv_flags c,
                      rv_watchers := AList.update jti (w # watchers_of jti c) (rv_watchers c),
                      rv_next := Suc w\<rparr>))"

text \<open>The function \<open>Watch\<close> returns to stop watching; calling it again changes nothing.\<close>

definition unwatch :: "string \<Rightarrow> nat \<Rightarrow> revocation_cache \<Rightarrow> revocation_cache" where
  "unwatch jti w c =
     (let ws = removeAll w (watchers_of jti c)
      in c\<lparr>rv_watchers := (if ws = [] then AList.delete jti (rv_watchers c) else AList.update jti ws (rv_watchers c))\<rparr>)"

definition raise_flags :: "nat list \<Rightarrow> (nat \<times> bool) list \<Rightarrow> (nat \<times> bool) list" where
  "raise_flags ws fs = map (\<lambda>(w, b). (w, b \<or> w \<in> set ws)) fs"

definition replace_revoked :: "string list \<Rightarrow> revocation_cache \<Rightarrow> bool \<times> revocation_cache" where
  "replace_revoked jtis c =
     (if length jtis > max_revoked_jtis \<or> [] \<in> set jtis then (False, c)
      else (True, c\<lparr>rv_revoked := remdups jtis,
                    rv_flags := raise_flags (concat (map (\<lambda>jti. watchers_of jti c) (remdups jtis))) (rv_flags c)\<rparr>))"

subsection \<open>Base64\<close>

text \<open>\<open>base64.RawURLEncoding.DecodeString\<close>: line ends are skipped and the last bits are not checked.\<close>

definition b64_value :: "char \<Rightarrow> nat option" where
  "b64_value c =
     (let n = of_char c :: nat
      in if 65 \<le> n \<and> n \<le> 90 then Some (n - 65)
         else if 97 \<le> n \<and> n \<le> 122 then Some (n - 71)
         else if 48 \<le> n \<and> n \<le> 57 then Some (n + 4)
         else if c = CHR ''-'' then Some 62
         else if c = CHR ''_'' then Some 63
         else None)"

fun b64_groups :: "nat list \<Rightarrow> bytes option" where
  "b64_groups [] = Some []"
| "b64_groups [a] = None"
| "b64_groups [a, b] = Some [word_of_nat (a * 4 + b div 16)]"
| "b64_groups [a, b, c] = Some [word_of_nat (a * 4 + b div 16), word_of_nat (b mod 16 * 16 + c div 4)]"
| "b64_groups (a # b # c # d # rest) =
     map_option (\<lambda>bs. word_of_nat (a * 4 + b div 16) # word_of_nat (b mod 16 * 16 + c div 4) # word_of_nat (c mod 4 * 64 + d) # bs)
       (b64_groups rest)"

fun b64_values :: "string \<Rightarrow> nat list option" where
  "b64_values [] = Some []"
| "b64_values (c # cs) =
     (if c = CHR 0x0D \<or> c = CHR 0x0A then b64_values cs
      else case b64_value c of None \<Rightarrow> None | Some v \<Rightarrow> map_option ((#) v) (b64_values cs))"

definition raw_url_decode :: "string \<Rightarrow> bytes option" where
  "raw_url_decode s = (case b64_values s of None \<Rightarrow> None | Some vs \<Rightarrow> b64_groups vs)"

subsection \<open>Verification keys\<close>

record jwk =
  jk_kty :: string
  jk_crv :: string
  jk_use :: string
  jk_alg :: string
  jk_kid :: string
  jk_x :: string

record persisted_jwks =
  pj_schema :: string
  pj_validated :: "int option"
  pj_document :: bytes

text \<open>A decoded value comes with whether the input ends after it; the time is \<open>None\<close> when it is zero.\<close>

record key_json =
  kj_lexemes :: "bytes \<Rightarrow> lexeme list"
  kj_document :: "bytes \<Rightarrow> (jwk list \<times> bool) option"
  kj_persisted :: "bytes \<Rightarrow> (persisted_jwks \<times> bool) option"
  kj_marshal :: "persisted_jwks \<Rightarrow> bytes option"

datatype jwks_error = ErrJWKSInvalid | ErrJWKSOverLimit | JWKSFailure

fun decode_keys :: "jwk list \<Rightarrow> bytes gomap \<Rightarrow> jwks_error + bytes gomap" where
  "decode_keys [] keys = Inr keys"
| "decode_keys (j # js) keys =
     (if jk_kty j \<noteq> ''OKP'' \<or> jk_crv j \<noteq> ''Ed25519'' \<or> jk_use j \<noteq> ''sig'' \<or> jk_alg j \<noteq> ''EdDSA''
         \<or> length (jk_kid j) < 1 \<or> length (jk_kid j) > 128
      then Inl ErrJWKSInvalid
      else if map_of keys (jk_kid j) \<noteq> None then Inl ErrJWKSInvalid
      else case raw_url_decode (jk_x j) of
        None \<Rightarrow> Inl ErrJWKSInvalid
      | Some x \<Rightarrow> if length x \<noteq> 32 then Inl ErrJWKSInvalid else decode_keys js (AList.update (jk_kid j) x keys))"

definition decode_jwks :: "key_json \<Rightarrow> bytes \<Rightarrow> int \<Rightarrow> jwks_error + bytes gomap" where
  "decode_jwks J encoded max_keys =
     (if \<not> reject_duplicate_keys (kj_lexemes J encoded) then Inl ErrJWKSInvalid
      else case kj_document J encoded of
        None \<Rightarrow> Inl ErrJWKSInvalid
      | Some (keys, at_end) \<Rightarrow>
          if \<not> at_end then Inl ErrJWKSInvalid
          else if keys = [] \<or> int (length keys) > max_keys then Inl ErrJWKSOverLimit
          else decode_keys keys [])"

record jwks_config =
  jc_ttl :: int
  jc_retain :: int
  jc_max_bytes :: int
  jc_max_keys :: int
  jc_max_retained :: int
  jc_path :: string

record cached_key =
  ck_key :: bytes
  ck_expires :: int
  ck_retired :: bool

text \<open>The cache, with the content of the file it is kept in.\<close>

record key_cache =
  kc_config :: jwks_config
  kc_keys :: "cached_key gomap"
  kc_file :: "bytes option"

definition minute :: int where
  "minute = 60000000000"

definition config_defaults :: "jwks_config \<Rightarrow> jwks_config" where
  "config_defaults c =
     \<lparr>jc_ttl = (if jc_ttl c = 0 then 5 * minute else jc_ttl c),
      jc_retain = (if jc_retain c = 0 then 61 * minute else jc_retain c),
      jc_max_bytes = (if jc_max_bytes c = 0 then 65536 else jc_max_bytes c),
      jc_max_keys = (if jc_max_keys c = 0 then 64 else jc_max_keys c),
      jc_max_retained = (if jc_max_retained c = 0 then 128 else jc_max_retained c),
      jc_path = jc_path c\<rparr>"

definition config_bounds :: "jwks_config \<Rightarrow> bool" where
  "config_bounds c \<longleftrightarrow>
     jc_ttl c > 0 \<and> jc_retain c \<ge> jc_ttl c \<and> jc_max_bytes c \<ge> 1 \<and> jc_max_bytes c \<le> 65536 \<and> jc_max_keys c \<ge> 1 \<and> jc_max_keys c \<le> 64 \<and>
     jc_max_retained c \<ge> jc_max_keys c \<and> jc_max_retained c \<le> 256"

text \<open>
  \<open>path_ok\<close> is the answer of the checks on the path, \<open>stat_ok\<close> of those on the kind, the
  permissions and the size of the file, \<open>read_ok\<close> of reading it.
\<close>

definition load_persisted :: "key_json \<Rightarrow> bool \<Rightarrow> bool \<Rightarrow> bool \<Rightarrow> int \<Rightarrow> key_cache \<Rightarrow> key_cache" where
  "load_persisted J path_ok stat_ok read_ok now c =
     (case kc_file c of
        None \<Rightarrow> c
      | Some body \<Rightarrow>
          if jc_path (kc_config c) = [] \<or> \<not> path_ok \<or> \<not> stat_ok \<or> \<not> read_ok then c
          else case kj_persisted J body of
            None \<Rightarrow> c
          | Some (p, at_end) \<Rightarrow>
              if \<not> at_end \<or> pj_schema p \<noteq> ''paperboat.jwks-cache/v1'' then c
              else case pj_validated p of
                None \<Rightarrow> c
              | Some t \<Rightarrow>
                  if t > now + minute \<or> \<not> now < t + jc_ttl (kc_config c) then c
                  else case decode_jwks J (pj_document p) (jc_max_keys (kc_config c)) of
                    Inl _ \<Rightarrow> c
                  | Inr keys \<Rightarrow>
                      c\<lparr>kc_keys := map (\<lambda>(k, x). (k, \<lparr>ck_key = x, ck_expires = t + jc_ttl (kc_config c), ck_retired = False\<rparr>)) keys\<rparr>)"

definition new_jwks_cache :: "key_json \<Rightarrow> jwks_config \<Rightarrow> bool \<Rightarrow> bool \<Rightarrow> bool \<Rightarrow> int \<Rightarrow> bytes option \<Rightarrow> key_cache option" where
  "new_jwks_cache J config path_ok stat_ok read_ok now file =
     (let c = config_defaults config
      in if \<not> config_bounds c then None
         else Some (load_persisted J path_ok stat_ok read_ok now \<lparr>kc_config = c, kc_keys = [], kc_file = file\<rparr>))"

definition lookup_key :: "string \<Rightarrow> int \<Rightarrow> key_cache \<Rightarrow> bytes option" where
  "lookup_key kid now c =
     (if kid = [] then None
      else case map_of (kc_keys c) kid of
        None \<Rightarrow> None
      | Some e \<Rightarrow> if \<not> now < ck_expires e then None else Some (ck_key e))"

datatype fetched = FetchFails | NoBody | Body bytes bool

text \<open>
  The steps of \<open>persist\<close>: \<open>pe_path\<close> the checks on the path, \<open>pe_prepare\<close> making and checking
  the directory, \<open>pe_write\<close> writing the temporary file, \<open>pe_rename\<close> moving it into place.
\<close>

record persist_env =
  pe_path :: bool
  pe_prepare :: "jwks_error option"
  pe_write :: bool
  pe_rename :: bool

definition persist_keys :: "key_json \<Rightarrow> persist_env \<Rightarrow> bytes \<Rightarrow> int \<Rightarrow> key_cache \<Rightarrow> jwks_error option \<times> key_cache" where
  "persist_keys J env doc now c =
     (if jc_path (kc_config c) = [] then (None, c)
      else if \<not> pe_path env then (Some ErrJWKSInvalid, c)
      else case pe_prepare env of
        Some e \<Rightarrow> (Some e, c)
      | None \<Rightarrow>
          (case kj_marshal J \<lparr>pj_schema = ''paperboat.jwks-cache/v1'', pj_validated = Some now, pj_document = doc\<rparr> of
             None \<Rightarrow> (Some JWKSFailure, c)
           | Some body \<Rightarrow>
               if \<not> pe_write env then (Some JWKSFailure, c)
               else if \<not> pe_rename env then (Some JWKSFailure, c)
               else (None, c\<lparr>kc_file := Some body\<rparr>)))"

record refresh_env =
  re_context :: bool
  re_fetch :: fetched
  re_now :: int
  re_persist :: persist_env

text \<open>The keys of the document, and the ones that are missing from it: retired, or kept as they are when they were.\<close>

definition retained_keys :: "int \<Rightarrow> int \<Rightarrow> bytes gomap \<Rightarrow> cached_key gomap \<Rightarrow> cached_key gomap" where
  "retained_keys now retain fresh old =
     List.map_filter (\<lambda>(k, e).
       if map_of fresh k \<noteq> None then None
       else if ck_retired e then (if now < ck_expires e then Some (k, e) else None)
       else Some (k, \<lparr>ck_key = ck_key e, ck_expires = now + retain, ck_retired = True\<rparr>)) old"

definition merged_keys :: "int \<Rightarrow> jwks_config \<Rightarrow> bytes gomap \<Rightarrow> cached_key gomap \<Rightarrow> cached_key gomap" where
  "merged_keys now conf fresh old =
     map (\<lambda>(k, x). (k, \<lparr>ck_key = x, ck_expires = now + jc_ttl conf, ck_retired = False\<rparr>)) fresh @
     retained_keys now (jc_retain conf) fresh old"

definition refresh_keys :: "key_json \<Rightarrow> refresh_env \<Rightarrow> key_cache \<Rightarrow> jwks_error option \<times> key_cache" where
  "refresh_keys J env c =
     (if \<not> re_context env then (Some JWKSFailure, c)
      else case re_fetch env of
        FetchFails \<Rightarrow> (Some JWKSFailure, c)
      | NoBody \<Rightarrow> (Some ErrJWKSInvalid, c)
      | Body b ok \<Rightarrow>
          let encoded = take (nat (jc_max_bytes (kc_config c) + 1)) b
          in if \<not> ok then (Some JWKSFailure, c)
             else if int (length encoded) > jc_max_bytes (kc_config c) then (Some ErrJWKSOverLimit, c)
             else case decode_jwks J encoded (jc_max_keys (kc_config c)) of
               Inl e \<Rightarrow> (Some e, c)
             | Inr fresh \<Rightarrow>
                 (case persist_keys J (re_persist env) encoded (re_now env) c of
                    (Some e, c1) \<Rightarrow> (Some e, c1)
                  | (None, c1) \<Rightarrow>
                      let keys = merged_keys (re_now env) (kc_config c) fresh (kc_keys c)
                      in if int (length keys) > jc_max_retained (kc_config c) then (Some ErrJWKSOverLimit, c1)
                         else (None, c1\<lparr>kc_keys := keys\<rparr>)))"

subsection \<open>A revocation reaches every watcher\<close>

datatype revocation_op = Watch string | Unwatch string nat | Replace "string list"

fun revocation_step :: "revocation_cache \<Rightarrow> revocation_op \<Rightarrow> revocation_cache" where
  "revocation_step c (Watch jti) = snd (watch jti c)"
| "revocation_step c (Unwatch jti w) = unwatch jti w c"
| "revocation_step c (Replace jtis) = snd (replace_revoked jtis c)"

definition revocation_inv :: "revocation_cache \<Rightarrow> bool" where
  "revocation_inv c \<longleftrightarrow>
     list_all (\<lambda>f. fst f < rv_next c) (rv_flags c) \<and>
     (\<forall>jti w. w \<in> set (watchers_of jti c) \<longrightarrow> map_of (rv_flags c) w \<noteq> None \<and> (jti \<in> set (rv_revoked c) \<longrightarrow> map_of (rv_flags c) w = Some True))"

lemma map_of_raise: "map_of (raise_flags ws fs) w = map_option (\<lambda>b. b \<or> w \<in> set ws) (map_of fs w)"
  by (induction fs) (auto simp: raise_flags_def)

lemma watch_inv:
  assumes "revocation_inv c"
  shows "revocation_inv (snd (watch jti c))"
proof (cases "jti = []")
  case False
  have "map_of (rv_flags c) (rv_next c) = None"
    using assms by (cases "map_of (rv_flags c) (rv_next c)") (auto simp: revocation_inv_def list_all_iff dest!: map_of_SomeD)
  then have old: "map_of (rv_flags (snd (watch jti c))) v = map_of (rv_flags c) v" if "map_of (rv_flags c) v \<noteq> None" for v
    using that False by (auto simp: watch_def Let_def)
  have new: "map_of (rv_flags (snd (watch jti c))) (rv_next c) = Some (jti \<in> set (rv_revoked c))" using False by (simp add: watch_def Let_def)
  have ws: "set (watchers_of j (snd (watch jti c))) = (if j = jti then insert (rv_next c) (set (watchers_of j c)) else set (watchers_of j c))" for j
    using False by (auto simp: watch_def Let_def watchers_of_def update_conv')
  have rv: "rv_revoked (snd (watch jti c)) = rv_revoked c" using False by (simp add: watch_def Let_def)
  have "list_all (\<lambda>f. fst f < rv_next (snd (watch jti c))) (rv_flags (snd (watch jti c)))"
    using assms False by (auto simp: revocation_inv_def watch_def Let_def list_all_iff)
  moreover have "map_of (rv_flags (snd (watch jti c))) v \<noteq> None \<and>
      (j \<in> set (rv_revoked c) \<longrightarrow> map_of (rv_flags (snd (watch jti c))) v = Some True)"
    if "v \<in> set (watchers_of j (snd (watch jti c)))" for j v
  proof (cases "j = jti \<and> v = rv_next c")
    case True
    then show ?thesis using new by simp
  next
    case False
    then have "v \<in> set (watchers_of j c)" using that ws by (auto split: if_splits)
    then have "map_of (rv_flags c) v \<noteq> None" "j \<in> set (rv_revoked c) \<longrightarrow> map_of (rv_flags c) v = Some True"
      using assms by (auto simp: revocation_inv_def)
    then show ?thesis using old [of v] by auto
  qed
  ultimately show ?thesis by (simp add: revocation_inv_def rv)
qed (use assms in \<open>simp add: watch_def\<close>)

lemma unwatch_inv:
  assumes "revocation_inv c"
  shows "revocation_inv (unwatch jti w c)"
proof -
  have "set (watchers_of j (unwatch jti w c)) \<subseteq> set (watchers_of j c)" for j
    by (auto simp: unwatch_def Let_def watchers_of_def update_conv' delete_conv' split: if_splits)
  moreover have "rv_flags (unwatch jti w c) = rv_flags c" "rv_revoked (unwatch jti w c) = rv_revoked c" "rv_next (unwatch jti w c) = rv_next c"
    by (simp_all add: unwatch_def Let_def)
  ultimately show ?thesis using assms unfolding revocation_inv_def by (metis subsetD)
qed

lemma replace_inv:
  assumes "revocation_inv c"
  shows "revocation_inv (snd (replace_revoked jtis c))"
proof (cases "length jtis > max_revoked_jtis \<or> [] \<in> set jtis")
  case False
  let ?ws = "concat (map (\<lambda>jti. watchers_of jti c) (remdups jtis))"
  let ?c = "c\<lparr>rv_revoked := remdups jtis, rv_flags := raise_flags ?ws (rv_flags c)\<rparr>"
  have w: "watchers_of j ?c = watchers_of j c" for j by (simp add: watchers_of_def)
  have "list_all (\<lambda>f. fst f < rv_next ?c) (rv_flags ?c)"
    using assms by (auto simp: revocation_inv_def raise_flags_def list_all_iff)
  moreover have "map_of (rv_flags ?c) v \<noteq> None \<and> (j \<in> set (rv_revoked ?c) \<longrightarrow> map_of (rv_flags ?c) v = Some True)"
    if "v \<in> set (watchers_of j c)" for j v
  proof -
    have "map_of (rv_flags c) v \<noteq> None" using assms that by (auto simp: revocation_inv_def)
    then show ?thesis using that by (auto simp: map_of_raise)
  qed
  ultimately have "revocation_inv ?c" unfolding revocation_inv_def w by blast
  then show ?thesis using False by (simp add: replace_revoked_def)
qed (use assms in \<open>simp add: replace_revoked_def\<close>)

interpretation revocations: traced_machine revocation_step "\<lambda>_ _. []" "\<lambda>c (_ :: unit list). revocation_inv c"
proof
  show "revocation_inv (revocation_step c x)" if "revocation_inv c" for c x
    using that by (cases x) (simp_all add: watch_inv unwatch_inv replace_inv)
qed

lemma flag_stays:
  assumes "map_of (rv_flags c) w = Some True" "revocation_inv c"
  shows "map_of (rv_flags (revocation_step c x)) w = Some True"
proof (cases x)
  case (Watch jti)
  have "w < rv_next c" using assms by (auto simp: revocation_inv_def list_all_iff dest!: map_of_SomeD)
  then show ?thesis using assms(1) Watch by (simp add: watch_def Let_def)
qed (use assms(1) in \<open>auto simp: unwatch_def replace_revoked_def map_of_raise Let_def\<close>)

lemma flags_stay:
  "revocation_inv c \<Longrightarrow> map_of (rv_flags c) w = Some True \<Longrightarrow> map_of (rv_flags (run revocation_step c ops)) w = Some True"
proof (induction ops arbitrary: c)
  case (Cons x ops)
  show ?case using Cons.IH [of "revocation_step c x"] flag_stays [OF Cons.prems(2,1)] revocations.step_inv [OF Cons.prems(1)] by simp
qed simp

text \<open>
  A revocation reaches every watcher and is final for it.  Whatever watches were started
  and ended and whatever snapshots were installed, every watcher of a credential that is
  revoked now has its flag set, also one that began to watch after the revocation; and a flag
  that was ever set stays set, also when a later snapshot no longer lists the credential.
\<close>

theorem revocation_reaches_watchers:
  assumes "w \<in> set (watchers_of jti (run revocation_step new_revocation_cache ops))"
    and "revoked jti (run revocation_step new_revocation_cache ops)"
  shows "map_of (rv_flags (run revocation_step new_revocation_cache (ops @ later))) w = Some True"
proof -
  let ?c = "run revocation_step new_revocation_cache ops"
  have "revocation_inv new_revocation_cache" by (simp add: revocation_inv_def new_revocation_cache_def watchers_of_def)
  from revocations.run_inv [OF this] have inv: "revocation_inv ?c" by simp
  then have "map_of (rv_flags ?c) w = Some True" using assms by (auto simp: revocation_inv_def revoked_def)
  from flags_stay [OF inv this, of later] show ?thesis by (simp add: run_append)
qed

theorem revocation_reaches_watchers_witness:
  "map_of (rv_flags (run revocation_step new_revocation_cache ([Watch ''j'', Replace [''j''], Watch ''j''] @ [Replace []]))) 1 = Some True"
  by (rule revocation_reaches_watchers [where jti = "''j''"])
    (simp_all add: new_revocation_cache_def watch_def replace_revoked_def watchers_of_def max_revoked_jtis_def revoked_def raise_flags_def
      Let_def)

subsection \<open>A key that left the document expires\<close>

definition document_keys :: "key_json \<Rightarrow> jwks_config \<Rightarrow> refresh_env \<Rightarrow> string set" where
  "document_keys J conf env =
     (case re_fetch env of
        Body b ok \<Rightarrow>
          (case decode_jwks J (take (nat (jc_max_bytes conf + 1)) b) (jc_max_keys conf) of Inl _ \<Rightarrow> {} | Inr m \<Rightarrow> fst ` set m)
      | _ \<Rightarrow> {})"

fun refreshes :: "key_json \<Rightarrow> key_cache \<Rightarrow> refresh_env list \<Rightarrow> key_cache" where
  "refreshes J c [] = c"
| "refreshes J c (env # envs) = refreshes J (snd (refresh_keys J env c)) envs"

lemma refreshes_append: "refreshes J c (xs @ ys) = refreshes J (refreshes J c xs) ys"
  by (induction xs arbitrary: c) simp_all

lemma persist_keeps [simp]:
  "kc_keys (snd (persist_keys J env doc now c)) = kc_keys c" "kc_config (snd (persist_keys J env doc now c)) = kc_config c"
  by (simp_all add: persist_keys_def split: option.split)

lemma refresh_cases:
  "kc_config (snd (refresh_keys J env c)) = kc_config c \<and>
   (fst (refresh_keys J env c) \<noteq> None \<and> kc_keys (snd (refresh_keys J env c)) = kc_keys c \<or>
    fst (refresh_keys J env c) = None \<and>
    (\<exists>fresh. fst ` set fresh = document_keys J (kc_config c) env \<and>
       kc_keys (snd (refresh_keys J env c)) = merged_keys (re_now env) (kc_config c) fresh (kc_keys c)))"
proof (cases "re_fetch env")
  case (Body b ok)
  let ?e = "take (nat (jc_max_bytes (kc_config c) + 1)) b"
  show ?thesis
  proof (cases "decode_jwks J ?e (jc_max_keys (kc_config c))")
    case (Inr fresh)
    obtain r c1 where p: "persist_keys J (re_persist env) ?e (re_now env) c = (r, c1)" by fastforce
    have c1: "kc_keys c1 = kc_keys c" "kc_config c1 = kc_config c"
      using persist_keeps [of J "re_persist env" ?e "re_now env" c] p by simp_all
    have doc: "fst ` set fresh = document_keys J (kc_config c) env" using Body Inr by (simp add: document_keys_def)
    show ?thesis
    proof (cases "re_context env \<and> ok \<and> \<not> int (length ?e) > jc_max_bytes (kc_config c) \<and> r = None \<and>
        \<not> int (length (merged_keys (re_now env) (kc_config c) fresh (kc_keys c))) > jc_max_retained (kc_config c)")
      case True
      then have "refresh_keys J env c = (None, c1\<lparr>kc_keys := merged_keys (re_now env) (kc_config c) fresh (kc_keys c)\<rparr>)"
        using Body Inr p by (simp add: refresh_keys_def Let_def)
      then show ?thesis using c1 doc by auto
    next
      case False
      then have "fst (refresh_keys J env c) \<noteq> None \<and> (snd (refresh_keys J env c) = c \<or> snd (refresh_keys J env c) = c1)"
        using Body Inr p by (cases r) (auto simp: refresh_keys_def Let_def)
      then show ?thesis using c1 by auto
    qed
  qed (use Body in \<open>auto simp: refresh_keys_def Let_def\<close>)
qed (auto simp: refresh_keys_def)

definition retired_bound :: "int \<Rightarrow> key_cache \<Rightarrow> bool" where
  "retired_bound t c \<longleftrightarrow> (\<forall>k e. (k, e) \<in> set (kc_keys c) \<longrightarrow> ck_retired e \<longrightarrow> ck_expires e \<le> t + jc_retain (kc_config c))"

lemma merged_member:
  assumes "(k, e) \<in> set (merged_keys now conf fresh old)"
  shows "k \<in> fst ` set fresh \<and> \<not> ck_retired e \<or>
    ck_retired e \<and> (ck_expires e = now + jc_retain conf \<or> (k, e) \<in> set old)"
  using assms
  by (auto simp: merged_keys_def retained_keys_def map_filter_def split: if_splits intro: rev_image_eqI)

lemma retired_bound_refresh:
  assumes "retired_bound t c" "t \<le> re_now env"
  shows "retired_bound (re_now env) (snd (refresh_keys J env c))"
proof -
  have "ck_expires e \<le> re_now env + jc_retain (kc_config c)"
    if "(k, e) \<in> set (merged_keys (re_now env) (kc_config c) fresh (kc_keys c))" "ck_retired e" for fresh k e
    using merged_member [OF that(1)] that(2) assms unfolding retired_bound_def by force
  moreover have "retired_bound (re_now env) c" using assms unfolding retired_bound_def by force
  ultimately show ?thesis using refresh_cases [of J env c] unfolding retired_bound_def by metis
qed

definition dying :: "string \<Rightarrow> int \<Rightarrow> key_cache \<Rightarrow> bool" where
  "dying kid t c \<longleftrightarrow> (\<forall>e. (kid, e) \<in> set (kc_keys c) \<longrightarrow> ck_retired e \<and> ck_expires e \<le> t)"

lemma refresh_config: "kc_config (snd (refresh_keys J env c)) = kc_config c"
  using refresh_cases [of J env c] by blast

lemma dying_begins:
  assumes "retired_bound t c" "t \<le> re_now env" "fst (refresh_keys J env c) = None" "kid \<notin> document_keys J (kc_config c) env"
  shows "dying kid (re_now env + jc_retain (kc_config c)) (snd (refresh_keys J env c))"
proof -
  obtain fresh where f: "fst ` set fresh = document_keys J (kc_config c) env"
    "kc_keys (snd (refresh_keys J env c)) = merged_keys (re_now env) (kc_config c) fresh (kc_keys c)"
    using refresh_cases [of J env c] assms(3) by auto
  have "ck_retired e \<and> ck_expires e \<le> re_now env + jc_retain (kc_config c)"
    if "(kid, e) \<in> set (merged_keys (re_now env) (kc_config c) fresh (kc_keys c))" for e
    using merged_member [OF that] f(1) assms(1,2,4) unfolding retired_bound_def by force
  then show ?thesis unfolding dying_def f(2) by blast
qed

lemma retained_old:
  assumes "(k, e) \<in> set (merged_keys now conf fresh old)" "k \<notin> fst ` set fresh"
  shows "\<exists>e'. (k, e') \<in> set old \<and> (ck_retired e' \<longrightarrow> e = e')"
  using assms
  by (auto simp: merged_keys_def retained_keys_def map_filter_def split: if_splits intro: rev_image_eqI)

lemma dying_stays:
  assumes "dying kid t c" "kid \<notin> document_keys J (kc_config c) env"
  shows "dying kid t (snd (refresh_keys J env c))"
proof -
  have "ck_retired e \<and> ck_expires e \<le> t" if "(kid, e) \<in> set (merged_keys (re_now env) (kc_config c) fresh (kc_keys c))"
    "fst ` set fresh = document_keys J (kc_config c) env" for fresh e
    using retained_old [OF that(1)] that(2) assms by (auto simp: dying_def)
  then show ?thesis using refresh_cases [of J env c] assms(1) by (auto simp: dying_def)
qed

lemma refreshes_bound:
  "retired_bound t c \<Longrightarrow> sorted (t # map re_now envs) \<Longrightarrow>
    retired_bound (last (t # map re_now envs)) (refreshes J c envs) \<and> kc_config (refreshes J c envs) = kc_config c"
proof (induction envs arbitrary: c t)
  case (Cons env envs)
  have "retired_bound (re_now env) (snd (refresh_keys J env c))"
    by (rule retired_bound_refresh [OF Cons.prems(1)]) (use Cons.prems(2) in simp)
  from Cons.IH [OF this] Cons.prems(2) show ?case by (simp add: refresh_config)
qed simp

lemma refreshes_dying:
  "dying kid t c \<Longrightarrow> \<forall>env \<in> set envs. kid \<notin> document_keys J (kc_config c) env \<Longrightarrow> dying kid t (refreshes J c envs)"
proof (induction envs arbitrary: c)
  case (Cons env envs)
  show ?case using Cons.IH [OF dying_stays [OF Cons.prems(1)], of J env] Cons.prems(2) by (simp add: refresh_config)
qed simp

lemma dying_lookup:
  assumes "dying kid t c" "t \<le> now"
  shows "lookup_key kid now c = None"
proof (cases "map_of (kc_keys c) kid")
  case (Some e)
  have "ck_expires e \<le> t" using assms(1) map_of_SomeD [OF Some] unfolding dying_def by blast
  then show ?thesis using Some assms(2) by (simp add: lookup_key_def)
qed (simp add: lookup_key_def)

lemma new_cache_bound:
  assumes "new_jwks_cache J conf p st rd now file = Some c"
  shows "retired_bound t c \<and> kc_config c = config_defaults conf"
proof -
  let ?c0 = "\<lparr>kc_config = config_defaults conf, kc_keys = [], kc_file = file\<rparr>"
  have n: "\<not> ck_retired e" if "kc_keys c0 = []" "(k, e) \<in> set (kc_keys (load_persisted J p st rd now c0))" for c0 k e
    using that by (auto simp: load_persisted_def split: option.splits sum.splits prod.splits if_splits)
  have "kc_config (load_persisted J p st rd now c0) = kc_config c0" for c0
    by (auto simp: load_persisted_def split: option.split sum.split prod.split)
  moreover have "c = load_persisted J p st rd now ?c0" using assms by (auto simp: new_jwks_cache_def Let_def split: if_splits)
  ultimately show ?thesis using n [of ?c0] unfolding retired_bound_def by auto
qed


definition sample_jwk :: jwk where
  "sample_jwk = \<lparr>jk_kty = ''OKP'', jk_crv = ''Ed25519'', jk_use = ''sig'', jk_alg = ''EdDSA'', jk_kid = ''k'', jk_x = replicate 43 (CHR ''A'')\<rparr>"

definition sample_key_json :: key_json where
  "sample_key_json = \<lparr>kj_lexemes = (\<lambda>b. [Scalar ''1'']), kj_document = (\<lambda>b. Some ([sample_jwk], True)),
     kj_persisted = (\<lambda>b. None), kj_marshal = (\<lambda>p. None)\<rparr>"

definition sample_refresh :: "int \<Rightarrow> refresh_env" where
  "sample_refresh t = \<lparr>re_context = True, re_fetch = Body [1] True, re_now = t,
     re_persist = \<lparr>pe_path = True, pe_prepare = None, pe_write = True, pe_rename = True\<rparr>\<rparr>"

definition sample_conf :: jwks_config where
  "sample_conf = \<lparr>jc_ttl = 0, jc_retain = 0, jc_max_bytes = 0, jc_max_keys = 0, jc_max_retained = 0, jc_path = []\<rparr>"

lemma sample_decodes: "decode_jwks sample_key_json b 64 = Inr [(''k'', replicate 32 0)]"
proof -
  have "reject_duplicate_keys [Scalar ''1'']" using unique_accepted [of "JScalar ''1''"] by simp
  moreover have "raw_url_decode (replicate 43 (CHR ''A'')) = Some (replicate 32 0)"
    by code_simp
  ultimately show ?thesis by (simp add: decode_jwks_def sample_key_json_def sample_jwk_def)
qed


text \<open>
  The retention of a missing key counts from the refresh, also when the key had expired long
  before: a key that was refused is accepted again after the refresh that removes it.
\<close>

lemma expired_key_comes_back:
  "\<exists>c. lookup_key ''old'' 1000 c = None \<and> fst (refresh_keys sample_key_json (sample_refresh 1000) c) = None \<and>
     lookup_key ''old'' 1001 (snd (refresh_keys sample_key_json (sample_refresh 1000) c)) = Some [3]"
proof -
  let ?c = "\<lparr>kc_config = config_defaults sample_conf, kc_keys = [(''old'', \<lparr>ck_key = [3], ck_expires = 10, ck_retired = False\<rparr>)], kc_file = None\<rparr>"
  have conf: "jc_max_bytes (config_defaults sample_conf) = 65536" "jc_max_keys (config_defaults sample_conf) = 64"
    "jc_retain (config_defaults sample_conf) = 61 * minute" "jc_max_retained (config_defaults sample_conf) = 128" "jc_path (config_defaults sample_conf) = []"
    by (simp_all add: config_defaults_def sample_conf_def)
  show ?thesis
    by (rule exI [of _ ?c]) (simp add: refresh_keys_def sample_refresh_def Let_def conf sample_decodes persist_keys_def merged_keys_def
        retained_keys_def map_filter_def lookup_key_def minute_def)
qed

end
