(* ===== verification/Credentials.thy ===== *)
theory Credentials
  imports Credential_Stores "HOL-Library.Multiset"
begin

section \<open>Verifying a credential\<close>

text \<open>
  Model of \<open>src/internal/auth/verifier.go\<close>.  \<open>Verify\<close> splits a token, decodes its header,
  finds the key, checks the signature, decodes the claims, compares them with the policy of
  the endpoint and the clock, and consults the revocations and the cache of used credentials
  of \<open>Credential_Stores\<close>.  The signature scheme is an argument (\<open>ed\<close>), as is what
  \<open>encoding/json\<close> makes of a segment (\<open>cred_json\<close>).  Times are nanoseconds; \<open>time.Unix\<close>
  wraps as the 64-bit seconds of \<open>time.Time\<close> do.
\<close>

subsection \<open>Claims and policies\<close>

datatype auth_code =
    CredMalformed | AlgorithmInvalid | KeyUnknown | SignatureInvalid | AudienceInvalid | ScopeInvalid | BindingInvalid
  | CredExpired | NotYetValid | CredRevoked | CredReplayed

record jwt_header =
  jh_alg :: string
  jh_kid :: string
  jh_typ :: string

record claim_transfer_policy =
  cp_revision :: string
  cp_max_file :: int
  cp_max_files :: int
  cp_max_batch :: int
  cp_concurrent :: int
  cp_retention :: int
  cp_delivery :: int
  cp_spool :: int

record claims =
  cl_iss :: string
  cl_aud :: string
  cl_sub :: string
  cl_jti :: string
  cl_iat :: int
  cl_exp :: int
  cl_scope :: "string list"
  cl_class :: string
  cl_environment :: string
  cl_user :: string
  cl_cli_session :: string
  cl_helper :: string
  cl_machine :: string
  cl_generation :: int
  cl_source_machine :: string
  cl_session :: string
  cl_assignment :: string
  cl_warning :: string
  cl_connector :: string
  cl_connector_generation :: nat
  cl_edge_pool :: string
  cl_edge_node :: string
  cl_transfer_policy :: "claim_transfer_policy option"
  cl_counter_epoch :: string
  cl_confirmation :: "string option"

record auth_policy =
  po_iss :: string
  po_aud :: string
  po_class :: string
  po_scopes :: "string list"
  po_environment :: string
  po_user :: string
  po_cli_session :: string
  po_helper :: string
  po_machine :: string
  po_source_machine :: string
  po_session :: string
  po_assignment :: string
  po_warning :: string
  po_connector :: string
  po_connector_generation :: nat
  po_edge_pool :: string
  po_edge_node :: string
  po_counter_epoch :: string
  po_max_lifetime :: int
  po_single_use :: bool

definition match_text :: "string \<Rightarrow> string \<Rightarrow> bool" where
  "match_text expected actual \<longleftrightarrow> expected = [] \<or> expected = actual"

definition match_uint :: "nat \<Rightarrow> nat \<Rightarrow> bool" where
  "match_uint expected actual \<longleftrightarrow> expected = 0 \<or> expected = actual"

definition bindings_match :: "claims \<Rightarrow> auth_policy \<Rightarrow> bool" where
  "bindings_match c p \<longleftrightarrow>
     match_text (po_environment p) (cl_environment c) \<and> match_text (po_machine p) (cl_machine c) \<and>
     match_text (po_source_machine p) (cl_source_machine c) \<and> match_text (po_user p) (cl_user c) \<and>
     match_text (po_cli_session p) (cl_cli_session c) \<and> match_text (po_helper p) (cl_helper c) \<and>
     match_text (po_session p) (cl_session c) \<and> match_text (po_assignment p) (cl_assignment c) \<and>
     match_text (po_warning p) (cl_warning c) \<and> match_text (po_connector p) (cl_connector c) \<and>
     match_uint (po_connector_generation p) (cl_connector_generation c) \<and> match_text (po_edge_pool p) (cl_edge_pool c) \<and>
     match_text (po_edge_node p) (cl_edge_node c) \<and> match_text (po_counter_epoch p) (cl_counter_epoch c)"

text \<open>The two loops of \<open>exactScopes\<close>, over a list that stands for the set.\<close>

fun build_scopes :: "string list \<Rightarrow> string list \<Rightarrow> string list option" where
  "build_scopes acc [] = Some acc"
| "build_scopes acc (s # ss) = (if s = [] \<or> s \<in> set acc then None else build_scopes (s # acc) ss)"

fun take_scopes :: "string list \<Rightarrow> string list \<Rightarrow> string list option" where
  "take_scopes acc [] = Some acc"
| "take_scopes acc (s # ss) = (if s \<notin> set acc then None else take_scopes (remove1 s acc) ss)"

definition exact_scopes :: "string list \<Rightarrow> string list \<Rightarrow> bool" where
  "exact_scopes actual expected =
     (if length actual \<noteq> length expected then False
      else case build_scopes [] expected of
        None \<Rightarrow> False
      | Some acc \<Rightarrow> (case take_scopes acc actual of None \<Rightarrow> False | Some rest \<Rightarrow> length rest = 0))"

subsection \<open>Decoding\<close>

record cred_json =
  cj_lexemes :: "bytes \<Rightarrow> lexeme list"
  cj_header :: "bytes \<Rightarrow> (jwt_header \<times> bool) option"
  cj_claims :: "bytes \<Rightarrow> (claims \<times> bool) option"

definition decode_segment :: "(bytes \<Rightarrow> lexeme list) \<Rightarrow> (bytes \<Rightarrow> ('a \<times> bool) option) \<Rightarrow> string \<Rightarrow> 'a option" where
  "decode_segment lx dec segment =
     (case raw_url_decode segment of
        None \<Rightarrow> None
      | Some b \<Rightarrow>
          if \<not> reject_duplicate_keys (lx b) then None
          else case dec b of None \<Rightarrow> None | Some (x, at_end) \<Rightarrow> if at_end then Some x else None)"

text \<open>\<open>strings.Split\<close> at the dots.\<close>

fun split_dots :: "string \<Rightarrow> string list" where
  "split_dots [] = [[]]"
| "split_dots (c # cs) =
     (if c = CHR ''.'' then [] # split_dots cs
      else case split_dots cs of [] \<Rightarrow> [[c]] | w # ws \<Rightarrow> (c # w) # ws)"

subsection \<open>The verifier\<close>

record verifier =
  vf_keys :: "key_cache option"
  vf_revocations :: "revocation_cache option"
  vf_replays :: "replay_cache option"
  vf_skew :: int

text \<open>The readings of the clock and the refresh, in the order in which they are used.\<close>

record verify_env =
  ve_lookup :: int
  ve_refresh :: refresh_env
  ve_lookup2 :: int
  ve_now :: int
  ve_consume :: int
  ve_locked :: int

definition unix_time :: "int \<Rightarrow> int" where
  "unix_time s = (i64_wrap (s + 62135596800) - 62135596800) * 1000000000"

definition time_sub :: "int \<Rightarrow> int \<Rightarrow> int" where
  "time_sub a b = max (- (2 ^ 63)) (min (2 ^ 63 - 1) (a - b))"

text \<open>The key of a header: looked up, and once more after a refresh when it is missing.\<close>

definition find_key :: "key_json \<Rightarrow> verify_env \<Rightarrow> string \<Rightarrow> key_cache \<Rightarrow> bytes option \<times> key_cache" where
  "find_key KJ env kid c =
     (case lookup_key kid (ve_lookup env) c of
        Some k \<Rightarrow> (if length k = 32 then Some k else None, c)
      | None \<Rightarrow>
          (case refresh_keys KJ (ve_refresh env) c of
             (Some e, c1) \<Rightarrow> (None, c1)
           | (None, c1) \<Rightarrow>
               (case lookup_key kid (ve_lookup2 env) c1 of
                  None \<Rightarrow> (None, c1)
                | Some k \<Rightarrow> (if length k = 32 then Some k else None, c1))))"

text \<open>The checks of \<open>Verify\<close> on the claims, up to the revocations.\<close>

definition check_claims :: "int \<Rightarrow> int \<Rightarrow> auth_policy \<Rightarrow> claims \<Rightarrow> auth_code option" where
  "check_claims now skew p c =
     (if cl_iss c \<noteq> po_iss p then Some BindingInvalid
      else if cl_aud c \<noteq> po_aud p then Some AudienceInvalid
      else if cl_class c \<noteq> po_class p \<or> \<not> bindings_match c p \<or> cl_user c \<noteq> [] \<and> cl_sub c \<noteq> cl_user c then Some BindingInvalid
      else if \<not> exact_scopes (cl_scope c) (po_scopes p) then Some ScopeInvalid
      else
        let skew' = (if skew < 0 then 0 else skew);
            issued = unix_time (cl_iat c);
            expires = unix_time (cl_exp c)
        in if cl_jti c = [] \<or> cl_sub c = [] \<or> cl_iat c < 0 \<or> cl_exp c \<le> cl_iat c then Some CredMalformed
           else if po_max_lifetime p > 0 \<and> time_sub expires issued > po_max_lifetime p then Some BindingInvalid
           else if now > expires + skew' then Some CredExpired
           else if now + skew' < issued then Some NotYetValid
           else None)"

text \<open>The part of \<open>Verify\<close> after the claims were checked.\<close>

definition admit :: "verify_env \<Rightarrow> auth_policy \<Rightarrow> claims \<Rightarrow> verifier \<Rightarrow> (auth_code + claims) \<times> verifier" where
  "admit env p c v =
     (if (case vf_revocations v of None \<Rightarrow> False | Some r \<Rightarrow> revoked (cl_jti c) r) then (Inl CredRevoked, v)
      else if po_single_use p then
        (case vf_replays v of
           None \<Rightarrow> (Inl CredReplayed, v)
         | Some rc \<Rightarrow>
             (case consume (ve_consume env) (ve_locked env) (cl_jti c) (unix_time (cl_exp c)) rc of
                (False, rc') \<Rightarrow> (Inl CredReplayed, v\<lparr>vf_replays := Some rc'\<rparr>)
              | (True, rc') \<Rightarrow> (Inr c, v\<lparr>vf_replays := Some rc'\<rparr>)))
      else (Inr c, v))"

definition verify_signed ::
    "cred_json \<Rightarrow> (bytes \<Rightarrow> string \<Rightarrow> bytes \<Rightarrow> bool) \<Rightarrow> verify_env \<Rightarrow> string \<Rightarrow> string \<Rightarrow> string \<Rightarrow> bytes \<Rightarrow> auth_policy \<Rightarrow> verifier \<Rightarrow>
     (auth_code + claims) \<times> verifier" where
  "verify_signed CJ ed env h b sg key p v =
     (case raw_url_decode sg of
        None \<Rightarrow> (Inl CredMalformed, v)
      | Some signature \<Rightarrow>
          if length signature \<noteq> 64 then (Inl CredMalformed, v)
          else if \<not> ed key (h @ ''.'' @ b) signature then (Inl SignatureInvalid, v)
          else case decode_segment (cj_lexemes CJ) (cj_claims CJ) b of
            None \<Rightarrow> (Inl CredMalformed, v)
          | Some c \<Rightarrow>
              (case check_claims (ve_now env) (vf_skew v) p c of Some e \<Rightarrow> (Inl e, v) | None \<Rightarrow> admit env p c v))"

definition verify ::
    "cred_json \<Rightarrow> key_json \<Rightarrow> (bytes \<Rightarrow> string \<Rightarrow> bytes \<Rightarrow> bool) \<Rightarrow> verify_env \<Rightarrow> string \<Rightarrow> auth_policy \<Rightarrow> verifier \<Rightarrow>
     (auth_code + claims) \<times> verifier" where
  "verify CJ KJ ed env token p v =
     (case vf_keys v of
        None \<Rightarrow> (Inl CredMalformed, v)
      | Some kc \<Rightarrow>
          if length token = 0 \<or> length token > 16384 then (Inl CredMalformed, v)
          else case split_dots token of
            [h, b, sg] \<Rightarrow>
              if length h > 2048 \<or> length b > 12288 \<or> length sg > 512 then (Inl CredMalformed, v)
              else (case decode_segment (cj_lexemes CJ) (cj_header CJ) h of
                      None \<Rightarrow> (Inl CredMalformed, v)
                    | Some hdr \<Rightarrow>
                        if jh_alg hdr \<noteq> ''EdDSA'' \<or> jh_typ hdr \<noteq> ''paperboat-credential+jwt'' \<or> jh_kid hdr = [] then (Inl AlgorithmInvalid, v)
                        else (case find_key KJ env (jh_kid hdr) kc of
                                (None, kc') \<Rightarrow> (Inl KeyUnknown, v\<lparr>vf_keys := Some kc'\<rparr>)
                              | (Some key, kc') \<Rightarrow> verify_signed CJ ed env h b sg key p (v\<lparr>vf_keys := Some kc'\<rparr>)))
          | _ \<Rightarrow> (Inl CredMalformed, v))"

subsection \<open>The scopes\<close>

lemma build_scopes_spec:
  "build_scopes acc ss = Some r \<longleftrightarrow> [] \<notin> set ss \<and> distinct ss \<and> set ss \<inter> set acc = {} \<and> r = rev ss @ acc"
  by (induction ss arbitrary: acc) auto

lemma take_scopes_spec: "take_scopes acc ss = Some r \<Longrightarrow> mset acc = mset ss + mset r"
proof (induction ss arbitrary: acc)
  case (Cons s ss)
  then have s: "s \<in> set acc" "take_scopes (remove1 s acc) ss = Some r" by (auto split: if_splits)
  have "mset acc = add_mset s (mset (remove1 s acc))" using s(1) by simp
  then show ?case using Cons.IH [OF s(2)] by simp
qed simp

lemma take_scopes_all: "mset acc = mset ss \<Longrightarrow> take_scopes acc ss = Some []"
proof (induction ss arbitrary: acc)
  case (Cons s ss)
  then have "s \<in> set acc" by (metis list.set_intros(1) mset_eq_setD)
  moreover have "mset (remove1 s acc) = mset ss" using Cons.prems by simp
  ultimately show ?case using Cons.IH by simp
qed simp

lemma exact_scopes_iff:
  "exact_scopes actual expected \<longleftrightarrow>
     distinct expected \<and> [] \<notin> set expected \<and> set actual = set expected \<and> length actual = length expected"
proof
  assume e: "exact_scopes actual expected"
  then have len: "length actual = length expected" by (simp add: exact_scopes_def split: if_splits)
  obtain acc where acc: "build_scopes [] expected = Some acc" "take_scopes acc actual = Some []"
    using e by (auto simp: exact_scopes_def split: if_splits option.splits)
  have ex: "[] \<notin> set expected" "distinct expected" "acc = rev expected" using acc(1) by (auto simp: build_scopes_spec)
  have "mset expected = mset actual" using take_scopes_spec [OF acc(2)] ex(3) by simp
  then have "set actual = set expected" by (metis mset_eq_setD)
  then show "distinct expected \<and> [] \<notin> set expected \<and> set actual = set expected \<and> length actual = length expected"
    using ex len by blast
next
  assume a: "distinct expected \<and> [] \<notin> set expected \<and> set actual = set expected \<and> length actual = length expected"
  then have "distinct actual" by (metis card_distinct distinct_card)
  then have "mset actual = mset expected" using a set_eq_iff_mset_eq_distinct by blast
  then have "take_scopes (rev expected) actual = Some []" by (intro take_scopes_all) simp
  moreover have "build_scopes [] expected = Some (rev expected)" using a by (auto simp: build_scopes_spec)
  ultimately show "exact_scopes actual expected" using a by (simp add: exact_scopes_def)
qed

subsection \<open>What an accepted credential has\<close>

definition bound_texts :: "auth_policy \<Rightarrow> claims \<Rightarrow> (string \<times> string) list" where
  "bound_texts p c =
     [(po_environment p, cl_environment c), (po_machine p, cl_machine c), (po_source_machine p, cl_source_machine c), (po_user p, cl_user c),
      (po_cli_session p, cl_cli_session c), (po_helper p, cl_helper c), (po_session p, cl_session c), (po_assignment p, cl_assignment c),
      (po_warning p, cl_warning c), (po_connector p, cl_connector c), (po_edge_pool p, cl_edge_pool c), (po_edge_node p, cl_edge_node c),
      (po_counter_epoch p, cl_counter_epoch c)]"

text \<open>
  The claims are those the policy asks for: same issuer, audience and class, every binding the
  policy names, its scopes and no others, and the clock within the life of the credential.
\<close>

definition claims_rules :: "int \<Rightarrow> int \<Rightarrow> auth_policy \<Rightarrow> claims \<Rightarrow> bool" where
  "claims_rules now skew p c \<longleftrightarrow>
     cl_iss c = po_iss p \<and> cl_aud c = po_aud p \<and> cl_class c = po_class p \<and>
     (\<forall>(expected, actual) \<in> set (bound_texts p c). expected \<noteq> [] \<longrightarrow> actual = expected) \<and>
     (po_connector_generation p \<noteq> 0 \<longrightarrow> cl_connector_generation c = po_connector_generation p) \<and>
     (cl_user c \<noteq> [] \<longrightarrow> cl_sub c = cl_user c) \<and> cl_sub c \<noteq> [] \<and> cl_jti c \<noteq> [] \<and>
     set (cl_scope c) = set (po_scopes p) \<and> length (cl_scope c) = length (po_scopes p) \<and>
     0 \<le> cl_iat c \<and> cl_iat c < cl_exp c \<and>
     (po_max_lifetime p > 0 \<longrightarrow> time_sub (unix_time (cl_exp c)) (unix_time (cl_iat c)) \<le> po_max_lifetime p) \<and>
     unix_time (cl_iat c) \<le> now + max 0 skew \<and> now \<le> unix_time (cl_exp c) + max 0 skew"

lemma match_text_iff: "match_text expected actual \<longleftrightarrow> (expected \<noteq> [] \<longrightarrow> actual = expected)"
  by (auto simp: match_text_def)

lemma check_claims_rules:
  assumes "check_claims now skew p c = None"
  shows "claims_rules now skew p c"
proof -
  have a: "cl_iss c = po_iss p" "cl_aud c = po_aud p" "cl_class c = po_class p" "bindings_match c p" "cl_user c \<noteq> [] \<longrightarrow> cl_sub c = cl_user c"
    "exact_scopes (cl_scope c) (po_scopes p)" "cl_jti c \<noteq> []" "cl_sub c \<noteq> []" "0 \<le> cl_iat c" "cl_iat c < cl_exp c"
    "po_max_lifetime p > 0 \<longrightarrow> time_sub (unix_time (cl_exp c)) (unix_time (cl_iat c)) \<le> po_max_lifetime p"
    "now \<le> unix_time (cl_exp c) + (if skew < 0 then 0 else skew)" "unix_time (cl_iat c) \<le> now + (if skew < 0 then 0 else skew)"
    using assms unfolding check_claims_def Let_def by (auto split: if_splits)
  have "(if skew < 0 then 0 else skew) = max 0 skew" by simp
  moreover have "\<forall>(expected, actual) \<in> set (bound_texts p c). expected \<noteq> [] \<longrightarrow> actual = expected"
    using a(4) by (simp add: bindings_match_def bound_texts_def match_text_iff)
  moreover have "po_connector_generation p \<noteq> 0 \<longrightarrow> cl_connector_generation c = po_connector_generation p"
    using a(4) unfolding bindings_match_def match_uint_def by auto
  moreover have "set (cl_scope c) = set (po_scopes p)" "length (cl_scope c) = length (po_scopes p)" using a(6) exact_scopes_iff by blast+
  ultimately show ?thesis using a(1-3,5,7-13) unfolding claims_rules_def by (simp only: simp_thms)
qed

lemma find_key_source:
  assumes "find_key KJ env kid c = (Some key, c')"
  shows "(lookup_key kid (ve_lookup env) c = Some key \<and> c' = c \<or>
    refresh_keys KJ (ve_refresh env) c = (None, c') \<and> lookup_key kid (ve_lookup2 env) c' = Some key) \<and> length key = 32"
  using assms by (auto simp: find_key_def split: option.splits prod.splits if_splits)

lemma verify_signed_accepts:
  assumes "verify_signed CJ ed env h b sg key p v = (Inr c, v')"
  shows "\<exists>sig. raw_url_decode sg = Some sig \<and> length sig = 64 \<and> ed key (h @ ''.'' @ b) sig \<and>
    decode_segment (cj_lexemes CJ) (cj_claims CJ) b = Some c \<and> check_claims (ve_now env) (vf_skew v) p c = None \<and> admit env p c v = (Inr c, v')"
proof -
  obtain sig where s: "raw_url_decode sg = Some sig" "length sig = 64" "ed key (h @ ''.'' @ b) sig"
    using assms by (auto simp: verify_signed_def split: option.splits if_splits)
  obtain c1 where c1: "decode_segment (cj_lexemes CJ) (cj_claims CJ) b = Some c1" "check_claims (ve_now env) (vf_skew v) p c1 = None"
    "admit env p c1 v = (Inr c, v')"
    using assms s by (auto simp: verify_signed_def split: option.splits)
  have "c1 = c" using c1(3) by (auto simp: admit_def split: if_splits option.splits prod.splits bool.splits)
  then show ?thesis using s c1 by auto
qed

lemma verify_accepts:
  assumes "verify CJ KJ ed env token p v = (Inr c, v')"
  obtains kc h b sg hdr key kc' where "vf_keys v = Some kc" "split_dots token = [h, b, sg]" "length token \<le> 16384"
    "decode_segment (cj_lexemes CJ) (cj_header CJ) h = Some hdr" "jh_alg hdr = ''EdDSA''" "jh_typ hdr = ''paperboat-credential+jwt''"
    "find_key KJ env (jh_kid hdr) kc = (Some key, kc')" "verify_signed CJ ed env h b sg key p (v\<lparr>vf_keys := Some kc'\<rparr>) = (Inr c, v')"
proof -
  obtain kc where kc: "vf_keys v = Some kc" "length token \<le> 16384"
    using assms by (auto simp: verify_def split: option.splits if_splits)
  obtain h b sg where s: "split_dots token = [h, b, sg]"
    using assms kc by (auto simp: verify_def split: list.splits if_splits)
  obtain hdr where d: "decode_segment (cj_lexemes CJ) (cj_header CJ) h = Some hdr" "jh_alg hdr = ''EdDSA''" "jh_typ hdr = ''paperboat-credential+jwt''"
    using assms kc s by (auto simp: verify_def split: option.splits if_splits)
  obtain key kc' where k: "find_key KJ env (jh_kid hdr) kc = (Some key, kc')"
    using assms kc s d by (cases "find_key KJ env (jh_kid hdr) kc") (auto simp: verify_def split: option.splits if_splits)
  have "verify_signed CJ ed env h b sg key p (v\<lparr>vf_keys := Some kc'\<rparr>) = (Inr c, v')"
    using assms kc s d k by (auto simp: verify_def split: if_splits)
  then show ?thesis using that kc s d k by blast
qed

lemma admit_accepts:
  assumes "admit env p c v = (Inr c', v')"
  shows "c' = c \<and> (\<forall>r. vf_revocations v = Some r \<longrightarrow> \<not> revoked (cl_jti c) r) \<and>
    (po_single_use p \<longrightarrow> (\<exists>rc rc'. vf_replays v = Some rc \<and>
       consume (ve_consume env) (ve_locked env) (cl_jti c) (unix_time (cl_exp c)) rc = (True, rc') \<and> v' = v\<lparr>vf_replays := Some rc'\<rparr>))"
  using assms by (auto simp: admit_def split: if_splits option.splits prod.splits bool.splits)


definition sample_claims :: claims where
  "sample_claims = \<lparr>cl_iss = ''i'', cl_aud = ''a'', cl_sub = ''u'', cl_jti = ''j'', cl_iat = 0, cl_exp = 10, cl_scope = [''s''], cl_class = ''c'',
     cl_environment = [], cl_user = ''u'', cl_cli_session = [], cl_helper = [], cl_machine = ''m'', cl_generation = 0, cl_source_machine = [],
     cl_session = [], cl_assignment = [], cl_warning = [], cl_connector = [], cl_connector_generation = 0, cl_edge_pool = [], cl_edge_node = [],
     cl_transfer_policy = None, cl_counter_epoch = [], cl_confirmation = None\<rparr>"

definition sample_policy :: auth_policy where
  "sample_policy = \<lparr>po_iss = ''i'', po_aud = ''a'', po_class = ''c'', po_scopes = [''s''], po_environment = [], po_user = ''u'', po_cli_session = [],
     po_helper = [], po_machine = ''m'', po_source_machine = [], po_session = [], po_assignment = [], po_warning = [], po_connector = [],
     po_connector_generation = 0, po_edge_pool = [], po_edge_node = [], po_counter_epoch = [], po_max_lifetime = 3600000000000, po_single_use = False\<rparr>"

definition sample_cred_json :: cred_json where
  "sample_cred_json = \<lparr>cj_lexemes = (\<lambda>b. [Scalar ''1'']),
     cj_header = (\<lambda>b. Some (\<lparr>jh_alg = ''EdDSA'', jh_kid = ''k'', jh_typ = ''paperboat-credential+jwt''\<rparr>, True)),
     cj_claims = (\<lambda>b. Some (sample_claims, True))\<rparr>"

definition sample_verifier :: verifier where
  "sample_verifier = \<lparr>vf_keys = Some \<lparr>kc_config = config_defaults sample_conf,
       kc_keys = [(''k'', \<lparr>ck_key = replicate 32 0, ck_expires = 100, ck_retired = False\<rparr>)], kc_file = None\<rparr>,
     vf_revocations = None, vf_replays = None, vf_skew = 0\<rparr>"

definition sample_env :: verify_env where
  "sample_env = \<lparr>ve_lookup = 7, ve_refresh = sample_refresh 7, ve_lookup2 = 7, ve_now = 5000000000, ve_consume = 8, ve_locked = 8\<rparr>"

definition sample_token :: string where
  "sample_token = ''AA.AA.'' @ replicate 86 (CHR ''A'')"

lemma sample_decoding:
  "split_dots sample_token = [''AA'', ''AA'', replicate 86 (CHR ''A'')]" "raw_url_decode (replicate 86 (CHR ''A'')) = Some (replicate 64 0)"
  "raw_url_decode ''AA'' = Some [0]"
  by code_simp+

lemma sample_accepted:
  "verify sample_cred_json sample_key_json (\<lambda>_ _ _. True) sample_env sample_token sample_policy sample_verifier = (Inr sample_claims, sample_verifier)"
proof -
  have dup: "reject_duplicate_keys [Scalar ''1'']" using unique_accepted [of "JScalar ''1''"] by simp
  have h: "decode_segment (cj_lexemes sample_cred_json) (cj_header sample_cred_json) ''AA'' =
      Some \<lparr>jh_alg = ''EdDSA'', jh_kid = ''k'', jh_typ = ''paperboat-credential+jwt''\<rparr>"
    "decode_segment (cj_lexemes sample_cred_json) (cj_claims sample_cred_json) ''AA'' = Some sample_claims"
    by (simp_all add: decode_segment_def sample_decoding dup sample_cred_json_def)
  have ch: "check_claims (ve_now sample_env) (vf_skew sample_verifier) sample_policy sample_claims = None"
    by (simp add: check_claims_def sample_policy_def sample_claims_def bindings_match_def match_text_def match_uint_def exact_scopes_def
        unix_time_def i64_wrap_def time_sub_def sample_env_def sample_verifier_def Let_def)
  have ad: "admit sample_env sample_policy sample_claims sample_verifier = (Inr sample_claims, sample_verifier)"
    by (simp add: admit_def sample_verifier_def sample_policy_def)
  obtain kc where kc: "vf_keys sample_verifier = Some kc" "find_key sample_key_json sample_env ''k'' kc = (Some (replicate 32 0), kc)"
    "sample_verifier\<lparr>vf_keys := Some kc\<rparr> = sample_verifier"
    by (simp add: sample_verifier_def find_key_def lookup_key_def sample_env_def)
  have sg: "verify_signed sample_cred_json (\<lambda>_ _ _. True) sample_env ''AA'' ''AA'' (replicate 86 (CHR ''A'')) key sample_policy sample_verifier =
      (Inr sample_claims, sample_verifier)" for key
    by (simp add: verify_signed_def sample_decoding(2) h(2) ch ad)
  have len: "length sample_token = 92" by (simp add: sample_token_def)
  show ?thesis by (simp add: verify_def kc sample_decoding(1) h(1) sg len)
qed


subsection \<open>A single use\<close>

text \<open>
  Calls of \<open>Verify\<close> one after the other, each with its own token, policy, keys and
  revocations; the cache of used credentials is shared.  The clock is read at the start of
  \<open>Consume\<close> and under its lock; the two numbers of a call are how far it moved before each.
\<close>

record verify_call =
  vc_token :: string
  vc_policy :: auth_policy
  vc_env :: verify_env
  vc_state :: verifier
  vc_wait :: nat
  vc_lock_wait :: nat

definition call_env :: "int \<Rightarrow> verify_call \<Rightarrow> verify_env" where
  "call_env t x = (vc_env x)\<lparr>ve_consume := t + int (vc_wait x), ve_locked := t + int (vc_wait x) + int (vc_lock_wait x)\<rparr>"

definition call_verify ::
    "cred_json \<Rightarrow> key_json \<Rightarrow> (bytes \<Rightarrow> string \<Rightarrow> bytes \<Rightarrow> bool) \<Rightarrow> replay_cache \<times> int \<Rightarrow> verify_call \<Rightarrow> (auth_code + claims) \<times> verifier" where
  "call_verify CJ KJ ed s x =
     verify CJ KJ ed (call_env (snd s) x) (vc_token x) (vc_policy x) ((vc_state x)\<lparr>vf_replays := Some (fst s)\<rparr>)"

definition call_step ::
    "cred_json \<Rightarrow> key_json \<Rightarrow> (bytes \<Rightarrow> string \<Rightarrow> bytes \<Rightarrow> bool) \<Rightarrow> replay_cache \<times> int \<Rightarrow> verify_call \<Rightarrow> replay_cache \<times> int" where
  "call_step CJ KJ ed s x =
     (case vf_replays (snd (call_verify CJ KJ ed s x)) of None \<Rightarrow> fst s | Some rc \<Rightarrow> rc, ve_locked (call_env (snd s) x))"

text \<open>The single-use credentials a call accepts before their expiry.\<close>

definition accepted_uses ::
    "cred_json \<Rightarrow> key_json \<Rightarrow> (bytes \<Rightarrow> string \<Rightarrow> bytes \<Rightarrow> bool) \<Rightarrow> replay_cache \<times> int \<Rightarrow> verify_call \<Rightarrow> (string \<times> int) list" where
  "accepted_uses CJ KJ ed s x =
     (case fst (call_verify CJ KJ ed s x) of
        Inl _ \<Rightarrow> []
      | Inr c \<Rightarrow>
          if po_single_use (vc_policy x) \<and> unix_time (cl_exp c) > ve_locked (call_env (snd s) x)
          then [(cl_jti c, unix_time (cl_exp c))] else [])"

definition used_up :: "replay_cache \<times> int \<Rightarrow> (string \<times> int) set" where
  "used_up s = {(j, e). map_of (rp_entries (fst s)) j = Some e \<or> e \<le> snd s}"

lemma consume_keeps:
  assumes "consume n1 n2 j e c = (ok, c')" "map_of (rp_entries c) k = Some x" "n2 < x"
    "distinct (map fst (rp_entries c))"
  shows "map_of (rp_entries c') k = Some x"
proof -
  let ?live = "filter (\<lambda>(k, e). e > n2) (rp_entries c)"
  have "(k, x) \<in> set ?live" using map_of_SomeD [OF assms(2)] assms(3) by simp
  moreover have "distinct (map fst ?live)" by (rule distinct_map_filter [OF assms(4)])
  ultimately have live: "map_of ?live k = Some x" by simp
  then show ?thesis using assms(1,2) by (auto simp: consume_def Let_def update_conv' split: if_splits)
qed

lemma consume_distinct:
  assumes "distinct (map fst (rp_entries c))"
  shows "distinct (map fst (rp_entries (snd (consume n1 n2 j e c))))"
  using assms distinct_map_filter [OF assms, of "\<lambda>(k, e). e > n2"]
  by (auto simp: consume_def Let_def intro: distinct_update)

lemma admit_replays:
  assumes "vf_replays v = Some rc"
  shows "vf_replays (snd (admit env p c v)) = Some rc \<or>
    vf_replays (snd (admit env p c v)) = Some (snd (consume (ve_consume env) (ve_locked env) (cl_jti c) (unix_time (cl_exp c)) rc))"
  using assms by (auto simp: admit_def split: option.split prod.split bool.split)

lemma verify_replays:
  assumes "vf_replays v = Some rc"
  shows "vf_replays (snd (verify CJ KJ ed env token p v)) = Some rc \<or>
    (\<exists>j e. vf_replays (snd (verify CJ KJ ed env token p v)) = Some (snd (consume (ve_consume env) (ve_locked env) j e rc)))"
proof -
  have vs: "vf_replays (snd (verify_signed CJ ed env h b sg key p w)) = Some rc \<or>
      (\<exists>j e. vf_replays (snd (verify_signed CJ ed env h b sg key p w)) = Some (snd (consume (ve_consume env) (ve_locked env) j e rc)))"
    if "vf_replays w = Some rc" for h b sg key w
    using admit_replays [OF that] that by (auto simp: verify_signed_def split: option.split) metis
  show ?thesis using vs assms by (auto simp: verify_def split: option.split list.split prod.split)
qed

lemma call_replays:
  obtains "fst (call_step CJ KJ ed s x) = fst s"
  | j e where "fst (call_step CJ KJ ed s x) = snd (consume (ve_consume (call_env (snd s) x)) (ve_locked (call_env (snd s) x)) j e (fst s))"
  using verify_replays [of "(vc_state x)\<lparr>vf_replays := Some (fst s)\<rparr>" "fst s" CJ KJ ed "call_env (snd s) x" "vc_token x" "vc_policy x"]
  by (auto simp: call_step_def call_verify_def)

lemma accepted_consumes:
  assumes "k \<in> set (accepted_uses CJ KJ ed s x)"
  obtains j e rc' where "k = (j, e)" "ve_locked (call_env (snd s) x) < e" "fst (call_step CJ KJ ed s x) = rc'"
    "consume (ve_consume (call_env (snd s) x)) (ve_locked (call_env (snd s) x)) j e (fst s) = (True, rc')"
proof -
  let ?v = "(vc_state x)\<lparr>vf_replays := Some (fst s)\<rparr>"
  obtain c where c: "fst (call_verify CJ KJ ed s x) = Inr c" "po_single_use (vc_policy x)"
    "unix_time (cl_exp c) > ve_locked (call_env (snd s) x)" "k = (cl_jti c, unix_time (cl_exp c))"
    using assms by (cases "fst (call_verify CJ KJ ed s x)") (auto simp: accepted_uses_def split: if_splits)
  then obtain v' where v: "verify CJ KJ ed (call_env (snd s) x) (vc_token x) (vc_policy x) ?v = (Inr c, v')"
    by (metis call_verify_def prod.collapse)
  obtain kc h b sg key kc' where s: "verify_signed CJ ed (call_env (snd s) x) h b sg key (vc_policy x) (?v\<lparr>vf_keys := Some kc'\<rparr>) = (Inr c, v')"
    by (rule verify_accepts [OF v]) blast
  have "admit (call_env (snd s) x) (vc_policy x) c (?v\<lparr>vf_keys := Some kc'\<rparr>) = (Inr c, v')"
    using verify_signed_accepts [OF s] by blast
  from admit_accepts [OF this] c(2) obtain rc' where
    rc': "consume (ve_consume (call_env (snd s) x)) (ve_locked (call_env (snd s) x)) (cl_jti c) (unix_time (cl_exp c)) (fst s) = (True, rc')"
    "vf_replays v' = Some rc'" by auto
  have "fst (call_step CJ KJ ed s x) = rc'" using v rc'(2) by (simp add: call_step_def call_verify_def)
  then show ?thesis using that [OF c(4) c(3) _ rc'(1)] by blast
qed

lemma call_time: "snd s \<le> snd (call_step CJ KJ ed s x)" "ve_locked (call_env (snd s) x) = snd (call_step CJ KJ ed s x)"
  "ve_consume (call_env (snd s) x) \<ge> snd s"
  by (simp_all add: call_step_def call_env_def)

interpretation credential_once: at_most_once "call_step CJ KJ ed" "accepted_uses CJ KJ ed" used_up
  "\<lambda>s. distinct (map fst (rp_entries (fst s)))" "\<lambda>_. True"
proof
  fix s :: "replay_cache \<times> int" and x k
  let ?n1 = "ve_consume (call_env (snd s) x)"
  let ?n2 = "ve_locked (call_env (snd s) x)"
  assume d: "distinct (map fst (rp_entries (fst s)))" and k: "k \<in> set (accepted_uses CJ KJ ed s x)"
  from accepted_consumes [OF k] obtain j e rc' where c: "k = (j, e)" "?n2 < e" "fst (call_step CJ KJ ed s x) = rc'"
    "consume ?n1 ?n2 j e (fst s) = (True, rc')" by blast
  have "map_of (filter (\<lambda>(k, e). e > ?n2) (rp_entries (fst s))) j = None" "map_of (rp_entries rc') j = Some e"
    using c(4) by (auto simp: consume_def Let_def update_conv' split: if_splits)
  moreover have "map_of (filter (\<lambda>(k, e). e > ?n2) (rp_entries (fst s))) j = Some e" if "map_of (rp_entries (fst s)) j = Some e"
    using map_of_SomeD [OF that] c(2) distinct_map_filter [OF d] by simp
  moreover have "snd s < e" using c(2) call_time(1) [of s CJ KJ ed x] call_time(2) [of s x CJ KJ ed] by simp
  ultimately show "k \<notin> used_up s" "k \<in> used_up (call_step CJ KJ ed s x)" using c(1,3) by (auto simp: used_up_def)
next
  fix s :: "replay_cache \<times> int" and x
  let ?n2 = "ve_locked (call_env (snd s) x)"
  assume d: "distinct (map fst (rp_entries (fst s)))"
  show "used_up s \<subseteq> used_up (call_step CJ KJ ed s x)"
  proof
    fix k
    assume "k \<in> used_up s"
    then obtain j e where k: "k = (j, e)" "map_of (rp_entries (fst s)) j = Some e \<or> e \<le> snd s" by (auto simp: used_up_def)
    show "k \<in> used_up (call_step CJ KJ ed s x)"
    proof (cases "e \<le> ?n2")
      case True
      then show ?thesis using k(1) call_time(2) [of s x CJ KJ ed] by (simp add: used_up_def)
    next
      case False
      then have e: "map_of (rp_entries (fst s)) j = Some e" using k(2) call_time(1) [of s CJ KJ ed x] call_time(2) [of s x CJ KJ ed] by simp
      have "map_of (rp_entries (fst (call_step CJ KJ ed s x))) j = Some e"
        by (rule call_replays [of CJ KJ ed s x]) (use e False d in \<open>auto intro: consume_keeps [OF surjective_pairing]\<close>)
      then show ?thesis using k(1) by (simp add: used_up_def)
    qed
  qed
  show "distinct (map fst (rp_entries (fst (call_step CJ KJ ed s x))))"
    by (rule call_replays [of CJ KJ ed s x]) (use d in \<open>auto intro: consume_distinct\<close>)
next
  fix s :: "replay_cache \<times> int" and x
  show "distinct (accepted_uses CJ KJ ed s x)" by (simp add: accepted_uses_def split: sum.split)
qed

text \<open>
  C27: a credential for a single use is accepted once.  Over any sequence of verifications that
  share a cache of used credentials, with any tokens, keys, policies and revocations and a
  clock that does not run backwards, no pair of a credential identifier and an expiry is
  accepted twice before that expiry.
\<close>

theorem single_use_accepted_once:
  "distinct (trace (call_step CJ KJ ed) (accepted_uses CJ KJ ed) (new_replay_cache mx, start) calls)"
  by (rule credential_once.trace_distinct) (simp_all add: new_replay_cache_def)

text \<open>
  The expiry is compared with a reading of the clock from before the lock.  A call that waits
  for the lock until the credential has expired drops the entry of its first use and accepts
  it again.
\<close>

lemma replay_while_waiting:
  "fst (consume 0 0 ''j'' 10 (new_replay_cache 5)) \<and> fst (consume 9 10 ''j'' 10 (snd (consume 0 0 ''j'' 10 (new_replay_cache 5))))"
  by (simp add: consume_def new_replay_cache_def Let_def)

text \<open>
  Within the skew after its expiry a credential passes the check of the clock, but one for a
  single use is then refused as replayed, although it was never used.
\<close>

lemma skew_refused_as_replay:
  assumes "po_single_use p" "vf_replays v = Some rc" "vf_revocations v = None" "unix_time (cl_exp c) \<le> ve_consume env"
  shows "fst (admit env p c v) = Inl CredReplayed"
  using assms by (simp add: admit_def consume_def)

end
