(* ===== verification/Update_Trust.thy ===== *)
theory Update_Trust
  imports Credentials Control_Frames
begin

section \<open>Versions and the trust store of the updater\<close>

text \<open>
  Model of \<open>src/internal/update/trust.go\<close> and of the versions and the strict JSON of
  \<open>update.go\<close>.  The trust store holds the keys that may sign manifests; it changes by bundles
  that a trusted key signed, and it is kept as the list of the accepted envelopes, which a
  start applies again.  The signature scheme (\<open>ed\<close>) and what \<open>encoding/json\<close> makes of bytes
  (\<open>update_json\<close>) are arguments.  The file of the store is the list of envelopes it decodes
  to; \<open>None\<close> is a missing file.
\<close>

subsection \<open>Versions\<close>

text \<open>\<open>strconv.ParseUint\<close> with base 10 and 32 bits succeeds.\<close>

definition uint32_text :: "string \<Rightarrow> bool" where
  "uint32_text s \<longleftrightarrow> s \<noteq> [] \<and> list_all decimal_digit s \<and> digits_value s < 2 ^ 32"

text \<open>The value \<open>strconv.Atoi\<close> returns when its error is dropped.\<close>

definition atoi_value :: "string \<Rightarrow> int" where
  "atoi_value s =
     (let (negative, ds) = (case s of [] \<Rightarrow> (False, []) | c # cs \<Rightarrow> if c = CHR ''-'' then (True, cs) else if c = CHR ''+'' then (False, cs) else (False, s));
          v = (if negative then - digits_value ds else digits_value ds)
      in if ds = [] \<or> \<not> list_all decimal_digit ds then 0 else max (- (2 ^ 63)) (min (2 ^ 63 - 1) v))"

definition valid_version :: "string \<Rightarrow> bool" where
  "valid_version v \<longleftrightarrow> length (split_dots v) = 3 \<and> list_all uint32_text (split_dots v)"

fun compare_parts :: "string list \<Rightarrow> string list \<Rightarrow> int" where
  "compare_parts (l # ls) (r # rs) =
     (if atoi_value l < atoi_value r then - 1 else if atoi_value l > atoi_value r then 1 else compare_parts ls rs)"
| "compare_parts _ _ = 0"

definition compare_version :: "string \<Rightarrow> string \<Rightarrow> int" where
  "compare_version left right =
     (let l = split_dots left; r = split_dots right
      in if length l \<noteq> 3 \<or> length r \<noteq> 3 then - 1 else compare_parts l r)"

definition valid_dotted :: "string \<Rightarrow> bool" where
  "valid_dotted v \<longleftrightarrow> 2 \<le> length (split_dots v) \<and> length (split_dots v) \<le> 3 \<and> list_all uint32_text (split_dots v)"

fun join_dots :: "string list \<Rightarrow> string" where
  "join_dots [] = []"
| "join_dots [x] = x"
| "join_dots (x # y # zs) = x @ CHR ''.'' # join_dots (y # zs)"

definition pad_parts :: "string list \<Rightarrow> string list" where
  "pad_parts l = l @ replicate (3 - length l) ''0''"

definition compare_dotted :: "string \<Rightarrow> string \<Rightarrow> int" where
  "compare_dotted left right = compare_version (join_dots (pad_parts (split_dots left))) (join_dots (pad_parts (split_dots right)))"

definition version_in_range :: "string \<Rightarrow> string \<Rightarrow> string \<Rightarrow> bool" where
  "version_in_range v lo hi \<longleftrightarrow>
     valid_dotted v \<and> valid_dotted lo \<and> valid_dotted hi \<and> compare_dotted v lo \<ge> 0 \<and> compare_dotted v hi \<le> 0"

subsection \<open>Documents\<close>

record trust_envelope =
  tv_signer :: string
  tv_bundle :: string
  tv_signature :: string

record trust_bundle =
  tb_generation :: nat
  tb_issued :: "int option"
  tb_keys :: "string gomap"
  tb_revoked_keys :: "string list option"
  tb_revoked_versions :: "string list option"

record artifact =
  ar_url :: string
  ar_sha256 :: string
  ar_size :: int

record manifest =
  mf_version :: string
  mf_channel :: string
  mf_published :: "int option"
  mf_revoked :: bool
  mf_min_protocol :: string
  mf_max_protocol :: string
  mf_min_store :: int
  mf_max_store :: int
  mf_artifacts :: "artifact gomap"

record update_envelope =
  ue_key :: string
  ue_manifest :: string
  ue_signature :: string

record update_json =
  uj_lexemes :: "bytes \<Rightarrow> lexeme list"
  uj_trust_envelope :: "bytes \<Rightarrow> (trust_envelope \<times> bool) option"
  uj_bundle :: "bytes \<Rightarrow> (trust_bundle \<times> bool) option"
  uj_envelope :: "bytes \<Rightarrow> (update_envelope \<times> bool) option"
  uj_manifest :: "bytes \<Rightarrow> (manifest \<times> bool) option"

definition strict_json :: "update_json \<Rightarrow> (bytes \<Rightarrow> ('a \<times> bool) option) \<Rightarrow> bytes \<Rightarrow> 'a option" where
  "strict_json J dec data =
     (if \<not> reject_duplicate_keys (uj_lexemes J data) then None
      else case dec data of None \<Rightarrow> None | Some (x, at_end) \<Rightarrow> if at_end then Some x else None)"

subsection \<open>The trust store\<close>

type_synonym signature_scheme = "bytes \<Rightarrow> bytes \<Rightarrow> bytes \<Rightarrow> bool"

datatype trust_error = ErrTrustInvalid | TrustFailure

definition max_trust_bundles :: nat where
  "max_trust_bundles = 32"

record trust_store =
  ts_initial :: "bytes gomap"
  ts_keys :: "bytes gomap"
  ts_revoked_keys :: "string list"
  ts_revoked_versions :: "string list"
  ts_generation :: nat
  ts_envelopes :: "trust_envelope list"
  ts_file :: "trust_envelope list option"

fun adjacent_distinct :: "string list \<Rightarrow> bool" where
  "adjacent_distinct (x # y # zs) \<longleftrightarrow> x \<noteq> y \<and> adjacent_distinct (y # zs)"
| "adjacent_distinct _ \<longleftrightarrow> True"

definition cumulative_set :: "string list \<Rightarrow> string list \<Rightarrow> string list option" where
  "cumulative_set values previous =
     (let sorted_values = sort values
      in if [] \<in> set sorted_values \<or> \<not> adjacent_distinct sorted_values then None
         else if list_all (\<lambda>v. v \<in> set sorted_values) previous then Some sorted_values else None)"

fun decode_bundle_keys :: "string gomap \<Rightarrow> bytes gomap option" where
  "decode_bundle_keys [] = Some []"
| "decode_bundle_keys ((k, x) # kxs) =
     (case raw_url_decode x of
        None \<Rightarrow> None
      | Some d \<Rightarrow>
          if k = [] \<or> length k > 128 \<or> length d \<noteq> 32 then None
          else map_option (\<lambda>m. (k, d) # m) (decode_bundle_keys kxs))"

text \<open>The checks of \<open>applyLocked\<close> on a decoded bundle, and the store with it.\<close>

definition install_bundle :: "int \<Rightarrow> trust_bundle \<Rightarrow> trust_envelope \<Rightarrow> trust_store \<Rightarrow> trust_store option" where
  "install_bundle now b e s =
     (case (tb_issued b, tb_revoked_keys b, tb_revoked_versions b) of
        (Some issued, Some rk, Some rv) \<Rightarrow>
          if tb_generation b \<le> ts_generation s \<or> issued > now + minute \<or> tb_keys b = [] \<or> length (tb_keys b) > 32 then None
          else (case (decode_bundle_keys (tb_keys b), cumulative_set rk (ts_revoked_keys s), cumulative_set rv (ts_revoked_versions s)) of
                  (Some keys, Some rk', Some rv') \<Rightarrow>
                    if \<not> list_all valid_version rv' then None
                    else if \<not> list_ex (\<lambda>(k, x). k \<notin> set rk') keys then None
                    else Some (s\<lparr>ts_keys := keys, ts_revoked_keys := rk', ts_revoked_versions := rv', ts_generation := tb_generation b,
                                 ts_envelopes := ts_envelopes s @ [e]\<rparr>)
                | _ \<Rightarrow> None)
      | _ \<Rightarrow> None)"

definition accept_envelope :: "update_json \<Rightarrow> signature_scheme \<Rightarrow> int \<Rightarrow> trust_envelope \<Rightarrow> trust_store \<Rightarrow> trust_store option" where
  "accept_envelope J ed now e s =
     (if length (ts_envelopes s) \<ge> max_trust_bundles \<or> tv_signer e = [] \<or> tv_signer e \<in> set (ts_revoked_keys s) then None
      else case map_of (ts_keys s) (tv_signer e) of
        None \<Rightarrow> None
      | Some signer \<Rightarrow>
          (case (raw_url_decode (tv_bundle e), raw_url_decode (tv_signature e)) of
             (Some b, Some sig) \<Rightarrow>
               if length b > 65536 \<or> \<not> ed signer b sig then None
               else (case strict_json J (uj_bundle J) b of None \<Rightarrow> None | Some bundle \<Rightarrow> install_bundle now bundle e s)
           | _ \<Rightarrow> None))"

text \<open>How writing the file ends: done, failed before the rename, or failed at the sync after it.\<close>

datatype persist_outcome = Written | NotWritten | WrittenUnsynced

definition apply_trust_locked ::
    "update_json \<Rightarrow> signature_scheme \<Rightarrow> int \<Rightarrow> persist_outcome option \<Rightarrow> trust_envelope \<Rightarrow> trust_store \<Rightarrow> trust_error option \<times> trust_store" where
  "apply_trust_locked J ed now persist e s =
     (case accept_envelope J ed now e s of
        None \<Rightarrow> (Some ErrTrustInvalid, s)
      | Some s1 \<Rightarrow>
          (case persist of
             None \<Rightarrow> (None, s1)
           | Some Written \<Rightarrow> (None, s1\<lparr>ts_file := Some (ts_envelopes s1)\<rparr>)
           | Some NotWritten \<Rightarrow> (Some TrustFailure, s)
           | Some WrittenUnsynced \<Rightarrow> (Some TrustFailure, s\<lparr>ts_file := Some (ts_envelopes s1)\<rparr>)))"

definition apply_trust :: "update_json \<Rightarrow> signature_scheme \<Rightarrow> int \<Rightarrow> persist_outcome \<Rightarrow> bytes \<Rightarrow> trust_store \<Rightarrow> trust_error option \<times> trust_store" where
  "apply_trust J ed now persist data s =
     (case strict_json J (uj_trust_envelope J) data of
        None \<Rightarrow> (Some ErrTrustInvalid, s)
      | Some e \<Rightarrow> apply_trust_locked J ed now (Some persist) e s)"

definition lookup_trusted :: "string \<Rightarrow> trust_store \<Rightarrow> bytes option" where
  "lookup_trusted kid s = (if kid \<in> set (ts_revoked_keys s) then None else map_of (ts_keys s) kid)"

definition version_revoked :: "string \<Rightarrow> trust_store \<Rightarrow> bool" where
  "version_revoked v s \<longleftrightarrow> v \<in> set (ts_revoked_versions s)"

definition reset_trust :: "bytes gomap \<Rightarrow> trust_envelope list option \<Rightarrow> trust_store" where
  "reset_trust initial file =
     \<lparr>ts_initial = initial, ts_keys = initial, ts_revoked_keys = [], ts_revoked_versions = [], ts_generation = 0, ts_envelopes = [], ts_file = file\<rparr>"

fun apply_all :: "update_json \<Rightarrow> signature_scheme \<Rightarrow> int \<Rightarrow> trust_envelope list \<Rightarrow> trust_store \<Rightarrow> trust_error + trust_store" where
  "apply_all J ed now [] s = Inr s"
| "apply_all J ed now (e # es) s =
     (case apply_trust_locked J ed now None e s of (Some err, _) \<Rightarrow> Inl err | (None, s1) \<Rightarrow> apply_all J ed now es s1)"

text \<open>\<open>newTrustStore\<close>; \<open>absolute\<close> is whether the path is absolute, \<open>readable\<close> and \<open>decodes\<close> what reading an existing file gives.\<close>

definition new_trust_store ::
    "update_json \<Rightarrow> signature_scheme \<Rightarrow> int \<Rightarrow> bool \<Rightarrow> bool \<Rightarrow> bool \<Rightarrow> bytes gomap \<Rightarrow> trust_envelope list option \<Rightarrow> trust_error + trust_store" where
  "new_trust_store J ed now absolute readable decodes initial file =
     (if initial = [] \<or> \<not> absolute then Inl ErrTrustInvalid
      else if list_ex (\<lambda>(k, x). k = [] \<or> length k > 128 \<or> length x \<noteq> 32) initial then Inl ErrTrustInvalid
      else case file of
        None \<Rightarrow> Inr (reset_trust initial None)
      | Some es \<Rightarrow>
          if \<not> readable then Inl TrustFailure
          else if \<not> decodes \<or> length es > max_trust_bundles then Inl ErrTrustInvalid
          else apply_all J ed now es (reset_trust initial file))"

subsection \<open>What a bundle changes\<close>

lemma cumulative_set_grows: "cumulative_set values previous = Some r \<Longrightarrow> set previous \<subseteq> set r"
  by (auto simp: cumulative_set_def Let_def list_all_iff split: if_splits)

lemma install_bundle_effect:
  assumes "install_bundle now b e s = Some s'"
  shows "set (ts_revoked_keys s) \<subseteq> set (ts_revoked_keys s')" "set (ts_revoked_versions s) \<subseteq> set (ts_revoked_versions s')"
    "ts_generation s < ts_generation s'" "ts_envelopes s' = ts_envelopes s @ [e]" "ts_initial s' = ts_initial s" "ts_file s' = ts_file s"
    "\<exists>k. lookup_trusted k s' \<noteq> None"
proof -
  obtain issued rk rv keys rk' rv' where b: "tb_issued b = Some issued" "tb_revoked_keys b = Some rk" "tb_revoked_versions b = Some rv"
    "decode_bundle_keys (tb_keys b) = Some keys" "cumulative_set rk (ts_revoked_keys s) = Some rk'"
    "cumulative_set rv (ts_revoked_versions s) = Some rv'" "ts_generation s < tb_generation b" "list_ex (\<lambda>(k, x). k \<notin> set rk') keys"
    "s' = s\<lparr>ts_keys := keys, ts_revoked_keys := rk', ts_revoked_versions := rv', ts_generation := tb_generation b,
      ts_envelopes := ts_envelopes s @ [e]\<rparr>"
    using assms by (auto simp: install_bundle_def split: option.splits if_splits)
  show "set (ts_revoked_keys s) \<subseteq> set (ts_revoked_keys s')" "set (ts_revoked_versions s) \<subseteq> set (ts_revoked_versions s')"
    using cumulative_set_grows [OF b(5)] cumulative_set_grows [OF b(6)] b(9) by simp_all
  show "ts_generation s < ts_generation s'" "ts_envelopes s' = ts_envelopes s @ [e]" "ts_initial s' = ts_initial s" "ts_file s' = ts_file s"
    using b(7,9) by simp_all
  obtain k x where "(k, x) \<in> set keys" "k \<notin> set rk'" using b(8) by (auto simp: list_ex_iff)
  moreover from this have "map_of keys k \<noteq> None" using weak_map_of_SomeI by fastforce
  ultimately show "\<exists>k. lookup_trusted k s' \<noteq> None" using b(9) by (intro exI [of _ k]) (simp add: lookup_trusted_def)
qed

lemma install_bundle_later:
  "install_bundle now b e s = Some s' \<Longrightarrow> now \<le> now' \<Longrightarrow> install_bundle now' b e s = Some s'"
  by (auto simp: install_bundle_def split: option.splits if_splits)

lemma install_bundle_file: "install_bundle now b e (s\<lparr>ts_file := f\<rparr>) = map_option (ts_file_update (\<lambda>_. f)) (install_bundle now b e s)"
  by (simp add: install_bundle_def split: option.split)

lemma accept_bundle:
  assumes "accept_envelope J ed now e s = Some s'"
  obtains b where "install_bundle now b e s = Some s'" "\<And>now' t. accept_envelope J ed now' e (s\<lparr>ts_file := t\<rparr>) = install_bundle now' b e (s\<lparr>ts_file := t\<rparr>)"
    "length (ts_envelopes s) < max_trust_bundles"
proof -
  obtain signer bb sig b where a: "\<not> length (ts_envelopes s) \<ge> max_trust_bundles" "tv_signer e \<noteq> []" "tv_signer e \<notin> set (ts_revoked_keys s)"
    "map_of (ts_keys s) (tv_signer e) = Some signer" "raw_url_decode (tv_bundle e) = Some bb" "raw_url_decode (tv_signature e) = Some sig"
    "\<not> (length bb > 65536 \<or> \<not> ed signer bb sig)" "strict_json J (uj_bundle J) bb = Some b" "install_bundle now b e s = Some s'"
    using assms by (auto simp: accept_envelope_def split: option.splits if_splits)
  show ?thesis by (rule that [of b]) (use a in \<open>simp_all add: accept_envelope_def\<close>)
qed

lemma accept_effect:
  assumes "accept_envelope J ed now e s = Some s'"
  shows "set (ts_revoked_keys s) \<subseteq> set (ts_revoked_keys s')" "set (ts_revoked_versions s) \<subseteq> set (ts_revoked_versions s')"
    "ts_generation s < ts_generation s'" "ts_envelopes s' = ts_envelopes s @ [e]" "ts_initial s' = ts_initial s" "ts_file s' = ts_file s"
    "length (ts_envelopes s') \<le> max_trust_bundles"
proof -
  obtain b where "install_bundle now b e s = Some s'" "length (ts_envelopes s) < max_trust_bundles"
    by (rule accept_bundle [OF assms]) blast
  then show "set (ts_revoked_keys s) \<subseteq> set (ts_revoked_keys s')" "set (ts_revoked_versions s) \<subseteq> set (ts_revoked_versions s')"
    "ts_generation s < ts_generation s'" "ts_envelopes s' = ts_envelopes s @ [e]" "ts_initial s' = ts_initial s" "ts_file s' = ts_file s"
    "length (ts_envelopes s') \<le> max_trust_bundles"
    using install_bundle_effect [of now b e s s'] by simp_all
qed

lemma accept_later:
  assumes "accept_envelope J ed now e s = Some s'" "now \<le> now'"
  shows "accept_envelope J ed now' e (s\<lparr>ts_file := f\<rparr>) = Some (s'\<lparr>ts_file := f\<rparr>)"
proof -
  obtain b where b: "install_bundle now b e s = Some s'" "accept_envelope J ed now' e (s\<lparr>ts_file := f\<rparr>) = install_bundle now' b e (s\<lparr>ts_file := f\<rparr>)"
    by (rule accept_bundle [OF assms(1)]) blast
  then show ?thesis using install_bundle_later [OF b(1) assms(2)] by (simp add: install_bundle_file)
qed

lemma apply_all_later:
  "apply_all J ed now es s = Inr s' \<Longrightarrow> now \<le> now' \<Longrightarrow> apply_all J ed now' es (s\<lparr>ts_file := f\<rparr>) = Inr (s'\<lparr>ts_file := f\<rparr>)"
proof (induction es arbitrary: s)
  case (Cons e es)
  obtain s1 where s1: "accept_envelope J ed now e s = Some s1" "apply_all J ed now es s1 = Inr s'"
    using Cons.prems(1) by (auto simp: apply_trust_locked_def split: option.splits)
  show ?case using Cons.IH [OF s1(2) Cons.prems(2)] accept_later [OF s1(1) Cons.prems(2), of f] by (simp add: apply_trust_locked_def)
qed simp

lemma apply_all_snoc:
  "apply_all J ed now es s = Inr s1 \<Longrightarrow> accept_envelope J ed now e s1 = Some s2 \<Longrightarrow> apply_all J ed now (es @ [e]) s = Inr s2"
proof (induction es arbitrary: s)
  case (Cons e' es)
  obtain s0 where s0: "accept_envelope J ed now e' s = Some s0" "apply_all J ed now es s0 = Inr s1"
    using Cons.prems(1) by (auto simp: apply_trust_locked_def split: option.splits)
  show ?case using Cons.IH [OF s0(2) Cons.prems(2)] s0(1) by (simp add: apply_trust_locked_def)
qed (simp add: apply_trust_locked_def)

subsection \<open>A start finds the store again\<close>

definition initial_ok :: "bytes gomap \<Rightarrow> bool" where
  "initial_ok initial \<longleftrightarrow> initial \<noteq> [] \<and> \<not> list_ex (\<lambda>(k, x). k = [] \<or> length k > 128 \<or> length x \<noteq> 32) initial"

text \<open>
  The store is what its envelopes make of the initial keys.  The file has these envelopes, or
  one more that would be accepted next: its write was reported as failed.
\<close>

definition trust_inv :: "update_json \<Rightarrow> signature_scheme \<Rightarrow> int \<Rightarrow> trust_store \<Rightarrow> bool" where
  "trust_inv J ed t s \<longleftrightarrow>
     initial_ok (ts_initial s) \<and> length (ts_envelopes s) \<le> max_trust_bundles \<and>
     apply_all J ed t (ts_envelopes s) (reset_trust (ts_initial s) (ts_file s)) = Inr s \<and>
     (case ts_file s of
        None \<Rightarrow> ts_envelopes s = []
      | Some fs \<Rightarrow> fs = ts_envelopes s \<or> (\<exists>e s'. fs = ts_envelopes s @ [e] \<and> accept_envelope J ed t e s = Some s'))"

lemma reset_file [simp]: "(reset_trust i f)\<lparr>ts_file := g\<rparr> = reset_trust i g" "ts_file (reset_trust i f) = f"
  by (simp_all add: reset_trust_def)

lemma file_update_same [simp]: "s\<lparr>ts_file := ts_file s\<rparr> = s"
  by (cases s) simp

lemma trust_inv_later:
  assumes "trust_inv J ed t s" "t \<le> t'"
  shows "trust_inv J ed t' s"
proof -
  have "apply_all J ed t' (ts_envelopes s) (reset_trust (ts_initial s) (ts_file s)) = Inr s"
    using apply_all_later [of J ed t "ts_envelopes s" "reset_trust (ts_initial s) (ts_file s)" s t' "ts_file s"] assms
    by (simp add: trust_inv_def)
  moreover have "accept_envelope J ed t' e s = Some s'" if "accept_envelope J ed t e s = Some s'" for e s'
    using accept_later [OF that assms(2), of "ts_file s"] accept_effect(6) [OF that] by (metis file_update_same)
  ultimately show ?thesis using assms(1) by (auto simp: trust_inv_def split: option.splits)
qed

lemma trust_inv_accept:
  assumes inv: "trust_inv J ed t s" and acc: "accept_envelope J ed t e s = Some s1"
  shows "trust_inv J ed t (s1\<lparr>ts_file := Some (ts_envelopes s1)\<rparr>)" "trust_inv J ed t (s\<lparr>ts_file := Some (ts_envelopes s1)\<rparr>)"
proof -
  let ?f = "Some (ts_envelopes s1)"
  note eff = accept_effect [OF acc]
  have all: "apply_all J ed t (ts_envelopes s) (reset_trust (ts_initial s) ?f) = Inr (s\<lparr>ts_file := ?f\<rparr>)"
    using apply_all_later [of J ed t "ts_envelopes s" "reset_trust (ts_initial s) (ts_file s)" s t ?f] inv by (simp add: trust_inv_def)
  have a: "accept_envelope J ed t e (s\<lparr>ts_file := ?f\<rparr>) = Some (s1\<lparr>ts_file := ?f\<rparr>)" by (rule accept_later [OF acc order_refl])
  have "apply_all J ed t (ts_envelopes s1) (reset_trust (ts_initial s1) ?f) = Inr (s1\<lparr>ts_file := ?f\<rparr>)"
    using apply_all_snoc [OF all a] eff(4,5) by simp
  then show "trust_inv J ed t (s1\<lparr>ts_file := ?f\<rparr>)" using inv eff(5,7) by (simp add: trust_inv_def)
  show "trust_inv J ed t (s\<lparr>ts_file := ?f\<rparr>)" using inv all a eff(4) by (auto simp: trust_inv_def)
qed

lemma restart_succeeds:
  assumes inv: "trust_inv J ed t s"
  shows "\<exists>s'. new_trust_store J ed t True True True (ts_initial s) (ts_file s) = Inr s' \<and> trust_inv J ed t s' \<and>
    set (ts_revoked_keys s) \<subseteq> set (ts_revoked_keys s') \<and> set (ts_revoked_versions s) \<subseteq> set (ts_revoked_versions s') \<and>
    ts_generation s \<le> ts_generation s' \<and> ts_initial s' = ts_initial s"
proof -
  have i: "initial_ok (ts_initial s)" and all: "apply_all J ed t (ts_envelopes s) (reset_trust (ts_initial s) (ts_file s)) = Inr s"
    and len: "length (ts_envelopes s) \<le> max_trust_bundles"
    using inv by (simp_all add: trust_inv_def)
  consider "ts_file s = None" "ts_envelopes s = []" | "ts_file s = Some (ts_envelopes s)"
    | e s1 where "ts_file s = Some (ts_envelopes s @ [e])" "accept_envelope J ed t e s = Some s1"
    using inv by (auto simp: trust_inv_def split: option.splits)
  then show ?thesis
  proof cases
    case 1
    then have "s = reset_trust (ts_initial s) None" using all by simp
    then show ?thesis using 1 i inv by (intro exI [of _ s]) (auto simp: new_trust_store_def initial_ok_def)
  next
    case 2
    then show ?thesis using i inv len all by (intro exI [of _ s]) (auto simp: new_trust_store_def initial_ok_def)
  next
    case 3
    note eff = accept_effect [OF 3(2)]
    have "apply_all J ed t (ts_envelopes s @ [e]) (reset_trust (ts_initial s) (ts_file s)) = Inr s1" by (rule apply_all_snoc [OF all 3(2)])
    then have "new_trust_store J ed t True True True (ts_initial s) (ts_file s) = Inr s1"
      using 3(1) i eff(4,7) by (auto simp: new_trust_store_def initial_ok_def)
    moreover have "s1\<lparr>ts_file := Some (ts_envelopes s1)\<rparr> = s1" using eff(4,6) 3(1) by (metis file_update_same)
    then have "trust_inv J ed t s1" using trust_inv_accept(1) [OF inv 3(2)] by simp
    ultimately show ?thesis using eff by (intro exI [of _ s1]) simp
  qed
qed

datatype trust_op = ApplyBundle nat persist_outcome bytes | TrustRestart nat

fun trust_step :: "update_json \<Rightarrow> signature_scheme \<Rightarrow> trust_store \<times> int \<Rightarrow> trust_op \<Rightarrow> trust_store \<times> int" where
  "trust_step J ed (s, t) (ApplyBundle d persist data) = (snd (apply_trust J ed (t + int d) persist data s), t + int d)"
| "trust_step J ed (s, t) (TrustRestart d) =
     (case new_trust_store J ed (t + int d) True True True (ts_initial s) (ts_file s) of Inl _ \<Rightarrow> s | Inr s' \<Rightarrow> s', t + int d)"

definition trust_grows :: "trust_store \<Rightarrow> trust_store \<Rightarrow> bool" where
  "trust_grows s s' \<longleftrightarrow>
     set (ts_revoked_keys s) \<subseteq> set (ts_revoked_keys s') \<and> set (ts_revoked_versions s) \<subseteq> set (ts_revoked_versions s') \<and>
     ts_generation s \<le> ts_generation s' \<and> ts_initial s' = ts_initial s"

lemma trust_step_ok:
  assumes "trust_inv J ed t s" "trust_step J ed (s, t) x = (s', t')"
  shows "trust_inv J ed t' s' \<and> trust_grows s s'"
proof (cases x)
  case (ApplyBundle d persist data)
  have inv: "trust_inv J ed (t + int d) s" using trust_inv_later [OF assms(1)] by simp
  have same: "trust_grows s s" by (simp add: trust_grows_def)
  have s': "s' = snd (apply_trust J ed (t + int d) persist data s)" "t' = t + int d" using assms(2) ApplyBundle by auto
  show ?thesis
  proof (cases "\<exists>e s1. strict_json J (uj_trust_envelope J) data = Some e \<and> accept_envelope J ed (t + int d) e s = Some s1")
    case True
    then obtain e s1 where e: "strict_json J (uj_trust_envelope J) data = Some e" "accept_envelope J ed (t + int d) e s = Some s1" by blast
    show ?thesis
      using trust_inv_accept [OF inv e(2)] accept_effect [OF e(2)] e inv same unfolding s'
      by (cases persist) (auto simp: apply_trust_def apply_trust_locked_def trust_grows_def)
  next
    case False
    then have "s' = s" by (auto simp: s' apply_trust_def apply_trust_locked_def split: option.splits)
    then show ?thesis using inv same s' by simp
  qed
next
  case (TrustRestart d)
  have "trust_inv J ed (t + int d) s" using trust_inv_later [OF assms(1)] by simp
  from restart_succeeds [OF this] show ?thesis using assms(2) TrustRestart by (auto simp: trust_grows_def)
qed

lemma trust_run_ok:
  "trust_inv J ed (snd p) (fst p) \<Longrightarrow>
    trust_inv J ed (snd (run (trust_step J ed) p ops)) (fst (run (trust_step J ed) p ops)) \<and> trust_grows (fst p) (fst (run (trust_step J ed) p ops))"
proof (induction ops arbitrary: p)
  case (Cons x ops)
  obtain s t s' t' where p: "p = (s, t)" "trust_step J ed (s, t) x = (s', t')" by (cases p; cases "trust_step J ed p x") auto
  note step = trust_step_ok [OF Cons.prems [unfolded p(1) fst_conv snd_conv] p(2)]
  then show ?case using Cons.IH [of "(s', t')"] p by (auto simp: trust_grows_def)
qed (simp add: trust_grows_def)

text \<open>
  C22: a revocation of a signing key or of a version is permanent.  From a first start with any
  initial keys, over bundles that are accepted or refused, writes of the store that fail at
  any point and any restarts, with a clock that does not run backwards: a key that was ever
  revoked is never trusted again, a version that was ever revoked stays revoked, the
  generation never goes back, and every restart succeeds.
\<close>

theorem revocations_are_permanent:
  assumes "new_trust_store J ed t True True True initial None = Inr s0"
    and "(s, t1) = run (trust_step J ed) (s0, t) ops" and "(s', t2) = run (trust_step J ed) (s, t1) later"
  shows "(kid \<in> set (ts_revoked_keys s) \<longrightarrow> lookup_trusted kid s' = None) \<and>
    (version_revoked v s \<longrightarrow> version_revoked v s') \<and> ts_generation s \<le> ts_generation s' \<and>
    (\<exists>s''. new_trust_store J ed (t2 + int d) True True True initial (ts_file s') = Inr s'' \<and> trust_grows s' s'')"
proof -
  have "initial_ok initial" "s0 = reset_trust initial None"
    using assms(1) by (auto simp: new_trust_store_def initial_ok_def split: if_splits)
  then have "trust_inv J ed t s0" by (simp add: trust_inv_def reset_trust_def)
  from trust_run_ok [of J ed "(s0, t)" ops] this assms(2) have s: "trust_inv J ed t1 s" "trust_grows s0 s" by (metis fst_conv snd_conv)+
  from trust_run_ok [of J ed "(s, t1)" later] s(1) assms(3) have s': "trust_inv J ed t2 s'" "trust_grows s s'" by (metis fst_conv snd_conv)+
  have "ts_initial s' = initial" using s(2) s'(2) \<open>s0 = reset_trust initial None\<close> by (simp add: trust_grows_def reset_trust_def)
  moreover have "trust_inv J ed (t2 + int d) s'" using trust_inv_later [OF s'(1)] by simp
  ultimately have "\<exists>s''. new_trust_store J ed (t2 + int d) True True True initial (ts_file s') = Inr s'' \<and> trust_grows s' s''"
    using restart_succeeds [of J ed "t2 + int d" s'] by (auto simp: trust_grows_def)
  then show ?thesis using s'(2) by (auto simp: trust_grows_def lookup_trusted_def version_revoked_def)
qed

text \<open>A bundle of the first key that names a new key and revokes the first one, and a restart.\<close>

definition rotation_bundle :: trust_bundle where
  "rotation_bundle = \<lparr>tb_generation = 1, tb_issued = Some 0, tb_keys = [(''n'', replicate 43 (CHR ''A''))],
     tb_revoked_keys = Some [''k''], tb_revoked_versions = Some [''1.0.0'']\<rparr>"

definition rotation_envelope :: trust_envelope where
  "rotation_envelope = \<lparr>tv_signer = ''k'', tv_bundle = ''AA'', tv_signature = ''AA''\<rparr>"

definition rotation_json :: update_json where
  "rotation_json = \<lparr>uj_lexemes = (\<lambda>_. [Scalar ''1'']), uj_trust_envelope = (\<lambda>_. Some (rotation_envelope, True)),
     uj_bundle = (\<lambda>_. Some (rotation_bundle, True)), uj_envelope = (\<lambda>_. None), uj_manifest = (\<lambda>_. None)\<rparr>"

definition rotation_keys :: "bytes gomap" where
  "rotation_keys = [(''k'', replicate 32 0)]"

lemma rotation_applied:
  "\<exists>s. trust_step rotation_json (\<lambda>_ _ _. True) (reset_trust rotation_keys None, 0) (ApplyBundle 0 Written []) = (s, 0) \<and>
     ts_revoked_keys s = [''k''] \<and> ts_revoked_versions s = [''1.0.0'']"
proof -
  have dup: "reject_duplicate_keys [Scalar ''1'']" using unique_accepted [of "JScalar ''1''"] by simp
  have b64: "raw_url_decode ''AA'' = Some [0]" "raw_url_decode (replicate 43 (CHR ''A'')) = Some (replicate 32 0)" by code_simp+
  have sets: "cumulative_set [''k''] [] = Some [''k'']" "cumulative_set [''1.0.0''] [] = Some [''1.0.0'']" "valid_version ''1.0.0''" by code_simp+
  have e: "tv_signer rotation_envelope = ''k''" "tv_bundle rotation_envelope = ''AA''" "tv_signature rotation_envelope = ''AA''"
    by (simp_all add: rotation_envelope_def)
  have j: "strict_json rotation_json (uj_bundle rotation_json) [0] = Some rotation_bundle"
    "strict_json rotation_json (uj_trust_envelope rotation_json) [] = Some rotation_envelope"
    by (simp_all add: strict_json_def rotation_json_def dup)
  have r: "ts_keys (reset_trust rotation_keys None) = [(''k'', replicate 32 0)]" "ts_revoked_keys (reset_trust rotation_keys None) = []"
    "ts_envelopes (reset_trust rotation_keys None) = []" by (simp_all add: reset_trust_def rotation_keys_def)
  have "install_bundle 0 rotation_bundle rotation_envelope (reset_trust rotation_keys None) =
      Some ((reset_trust rotation_keys None)\<lparr>ts_keys := [(''n'', replicate 32 0)], ts_revoked_keys := [''k''], ts_revoked_versions := [''1.0.0''],
        ts_generation := 1, ts_envelopes := [rotation_envelope]\<rparr>)"
    by (simp add: install_bundle_def rotation_bundle_def reset_trust_def b64 sets minute_def)
  then have "accept_envelope rotation_json (\<lambda>_ _ _. True) 0 rotation_envelope (reset_trust rotation_keys None) =
      Some ((reset_trust rotation_keys None)\<lparr>ts_keys := [(''n'', replicate 32 0)], ts_revoked_keys := [''k''], ts_revoked_versions := [''1.0.0''],
        ts_generation := 1, ts_envelopes := [rotation_envelope]\<rparr>)"
    by (simp add: accept_envelope_def e b64 j r max_trust_bundles_def)
  then show ?thesis by (simp add: apply_trust_def apply_trust_locked_def j)
qed

theorem revocations_are_permanent_witness:
  "\<exists>s s' t. trust_step rotation_json (\<lambda>_ _ _. True) (reset_trust rotation_keys None, 0) (ApplyBundle 0 Written []) = (s, 0) \<and>
     (s', t) = run (trust_step rotation_json (\<lambda>_ _ _. True)) (s, 0) [TrustRestart 5] \<and>
     lookup_trusted ''k'' s' = None \<and> version_revoked ''1.0.0'' s'"
proof -
  obtain s where s: "trust_step rotation_json (\<lambda>_ _ _. True) (reset_trust rotation_keys None, 0) (ApplyBundle 0 Written []) = (s, 0)"
    "ts_revoked_keys s = [''k'']" "ts_revoked_versions s = [''1.0.0'']" using rotation_applied by blast
  obtain s' t where s': "(s', t) = run (trust_step rotation_json (\<lambda>_ _ _. True)) (s, 0) [TrustRestart 5]"
    by (cases "run (trust_step rotation_json (\<lambda>_ _ _. True)) (s, 0) [TrustRestart 5]") auto
  have start: "new_trust_store rotation_json (\<lambda>_ _ _. True) 0 True True True rotation_keys None = Inr (reset_trust rotation_keys None)"
    by (simp add: new_trust_store_def rotation_keys_def)
  have run: "(s, 0) = run (trust_step rotation_json (\<lambda>_ _ _. True)) (reset_trust rotation_keys None, 0) [ApplyBundle 0 Written []]" using s(1) by simp
  show ?thesis
    using revocations_are_permanent [OF start run s', of "''k''" "''1.0.0''" 0] s s' by (auto simp: version_revoked_def)
qed

text \<open>After 32 bundles no further one is accepted, so that no key can be revoked any more.\<close>

lemma full_store_refuses: "length (ts_envelopes s) \<ge> max_trust_bundles \<Longrightarrow> accept_envelope J ed now e s = None"
  by (simp add: accept_envelope_def)

end
