(* ===== verification/Go_Path.thy ===== *)
theory Go_Path
  imports Prelude "HOL-Library.Char_ord" "HOL-Library.List_Lexorder"
begin

section \<open>Strings and paths\<close>

text \<open>
  The functions of Go's \<open>strings\<close>, \<open>path\<close> and \<open>path/filepath\<close> (on Unix) that several components
  use.  A string is the list of its bytes.
\<close>

subsection \<open>Strings\<close>

definition has_prefix :: "string \<Rightarrow> string \<Rightarrow> bool" where
  "has_prefix s p \<longleftrightarrow> take (length p) s = p"

definition has_suffix :: "string \<Rightarrow> string \<Rightarrow> bool" where
  "has_suffix s p \<longleftrightarrow> has_prefix (rev s) (rev p)"

definition contains_text :: "string \<Rightarrow> string \<Rightarrow> bool" where
  "contains_text s t \<longleftrightarrow> list_ex (\<lambda>n. has_prefix (drop n s) t) [0..<Suc (length s)]"

definition trim_prefix :: "string \<Rightarrow> string \<Rightarrow> string" where
  "trim_prefix s p = (if has_prefix s p then drop (length p) s else s)"

definition trim_suffix :: "string \<Rightarrow> string \<Rightarrow> string" where
  "trim_suffix s p = (if has_suffix s p then take (length s - length p) s else s)"

fun split_on :: "char \<Rightarrow> string \<Rightarrow> string list" where
  "split_on x [] = [[]]"
| "split_on x (c # cs) =
     (if c = x then [] # split_on x cs
      else case split_on x cs of [] \<Rightarrow> [[c]] | w # ws \<Rightarrow> (c # w) # ws)"

fun join_with :: "char \<Rightarrow> string list \<Rightarrow> string" where
  "join_with x [] = []"
| "join_with x [w] = w"
| "join_with x (w # v # ws) = w @ x # join_with x (v # ws)"

text \<open>The number of bytes of the white space (in the sense of Unicode) a string begins with, or of its reverse.\<close>

definition ascii_space :: "nat \<Rightarrow> bool" where
  "ascii_space b \<longleftrightarrow> b = 32 \<or> 9 \<le> b \<and> b \<le> 13"

definition space3 :: "nat \<Rightarrow> nat \<Rightarrow> nat \<Rightarrow> bool" where
  "space3 a b c \<longleftrightarrow>
     a = 225 \<and> b = 154 \<and> c = 128 \<or> a = 226 \<and> b = 128 \<and> (128 \<le> c \<and> c \<le> 138 \<or> c = 168 \<or> c = 169 \<or> c = 175) \<or>
     a = 226 \<and> b = 129 \<and> c = 159 \<or> a = 227 \<and> b = 128 \<and> c = 128"

fun leading_space :: "nat list \<Rightarrow> nat" where
  "leading_space (a # b # c # ds) =
     (if ascii_space a then 1 else if a = 194 \<and> (b = 133 \<or> b = 160) then 2 else if space3 a b c then 3 else 0)"
| "leading_space [a, b] = (if ascii_space a then 1 else if a = 194 \<and> (b = 133 \<or> b = 160) then 2 else 0)"
| "leading_space [a] = (if ascii_space a then 1 else 0)"
| "leading_space [] = 0"

fun trailing_space :: "nat list \<Rightarrow> nat" where
  "trailing_space (c # b # a # ds) =
     (if ascii_space c then 1 else if b = 194 \<and> (c = 133 \<or> c = 160) then 2 else if space3 a b c then 3 else 0)"
| "trailing_space [c, b] = (if ascii_space c then 1 else if b = 194 \<and> (c = 133 \<or> c = 160) then 2 else 0)"
| "trailing_space [c] = (if ascii_space c then 1 else 0)"
| "trailing_space [] = 0"

lemma leading_space_le: "leading_space s \<le> length s"
  by (induction s rule: leading_space.induct) simp_all

lemma trailing_space_le: "trailing_space s \<le> length s"
  by (induction s rule: trailing_space.induct) simp_all

function trim_leading :: "(nat list \<Rightarrow> nat) \<Rightarrow> string \<Rightarrow> string" where
  "trim_leading f s = (let n = f (map of_char s) in if n = 0 \<or> s = [] then s else trim_leading f (drop n s))"
  by pat_completeness auto

termination by (relation "measure (\<lambda>(f, s). length s)") auto

declare trim_leading.simps [simp del]

definition trim_space :: "string \<Rightarrow> string" where
  "trim_space s = rev (trim_leading trailing_space (rev (trim_leading leading_space s)))"

subsection \<open>Paths\<close>

definition slash :: char where
  "slash = CHR ''/''"

definition is_abs :: "string \<Rightarrow> bool" where
  "is_abs path \<longleftrightarrow> take 1 path = ''/''"

text \<open>The components a cleaned path has, the last one first; \<open>rooted\<close> says that it begins with a slash.\<close>

fun clean_parts :: "bool \<Rightarrow> string list \<Rightarrow> string list \<Rightarrow> string list" where
  "clean_parts rooted acc [] = acc"
| "clean_parts rooted acc (p # ps) =
     (if p = [] \<or> p = ''.'' then clean_parts rooted acc ps
      else if p = ''..'' then
        (case acc of
           [] \<Rightarrow> clean_parts rooted (if rooted then [] else [''..'']) ps
         | q # qs \<Rightarrow> if q = ''..'' then clean_parts rooted (''..'' # acc) ps else clean_parts rooted qs ps)
      else clean_parts rooted (p # acc) ps)"

definition path_parts :: "string \<Rightarrow> string list" where
  "path_parts path = rev (clean_parts (is_abs path) [] (split_on slash path))"

definition path_clean :: "string \<Rightarrow> string" where
  "path_clean path =
     (if is_abs path then slash # join_with slash (path_parts path)
      else if path_parts path = [] then ''.'' else join_with slash (path_parts path))"

text \<open>\<open>filepath.Dir\<close> of a cleaned path.\<close>

definition clean_dir :: "string \<Rightarrow> string" where
  "clean_dir path =
     (if is_abs path then slash # join_with slash (butlast (path_parts path))
      else if butlast (path_parts path) = [] then ''.'' else join_with slash (butlast (path_parts path)))"

text \<open>The components of \<open>filepath.Dir\<close> of an absolute path.\<close>

definition path_dir :: "string \<Rightarrow> string list" where
  "path_dir path = rev (clean_parts True [] (butlast (split_on slash path)))"

definition base_name :: "string \<Rightarrow> string" where
  "base_name path = (case filter (\<lambda>p. p \<noteq> []) (rev (split_on slash path)) of [] \<Rightarrow> ''/'' | p # _ \<Rightarrow> p)"

text \<open>The components of \<open>filepath.Rel\<close>, for two cleaned absolute paths.\<close>

fun relative_parts :: "string list \<Rightarrow> string list \<Rightarrow> string list" where
  "relative_parts (b # bs) (t # ts) = (if b = t then relative_parts bs ts else replicate (length (b # bs)) ''..'' @ t # ts)"
| "relative_parts bs ts = replicate (length bs) ''..'' @ ts"

subsection \<open>Facts\<close>

lemma has_prefix_append [simp]: "has_prefix (p @ s) p"
  by (simp add: has_prefix_def)

lemma has_prefix_iff: "has_prefix s p \<longleftrightarrow> (\<exists>r. s = p @ r)"
  by (metis append_take_drop_id has_prefix_append has_prefix_def)

lemma split_on_nonempty [simp]: "split_on x s \<noteq> []"
  by (cases s) (auto split: list.splits)

lemma split_on_free: "w \<in> set (split_on x s) \<Longrightarrow> x \<notin> set w"
  by (induction s arbitrary: w) (auto split: if_splits list.splits)

lemma join_split [simp]: "join_with x (split_on x s) = s"
proof (induction s)
  case (Cons c cs)
  obtain w ws where w: "split_on x cs = w # ws" by (cases "split_on x cs") auto
  show ?case using Cons w by (cases ws) auto
qed simp

lemma split_join:
  "ws \<noteq> [] \<Longrightarrow> (\<And>w. w \<in> set ws \<Longrightarrow> x \<notin> set w) \<Longrightarrow> split_on x (join_with x ws) = ws"
proof (induction ws rule: join_with.induct)
  case (2 x w)
  then show ?case by (induction w) auto
next
  case (3 x w v ws)
  have "split_on x (u @ x # r) = u # split_on x r" if "x \<notin> set u" for u r using that by (induction u) auto
  then show ?case using 3 by simp
qed simp

end
