(* ===== verification/Update_Manager.thy ===== *)
theory Update_Manager
  imports Update_Trust Go_Path
begin

section \<open>The updater\<close>

text \<open>
  Model of \<open>src/internal/update/update.go\<close>: verification of a signed manifest, staging of the
  artifact, the journaled replacement of the installed program, and the recovery at a start.

  The disk holds the files of the install directory and the journal.  Each call to the file
  system takes the next of a list of answers: it works, it fails without an effect, or the
  machine stops there; after a stop no call has an effect.  File operations reach the disk in
  the order they are issued.  A call beyond the list works.  The bytes a fetch returns, the
  names of temporary files, what \<open>net/url\<close> makes of an address and the answers of the health
  check (an interface with no implementation in the package) are arguments.
\<close>

subsection \<open>The disk and the calls on it\<close>

datatype node = Regular bytes | Irregular

record journal =
  j_state :: string
  j_version :: string
  j_previous :: string
  j_staged :: string

datatype journal_file = Entry journal | Undecodable

record disk =
  dk_files :: "string \<Rightarrow> node option"
  dk_journal :: "journal_file option"

datatype answer = Works | Fails | Stops

datatype update_error =
  ErrManifestInvalid | ErrSignatureInvalid | ErrIncompatible | ErrArtifactInvalid | ErrHealthCheck | ErrRollback |
  ErrHealthAndRollback | FileError | Stopped

record updater =
  up_disk :: disk
  up_answers :: "answer list"
  up_stopped :: bool
  up_checks :: nat
  up_version :: string

type_synonym 'a update_call = "updater \<Rightarrow> (update_error + 'a) \<times> updater"

definition give :: "'a \<Rightarrow> 'a update_call" where
  "give x s = (Inr x, s)"

definition refuse :: "update_error \<Rightarrow> 'a update_call" where
  "refuse e s = (Inl e, s)"

definition andthen :: "'a update_call \<Rightarrow> ('a \<Rightarrow> 'b update_call) \<Rightarrow> 'b update_call" where
  "andthen m k s = (case m s of (Inl e, s') \<Rightarrow> (Inl e, s') | (Inr x, s') \<Rightarrow> k x s')"

text \<open>What follows a call that returned an error, before the error is passed on.\<close>

definition on_error :: "'a update_call \<Rightarrow> (update_error \<Rightarrow> updater \<Rightarrow> update_error \<times> updater) \<Rightarrow> 'a update_call" where
  "on_error m h s =
     (case m s of
        (Inr x, s') \<Rightarrow> (Inr x, s')
      | (Inl e, s') \<Rightarrow> (case h e s' of (e', s'') \<Rightarrow> (Inl e', s'')))"

text \<open>A call whose own result is dropped.\<close>

definition dropping :: "'a update_call \<Rightarrow> update_error \<Rightarrow> updater \<Rightarrow> update_error \<times> updater" where
  "dropping m e s = (e, snd (m s))"

definition sys :: "(disk \<Rightarrow> disk) \<Rightarrow> unit update_call" where
  "sys f s =
     (if up_stopped s then (Inl Stopped, s)
      else case up_answers s of
        [] \<Rightarrow> (Inr (), s\<lparr>up_disk := f (up_disk s)\<rparr>)
      | Works # as \<Rightarrow> (Inr (), s\<lparr>up_disk := f (up_disk s), up_answers := as\<rparr>)
      | Fails # as \<Rightarrow> (Inl FileError, s\<lparr>up_answers := as\<rparr>)
      | Stops # as \<Rightarrow> (Inl Stopped, s\<lparr>up_answers := as, up_stopped := True\<rparr>))"

definition disk_of :: "disk update_call" where
  "disk_of s = (Inr (up_disk s), s)"

definition stat :: "string \<Rightarrow> node option update_call" where
  "stat path = andthen (sys (\<lambda>d. d)) (\<lambda>_. andthen disk_of (\<lambda>d. give (dk_files d path)))"

text \<open>\<open>os.Remove\<close>; the callers take a missing file for success.\<close>

definition remove_file :: "string \<Rightarrow> unit update_call" where
  "remove_file path = sys (\<lambda>d. d\<lparr>dk_files := (dk_files d)(path := None)\<rparr>)"

definition move_file :: "string \<Rightarrow> string \<Rightarrow> disk \<Rightarrow> disk" where
  "move_file from to d = d\<lparr>dk_files := (dk_files d)(from := None, to := dk_files d from)\<rparr>"

definition rename :: "string \<Rightarrow> string \<Rightarrow> unit update_call" where
  "rename from to =
     andthen disk_of (\<lambda>d. case dk_files d from of None \<Rightarrow> refuse FileError | Some _ \<Rightarrow> sys (move_file from to))"

definition sync_directory :: "unit update_call" where
  "sync_directory = sys (\<lambda>d. d)"

text \<open>The temporary file of the journal, its rename over the journal, and the sync.\<close>

definition write_journal :: "journal \<Rightarrow> unit update_call" where
  "write_journal ent =
     andthen (sys (\<lambda>d. d)) (\<lambda>_. andthen (sys (\<lambda>d. d\<lparr>dk_journal := Some (Entry ent)\<rparr>)) (\<lambda>_. sync_directory))"

definition remove_and_sync :: "unit update_call" where
  "remove_and_sync = andthen (sys (\<lambda>d. d\<lparr>dk_journal := None\<rparr>)) (\<lambda>_. sync_directory)"

definition safe_optional_regular :: "string \<Rightarrow> unit update_call" where
  "safe_optional_regular path =
     andthen (stat path) (\<lambda>n. case n of None \<Rightarrow> give () | Some (Regular _) \<Rightarrow> give () | Some Irregular \<Rightarrow> refuse ErrArtifactInvalid)"

definition safe_required_regular :: "string \<Rightarrow> unit update_call" where
  "safe_required_regular path =
     andthen (safe_optional_regular path) (\<lambda>_. andthen (stat path) (\<lambda>n. case n of None \<Rightarrow> refuse FileError | Some _ \<Rightarrow> give ()))"

subsection \<open>Paths\<close>

text \<open>\<open>filepath.Rel\<close> fails for a relative path, as the directory is absolute.\<close>

definition safe_staged_path :: "string \<Rightarrow> string list \<Rightarrow> bool" where
  "safe_staged_path path directory \<longleftrightarrow>
     is_abs path \<and> take 1 (relative_parts directory (path_parts path)) \<noteq> [''..''] \<and> take 12 (base_name path) = ''.pbh-update-''"

definition validate_journal :: "journal \<Rightarrow> string \<Rightarrow> string list \<Rightarrow> bool" where
  "validate_journal e current directory \<longleftrightarrow>
     valid_version (j_version e) \<and> valid_version (j_previous e) \<and> compare_version (j_version e) (j_previous e) > 0 \<and>
     (current = j_previous e \<or> current = j_version e) \<and>
     (if j_state e \<in> {''staged'', ''backing_up'', ''activating''} then safe_staged_path (j_staged e) directory
      else if j_state e \<in> {''checking'', ''committed''} then j_staged e = []
      else False)"

definition remove_staged :: "string \<Rightarrow> string list \<Rightarrow> unit update_call" where
  "remove_staged path directory =
     (if \<not> safe_staged_path path directory then refuse ErrManifestInvalid
      else andthen (remove_file path) (\<lambda>_. sync_directory))"

subsection \<open>Verification and staging\<close>

record parsed_url =
  pu_scheme :: string
  pu_user :: bool
  pu_host :: string

record update_config =
  cf_state_root :: string
  cf_install :: string
  cf_channel :: string
  cf_protocol :: string
  cf_store :: int
  cf_hosts :: "string list"
  cf_max_artifact :: int
  cf_platform :: string

record update_env =
  ue_json :: update_json
  ue_ed25519 :: signature_scheme
  ue_parse_url :: "string \<Rightarrow> parsed_url option"
  ue_health :: "nat \<Rightarrow> node option \<Rightarrow> string \<Rightarrow> bool"

definition allowed_url :: "update_env \<Rightarrow> update_config \<Rightarrow> string \<Rightarrow> bool" where
  "allowed_url env cfg raw =
     (case ue_parse_url env raw of
        None \<Rightarrow> False
      | Some u \<Rightarrow> pu_scheme u = ''https'' \<and> \<not> pu_user u \<and> pu_host u \<in> set (cf_hosts cfg))"

definition lower_char :: "char \<Rightarrow> char" where
  "lower_char c = (if upper_letter c then char_of (of_char c + 32 :: nat) else c)"

definition to_lower :: "string \<Rightarrow> string" where
  "to_lower s = map lower_char s"

text \<open>\<open>hex.DecodeString\<close> succeeds.\<close>

definition hex_text :: "string \<Rightarrow> bool" where
  "hex_text s \<longleftrightarrow> even (length s) \<and> list_all (\<lambda>c. c \<in> set ''0123456789abcdefABCDEF'') s"

definition compatible :: "update_config \<Rightarrow> string \<Rightarrow> trust_store \<Rightarrow> manifest \<Rightarrow> bool" where
  "compatible cfg current trust m \<longleftrightarrow>
     mf_published m \<noteq> None \<and> \<not> mf_revoked m \<and> \<not> version_revoked (mf_version m) trust \<and> mf_channel m = cf_channel cfg \<and>
     valid_version (mf_version m) \<and> compare_version (mf_version m) current > 0 \<and>
     version_in_range (cf_protocol cfg) (mf_min_protocol m) (mf_max_protocol m) \<and> mf_min_store m \<le> cf_store cfg \<and> cf_store cfg \<le> mf_max_store m"

definition artifact_of :: "update_env \<Rightarrow> update_config \<Rightarrow> manifest \<Rightarrow> artifact option" where
  "artifact_of env cfg m =
     (case map_of (mf_artifacts m) (cf_platform cfg) of
        None \<Rightarrow> None
      | Some a \<Rightarrow>
          if ar_size a < 1 \<or> ar_size a > cf_max_artifact cfg \<or> length (ar_sha256 a) \<noteq> 64 \<or> \<not> allowed_url env cfg (ar_url a) \<or> \<not> hex_text (ar_sha256 a)
          then None else Some a)"

definition verify_update :: "update_env \<Rightarrow> update_config \<Rightarrow> string \<Rightarrow> trust_store \<Rightarrow> bytes \<Rightarrow> update_error + manifest \<times> artifact" where
  "verify_update env cfg current trust data =
     (let J = ue_json env
      in case strict_json J (uj_envelope J) data of
        None \<Rightarrow> Inl ErrManifestInvalid
      | Some e \<Rightarrow>
          (case lookup_trusted (ue_key e) trust of
             None \<Rightarrow> Inl ErrSignatureInvalid
           | Some key \<Rightarrow>
               if length key \<noteq> 32 then Inl ErrSignatureInvalid
               else (case raw_url_decode (ue_manifest e) of
                       None \<Rightarrow> Inl ErrManifestInvalid
                     | Some mb \<Rightarrow>
                         if length mb > 2 ^ 20 then Inl ErrManifestInvalid
                         else (case raw_url_decode (ue_signature e) of
                                 None \<Rightarrow> Inl ErrSignatureInvalid
                               | Some sig \<Rightarrow>
                                   if \<not> ue_ed25519 env key mb sig then Inl ErrSignatureInvalid
                                   else (case strict_json J (uj_manifest J) mb of
                                           None \<Rightarrow> Inl ErrManifestInvalid
                                         | Some m \<Rightarrow>
                                             if \<not> compatible cfg current trust m then Inl ErrIncompatible
                                             else (case artifact_of env cfg m of
                                                     None \<Rightarrow> Inl ErrArtifactInvalid
                                                   | Some a \<Rightarrow> Inr (m, a)))))))"

definition matches_artifact :: "artifact \<Rightarrow> bytes \<Rightarrow> bool" where
  "matches_artifact a b \<longleftrightarrow> int (length b) = ar_size a \<and> hex_string (sha256 b) = to_lower (ar_sha256 a)"

text \<open>
  \<open>body\<close> is what the fetch returns: no reader, or the bytes it yields and whether the reader
  ends without an error (at most \<open>MaxArtifactBytes + 1\<close> are read).  The deferred removal of
  the temporary file follows an error.
\<close>

definition stage :: "update_config \<Rightarrow> artifact \<Rightarrow> (bytes \<times> bool) option \<Rightarrow> string \<Rightarrow> string update_call" where
  "stage cfg a body tmp =
     (case body of
        None \<Rightarrow> refuse FileError
      | Some (bs, clean) \<Rightarrow>
          let content = take (nat (cf_max_artifact cfg + 1)) bs
          in andthen disk_of (\<lambda>d.
             if dk_files d tmp \<noteq> None then refuse FileError
             else andthen (sys (\<lambda>d. d\<lparr>dk_files := (dk_files d)(tmp := Some (Regular []))\<rparr>)) (\<lambda>_.
               on_error
                 (andthen (sys (\<lambda>d. d)) (\<lambda>_. andthen (sys (\<lambda>d. d\<lparr>dk_files := (dk_files d)(tmp := Some (Regular content))\<rparr>)) (\<lambda>_.
                    if \<not> clean \<and> length bs < nat (cf_max_artifact cfg + 1) then refuse FileError
                    else if \<not> matches_artifact a content \<or> int (length content) > cf_max_artifact cfg then refuse ErrArtifactInvalid
                    else andthen (sys (\<lambda>d. d)) (\<lambda>_. andthen sync_directory (\<lambda>_. give tmp)))))
                 (dropping (remove_file tmp)))))"

definition verify_file :: "string \<Rightarrow> artifact \<Rightarrow> unit update_call" where
  "verify_file path a =
     andthen (safe_required_regular path) (\<lambda>_. andthen (stat path) (\<lambda>n.
       case n of
         Some (Regular b) \<Rightarrow> if matches_artifact a (take (nat (ar_size a + 1)) b) then give () else refuse ErrArtifactInvalid
       | _ \<Rightarrow> refuse FileError))"

subsection \<open>Replacement and recovery\<close>

definition health_check :: "update_env \<Rightarrow> string \<Rightarrow> string \<Rightarrow> bool update_call" where
  "health_check env path version s =
     (Inr (ue_health env (up_checks s) (dk_files (up_disk s) path) version), s\<lparr>up_checks := Suc (up_checks s)\<rparr>)"

definition previous_path :: "update_config \<Rightarrow> string" where
  "previous_path cfg = cf_install cfg @ ''.previous''"

definition as_rollback :: "'a update_call \<Rightarrow> 'a update_call" where
  "as_rollback m = on_error m (\<lambda>_ s. (ErrRollback, s))"

definition rollback :: "update_config \<Rightarrow> unit update_call" where
  "rollback cfg =
     andthen (as_rollback (safe_required_regular (previous_path cfg))) (\<lambda>_.
     andthen (as_rollback (remove_file (cf_install cfg))) (\<lambda>_.
     andthen (as_rollback (stat (previous_path cfg))) (\<lambda>n.
       case n of
         None \<Rightarrow> refuse ErrRollback
       | Some _ \<Rightarrow>
           andthen (as_rollback (rename (previous_path cfg) (cf_install cfg))) (\<lambda>_.
           andthen (as_rollback sync_directory) (\<lambda>_. remove_and_sync)))))"

text \<open>An error after which the result of a rollback is dropped.\<close>

definition or_rollback :: "update_config \<Rightarrow> 'a update_call \<Rightarrow> 'a update_call" where
  "or_rollback cfg m = on_error m (dropping (rollback cfg))"

text \<open>The file of the installed program moves to the backup, if there is one.\<close>

definition back_up :: "update_config \<Rightarrow> unit update_call" where
  "back_up cfg =
     andthen (safe_optional_regular (previous_path cfg)) (\<lambda>_.
     andthen (remove_file (previous_path cfg)) (\<lambda>_.
     andthen (stat (cf_install cfg)) (\<lambda>n.
       case n of None \<Rightarrow> give () | Some _ \<Rightarrow> rename (cf_install cfg) (previous_path cfg))))"

text \<open>\<open>Apply\<close> from the first entry of the journal to the rename of the staged file.\<close>

definition replace_program :: "update_config \<Rightarrow> journal \<Rightarrow> unit update_call" where
  "replace_program cfg ent =
     andthen (write_journal (ent\<lparr>j_state := ''staged''\<rparr>)) (\<lambda>_.
     andthen (write_journal (ent\<lparr>j_state := ''backing_up''\<rparr>)) (\<lambda>_.
     andthen (back_up cfg) (\<lambda>_.
     andthen (or_rollback cfg sync_directory) (\<lambda>_.
     andthen (or_rollback cfg (write_journal (ent\<lparr>j_state := ''activating''\<rparr>))) (\<lambda>_.
     or_rollback cfg (rename (j_staged ent) (cf_install cfg)))))))"

text \<open>\<open>Apply\<close> from there: the check of the installed program and the commit.\<close>

definition check_program :: "update_env \<Rightarrow> update_config \<Rightarrow> journal \<Rightarrow> unit update_call" where
  "check_program env cfg ent =
     andthen (or_rollback cfg sync_directory) (\<lambda>_.
     andthen (or_rollback cfg (write_journal (ent\<lparr>j_state := ''checking'', j_staged := []\<rparr>))) (\<lambda>_.
     andthen (health_check env (cf_install cfg) (j_version ent)) (\<lambda>ok.
       if ok then write_journal (ent\<lparr>j_state := ''committed'', j_staged := []\<rparr>)
       else andthen (on_error (rollback cfg) (\<lambda>_ s. (ErrHealthAndRollback, s))) (\<lambda>_. refuse ErrHealthCheck))))"

definition apply_update ::
    "update_env \<Rightarrow> update_config \<Rightarrow> trust_store \<Rightarrow> bytes \<Rightarrow> (bytes \<times> bool) option \<Rightarrow> string \<Rightarrow> manifest update_call" where
  "apply_update env cfg trust data body tmp s0 =
     (case verify_update env cfg (up_version s0) trust data of
        Inl e \<Rightarrow> (Inl e, s0)
      | Inr (m, a) \<Rightarrow>
          let ent = \<lparr>j_state = ''staged'', j_version = mf_version m, j_previous = up_version s0, j_staged = tmp\<rparr>
          in andthen (stage cfg a body tmp) (\<lambda>staged.
             andthen (on_error
               (andthen (health_check env staged (mf_version m)) (\<lambda>ok.
                  if \<not> ok then refuse ErrHealthCheck
                  else andthen (verify_file staged a) (\<lambda>_. replace_program cfg ent)))
               (dropping (remove_file staged))) (\<lambda>_.
             andthen (check_program env cfg ent) (\<lambda>_. \<lambda>s. (Inr m, s\<lparr>up_version := mf_version m\<rparr>)))) s0)"

definition recover_backing_up :: "update_config \<Rightarrow> journal \<Rightarrow> unit update_call" where
  "recover_backing_up cfg ent =
     andthen (stat (previous_path cfg)) (\<lambda>n.
       case n of
         Some _ \<Rightarrow> andthen (rollback cfg) (\<lambda>_. remove_staged (j_staged ent) (path_dir (cf_install cfg)))
       | None \<Rightarrow> andthen (remove_staged (j_staged ent) (path_dir (cf_install cfg))) (\<lambda>_. remove_and_sync))"

definition set_version :: "string \<Rightarrow> unit update_call" where
  "set_version v s = (Inr (), s\<lparr>up_version := v\<rparr>)"

definition recover_committed :: "update_env \<Rightarrow> update_config \<Rightarrow> journal \<Rightarrow> unit update_call" where
  "recover_committed env cfg ent =
     andthen (safe_optional_regular (cf_install cfg)) (\<lambda>_.
     andthen (health_check env (cf_install cfg) (j_version ent)) (\<lambda>ok.
       if ok then set_version (j_version ent)
       else andthen (on_error (rollback cfg) (\<lambda>_ s. (ErrHealthAndRollback, s))) (\<lambda>_. set_version (j_previous ent))))"

definition recover_entry :: "update_env \<Rightarrow> update_config \<Rightarrow> journal \<Rightarrow> unit update_call" where
  "recover_entry env cfg ent =
     (if j_state ent = ''staged'' then
        andthen (remove_staged (j_staged ent) (path_dir (cf_install cfg))) (\<lambda>_. remove_and_sync)
      else if j_state ent = ''backing_up'' then recover_backing_up cfg ent
      else if j_state ent \<in> {''activating'', ''checking''} then
        andthen (rollback cfg) (\<lambda>_.
          if j_staged ent \<noteq> [] then remove_staged (j_staged ent) (path_dir (cf_install cfg)) else give ())
      else if j_state ent = ''committed'' then recover_committed env cfg ent
      else refuse ErrManifestInvalid)"

definition recover :: "update_env \<Rightarrow> update_config \<Rightarrow> unit update_call" where
  "recover env cfg =
     andthen disk_of (\<lambda>d.
       case dk_journal d of
         None \<Rightarrow> give ()
       | Some file \<Rightarrow>
           andthen (sys (\<lambda>d. d)) (\<lambda>_.
             case file of
               Undecodable \<Rightarrow> refuse ErrManifestInvalid
             | Entry ent \<Rightarrow>
                 (\<lambda>s. if \<not> validate_journal ent (up_version s) (path_dir (cf_install cfg)) then (Inl ErrManifestInvalid, s)
                      else recover_entry env cfg ent s)))"

text \<open>
  \<open>New\<close>: \<open>current\<close> is the version of the starting program, \<open>trust\<close> what \<open>newTrustStore\<close>
  returns, \<open>interfaces\<close> whether a fetcher and a health check are given and \<open>roots\<close> whether
  the two directories are there, or can be made, and are no symbolic links.
\<close>

definition default_artifact :: "update_config \<Rightarrow> update_config" where
  "default_artifact cfg = (if cf_max_artifact cfg = 0 then cfg\<lparr>cf_max_artifact := 268435456\<rparr> else cfg)"

definition config_valid :: "update_config \<Rightarrow> string \<Rightarrow> bytes gomap \<Rightarrow> bool \<Rightarrow> bool" where
  "config_valid cfg current keys interfaces \<longleftrightarrow>
     is_abs (cf_state_root cfg) \<and> is_abs (cf_install cfg) \<and> current \<noteq> [] \<and> cf_channel cfg \<noteq> [] \<and> cf_protocol cfg \<noteq> [] \<and>
     cf_store cfg \<ge> 1 \<and> keys \<noteq> [] \<and> cf_hosts cfg \<noteq> [] \<and> interfaces \<and> cf_max_artifact (default_artifact cfg) \<ge> 1"

definition new_updater ::
    "update_env \<Rightarrow> update_config \<Rightarrow> string \<Rightarrow> bytes gomap \<Rightarrow> bool \<Rightarrow> bool \<Rightarrow> trust_error + trust_store \<Rightarrow> trust_store update_call" where
  "new_updater env cfg current keys interfaces roots trust =
     (if \<not> config_valid cfg current keys interfaces then refuse ErrManifestInvalid
      else if \<not> roots then refuse ErrArtifactInvalid
      else andthen (safe_optional_regular (cf_install cfg)) (\<lambda>_.
        case trust of
          Inl _ \<Rightarrow> refuse FileError
        | Inr ts \<Rightarrow> andthen (set_version current) (\<lambda>_. andthen (recover env (default_artifact cfg)) (\<lambda>_. give ts))))"

text \<open>\<open>FetchAndApplyTrustBundle\<close>; a fetch gives no reader, no body, or bytes and how they end.\<close>

definition fetch_and_apply_trust ::
    "update_env \<Rightarrow> update_config \<Rightarrow> string \<Rightarrow> fetched \<Rightarrow> int \<Rightarrow> persist_outcome \<Rightarrow> trust_store \<Rightarrow> trust_error option \<times> trust_store" where
  "fetch_and_apply_trust env cfg raw body now persist s =
     (if \<not> allowed_url env cfg raw then (Some ErrTrustInvalid, s)
      else case body of
        FetchFails \<Rightarrow> (Some TrustFailure, s)
      | NoBody \<Rightarrow> (Some ErrTrustInvalid, s)
      | Body bs clean \<Rightarrow>
          if \<not> clean \<and> length bs \<le> 65536 then (Some TrustFailure, s)
          else if length bs > 65536 then (Some ErrTrustInvalid, s)
          else apply_trust (ue_json env) (ue_ed25519 env) now persist bs s)"

end
