(* ===== verification/Update_Safety.thy ===== *)
theory Update_Safety
  imports Update_Manager
begin

section \<open>Updates that stop halfway\<close>

text \<open>
  Whatever call an update or a start stops at, the program file is not lost and holds bytes
  that were installed before or that a verified manifest names.  The first part is a small
  calculus for the calls of the updater: \<open>wp m Q E d\<close> says that \<open>m\<close>, from the disk \<open>d\<close> and
  with any answers, ends with \<open>Q\<close> when it succeeds and with \<open>E\<close> when it fails or stops.
\<close>

subsection \<open>A calculus for the calls\<close>

named_theorems wp_rules \<open>rules of the calculus, one for each call\<close>

definition wp :: "'a update_call \<Rightarrow> ('a \<Rightarrow> disk \<Rightarrow> bool) \<Rightarrow> (disk \<Rightarrow> bool) \<Rightarrow> disk \<Rightarrow> bool" where
  "wp m Q E d \<longleftrightarrow>
     (\<forall>s x s'. up_disk s = d \<longrightarrow> m s = (Inr x, s') \<longrightarrow> Q x (up_disk s')) \<and>
     (\<forall>s e s'. up_disk s = d \<longrightarrow> m s = (Inl e, s') \<longrightarrow> E (up_disk s'))"

lemma wp_success: "wp m Q E (up_disk s) \<Longrightarrow> m s = (Inr x, s') \<Longrightarrow> Q x (up_disk s')"
  unfolding wp_def by blast

lemma wp_failure: "wp m Q E (up_disk s) \<Longrightarrow> m s = (Inl e, s') \<Longrightarrow> E (up_disk s')"
  unfolding wp_def by blast

lemma wp_mono:
  assumes "wp m Q E d" "\<And>x d. Q x d \<Longrightarrow> Q' x d" "\<And>d. E d \<Longrightarrow> E' d"
  shows "wp m Q' E' d"
  using assms unfolding wp_def by blast

lemma wp_both: "wp m (\<lambda>_. E) E d \<Longrightarrow> up_disk s = d \<Longrightarrow> E (up_disk (snd (m s)))"
  by (cases "m s"; cases "fst (m s)") (auto simp: wp_def)

lemma wp_give [wp_rules]: "Q x d \<Longrightarrow> wp (give x) Q E d"
  by (simp add: wp_def give_def)

lemma wp_refuse [wp_rules]: "E d \<Longrightarrow> wp (refuse e) Q E d"
  by (simp add: wp_def refuse_def)

lemma wp_andthen [wp_rules]: "wp m (\<lambda>x. wp (k x) Q E) E d \<Longrightarrow> wp (andthen m k) Q E d"
  unfolding wp_def andthen_def by (simp split: prod.splits sum.splits)

lemma wp_sys [wp_rules]: "E d \<Longrightarrow> Q () (f d) \<Longrightarrow> wp (sys f) Q E d"
  by (auto simp: wp_def sys_def split: list.splits answer.splits)

lemma wp_disk_of [wp_rules]: "Q d d \<Longrightarrow> wp disk_of Q E d"
  by (simp add: wp_def disk_of_def)

lemma wp_stat [wp_rules]: "E d \<Longrightarrow> Q (dk_files d p) d \<Longrightarrow> wp (stat p) Q E d"
  unfolding stat_def by (intro wp_rules)

lemma wp_rename_error [wp_rules]: "wp m Q E d \<Longrightarrow> wp (on_error m (\<lambda>_ s. (e, s))) Q E d"
  unfolding wp_def on_error_def by (simp split: prod.splits sum.splits)

lemma wp_as_rollback [wp_rules]: "wp m Q E d \<Longrightarrow> wp (as_rollback m) Q E d"
  unfolding as_rollback_def by (rule wp_rename_error)

lemma wp_dropping:
  assumes "wp m Q E' d" "\<And>d. E' d \<Longrightarrow> wp h (\<lambda>_. E) E d"
  shows "wp (on_error m (dropping h)) Q E d"
  using assms(1) wp_both [OF assms(2) refl] unfolding wp_def on_error_def dropping_def by (simp split: prod.splits sum.splits)

lemma wp_health [wp_rules]: "(\<And>n. Q (ue_health env n (dk_files d p) v) d) \<Longrightarrow> wp (health_check env p v) Q E d"
  by (simp add: wp_def health_check_def)

lemma wp_set_version [wp_rules]: "Q () d \<Longrightarrow> wp (set_version v) Q E d"
  by (simp add: wp_def set_version_def)

lemma wp_if [wp_rules]: "(b \<Longrightarrow> wp m Q E d) \<Longrightarrow> (\<not> b \<Longrightarrow> wp m' Q E d) \<Longrightarrow> wp (if b then m else m') Q E d"
  by simp

lemma wp_option [wp_rules]:
  "(n = None \<Longrightarrow> wp m Q E d) \<Longrightarrow> (\<And>x. n = Some x \<Longrightarrow> wp (m' x) Q E d) \<Longrightarrow> wp (case n of None \<Rightarrow> m | Some x \<Rightarrow> m' x) Q E d"
  by (cases n) simp_all

lemma wp_node [wp_rules]:
  "(\<And>b. n = Regular b \<Longrightarrow> wp (m b) Q E d) \<Longrightarrow> (n = Irregular \<Longrightarrow> wp m' Q E d) \<Longrightarrow> wp (case n of Regular b \<Rightarrow> m b | Irregular \<Rightarrow> m') Q E d"
  by (cases n) simp_all

lemma wp_sync [wp_rules]: "E d \<Longrightarrow> Q () d \<Longrightarrow> wp sync_directory Q E d"
  unfolding sync_directory_def by (intro wp_rules)

lemma wp_remove_file [wp_rules]: "E d \<Longrightarrow> Q () (d\<lparr>dk_files := (dk_files d)(p := None)\<rparr>) \<Longrightarrow> wp (remove_file p) Q E d"
  unfolding remove_file_def by (intro wp_rules)

lemma wp_rename [wp_rules]:
  "E d \<Longrightarrow> (dk_files d p \<noteq> None \<Longrightarrow> Q () (move_file p q d)) \<Longrightarrow> wp (rename p q) Q E d"
  unfolding rename_def by (intro wp_rules) simp_all

lemma wp_write_journal [wp_rules]:
  "E d \<Longrightarrow> E (d\<lparr>dk_journal := Some (Entry j)\<rparr>) \<Longrightarrow> Q () (d\<lparr>dk_journal := Some (Entry j)\<rparr>) \<Longrightarrow> wp (write_journal j) Q E d"
  unfolding write_journal_def by (intro wp_rules)

lemma wp_remove_and_sync [wp_rules]:
  "E d \<Longrightarrow> E (d\<lparr>dk_journal := None\<rparr>) \<Longrightarrow> Q () (d\<lparr>dk_journal := None\<rparr>) \<Longrightarrow> wp remove_and_sync Q E d"
  unfolding remove_and_sync_def by (intro wp_rules)

lemma wp_optional_regular [wp_rules]:
  "E d \<Longrightarrow> (dk_files d p \<noteq> Some Irregular \<Longrightarrow> Q () d) \<Longrightarrow> wp (safe_optional_regular p) Q E d"
  unfolding safe_optional_regular_def by (intro wp_rules) simp_all

lemma wp_required_regular [wp_rules]:
  "E d \<Longrightarrow> (\<And>b. dk_files d p = Some (Regular b) \<Longrightarrow> Q () d) \<Longrightarrow> wp (safe_required_regular p) Q E d"
  unfolding safe_required_regular_def by (intro wp_rules) (auto, metis node.exhaust)

lemma wp_remove_staged [wp_rules]:
  "E d \<Longrightarrow> E (d\<lparr>dk_files := (dk_files d)(p := None)\<rparr>) \<Longrightarrow> Q () (d\<lparr>dk_files := (dk_files d)(p := None)\<rparr>) \<Longrightarrow>
    wp (remove_staged p dir) Q E d"
  unfolding remove_staged_def by (intro wp_rules)

subsection \<open>What the disk never loses\<close>

definition node_ok :: "(bytes \<Rightarrow> bool) \<Rightarrow> node option \<Rightarrow> bool" where
  "node_ok A n \<longleftrightarrow> (case n of None \<Rightarrow> True | Some (Regular b) \<Rightarrow> A b | Some Irregular \<Rightarrow> False)"

text \<open>The states of the journal in which a start looks at the backup.\<close>

definition restorable :: "disk \<Rightarrow> bool" where
  "restorable d \<longleftrightarrow>
     (case dk_journal d of
        Some (Entry j) \<Rightarrow> j_state j \<in> {''backing_up'', ''activating'', ''checking'', ''committed''}
      | _ \<Rightarrow> False)"

definition staged_apart :: "update_config \<Rightarrow> disk \<Rightarrow> bool" where
  "staged_apart cfg d \<longleftrightarrow>
     (case dk_journal d of Some (Entry j) \<Rightarrow> j_staged j \<noteq> cf_install cfg \<and> j_staged j \<noteq> previous_path cfg | _ \<Rightarrow> True)"

definition program_safe :: "(bytes \<Rightarrow> bool) \<Rightarrow> update_config \<Rightarrow> disk \<Rightarrow> bool" where
  "program_safe A cfg d \<longleftrightarrow>
     node_ok A (dk_files d (cf_install cfg)) \<and> node_ok A (dk_files d (previous_path cfg)) \<and> staged_apart cfg d \<and>
     (dk_files d (cf_install cfg) = None \<longrightarrow> dk_files d (previous_path cfg) \<noteq> None \<and> restorable d)"

abbreviation present :: "update_config \<Rightarrow> disk \<Rightarrow> bool" where
  "present cfg d \<equiv> dk_files d (cf_install cfg) \<noteq> None"

lemma previous_apart [simp]: "previous_path cfg \<noteq> cf_install cfg" "cf_install cfg \<noteq> previous_path cfg"
  by (simp_all add: previous_path_def)

lemmas safe_defs = program_safe_def node_ok_def restorable_def staged_apart_def move_file_def

lemma rollback_safe:
  assumes "program_safe A cfg d" "restorable d"
  shows "wp (rollback cfg) (\<lambda>_ d. program_safe A cfg d \<and> present cfg d \<and> dk_journal d = None) (program_safe A cfg) d"
  unfolding rollback_def
  by (intro wp_rules) (use assms in \<open>auto simp: safe_defs\<close>)

lemma or_rollback_safe:
  assumes "wp m Q (\<lambda>d. program_safe A cfg d \<and> restorable d) d"
  shows "wp (or_rollback cfg m) Q (program_safe A cfg) d"
  unfolding or_rollback_def
  by (rule wp_dropping [OF assms]) (auto intro: wp_mono [OF rollback_safe])

lemma back_up_safe:
  assumes "program_safe A cfg d" "restorable d" "present cfg d" "dk_files d tmp = Some (Regular b)" "tmp \<noteq> cf_install cfg" "tmp \<noteq> previous_path cfg"
  shows "wp (back_up cfg) (\<lambda>_ d'. program_safe A cfg d' \<and> restorable d' \<and> dk_files d' tmp = Some (Regular b) \<and>
      dk_files d' (previous_path cfg) \<noteq> None) (program_safe A cfg) d"
  unfolding back_up_def
  by (intro wp_rules) (use assms in \<open>auto simp: safe_defs\<close>)

lemma activate_safe:
  assumes "program_safe A cfg d" "restorable d" "dk_files d (j_staged ent) = Some (Regular b)" "A b"
    "dk_files d (previous_path cfg) \<noteq> None" "j_staged ent \<noteq> cf_install cfg" "j_staged ent \<noteq> previous_path cfg"
  shows "wp (andthen (or_rollback cfg sync_directory) (\<lambda>_.
      andthen (or_rollback cfg (write_journal (ent\<lparr>j_state := ''activating''\<rparr>))) (\<lambda>_.
      or_rollback cfg (rename (j_staged ent) (cf_install cfg)))))
    (\<lambda>_ d'. program_safe A cfg d' \<and> restorable d' \<and> dk_files d' (cf_install cfg) = Some (Regular b)) (program_safe A cfg) d"
  by (intro wp_andthen or_rollback_safe wp_rules) (use assms in \<open>auto simp: safe_defs\<close>)

lemma replace_safe:
  assumes "program_safe A cfg d" "present cfg d" "dk_files d (j_staged ent) = Some (Regular b)" "A b"
    "j_staged ent \<noteq> cf_install cfg" "j_staged ent \<noteq> previous_path cfg"
  shows "wp (replace_program cfg ent)
    (\<lambda>_ d'. program_safe A cfg d' \<and> restorable d' \<and> dk_files d' (cf_install cfg) = Some (Regular b)) (program_safe A cfg) d"
  unfolding replace_program_def
proof (intro wp_andthen [where m = "write_journal j" for j] wp_write_journal)
  let ?d = "d\<lparr>dk_journal := Some (Entry (ent\<lparr>j_state := ''staged''\<rparr>))\<rparr>"
  let ?d' = "?d\<lparr>dk_journal := Some (Entry (ent\<lparr>j_state := ''backing_up''\<rparr>))\<rparr>"
  show "program_safe A cfg d" "program_safe A cfg ?d" "program_safe A cfg ?d" "program_safe A cfg ?d'"
    using assms by (auto simp: safe_defs)
  then have "wp (back_up cfg) (\<lambda>_ d'. program_safe A cfg d' \<and> restorable d' \<and> dk_files d' (j_staged ent) = Some (Regular b) \<and>
      dk_files d' (previous_path cfg) \<noteq> None) (program_safe A cfg) ?d'"
    by (intro back_up_safe) (use assms in \<open>auto simp: restorable_def\<close>)
  then show "wp (andthen (back_up cfg) (\<lambda>_. andthen (or_rollback cfg sync_directory) (\<lambda>_.
      andthen (or_rollback cfg (write_journal (ent\<lparr>j_state := ''activating''\<rparr>))) (\<lambda>_.
      or_rollback cfg (rename (j_staged ent) (cf_install cfg))))))
    (\<lambda>_ d'. program_safe A cfg d' \<and> restorable d' \<and> dk_files d' (cf_install cfg) = Some (Regular b)) (program_safe A cfg) ?d'"
    by (intro wp_andthen [where m = "back_up cfg"], elim wp_mono) (use activate_safe assms(4-6) in blast)+
qed

lemma check_safe:
  assumes "program_safe A cfg d" "restorable d" "dk_files d (cf_install cfg) = Some (Regular b)" "cf_install cfg \<noteq> []"
  shows "wp (check_program env cfg ent)
    (\<lambda>_ d'. program_safe A cfg d' \<and> dk_files d' (cf_install cfg) = Some (Regular b)) (program_safe A cfg) d"
proof -
  let ?d = "d\<lparr>dk_journal := Some (Entry (ent\<lparr>j_state := ''checking'', j_staged := []\<rparr>))\<rparr>"
  have "program_safe A cfg ?d" "restorable ?d" using assms by (auto simp: safe_defs previous_path_def)
  note rb = rollback_safe [OF this]
  show ?thesis
    unfolding check_program_def
    by (intro wp_andthen or_rollback_safe wp_rules wp_mono [OF rb]) (use assms in \<open>auto simp: safe_defs previous_path_def\<close>)
qed

lemma stage_safe:
  assumes "program_safe A cfg d" "present cfg d" "tmp \<noteq> cf_install cfg" "tmp \<noteq> previous_path cfg"
  shows "wp (stage cfg a body tmp)
    (\<lambda>p d'. p = tmp \<and> program_safe A cfg d' \<and> present cfg d' \<and> (\<exists>b. dk_files d' tmp = Some (Regular b) \<and> matches_artifact a b))
    (program_safe A cfg) d"
proof (cases body)
  case (Some bc)
  obtain bs clean where bc: "bc = (bs, clean)" by (cases bc)
  show ?thesis
    unfolding stage_def Some bc option.case prod.case Let_def
    by (intro wp_rules wp_dropping [where E' = "program_safe A cfg"]; use assms in \<open>auto simp: safe_defs\<close>)
qed (simp add: stage_def wp_refuse assms)

lemma verify_file_safe: "E d \<Longrightarrow> Q () d \<Longrightarrow> wp (verify_file p a) Q E d"
  unfolding verify_file_def by (intro wp_rules) simp_all

lemma wp_version: "Q x d \<Longrightarrow> wp (\<lambda>s. (Inr x, s\<lparr>up_version := v\<rparr>)) Q E d"
  by (simp add: wp_def)

lemma andthen_success: "andthen m k s = (Inr x, s') \<Longrightarrow> \<exists>y s1. k y s1 = (Inr x, s')"
  by (auto simp: andthen_def split: prod.splits sum.splits)

lemma apply_safe:
  assumes "program_safe A cfg (up_disk s)" "present cfg (up_disk s)" "tmp \<noteq> cf_install cfg" "tmp \<noteq> previous_path cfg" "cf_install cfg \<noteq> []"
    and A: "\<And>m a b. verify_update env cfg (up_version s) trust data = Inr (m, a) \<Longrightarrow> matches_artifact a b \<Longrightarrow> A b"
    and r: "apply_update env cfg trust data body tmp s = (r, s')"
  shows "program_safe A cfg (up_disk s') \<and>
    (\<forall>m. r = Inr m \<longrightarrow> (\<exists>a b. verify_update env cfg (up_version s) trust data = Inr (m, a) \<and> matches_artifact a b \<and>
       dk_files (up_disk s') (cf_install cfg) = Some (Regular b) \<and> up_version s' = mf_version m))"
proof (cases "verify_update env cfg (up_version s) trust data")
  case (Inr ma)
  obtain m a where ma: "ma = (m, a)" by (cases ma)
  let ?ent = "\<lparr>j_state = ''staged'', j_version = mf_version m, j_previous = up_version s, j_staged = tmp\<rparr>"
  let ?E = "program_safe A cfg"
  let ?done = "\<lambda>d. ?E d \<and> (\<exists>b. dk_files d (cf_install cfg) = Some (Regular b) \<and> matches_artifact a b)"
  define prog where "prog = (\<lambda>tmp. andthen (on_error
      (andthen (health_check env tmp (mf_version m)) (\<lambda>ok.
         if \<not> ok then refuse ErrHealthCheck else andthen (verify_file tmp a) (\<lambda>_. replace_program cfg ?ent)))
      (dropping (remove_file tmp))) (\<lambda>_. andthen (check_program env cfg ?ent) (\<lambda>_ s. (Inr m, s\<lparr>up_version := mf_version m\<rparr>))))"
  have prog: "wp (prog tmp) (\<lambda>_. ?done) ?E d"
    if d: "?E d" "present cfg d" "dk_files d tmp = Some (Regular b)" "matches_artifact a b" for d b
  proof -
    have "A b" using A [OF _ d(4)] Inr ma by simp
    then have rep: "wp (replace_program cfg ?ent)
        (\<lambda>_ d'. program_safe A cfg d' \<and> restorable d' \<and> dk_files d' (cf_install cfg) = Some (Regular b)) ?E d"
      using replace_safe [of A cfg d ?ent b] d assms(3,4) by simp
    have chk: "wp (check_program env cfg ?ent) (\<lambda>_. ?done) ?E d'"
      if "program_safe A cfg d' \<and> restorable d' \<and> dk_files d' (cf_install cfg) = Some (Regular b)" for d'
      by (rule wp_mono [OF check_safe [where A = A and b = b]]) (use that assms(5) d(4) in auto)
    show ?thesis
      unfolding prog_def
      by (rule wp_andthen, rule wp_dropping [where E' = ?E], rule wp_andthen, rule wp_health, rule wp_if, rule wp_refuse, rule d(1),
          rule wp_andthen, rule verify_file_safe, rule d(1), rule wp_mono [OF rep], rule wp_andthen, rule wp_mono [OF chk], assumption,
          rule wp_version, assumption, assumption, assumption, rule wp_remove_file, assumption)
        (use assms(3,4) in \<open>simp add: program_safe_def staged_apart_def restorable_def\<close>)
  qed
  have w: "wp (andthen (stage cfg a body tmp) prog) (\<lambda>_. ?done) ?E (up_disk s)"
    by (rule wp_andthen, rule wp_mono [OF stage_safe [OF assms(1-4)]], elim conjE exE, hypsubst, rule prog, assumption+)
  have run: "andthen (stage cfg a body tmp) prog s = (r, s')" using r Inr ma by (simp add: apply_update_def prog_def Let_def)
  have "case r of Inl e \<Rightarrow> ?E (up_disk s') | Inr x \<Rightarrow> ?done (up_disk s')"
    using wp_success [OF w, of _ s'] wp_failure [OF w, of _ s'] run by (cases r) simp_all
  moreover have "x = m \<and> up_version s' = mf_version m" if "r = Inr x" for x
  proof -
    have "andthen (stage cfg a body tmp) prog s = (Inr x, s')" using run that by simp
    then show ?thesis unfolding prog_def by (auto dest!: andthen_success)
  qed
  ultimately show ?thesis using Inr ma by (cases r) auto
qed (use assms in \<open>auto simp: apply_update_def\<close>)

lemma wp_guard: "E d \<Longrightarrow> wp m Q E d \<Longrightarrow> wp (\<lambda>s. if P s then (Inl e, s) else m s) Q E d"
  by (auto simp: wp_def)

lemma recover_entry_safe:
  assumes d: "program_safe A cfg d" "dk_journal d = Some (Entry ent)" and h: "\<And>n v. \<not> ue_health env n None v"
  shows "wp (recover_entry env cfg ent) (\<lambda>_ d. program_safe A cfg d \<and> present cfg d) (program_safe A cfg) d"
proof -
  have rb: "wp (rollback cfg) (\<lambda>_ d. program_safe A cfg d \<and> present cfg d \<and> dk_journal d = None) (program_safe A cfg) d"
    if "j_state ent \<in> {''backing_up'', ''activating'', ''checking'', ''committed''}"
    using that d by (intro rollback_safe) (simp_all add: restorable_def)
  have apart: "j_staged ent \<noteq> cf_install cfg" "j_staged ent \<noteq> previous_path cfg" using d by (simp_all add: program_safe_def staged_apart_def)
  have there: "present cfg d" if "j_state ent = ''staged''" using d that by (auto simp: program_safe_def restorable_def)
  have healthy: "present cfg d" if "ue_health env n (dk_files d (cf_install cfg)) v" for n v
    using that h by (cases "dk_files d (cf_install cfg)") auto
  show ?thesis
    unfolding recover_entry_def recover_backing_up_def recover_committed_def
    by (intro wp_rules wp_mono [OF rb]; (use d apart there healthy in \<open>auto simp: safe_defs h\<close>)?)
qed

lemma recover_safe:
  assumes "program_safe A cfg d" and h: "\<And>n v. \<not> ue_health env n None v"
  shows "wp (recover env cfg) (\<lambda>_ d. program_safe A cfg d \<and> present cfg d) (program_safe A cfg) d"
proof -
  have none: "present cfg d" if "dk_journal d = None" using assms(1) that by (auto simp: program_safe_def restorable_def)
  have ent: "wp (case f of Undecodable \<Rightarrow> refuse ErrManifestInvalid
      | Entry ent \<Rightarrow> (\<lambda>s. if \<not> validate_journal ent (up_version s) (path_dir (cf_install cfg)) then (Inl ErrManifestInvalid, s)
          else recover_entry env cfg ent s)) (\<lambda>_ d. program_safe A cfg d \<and> present cfg d) (program_safe A cfg) d"
    if "dk_journal d = Some f" for f
  proof (cases f)
    case (Entry e)
    show ?thesis
      unfolding Entry journal_file.case
      by (rule wp_guard [OF assms(1) recover_entry_safe [OF assms(1) that [unfolded Entry] h]])
  qed (simp add: wp_refuse assms(1))
  show ?thesis
    unfolding recover_def by (intro wp_rules ent) (use assms(1) none in auto)
qed

lemma default_artifact_install [simp]:
  "cf_install (default_artifact cfg) = cf_install cfg" "previous_path (default_artifact cfg) = previous_path cfg"
  by (simp_all add: default_artifact_def previous_path_def)

lemma default_artifact_safe [simp]: "program_safe A (default_artifact cfg) = program_safe A cfg"
  by (simp add: program_safe_def staged_apart_def fun_eq_iff split: option.split journal_file.split)

lemma new_updater_safe:
  assumes "program_safe A cfg d" and h: "\<And>n v. \<not> ue_health env n None v"
  shows "wp (new_updater env cfg current keys interfaces roots trust) (\<lambda>_ d. program_safe A cfg d \<and> present cfg d) (program_safe A cfg) d"
proof -
  note rec = recover_safe [of A "default_artifact cfg" d env, simplified, OF assms]
  have "wp (case trust of Inl _ \<Rightarrow> refuse FileError
      | Inr ts \<Rightarrow> andthen (set_version current) (\<lambda>_. andthen (recover env (default_artifact cfg)) (\<lambda>_. give ts)))
    (\<lambda>_ d. program_safe A cfg d \<and> present cfg d) (program_safe A cfg) d"
    by (cases trust) (auto intro!: wp_refuse wp_andthen wp_set_version wp_give wp_mono [OF rec] simp: assms(1))
  then show ?thesis
    unfolding new_updater_def by (intro wp_rules) (use assms(1) in auto)
qed

subsection \<open>Runs of the updater\<close>

text \<open>
  Starts and updates, each with its own answers.  An update needs a running process; a process
  whose program file is missing, as a rollback failed, is started again first.
\<close>

datatype update_op =
    StartUpdater string "bytes gomap" bool bool "trust_error + trust_store" "answer list"
  | ApplyUpdate trust_store bytes "(bytes \<times> bool) option" string "answer list"

definition with_answers :: "answer list \<Rightarrow> updater \<Rightarrow> updater" where
  "with_answers as u = u\<lparr>up_answers := as, up_stopped := False\<rparr>"

fun update_step :: "update_env \<Rightarrow> update_config \<Rightarrow> updater \<times> bool \<Rightarrow> update_op \<Rightarrow> updater \<times> bool" where
  "update_step env cfg (u, running) (StartUpdater current keys interfaces roots trust as) =
     (case new_updater env cfg current keys interfaces roots trust (with_answers as u) of
        (Inl _, u') \<Rightarrow> (u', False)
      | (Inr _, u') \<Rightarrow> (u', True))"
| "update_step env cfg (u, running) (ApplyUpdate trust data body tmp as) =
     (if \<not> running \<or> dk_files (up_disk u) (cf_install cfg) = None then (u, running)
      else case apply_update env (default_artifact cfg) trust data body tmp (with_answers as u) of (_, u') \<Rightarrow> (u', \<not> up_stopped u'))"

text \<open>\<open>os.CreateTemp\<close> gives a name of its own.\<close>

definition temp_apart :: "update_config \<Rightarrow> update_op \<Rightarrow> bool" where
  "temp_apart cfg x =
     (case x of StartUpdater _ _ _ _ _ _ \<Rightarrow> True | ApplyUpdate _ _ _ tmp _ \<Rightarrow> tmp \<noteq> cf_install cfg \<and> tmp \<noteq> previous_path cfg)"

text \<open>Bytes that a manifest names which one of the operations verified.\<close>

definition verified_in :: "update_env \<Rightarrow> update_config \<Rightarrow> update_op list \<Rightarrow> bytes \<Rightarrow> bool" where
  "verified_in env cfg ops b \<longleftrightarrow>
     (\<exists>trust data body tmp as current m a. ApplyUpdate trust data body tmp as \<in> set ops \<and>
        verify_update env (default_artifact cfg) current trust data = Inr (m, a) \<and> matches_artifact a b)"

lemma with_answers_disk [simp]: "up_disk (with_answers as u) = up_disk u" "up_version (with_answers as u) = up_version u"
  by (simp_all add: with_answers_def)

lemma update_step_safe:
  assumes "program_safe A cfg (up_disk u)" "cf_install cfg \<noteq> []" "temp_apart cfg x" and h: "\<And>n v. \<not> ue_health env n None v"
    and A: "\<And>b. verified_in env cfg [x] b \<Longrightarrow> A b"
  shows "program_safe A cfg (up_disk (fst (update_step env cfg (u, running) x)))"
proof (cases x)
  case (StartUpdater current keys interfaces roots trust as)
  note wp = new_updater_safe [of A cfg "up_disk (with_answers as u)" env current keys interfaces roots trust, simplified with_answers_disk, OF assms(1) h]
  obtain r u' where r: "new_updater env cfg current keys interfaces roots trust (with_answers as u) = (r, u')"
    by (cases "new_updater env cfg current keys interfaces roots trust (with_answers as u)")
  have "program_safe A cfg (up_disk u')" using wp r unfolding wp_def by (cases r) (auto dest: spec [of _ "with_answers as u"])
  then show ?thesis using r StartUpdater by (cases r) simp_all
next
  case (ApplyUpdate trust data body tmp as)
  obtain r u' where r: "apply_update env (default_artifact cfg) trust data body tmp (with_answers as u) = (r, u')"
    by (cases "apply_update env (default_artifact cfg) trust data body tmp (with_answers as u)")
  have "program_safe A cfg (up_disk u')" if "present cfg (up_disk u)"
    using apply_safe [OF _ _ _ _ _ _ r, of A] assms(1-3) that A ApplyUpdate by (auto simp: temp_apart_def verified_in_def)
  then show ?thesis using r ApplyUpdate assms(1) by auto
qed

lemma verified_in_mono: "verified_in env cfg ops b \<Longrightarrow> set ops \<subseteq> set ops' \<Longrightarrow> verified_in env cfg ops' b"
  unfolding verified_in_def by blast

lemma update_run_safe:
  assumes "cf_install cfg \<noteq> []" and h: "\<And>n v. \<not> ue_health env n None v"
    and "program_safe A cfg (up_disk (fst p))" "list_all (temp_apart cfg) ops" "\<And>b. verified_in env cfg ops b \<Longrightarrow> A b"
  shows "program_safe A cfg (up_disk (fst (run (update_step env cfg) p ops)))"
  using assms(3-5)
proof (induction ops arbitrary: p)
  case (Cons x ops)
  have "program_safe A cfg (up_disk (fst (update_step env cfg p x)))"
    using update_step_safe [of A cfg "fst p" x env "snd p"] Cons.prems assms(1) h verified_in_mono [of env cfg "[x]" _ "x # ops"] by simp
  then show ?case using Cons.IH [of "update_step env cfg p x"] Cons.prems verified_in_mono [of env cfg ops _ "x # ops"] by auto
qed simp

subsection \<open>Properties\<close>


text \<open>
  A first update, stopped before the staged file is moved into place: the program is only in
  the backup, and the next start moves it back.
\<close>

definition demo_config :: update_config where
  "demo_config = \<lparr>cf_state_root = ''/s'', cf_install = ''/p/pbh'', cf_channel = ''stable'', cf_protocol = ''1.0'', cf_store = 1, cf_hosts = [''h''],
     cf_max_artifact = 9, cf_platform = ''linux-amd64''\<rparr>"

definition demo_artifact :: artifact where
  "demo_artifact = \<lparr>ar_url = ''u'', ar_sha256 = hex_string (sha256 [7]), ar_size = 1\<rparr>"

definition demo_manifest :: manifest where
  "demo_manifest = \<lparr>mf_version = ''1.0.1'', mf_channel = ''stable'', mf_published = Some 0, mf_revoked = False, mf_min_protocol = ''1.0'',
     mf_max_protocol = ''1.0'', mf_min_store = 1, mf_max_store = 1, mf_artifacts = [(''linux-amd64'', demo_artifact)]\<rparr>"

definition demo_json :: update_json where
  "demo_json = \<lparr>uj_lexemes = (\<lambda>_. [Scalar ''1'']), uj_trust_envelope = (\<lambda>_. None), uj_bundle = (\<lambda>_. None),
     uj_envelope = (\<lambda>_. Some (\<lparr>ue_key = ''k'', ue_manifest = ''AA'', ue_signature = ''AA''\<rparr>, True)),
     uj_manifest = (\<lambda>_. Some (demo_manifest, True))\<rparr>"

definition demo_env :: update_env where
  "demo_env = \<lparr>ue_json = demo_json, ue_ed25519 = (\<lambda>_ _ _. True), ue_parse_url = (\<lambda>_. Some \<lparr>pu_scheme = ''https'', pu_user = False, pu_host = ''h''\<rparr>),
     ue_health = (\<lambda>_ n _. n \<noteq> None)\<rparr>"

definition demo_trust :: trust_store where
  "demo_trust = reset_trust [(''k'', replicate 32 0)] None"

definition demo_updater :: updater where
  "demo_updater = \<lparr>up_disk = \<lparr>dk_files = [''/p/pbh'' \<mapsto> Regular [1]], dk_journal = None\<rparr>, up_answers = [], up_stopped = False,
     up_checks = 0, up_version = ''1.0.0''\<rparr>"

definition demo_start :: "answer list \<Rightarrow> update_op" where
  "demo_start as = StartUpdater ''1.0.0'' [(''k'', replicate 32 0)] True True (Inr demo_trust) as"

definition demo_apply :: "answer list \<Rightarrow> update_op" where
  "demo_apply as = ApplyUpdate demo_trust [] (Some ([7], True)) ''/p/.pbh-update-1'' as"

lemma demo_verified: "verify_update demo_env (default_artifact demo_config) ''1.0.0'' demo_trust [] = Inr (demo_manifest, demo_artifact)"
proof -
  have dup: "reject_duplicate_keys [Scalar ''1'']" using unique_accepted [of "JScalar ''1''"] by simp
  have b64: "raw_url_decode ''AA'' = Some [0]" by code_simp
  have versions: "valid_version ''1.0.1''" "compare_version ''1.0.1'' ''1.0.0'' > 0" "version_in_range ''1.0'' ''1.0'' ''1.0''" by code_simp+
  have len: "length (hex_string (sha256 [7])) = 64" using conjunct2 [OF hex_digits [of "sha256 [7]"]] by simp
  have sub: "set ''0123456789abcdef'' \<subseteq> set ''0123456789abcdefABCDEF''" by simp
  have hex: "hex_text (hex_string (sha256 [7]))"
    unfolding hex_text_def
    by (rule conjI, simp add: len, rule list.pred_mono_strong [OF conjunct1 [OF hex_digits]], erule subsetD [OF sub])
  have "compatible (default_artifact demo_config) ''1.0.0'' demo_trust demo_manifest"
    by (simp add: compatible_def demo_manifest_def demo_config_def default_artifact_def demo_trust_def reset_trust_def version_revoked_def versions)
  moreover have "artifact_of demo_env (default_artifact demo_config) demo_manifest = Some demo_artifact"
    by (simp add: artifact_of_def demo_manifest_def demo_artifact_def demo_config_def default_artifact_def allowed_url_def demo_env_def len hex)
  ultimately show ?thesis
    by (simp add: verify_update_def strict_json_def demo_env_def demo_json_def dup b64 lookup_trusted_def demo_trust_def reset_trust_def)
qed

lemma demo_matches: "matches_artifact demo_artifact [7]"
proof -
  have "lower_char c = c" if "c \<in> set ''0123456789abcdef''" for c using that by (auto simp: lower_char_def char_classes)
  then have "to_lower (hex_string (sha256 [7])) = hex_string (sha256 [7])"
    using hex_digits [of "sha256 [7]"] unfolding to_lower_def by (intro map_idI) (auto simp: list_all_iff)
  then show ?thesis by (simp add: matches_artifact_def demo_artifact_def)
qed

lemmas call_defs =
  andthen_def on_error_def dropping_def give_def refuse_def sys_def disk_of_def stat_def remove_file_def move_file_def rename_def sync_directory_def
  write_journal_def remove_and_sync_def safe_optional_regular_def safe_required_regular_def remove_staged_def stage_def verify_file_def
  health_check_def as_rollback_def rollback_def or_rollback_def back_up_def set_version_def with_answers_def

definition demo_stop :: "answer list" where
  "demo_stop = [Works, Works, Works, Works, Works, Works, Works, Works, Works, Works, Works, Works, Works, Works, Works, Works, Works, Works,
     Works, Works, Works, Works, Stops]"

lemma demo_started:
  "update_step demo_env demo_config (demo_updater, False) (demo_start []) = (demo_updater, True)"
  by (simp add: demo_start_def new_updater_def config_valid_def demo_config_def default_artifact_def is_abs_def demo_updater_def recover_def call_defs)

lemma demo_stopped:
  "\<exists>u. update_step demo_env demo_config (demo_updater, True) (demo_apply demo_stop) = (u, False) \<and>
     dk_files (up_disk u) ''/p/pbh'' = None \<and> dk_files (up_disk u) ''/p/pbh.previous'' = Some (Regular [1]) \<and>
     dk_journal (up_disk u) = Some (Entry \<lparr>j_state = ''activating'', j_version = ''1.0.1'', j_previous = ''1.0.0'', j_staged = ''/p/.pbh-update-1''\<rparr>)"
proof -
  have c: "cf_max_artifact (default_artifact demo_config) = 9" "cf_install (default_artifact demo_config) = ''/p/pbh''" "cf_install demo_config = ''/p/pbh''"
    "previous_path demo_config = ''/p/pbh.previous''" "mf_version demo_manifest = ''1.0.1''" "ar_size demo_artifact = 1"
    by (simp_all add: demo_config_def default_artifact_def previous_path_def demo_manifest_def demo_artifact_def)
  have h: "ue_health demo_env = (\<lambda>_ n _. n \<noteq> None)" by (simp add: demo_env_def)
  show ?thesis
    by (simp add: demo_apply_def apply_update_def demo_verified c h call_defs demo_stop_def demo_updater_def demo_matches replace_program_def previous_path_def Let_def)
qed

lemma demo_journal_valid:
  "validate_journal \<lparr>j_state = ''activating'', j_version = ''1.0.1'', j_previous = ''1.0.0'', j_staged = ''/p/.pbh-update-1''\<rparr> ''1.0.0'' (path_dir ''/p/pbh'')"
  by code_simp

lemma demo_recovered:
  assumes "dk_files (up_disk u) ''/p/pbh'' = None" "dk_files (up_disk u) ''/p/pbh.previous'' = Some (Regular [1])"
    "dk_journal (up_disk u) = Some (Entry \<lparr>j_state = ''activating'', j_version = ''1.0.1'', j_previous = ''1.0.0'', j_staged = ''/p/.pbh-update-1''\<rparr>)"
  shows "\<exists>u'. new_updater demo_env demo_config ''1.0.0'' [(''k'', replicate 32 0)] True True (Inr demo_trust) (with_answers [] u) = (Inr demo_trust, u')"
proof -
  have c: "cf_install (default_artifact demo_config) = ''/p/pbh''" "cf_install demo_config = ''/p/pbh''" "previous_path demo_config = ''/p/pbh.previous''"
    "config_valid demo_config ''1.0.0'' [(''k'', replicate 32 0)] True"
    by (simp_all add: demo_config_def default_artifact_def previous_path_def config_valid_def is_abs_def)
  have safe: "safe_staged_path ''/p/.pbh-update-1'' (path_dir ''/p/pbh'')" by code_simp
  show ?thesis
    by (simp add: new_updater_def recover_def recover_entry_def call_defs assms c safe demo_journal_valid)
qed


subsection \<open>What goes wrong\<close>

definition two_versions :: "journal_file option \<Rightarrow> answer list \<Rightarrow> updater" where
  "two_versions j as = \<lparr>up_disk = \<lparr>dk_files = [''/p/pbh'' \<mapsto> Regular [2], ''/p/pbh.previous'' \<mapsto> Regular [1], ''/p/.pbh-update-1'' \<mapsto> Regular [7]],
     dk_journal = j\<rparr>, up_answers = as, up_stopped = False, up_checks = 0, up_version = ''1.0.0''\<rparr>"

definition demo_entry :: journal where
  "demo_entry = \<lparr>j_state = ''staged'', j_version = ''1.0.1'', j_previous = ''1.0.0'', j_staged = ''/p/.pbh-update-1''\<rparr>"

text \<open>
  The program is \<open>[2]\<close> and the backup of the update before it is \<open>[1]\<close>.  An update that stops
  when it is about to remove the backup leaves the journal at \<open>backing_up\<close>; the next start
  takes the old backup for the one of this update and puts \<open>[1]\<close> in the place of \<open>[2]\<close>.
\<close>

lemma interrupted_backup_downgrades:
  "\<exists>u u'. replace_program demo_config demo_entry (two_versions None [Works, Works, Works, Works, Works, Works, Works, Stops]) = (Inl Stopped, u) \<and>
     dk_files (up_disk u) ''/p/pbh'' = Some (Regular [2]) \<and>
     recover demo_env demo_config (with_answers [] u) = (Inr (), u') \<and> dk_files (up_disk u') ''/p/pbh'' = Some (Regular [1])"
proof -
  have c: "cf_install demo_config = ''/p/pbh''" "previous_path demo_config = ''/p/pbh.previous''"
    by (simp_all add: demo_config_def previous_path_def)
  have safe: "safe_staged_path ''/p/.pbh-update-1'' (path_dir ''/p/pbh'')" by code_simp
  have valid: "validate_journal (demo_entry\<lparr>j_state := ''backing_up''\<rparr>) ''1.0.0'' (path_dir ''/p/pbh'')" by code_simp
  show ?thesis
    using valid by (simp add: replace_program_def recover_def recover_entry_def recover_backing_up_def call_defs c safe two_versions_def demo_entry_def)
qed

text \<open>
  A rollback that stops after the backup is back in place, and before the journal is removed,
  cannot be repeated: no later start succeeds, although the program is there.
\<close>

lemma stopped_rollback_blocks_start:
  "\<exists>u u'. recover demo_env demo_config (two_versions (Some (Entry (demo_entry\<lparr>j_state := ''activating''\<rparr>))) [Works, Works, Works, Works, Works, Works, Works, Stops]) = (Inl Stopped, u) \<and>
     dk_files (up_disk u) ''/p/pbh'' = Some (Regular [1]) \<and>
     recover demo_env demo_config (with_answers [] u) = (Inl ErrRollback, u') \<and> up_disk u' = up_disk u"
proof -
  have c: "cf_install demo_config = ''/p/pbh''" "previous_path demo_config = ''/p/pbh.previous''"
    by (simp_all add: demo_config_def previous_path_def)
  have safe: "safe_staged_path ''/p/.pbh-update-1'' (path_dir ''/p/pbh'')" by code_simp
  have valid: "validate_journal (demo_entry\<lparr>j_state := ''activating''\<rparr>) ''1.0.0'' (path_dir ''/p/pbh'')" by code_simp
  show ?thesis
    using valid by (simp add: recover_def recover_entry_def call_defs c safe two_versions_def demo_entry_def)
qed

text \<open>
  A first installation, with no program to back up, that fails its check leaves the journal at
  \<open>checking\<close> without a backup: no later start succeeds.
\<close>

lemma failed_first_install_blocks_start:
  assumes "dk_files (up_disk u) (previous_path cfg) = None" "dk_journal (up_disk u) = Some (Entry ent)" "j_state ent = ''checking''"
    "validate_journal ent (up_version u) (path_dir (cf_install cfg))"
  shows "\<exists>u'. recover env cfg (with_answers [] u) = (Inl ErrRollback, u') \<and> up_disk u' = up_disk u"
  using assms by (simp add: recover_def recover_entry_def call_defs)

text \<open>
  An update in a process whose last rollback failed finds no program and removes the backup,
  the only copy there is.
\<close>

lemma update_without_program_drops_backup:
  assumes "dk_files (up_disk u) (cf_install cfg) = None" "up_answers u = []" "\<not> up_stopped u" "dk_files (up_disk u) (previous_path cfg) = Some (Regular b)"
  shows "\<exists>u'. back_up cfg u = (Inr (), u') \<and> dk_files (up_disk u') (cf_install cfg) = None \<and> dk_files (up_disk u') (previous_path cfg) = None"
  using assms by (simp add: back_up_def call_defs)

end
