(* ===== verification/Config_Plan.thy ===== *)
theory Config_Plan
  imports Sha256 "HOL-Library.Char_ord" "HOL-Library.List_Lexorder"
begin

section \<open>Planning a synchronisation of configuration files\<close>

text \<open>
  Model of \<open>src/internal/configsync/reconcile.go\<close> and of the functions of
  \<open>workspace_reconciler.go\<close> and \<open>conflict_resolution.go\<close> that work on plans: the three-way
  comparison of the last accepted state, the local and the remote files, the baseline that is
  accepted afterwards, and the conflicts that stay frozen until they are resolved.

  A map of file states is an association list; a file mode is the number of its bits.
\<close>

subsection \<open>File states and plans\<close>

record file_state =
  fs_hash :: string
  fs_bytes :: int
  fs_mode :: nat
  fs_target :: string

record path_summary =
  ps_path :: string
  ps_bytes :: int
  ps_reason :: string
  ps_revision :: string

record reconcile_plan =
  rp_updates :: "string list"
  rp_deletes :: "string list"
  rp_apply :: "string list"
  rp_remove :: "string list"
  rp_conflicts :: "path_summary list"

definition mode_pull_only :: string where
  "mode_pull_only = ''pull_only''"

definition mode_push_only :: string where
  "mode_push_only = ''push_only''"

definition mode_bidirectional :: string where
  "mode_bidirectional = ''bidirectional''"

definition mode_valid :: "string \<Rightarrow> bool" where
  "mode_valid m \<longleftrightarrow> m = mode_pull_only \<or> m = mode_push_only \<or> m = mode_bidirectional"

text \<open>A read of a Go map: the zero value stands for a missing key.\<close>

definition zero_state :: file_state where
  "zero_state = \<lparr>fs_hash = [], fs_bytes = 0, fs_mode = 0, fs_target = []\<rparr>"

definition state_at :: "file_state gomap \<Rightarrow> string \<Rightarrow> file_state" where
  "state_at m p = (case map_of m p of None \<Rightarrow> zero_state | Some s \<Rightarrow> s)"

definition has_state :: "file_state gomap \<Rightarrow> string \<Rightarrow> bool" where
  "has_state m p \<longleftrightarrow> map_of m p \<noteq> None"

definition state_changed :: "file_state gomap \<Rightarrow> file_state gomap \<Rightarrow> string \<Rightarrow> bool" where
  "state_changed a b p \<longleftrightarrow> has_state a p \<noteq> has_state b p \<or> state_at a p \<noteq> state_at b p"

definition empty_plan :: reconcile_plan where
  "empty_plan = \<lparr>rp_updates = [], rp_deletes = [], rp_apply = [], rp_remove = [], rp_conflicts = []\<rparr>"

definition conflict_at :: "file_state gomap \<Rightarrow> string \<Rightarrow> string \<Rightarrow> path_summary" where
  "conflict_at remote p reason =
     \<lparr>ps_path = p, ps_bytes = (if has_state remote p then fs_bytes (state_at remote p) else 0), ps_reason = reason, ps_revision = []\<rparr>"

definition plan_step ::
    "string \<Rightarrow> file_state gomap \<Rightarrow> file_state gomap \<Rightarrow> file_state gomap \<Rightarrow> reconcile_plan \<Rightarrow> string \<Rightarrow> reconcile_plan" where
  "plan_step mode base local remote plan p =
     (let lc = state_changed base local p; rc = state_changed base remote p
      in if \<not> state_changed local remote p then plan
         else if mode = mode_push_only \<and> rc then
           plan\<lparr>rp_conflicts := rp_conflicts plan @ [conflict_at remote p ''remote_update'']\<rparr>
         else if lc \<and> rc then
           plan\<lparr>rp_conflicts := rp_conflicts plan @ [conflict_at remote p ''concurrent_update'']\<rparr>
         else if lc \<and> mode \<noteq> mode_pull_only then
           (if has_state local p then plan\<lparr>rp_updates := rp_updates plan @ [p]\<rparr> else plan\<lparr>rp_deletes := rp_deletes plan @ [p]\<rparr>)
         else if rc \<and> mode \<noteq> mode_push_only then
           (if has_state remote p then plan\<lparr>rp_apply := rp_apply plan @ [p]\<rparr> else plan\<lparr>rp_remove := rp_remove plan @ [p]\<rparr>)
         else plan)"

definition all_paths :: "file_state gomap list \<Rightarrow> string list" where
  "all_paths ms = sort (remdups (concat (map (map fst) ms)))"

definition plan_reconciliation_mode ::
    "file_state gomap \<Rightarrow> file_state gomap \<Rightarrow> file_state gomap \<Rightarrow> string \<Rightarrow> reconcile_plan" where
  "plan_reconciliation_mode base local remote mode =
     foldl (plan_step mode base local remote) empty_plan (all_paths [base, local, remote])"

definition plan_reconciliation :: "file_state gomap \<Rightarrow> file_state gomap \<Rightarrow> file_state gomap \<Rightarrow> reconcile_plan" where
  "plan_reconciliation base local remote = plan_reconciliation_mode base local remote mode_bidirectional"

subsection \<open>The accepted baseline\<close>

definition put_state :: "file_state gomap \<Rightarrow> string \<Rightarrow> file_state option \<Rightarrow> file_state gomap" where
  "put_state m p s = (case s of None \<Rightarrow> AList.delete p m | Some x \<Rightarrow> AList.update p x m)"

definition accept_step ::
    "file_state gomap \<Rightarrow> file_state gomap \<Rightarrow> file_state gomap \<Rightarrow> file_state gomap \<Rightarrow> string \<Rightarrow> file_state gomap" where
  "accept_step previous local remote accepted p =
     (if has_state local p = has_state remote p \<and> (\<not> has_state local p \<or> state_at local p = state_at remote p) then
        (if has_state local p then AList.update p (state_at local p) accepted else accepted)
      else case map_of previous p of Some s \<Rightarrow> AList.update p s accepted | None \<Rightarrow> accepted)"

definition accepted_baseline ::
    "file_state gomap \<Rightarrow> file_state gomap \<Rightarrow> file_state gomap \<Rightarrow> string \<Rightarrow> bool \<Rightarrow> file_state gomap" where
  "accepted_baseline previous local remote mode writes =
     (if mode = mode_bidirectional \<and> writes \<or> mode = mode_push_only \<and> writes then local
      else foldl (accept_step previous local remote) [] (remdups (concat (map (map fst) [previous, local, remote]))))"

definition freeze_conflict_baseline :: "file_state gomap \<Rightarrow> path_summary list \<Rightarrow> file_state gomap \<Rightarrow> file_state gomap" where
  "freeze_conflict_baseline previous conflicts accepted =
     foldl (\<lambda>m c. put_state m (ps_path c) (map_of previous (ps_path c))) accepted conflicts"

definition set_baseline_state :: "file_state gomap \<Rightarrow> string \<Rightarrow> file_state gomap \<Rightarrow> file_state gomap" where
  "set_baseline_state base p source = put_state base p (map_of source p)"

subsection \<open>Conflicts\<close>

record frozen_path =
  fp_base :: string
  fp_conflict :: string

definition state_identity :: "file_state gomap \<Rightarrow> string \<Rightarrow> string" where
  "state_identity m p = (case map_of m p of None \<Rightarrow> ''deleted'' | Some s \<Rightarrow> fs_hash s)"

definition text_bytes :: "string \<Rightarrow> bytes" where
  "text_bytes s = map (\<lambda>c. word_of_nat (of_char c)) s"

definition conflict_revision ::
    "string \<Rightarrow> string \<Rightarrow> file_state gomap \<Rightarrow> file_state gomap \<Rightarrow> file_state gomap \<Rightarrow> string \<Rightarrow> string" where
  "conflict_revision repository assignment base local remote p =
     hex_string (sha256 (concat (map (\<lambda>v. text_bytes v @ [0])
       [repository, assignment, p, state_identity base p, state_identity local p, state_identity remote p])))"

definition identify_conflicts ::
    "string \<Rightarrow> string \<Rightarrow> file_state gomap \<Rightarrow> file_state gomap \<Rightarrow> file_state gomap \<Rightarrow> path_summary list \<Rightarrow> path_summary list" where
  "identify_conflicts repository assignment base local remote conflicts =
     map (\<lambda>c. c\<lparr>ps_revision := conflict_revision repository assignment base local remote (ps_path c)\<rparr>) conflicts"

text \<open>The conflicts to merge, and those that are frozen already.\<close>

fun partition_frozen :: "frozen_path gomap \<Rightarrow> path_summary list \<Rightarrow> path_summary list \<times> path_summary list" where
  "partition_frozen frozen [] = ([], [])"
| "partition_frozen frozen (c # cs) =
     (case partition_frozen frozen cs of
        (candidates, kept) \<Rightarrow>
          (case map_of frozen (ps_path c) of
             Some f \<Rightarrow> (candidates, c\<lparr>ps_revision := fp_conflict f\<rparr> # kept)
           | None \<Rightarrow> (c # candidates, kept)))"

definition next_frozen_paths :: "frozen_path gomap \<Rightarrow> path_summary list \<Rightarrow> string \<Rightarrow> frozen_path gomap" where
  "next_frozen_paths previous conflicts base =
     foldl (\<lambda>m c. AList.update (ps_path c)
       (case map_of previous (ps_path c) of
          Some f \<Rightarrow> f
        | None \<Rightarrow> \<lparr>fp_base = (if base = [] then ''absent'' else base), fp_conflict = ps_revision c\<rparr>) m) [] conflicts"

definition force_plan_path ::
    "string \<Rightarrow> string \<Rightarrow> file_state gomap \<Rightarrow> file_state gomap \<Rightarrow> reconcile_plan \<Rightarrow> reconcile_plan" where
  "force_plan_path p action local remote plan =
     (let rest = \<lparr>rp_updates = removeAll p (rp_updates plan), rp_deletes = removeAll p (rp_deletes plan), rp_apply = removeAll p (rp_apply plan),
                  rp_remove = removeAll p (rp_remove plan), rp_conflicts = filter (\<lambda>c. ps_path c \<noteq> p) (rp_conflicts plan)\<rparr>
      in if action = ''force_pull'' then
           (if has_state remote p then rest\<lparr>rp_apply := rp_apply rest @ [p]\<rparr> else rest\<lparr>rp_remove := rp_remove rest @ [p]\<rparr>)
         else if has_state local p then rest\<lparr>rp_updates := rp_updates rest @ [p]\<rparr>
         else rest\<lparr>rp_deletes := rp_deletes rest @ [p]\<rparr>)"

text \<open>\<open>uniqueSortedStrings\<close> drops repeats of the element before.\<close>

fun unique_sorted :: "string list \<Rightarrow> string list" where
  "unique_sorted (x # y # zs) = (if x = y then unique_sorted (y # zs) else x # unique_sorted (y # zs))"
| "unique_sorted xs = xs"

subsection \<open>What a plan does with a path\<close>

lemma state_changed_iff: "state_changed a b p \<longleftrightarrow> map_of a p \<noteq> map_of b p"
  by (auto simp: state_changed_def has_state_def state_at_def split: option.splits)

lemma has_state_iff: "has_state m p \<longleftrightarrow> map_of m p \<noteq> None"
  by (simp add: has_state_def)

definition wants_publish :: "string \<Rightarrow> file_state gomap \<Rightarrow> file_state gomap \<Rightarrow> file_state gomap \<Rightarrow> string \<Rightarrow> bool" where
  "wants_publish mode base local remote p \<longleftrightarrow>
     map_of local p \<noteq> map_of base p \<and> map_of remote p = map_of base p \<and> mode \<noteq> mode_pull_only"

definition wants_apply :: "string \<Rightarrow> file_state gomap \<Rightarrow> file_state gomap \<Rightarrow> file_state gomap \<Rightarrow> string \<Rightarrow> bool" where
  "wants_apply mode base local remote p \<longleftrightarrow>
     map_of remote p \<noteq> map_of base p \<and> map_of local p = map_of base p \<and> mode \<noteq> mode_push_only"

definition in_conflict :: "string \<Rightarrow> file_state gomap \<Rightarrow> file_state gomap \<Rightarrow> file_state gomap \<Rightarrow> string \<Rightarrow> bool" where
  "in_conflict mode base local remote p \<longleftrightarrow>
     map_of local p \<noteq> map_of remote p \<and> map_of remote p \<noteq> map_of base p \<and> (mode = mode_push_only \<or> map_of local p \<noteq> map_of base p)"

definition conflict_of :: "string \<Rightarrow> file_state gomap \<Rightarrow> string \<Rightarrow> path_summary" where
  "conflict_of mode remote p = conflict_at remote p (if mode = mode_push_only then ''remote_update'' else ''concurrent_update'')"

lemma plan_step_decides:
  "plan_step mode base local remote plan p =
     plan\<lparr>rp_updates := rp_updates plan @ (if wants_publish mode base local remote p \<and> map_of local p \<noteq> None then [p] else []),
          rp_deletes := rp_deletes plan @ (if wants_publish mode base local remote p \<and> map_of local p = None then [p] else []),
          rp_apply := rp_apply plan @ (if wants_apply mode base local remote p \<and> map_of remote p \<noteq> None then [p] else []),
          rp_remove := rp_remove plan @ (if wants_apply mode base local remote p \<and> map_of remote p = None then [p] else []),
          rp_conflicts := rp_conflicts plan @ (if in_conflict mode base local remote p then [conflict_of mode remote p] else [])\<rparr>"
  by (cases "mode = mode_push_only"; cases "mode = mode_pull_only"; cases "map_of local p = map_of base p"; cases "map_of remote p = map_of base p")
    (auto simp: plan_step_def state_changed_iff has_state_iff wants_publish_def wants_apply_def in_conflict_def conflict_of_def Let_def
      mode_push_only_def mode_pull_only_def)

lemma plan_fold:
  "foldl (plan_step mode base local remote) plan ps =
     plan\<lparr>rp_updates := rp_updates plan @ filter (\<lambda>p. wants_publish mode base local remote p \<and> map_of local p \<noteq> None) ps,
          rp_deletes := rp_deletes plan @ filter (\<lambda>p. wants_publish mode base local remote p \<and> map_of local p = None) ps,
          rp_apply := rp_apply plan @ filter (\<lambda>p. wants_apply mode base local remote p \<and> map_of remote p \<noteq> None) ps,
          rp_remove := rp_remove plan @ filter (\<lambda>p. wants_apply mode base local remote p \<and> map_of remote p = None) ps,
          rp_conflicts := rp_conflicts plan @ map (conflict_of mode remote) (filter (in_conflict mode base local remote) ps)\<rparr>"
  by (induction ps arbitrary: plan) (simp_all add: plan_step_decides)

lemma all_paths_set: "p \<in> set (all_paths ms) \<longleftrightarrow> (\<exists>m \<in> set ms. map_of m p \<noteq> None)"
  by (auto simp: all_paths_def map_of_eq_None_iff)

lemma all_paths_sorted: "sorted (all_paths ms)" "distinct (all_paths ms)"
  by (simp_all add: all_paths_def)

lemma changed_is_listed: "map_of a p \<noteq> map_of b p \<Longrightarrow> a \<in> set ms \<Longrightarrow> b \<in> set ms \<Longrightarrow> p \<in> set (all_paths ms)"
  by (metis all_paths_set)

lemma plan_lists:
  fixes base local remote
  defines "ps \<equiv> all_paths [base, local, remote]"
  shows "rp_updates (plan_reconciliation_mode base local remote mode) = filter (\<lambda>p. wants_publish mode base local remote p \<and> map_of local p \<noteq> None) ps"
    "rp_deletes (plan_reconciliation_mode base local remote mode) = filter (\<lambda>p. wants_publish mode base local remote p \<and> map_of local p = None) ps"
    "rp_apply (plan_reconciliation_mode base local remote mode) = filter (\<lambda>p. wants_apply mode base local remote p \<and> map_of remote p \<noteq> None) ps"
    "rp_remove (plan_reconciliation_mode base local remote mode) = filter (\<lambda>p. wants_apply mode base local remote p \<and> map_of remote p = None) ps"
    "rp_conflicts (plan_reconciliation_mode base local remote mode) = map (conflict_of mode remote) (filter (in_conflict mode base local remote) ps)"
  by (simp_all add: ps_def plan_reconciliation_mode_def plan_fold empty_plan_def)

lemma wants_listed:
  "wants_publish mode base local remote p \<Longrightarrow> p \<in> set (all_paths [base, local, remote])"
  "wants_apply mode base local remote p \<Longrightarrow> p \<in> set (all_paths [base, local, remote])"
  "in_conflict mode base local remote p \<Longrightarrow> p \<in> set (all_paths [base, local, remote])"
  by (rule changed_is_listed [of local p base]; simp add: wants_publish_def)
    (rule changed_is_listed [of remote p base]; simp add: wants_apply_def in_conflict_def)+

lemma plan_sets:
  "set (rp_updates (plan_reconciliation_mode base local remote mode)) = {p. wants_publish mode base local remote p \<and> map_of local p \<noteq> None}"
  "set (rp_deletes (plan_reconciliation_mode base local remote mode)) = {p. wants_publish mode base local remote p \<and> map_of local p = None}"
  "set (rp_apply (plan_reconciliation_mode base local remote mode)) = {p. wants_apply mode base local remote p \<and> map_of remote p \<noteq> None}"
  "set (rp_remove (plan_reconciliation_mode base local remote mode)) = {p. wants_apply mode base local remote p \<and> map_of remote p = None}"
  "ps_path ` set (rp_conflicts (plan_reconciliation_mode base local remote mode)) = {p. in_conflict mode base local remote p}"
  using wants_listed [of mode base local remote]
  by (auto simp: plan_lists conflict_of_def conflict_at_def image_iff)

subsection \<open>Carrying out a plan\<close>

text \<open>The files of both sides when each path of the plan is copied, and its deletions made.\<close>

definition copy_states :: "file_state gomap \<Rightarrow> string list \<Rightarrow> file_state gomap \<Rightarrow> file_state gomap" where
  "copy_states source ps target = foldl (\<lambda>m p. put_state m p (map_of source p)) target ps"

definition local_after :: "reconcile_plan \<Rightarrow> file_state gomap \<Rightarrow> file_state gomap \<Rightarrow> file_state gomap" where
  "local_after plan local remote = copy_states remote (rp_apply plan @ rp_remove plan) local"

definition remote_after :: "reconcile_plan \<Rightarrow> file_state gomap \<Rightarrow> file_state gomap \<Rightarrow> file_state gomap" where
  "remote_after plan local remote = copy_states local (rp_updates plan @ rp_deletes plan) remote"

lemma put_state_lookup: "map_of (put_state m p s) q = (if q = p then s else map_of m q)"
  by (auto simp: put_state_def delete_conv' update_conv' split: option.splits)

lemma copy_states_lookup: "map_of (copy_states source ps target) q = (if q \<in> set ps then map_of source q else map_of target q)"
  unfolding copy_states_def
proof (induction ps arbitrary: target)
  case (Cons p ps)
  show ?case using Cons.IH [of "put_state target p (map_of source p)"] by (simp add: put_state_lookup)
qed simp

lemma freeze_lookup:
  "map_of (freeze_conflict_baseline previous cs accepted) q = (if q \<in> ps_path ` set cs then map_of previous q else map_of accepted q)"
  unfolding freeze_conflict_baseline_def
proof (induction cs arbitrary: accepted)
  case (Cons c cs)
  show ?case using Cons.IH [of "put_state accepted (ps_path c) (map_of previous (ps_path c))"] by (simp add: put_state_lookup)
qed simp

lemma local_after_lookup:
  "map_of (local_after (plan_reconciliation_mode base local remote mode) local remote) p =
     (if wants_apply mode base local remote p then map_of remote p else map_of local p)"
  by (auto simp: local_after_def copy_states_lookup plan_sets)

lemma remote_after_lookup:
  "map_of (remote_after (plan_reconciliation_mode base local remote mode) local remote) p =
     (if wants_publish mode base local remote p then map_of local p else map_of remote p)"
  by (auto simp: remote_after_def copy_states_lookup plan_sets)

lemma accept_fold_lookup:
  "map_of (foldl (accept_step previous local remote) acc ps) p =
     (if p \<in> set ps
      then (if map_of local p = map_of remote p then (case map_of local p of None \<Rightarrow> map_of acc p | s \<Rightarrow> s)
            else (case map_of previous p of None \<Rightarrow> map_of acc p | s \<Rightarrow> s))
      else map_of acc p)"
proof (induction ps arbitrary: acc)
  case (Cons q ps)
  have "map_of (accept_step previous local remote acc q) p =
      (if p = q then (if map_of local p = map_of remote p then (case map_of local p of None \<Rightarrow> map_of acc p | s \<Rightarrow> s)
            else (case map_of previous p of None \<Rightarrow> map_of acc p | s \<Rightarrow> s)) else map_of acc p)"
    by (auto simp: accept_step_def has_state_iff state_at_def update_conv' split: option.splits)
  then show ?case using Cons.IH [of "accept_step previous local remote acc q"] by (cases "p = q") (simp_all split: option.split)
qed simp

text \<open>Where both sides agree the agreed state is accepted, and elsewhere the previous one stays.\<close>

lemma accepted_lookup:
  assumes "\<not> (mode = mode_bidirectional \<and> writes \<or> mode = mode_push_only \<and> writes)"
  shows "map_of (accepted_baseline previous local remote mode writes) p =
    (if map_of local p = map_of remote p then map_of local p else map_of previous p)"
proof (cases "p \<in> set (remdups (concat (map (map fst) [previous, local, remote])))")
  case True
  then show ?thesis using assms by (auto simp: accepted_baseline_def accept_fold_lookup split: option.splits)
next
  case False
  then have "map_of previous p = None" "map_of local p = None" "map_of remote p = None" by (auto simp: map_of_eq_None_iff)
  then show ?thesis using assms False by (simp add: accepted_baseline_def accept_fold_lookup)
qed

lemma accepted_writes: "accepted_baseline previous local remote mode_bidirectional True = local"
  by (simp add: accepted_baseline_def)

lemma mode_neq [simp]: "mode_bidirectional \<noteq> mode_pull_only" "mode_bidirectional \<noteq> mode_push_only" "mode_pull_only \<noteq> mode_push_only"
  by (simp_all add: mode_bidirectional_def mode_pull_only_def mode_push_only_def)

definition clean_plan :: "reconcile_plan \<Rightarrow> bool" where
  "clean_plan plan \<longleftrightarrow> rp_updates plan = [] \<and> rp_deletes plan = [] \<and> rp_apply plan = [] \<and> rp_remove plan = []"

text \<open>
  C31: a two-way synchronisation converges and overwrites no edit.  For any last accepted,
  local and remote files, when the plan is carried out: a path edited on both sides to
  different states is untouched on both and keeps its old baseline; every other path is the
  same on both sides afterwards; a side that had edited a path still has its own state of it;
  and with the baseline accepted afterwards, planning again finds nothing to do and the same
  conflicts.
\<close>

theorem sync_converges:
  fixes base local remote :: "file_state gomap"
  defines "plan \<equiv> plan_reconciliation base local remote"
  defines "local' \<equiv> local_after plan local remote" and "remote' \<equiv> remote_after plan local remote"
  defines "base' \<equiv> freeze_conflict_baseline base (rp_conflicts plan) (accepted_baseline base local' remote' mode_bidirectional True)"
  shows "(if map_of local p \<noteq> map_of base p \<and> map_of remote p \<noteq> map_of base p \<and> map_of local p \<noteq> map_of remote p
      then p \<in> ps_path ` set (rp_conflicts plan) \<and> map_of local' p = map_of local p \<and> map_of remote' p = map_of remote p \<and> map_of base' p = map_of base p
      else p \<notin> ps_path ` set (rp_conflicts plan) \<and> map_of local' p = map_of remote' p \<and> map_of base' p = map_of local' p) \<and>
    (map_of local p = map_of base p \<or> map_of local' p = map_of local p) \<and>
    (map_of remote p = map_of base p \<or> map_of remote' p = map_of remote p) \<and>
    clean_plan (plan_reconciliation base' local' remote') \<and>
    ps_path ` set (rp_conflicts (plan_reconciliation base' local' remote')) = ps_path ` set (rp_conflicts plan)"
proof -
  let ?m = mode_bidirectional
  have l: "map_of local' q = (if wants_apply ?m base local remote q then map_of remote q else map_of local q)"
    and r: "map_of remote' q = (if wants_publish ?m base local remote q then map_of local q else map_of remote q)"
    and c: "q \<in> ps_path ` set (rp_conflicts plan) \<longleftrightarrow> in_conflict ?m base local remote q" for q
    by (simp_all add: local'_def remote'_def plan_def plan_reconciliation_def local_after_lookup remote_after_lookup plan_sets)
  have b: "map_of base' q = (if in_conflict ?m base local remote q then map_of base q else map_of local' q)" for q
    unfolding base'_def by (simp add: freeze_lookup c accepted_writes)
  note defs = wants_publish_def wants_apply_def in_conflict_def
  have same: "\<not> wants_publish ?m base' local' remote' q" "\<not> wants_apply ?m base' local' remote' q"
    "in_conflict ?m base' local' remote' q \<longleftrightarrow> in_conflict ?m base local remote q" for q
    by (auto simp: b l r defs split: if_splits)
  then have "clean_plan (plan_reconciliation base' local' remote')"
    by (simp add: clean_plan_def plan_reconciliation_def plan_lists)
  moreover have "ps_path ` set (rp_conflicts (plan_reconciliation base' local' remote')) = ps_path ` set (rp_conflicts plan)"
    using same(3) c by (auto simp: plan_reconciliation_def plan_sets)
  ultimately show ?thesis by (auto simp: c b l r defs)
qed

text \<open>
  The baseline is taken from the local files after the commit, not from what was committed.  A
  file that is edited in between is accepted with its new state, which the remote side does not
  have; the next plan takes the remote state for the newer one and overwrites the edit.
\<close>

lemma edit_during_sync_is_overwritten:
  fixes base local' remote' :: "file_state gomap"
  assumes "map_of local' p = Some edited" "map_of remote' p = Some old" "edited \<noteq> old"
  defines "base' \<equiv> accepted_baseline base local' remote' mode_bidirectional True"
  shows "p \<in> set (rp_apply (plan_reconciliation base' local' remote'))"
  using assms by (simp add: plan_reconciliation_def plan_sets wants_apply_def accepted_writes)

end
