(* ===== verification/Config_Manifest.thy ===== *)
theory Config_Manifest
  imports Go_Path Sha256
begin

section \<open>Which files are synchronised\<close>

text \<open>
  Model of \<open>src/internal/configsync/manifest.go\<close> and \<open>policy.go\<close>: the manifest of a configuration
  repository (\<open>.pbinclude\<close> and \<open>.pbignore\<close>), the paths it selects, and the exclusions no manifest
  can lift.  The contents of a file are the list of its bytes as characters.  Matching a path
  against a pattern of \<open>.pbignore\<close> (\<open>go-git\<close>, \<open>ig\<close>) and against a pattern of the exclusions
  (\<open>doublestar\<close>, \<open>glob\<close>, \<open>None\<close> for a bad pattern) is not code of the repository: both are
  arguments.
\<close>

subsection \<open>Exclusions\<close>

type_synonym glob_match = "string \<Rightarrow> string \<Rightarrow> bool option"

definition required_exclusions :: "string list" where
  "required_exclusions =
     [''.git'', ''**/.git'', ''.paperboat'', ''**/.paperboat'', ''.config/paperboat'', ''.config/paperboat/**'', ''.local/bin/pbh'',
      ''.config/systemd/user/paperboat-helper.service'', ''.config/systemd/user/default.target.wants/paperboat-helper.service'',
      ''Library/LaunchAgents/com.pinksaucepasta.paperboat-helper.plist'', ''.ssh'', ''**/.ssh'', ''.gnupg'', ''**/.gnupg'',
      ''.aws'', ''**/.aws'', ''.kube'', ''**/.kube'', ''.docker/config.json'', ''.git-credentials'', ''**/.git-credentials'', ''.netrc'', ''**/.netrc'',
      ''.env'', ''.env.*'', ''**/.env'', ''**/.env.*'', ''**/credentials'', ''**/credentials.*'',
      ''**/*.db'', ''**/*.sqlite'', ''**/*.log'', ''**/*.tmp'', ''**/*_history'']"

text \<open>A path and the directories above it, as the loop over \<open>filepath.Dir\<close> visits them.\<close>

function ancestors :: "string list \<Rightarrow> string list" where
  "ancestors parts = (if parts = [] then [] else join_with slash parts # ancestors (butlast parts))"
  by pat_completeness auto

termination by (relation "measure length") auto

declare ancestors.simps [simp del]

definition excluded_by_root :: "string \<Rightarrow> string \<Rightarrow> bool" where
  "excluded_by_root path raw =
     (let root = path_clean raw
      in root \<noteq> ''.'' \<and> root \<noteq> ''..'' \<and> \<not> has_prefix root ''../'' \<and> (path = root \<or> has_prefix path (root @ ''/'')))"

definition mandatory_excluded :: "glob_match \<Rightarrow> string list \<Rightarrow> string \<Rightarrow> bool" where
  "mandatory_excluded glob roots raw =
     (let path = path_clean raw
      in path = ''.'' \<or> has_prefix path ''../'' \<or> has_prefix path ''/'' \<or> list_ex (excluded_by_root path) roots \<or>
         list_ex (\<lambda>pattern. list_ex (\<lambda>c. glob pattern c = Some True) (ancestors (path_parts path))) required_exclusions)"

definition manifest_hard_excluded :: "glob_match \<Rightarrow> string \<Rightarrow> bool" where
  "manifest_hard_excluded glob name = mandatory_excluded glob [] (path_clean name)"

subsection \<open>Safe names and patterns\<close>

definition safe_manifest_path :: "string \<Rightarrow> bool" where
  "safe_manifest_path name \<longleftrightarrow>
     \<not> (name = [] \<or> name \<noteq> path_clean name \<or> has_prefix name ''/'' \<or> has_prefix name ''//'' \<or> CHR 0x5C \<in> set name \<or> CHR 0x00 \<in> set name \<or>
        name = ''..'' \<or> has_prefix name ''../'' \<or> contains_text name ''/../'' \<or> is_abs name) \<and>
     (let first = hd (split_on slash name) in length first < 2 \<or> first ! 1 \<noteq> CHR '':'')"

text \<open>
  A class of \<open>path.Match\<close> after its bracket: the rest behind it, or nothing when it is malformed.
  \<open>n\<close> counts the ranges read so far.
\<close>

fun class_rest :: "nat \<Rightarrow> string \<Rightarrow> string option" where
  "class_rest n [] = None"
| "class_rest n [c] = (if c = CHR '']'' \<and> n > 0 then Some [] else None)"
| "class_rest n (c # d # ds) =
     (if c = CHR '']'' \<and> n > 0 then Some (d # ds)
      else if c = CHR ''-'' \<or> c = CHR '']'' then None
      else if d = CHR ''-'' then
        (case ds of
           [] \<Rightarrow> None
         | e # es \<Rightarrow> if e = CHR ''-'' \<or> e = CHR '']'' \<or> es = [] then None else class_rest (Suc n) es)
      else class_rest (Suc n) (d # ds))"

lemma class_rest_shorter: "class_rest n s = Some r \<Longrightarrow> length r < length s"
  by (induction n s rule: class_rest.induct) (fastforce split: if_splits list.splits)+

text \<open>\<open>path.Match\<close> reports a bad pattern exactly for a malformed class (there is no backslash).\<close>

function pattern_ok :: "string \<Rightarrow> bool" where
  "pattern_ok s =
     (case s of
        [] \<Rightarrow> True
      | c # cs \<Rightarrow>
          if c \<noteq> CHR ''['' then pattern_ok cs
          else (case class_rest 0 (trim_prefix cs ''^'') of None \<Rightarrow> False | Some r \<Rightarrow> pattern_ok r))"
  by pat_completeness auto

termination
proof (relation "measure length", goal_cases)
  case (3 s c cs r)
  then have "length r < length (trim_prefix cs ''^'')" by (simp add: class_rest_shorter)
  also have "\<dots> \<le> length cs" by (simp add: trim_prefix_def)
  finally show ?case using 3 by simp
qed auto

declare pattern_ok.simps [simp del]

definition safe_ignore_pattern :: "string \<Rightarrow> bool" where
  "safe_ignore_pattern pattern \<longleftrightarrow>
     \<not> (CHR 0x00 \<in> set pattern \<or> CHR 0x5C \<in> set pattern \<or> has_prefix pattern ''//'') \<and>
     list_all (\<lambda>c. c \<noteq> ''..'' \<and> (c = ''**'' \<or> pattern_ok c)) (split_on slash pattern)"

subsection \<open>The manifest\<close>

datatype manifest_error = ManifestMissing | ManifestInvalid | ManifestUnsafePath

record manifest_limits =
  ml_bytes :: int
  ml_lines :: int
  ml_pattern :: int

record manifest_root =
  mr_path :: string
  mr_dir :: bool

record config_manifest =
  cm_revision :: string
  cm_roots :: "manifest_root list"
  cm_patterns :: "string list"

definition default_manifest_limits :: manifest_limits where
  "default_manifest_limits = \<lparr>ml_bytes = 262144, ml_lines = 4096, ml_pattern = 1024\<rparr>"

definition valid_manifest_limits :: "manifest_limits \<Rightarrow> bool" where
  "valid_manifest_limits l \<longleftrightarrow>
     ml_bytes l > 0 \<and> ml_bytes l \<le> 4194304 \<and> ml_lines l > 0 \<and> ml_lines l \<le> 65536 \<and> ml_pattern l > 0 \<and> ml_pattern l \<le> 8192"

fun replace_crlf :: "string \<Rightarrow> string" where
  "replace_crlf (a # b # cs) = (if a = CHR 0x0D \<and> b = CHR 0x0A then CHR 0x0A # replace_crlf cs else a # replace_crlf (b # cs))"
| "replace_crlf s = s"

definition manifest_lines :: "manifest_limits \<Rightarrow> string \<Rightarrow> manifest_error + string list" where
  "manifest_lines limits raw =
     (let contents = replace_crlf raw; ls = split_on (CHR 0x0A) contents
      in if CHR 0x0D \<in> set contents then Inl ManifestInvalid
         else if int (length ls) > ml_lines limits + 1 \<or> int (length ls) = ml_lines limits + 1 \<and> last ls \<noteq> [] then Inl ManifestInvalid
         else if list_ex (\<lambda>l. int (length l) > ml_pattern limits) ls then Inl ManifestInvalid
         else Inr ls)"

fun include_lines :: "glob_match \<Rightarrow> string list \<Rightarrow> bool gomap \<Rightarrow> manifest_error + bool gomap" where
  "include_lines glob [] by_path = Inr by_path"
| "include_lines glob (raw # ls) by_path =
     (let line = trim_space raw
      in if line = [] \<or> has_prefix line ''#'' then include_lines glob ls by_path
         else let directory = has_suffix line ''/''; path = trim_suffix line ''/''
              in if CHR ''*'' \<in> set path \<or> CHR ''?'' \<in> set path \<or> CHR ''['' \<in> set path \<or> \<not> safe_manifest_path path then Inl ManifestUnsafePath
                 else if manifest_hard_excluded glob path then Inl ManifestUnsafePath
                 else include_lines glob ls
                   (case map_of by_path path of
                      Some previous \<Rightarrow> if directory \<and> \<not> previous then AList.update path directory by_path else by_path
                    | None \<Rightarrow> AList.update path directory by_path))"

definition below_root :: "manifest_root \<Rightarrow> string \<Rightarrow> bool" where
  "below_root r path \<longleftrightarrow> mr_dir r \<and> has_prefix path (mr_path r @ ''/'')"

fun drop_redundant :: "manifest_root list \<Rightarrow> manifest_root list \<Rightarrow> manifest_root list" where
  "drop_redundant kept [] = kept"
| "drop_redundant kept (r # rs) =
     drop_redundant (if list_ex (\<lambda>k. below_root k (mr_path r)) kept then kept else kept @ [r]) rs"

definition parse_include :: "glob_match \<Rightarrow> manifest_limits \<Rightarrow> string \<Rightarrow> manifest_error + manifest_root list" where
  "parse_include glob limits contents =
     (case manifest_lines limits contents of
        Inl e \<Rightarrow> Inl e
      | Inr ls \<Rightarrow>
          (case include_lines glob ls [] of
             Inl e \<Rightarrow> Inl e
           | Inr by_path \<Rightarrow> Inr (drop_redundant [] (sort_key mr_path (map (\<lambda>(p, d). \<lparr>mr_path = p, mr_dir = d\<rparr>) by_path)))))"

fun ignore_lines :: "string list \<Rightarrow> manifest_error + string list" where
  "ignore_lines [] = Inr []"
| "ignore_lines (line # ls) =
     (if line = [] \<or> has_prefix line ''#'' then ignore_lines ls
      else let candidate = trim_suffix (trim_prefix (trim_prefix line ''!'') ''/'') ''/''
           in if candidate = [] \<or> \<not> safe_ignore_pattern candidate then Inl ManifestInvalid
              else map_sum id ((#) line) (ignore_lines ls))"

definition parse_ignore :: "manifest_limits \<Rightarrow> string \<Rightarrow> manifest_error + string list" where
  "parse_ignore limits contents = (case manifest_lines limits contents of Inl e \<Rightarrow> Inl e | Inr ls \<Rightarrow> ignore_lines ls)"

definition parse_manifest :: "glob_match \<Rightarrow> manifest_limits \<Rightarrow> string \<Rightarrow> string \<Rightarrow> manifest_error + config_manifest" where
  "parse_manifest glob limits include ignore =
     (if \<not> valid_manifest_limits limits \<or> int (length include) > ml_bytes limits \<or> int (length ignore) > ml_bytes limits \<or>
         \<not> utf8_valid (map of_char include) \<or> \<not> utf8_valid (map of_char ignore) \<or> CHR 0x00 \<in> set include \<or> CHR 0x00 \<in> set ignore
      then Inl ManifestInvalid
      else case parse_include glob limits include of
        Inl e \<Rightarrow> Inl e
      | Inr roots \<Rightarrow>
          (case parse_ignore limits ignore of
             Inl e \<Rightarrow> Inl e
           | Inr patterns \<Rightarrow>
               Inr \<lparr>cm_revision = hex_string (sha256 (map (\<lambda>c. word_of_nat (of_char c)) include @ [0] @ map (\<lambda>c. word_of_nat (of_char c)) ignore)),
                    cm_roots = roots, cm_patterns = patterns\<rparr>))"

text \<open>What \<open>os.Lstat\<close> and \<open>os.ReadFile\<close> find of a file of the manifest.\<close>

datatype manifest_file = NoFile | NotRegular | RegularFile string bool

definition read_manifest_file :: "manifest_limits \<Rightarrow> bool \<Rightarrow> manifest_file \<Rightarrow> manifest_error + string" where
  "read_manifest_file limits required f =
     (case f of
        NoFile \<Rightarrow> if required then Inl ManifestMissing else Inr []
      | NotRegular \<Rightarrow> Inl ManifestInvalid
      | RegularFile contents readable \<Rightarrow>
          if \<not> valid_manifest_limits limits \<or> int (length contents) > ml_bytes limits then Inl ManifestInvalid
          else if readable then Inr contents else Inl ManifestInvalid)"

definition canonical_absolute_path :: "string \<Rightarrow> bool" where
  "canonical_absolute_path path \<longleftrightarrow> is_abs path \<and> path_clean path = path"

definition load_manifest :: "glob_match \<Rightarrow> manifest_limits \<Rightarrow> string \<Rightarrow> manifest_file \<Rightarrow> manifest_file \<Rightarrow> manifest_error + config_manifest" where
  "load_manifest glob limits root include ignore =
     (if \<not> canonical_absolute_path root then Inl ManifestInvalid
      else case read_manifest_file limits True include of
        Inl e \<Rightarrow> Inl e
      | Inr a \<Rightarrow> (case read_manifest_file limits False ignore of Inl e \<Rightarrow> Inl e | Inr b \<Rightarrow> parse_manifest glob limits a b))"

subsection \<open>Selected paths\<close>

datatype ignore_result = NoMatch | Exclude | Include

type_synonym ignore_match = "string \<Rightarrow> string list \<Rightarrow> bool \<Rightarrow> ignore_result"

definition manifest_name :: "string \<Rightarrow> string" where
  "manifest_name raw = path_clean (map (\<lambda>c. if c = CHR 0x5C then slash else c) raw)"

definition manages :: "glob_match \<Rightarrow> ignore_match \<Rightarrow> config_manifest \<Rightarrow> string \<Rightarrow> bool \<Rightarrow> bool" where
  "manages glob ig m raw is_dir =
     (let name = manifest_name raw
      in if name = ''.'' \<or> \<not> safe_manifest_path name \<or> manifest_hard_excluded glob name then False
         else if \<not> list_ex (\<lambda>r. name = mr_path r \<or> below_root r name) (cm_roots m) then False
         else \<not> foldl (\<lambda>ignored pattern. case ig pattern (split_on slash name) is_dir of Exclude \<Rightarrow> True | Include \<Rightarrow> False | NoMatch \<Rightarrow> ignored)
                False (cm_patterns m))"

definition may_manage_descendant :: "glob_match \<Rightarrow> config_manifest \<Rightarrow> string \<Rightarrow> bool" where
  "may_manage_descendant glob m raw =
     (let name = manifest_name raw
      in if name = ''.'' \<or> \<not> safe_manifest_path name \<or> manifest_hard_excluded glob name then False
         else list_ex (\<lambda>r. mr_dir r \<and> (mr_path r = name \<or> has_prefix (mr_path r) (name @ ''/'') \<or> has_prefix name (mr_path r @ ''/''))) (cm_roots m))"

subsection \<open>What a cleaned path looks like\<close>

definition dots_first :: "string list \<Rightarrow> bool" where
  "dots_first ps \<longleftrightarrow> (\<exists>k xs. ps = replicate k ''..'' @ xs \<and> ''..'' \<notin> set xs)"

lemma dots_first_snoc: "dots_first ps \<Longrightarrow> p \<noteq> ''..'' \<Longrightarrow> dots_first (ps @ [p])"
  unfolding dots_first_def
proof (elim exE conjE)
  fix k xs
  assume "p \<noteq> ''..''" "ps = replicate k ''..'' @ xs" "''..'' \<notin> set xs"
  then show "\<exists>k xs. ps @ [p] = replicate k ''..'' @ xs \<and> ''..'' \<notin> set xs" by (intro exI [of _ k] exI [of _ "xs @ [p]"]) simp
qed

lemma dots_first_butlast: "dots_first ps \<Longrightarrow> dots_first (butlast ps)"
  unfolding dots_first_def
proof (elim exE conjE)
  fix k xs
  assume ps: "ps = replicate k ''..'' @ xs" "''..'' \<notin> set xs"
  show "\<exists>k xs. butlast ps = replicate k ''..'' @ xs \<and> ''..'' \<notin> set xs"
  proof (cases "xs = []")
    case True
    then have "butlast ps = replicate (k - 1) ''..'' @ []" using ps(1) by (simp add: butlast_conv_take take_replicate)
    then show ?thesis by fastforce
  next
    case False
    then have "butlast ps = replicate k ''..'' @ butlast xs" using ps(1) by (simp add: butlast_append)
    then show ?thesis using ps(2) by (meson in_set_butlastD)
  qed
qed

lemma dots_first_dot: "dots_first ps \<Longrightarrow> ps = [] \<or> last ps = ''..'' \<Longrightarrow> dots_first (ps @ [''..''])"
proof -
  assume "dots_first ps" and l: "ps = [] \<or> last ps = ''..''"
  then obtain k xs where ps: "ps = replicate k ''..'' @ xs" "''..'' \<notin> set xs" by (auto simp: dots_first_def)
  then have "xs = []" using l last_in_set [of xs] by (cases "xs = []") auto
  then have "ps @ [''..''] = replicate (Suc k) ''..''" using ps(1) by (simp add: replicate_append_same)
  then show ?thesis unfolding dots_first_def by (intro exI [of _ "Suc k"] exI [of _ "[]"]) simp
qed

lemma clean_parts_dots: "dots_first (rev acc) \<Longrightarrow> dots_first (rev (clean_parts rooted acc ps))"
proof (induction rooted acc ps rule: clean_parts.induct)
  case (2 rooted acc p ps)
  consider "p = [] \<or> p = ''.''" | "p = ''..''" "acc = []" | q qs where "p = ''..''" "acc = q # qs" "q = ''..''"
    | q qs where "p = ''..''" "acc = q # qs" "q \<noteq> ''..''" | "p \<noteq> []" "p \<noteq> ''.''" "p \<noteq> ''..''"
    by (cases acc) auto
  then show ?case
  proof cases
    case 2
    have "dots_first []" "dots_first [''..'']" unfolding dots_first_def by (rule exI [of _ 0]; simp) (rule exI [of _ 1]; simp)
    then show ?thesis using 2 "2.IH" by simp
  next
    case (3 q qs)
    then show ?thesis using "2.IH"(3) "2.prems" dots_first_dot [of "rev acc"] by simp
  next
    case (4 q qs)
    then show ?thesis using "2.IH"(4) "2.prems" dots_first_butlast [of "rev acc"] by simp
  next
    case 5
    then show ?thesis using "2.IH"(5) "2.prems" dots_first_snoc by simp
  qed (use 2 in simp)
qed simp

lemma path_parts_dots: "dots_first (path_parts path)"
  unfolding path_parts_def by (rule clean_parts_dots) (auto simp: dots_first_def)

lemma safe_parts:
  assumes "safe_manifest_path name"
  shows "\<not> is_abs name" "''..'' \<notin> set (path_parts name)"
proof -
  have n: "name = path_clean name" "\<not> is_abs name" "name \<noteq> ''..''" "\<not> has_prefix name ''../''"
    using assms by (auto simp: safe_manifest_path_def)
  show "\<not> is_abs name" by (rule n(2))
  obtain k xs where p: "path_parts name = replicate k ''..'' @ xs" "''..'' \<notin> set xs" using path_parts_dots [of name] by (auto simp: dots_first_def)
  have "k = 0"
  proof (rule ccontr)
    assume "k \<noteq> 0"
    then obtain ps where ps: "path_parts name = ''..'' # ps" using p(1) by (cases k) auto
    then have "name = join_with slash (''..'' # ps)" using n(1,2) by (simp add: path_clean_def)
    then show False using n(3,4) by (cases ps) (auto simp: has_prefix_def slash_def)
  qed
  then show "''..'' \<notin> set (path_parts name)" using p by simp
qed

lemma hard_excluded_clean:
  assumes "path_clean name = name" "\<not> manifest_hard_excluded glob name" "pattern \<in> set required_exclusions" "c \<in> set (ancestors (path_parts name))"
  shows "glob pattern c \<noteq> Some True"
  using assms unfolding manifest_hard_excluded_def mandatory_excluded_def Let_def by (auto simp: list_ex_iff)

text \<open>
  C32: what is synchronised stays inside the home directory and outside the exclusions.  A path
  that a manifest manages, however it was written and whatever the manifest and the patterns
  say, is relative, has no component that leads upwards, lies at or below an included root, and
  no mandatory exclusion matches it or a directory above it.
\<close>

theorem managed_paths_are_confined:
  assumes "manages glob ig m raw is_dir"
  shows "\<not> is_abs (manifest_name raw) \<and> ''..'' \<notin> set (path_parts (manifest_name raw)) \<and>
    (\<exists>r \<in> set (cm_roots m). manifest_name raw = mr_path r \<or> mr_dir r \<and> has_prefix (manifest_name raw) (mr_path r @ ''/'')) \<and>
    (\<forall>pattern \<in> set required_exclusions. \<forall>c \<in> set (ancestors (path_parts (manifest_name raw))). glob pattern c \<noteq> Some True)"
proof -
  let ?n = "manifest_name raw"
  have m: "safe_manifest_path ?n" "\<not> manifest_hard_excluded glob ?n" "list_ex (\<lambda>r. ?n = mr_path r \<or> below_root r ?n) (cm_roots m)"
    using assms by (auto simp: manages_def Let_def split: if_splits)
  have "path_clean ?n = ?n" using m(1) by (simp add: safe_manifest_path_def)
  then show ?thesis
    using safe_parts [OF m(1)] m(3) hard_excluded_clean [OF _ m(2)] by (auto simp: list_ex_iff below_root_def)
qed

subsection \<open>What a parsed manifest looks like\<close>

lemma include_lines_inv:
  "include_lines glob ls m = Inr m' \<Longrightarrow> keys_distinct m \<Longrightarrow> (\<And>p. p \<in> fst ` set m \<Longrightarrow> safe_manifest_path p \<and> \<not> manifest_hard_excluded glob p) \<Longrightarrow>
    keys_distinct m' \<and> (\<forall>p \<in> fst ` set m'. safe_manifest_path p \<and> \<not> manifest_hard_excluded glob p)"
proof (induction glob ls m rule: include_lines.induct)
  case (2 glob raw ls m)
  let ?line = "trim_space raw"
  let ?path = "trim_suffix ?line ''/''"
  show ?case
  proof (cases "?line = [] \<or> has_prefix ?line ''#''")
    case True
    then show ?thesis using "2.IH"(1) [OF refl True] "2.prems" by (simp add: Let_def)
  next
    case False
    define m1 where "m1 = (case map_of m ?path of
        Some previous \<Rightarrow> if has_suffix ?line ''/'' \<and> \<not> previous then AList.update ?path (has_suffix ?line ''/'') m else m
      | None \<Rightarrow> AList.update ?path (has_suffix ?line ''/'') m)"
    have safe: "\<not> (CHR ''*'' \<in> set ?path \<or> CHR ''?'' \<in> set ?path \<or> CHR ''['' \<in> set ?path \<or> \<not> safe_manifest_path ?path)"
      "\<not> manifest_hard_excluded glob ?path" and rest: "include_lines glob ls m1 = Inr m'"
      using "2.prems"(1) False by (auto simp: Let_def m1_def split: if_splits)
    have dist: "keys_distinct m1" using "2.prems"(2) by (auto simp: m1_def split: option.splits)
    have "fst ` set m1 \<subseteq> insert ?path (fst ` set m)" by (auto simp: m1_def dom_update split: option.splits)
    then have "safe_manifest_path p \<and> \<not> manifest_hard_excluded glob p" if "p \<in> fst ` set m1" for p
      using that "2.prems"(3) [of p] safe by (cases "p = ?path") auto
    then show ?thesis by (rule "2.IH"(2) [OF refl False refl refl safe, folded m1_def, OF rest dist])
  qed
qed simp

lemma drop_redundant_sub: "set (drop_redundant kept rs) \<subseteq> set kept \<union> set rs"
  by (induction kept rs rule: drop_redundant.induct) auto

lemma drop_redundant_order:
  "sorted_wrt (\<lambda>a b. mr_path a < mr_path b \<and> \<not> below_root a (mr_path b)) kept \<Longrightarrow> sorted_wrt (\<lambda>a b. mr_path a < mr_path b) rs \<Longrightarrow>
    (\<And>k r. k \<in> set kept \<Longrightarrow> r \<in> set rs \<Longrightarrow> mr_path k < mr_path r) \<Longrightarrow>
    sorted_wrt (\<lambda>a b. mr_path a < mr_path b \<and> \<not> below_root a (mr_path b)) (drop_redundant kept rs)"
proof (induction kept rs rule: drop_redundant.induct)
  case (2 kept r rs)
  let ?kept = "if list_ex (\<lambda>k. below_root k (mr_path r)) kept then kept else kept @ [r]"
  have "sorted_wrt (\<lambda>a b. mr_path a < mr_path b \<and> \<not> below_root a (mr_path b)) ?kept"
    using "2.prems" by (auto simp: sorted_wrt_append list_ex_iff)
  then show ?case using "2.IH" "2.prems" by (auto split: if_splits)
qed simp

lemma strictly_sorted: "distinct (map f xs) \<Longrightarrow> sorted (map f xs) \<Longrightarrow> sorted_wrt (\<lambda>a b. f a < f b) xs"
  by (induction xs) (auto simp: less_le)

text \<open>
  Parsing a manifest gives canonical roots, whatever bytes the two files hold.  The roots are
  in strictly increasing order, each is a safe relative path outside the mandatory exclusions,
  and none lies below a root that is a directory.
\<close>

theorem parsed_roots_are_canonical:
  assumes "parse_manifest glob limits include ignore = Inr m"
  shows "sorted_wrt (\<lambda>a b. mr_path a < mr_path b \<and> \<not> below_root a (mr_path b)) (cm_roots m) \<and>
    (\<forall>r \<in> set (cm_roots m). safe_manifest_path (mr_path r) \<and> \<not> manifest_hard_excluded glob (mr_path r)) \<and>
    length (cm_revision m) = 64"
proof -
  have pi: "parse_include glob limits include = Inr (cm_roots m)" and rev: "\<exists>x. cm_revision m = hex_string (sha256 x)"
    using assms by (auto simp: parse_manifest_def split: if_splits sum.splits)
  obtain ls by_path where b: "include_lines glob ls [] = Inr by_path"
    "cm_roots m = drop_redundant [] (sort_key mr_path (map (\<lambda>(p, d). \<lparr>mr_path = p, mr_dir = d\<rparr>) by_path))"
    by (rule that [of "projr (manifest_lines limits include)" "projr (include_lines glob (projr (manifest_lines limits include)) [])"])
      (use pi in \<open>auto simp: parse_include_def split: sum.splits\<close>)
  let ?rs = "map (\<lambda>(p, d). \<lparr>mr_path = p, mr_dir = d\<rparr>) by_path"
  have inv: "keys_distinct by_path" "\<forall>p \<in> fst ` set by_path. safe_manifest_path p \<and> \<not> manifest_hard_excluded glob p"
    using include_lines_inv [OF b(1)] by simp_all
  have paths: "map mr_path ?rs = map fst by_path" by (simp add: case_prod_unfold)
  then have "distinct (map mr_path (sort_key mr_path ?rs))"
    using inv(1) unfolding keys_distinct_def by (metis distinct_map distinct_sort set_sort)
  then have "sorted_wrt (\<lambda>a b. mr_path a < mr_path b) (sort_key mr_path ?rs)" by (rule strictly_sorted) simp
  then have "sorted_wrt (\<lambda>a b. mr_path a < mr_path b \<and> \<not> below_root a (mr_path b)) (cm_roots m)"
    unfolding b(2) by (intro drop_redundant_order) auto
  moreover have "mr_path r \<in> fst ` set by_path" if "r \<in> set (cm_roots m)" for r
    using drop_redundant_sub [of "[]" "sort_key mr_path ?rs"] that unfolding b(2) by force
  moreover have "length (cm_revision m) = 64" using rev conjunct2 [OF hex_digits] by auto
  ultimately show ?thesis using inv(2) by blast
qed

subsection \<open>Samples\<close>

definition no_glob :: glob_match where
  "no_glob = (\<lambda>_ _. Some False)"

definition no_ignore :: ignore_match where
  "no_ignore = (\<lambda>_ _ _. NoMatch)"

definition sample_include :: string where
  "sample_include = ''b/'' @ [CHR 0x0A] @ ''a'' @ [CHR 0x0A] @ ''b/c''"

definition sample_roots :: "manifest_root list" where
  "sample_roots = [\<lparr>mr_path = ''a'', mr_dir = False\<rparr>, \<lparr>mr_path = ''b'', mr_dir = True\<rparr>]"

lemma sample_parsed: "\<exists>m. parse_manifest no_glob default_manifest_limits sample_include [] = Inr m \<and> cm_roots m = sample_roots"
proof -
  have "parse_include no_glob default_manifest_limits sample_include = Inr sample_roots" "parse_ignore default_manifest_limits [] = Inr []"
    "valid_manifest_limits default_manifest_limits" "utf8_valid (map of_char sample_include)"
    by code_simp+
  then show ?thesis by (simp add: parse_manifest_def default_manifest_limits_def sample_include_def)
qed

theorem parsed_roots_are_canonical_witness:
  "\<exists>m. parse_manifest no_glob default_manifest_limits sample_include [] = Inr m \<and> length (cm_roots m) = 2 \<and>
     (\<forall>r \<in> set (cm_roots m). safe_manifest_path (mr_path r))"
proof -
  obtain m where m: "parse_manifest no_glob default_manifest_limits sample_include [] = Inr m" "cm_roots m = sample_roots"
    using sample_parsed by blast
  then show ?thesis using parsed_roots_are_canonical [OF m(1)] by (auto simp: sample_roots_def)
qed

theorem managed_paths_are_confined_witness:
  "manages no_glob no_ignore \<lparr>cm_revision = [], cm_roots = sample_roots, cm_patterns = []\<rparr> ''b/./c'' False \<and>
     \<not> is_abs (manifest_name ''b/./c'') \<and> ''..'' \<notin> set (path_parts (manifest_name ''b/./c''))"
proof -
  have m: "manages no_glob no_ignore \<lparr>cm_revision = [], cm_roots = sample_roots, cm_patterns = []\<rparr> ''b/./c'' False" by code_simp
  show ?thesis using m managed_paths_are_confined [OF m] by blast
qed

end
