(* ===== verification/Config_Snapshot.thy ===== *)
theory Config_Snapshot
  imports Config_Plan Config_Manifest
begin

section \<open>Snapshots of the managed files\<close>

text \<open>
  Model of \<open>src/internal/configsync/snapshot.go\<close> and of the policy of \<open>policy.go\<close>.  A home
  directory is a tree; the children of a directory are in the order \<open>os.ReadDir\<close> gives them.
  Whether a call to the file system works, whether a file changes while it is read and where a
  symbolic link leads (\<open>filepath.EvalSymlinks\<close>) are answers of the environment.
\<close>

subsection \<open>The policy\<close>

record runtime_policy =
  pl_format :: string
  pl_revision :: string
  pl_contract :: string
  pl_limits :: manifest_limits
  pl_max_file :: int
  pl_max_batch :: int
  pl_debounce :: int
  pl_push_interval :: int
  pl_dirty_delay :: int
  pl_poll :: int
  pl_retry :: int
  pl_flush :: int
  pl_summary :: int
  pl_exclusions :: "string list"

record sync_credential =
  sc_value :: string
  sc_environment :: string
  sc_helper :: string
  sc_assignment :: string
  sc_warning :: string
  sc_expires :: "int option"

record runtime_descriptor =
  rd_write_mode :: string
  rd_mode :: string
  rd_repository :: string
  rd_assignment :: string
  rd_environment :: string
  rd_helper :: string
  rd_generation :: int
  rd_floor :: int
  rd_warning :: string
  rd_policy :: runtime_policy

definition second :: int where
  "second = 1000000000"

definition validate_runtime_descriptor :: "runtime_descriptor \<Rightarrow> sync_credential \<Rightarrow> bool" where
  "validate_runtime_descriptor d c \<longleftrightarrow>
     (let p = rd_policy d
      in (rd_write_mode d = ''read_only'' \<or> rd_write_mode d = ''leased_writes'') \<and> mode_valid (rd_mode d) \<and> rd_repository d \<noteq> [] \<and>
         rd_assignment d = sc_assignment c \<and> rd_environment d = sc_environment c \<and> rd_helper d = sc_helper c \<and> rd_generation d \<ge> 1 \<and>
         rd_floor d \<ge> 0 \<and> rd_warning d = sc_warning c \<and> pl_format p = ''paperboat-config-plaintext-v1'' \<and> pl_revision p \<noteq> [] \<and>
         1 \<le> pl_max_file p \<and> pl_max_file p \<le> 104857600 \<and> pl_max_file p \<le> pl_max_batch p \<and> pl_max_batch p \<le> 524288000 \<and>
         second \<le> pl_debounce p \<and> pl_debounce p \<le> 300 * second \<and> 60 * second \<le> pl_push_interval p \<and> pl_push_interval p \<le> 86400 * second \<and>
         pl_debounce p \<le> pl_dirty_delay p \<and> pl_dirty_delay p \<le> 86400 * second \<and> second \<le> pl_poll p \<and> pl_poll p \<le> 3600 * second \<and>
         1 \<le> pl_retry p \<and> pl_retry p \<le> 20 \<and> second \<le> pl_flush p \<and> pl_flush p \<le> 600 * second \<and> 1 \<le> pl_summary p \<and> pl_summary p \<le> 1000 \<and>
         pl_contract p = ''paperboat-manifest-v1'' \<and> valid_manifest_limits (pl_limits p))"

subsection \<open>The walk\<close>

datatype home_node = HFile nat bytes | HLink string | HSpecial | HDir "(string \<times> home_node) list"

datatype read_outcome = ReadFails | ReadChanging | ReadStable

record walk_env =
  we_stat :: "string \<Rightarrow> bool"
  we_list :: "string \<Rightarrow> bool"
  we_read :: "string \<Rightarrow> read_outcome"
  we_resolve :: "string \<Rightarrow> string option"

datatype snapshot_error = SnapshotInvalid | SnapshotUnsafePath

record snapshot_walk =
  sw_files :: "file_state gomap"
  sw_skipped :: "path_summary list"
  sw_batch :: int

text \<open>The bit of \<open>os.ModeSymlink\<close>.\<close>

definition mode_symlink :: nat where
  "mode_symlink = 2 ^ 27"

definition world_writable :: "nat \<Rightarrow> bool" where
  "world_writable perm \<longleftrightarrow> perm div 2 mod 2 = 1"

definition same_or_inside_path :: "string \<Rightarrow> string \<Rightarrow> bool" where
  "same_or_inside_path path root \<longleftrightarrow> is_abs path \<and> take 1 (relative_parts (path_parts root) (path_parts path)) \<noteq> [''..'']"

definition join_path :: "string \<Rightarrow> string \<Rightarrow> string" where
  "join_path dir name = path_clean (dir @ slash # name)"

definition portable_symlink_target :: "walk_env \<Rightarrow> string \<Rightarrow> string \<Rightarrow> string \<Rightarrow> string option" where
  "portable_symlink_target env root full target =
     (if is_abs target then None
      else let clean = join_path (clean_dir full) target
           in if \<not> same_or_inside_path clean root then None
              else case we_resolve env clean of
                None \<Rightarrow> None
              | Some resolved \<Rightarrow> if same_or_inside_path resolved root then Some target else None)"

definition skip_path :: "string \<Rightarrow> int \<Rightarrow> string \<Rightarrow> snapshot_walk \<Rightarrow> snapshot_walk" where
  "skip_path rel n reason w =
     w\<lparr>sw_skipped := sw_skipped w @ [\<lparr>ps_path = rel, ps_bytes = n, ps_reason = reason, ps_revision = []\<rparr>]\<rparr>"

definition take_path :: "string \<Rightarrow> file_state \<Rightarrow> snapshot_walk \<Rightarrow> snapshot_walk" where
  "take_path rel s w = w\<lparr>sw_files := AList.update rel s (sw_files w), sw_batch := sw_batch w + fs_bytes s\<rparr>"

definition link_state :: "string \<Rightarrow> file_state" where
  "link_state target =
     \<lparr>fs_hash = hex_string (sha256 (text_bytes (''symlink:'' @ target))), fs_bytes = int (length target), fs_mode = mode_symlink, fs_target = target\<rparr>"

definition content_state :: "nat \<Rightarrow> bytes \<Rightarrow> file_state" where
  "content_state perm b = \<lparr>fs_hash = hex_string (sha256 b), fs_bytes = int (length b), fs_mode = perm, fs_target = []\<rparr>"

text \<open>A managed path that is not a directory.\<close>

definition visit_file :: "walk_env \<Rightarrow> runtime_policy \<Rightarrow> string \<Rightarrow> string \<Rightarrow> home_node \<Rightarrow> snapshot_walk \<Rightarrow> snapshot_error + snapshot_walk" where
  "visit_file env p root rel n w =
     (case n of
        HLink target \<Rightarrow>
          (case portable_symlink_target env root (root @ slash # rel) target of
             None \<Rightarrow> Inr (skip_path rel 0 ''unsafe_symlink'' w)
           | Some t \<Rightarrow>
               if sw_batch w + fs_bytes (link_state t) > pl_max_batch p then Inr (skip_path rel (fs_bytes (link_state t)) ''max_batch_bytes'' w)
               else Inr (take_path rel (link_state t) w))
      | HFile perm b \<Rightarrow>
          if world_writable perm then Inr (skip_path rel (int (length b)) ''unsafe_permissions'' w)
          else if int (length b) > pl_max_file p then Inr (skip_path rel (int (length b)) ''max_file_bytes'' w)
          else if sw_batch w + int (length b) > pl_max_batch p then Inr (skip_path rel (int (length b)) ''max_batch_bytes'' w)
          else (case we_read env rel of
                  ReadFails \<Rightarrow> Inl SnapshotInvalid
                | ReadChanging \<Rightarrow> Inr (skip_path rel (int (length b)) ''file_changing'' w)
                | ReadStable \<Rightarrow> Inr (take_path rel (content_state perm b) w))
      | HSpecial \<Rightarrow> Inr (skip_path rel 0 ''special_file'' w)
      | HDir _ \<Rightarrow> Inr w)"

definition child_path :: "string \<Rightarrow> string \<Rightarrow> string" where
  "child_path prefix name = (if prefix = [] then name else prefix @ slash # name)"

fun walk_node ::
    "walk_env \<Rightarrow> runtime_policy \<Rightarrow> string \<Rightarrow> (string \<Rightarrow> bool \<Rightarrow> bool) \<Rightarrow> (string \<Rightarrow> bool) \<Rightarrow> string \<Rightarrow> home_node \<Rightarrow> snapshot_walk \<Rightarrow> snapshot_error + snapshot_walk"
and walk_nodes ::
    "walk_env \<Rightarrow> runtime_policy \<Rightarrow> string \<Rightarrow> (string \<Rightarrow> bool \<Rightarrow> bool) \<Rightarrow> (string \<Rightarrow> bool) \<Rightarrow> string \<Rightarrow> (string \<times> home_node) list \<Rightarrow> snapshot_walk \<Rightarrow> snapshot_error + snapshot_walk" where
  "walk_node env p root mng may rel (HDir children) w =
     (if \<not> mng rel True \<and> \<not> may rel then Inr w
      else if mng rel True \<and> \<not> we_stat env rel \<or> \<not> we_list env rel then Inl SnapshotInvalid
      else walk_nodes env p root mng may rel children w)"
| "walk_node env p root mng may rel n w =
     (if \<not> mng rel False then Inr w
      else if \<not> we_stat env rel then Inl SnapshotInvalid
      else visit_file env p root rel n w)"
| "walk_nodes env p root mng may prefix [] w = Inr w"
| "walk_nodes env p root mng may prefix ((name, n) # ns) w =
     (case walk_node env p root mng may (child_path prefix name) n w of
        Inl e \<Rightarrow> Inl e
      | Inr w' \<Rightarrow> walk_nodes env p root mng may prefix ns w')"

definition empty_walk :: snapshot_walk where
  "empty_walk = \<lparr>sw_files = [], sw_skipped = [], sw_batch = 0\<rparr>"

record config_snapshot =
  sn_files :: "file_state gomap"
  sn_skipped :: "path_summary list"

text \<open>\<open>root_ok\<close>: the root is a directory, no symbolic link, and resolves to itself.\<close>

definition take_selected_snapshot ::
    "walk_env \<Rightarrow> runtime_policy \<Rightarrow> string \<Rightarrow> bool \<Rightarrow> (string \<Rightarrow> bool \<Rightarrow> bool) \<Rightarrow> (string \<Rightarrow> bool) \<Rightarrow> bool \<Rightarrow> (string \<times> home_node) list \<Rightarrow> snapshot_error + config_snapshot" where
  "take_selected_snapshot env p root root_ok mng may nothing tree =
     (if \<not> (is_abs root \<and> path_clean root = root) \<or> \<not> root_ok then Inl SnapshotInvalid
      else if nothing then Inr \<lparr>sn_files = [], sn_skipped = []\<rparr>
      else if \<not> we_list env [] then Inl SnapshotInvalid
      else case walk_nodes env p root mng may [] tree empty_walk of
        Inl e \<Rightarrow> Inl SnapshotInvalid
      | Inr w \<Rightarrow> Inr \<lparr>sn_files = sw_files w, sn_skipped = sort_key ps_path (sw_skipped w)\<rparr>)"

subsection \<open>The roots of a manifest\<close>

fun lookup_node :: "(string \<times> home_node) list \<Rightarrow> string list \<Rightarrow> home_node option" where
  "lookup_node tree [] = None"
| "lookup_node tree [p] = map_of tree p"
| "lookup_node tree (p # q # ps) = (case map_of tree p of Some (HDir children) \<Rightarrow> lookup_node children (q # ps) | _ \<Rightarrow> None)"

fun is_link :: "home_node \<Rightarrow> bool" where
  "is_link (HLink _) = True"
| "is_link _ = False"

fun is_directory :: "home_node \<Rightarrow> bool" where
  "is_directory (HDir _) = True"
| "is_directory _ = False"

fun check_root_parts :: "walk_env \<Rightarrow> (string \<times> home_node) list \<Rightarrow> bool \<Rightarrow> string list \<Rightarrow> string list \<Rightarrow> snapshot_error option" where
  "check_root_parts env tree directory prefix [] = None"
| "check_root_parts env tree directory prefix (p # ps) =
     (case lookup_node tree (prefix @ [p]) of
        None \<Rightarrow> None
      | Some n \<Rightarrow>
          if \<not> we_stat env (join_with slash (prefix @ [p])) then Some SnapshotInvalid
          else if is_link n \<and> (ps \<noteq> [] \<or> directory) then Some SnapshotUnsafePath
          else if ps \<noteq> [] \<and> \<not> is_directory n then None
          else check_root_parts env tree directory (prefix @ [p]) ps)"

fun validate_manifest_roots :: "walk_env \<Rightarrow> (string \<times> home_node) list \<Rightarrow> manifest_root list \<Rightarrow> snapshot_error option" where
  "validate_manifest_roots env tree [] = None"
| "validate_manifest_roots env tree (r # rs) =
     (case check_root_parts env tree (mr_dir r) [] (split_on slash (mr_path r)) of
        Some e \<Rightarrow> Some e
      | None \<Rightarrow> validate_manifest_roots env tree rs)"

definition take_manifest_snapshot ::
    "glob_match \<Rightarrow> ignore_match \<Rightarrow> walk_env \<Rightarrow> runtime_policy \<Rightarrow> config_manifest \<Rightarrow> string \<Rightarrow> bool \<Rightarrow> (string \<times> home_node) list \<Rightarrow> snapshot_error + config_snapshot" where
  "take_manifest_snapshot glob ig env p m root root_ok tree =
     (if \<not> (is_abs root \<and> path_clean root = root) then Inl SnapshotInvalid
      else case validate_manifest_roots env tree (cm_roots m) of
        Some e \<Rightarrow> Inl e
      | None \<Rightarrow>
          take_selected_snapshot env p root root_ok
            (\<lambda>path is_dir. \<not> mandatory_excluded glob (pl_exclusions p) path \<and> manages glob ig m path is_dir)
            (\<lambda>path. \<not> mandatory_excluded glob (pl_exclusions p) path \<and> may_manage_descendant glob m path)
            (cm_roots m = []) tree)"

definition changed_paths :: "file_state gomap \<Rightarrow> file_state gomap \<Rightarrow> string list" where
  "changed_paths base current = filter (\<lambda>p. state_at base p \<noteq> state_at current p) (all_paths [base, current])"

subsection \<open>What a snapshot holds\<close>

definition total_bytes :: "file_state gomap \<Rightarrow> int" where
  "total_bytes m = sum_list (map (fs_bytes \<circ> snd) m)"

definition walk_inv :: "runtime_policy \<Rightarrow> (string \<Rightarrow> bool \<Rightarrow> bool) \<Rightarrow> snapshot_walk \<Rightarrow> bool" where
  "walk_inv p mng w \<longleftrightarrow>
     keys_distinct (sw_files w) \<and> total_bytes (sw_files w) \<le> sw_batch w \<and> sw_batch w \<le> pl_max_batch p \<and>
     (\<forall>(rel, s) \<in> set (sw_files w). mng rel False \<and> 0 \<le> fs_bytes s \<and> (fs_mode s = mode_symlink \<or> fs_bytes s \<le> pl_max_file p))"

lemma total_update:
  "(\<And>k s. (k, s) \<in> set m \<Longrightarrow> 0 \<le> fs_bytes s) \<Longrightarrow> total_bytes (AList.update k v m) \<le> total_bytes m + fs_bytes v"
proof (induction m)
  case (Cons a m)
  then show ?case by (cases a) (fastforce simp: total_bytes_def)
qed (simp add: total_bytes_def)

lemma skip_inv: "walk_inv p mng w \<Longrightarrow> walk_inv p mng (skip_path rel n reason w)"
  by (simp add: walk_inv_def skip_path_def)

lemma take_inv:
  assumes "walk_inv p mng w" "mng rel False" "0 \<le> fs_bytes s" "sw_batch w + fs_bytes s \<le> pl_max_batch p"
    "fs_mode s = mode_symlink \<or> fs_bytes s \<le> pl_max_file p"
  shows "walk_inv p mng (take_path rel s w)"
proof -
  have "total_bytes (AList.update rel s (sw_files w)) \<le> total_bytes (sw_files w) + fs_bytes s"
    using assms(1) by (intro total_update) (auto simp: walk_inv_def)
  moreover have "set (AList.update rel s (sw_files w)) \<subseteq> insert (rel, s) (set (sw_files w))"
    by (rule set_update_subset)
  ultimately show ?thesis using assms unfolding walk_inv_def take_path_def by auto
qed

lemma visit_inv:
  assumes "visit_file env p root rel n w = Inr w'" "walk_inv p mng w" "mng rel False"
  shows "walk_inv p mng w'"
proof (cases n)
  case (HFile perm b)
  show ?thesis
    using assms take_inv [of p mng w rel "content_state perm b"] unfolding HFile
    by (auto simp: visit_file_def skip_inv content_state_def not_less split: if_splits read_outcome.splits)
next
  case (HLink target)
  show ?thesis
    using assms take_inv [of p mng w rel "link_state target"] unfolding HLink
    by (auto simp: visit_file_def skip_inv link_state_def not_less portable_symlink_target_def Let_def split: if_splits option.splits)
qed (use assms in \<open>auto simp: visit_file_def skip_inv\<close>)

lemma walk_inv_keeps:
  "walk_node env p root mng may rel n w = Inr w' \<Longrightarrow> walk_inv p mng w \<Longrightarrow> walk_inv p mng w'"
  "walk_nodes env p root mng may prefix ns w = Inr w' \<Longrightarrow> walk_inv p mng w \<Longrightarrow> walk_inv p mng w'"
proof (induction env p root mng may rel n w and env p root mng may prefix ns w arbitrary: w' and w' rule: walk_node_walk_nodes.induct)
  case (4 env p root mng may prefix name n ns w)
  then show ?case by (fastforce split: sum.splits)
qed (auto split: if_splits intro: visit_inv)

text \<open>
  A snapshot keeps to the policy.  Whatever the home directory holds and whatever the calls
  to the file system return, every path of a snapshot is selected by the manifest and no
  exclusion of the policy applies to it, no regular file is larger than the limit for a file,
  and all files together are not larger than the limit for a batch.
\<close>

theorem snapshot_keeps_policy:
  assumes "take_manifest_snapshot glob ig env p m root root_ok tree = Inr s" "0 \<le> pl_max_batch p"
  shows "keys_distinct (sn_files s) \<and> total_bytes (sn_files s) \<le> pl_max_batch p \<and>
    (\<forall>(rel, st) \<in> set (sn_files s). \<not> mandatory_excluded glob (pl_exclusions p) rel \<and> manages glob ig m rel False \<and>
       (fs_mode st = mode_symlink \<or> fs_bytes st \<le> pl_max_file p))"
proof -
  let ?mng = "\<lambda>path is_dir. \<not> mandatory_excluded glob (pl_exclusions p) path \<and> manages glob ig m path is_dir"
  consider "s = \<lparr>sn_files = [], sn_skipped = []\<rparr>"
    | w may where "walk_nodes env p root ?mng may [] tree empty_walk = Inr w" "sn_files s = sw_files w"
    using assms(1) by (auto simp: take_manifest_snapshot_def take_selected_snapshot_def split: if_splits option.splits sum.splits)
  then show ?thesis
  proof cases
    case 1
    then show ?thesis using assms(2) by (simp add: total_bytes_def)
  next
    case (2 w may)
    have "walk_inv p ?mng empty_walk" using assms(2) by (simp add: walk_inv_def empty_walk_def total_bytes_def)
    then have "walk_inv p ?mng w" by (rule walk_inv_keeps(2) [OF 2(1)])
    then show ?thesis using 2(2) by (auto simp: walk_inv_def)
  qed
qed

subsection \<open>Samples\<close>

definition sample_policy_limits :: runtime_policy where
  "sample_policy_limits = \<lparr>pl_format = [], pl_revision = [], pl_contract = [], pl_limits = default_manifest_limits, pl_max_file = 10, pl_max_batch = 15,
     pl_debounce = 0, pl_push_interval = 0, pl_dirty_delay = 0, pl_poll = 0, pl_retry = 0, pl_flush = 0, pl_summary = 0, pl_exclusions = []\<rparr>"

definition steady_env :: walk_env where
  "steady_env = \<lparr>we_stat = \<lambda>_. True, we_list = \<lambda>_. True, we_read = \<lambda>_. ReadStable, we_resolve = \<lambda>_. None\<rparr>"

text \<open>The file below is written to while it is read.\<close>

definition busy_env :: walk_env where
  "busy_env = steady_env\<lparr>we_read := \<lambda>_. ReadChanging\<rparr>"

definition sample_manifest :: config_manifest where
  "sample_manifest = \<lparr>cm_revision = [], cm_roots = sample_roots, cm_patterns = []\<rparr>"

definition sample_home :: "(string \<times> home_node) list" where
  "sample_home = [(''a'', HFile 384 [1, 2])]"

lemma sample_snapshot:
  "take_manifest_snapshot no_glob no_ignore steady_env sample_policy_limits sample_manifest ''/h'' True sample_home =
     Inr \<lparr>sn_files = [(''a'', content_state 384 [1, 2])], sn_skipped = []\<rparr>"
  "take_manifest_snapshot no_glob no_ignore busy_env sample_policy_limits sample_manifest ''/h'' True sample_home =
     Inr \<lparr>sn_files = [], sn_skipped = [\<lparr>ps_path = ''a'', ps_bytes = 2, ps_reason = ''file_changing'', ps_revision = []\<rparr>]\<rparr>"
proof -
  have r: "validate_manifest_roots env sample_home (cm_roots sample_manifest) = None" if "env = steady_env \<or> env = busy_env" for env
    using that by (auto simp: sample_home_def sample_manifest_def sample_roots_def steady_env_def busy_env_def slash_def)
  have m: "\<not> mandatory_excluded no_glob (pl_exclusions sample_policy_limits) ''a''" "manages no_glob no_ignore sample_manifest ''a'' False"
    "is_abs ''/h''" "path_clean ''/h'' = ''/h''" "cm_roots sample_manifest \<noteq> []" "\<not> mandatory_excluded no_glob [] ''a''"
    by code_simp+
  show "take_manifest_snapshot no_glob no_ignore steady_env sample_policy_limits sample_manifest ''/h'' True sample_home =
     Inr \<lparr>sn_files = [(''a'', content_state 384 [1, 2])], sn_skipped = []\<rparr>"
    "take_manifest_snapshot no_glob no_ignore busy_env sample_policy_limits sample_manifest ''/h'' True sample_home =
     Inr \<lparr>sn_files = [], sn_skipped = [\<lparr>ps_path = ''a'', ps_bytes = 2, ps_reason = ''file_changing'', ps_revision = []\<rparr>]\<rparr>"
    unfolding take_manifest_snapshot_def take_selected_snapshot_def
    by (simp_all add: r m) (simp_all add: sample_home_def child_path_def m visit_file_def empty_walk_def steady_env_def busy_env_def
        sample_policy_limits_def world_writable_def take_path_def skip_path_def)
qed

theorem snapshot_keeps_policy_witness:
  "total_bytes [(''a'', content_state 384 [1, 2])] \<le> pl_max_batch sample_policy_limits \<and> manages no_glob no_ignore sample_manifest ''a'' False"
  using snapshot_keeps_policy [OF sample_snapshot(1)] by (simp add: sample_policy_limits_def)

text \<open>
  A file that a snapshot skips, here one that changes while it is read, looks deleted to the
  plan: with the same state in the baseline and in the repository, its deletion is published.
\<close>

lemma skipped_file_is_deleted:
  defines "accepted \<equiv> [(''a'', content_state 384 [1, 2])]"
  shows "\<exists>s. take_manifest_snapshot no_glob no_ignore busy_env sample_policy_limits sample_manifest ''/h'' True sample_home = Inr s \<and>
    ''a'' \<in> ps_path ` set (sn_skipped s) \<and> rp_deletes (plan_reconciliation accepted (sn_files s) accepted) = [''a'']"
  by (simp add: sample_snapshot plan_reconciliation_def plan_lists wants_publish_def accepted_def all_paths_def)

text \<open>In a repository the same holds for the remote side: a file that makes the batch too large is removed locally.\<close>

lemma oversized_remote_removes_local:
  assumes "map_of (sn_files remote) p = None" "map_of base p = Some st" "map_of local p = Some st"
  shows "p \<in> set (rp_remove (plan_reconciliation base local (sn_files remote)))"
  using assms by (simp add: plan_reconciliation_def plan_sets wants_apply_def)

end
