(* ===== verification/Apply_Journal.thy ===== *)
theory Apply_Journal
  imports Config_Snapshot
begin

section \<open>The journal of an application\<close>

text \<open>
  Model of \<open>src/internal/configsync/apply_journal.go\<close>: before files of the home directory are
  changed their old states are written to a journal, and a start that finds the journal puts
  them back.  The home directory is a map from relative paths to what is there.  An attempt to
  recover has a budget: the number of changes to the disk it makes before a call fails or the
  machine stops.  Creating missing parent directories is not represented.
\<close>

subsection \<open>Paths\<close>

definition safe_relative_status_path :: "string \<Rightarrow> bool" where
  "safe_relative_status_path raw \<longleftrightarrow>
     (let path = trim_space raw
      in path \<noteq> [] \<and> length path \<le> 512 \<and> path \<noteq> ''.'' \<and> \<not> has_prefix path ''/'' \<and> CHR 0x00 \<notin> set path \<and> path_clean path = path \<and>
         path \<noteq> ''..'' \<and> \<not> has_prefix path ''../'')"

subsection \<open>The disk and the journal\<close>

text \<open>A regular file has its mode bits, permissions and \<open>setuid\<close>, \<open>setgid\<close> and sticky bits.\<close>

datatype hnode = HRegular nat bytes | HSym string | HDirectory | HDevice

record apply_entry =
  ae_path :: string
  ae_existed :: bool
  ae_mode :: nat
  ae_target :: string
  ae_content :: bytes

record apply_journal =
  aj_repository :: string
  aj_assignment :: string
  aj_revision :: string
  aj_entries :: "apply_entry list"

record apply_disk =
  ad_home :: "string \<Rightarrow> hnode option"
  ad_journal :: "apply_journal option"

datatype apply_error = ErrApplyJournalInvalid | ApplyFailure

definition perm_bits :: "nat \<Rightarrow> nat" where
  "perm_bits m = m mod 512"

definition link_mode :: "nat \<Rightarrow> bool" where
  "link_mode m \<longleftrightarrow> m div mode_symlink mod 2 = 1"

text \<open>\<open>FileMode.IsRegular\<close>: none of the bits of a file type is set.\<close>

definition regular_mode :: "nat \<Rightarrow> bool" where
  "regular_mode m \<longleftrightarrow> m div 2 ^ 24 mod 16 = 0 \<and> m div 2 ^ 31 mod 2 = 0 \<and> m div 2 ^ 21 mod 2 = 0 \<and> m div 2 ^ 19 mod 2 = 0"

text \<open>\<open>deduplicatePaths\<close> compares each path with the one before it.\<close>

definition dedup_paths :: "string list \<Rightarrow> string list" where
  "dedup_paths ps = unique_sorted ps"

text \<open>The entry of one path; \<open>reads\<close> says whether reading it works, \<open>sofar\<close> counts the bytes read before.\<close>

definition journal_entry :: "(string \<Rightarrow> bool) \<Rightarrow> int \<Rightarrow> string \<Rightarrow> int \<Rightarrow> string \<Rightarrow> hnode option \<Rightarrow> apply_error + apply_entry \<times> int" where
  "journal_entry reads max_bytes root sofar rel node =
     (if \<not> safe_relative_status_path rel then Inl ErrApplyJournalInvalid
      else if \<not> same_or_inside_path (join_path root rel) root then Inl ErrApplyJournalInvalid
      else let e = \<lparr>ae_path = rel, ae_existed = False, ae_mode = 0, ae_target = [], ae_content = []\<rparr>
           in case node of
             None \<Rightarrow> Inr (e, sofar)
           | Some (HSym t) \<Rightarrow>
               if \<not> reads rel \<or> is_abs t then Inl ErrApplyJournalInvalid
               else Inr (e\<lparr>ae_existed := True, ae_mode := mode_symlink + 511, ae_target := t\<rparr>, sofar)
           | Some (HRegular m b) \<Rightarrow>
               if int (length b) > max_bytes - sofar then Inl ErrApplyJournalInvalid
               else if \<not> reads rel then Inl ApplyFailure
               else Inr (e\<lparr>ae_existed := True, ae_mode := m, ae_content := b\<rparr>, sofar + int (length b))
           | Some _ \<Rightarrow> Inl ErrApplyJournalInvalid)"

fun journal_entries ::
    "(string \<Rightarrow> bool) \<Rightarrow> int \<Rightarrow> string \<Rightarrow> (string \<Rightarrow> hnode option) \<Rightarrow> int \<Rightarrow> string list \<Rightarrow> apply_error + apply_entry list" where
  "journal_entries reads max_bytes root home sofar [] = Inr []"
| "journal_entries reads max_bytes root home sofar (p # ps) =
     (case journal_entry reads max_bytes root sofar p (home p) of
        Inl e \<Rightarrow> Inl e
      | Inr (e, sofar') \<Rightarrow> map_sum id ((#) e) (journal_entries reads max_bytes root home sofar' ps))"

definition begin_apply_journal ::
    "(string \<Rightarrow> bool) \<Rightarrow> bool \<Rightarrow> string \<Rightarrow> string \<Rightarrow> string \<Rightarrow> string \<Rightarrow> string \<Rightarrow> string list \<Rightarrow> int \<Rightarrow> apply_disk \<Rightarrow> apply_error option \<times> apply_disk" where
  "begin_apply_journal reads writes journal_path root repository assignment revision paths max_bytes d =
     (if \<not> canonical_absolute_path journal_path \<or> \<not> canonical_absolute_path root \<or> repository = [] \<or> assignment = [] \<or> revision = [] \<or> max_bytes \<le> 0
      then (Some ErrApplyJournalInvalid, d)
      else case journal_entries reads max_bytes root (ad_home d) 0 (dedup_paths (sort paths)) of
        Inl e \<Rightarrow> (Some e, d)
      | Inr entries \<Rightarrow>
          if \<not> writes then (Some ApplyFailure, d)
          else (None, d\<lparr>ad_journal := Some \<lparr>aj_repository = repository, aj_assignment = assignment, aj_revision = revision, aj_entries = entries\<rparr>\<rparr>))"

subsection \<open>Recovery\<close>

text \<open>
  One change to the disk out of the budget.  A restore returns what is left of the budget, or
  the error, with the home directory either way.
\<close>

type_synonym home_map = "string \<Rightarrow> hnode option"

definition create_entry :: "apply_entry \<Rightarrow> nat \<Rightarrow> home_map \<Rightarrow> (apply_error + nat) \<times> home_map" where
  "create_entry e n home =
     (if \<not> ae_existed e then (Inr n, home)
      else if link_mode (ae_mode e) then
        (if ae_target e = [] \<or> is_abs (ae_target e) then (Inl ErrApplyJournalInvalid, home)
         else case n of 0 \<Rightarrow> (Inl ApplyFailure, home) | Suc n' \<Rightarrow> (Inr n', home(ae_path e \<mapsto> HSym (ae_target e))))
      else if \<not> regular_mode (ae_mode e) then (Inl ErrApplyJournalInvalid, home)
      else case n of 0 \<Rightarrow> (Inl ApplyFailure, home) | Suc n' \<Rightarrow> (Inr n', home(ae_path e \<mapsto> HRegular (perm_bits (ae_mode e)) (ae_content e))))"

definition restore_entry :: "(string \<Rightarrow> bool) \<Rightarrow> apply_entry \<Rightarrow> nat \<Rightarrow> home_map \<Rightarrow> (apply_error + nat) \<times> home_map" where
  "restore_entry parent_ok e n home =
     (if \<not> safe_relative_status_path (ae_path e) then (Inl ErrApplyJournalInvalid, home)
      else if \<not> parent_ok (ae_path e) then (Inl ErrApplyJournalInvalid, home)
      else case home (ae_path e) of
        None \<Rightarrow> create_entry e n home
      | Some HDirectory \<Rightarrow> (Inl ErrApplyJournalInvalid, home)
      | Some _ \<Rightarrow> (case n of 0 \<Rightarrow> (Inl ApplyFailure, home) | Suc n' \<Rightarrow> create_entry e n' (home(ae_path e := None))))"

text \<open>The entries are restored from the last to the first.\<close>

fun restore_entries :: "(string \<Rightarrow> bool) \<Rightarrow> apply_entry list \<Rightarrow> nat \<Rightarrow> home_map \<Rightarrow> (apply_error + nat) \<times> home_map" where
  "restore_entries parent_ok [] n home = (Inr n, home)"
| "restore_entries parent_ok (e # es) n home =
     (case restore_entry parent_ok e n home of
        (Inl err, home') \<Rightarrow> (Inl err, home')
      | (Inr n', home') \<Rightarrow> restore_entries parent_ok es n' home')"

text \<open>\<open>size_of\<close> is the length of the journal as JSON; \<open>opens\<close> says that opening it works.\<close>

definition recover_apply_journal ::
    "(apply_journal \<Rightarrow> int) \<Rightarrow> bool \<Rightarrow> (string \<Rightarrow> bool) \<Rightarrow> string \<Rightarrow> string \<Rightarrow> int \<Rightarrow> nat \<Rightarrow> apply_disk \<Rightarrow> apply_error option \<times> apply_disk" where
  "recover_apply_journal size_of opens parent_ok repository assignment max_bytes n d =
     (case ad_journal d of
        None \<Rightarrow> (None, d)
      | Some j \<Rightarrow>
          if size_of j > max_bytes + 1048576 then (Some ErrApplyJournalInvalid, d)
          else if \<not> opens then (Some ApplyFailure, d)
          else if aj_repository j \<noteq> repository \<or> aj_assignment j \<noteq> assignment then (Some ErrApplyJournalInvalid, d)
          else (case restore_entries parent_ok (rev (aj_entries j)) n (ad_home d) of
                  (Inl e, home) \<Rightarrow> (Some e, d\<lparr>ad_home := home\<rparr>)
                | (Inr n', home) \<Rightarrow>
                    if n' = 0 then (Some ApplyFailure, d\<lparr>ad_home := home\<rparr>) else (None, d\<lparr>ad_home := home, ad_journal := None\<rparr>)))"

subsection \<open>What a recovery restores\<close>

text \<open>The entry describes what was at its path.\<close>

definition describes :: "home_map \<Rightarrow> apply_entry \<Rightarrow> bool" where
  "describes home e \<longleftrightarrow>
     safe_relative_status_path (ae_path e) \<and>
     (case home (ae_path e) of
        None \<Rightarrow> \<not> ae_existed e
      | Some (HSym t) \<Rightarrow> ae_existed e \<and> ae_mode e = mode_symlink + 511 \<and> ae_target e = t \<and> \<not> is_abs t
      | Some (HRegular m b) \<Rightarrow> ae_existed e \<and> ae_mode e = m \<and> ae_content e = b
      | _ \<Rightarrow> False)"

lemma journal_entry_describes:
  "journal_entry reads mx root t p (home p) = Inr (e, t') \<Longrightarrow> ae_path e = p \<and> describes home e"
  by (auto simp: journal_entry_def describes_def Let_def split: if_splits option.splits hnode.splits)

lemma journal_entries_describe:
  "journal_entries reads mx root home t ps = Inr es \<Longrightarrow> map ae_path es = ps \<and> list_all (describes home) es"
proof (induction ps arbitrary: t es)
  case (Cons p ps)
  then obtain e t' es' where e: "journal_entry reads mx root t p (home p) = Inr (e, t')" "journal_entries reads mx root home t' ps = Inr es'" "es = e # es'"
    by (cases "journal_entry reads mx root t p (home p)"; cases "journal_entries reads mx root home (snd (projr (journal_entry reads mx root t p (home p)))) ps")
      (auto split: prod.splits)
  show ?case using Cons.IH [OF e(2)] journal_entry_describes [where home = home, OF e(1)] e(3) by simp
qed simp

text \<open>Files with permission bits only, and no empty link, are what a restore reproduces.\<close>

definition plain_nodes :: "home_map \<Rightarrow> bool" where
  "plain_nodes home \<longleftrightarrow> (\<forall>p. case home p of Some (HRegular m b) \<Rightarrow> m < 512 | Some (HSym t) \<Rightarrow> t \<noteq> [] | _ \<Rightarrow> True)"

lemma create_restores:
  assumes "describes home0 e" "plain_nodes home0" "create_entry e n home = (r, home')" "home (ae_path e) = None"
  shows "(home' = home \<or> home' = home(ae_path e := home0 (ae_path e))) \<and>
    (\<forall>n'. r = Inr n' \<longrightarrow> home' = home(ae_path e := home0 (ae_path e)) \<and> n \<le> Suc n') \<and> (0 < n \<longrightarrow> (\<exists>n'. r = Inr n'))"
proof (cases "home0 (ae_path e)")
  case None
  then show ?thesis using assms by (auto simp: describes_def create_entry_def)
next
  case (Some x)
  have p: "case x of HRegular m b \<Rightarrow> m < 512 | HSym t \<Rightarrow> t \<noteq> [] | _ \<Rightarrow> True"
    using assms(2) Some unfolding plain_nodes_def by (metis option.simps(5) hnode.exhaust)
  show ?thesis
  proof (cases x)
    case (HRegular m b)
    then have "\<not> link_mode m" "regular_mode m" "perm_bits m = m"
      using p by (simp_all add: link_mode_def regular_mode_def perm_bits_def mode_symlink_def)
    then show ?thesis using assms(1,3) Some HRegular by (auto simp: describes_def create_entry_def split: nat.splits)
  next
    case (HSym t)
    have "link_mode (mode_symlink + 511)" by (simp add: link_mode_def mode_symlink_def)
    then show ?thesis using assms(1,3) Some HSym p by (auto simp: describes_def create_entry_def split: nat.splits)
  qed (use assms(1) Some in \<open>auto simp: describes_def\<close>)
qed

lemma restore_one:
  assumes "describes home0 e" "plain_nodes home0" "parent_ok (ae_path e)" "home (ae_path e) \<noteq> Some HDirectory"
    "restore_entry parent_ok e n home = (r, home')"
  shows "home' (ae_path e) \<in> {home (ae_path e), None, home0 (ae_path e)} \<and> (\<forall>p. p \<noteq> ae_path e \<longrightarrow> home' p = home p) \<and>
    (\<forall>n'. r = Inr n' \<longrightarrow> home' (ae_path e) = home0 (ae_path e) \<and> n \<le> n' + 2) \<and> (2 \<le> n \<longrightarrow> (\<exists>n'. r = Inr n'))"
proof -
  have safe: "safe_relative_status_path (ae_path e)" using assms(1) by (simp add: describes_def)
  show ?thesis
  proof (cases "home (ae_path e)")
    case None
    then have "create_entry e n home = (r, home')" using assms(3,5) safe by (simp add: restore_entry_def)
    from create_restores [OF assms(1,2) this None] show ?thesis using None by auto
  next
    case (Some x)
    show ?thesis
    proof (cases n)
      case 0
      then show ?thesis using assms(3-5) safe Some by (cases x) (auto simp: restore_entry_def)
    next
      case (Suc m)
      then have "create_entry e m (home(ae_path e := None)) = (r, home')"
        using assms(3-5) safe Some by (cases x) (auto simp: restore_entry_def)
      from create_restores [OF assms(1,2) this] show ?thesis using Suc by auto
    qed
  qed
qed

lemma restore_all:
  assumes "list_all (describes home0) es" "plain_nodes home0" "\<forall>e \<in> set es. parent_ok (ae_path e) \<and> home (ae_path e) \<noteq> Some HDirectory"
    "distinct (map ae_path es)" "restore_entries parent_ok es n home = (r, home')"
  shows "(\<forall>p. p \<notin> ae_path ` set es \<longrightarrow> home' p = home p) \<and> (\<forall>p \<in> ae_path ` set es. home' p \<in> {home p, None, home0 p}) \<and>
    (\<forall>n'. r = Inr n' \<longrightarrow> (\<forall>p \<in> ae_path ` set es. home' p = home0 p) \<and> n \<le> n' + 2 * length es) \<and> (2 * length es \<le> n \<longrightarrow> (\<exists>n'. r = Inr n'))"
  using assms(1,3-5)
proof (induction es arbitrary: n home)
  case (Cons e es)
  obtain r1 home1 where r1: "restore_entry parent_ok e n home = (r1, home1)" by (cases "restore_entry parent_ok e n home")
  have d: "describes home0 e" "parent_ok (ae_path e)" "home (ae_path e) \<noteq> Some HDirectory" using Cons.prems by simp_all
  note one = restore_one [OF d(1) assms(2) d(2,3) r1]
  show ?case
  proof (cases r1)
    case (Inl err)
    then have "r = Inl err" "home' = home1" using Cons.prems(4) r1 by simp_all
    moreover have "\<not> 2 \<le> n" using one Inl by auto
    moreover have "home1 p \<in> {home p, None, home0 p}" if "p \<in> ae_path ` set (e # es)" for p using one by (cases "p = ae_path e") auto
    ultimately show ?thesis using one by auto
  next
    case (Inr n1)
    then have rest: "restore_entries parent_ok es n1 home1 = (r, home')" using Cons.prems(4) r1 by simp
    have "\<forall>e' \<in> set es. parent_ok (ae_path e') \<and> home1 (ae_path e') \<noteq> Some HDirectory"
      using Cons.prems(2,3) one by (metis image_eqI list.set_intros(2) list.simps(9) distinct.simps(2) set_map)
    note ih = Cons.IH [OF _ this _ rest]
    have e: "home1 (ae_path e) = home0 (ae_path e)" "n \<le> n1 + 2" "ae_path e \<notin> ae_path ` set es" "\<forall>p. p \<noteq> ae_path e \<longrightarrow> home1 p = home p"
      using one Inr Cons.prems(3) by auto
    have i: "\<And>p. p \<notin> ae_path ` set es \<Longrightarrow> home' p = home1 p" "\<And>p. p \<in> ae_path ` set es \<Longrightarrow> home' p \<in> {home1 p, None, home0 p}"
      "\<And>n' p. r = Inr n' \<Longrightarrow> p \<in> ae_path ` set es \<Longrightarrow> home' p = home0 p" "\<And>n'. r = Inr n' \<Longrightarrow> n1 \<le> n' + 2 * length es"
      "2 * length es \<le> n1 \<Longrightarrow> \<exists>n'. r = Inr n'"
      using ih Cons.prems(1,3) by auto
    have r1': "home' p = home p" if "p \<notin> ae_path ` set (e # es)" for p using that i(1) [of p] e(4) by auto
    have r2: "home' p \<in> {home p, None, home0 p}" if "p \<in> ae_path ` set (e # es)" for p
      using that i(1,2) [of p] e by (cases "p = ae_path e") auto
    have r3: "home' p = home0 p" if "p \<in> ae_path ` set (e # es)" "r = Inr n'" for p n'
      using that i(1) [of p] i(3) [of n' p] e by (cases "p = ae_path e") auto
    have r4: "n \<le> n' + 2 * length (e # es)" if "r = Inr n'" for n' using i(4) [OF that] e(2) by simp
    have r5: "\<exists>n'. r = Inr n'" if "2 * length (e # es) \<le> n" using i(5) that e(2) by simp
    show ?thesis
      by (intro conjI allI ballI impI) (rule r1', assumption, rule r2, assumption, rule r3, assumption+, rule r4, assumption, rule r5, assumption)
  qed
qed auto

lemma unique_sorted_props: "sorted xs \<Longrightarrow> distinct (unique_sorted xs) \<and> set (unique_sorted xs) = set xs"
proof (induction xs rule: unique_sorted.induct)
  case (1 x y zs)
  then show ?case by (auto simp: less_le)
qed simp_all

subsection \<open>An application happens in whole or not at all\<close>

text \<open>The disk between the journal and its removal: the paths of the journal hold anything but a directory.\<close>

definition journaled :: "home_map \<Rightarrow> apply_journal \<Rightarrow> apply_disk \<Rightarrow> bool" where
  "journaled home0 j d \<longleftrightarrow>
     ad_journal d = Some j \<and> (\<forall>p. p \<notin> ae_path ` set (aj_entries j) \<longrightarrow> ad_home d p = home0 p) \<and>
     (\<forall>p \<in> ae_path ` set (aj_entries j). ad_home d p \<noteq> Some HDirectory)"

lemma recover_once:
  assumes "journaled home0 j d" "list_all (describes home0) (aj_entries j)" "plain_nodes home0" "distinct (map ae_path (aj_entries j))"
    "\<forall>e \<in> set (aj_entries j). parent_ok (ae_path e)" "size_of j \<le> mx + 1048576" "aj_repository j = rid" "aj_assignment j = aid"
    "recover_apply_journal size_of True parent_ok rid aid mx n d = (r, d')"
  shows "(journaled home0 j d' \<and> r \<noteq> None \<or> r = None \<and> ad_home d' = home0 \<and> ad_journal d' = None) \<and> (2 * length (aj_entries j) < n \<longrightarrow> r = None)"
proof -
  obtain q home where q: "restore_entries parent_ok (rev (aj_entries j)) n (ad_home d) = (q, home)"
    by (cases "restore_entries parent_ok (rev (aj_entries j)) n (ad_home d)")
  have j: "ad_journal d = Some j" using assms(1) by (simp add: journaled_def)
  have "distinct (map ae_path (rev (aj_entries j)))" using assms(4) by (metis distinct_rev rev_map)
  moreover have "list_all (describes home0) (rev (aj_entries j))" using assms(2) by (simp add: list_all_iff)
  moreover have "\<forall>e \<in> set (rev (aj_entries j)). parent_ok (ae_path e) \<and> ad_home d (ae_path e) \<noteq> Some HDirectory"
    using assms(1,5) by (auto simp: journaled_def)
  ultimately have all: "\<forall>p. p \<notin> ae_path ` set (aj_entries j) \<longrightarrow> home p = ad_home d p"
    "\<forall>p \<in> ae_path ` set (aj_entries j). home p \<in> {ad_home d p, None, home0 p}"
    "\<And>n'. q = Inr n' \<Longrightarrow> (\<forall>p \<in> ae_path ` set (aj_entries j). home p = home0 p) \<and> n \<le> n' + 2 * length (aj_entries j)"
    "2 * length (aj_entries j) \<le> n \<Longrightarrow> \<exists>n'. q = Inr n'"
    using restore_all [OF _ assms(3) _ _ q] by simp_all
  have nodir: "home0 p \<noteq> Some HDirectory" if "p \<in> ae_path ` set (aj_entries j)" for p
    using that assms(2) by (fastforce simp: list_all_iff describes_def)
  have still: "journaled home0 j (d\<lparr>ad_home := home\<rparr>)"
    using assms(1) all(1,2) nodir by (fastforce simp: journaled_def)
  have same: "home = home0" if "q = Inr n'" for n'
  proof
    fix p
    show "home p = home0 p"
    proof (cases "p \<in> ae_path ` set (aj_entries j)")
      case True
      then show ?thesis by (rule bspec [OF conjunct1 [OF all(3) [OF that]]])
    next
      case False
      then have "home p = ad_home d p" using all(1) by blast
      then show ?thesis using False assms(1) unfolding journaled_def by metis
    qed
  qed
  show ?thesis
  proof (cases q)
    case (Inl e)
    then show ?thesis using assms(6-9) q j still all(4) by (auto simp: recover_apply_journal_def)
  next
    case (Inr n')
    then show ?thesis
      using assms(6-9) q j still same [OF Inr] all(3) [OF Inr] by (auto simp: recover_apply_journal_def split: if_splits)
  qed
qed


subsection \<open>Samples\<close>

definition one_file :: "bytes \<Rightarrow> apply_disk" where
  "one_file b = \<lparr>ad_home = [''a'' \<mapsto> HRegular 384 b], ad_journal = None\<rparr>"

definition one_file_journal :: "bytes \<Rightarrow> apply_journal" where
  "one_file_journal b = \<lparr>aj_repository = ''r'', aj_assignment = ''s'', aj_revision = ''v'',
     aj_entries = [\<lparr>ae_path = ''a'', ae_existed = True, ae_mode = 384, ae_target = [], ae_content = b\<rparr>]\<rparr>"

lemma one_file_begun:
  assumes "int (length b) \<le> mx" "0 < mx"
  shows "begin_apply_journal (\<lambda>_. True) True ''/s/j'' ''/h'' ''r'' ''s'' ''v'' [''a''] mx (one_file b) =
    (None, (one_file b)\<lparr>ad_journal := Some (one_file_journal b)\<rparr>)"
proof -
  have p: "canonical_absolute_path ''/s/j''" "canonical_absolute_path ''/h''" "safe_relative_status_path ''a''"
    "same_or_inside_path (join_path ''/h'' ''a'') ''/h''" by code_simp+
  show ?thesis using assms by (simp add: begin_apply_journal_def p dedup_paths_def journal_entry_def one_file_def one_file_journal_def Let_def)
qed


text \<open>
  The bound on the contents of a journal is the bound on a batch, but the journal holds them in
  base64, and a start refuses a journal that is larger than this bound and a mebibyte.  A
  journal of four mebibytes is written and can never be read: the files stay half applied and
  no later start succeeds.
\<close>

definition base64_bytes :: "apply_journal \<Rightarrow> int" where
  "base64_bytes j = sum_list (map (\<lambda>e. 4 * ((int (length (ae_content e)) + 2) div 3)) (aj_entries j))"

lemma large_journal_blocks_recovery:
  assumes "length b = 4194304" "\<And>j. base64_bytes j \<le> size_of j"
  shows "\<exists>d. begin_apply_journal (\<lambda>_. True) True ''/s/j'' ''/h'' ''r'' ''s'' ''v'' [''a''] 4194304 (one_file b) = (None, d) \<and>
    (\<forall>n home. recover_apply_journal size_of True (\<lambda>_. True) ''r'' ''s'' 4194304 n (d\<lparr>ad_home := home\<rparr>) =
       (Some ErrApplyJournalInvalid, d\<lparr>ad_home := home\<rparr>))"
proof -
  have "5592408 \<le> size_of (one_file_journal b)"
    using assms(2) [of "one_file_journal b"] assms(1) by (simp add: base64_bytes_def one_file_journal_def)
  then show ?thesis using one_file_begun [of b 4194304] assms(1) by (simp add: recover_apply_journal_def)
qed

text \<open>A file with the \<open>setuid\<close> bit comes back without it.\<close>

lemma restore_drops_setuid:
  "create_entry \<lparr>ae_path = p, ae_existed = True, ae_mode = 8388608 + 493, ae_target = [], ae_content = b\<rparr> 1 home =
    (Inr 0, home(p \<mapsto> HRegular 493 b))"
  by (simp add: create_entry_def link_mode_def regular_mode_def perm_bits_def mode_symlink_def)

end
