(* ===== verification/Config_Workspace.thy ===== *)
theory Config_Workspace
  imports Apply_Journal
begin

section \<open>Reconciling a workspace\<close>

text \<open>
  Model of \<open>src/internal/configsync/workspace_reconciler.go\<close> and \<open>conflict_resolution.go\<close>:
  planning with frozen conflicts, merges and resolutions of the user, the baseline that waits
  for the publication, and the record of resolutions that survives a stop.  The git and
  \<open>chezmoi\<close> programs and the files they produce are answers of the environment: the manifest and
  the two snapshots, the contents a merge reads, the merge itself, and whether each step works.
\<close>

subsection \<open>Documents\<close>

text \<open>The roots of a baseline are \<open>None\<close> for a nil slice, which is not the same as an empty one.\<close>

record baseline =
  bl_repository :: string
  bl_assignment :: string
  bl_policy :: string
  bl_manifest :: string
  bl_roots :: "manifest_root list option"
  bl_frozen :: "frozen_path gomap"
  bl_remote :: string
  bl_files :: "file_state gomap"

record conflict_resolution =
  cr_id :: string
  cr_path :: string
  cr_conflict :: string
  cr_expected :: string
  cr_scope :: string
  cr_action :: string

record resolution_commit =
  rc_commit :: string
  rc_baseline :: baseline
  rc_resolutions :: "conflict_resolution list"

record pending_baseline =
  pb_commit :: string
  pb_value :: baseline
  pb_resolutions :: "conflict_resolution list"

record prepared_publication =
  pp_expected :: string
  pp_commit :: string
  pp_changes :: bool

datatype sync_error =
  ErrWorkspaceInvalid | ErrRemoteRevisionChanged | ErrBaselineInvalid | ErrSyncUncertain | ErrSource manifest_error | ErrSnapshot snapshot_error |
  ErrApply apply_error | ErrAuthorization | ErrLeaseLost | ErrConfigConflict | SyncFailure

definition safe_conflict_revision :: "string \<Rightarrow> bool" where
  "safe_conflict_revision v \<longleftrightarrow> length v = 64 \<and> list_all (\<lambda>c. c \<in> set ''0123456789abcdef'') v"

definition resolution_valid :: "conflict_resolution \<Rightarrow> bool" where
  "resolution_valid r \<longleftrightarrow>
     cr_id r \<noteq> [] \<and> safe_conflict_revision (cr_conflict r) \<and> cr_expected r \<noteq> [] \<and>
     (if cr_scope r = ''config'' then cr_path r = ''.'' \<and> (cr_action r = ''force_pull'' \<or> cr_action r = ''force_push'')
      else cr_scope r = ''path'' \<and> safe_relative_status_path (cr_path r) \<and>
        (cr_action r = ''keep_local'' \<or> cr_action r = ''keep_remote'' \<or> cr_action r = ''force_pull'' \<or> cr_action r = ''force_push''))"

fun roots_increasing :: "manifest_root list \<Rightarrow> bool" where
  "roots_increasing (a # b # rs) \<longleftrightarrow> mr_path a < mr_path b \<and> roots_increasing (b # rs)"
| "roots_increasing _ \<longleftrightarrow> True"

definition state_valid :: "string \<times> file_state \<Rightarrow> bool" where
  "state_valid ps =
     (safe_relative_status_path (fst ps) \<and> length (fs_hash (snd ps)) = 64 \<and> 0 \<le> fs_bytes (snd ps) \<and>
      (link_mode (fs_mode (snd ps)) \<longrightarrow> fs_target (snd ps) \<noteq> [] \<and> \<not> is_abs (fs_target (snd ps))))"

definition valid_baseline :: "glob_match \<Rightarrow> baseline \<Rightarrow> bool" where
  "valid_baseline glob b \<longleftrightarrow>
     bl_repository b \<noteq> [] \<and> bl_assignment b \<noteq> [] \<and> bl_policy b \<noteq> [] \<and> length (bl_manifest b) = 64 \<and> bl_remote b \<noteq> [] \<and>
     list_all (\<lambda>(p, f). safe_relative_status_path p \<and> fp_base f \<noteq> [] \<and> safe_conflict_revision (fp_conflict f)) (bl_frozen b) \<and>
     (case bl_roots b of
        None \<Rightarrow> False
      | Some rs \<Rightarrow> list_all (\<lambda>r. safe_manifest_path (mr_path r) \<and> \<not> manifest_hard_excluded glob (mr_path r)) rs \<and> roots_increasing rs) \<and>
     list_all state_valid (bl_files b)"

text \<open>\<open>append([]ManifestRoot(nil), roots...)\<close> copies roots, and gives nil for none.\<close>

definition copy_roots :: "manifest_root list \<Rightarrow> manifest_root list option" where
  "copy_roots rs = (if rs = [] then None else Some rs)"

subsection \<open>Merging conflicts\<close>

datatype merge_side = BaseSide | LocalSide | RemoteSide

record merge_env =
  me_git :: bool
  me_read :: "merge_side \<Rightarrow> string \<Rightarrow> (nat \<times> bytes) option"
  me_merge :: "bytes \<Rightarrow> bytes \<Rightarrow> bytes \<Rightarrow> bytes option"

definition read_verified_state :: "merge_env \<Rightarrow> int \<Rightarrow> merge_side \<Rightarrow> string \<Rightarrow> file_state \<Rightarrow> bytes option" where
  "read_verified_state env max_bytes side p expected =
     (if \<not> safe_relative_status_path p \<or> fs_bytes expected < 0 \<or> fs_bytes expected > max_bytes then None
      else case me_read env side p of
        None \<Rightarrow> None
      | Some (m, b) \<Rightarrow>
          if regular_mode m \<and> int (length b) = fs_bytes expected \<and> perm_bits m = perm_bits (fs_mode expected) \<and> hex_string (sha256 b) = fs_hash expected
          then Some b else None)"

definition merge_text :: "bytes \<Rightarrow> bool" where
  "merge_text b \<longleftrightarrow> utf8_valid (map unat b) \<and> 0 \<notin> set b"

definition merge_regular_text :: "merge_env \<Rightarrow> int \<Rightarrow> bytes \<Rightarrow> bytes \<Rightarrow> bytes \<Rightarrow> bytes option" where
  "merge_regular_text env max_bytes b l r =
     (if max_bytes < 1 \<or> int (length b) > max_bytes \<or> int (length l) > max_bytes \<or> int (length r) > max_bytes \<or>
         \<not> merge_text b \<or> \<not> merge_text l \<or> \<not> merge_text r then None
      else case me_merge env b l r of
        None \<Rightarrow> None
      | Some v \<Rightarrow> if int (length v) > max_bytes \<or> \<not> merge_text v then None else Some v)"

definition merge_one ::
    "merge_env \<Rightarrow> int \<Rightarrow> file_state gomap \<Rightarrow> file_state gomap \<Rightarrow> file_state gomap \<Rightarrow> string \<Rightarrow> string + bytes \<times> nat" where
  "merge_one env max_bytes base local remote p =
     (case (map_of base p, map_of local p, map_of remote p) of
        (Some bs, Some ls, Some rs) \<Rightarrow>
          if link_mode (fs_mode bs) \<or> link_mode (fs_mode ls) \<or> link_mode (fs_mode rs) then Inl ''type_change''
          else if perm_bits (fs_mode bs) \<noteq> perm_bits (fs_mode ls) \<or> perm_bits (fs_mode ls) \<noteq> perm_bits (fs_mode rs) then Inl ''mode_change''
          else (case (read_verified_state env max_bytes BaseSide p bs, read_verified_state env max_bytes LocalSide p ls,
                      read_verified_state env max_bytes RemoteSide p rs) of
                  (Some b, Some l, Some r) \<Rightarrow>
                    (case merge_regular_text env max_bytes b l r of
                       None \<Rightarrow> Inl ''merge_conflict''
                     | Some v \<Rightarrow> Inr (v, perm_bits (fs_mode ls)))
                | _ \<Rightarrow> Inl ''source_changed'')
      | _ \<Rightarrow> Inl ''delete_modify'')"

fun merge_conflicts ::
    "merge_env \<Rightarrow> int \<Rightarrow> file_state gomap \<Rightarrow> file_state gomap \<Rightarrow> file_state gomap \<Rightarrow> path_summary list \<Rightarrow>
     path_summary list \<times> (bytes \<times> nat) gomap" where
  "merge_conflicts env max_bytes base local remote [] = ([], [])"
| "merge_conflicts env max_bytes base local remote (c # cs) =
     (case merge_conflicts env max_bytes base local remote cs of
        (remaining, merged) \<Rightarrow>
          (case merge_one env max_bytes base local remote (ps_path c) of
             Inl reason \<Rightarrow> (c\<lparr>ps_reason := reason\<rparr> # remaining, merged)
           | Inr v \<Rightarrow> (remaining, (ps_path c, v) # merged)))"

subsection \<open>Resolutions of the user\<close>

record resolving =
  rs_base :: "file_state gomap"
  rs_frozen :: "frozen_path gomap"
  rs_forced :: "string gomap"
  rs_mode :: string
  rs_resolved :: "conflict_resolution list"

definition resolve_path ::
    "file_state gomap \<Rightarrow> file_state gomap \<Rightarrow> conflict_resolution \<Rightarrow> resolving \<Rightarrow> resolving" where
  "resolve_path local remote r s =
     (let base = (if cr_action r = ''keep_local'' \<or> cr_action r = ''force_push'' then set_baseline_state (rs_base s) (cr_path r) remote
                  else set_baseline_state (rs_base s) (cr_path r) local)
      in s\<lparr>rs_base := base,
           rs_forced := (if cr_action r = ''force_pull'' \<or> cr_action r = ''force_push''
                         then AList.update (cr_path r) (cr_action r) (rs_forced s) else rs_forced s),
           rs_resolved := rs_resolved s @ [r], rs_frozen := AList.delete (cr_path r) (rs_frozen s)\<rparr>)"

definition apply_resolution ::
    "string \<Rightarrow> file_state gomap \<Rightarrow> file_state gomap \<Rightarrow> path_summary list \<Rightarrow> resolving \<Rightarrow> conflict_resolution \<Rightarrow> resolving" where
  "apply_resolution revision local remote conflicts s r =
     (if \<not> resolution_valid r \<or> cr_expected r \<noteq> revision then s
      else if cr_scope r = ''config'' then
        (if cr_action r = ''force_pull'' then s\<lparr>rs_base := local, rs_mode := mode_pull_only, rs_resolved := rs_resolved s @ [r]\<rparr>
         else s\<lparr>rs_base := remote, rs_mode := mode_push_only, rs_resolved := rs_resolved s @ [r]\<rparr>)
      else if list_ex (\<lambda>c. cr_path r = ps_path c \<and> cr_conflict r = ps_revision c) conflicts then resolve_path local remote r s
      else s)"

subsection \<open>The plan of a reconciliation\<close>

record workspace_input =
  wi_descriptor :: runtime_descriptor
  wi_manages :: "string \<Rightarrow> bool"
  wi_base :: "file_state gomap"
  wi_base_revision :: string
  wi_frozen :: "frozen_path gomap"
  wi_local :: "file_state gomap"
  wi_remote :: "file_state gomap"
  wi_revision :: string
  wi_merge :: merge_env
  wi_resolutions :: "conflict_resolution list option"

definition writes_enabled :: "workspace_input \<Rightarrow> bool" where
  "writes_enabled i \<longleftrightarrow> rd_write_mode (wi_descriptor i) = ''leased_writes''"

definition effective_mode :: "workspace_input \<Rightarrow> string" where
  "effective_mode i =
     (if \<not> writes_enabled i \<and> rd_mode (wi_descriptor i) = mode_bidirectional then mode_pull_only else rd_mode (wi_descriptor i))"

definition without_publication :: "bool \<Rightarrow> reconcile_plan \<Rightarrow> reconcile_plan" where
  "without_publication writes plan = (if writes then plan else plan\<lparr>rp_updates := [], rp_deletes := []\<rparr>)"

definition first_plan :: "workspace_input \<Rightarrow> reconcile_plan" where
  "first_plan i =
     (let plan = without_publication (writes_enabled i) (plan_reconciliation_mode (wi_base i) (wi_local i) (wi_remote i) (effective_mode i))
      in if writes_enabled i \<and> effective_mode i \<noteq> mode_pull_only then
           plan\<lparr>rp_deletes := unique_sorted (sort (rp_deletes plan @ filter (\<lambda>p. \<not> wi_manages i p) (map fst (wi_base i))))\<rparr>
         else plan)"

text \<open>
  The plan with clean merges, and the merged contents.  The base revision is materialised for
  every conflict that is not frozen; that this works is a precondition of this function.
\<close>

definition merged_plan :: "workspace_input \<Rightarrow> reconcile_plan \<times> (bytes \<times> nat) gomap" where
  "merged_plan i =
     (let plan = first_plan i;
          (candidates, kept) = partition_frozen (wi_frozen i) (rp_conflicts plan);
          (remaining, merged) =
            (if writes_enabled i \<and> effective_mode i = mode_bidirectional \<and> candidates \<noteq> [] \<and> wi_base_revision i \<noteq> [] \<and> me_git (wi_merge i)
             then merge_conflicts (wi_merge i) (pl_max_file (rd_policy (wi_descriptor i))) (wi_base i) (wi_local i) (wi_remote i) candidates
             else (candidates, []))
      in (plan\<lparr>rp_updates := (if merged = [] then rp_updates plan else unique_sorted (sort (rp_updates plan @ map fst merged))),
               rp_conflicts := sort_key ps_path (kept @ remaining)\<rparr>, merged))"

definition identify :: "workspace_input \<Rightarrow> file_state gomap \<Rightarrow> path_summary list \<Rightarrow> path_summary list" where
  "identify i base cs =
     identify_conflicts (rd_repository (wi_descriptor i)) (rd_assignment (wi_descriptor i)) base (wi_local i) (wi_remote i) cs"

definition start_resolving :: "workspace_input \<Rightarrow> resolving" where
  "start_resolving i = \<lparr>rs_base = wi_base i, rs_frozen = wi_frozen i, rs_forced = [], rs_mode = [], rs_resolved = []\<rparr>"

definition run_resolutions :: "workspace_input \<Rightarrow> path_summary list \<Rightarrow> resolving" where
  "run_resolutions i conflicts =
     (case wi_resolutions i of
        None \<Rightarrow> start_resolving i
      | Some rs \<Rightarrow> foldl (apply_resolution (wi_revision i) (wi_local i) (wi_remote i) conflicts) (start_resolving i) rs)"

record workspace_plan =
  wp_plan :: reconcile_plan
  wp_merged :: "(bytes \<times> nat) gomap"
  wp_base :: "file_state gomap"
  wp_frozen :: "frozen_path gomap"
  wp_resolved :: "conflict_resolution list"

definition replan :: "workspace_input \<Rightarrow> resolving \<Rightarrow> reconcile_plan" where
  "replan i s =
     (let mode = (if mode_valid (rs_mode s) then rs_mode s else effective_mode i);
          plan = plan_reconciliation_mode (rs_base s) (wi_local i) (wi_remote i) mode;
          forced = foldl (\<lambda>pl (p, a). force_plan_path p a (wi_local i) (wi_remote i) pl) plan (rs_forced s)
      in without_publication (writes_enabled i) forced)"

definition plan_workspace :: "workspace_input \<Rightarrow> workspace_plan" where
  "plan_workspace i =
     (let (plan, merged) = merged_plan i
      in if rp_conflicts plan = [] \<and> wi_resolutions i = None then
           \<lparr>wp_plan = plan, wp_merged = merged, wp_base = wi_base i, wp_frozen = wi_frozen i, wp_resolved = []\<rparr>
         else let plan1 = plan\<lparr>rp_conflicts := identify i (wi_base i) (rp_conflicts plan)\<rparr>;
                  s = run_resolutions i (rp_conflicts plan1);
                  plan2 = (if rs_resolved s = [] then plan1
                           else let p = replan i s in p\<lparr>rp_conflicts := identify i (rs_base s) (rp_conflicts p)\<rparr>)
              in \<lparr>wp_plan = plan2, wp_merged = merged, wp_base = rs_base s, wp_frozen = rs_frozen s, wp_resolved = rs_resolved s\<rparr>)"


subsection \<open>What resolutions may do\<close>

definition pull_resolved :: "string \<Rightarrow> conflict_resolution list \<Rightarrow> string \<Rightarrow> bool" where
  "pull_resolved revision rs p \<longleftrightarrow>
     (\<exists>r \<in> set rs. resolution_valid r \<and> cr_expected r = revision \<and>
        (if cr_scope r = ''config'' then cr_action r = ''force_pull'' else cr_path r = p \<and> cr_action r \<in> {''keep_remote'', ''force_pull''}))"

definition push_resolved :: "string \<Rightarrow> conflict_resolution list \<Rightarrow> string \<Rightarrow> bool" where
  "push_resolved revision rs p \<longleftrightarrow>
     (\<exists>r \<in> set rs. resolution_valid r \<and> cr_expected r = revision \<and>
        (if cr_scope r = ''config'' then cr_action r = ''force_push'' else cr_path r = p \<and> cr_action r \<in> {''keep_local'', ''force_push''}))"

lemma resolved_snoc:
  "pull_resolved v rs p \<Longrightarrow> pull_resolved v (rs @ [r]) p" "push_resolved v rs p \<Longrightarrow> push_resolved v (rs @ [r]) p"
  by (auto simp: pull_resolved_def push_resolved_def)

definition resolving_inv :: "workspace_input \<Rightarrow> resolving \<Rightarrow> bool" where
  "resolving_inv i s \<longleftrightarrow>
     (\<forall>p. map_of (rs_base s) p = map_of (wi_base i) p \<or>
        map_of (rs_base s) p = map_of (wi_local i) p \<and> pull_resolved (wi_revision i) (rs_resolved s) p \<or>
        map_of (rs_base s) p = map_of (wi_remote i) p \<and> push_resolved (wi_revision i) (rs_resolved s) p) \<and>
     (\<forall>(p, a) \<in> set (rs_forced s). if a = ''force_pull'' then pull_resolved (wi_revision i) (rs_resolved s) p
        else push_resolved (wi_revision i) (rs_resolved s) p)"

lemma put_state_at: "map_of (put_state m p s) q = (if q = p then s else map_of m q)"
  by (auto simp: put_state_def update_conv' delete_conv' split: option.split)

lemma config_resolution:
  assumes "resolving_inv i s" "resolution_valid r" "cr_expected r = wi_revision i" "cr_scope r = ''config''"
    and "base = (if cr_action r = ''force_pull'' then wi_local i else wi_remote i)"
  shows "resolving_inv i (s\<lparr>rs_base := base, rs_mode := m, rs_resolved := rs_resolved s @ [r]\<rparr>)"
proof -
  have "if cr_action r = ''force_pull'' then pull_resolved (wi_revision i) (rs_resolved s @ [r]) p
        else push_resolved (wi_revision i) (rs_resolved s @ [r]) p" for p
    using assms(2-4) by (auto simp: pull_resolved_def push_resolved_def resolution_valid_def)
  then show ?thesis
    using assms(1,5) unfolding resolving_inv_def by (auto simp: resolved_snoc split: if_splits prod.splits)
qed

lemma path_resolution:
  assumes "resolving_inv i s" "resolution_valid r" "cr_expected r = wi_revision i" "cr_scope r \<noteq> ''config''"
  shows "resolving_inv i (resolve_path (wi_local i) (wi_remote i) r s)"
proof -
  let ?v = "wi_revision i" and ?rs = "rs_resolved s @ [r]" and ?push = "cr_action r = ''keep_local'' \<or> cr_action r = ''force_push''"
  have just: "if ?push then push_resolved ?v ?rs (cr_path r) else pull_resolved ?v ?rs (cr_path r)"
    using assms(2-4) by (auto simp: pull_resolved_def push_resolved_def resolution_valid_def)
  have base: "map_of (rs_base (resolve_path (wi_local i) (wi_remote i) r s)) p =
      (if p = cr_path r then map_of (if ?push then wi_remote i else wi_local i) p else map_of (rs_base s) p)" for p
    by (simp add: resolve_path_def Let_def set_baseline_state_def put_state_at)
  have res: "rs_resolved (resolve_path (wi_local i) (wi_remote i) r s) = ?rs" by (simp add: resolve_path_def Let_def)
  have forced: "if a = ''force_pull'' then pull_resolved ?v ?rs p else push_resolved ?v ?rs p"
    if "(p, a) \<in> set (rs_forced (resolve_path (wi_local i) (wi_remote i) r s))" for p a
  proof -
    have "(p, a) \<in> set (rs_forced s) \<or> p = cr_path r \<and> a = cr_action r \<and> (a = ''force_pull'' \<or> a = ''force_push'')"
      using that set_update_subset [of "cr_path r" "cr_action r" "rs_forced s"] by (auto simp: resolve_path_def Let_def split: if_splits)
    then show ?thesis using assms(1) just unfolding resolving_inv_def by (auto simp: resolved_snoc split: if_splits)
  qed
  show ?thesis
    using assms(1) just forced unfolding resolving_inv_def base res by (fastforce simp: resolved_snoc split: if_splits)
qed

lemma apply_resolution_inv:
  "resolving_inv i s \<Longrightarrow> resolving_inv i (apply_resolution (wi_revision i) (wi_local i) (wi_remote i) conflicts s r)"
  using config_resolution [of i s r] path_resolution [of i s r] by (auto simp: apply_resolution_def)

lemma run_resolutions_inv: "resolving_inv i (run_resolutions i conflicts)"
proof -
  have "resolving_inv i s \<Longrightarrow> resolving_inv i (foldl (apply_resolution (wi_revision i) (wi_local i) (wi_remote i) conflicts) s rs)" for s rs
    by (induction rs arbitrary: s) (simp_all add: apply_resolution_inv)
  moreover have "resolving_inv i (start_resolving i)" by (simp add: resolving_inv_def start_resolving_def)
  ultimately show ?thesis by (simp add: run_resolutions_def split: option.split)
qed


subsection \<open>What a plan overwrites\<close>

abbreviation pulled_paths :: "reconcile_plan \<Rightarrow> string set" where
  "pulled_paths plan \<equiv> set (rp_apply plan) \<union> set (rp_remove plan)"

abbreviation pushed_paths :: "reconcile_plan \<Rightarrow> string set" where
  "pushed_paths plan \<equiv> set (rp_updates plan) \<union> set (rp_deletes plan)"

lemma plan_paths:
  "pulled_paths (plan_reconciliation_mode base local remote mode) = {p. wants_apply mode base local remote p}"
  "pushed_paths (plan_reconciliation_mode base local remote mode) = {p. wants_publish mode base local remote p}"
  by (auto simp: plan_sets)

lemma without_publication_paths:
  "pulled_paths (without_publication writes plan) = pulled_paths plan" "pushed_paths (without_publication writes plan) \<subseteq> pushed_paths plan"
  by (simp_all add: without_publication_def)

lemma force_plan_paths:
  "pulled_paths (force_plan_path p a local remote plan) \<subseteq> pulled_paths plan \<union> (if a = ''force_pull'' then {p} else {})"
  "pushed_paths (force_plan_path p a local remote plan) \<subseteq> pushed_paths plan \<union> (if a = ''force_pull'' then {} else {p})"
  by (auto simp: force_plan_path_def Let_def)

lemma forced_plan_paths:
  "pulled_paths (foldl (\<lambda>pl (p, a). force_plan_path p a local remote pl) plan forced) \<subseteq> pulled_paths plan \<union> {p. (p, ''force_pull'') \<in> set forced} \<and>
   pushed_paths (foldl (\<lambda>pl (p, a). force_plan_path p a local remote pl) plan forced) \<subseteq>
     pushed_paths plan \<union> {p. \<exists>a. (p, a) \<in> set forced \<and> a \<noteq> ''force_pull''}"
proof (induction forced arbitrary: plan)
  case (Cons pa forced)
  obtain p a where pa: "pa = (p, a)" by (cases pa)
  let ?F = "force_plan_path p a local remote plan"
  let ?G = "foldl (\<lambda>pl (p, a). force_plan_path p a local remote pl) ?F forced"
  note f = force_plan_paths [of p a local remote plan] and g = Cons.IH [of ?F]
  have "q \<in> pulled_paths plan \<union> {q. (q, ''force_pull'') \<in> set (pa # forced)}" if "q \<in> pulled_paths ?G" for q
  proof -
    have "q \<in> pulled_paths ?F \<or> (q, ''force_pull'') \<in> set forced" using g that by blast
    then show ?thesis using f(1) pa by (cases "a = ''force_pull''") auto
  qed
  moreover have "q \<in> pushed_paths plan \<union> {q. \<exists>a. (q, a) \<in> set (pa # forced) \<and> a \<noteq> ''force_pull''}" if "q \<in> pushed_paths ?G" for q
  proof -
    have "q \<in> pushed_paths ?F \<or> (\<exists>a. (q, a) \<in> set forced \<and> a \<noteq> ''force_pull'')" using g that by blast
    then show ?thesis using f(2) pa by (cases "a = ''force_pull''") auto
  qed
  ultimately show ?case by (simp add: pa subset_iff)
qed simp

lemma replan_paths:
  assumes "resolving_inv i s"
  shows "p \<in> pulled_paths (replan i s) \<Longrightarrow> map_of (wi_local i) p = map_of (wi_base i) p \<or> pull_resolved (wi_revision i) (rs_resolved s) p"
    and "p \<in> pushed_paths (replan i s) \<Longrightarrow> map_of (wi_remote i) p = map_of (wi_base i) p \<or> push_resolved (wi_revision i) (rs_resolved s) p"
proof -
  let ?m = "if mode_valid (rs_mode s) then rs_mode s else effective_mode i"
  let ?pl = "plan_reconciliation_mode (rs_base s) (wi_local i) (wi_remote i) ?m"
  let ?f = "foldl (\<lambda>pl (p, a). force_plan_path p a (wi_local i) (wi_remote i) pl) ?pl (rs_forced s)"
  have r: "replan i s = without_publication (writes_enabled i) ?f" by (simp add: replan_def Let_def)
  note f = forced_plan_paths [of "wi_local i" "wi_remote i" ?pl "rs_forced s"] and inv = assms [unfolded resolving_inv_def]
  show "map_of (wi_local i) p = map_of (wi_base i) p \<or> pull_resolved (wi_revision i) (rs_resolved s) p" if "p \<in> pulled_paths (replan i s)"
  proof -
    have "wants_apply ?m (rs_base s) (wi_local i) (wi_remote i) p \<or> (p, ''force_pull'') \<in> set (rs_forced s)"
      using that f plan_paths(1) [of "rs_base s" "wi_local i" "wi_remote i" ?m] unfolding r without_publication_paths(1) by blast
    then show ?thesis using inv by (fastforce simp: wants_apply_def)
  qed
  show "map_of (wi_remote i) p = map_of (wi_base i) p \<or> push_resolved (wi_revision i) (rs_resolved s) p" if "p \<in> pushed_paths (replan i s)"
  proof -
    have "p \<in> pushed_paths ?f" using that without_publication_paths(2) unfolding r by blast
    then have "wants_publish ?m (rs_base s) (wi_local i) (wi_remote i) p \<or> (\<exists>a. (p, a) \<in> set (rs_forced s) \<and> a \<noteq> ''force_pull'')"
      using f plan_paths(2) [of "rs_base s" "wi_local i" "wi_remote i" ?m] by blast
    then show ?thesis using inv by (fastforce simp: wants_publish_def)
  qed
qed

lemma unique_sorted_set: "set (unique_sorted xs) = set xs"
  by (induction xs rule: unique_sorted.induct) auto

lemma first_plan_paths:
  "p \<in> pulled_paths (first_plan i) \<Longrightarrow> map_of (wi_local i) p = map_of (wi_base i) p"
  "p \<in> pushed_paths (first_plan i) \<Longrightarrow> map_of (wi_remote i) p = map_of (wi_base i) p \<or> map_of (wi_base i) p \<noteq> None \<and> \<not> wi_manages i p"
proof -
  let ?pl = "plan_reconciliation_mode (wi_base i) (wi_local i) (wi_remote i) (effective_mode i)"
  have "pulled_paths (first_plan i) = pulled_paths ?pl" by (simp add: first_plan_def Let_def without_publication_def)
  then show "p \<in> pulled_paths (first_plan i) \<Longrightarrow> map_of (wi_local i) p = map_of (wi_base i) p"
    using plan_paths(1) by (auto simp: wants_apply_def)
  have "pushed_paths (first_plan i) \<subseteq> pushed_paths ?pl \<union> {p \<in> fst ` set (wi_base i). \<not> wi_manages i p}"
    by (auto simp: first_plan_def Let_def without_publication_def unique_sorted_set)
  then show "p \<in> pushed_paths (first_plan i) \<Longrightarrow> map_of (wi_remote i) p = map_of (wi_base i) p \<or> map_of (wi_base i) p \<noteq> None \<and> \<not> wi_manages i p"
    using plan_paths(2) [of "wi_base i" "wi_local i" "wi_remote i" "effective_mode i"] by (auto simp: wants_publish_def map_of_eq_None_iff)
qed

text \<open>A merge whose three inputs are the contents that the three snapshots recorded.\<close>

definition merge_of :: "workspace_input \<Rightarrow> string \<Rightarrow> bytes \<Rightarrow> bool" where
  "merge_of i p v \<longleftrightarrow>
     (\<exists>b l r bs ls rs. map_of (wi_base i) p = Some bs \<and> map_of (wi_local i) p = Some ls \<and> map_of (wi_remote i) p = Some rs \<and>
        hex_string (sha256 b) = fs_hash bs \<and> hex_string (sha256 l) = fs_hash ls \<and> hex_string (sha256 r) = fs_hash rs \<and>
        me_merge (wi_merge i) b l r = Some v \<and> int (length v) \<le> pl_max_file (rd_policy (wi_descriptor i)))"

lemma read_verified_hash: "read_verified_state env n side p st = Some b \<Longrightarrow> hex_string (sha256 b) = fs_hash st"
  by (auto simp: read_verified_state_def split: if_splits option.splits)

lemma merge_one_merges:
  assumes "merge_one (wi_merge i) (pl_max_file (rd_policy (wi_descriptor i))) (wi_base i) (wi_local i) (wi_remote i) p = Inr (v, m)"
  shows "merge_of i p v"
  using assms unfolding merge_one_def merge_of_def merge_regular_text_def
  by (fastforce split: option.splits if_splits dest: read_verified_hash)

lemma merge_conflicts_merges:
  "merge_conflicts (wi_merge i) (pl_max_file (rd_policy (wi_descriptor i))) (wi_base i) (wi_local i) (wi_remote i) cs = (rest, ms) \<Longrightarrow>
   (p, v, m) \<in> set ms \<Longrightarrow> merge_of i p v"
  by (induction cs arbitrary: rest ms) (auto split: prod.splits sum.splits dest: merge_one_merges)

lemma merged_plan_parts:
  "pulled_paths (fst (merged_plan i)) = pulled_paths (first_plan i)"
  "pushed_paths (fst (merged_plan i)) = pushed_paths (first_plan i) \<union> fst ` set (snd (merged_plan i))"
  "(p, v, m) \<in> set (snd (merged_plan i)) \<Longrightarrow> merge_of i p v"
  by (auto simp: merged_plan_def Let_def unique_sorted_set split: prod.splits if_splits dest: merge_conflicts_merges)

lemma plan_workspace_shape:
  assumes "merged_plan i = (pl, ms)"
  shows "wp_merged (plan_workspace i) = ms"
    and "(\<exists>cs. wp_plan (plan_workspace i) = pl\<lparr>rp_conflicts := cs\<rparr>) \<or>
      (\<exists>cs cs'. wp_plan (plan_workspace i) = (replan i (run_resolutions i cs'))\<lparr>rp_conflicts := cs\<rparr> \<and>
         wp_resolved (plan_workspace i) = rs_resolved (run_resolutions i cs'))"
proof -
  show "wp_merged (plan_workspace i) = ms" using assms by (simp add: plan_workspace_def Let_def)
  have same: "\<exists>cs. pl = pl\<lparr>rp_conflicts := cs\<rparr>" by (rule exI [of _ "rp_conflicts pl"]) simp
  show "(\<exists>cs. wp_plan (plan_workspace i) = pl\<lparr>rp_conflicts := cs\<rparr>) \<or>
      (\<exists>cs cs'. wp_plan (plan_workspace i) = (replan i (run_resolutions i cs'))\<lparr>rp_conflicts := cs\<rparr> \<and>
         wp_resolved (plan_workspace i) = rs_resolved (run_resolutions i cs'))"
    using assms same by (cases "rp_conflicts pl = [] \<and> wi_resolutions i = None") (auto simp: plan_workspace_def Let_def)
qed

text \<open>
  C34: a reconciliation overwrites no change that was not synchronised.  Whatever the three
  states, the frozen conflicts, the merges and the resolutions are: a path the plan takes from
  the repository or removes locally has no local change, or the user resolved exactly this
  revision for the remote side; a path it publishes has no remote change, or it is merged, or
  it has left the manifest, or the user resolved this revision for the local side; and a merged
  content is the clean merge of the three contents whose digests the three states recorded.
\<close>

theorem unsynchronised_changes_survive:
  fixes i :: workspace_input
  defines "w \<equiv> plan_workspace i"
  shows "(\<forall>p \<in> pulled_paths (wp_plan w). map_of (wi_local i) p = map_of (wi_base i) p \<or> pull_resolved (wi_revision i) (wp_resolved w) p) \<and>
    (\<forall>p \<in> pushed_paths (wp_plan w). map_of (wi_remote i) p = map_of (wi_base i) p \<or> push_resolved (wi_revision i) (wp_resolved w) p \<or>
       p \<in> fst ` set (wp_merged w) \<or> map_of (wi_base i) p \<noteq> None \<and> \<not> wi_manages i p) \<and>
    (\<forall>(p, v, m) \<in> set (wp_merged w). merge_of i p v)"
proof -
  obtain pl ms where pl: "merged_plan i = (pl, ms)" by (cases "merged_plan i")
  note first = first_plan_paths [where i = i] and parts = merged_plan_parts [where i = i, unfolded pl fst_conv snd_conv]
  have merged: "wp_merged w = ms" using plan_workspace_shape(1) [OF pl] by (simp add: w_def)
  consider cs where "wp_plan w = pl\<lparr>rp_conflicts := cs\<rparr>"
    | s cs where "resolving_inv i s" "wp_plan w = (replan i s)\<lparr>rp_conflicts := cs\<rparr>" "wp_resolved w = rs_resolved s"
    using plan_workspace_shape(2) [OF pl] run_resolutions_inv unfolding w_def by blast
  then show ?thesis
  proof cases
    case 1
    then have "pulled_paths (wp_plan w) = pulled_paths pl" "pushed_paths (wp_plan w) = pushed_paths pl" by simp_all
    then show ?thesis using first parts unfolding merged by blast
  next
    case 2
    then have "pulled_paths (wp_plan w) = pulled_paths (replan i s)" "pushed_paths (wp_plan w) = pushed_paths (replan i s)" by simp_all
    then show ?thesis using replan_paths [OF 2(1)] parts(3) unfolding merged 2(3) by blast
  qed
qed


definition sample_state :: "nat \<Rightarrow> file_state" where
  "sample_state n = \<lparr>fs_hash = replicate 64 (CHR ''a''), fs_bytes = int n, fs_mode = 420, fs_target = []\<rparr>"

definition sample_input :: workspace_input where
  "sample_input =
     \<lparr>wi_descriptor = \<lparr>rd_write_mode = ''leased_writes'', rd_mode = mode_bidirectional, rd_repository = ''r'', rd_assignment = ''s'', rd_environment = ''e'',
        rd_helper = ''h'', rd_generation = 1, rd_floor = 0, rd_warning = [], rd_policy = sample_policy_limits\<rparr>,
      wi_manages = \<lambda>_. True, wi_base = [(''a'', sample_state 1), (''b'', sample_state 1)], wi_base_revision = ''v'', wi_frozen = [],
      wi_local = [(''a'', sample_state 1), (''b'', sample_state 3)], wi_remote = [(''a'', sample_state 2), (''b'', sample_state 1)], wi_revision = ''w'',
      wi_merge = \<lparr>me_git = True, me_read = \<lambda>_ _. None, me_merge = \<lambda>_ _ _. None\<rparr>, wi_resolutions = None\<rparr>"

lemma sample_plan:
  "wp_plan (plan_workspace sample_input) = \<lparr>rp_updates = [''b''], rp_deletes = [], rp_apply = [''a''], rp_remove = [], rp_conflicts = []\<rparr>"
  by code_simp

theorem unsynchronised_changes_survive_witness:
  "''a'' \<in> pulled_paths (wp_plan (plan_workspace sample_input)) \<and>
   (map_of (wi_local sample_input) ''a'' = map_of (wi_base sample_input) ''a'' \<or>
    pull_resolved (wi_revision sample_input) (wp_resolved (plan_workspace sample_input)) ''a'')"
proof -
  have "''a'' \<in> pulled_paths (wp_plan (plan_workspace sample_input))" by (simp add: sample_plan)
  then show ?thesis using unsynchronised_changes_survive [of sample_input] by blast
qed

subsection \<open>Where the reconciler falls short\<close>

lemma partition_frozen_paths:
  "partition_frozen frozen cs = (xs, ys) \<Longrightarrow> ps_path ` set xs \<subseteq> ps_path ` set cs \<and> ps_path ` set ys \<subseteq> ps_path ` set cs"
proof (induction cs arbitrary: xs ys)
  case (Cons c cs)
  obtain us vs where p: "partition_frozen frozen cs = (us, vs)" by (cases "partition_frozen frozen cs")
  show ?case using Cons.IH [OF p] Cons.prems by (cases "map_of frozen (ps_path c)") (auto simp: p image_subset_iff)
qed simp

lemma merge_conflicts_paths:
  "merge_conflicts env n base local remote cs = (rest, ms) \<Longrightarrow> ps_path ` set rest \<subseteq> ps_path ` set cs \<and> fst ` set ms \<subseteq> ps_path ` set cs"
proof (induction cs arbitrary: rest ms)
  case (Cons c cs)
  obtain us vs where m: "merge_conflicts env n base local remote cs = (us, vs)" by (cases "merge_conflicts env n base local remote cs")
  show ?case using Cons.IH [OF m] Cons.prems by (cases "merge_one env n base local remote (ps_path c)") (auto simp: m image_subset_iff)
qed simp

lemma first_plan_conflicts:
  "ps_path ` set (rp_conflicts (first_plan i)) = {p. in_conflict (effective_mode i) (wi_base i) (wi_local i) (wi_remote i) p}"
proof -
  let ?in = "in_conflict (effective_mode i) (wi_base i) (wi_local i) (wi_remote i)"
  have "rp_conflicts (first_plan i) = rp_conflicts (plan_reconciliation_mode (wi_base i) (wi_local i) (wi_remote i) (effective_mode i))"
    by (simp add: first_plan_def Let_def without_publication_def)
  then show ?thesis using wants_listed(3) [of "effective_mode i" "wi_base i" "wi_local i" "wi_remote i"]
    by (auto simp: plan_lists conflict_of_def conflict_at_def image_iff)
qed

lemma merged_plan_conflicts:
  assumes "merged_plan i = (pl, ms)"
  shows "ps_path ` set (rp_conflicts pl) \<union> fst ` set ms \<subseteq> {p. in_conflict (effective_mode i) (wi_base i) (wi_local i) (wi_remote i) p}"
proof -
  obtain xs ys where p: "partition_frozen (wi_frozen i) (rp_conflicts (first_plan i)) = (xs, ys)"
    by (cases "partition_frozen (wi_frozen i) (rp_conflicts (first_plan i))")
  obtain rest ms' where m: "merge_conflicts (wi_merge i) (pl_max_file (rd_policy (wi_descriptor i))) (wi_base i) (wi_local i) (wi_remote i) xs = (rest, ms')"
    by (cases "merge_conflicts (wi_merge i) (pl_max_file (rd_policy (wi_descriptor i))) (wi_base i) (wi_local i) (wi_remote i) xs")
  have sub: "set (rp_conflicts pl) \<subseteq> set ys \<union> set xs \<union> set rest" "set ms \<subseteq> set ms'"
    using assms by (auto simp: merged_plan_def Let_def p m split: if_splits)
  let ?C = "{p. in_conflict (effective_mode i) (wi_base i) (wi_local i) (wi_remote i) p}"
  have xy: "ps_path ` set xs \<subseteq> ?C" "ps_path ` set ys \<subseteq> ?C"
    using partition_frozen_paths [OF p] unfolding first_plan_conflicts by simp_all
  have rm: "ps_path ` set rest \<subseteq> ?C" "fst ` set ms' \<subseteq> ?C"
    using merge_conflicts_paths [OF m] xy(1) by (meson subset_trans)+
  have "ps_path ` set (rp_conflicts pl) \<subseteq> ps_path ` set ys \<union> ps_path ` set xs \<union> ps_path ` set rest"
    using image_mono [OF sub(1), of ps_path] by (simp add: image_Un)
  then show ?thesis using xy rm image_mono [OF sub(2), of fst] by (meson Un_least subset_trans)
qed

lemma resolved_in_conflict:
  "r \<in> set (rs_resolved (run_resolutions i cs)) \<Longrightarrow> cr_scope r = ''config'' \<or> cr_path r \<in> ps_path ` set cs"
proof -
  have step: "r \<in> set (rs_resolved (apply_resolution v local remote cs s x)) \<Longrightarrow>
      r \<in> set (rs_resolved s) \<or> cr_scope r = ''config'' \<or> cr_path r \<in> ps_path ` set cs" for v local remote s x
    by (auto simp: apply_resolution_def resolve_path_def Let_def list_ex_iff split: if_splits)
  have "r \<in> set (rs_resolved (foldl (apply_resolution v local remote cs) s rs)) \<Longrightarrow>
      r \<in> set (rs_resolved s) \<or> cr_scope r = ''config'' \<or> cr_path r \<in> ps_path ` set cs" for v local remote s rs
    by (induction rs arbitrary: s) (simp, use step in fastforce)
  then show "r \<in> set (rs_resolved (run_resolutions i cs)) \<Longrightarrow> ?thesis"
    by (fastforce simp: run_resolutions_def start_resolving_def split: option.splits)
qed

text \<open>
  A publication reconciles twice, without and with its lease.  When the first pass has taken
  the remote state of a path that the user resolved for the remote side, the second one finds
  no conflict there and leaves the resolution out: it is never acknowledged.
\<close>

lemma second_pass_drops_resolution:
  assumes "map_of (wi_local i) p = map_of (wi_remote i) p" "cr_scope r \<noteq> ''config''" "cr_path r = p"
  shows "r \<notin> set (wp_resolved (plan_workspace i))"
proof -
  obtain pl ms where pl: "merged_plan i = (pl, ms)" by (cases "merged_plan i")
  have "p \<notin> ps_path ` set (rp_conflicts pl)" using merged_plan_conflicts [OF pl] assms(1) by (auto simp: in_conflict_def)
  then have "p \<notin> ps_path ` set (identify i (wi_base i) (rp_conflicts pl))" by (auto simp: identify_def identify_conflicts_def)
  then show ?thesis
    using resolved_in_conflict [of r i "identify i (wi_base i) (rp_conflicts pl)"] assms(2,3) pl by (auto simp: plan_workspace_def Let_def)
qed


lemma forced_conflicts:
  "c \<in> set (rp_conflicts plan) \<Longrightarrow> ps_path c \<notin> fst ` set forced \<Longrightarrow>
   c \<in> set (rp_conflicts (foldl (\<lambda>pl (p, a). force_plan_path p a local remote pl) plan forced))"
proof (induction forced arbitrary: plan)
  case (Cons pa forced)
  then show ?case by (cases pa) (simp add: Cons.IH force_plan_path_def Let_def)
qed simp

text \<open>
  When a resolution of another path is carried out the plan is made again, without the merges:
  a merged content is still written to the home directory, but it is not published, and its
  path stays a conflict.
\<close>

lemma merge_is_not_published:
  assumes "merged_plan i = (pl, ms)" "p \<in> fst ` set ms" and s: "s = run_resolutions i (identify i (wi_base i) (rp_conflicts pl))"
    and "rs_resolved s \<noteq> []" "map_of (rs_base s) p = map_of (wi_base i) p" "rs_mode s = []" "p \<notin> fst ` set (rs_forced s)"
  shows "p \<in> fst ` set (wp_merged (plan_workspace i)) \<and> p \<notin> pushed_paths (wp_plan (plan_workspace i)) \<and>
    p \<in> ps_path ` set (rp_conflicts (wp_plan (plan_workspace i)))"
proof -
  let ?pl = "plan_reconciliation_mode (rs_base s) (wi_local i) (wi_remote i) (effective_mode i)"
  let ?f = "foldl (\<lambda>pl (p, a). force_plan_path p a (wi_local i) (wi_remote i) pl) ?pl (rs_forced s)"
  have mode: "\<not> mode_valid (rs_mode s)" by (simp add: assms(6) mode_valid_def mode_pull_only_def mode_push_only_def mode_bidirectional_def)
  have replan: "replan i s = without_publication (writes_enabled i) ?f" using mode by (simp add: replan_def Let_def)
  have in_c: "in_conflict (effective_mode i) (rs_base s) (wi_local i) (wi_remote i) p"
    using merged_plan_conflicts [OF assms(1)] assms(2,5) by (auto simp: in_conflict_def)
  have "conflict_of (effective_mode i) (wi_remote i) p \<in> set (rp_conflicts ?f)"
    using in_c wants_listed(3) [OF in_c] assms(7) by (intro forced_conflicts) (auto simp: plan_lists conflict_of_def conflict_at_def)
  then have "p \<in> ps_path ` set (rp_conflicts (replan i s))"
    by (force simp: replan without_publication_def conflict_of_def conflict_at_def)
  moreover have "p \<notin> pushed_paths (replan i s)"
  proof
    assume "p \<in> pushed_paths (replan i s)"
    then have "p \<in> pushed_paths ?f" using without_publication_paths(2) unfolding replan by (rule set_rev_mp)
    then have "p \<in> pushed_paths ?pl \<union> {p. \<exists>a. (p, a) \<in> set (rs_forced s) \<and> a \<noteq> ''force_pull''}"
      by (rule set_rev_mp) (rule conjunct2 [OF forced_plan_paths])
    then have "wants_publish (effective_mode i) (rs_base s) (wi_local i) (wi_remote i) p" unfolding plan_paths(2) using assms(7) by force
    then show False using in_c by (simp add: wants_publish_def in_conflict_def)
  qed
  moreover have "wp_plan (plan_workspace i) = (replan i s)\<lparr>rp_conflicts := identify i (rs_base s) (rp_conflicts (replan i s))\<rparr>"
    using assms(1,4) s by (cases "wi_resolutions i") (auto simp: plan_workspace_def Let_def run_resolutions_def start_resolving_def)
  ultimately show ?thesis
    using assms(2) plan_workspace_shape(1) [OF assms(1)] by (simp add: identify_def identify_conflicts_def image_image)
qed

end
