(* ===== verification/Config_Publication.thy ===== *)
theory Config_Publication
  imports Config_Workspace
begin

section \<open>Publishing a reconciled workspace\<close>

text \<open>
  Model of the stateful part of \<open>src/internal/configsync/workspace_reconciler.go\<close> and of
  \<open>publisher.go\<close>: a reconciliation leaves a baseline that waits for its publication, the
  resolutions of the user are journalled before the push and acknowledged after it, and a
  publication runs under a lease.  The documents on disk are records; a write that is atomic
  on disk happens in whole or not at all.  A stop of the machine between two writes leaves
  the same documents as a failure of the second one.
\<close>

subsection \<open>The state of a reconciler\<close>

text \<open>\<open>ws_acks\<close> records the acknowledgements that were sent, with the revision they named.\<close>

record workspace =
  ws_baseline :: "baseline option"
  ws_commit :: "resolution_commit option"
  ws_pending :: "pending_baseline option"
  ws_acks :: "(string \<times> string) list"

record publication_env =
  pe_authority :: bool
  pe_stat :: bool
  pe_read :: bool
  pe_write_commit :: bool
  pe_write_baseline :: bool
  pe_ack :: "string \<Rightarrow> bool"
  pe_remove :: bool

definition commit_valid :: "glob_match \<Rightarrow> resolution_commit \<Rightarrow> bool" where
  "commit_valid glob c \<longleftrightarrow>
     rc_commit c \<noteq> [] \<and> valid_baseline glob (rc_baseline c) \<and> rc_resolutions c \<noteq> [] \<and> list_all resolution_valid (rc_resolutions c)"

definition write_resolution_commit :: "glob_match \<Rightarrow> bool \<Rightarrow> resolution_commit \<Rightarrow> workspace \<Rightarrow> sync_error option \<times> workspace" where
  "write_resolution_commit glob writes c w =
     (if \<not> commit_valid glob c then (Some ErrBaselineInvalid, w)
      else if \<not> writes then (Some SyncFailure, w)
      else (None, w\<lparr>ws_commit := Some c\<rparr>))"

definition read_resolution_commit :: "glob_match \<Rightarrow> bool \<Rightarrow> resolution_commit \<Rightarrow> sync_error + resolution_commit" where
  "read_resolution_commit glob reads c = (if \<not> reads then Inl SyncFailure else if commit_valid glob c then Inr c else Inl ErrBaselineInvalid)"

definition write_baseline :: "glob_match \<Rightarrow> bool \<Rightarrow> baseline \<Rightarrow> workspace \<Rightarrow> sync_error option \<times> workspace" where
  "write_baseline glob writes b w =
     (if \<not> valid_baseline glob b then (Some ErrBaselineInvalid, w)
      else if \<not> writes then (Some SyncFailure, w)
      else (None, w\<lparr>ws_baseline := Some b\<rparr>))"

fun acknowledge_all :: "(string \<Rightarrow> bool) \<Rightarrow> string \<Rightarrow> conflict_resolution list \<Rightarrow> workspace \<Rightarrow> sync_error option \<times> workspace" where
  "acknowledge_all ack revision [] w = (None, w)"
| "acknowledge_all ack revision (r # rs) w =
     (let w' = w\<lparr>ws_acks := ws_acks w @ [(cr_id r, revision)]\<rparr>
      in if ack (cr_id r) then acknowledge_all ack revision rs w' else (Some SyncFailure, w'))"

definition publication_committed ::
    "glob_match \<Rightarrow> publication_env \<Rightarrow> prepared_publication \<Rightarrow> string \<Rightarrow> workspace \<Rightarrow> sync_error option \<times> workspace" where
  "publication_committed glob env prepared revision w =
     (case ws_pending w of
        None \<Rightarrow> (Some ErrBaselineInvalid, w)
      | Some pb \<Rightarrow>
          if pp_commit prepared = [] \<or> pb_commit pb \<noteq> pp_commit prepared \<or> revision \<noteq> pp_commit prepared then (Some ErrBaselineInvalid, w)
          else let rs = pb_resolutions pb;
                   written = (if rs = [] then (None, w)
                              else write_resolution_commit glob (pe_write_commit env)
                                \<lparr>rc_commit = revision, rc_baseline = pb_value pb, rc_resolutions = rs\<rparr> w)
               in case written of
                 (Some e, w1) \<Rightarrow> (Some e, w1)
               | (None, w1) \<Rightarrow>
                   (case write_baseline glob (pe_write_baseline env) (pb_value pb) w1 of
                      (Some e, w2) \<Rightarrow> (Some e, w2)
                    | (None, w2) \<Rightarrow>
                        (case (if pe_authority env then acknowledge_all (pe_ack env) revision rs w2 else (None, w2)) of
                           (Some e, w3) \<Rightarrow> (Some e, w3)
                         | (None, w3) \<Rightarrow>
                             if rs = [] then (None, w3\<lparr>ws_pending := None\<rparr>)
                             else if \<not> pe_remove env then (Some SyncFailure, w3)
                             else (None, w3\<lparr>ws_commit := None, ws_pending := None\<rparr>))))"

definition publication_prepared ::
    "glob_match \<Rightarrow> publication_env \<Rightarrow> prepared_publication \<Rightarrow> workspace \<Rightarrow> sync_error option \<times> workspace" where
  "publication_prepared glob env prepared w =
     (case ws_pending w of
        None \<Rightarrow> (Some ErrBaselineInvalid, w)
      | Some pb \<Rightarrow>
          if pp_commit prepared = [] \<or> pb_commit pb \<noteq> pp_commit prepared then (Some ErrBaselineInvalid, w)
          else if pb_resolutions pb = [] then (None, w)
          else write_resolution_commit glob (pe_write_commit env)
                 \<lparr>rc_commit = pp_commit prepared, rc_baseline = pb_value pb, rc_resolutions = pb_resolutions pb\<rparr> w)"

definition publication_aborted ::
    "glob_match \<Rightarrow> publication_env \<Rightarrow> prepared_publication \<Rightarrow> workspace \<Rightarrow> sync_error option \<times> workspace" where
  "publication_aborted glob env prepared w =
     (case ws_commit w of
        None \<Rightarrow> (if pe_stat env then None else Some SyncFailure, w)
      | Some c \<Rightarrow>
          if \<not> pe_stat env then (Some SyncFailure, w)
          else case read_resolution_commit glob (pe_read env) c of
            Inl e \<Rightarrow> (Some ErrBaselineInvalid, w)
          | Inr c \<Rightarrow>
              if rc_commit c \<noteq> pp_commit prepared then (Some ErrBaselineInvalid, w)
              else if \<not> pe_remove env then (Some SyncFailure, w)
              else (None, w\<lparr>ws_commit := None\<rparr>))"

definition recover_resolution_commit ::
    "glob_match \<Rightarrow> publication_env \<Rightarrow> runtime_descriptor \<Rightarrow> string \<Rightarrow> workspace \<Rightarrow> sync_error option \<times> workspace" where
  "recover_resolution_commit glob env d revision w =
     (case ws_commit w of
        None \<Rightarrow> (if pe_stat env then None else Some SyncFailure, w)
      | Some c \<Rightarrow>
          if \<not> pe_stat env then (Some SyncFailure, w)
          else case read_resolution_commit glob (pe_read env) c of
            Inl e \<Rightarrow> (Some ErrBaselineInvalid, w)
          | Inr c \<Rightarrow>
              if bl_repository (rc_baseline c) \<noteq> rd_repository d \<or> bl_assignment (rc_baseline c) \<noteq> rd_assignment d \<or>
                 bl_remote (rc_baseline c) \<noteq> rc_commit c then (Some ErrBaselineInvalid, w)
              else if revision \<noteq> rc_commit c then (Some ErrSyncUncertain, w)
              else (case write_baseline glob (pe_write_baseline env) (rc_baseline c) w of
                      (Some e, w1) \<Rightarrow> (Some e, w1)
                    | (None, w1) \<Rightarrow>
                        if \<not> pe_authority env then (Some ErrBaselineInvalid, w1)
                        else case acknowledge_all (pe_ack env) (rc_commit c) (rc_resolutions c) w1 of
                          (Some e, w2) \<Rightarrow> (Some e, w2)
                        | (None, w2) \<Rightarrow> if \<not> pe_remove env then (Some SyncFailure, w2) else (None, w2\<lparr>ws_commit := None\<rparr>)))"

subsection \<open>A reconciliation\<close>

text \<open>
  What the environment answers to one reconciliation, in the order of the calls: the working
  tree at the remote revision, the manifest, the two snapshots, the state of the baseline file,
  the base revision, the resolutions, keeping the conflicting contents, applying, preparing the
  commit, and the snapshot afterwards.  A change of the working tree is committed under a name.
\<close>

record reconcile_env =
  re_recover :: publication_env
  re_open :: "sync_error option"
  re_manifest :: "manifest_error + config_manifest"
  re_remote :: "sync_error + config_snapshot"
  re_local :: "sync_error + config_snapshot"
  re_stat :: bool
  re_read :: bool
  re_base :: "sync_error option"
  re_cancelled :: bool
  re_merge :: merge_env
  re_resolutions :: "(sync_error + conflict_resolution list) option"
  re_preserve :: "sync_error option"
  re_apply :: "sync_error option"
  re_stage :: "sync_error option"
  re_commit :: "sync_error + string option"
  re_after :: "sync_error + config_snapshot"

definition load_baseline :: "glob_match \<Rightarrow> reconcile_env \<Rightarrow> runtime_descriptor \<Rightarrow> workspace \<Rightarrow> sync_error + file_state gomap \<times> string \<times> frozen_path gomap" where
  "load_baseline glob env d w =
     (if \<not> re_stat env then Inl SyncFailure
      else case ws_baseline w of
        None \<Rightarrow> Inr ([], [], [])
      | Some b \<Rightarrow>
          if \<not> re_read env then Inl SyncFailure
          else if \<not> valid_baseline glob b then Inl ErrBaselineInvalid
          else if bl_repository b \<noteq> rd_repository d \<or> bl_assignment b \<noteq> rd_assignment d \<or> bl_policy b \<noteq> pl_revision (rd_policy d) then Inl ErrBaselineInvalid
          else Inr (bl_files b, bl_remote b, bl_frozen b))"

definition next_baseline ::
    "runtime_descriptor \<Rightarrow> config_manifest \<Rightarrow> workspace_input \<Rightarrow> workspace_plan \<Rightarrow> file_state gomap \<Rightarrow> file_state gomap \<Rightarrow> string \<Rightarrow> baseline" where
  "next_baseline d m i wp local remote revision =
     \<lparr>bl_repository = rd_repository d, bl_assignment = rd_assignment d, bl_policy = pl_revision (rd_policy d), bl_manifest = cm_revision m,
      bl_roots = copy_roots (cm_roots m), bl_frozen = next_frozen_paths (wp_frozen wp) (rp_conflicts (wp_plan wp)) (wi_base_revision i),
      bl_remote = revision,
      bl_files = freeze_conflict_baseline (wp_base wp) (rp_conflicts (wp_plan wp))
        (accepted_baseline (wp_base wp) local remote (rd_mode d) (writes_enabled i))\<rparr>"

definition workspace_input_of ::
    "glob_match \<Rightarrow> ignore_match \<Rightarrow> runtime_descriptor \<Rightarrow> reconcile_env \<Rightarrow> config_manifest \<Rightarrow> string \<Rightarrow>
     file_state gomap \<times> string \<times> frozen_path gomap \<Rightarrow> file_state gomap \<Rightarrow> file_state gomap \<Rightarrow> workspace_input" where
  "workspace_input_of glob ig d env m revision base local remote =
     \<lparr>wi_descriptor = d, wi_manages = \<lambda>p. manages glob ig m p False, wi_base = fst base, wi_base_revision = fst (snd base), wi_frozen = snd (snd base),
      wi_local = local, wi_remote = remote, wi_revision = revision, wi_merge = re_merge env,
      wi_resolutions = (case re_resolutions env of Some (Inr rs) \<Rightarrow> Some rs | _ \<Rightarrow> None)\<rparr>"

definition merge_candidates :: "workspace_input \<Rightarrow> path_summary list" where
  "merge_candidates i = fst (partition_frozen (wi_frozen i) (rp_conflicts (first_plan i)))"

text \<open>The calls that can fail between the snapshots and the commit; \<open>None\<close> when all of them work.\<close>

definition planning_error :: "reconcile_env \<Rightarrow> workspace_input \<Rightarrow> sync_error option" where
  "planning_error env i =
     (let materialised = merge_candidates i \<noteq> [] \<and> wi_base_revision i \<noteq> []; wp = plan_workspace i
      in if materialised \<and> re_base env \<noteq> None then re_base env
         else if materialised \<and> writes_enabled i \<and> effective_mode i = mode_bidirectional \<and> me_git (re_merge env) \<and> re_cancelled env then Some SyncFailure
         else case re_resolutions env of
           Some (Inl e) \<Rightarrow> Some e
         | _ \<Rightarrow>
             if list_ex (\<lambda>c. map_of (wp_frozen wp) (ps_path c) = None) (rp_conflicts (wp_plan wp)) \<and> re_preserve env \<noteq> None then re_preserve env
             else if re_apply env \<noteq> None then re_apply env
             else re_stage env)"

definition finish_reconcile ::
    "reconcile_env \<Rightarrow> runtime_descriptor \<Rightarrow> config_manifest \<Rightarrow> workspace_input \<Rightarrow> workspace \<Rightarrow> (sync_error + prepared_publication) \<times> workspace" where
  "finish_reconcile env d m i w =
     (let wp = plan_workspace i
      in case re_commit env of
           Inl e \<Rightarrow> (Inl e, w)
         | Inr committed \<Rightarrow>
             (case re_after env of
                Inl e \<Rightarrow> (Inl e, w)
              | Inr home \<Rightarrow>
                  (let revision = (case committed of None \<Rightarrow> wi_revision i | Some c \<Rightarrow> c);
                       remote = (case committed of None \<Rightarrow> wi_remote i | Some c \<Rightarrow> sn_files home)
                   in (Inr \<lparr>pp_expected = wi_revision i, pp_commit = revision, pp_changes = (committed \<noteq> None)\<rparr>,
                       w\<lparr>ws_pending := Some \<lparr>pb_commit = revision, pb_value = next_baseline d m i wp (sn_files home) remote revision,
                           pb_resolutions = wp_resolved wp\<rparr>\<rparr>))))"

definition reconcile ::
    "glob_match \<Rightarrow> ignore_match \<Rightarrow> runtime_descriptor \<Rightarrow> reconcile_env \<Rightarrow> string \<Rightarrow> string \<Rightarrow> workspace \<Rightarrow> (sync_error + prepared_publication) \<times> workspace" where
  "reconcile glob ig d env root revision w0 =
     (case recover_resolution_commit glob (re_recover env) d revision w0 of
        (Some e, w1) \<Rightarrow> (Inl e, w1)
      | (None, w1) \<Rightarrow>
          (let w = w1\<lparr>ws_pending := None\<rparr>
           in if \<not> canonical_absolute_path root \<or> revision = [] then (Inl ErrWorkspaceInvalid, w)
              else case re_open env of
                Some e \<Rightarrow> (Inl e, w)
              | None \<Rightarrow>
                  (case (re_manifest env, re_remote env, re_local env, load_baseline glob env d w) of
                     (Inl e, _, _, _) \<Rightarrow> (Inl (ErrSource e), w)
                   | (Inr m, Inl e, _, _) \<Rightarrow> (Inl e, w)
                   | (Inr m, Inr remote, Inl e, _) \<Rightarrow> (Inl e, w)
                   | (Inr m, Inr remote, Inr local, Inl e) \<Rightarrow> (Inl e, w)
                   | (Inr m, Inr remote, Inr local, Inr base) \<Rightarrow>
                       (let i = workspace_input_of glob ig d env m revision base (sn_files local) (sn_files remote)
                        in case planning_error env i of Some e \<Rightarrow> (Inl e, w) | None \<Rightarrow> finish_reconcile env d m i w))))"

subsection \<open>Resolutions survive stops\<close>

lemma acknowledge_all_keeps:
  "acknowledge_all ack v rs w = (e, w') \<Longrightarrow>
   ws_baseline w' = ws_baseline w \<and> ws_commit w' = ws_commit w \<and> ws_pending w' = ws_pending w \<and> set (ws_acks w) \<subseteq> set (ws_acks w') \<and>
   set (ws_acks w') \<subseteq> set (ws_acks w) \<union> (\<lambda>r. (cr_id r, v)) ` set rs \<and> (e = None \<longrightarrow> (\<lambda>r. (cr_id r, v)) ` set rs \<subseteq> set (ws_acks w'))"
proof (induction rs arbitrary: w)
  case (Cons r rs)
  show ?case
  proof (cases "ack (cr_id r)")
    case True
    then show ?thesis using Cons.IH [of "w\<lparr>ws_acks := ws_acks w @ [(cr_id r, v)]\<rparr>"] Cons.prems by (auto simp: Let_def)
  qed (use Cons.prems in \<open>auto simp: Let_def\<close>)
qed auto

lemma acknowledge_all_works: "(\<And>x. ack x) \<Longrightarrow> \<exists>w'. acknowledge_all ack v rs w = (None, w')"
  by (induction rs arbitrary: w) (simp_all add: Let_def)

text \<open>The resolutions of \<open>c\<close> are in the journal, or everything the journal is for is done.\<close>

definition resolutions_safe :: "resolution_commit \<Rightarrow> workspace \<Rightarrow> bool" where
  "resolutions_safe c w \<longleftrightarrow>
     ws_commit w = Some c \<or>
     ws_commit w = None \<and> ws_baseline w = Some (rc_baseline c) \<and> (\<forall>r \<in> set (rc_resolutions c). (cr_id r, rc_commit c) \<in> set (ws_acks w))"

text \<open>
  What may happen after a publication was prepared: the publication is reported, perhaps in
  part, the process starts again, or a reconciliation tries to recover.
\<close>

datatype attempt = Report publication_env | Restart | Recover publication_env string

fun attempt_step :: "glob_match \<Rightarrow> runtime_descriptor \<Rightarrow> prepared_publication \<Rightarrow> workspace \<Rightarrow> attempt \<Rightarrow> workspace" where
  "attempt_step glob d prepared w (Report env) = snd (publication_committed glob env prepared (pp_commit prepared) w)"
| "attempt_step glob d prepared w Restart = w\<lparr>ws_pending := None\<rparr>"
| "attempt_step glob d prepared w (Recover env revision) = snd (recover_resolution_commit glob env d revision w)"

fun with_authority :: "attempt \<Rightarrow> bool" where
  "with_authority (Report env) = pe_authority env"
| "with_authority Restart = True"
| "with_authority (Recover env revision) = pe_authority env"

definition commit_of :: "pending_baseline \<Rightarrow> resolution_commit" where
  "commit_of pb = \<lparr>rc_commit = pb_commit pb, rc_baseline = pb_value pb, rc_resolutions = pb_resolutions pb\<rparr>"

definition publication_safe :: "pending_baseline \<Rightarrow> workspace \<Rightarrow> bool" where
  "publication_safe pb w \<longleftrightarrow> resolutions_safe (commit_of pb) w \<and> (ws_pending w = None \<or> ws_pending w = Some pb)"

lemma write_outcomes:
  "write_resolution_commit glob b c w = (e, w') \<Longrightarrow> w' = (if e = None then w\<lparr>ws_commit := Some c\<rparr> else w)"
  "write_baseline glob b v w = (e, w') \<Longrightarrow> w' = (if e = None then w\<lparr>ws_baseline := Some v\<rparr> else w)"
  by (auto simp: write_resolution_commit_def write_baseline_def split: if_splits)

lemma report_safe:
  assumes "publication_safe pb w" "pe_authority env" "pb_resolutions pb \<noteq> []"
  shows "publication_safe pb (snd (publication_committed glob env prepared (pp_commit prepared) w))"
proof (cases "ws_pending w = Some pb \<and> pp_commit prepared \<noteq> [] \<and> pb_commit pb = pp_commit prepared")
  case True
  obtain e1 w1 where w1: "write_resolution_commit glob (pe_write_commit env) (commit_of pb) w = (e1, w1)" by fastforce
  obtain e2 w2 where w2: "write_baseline glob (pe_write_baseline env) (pb_value pb) w1 = (e2, w2)" by fastforce
  obtain e3 w3 where w3: "acknowledge_all (pe_ack env) (pp_commit prepared) (pb_resolutions pb) w2 = (e3, w3)" by fastforce
  have c: "\<lparr>rc_commit = pp_commit prepared, rc_baseline = pb_value pb, rc_resolutions = pb_resolutions pb\<rparr> = commit_of pb"
    using True by (simp add: commit_of_def)
  have res: "snd (publication_committed glob env prepared (pp_commit prepared) w) =
      (if e1 \<noteq> None then w1 else if e2 \<noteq> None then w2 else if e3 \<noteq> None \<or> \<not> pe_remove env then w3
       else w3\<lparr>ws_commit := None, ws_pending := None\<rparr>)"
    using True assms(2,3) w1 w2 w3 by (auto simp: publication_committed_def Let_def c split: option.splits)
  note k = write_outcomes(1) [OF w1] write_outcomes(2) [OF w2] acknowledge_all_keeps [OF w3]
  have safe1: "publication_safe pb w1" "e1 = None \<Longrightarrow> ws_commit w1 = Some (commit_of pb) \<and> ws_pending w1 = Some pb"
    using assms(1) True k(1) by (auto simp: publication_safe_def resolutions_safe_def)
  have safe2: "e1 = None \<Longrightarrow> ws_commit w2 = Some (commit_of pb) \<and> ws_pending w2 = Some pb" using safe1(2) k(2) by simp
  then have safe3: "e1 = None \<Longrightarrow> ws_commit w3 = Some (commit_of pb) \<and> ws_pending w3 = Some pb" using k(3) by simp
  have final: "publication_safe pb (w3\<lparr>ws_commit := None, ws_pending := None\<rparr>)" if "e2 = None" "e3 = None"
    using that k(2,3) True by (auto simp: publication_safe_def resolutions_safe_def commit_of_def)
  show ?thesis unfolding res using safe1(1) safe2 safe3 final by (auto simp: publication_safe_def resolutions_safe_def)
next
  case False
  then have "snd (publication_committed glob env prepared (pp_commit prepared) w) = w"
    using assms(1) by (auto simp: publication_safe_def publication_committed_def)
  then show ?thesis using assms(1) by simp
qed

lemma recover_outcome:
  assumes "recover_resolution_commit glob env d revision w = (e, w')"
  shows "w' = w \<or> (\<exists>c. ws_commit w = Some c \<and> ws_baseline w' = Some (rc_baseline c) \<and> ws_pending w' = ws_pending w \<and> set (ws_acks w) \<subseteq> set (ws_acks w') \<and>
    (ws_commit w' = Some c \<or> ws_commit w' = None \<and> (\<lambda>r. (cr_id r, rc_commit c)) ` set (rc_resolutions c) \<subseteq> set (ws_acks w')))"
proof (cases "ws_commit w")
  case (Some c)
  obtain e1 w1 where w1: "write_baseline glob (pe_write_baseline env) (rc_baseline c) w = (e1, w1)" by fastforce
  obtain e2 w2 where w2: "acknowledge_all (pe_ack env) (rc_commit c) (rc_resolutions c) w1 = (e2, w2)" by fastforce
  note k = write_outcomes(2) [OF w1] acknowledge_all_keeps [OF w2]
  have "w' = w \<or> e1 \<noteq> None \<and> w' = w1 \<or> e1 = None \<and> (w' = w1 \<or> w' = w2 \<or> e2 = None \<and> w' = w2\<lparr>ws_commit := None\<rparr>)"
    using assms w1 w2 by (auto simp: recover_resolution_commit_def read_resolution_commit_def Some split: if_splits option.splits)
  then show ?thesis using k Some by (auto split: if_splits)
qed (use assms in \<open>auto simp: recover_resolution_commit_def split: if_splits\<close>)

lemma attempt_safe:
  assumes "publication_safe pb w" "with_authority a" "pb_resolutions pb \<noteq> []"
  shows "publication_safe pb (attempt_step glob d prepared w a)"
proof (cases a)
  case (Recover env revision)
  obtain e w' where r: "recover_resolution_commit glob env d revision w = (e, w')" by fastforce
  show ?thesis using recover_outcome [OF r] assms(1) unfolding Recover attempt_step.simps r snd_conv
    by (auto simp: publication_safe_def resolutions_safe_def)
next
  case (Report env)
  then show ?thesis using report_safe assms by simp
qed (use assms in \<open>simp add: publication_safe_def resolutions_safe_def\<close>)

definition healthy_publication :: "publication_env \<Rightarrow> bool" where
  "healthy_publication env \<longleftrightarrow>
     pe_authority env \<and> pe_stat env \<and> pe_read env \<and> pe_write_commit env \<and> pe_write_baseline env \<and> pe_remove env \<and> (\<forall>x. pe_ack env x)"

lemma healthy_recovery:
  assumes "healthy_publication env" "ws_commit w = Some c" "commit_valid glob c"
    and "bl_repository (rc_baseline c) = rd_repository d" "bl_assignment (rc_baseline c) = rd_assignment d" "bl_remote (rc_baseline c) = rc_commit c"
  shows "\<exists>w'. recover_resolution_commit glob env d (rc_commit c) w = (None, w') \<and> ws_commit w' = None \<and> ws_baseline w' = Some (rc_baseline c) \<and>
    (\<forall>r \<in> set (rc_resolutions c). (cr_id r, rc_commit c) \<in> set (ws_acks w'))"
proof -
  have b: "write_baseline glob (pe_write_baseline env) (rc_baseline c) w = (None, w\<lparr>ws_baseline := Some (rc_baseline c)\<rparr>)"
    using assms(1,3) by (simp add: write_baseline_def commit_valid_def healthy_publication_def)
  obtain w2 where w2: "acknowledge_all (pe_ack env) (rc_commit c) (rc_resolutions c) (w\<lparr>ws_baseline := Some (rc_baseline c)\<rparr>) = (None, w2)"
    using acknowledge_all_works [of "pe_ack env"] assms(1) unfolding healthy_publication_def by blast
  have "recover_resolution_commit glob env d (rc_commit c) w = (None, w2\<lparr>ws_commit := None\<rparr>)"
    using assms b w2 by (simp add: recover_resolution_commit_def read_resolution_commit_def healthy_publication_def)
  then show ?thesis using acknowledge_all_keeps [OF w2] by auto
qed

lemma reconcile_pending:
  assumes "reconcile glob ig d env root revision w0 = (Inr prepared, w)"
  shows "\<exists>pb. ws_pending w = Some pb \<and> pb_commit pb = pp_commit prepared \<and> bl_repository (pb_value pb) = rd_repository d \<and>
    bl_assignment (pb_value pb) = rd_assignment d \<and> bl_remote (pb_value pb) = pb_commit pb \<and>
    (\<exists>m. re_manifest env = Inr m \<and> bl_roots (pb_value pb) = copy_roots (cm_roots m))"
  using assms unfolding reconcile_def finish_reconcile_def Let_def
  by (auto simp: next_baseline_def split: prod.splits option.splits sum.splits if_splits)

text \<open>
  C35: resolutions of the user survive stops.  Once a reconciliation that carries out
  resolutions has been journalled for its commit, let any number of reports, restarts and
  recoveries stop or fail at any write and at any acknowledgement: the first recovery that is
  not interrupted and sees the commit as the head of the repository succeeds, the baseline is
  the one of the commit, every resolution has been acknowledged with the commit, and the
  journal is gone.
\<close>

theorem resolutions_survive_stops:
  assumes "reconcile glob ig d env root revision w0 = (Inr prepared, w)" "ws_pending w = Some pb" "pb_resolutions pb \<noteq> []"
    and "publication_prepared glob penv prepared w = (None, w1)"
    and "w2 = foldl (attempt_step glob d prepared) w1 attempts" "\<forall>a \<in> set attempts. with_authority a"
    and "healthy_publication henv" "recover_resolution_commit glob henv d (pp_commit prepared) w2 = (r, w3)"
  shows "r = None \<and> ws_commit w3 = None \<and> ws_baseline w3 = Some (pb_value pb) \<and>
    (\<forall>x \<in> set (pb_resolutions pb). (cr_id x, pp_commit prepared) \<in> set (ws_acks w3))"
proof -
  let ?c = "commit_of pb"
  have pb: "pb_commit pb = pp_commit prepared" "bl_repository (pb_value pb) = rd_repository d" "bl_assignment (pb_value pb) = rd_assignment d"
    "bl_remote (pb_value pb) = pb_commit pb"
    using reconcile_pending [OF assms(1)] assms(2) by auto
  have "write_resolution_commit glob (pe_write_commit penv) ?c w = (None, w1)"
    using assms(2-4) pb(1) by (simp add: publication_prepared_def commit_of_def split: if_splits)
  then have w1: "w1 = w\<lparr>ws_commit := Some ?c\<rparr>" "commit_valid glob ?c" by (auto simp: write_resolution_commit_def split: if_splits)
  have "publication_safe pb w1" using w1(1) assms(2) by (simp add: publication_safe_def resolutions_safe_def)
  moreover have "publication_safe pb (foldl (attempt_step glob d prepared) v as)" if "publication_safe pb v" "\<forall>a \<in> set as. with_authority a" for v as
    using that by (induction as arbitrary: v) (simp_all add: attempt_safe assms(3))
  ultimately have "publication_safe pb w2" using assms(5,6) by blast
  then have "resolutions_safe ?c w2" by (simp add: publication_safe_def)
  then consider "ws_commit w2 = Some ?c"
    | "ws_commit w2 = None" "ws_baseline w2 = Some (pb_value pb)" "\<forall>x \<in> set (pb_resolutions pb). (cr_id x, pp_commit prepared) \<in> set (ws_acks w2)"
    using pb(1) by (auto simp: resolutions_safe_def commit_of_def)
  then show ?thesis
  proof cases
    case 1
    then show ?thesis using healthy_recovery [OF assms(7) 1 w1(2), of d] pb assms(8) by (simp add: commit_of_def)
  next
    case 2
    then show ?thesis using assms(7,8) by (simp add: recover_resolution_commit_def healthy_publication_def)
  qed
qed

definition all_well :: publication_env where
  "all_well = \<lparr>pe_authority = True, pe_stat = True, pe_read = True, pe_write_commit = True, pe_write_baseline = True, pe_ack = \<lambda>_. True, pe_remove = True\<rparr>"

definition sample_resolution :: conflict_resolution where
  "sample_resolution = \<lparr>cr_id = ''x'', cr_path = ''.'', cr_conflict = replicate 64 (CHR ''a''), cr_expected = ''w'', cr_scope = ''config'', cr_action = ''force_pull''\<rparr>"

text \<open>The user takes everything from the repository; nothing has to be published.\<close>

definition sample_reconcile :: reconcile_env where
  "sample_reconcile =
     \<lparr>re_recover = all_well, re_open = None,
      re_manifest = Inr \<lparr>cm_revision = replicate 64 (CHR ''b''), cm_roots = sample_roots, cm_patterns = []\<rparr>,
      re_remote = Inr \<lparr>sn_files = [(''a'', sample_state 2)], sn_skipped = []\<rparr>, re_local = Inr \<lparr>sn_files = [(''a'', sample_state 2)], sn_skipped = []\<rparr>,
      re_stat = True, re_read = True, re_base = None, re_cancelled = False,
      re_merge = \<lparr>me_git = True, me_read = \<lambda>_ _. None, me_merge = \<lambda>_ _ _. None\<rparr>, re_resolutions = Some (Inr [sample_resolution]), re_preserve = None,
      re_apply = None, re_stage = None, re_commit = Inr None, re_after = Inr \<lparr>sn_files = [(''a'', sample_state 2)], sn_skipped = []\<rparr>\<rparr>"

definition sample_workspace :: workspace where
  "sample_workspace = \<lparr>ws_baseline = None, ws_commit = None, ws_pending = None, ws_acks = []\<rparr>"

definition sample_pending :: pending_baseline where
  "sample_pending = \<lparr>pb_commit = ''w'', pb_value = \<lparr>bl_repository = ''r'', bl_assignment = ''s'', bl_policy = ''p'', bl_manifest = replicate 64 (CHR ''b''),
     bl_roots = Some sample_roots, bl_frozen = [], bl_remote = ''w'', bl_files = [(''a'', sample_state 2)]\<rparr>, pb_resolutions = [sample_resolution]\<rparr>"

definition sample_descriptor :: runtime_descriptor where
  "sample_descriptor = (wi_descriptor sample_input)\<lparr>rd_policy := sample_policy_limits\<lparr>pl_revision := ''p''\<rparr>\<rparr>"

definition sample_prepared :: prepared_publication where
  "sample_prepared = \<lparr>pp_expected = ''w'', pp_commit = ''w'', pp_changes = False\<rparr>"

lemma sample_valid:
  "resolution_valid sample_resolution" "valid_baseline no_glob (pb_value sample_pending)"
proof -
  have "safe_conflict_revision (replicate 64 (CHR ''a''))" by (simp add: safe_conflict_revision_def list_all_iff)
  then show "resolution_valid sample_resolution" by (simp add: resolution_valid_def sample_resolution_def)
  have paths: "safe_relative_status_path ''a''" "safe_manifest_path ''a''" "safe_manifest_path ''b''"
    "\<not> manifest_hard_excluded no_glob ''a''" "\<not> manifest_hard_excluded no_glob ''b''" "''a'' < (''b'' :: string)" by code_simp+
  show "valid_baseline no_glob (pb_value sample_pending)"
    using paths by (simp add: valid_baseline_def sample_pending_def sample_roots_def state_valid_def sample_state_def link_mode_def mode_symlink_def)
qed

lemma sample_resolved:
  "plan_workspace (workspace_input_of no_glob no_ignore sample_descriptor sample_reconcile m ''w'' ([], [], []) [(''a'', sample_state 2)] [(''a'', sample_state 2)]) =
     \<lparr>wp_plan = empty_plan, wp_merged = [], wp_base = [(''a'', sample_state 2)], wp_frozen = [], wp_resolved = [sample_resolution]\<rparr>"
proof -
  have "cr_expected sample_resolution = ''w''" "cr_scope sample_resolution = ''config''" "cr_action sample_resolution = ''force_pull''"
    by (simp_all add: sample_resolution_def)
  then show ?thesis using sample_valid(1)
    by (simp add: plan_workspace_def merged_plan_def first_plan_def plan_reconciliation_mode_def all_paths_def plan_step_def state_changed_def
        workspace_input_of_def sample_reconcile_def sample_descriptor_def sample_input_def writes_enabled_def effective_mode_def without_publication_def
        empty_plan_def run_resolutions_def start_resolving_def apply_resolution_def replan_def mode_valid_def identify_def identify_conflicts_def Let_def)
qed

lemma sample_reconciled:
  "reconcile no_glob no_ignore sample_descriptor sample_reconcile ''/repo'' ''w'' sample_workspace =
     (Inr sample_prepared, sample_workspace\<lparr>ws_pending := Some sample_pending\<rparr>)"
  "publication_prepared no_glob all_well sample_prepared (sample_workspace\<lparr>ws_pending := Some sample_pending\<rparr>) =
     (None, sample_workspace\<lparr>ws_pending := Some sample_pending, ws_commit := Some (commit_of sample_pending)\<rparr>)"
proof -
  show "publication_prepared no_glob all_well sample_prepared (sample_workspace\<lparr>ws_pending := Some sample_pending\<rparr>) =
     (None, sample_workspace\<lparr>ws_pending := Some sample_pending, ws_commit := Some (commit_of sample_pending)\<rparr>)"
    using sample_valid by (simp add: publication_prepared_def write_resolution_commit_def commit_valid_def commit_of_def all_well_def sample_prepared_def)
      (simp add: sample_pending_def)
  let ?fs = "[(''a'', sample_state 2)]" and ?m = "\<lparr>cm_revision = replicate 64 (CHR ''b''), cm_roots = sample_roots, cm_patterns = []\<rparr>"
  let ?i = "workspace_input_of no_glob no_ignore sample_descriptor sample_reconcile ?m ''w'' ([], [], []) ?fs ?fs"
  have sel: "re_recover sample_reconcile = all_well" "re_open sample_reconcile = None" "re_manifest sample_reconcile = Inr ?m"
    "re_remote sample_reconcile = Inr \<lparr>sn_files = ?fs, sn_skipped = []\<rparr>" "re_local sample_reconcile = Inr \<lparr>sn_files = ?fs, sn_skipped = []\<rparr>"
    "re_stat sample_reconcile" "re_resolutions sample_reconcile = Some (Inr [sample_resolution])" "re_apply sample_reconcile = None"
    "re_stage sample_reconcile = None" "re_commit sample_reconcile = Inr None" "re_after sample_reconcile = Inr \<lparr>sn_files = ?fs, sn_skipped = []\<rparr>"
    by (simp_all add: sample_reconcile_def)
  have inp: "wi_revision ?i = ''w''" "wi_remote ?i = ?fs" "wi_base_revision ?i = []" "writes_enabled ?i"
    by (simp_all add: workspace_input_of_def writes_enabled_def sample_descriptor_def sample_input_def)
  have pe: "planning_error sample_reconcile ?i = None"
    by (simp add: planning_error_def sample_resolved inp sel empty_plan_def Let_def)
  have d: "rd_repository sample_descriptor = ''r''" "rd_assignment sample_descriptor = ''s''" "pl_revision (rd_policy sample_descriptor) = ''p''"
    "rd_mode sample_descriptor = mode_bidirectional"
    by (simp_all add: sample_descriptor_def sample_input_def)
  have roots: "copy_roots sample_roots = Some sample_roots" by (simp add: copy_roots_def sample_roots_def)
  have fin: "finish_reconcile sample_reconcile sample_descriptor ?m ?i sample_workspace =
     (Inr sample_prepared, sample_workspace\<lparr>ws_pending := Some sample_pending\<rparr>)"
    by (simp add: finish_reconcile_def sample_resolved inp sel d Let_def sample_prepared_def sample_pending_def next_baseline_def
        roots next_frozen_paths_def freeze_conflict_baseline_def accepted_baseline_def empty_plan_def)
  have "canonical_absolute_path ''/repo''" by code_simp
  then show "reconcile no_glob no_ignore sample_descriptor sample_reconcile ''/repo'' ''w'' sample_workspace =
     (Inr sample_prepared, sample_workspace\<lparr>ws_pending := Some sample_pending\<rparr>)"
    using pe fin by (simp add: reconcile_def sel recover_resolution_commit_def sample_workspace_def all_well_def load_baseline_def)
qed

text \<open>The first report fails at its acknowledgement, and the process starts again.\<close>

theorem resolutions_survive_stops_witness:
  "\<exists>w3. recover_resolution_commit no_glob all_well sample_descriptor ''w''
      (foldl (attempt_step no_glob sample_descriptor sample_prepared)
        (sample_workspace\<lparr>ws_pending := Some sample_pending, ws_commit := Some (commit_of sample_pending)\<rparr>)
        [Report (all_well\<lparr>pe_ack := \<lambda>_. False\<rparr>), Restart]) = (None, w3) \<and>
    ws_baseline w3 = Some (pb_value sample_pending) \<and> (''x'', ''w'') \<in> set (ws_acks w3)"
proof -
  let ?w2 = "foldl (attempt_step no_glob sample_descriptor sample_prepared)
        (sample_workspace\<lparr>ws_pending := Some sample_pending, ws_commit := Some (commit_of sample_pending)\<rparr>)
        [Report (all_well\<lparr>pe_ack := \<lambda>_. False\<rparr>), Restart]"
  obtain r w3 where r: "recover_resolution_commit no_glob all_well sample_descriptor (pp_commit sample_prepared) ?w2 = (r, w3)" by fastforce
  have "r = None \<and> ws_commit w3 = None \<and> ws_baseline w3 = Some (pb_value sample_pending) \<and>
    (\<forall>x \<in> set (pb_resolutions sample_pending). (cr_id x, pp_commit sample_prepared) \<in> set (ws_acks w3))"
    by (rule resolutions_survive_stops [OF sample_reconciled(1) _ _ sample_reconciled(2) refl _ _ r])
      (simp_all add: sample_pending_def healthy_publication_def all_well_def)
  then show ?thesis using r by (simp add: sample_prepared_def sample_pending_def sample_resolution_def)
qed

subsection \<open>Where a publication gets stuck\<close>

text \<open>
  A stop between the journal of the resolutions and the push leaves a journal for a commit
  that the repository never gets.  So does a push that is followed by one of another machine
  before it is observed.  Every later reconciliation then refuses, whatever the head is.
\<close>

lemma unpublished_resolution_blocks_sync:
  assumes "ws_commit w = Some c" "revision \<noteq> rc_commit c"
  shows "\<exists>e. reconcile glob ig d env root revision w = (Inl e, w)"
  using assms by (auto simp: reconcile_def recover_resolution_commit_def read_resolution_commit_def)

text \<open>
  A manifest may select nothing.  The copy of its roots is then a nil slice, which the check of
  a baseline refuses: a reconciliation under an empty manifest can never be reported.
\<close>

lemma empty_manifest_never_commits:
  assumes "reconcile glob ig d env root revision w0 = (Inr prepared, w)" "re_manifest env = Inr m" "cm_roots m = []"
  shows "\<exists>w'. publication_committed glob penv prepared v w = (Some ErrBaselineInvalid, w')"
proof -
  obtain pb where pb: "ws_pending w = Some pb" "bl_roots (pb_value pb) = None"
    using reconcile_pending [OF assms(1)] assms(2,3) by (auto simp: copy_roots_def)
  then have "\<not> valid_baseline glob (pb_value pb)" by (simp add: valid_baseline_def)
  then show ?thesis using pb by (auto simp: publication_committed_def write_resolution_commit_def commit_valid_def write_baseline_def Let_def)
qed

end
