(* ===== verification/Config_Publisher.thy ===== *)
theory Config_Publisher
  imports Config_Publication
begin

section \<open>One publication under a lease\<close>

text \<open>
  Model of \<open>src/internal/configsync/publisher.go\<close> and of the leases in \<open>control_client.go\<close>.
  \<open>Sync\<close> is a function of the answers to its calls; it
  returns its result together with the calls that it made, in order, each with what it was
  given and the answer that matters.  Time is in nanoseconds.
\<close>

subsection \<open>Leases\<close>

record lease =
  le_id :: string
  le_repository :: string
  le_assignment :: string
  le_environment :: string
  le_helper :: string
  le_token :: int
  le_base :: string
  le_expires :: int

definition zero_lease :: lease where
  "zero_lease = \<lparr>le_id = [], le_repository = [], le_assignment = [], le_environment = [], le_helper = [], le_token = 0, le_base = [], le_expires = 0\<rparr>"

text \<open>What the control plane answers to a request for a lease; \<open>now\<close> is read when the answer has arrived.\<close>

definition lease_request :: "sync_credential \<Rightarrow> int \<Rightarrow> sync_error + lease \<Rightarrow> sync_error + lease" where
  "lease_request c now answer =
     (case answer of
        Inl e \<Rightarrow> Inl e
      | Inr l \<Rightarrow>
          if le_id l = [] \<or> le_repository l = [] \<or> le_token l < 1 \<or> le_assignment l \<noteq> sc_assignment c \<or> le_environment l \<noteq> sc_environment c \<or>
             le_helper l \<noteq> sc_helper c \<or> \<not> now < le_expires l then Inl SyncFailure
          else Inr l)"

definition acquire_lease :: "sync_credential \<Rightarrow> int \<Rightarrow> string \<Rightarrow> sync_error + lease \<Rightarrow> sync_error + lease" where
  "acquire_lease c now base answer =
     (case lease_request c now answer of
        Inl e \<Rightarrow> Inl e
      | Inr l \<Rightarrow> if le_base l \<noteq> trim_space base then Inl SyncFailure else Inr l)"

definition renew_lease :: "sync_credential \<Rightarrow> int \<Rightarrow> lease \<Rightarrow> sync_error + lease \<Rightarrow> sync_error + lease" where
  "renew_lease c now l answer =
     (case lease_request c now answer of
        Inl e \<Rightarrow> Inl e
      | Inr n \<Rightarrow>
          if le_id n \<noteq> le_id l \<or> le_repository n \<noteq> le_repository l \<or> le_assignment n \<noteq> le_assignment l \<or> le_environment n \<noteq> le_environment l \<or>
             le_helper n \<noteq> le_helper l \<or> le_token n \<noteq> le_token l \<or> le_base n \<noteq> le_base l then Inl SyncFailure
          else Inr n)"

subsection \<open>The publisher\<close>

record publisher =
  pu_ttl :: int
  pu_release :: int
  pu_margin :: int

definition new_publisher :: "publisher \<Rightarrow> publisher option" where
  "new_publisher c =
     (let ttl = (if pu_ttl c = 0 then 60 * second else pu_ttl c);
          release = (if pu_release c = 0 then 5 * second else pu_release c);
          margin = (if pu_margin c = 0 then 5 * second else pu_margin c)
      in if ttl < 15 * second \<or> ttl > 120 * second then None
         else if release \<le> 0 \<or> release > 30 * second then None
         else if margin < second \<or> margin \<ge> ttl then None
         else Some \<lparr>pu_ttl = ttl, pu_release = release, pu_margin = margin\<rparr>)"

record publish_result =
  pr_revision :: string
  pr_landed :: bool
  pr_uncertain :: bool

definition no_result :: publish_result where
  "no_result = \<lparr>pr_revision = [], pr_landed = False, pr_uncertain = False\<rparr>"

datatype sync_call =
  Fetched string | FetchFailed | Authorised | NotAuthorised | Reconciled string prepared_publication | ReconcileFailed string |
  Acquired lease | AcquireFailed | Renewed lease | RenewFailed lease | Journalled prepared_publication | JournalFailed prepared_publication |
  Published prepared_publication int | Aborted prepared_publication | Observed string | Reported prepared_publication string | Released lease

record publisher_env =
  pn_credential :: sync_credential
  pn_fetch1 :: "sync_error + string"
  pn_authorised1 :: bool
  pn_reconcile1 :: "sync_error + prepared_publication"
  pn_reported1 :: "sync_error option"
  pn_acquire :: "sync_error + lease"
  pn_acquired_at :: int
  pn_fetch2 :: "sync_error + string"
  pn_reconcile2 :: "sync_error + prepared_publication"
  pn_reported2 :: "sync_error option"
  pn_renew :: "sync_error + lease"
  pn_renewed_at :: int
  pn_now :: int
  pn_authorised2 :: bool
  pn_fetch3 :: "sync_error + string"
  pn_journalled :: "sync_error option"
  pn_publish :: "publish_result \<times> sync_error option"
  pn_reported3 :: "sync_error option"
  pn_observed :: "sync_error + bool \<times> string"
  pn_reported4 :: "sync_error option"
  pn_released :: "sync_error option"

text \<open>Reporting a publication to the reconciler; the result counts only when the report works.\<close>

definition report ::
    "prepared_publication \<Rightarrow> string \<Rightarrow> sync_error option \<Rightarrow> publish_result \<Rightarrow> (publish_result \<times> sync_error option) \<times> sync_call list" where
  "report prepared revision answer res =
     ((case answer of Some e \<Rightarrow> (no_result, Some e) | None \<Rightarrow> (res, None)), [Reported prepared revision])"

definition sync_push :: "publisher_env \<Rightarrow> prepared_publication \<Rightarrow> lease \<Rightarrow> (publish_result \<times> sync_error option) \<times> sync_call list" where
  "sync_push env prepared l =
     (let (published, err) = pn_publish env; calls = [Published prepared (le_token l)];
          tail = (if err = None \<and> pr_landed published \<and> \<not> pr_uncertain published \<and> pr_revision published \<noteq> []
                  then report prepared (pr_revision published) (pn_reported3 env) published
                  else if err \<noteq> None \<and> \<not> pr_uncertain published then ((no_result, err), [Aborted prepared])
                  else case pn_observed env of
                    Inl e \<Rightarrow> ((no_result\<lparr>pr_uncertain := True\<rparr>, Some ErrSyncUncertain), [Observed (pp_commit prepared)])
                  | Inr (landed, revision) \<Rightarrow>
                      if landed then map_prod id ((#) (Observed (pp_commit prepared)))
                        (report prepared revision (pn_reported4 env) \<lparr>pr_revision = revision, pr_landed = True, pr_uncertain = False\<rparr>)
                      else ((\<lparr>pr_revision = revision, pr_landed = False, pr_uncertain = True\<rparr>, Some ErrSyncUncertain), [Observed (pp_commit prepared)]))
      in map_prod id ((@) calls) tail)"

text \<open>The part between renewing the lease and the push, then the push.\<close>

definition sync_renewed ::
    "publisher \<Rightarrow> publisher_env \<Rightarrow> prepared_publication \<Rightarrow> lease \<Rightarrow> (publish_result \<times> sync_error option) \<times> sync_call list" where
  "sync_renewed p env prepared l =
     (if \<not> pn_now env < le_expires l - pu_margin p then ((no_result, Some ErrLeaseLost), [])
      else if \<not> pn_authorised2 env then ((no_result, Some ErrAuthorization), [NotAuthorised])
      else case pn_fetch3 env of
        Inl e \<Rightarrow> ((no_result, Some e), [Authorised, FetchFailed])
      | Inr current \<Rightarrow>
          if current \<noteq> pp_expected prepared then ((no_result, Some ErrRemoteRevisionChanged), [Authorised, Fetched current])
          else case pn_journalled env of
            Some e \<Rightarrow> ((no_result, Some e), [Authorised, Fetched current, JournalFailed prepared])
          | None \<Rightarrow> map_prod id ((@) [Authorised, Fetched current, Journalled prepared]) (sync_push env prepared l))"

text \<open>
  Under the lease.  The lease that is released at the end is the one the variable holds then:
  a failed renewal has replaced it by the zero lease.
\<close>

definition sync_leased ::
    "publisher \<Rightarrow> publisher_env \<Rightarrow> string \<Rightarrow> lease \<Rightarrow> ((publish_result \<times> sync_error option) \<times> sync_call list) \<times> lease" where
  "sync_leased p env revision l =
     (case pn_fetch2 env of
        Inl e \<Rightarrow> (((no_result, Some e), [FetchFailed]), l)
      | Inr verified \<Rightarrow>
          if verified \<noteq> revision \<or> le_base l \<noteq> revision then (((no_result, Some ErrRemoteRevisionChanged), [Fetched verified]), l)
          else case pn_reconcile2 env of
            Inl e \<Rightarrow> (((no_result, Some e), [Fetched verified, ReconcileFailed verified]), l)
          | Inr prepared \<Rightarrow>
              (let calls = [Fetched verified, Reconciled verified prepared]
               in if \<not> pp_changes prepared then
                    (map_prod id ((@) calls)
                      (report prepared verified (pn_reported2 env) \<lparr>pr_revision = verified, pr_landed = True, pr_uncertain = False\<rparr>), l)
                  else if pp_expected prepared \<noteq> revision \<or> pp_commit prepared = [] then (((no_result, Some ErrRemoteRevisionChanged), calls), l)
                  else case renew_lease (pn_credential env) (pn_renewed_at env) l (pn_renew env) of
                    Inl e \<Rightarrow> (((no_result, Some e), calls @ [RenewFailed l]), zero_lease)
                  | Inr l' \<Rightarrow> (map_prod id ((@) (calls @ [Renewed l'])) (sync_renewed p env prepared l'), l')))"

definition sync :: "publisher \<Rightarrow> publisher_env \<Rightarrow> (publish_result \<times> sync_error option) \<times> sync_call list" where
  "sync p env =
     (case pn_fetch1 env of
        Inl e \<Rightarrow> ((no_result, Some e), [FetchFailed])
      | Inr revision \<Rightarrow>
          if revision = [] then ((no_result, Some ErrRemoteRevisionChanged), [Fetched revision])
          else if \<not> pn_authorised1 env then ((no_result, Some ErrAuthorization), [Fetched revision, NotAuthorised])
          else case pn_reconcile1 env of
            Inl e \<Rightarrow> ((if e = ErrConfigConflict then no_result\<lparr>pr_revision := revision\<rparr> else no_result, Some e),
                      [Fetched revision, Authorised, ReconcileFailed revision])
          | Inr prepared \<Rightarrow>
              (let calls = [Fetched revision, Authorised, Reconciled revision prepared]
               in if \<not> pp_changes prepared then
                    map_prod id ((@) calls)
                      (report prepared revision (pn_reported1 env) \<lparr>pr_revision = revision, pr_landed = True, pr_uncertain = False\<rparr>)
                  else case acquire_lease (pn_credential env) (pn_acquired_at env) revision (pn_acquire env) of
                    Inl e \<Rightarrow> ((no_result, Some e), calls @ [AcquireFailed])
                  | Inr l \<Rightarrow>
                      (case sync_leased p env revision l of
                         (((res, err), rest), l') \<Rightarrow>
                           ((res, if err = None then pn_released env else err), calls @ [Acquired l] @ rest @ [Released l']))))"

subsection \<open>What precedes a push\<close>

fun is_push :: "sync_call \<Rightarrow> bool" where
  "is_push (Published _ _) = True"
| "is_push _ = False"

lemmas sync_parts = report_def no_result_def Let_def

lemma sync_push_calls:
  assumes "sync_push env prepared l = ((res, err), calls)"
  shows "\<exists>tail. calls = Published prepared (le_token l) # tail \<and> list_all (Not \<circ> is_push) tail \<and>
    (pr_landed res \<longrightarrow> Reported prepared (pr_revision res) \<in> set tail)"
  using assms by (cases "pn_publish env") (auto simp: sync_push_def sync_parts split: if_splits sum.splits option.splits prod.splits)

lemma sync_renewed_calls:
  assumes "sync_renewed p env prepared l = ((res, err), calls)"
  shows "list_all (Not \<circ> is_push) calls \<and> \<not> pr_landed res \<or>
    (\<exists>tail. calls = [Authorised, Fetched (pp_expected prepared), Journalled prepared, Published prepared (le_token l)] @ tail \<and> list_all (Not \<circ> is_push) tail \<and>
       (pr_landed res \<longrightarrow> Reported prepared (pr_revision res) \<in> set tail) \<and> pn_now env + pu_margin p < le_expires l)"
proof (cases "sync_push env prepared l")
  case (Pair r more_calls)
  obtain res' err' where r: "r = (res', err')" by (cases r)
  show ?thesis using assms sync_push_calls [OF Pair [unfolded r]] Pair r
    by (auto simp: sync_renewed_def no_result_def split: if_splits sum.splits option.splits)
qed

lemma renew_lease_same:
  "renew_lease c now l answer = Inr n \<Longrightarrow> le_id n = le_id l \<and> le_token n = le_token l \<and> le_base n = le_base l \<and> 1 \<le> le_token n"
  by (auto simp: renew_lease_def lease_request_def split: sum.splits if_splits)

definition leased_push :: "publisher \<Rightarrow> publisher_env \<Rightarrow> string \<Rightarrow> lease \<Rightarrow> lease \<Rightarrow> publish_result \<Rightarrow> sync_call list \<Rightarrow> bool" where
  "leased_push p env v l l' res calls \<longleftrightarrow>
     (\<exists>prepared tail.
        calls = [Fetched v, Reconciled v prepared, Renewed l', Authorised, Fetched v, Journalled prepared, Published prepared (le_token l)] @ tail \<and>
        list_all (Not \<circ> is_push) tail \<and> (pr_landed res \<longrightarrow> Reported prepared (pr_revision res) \<in> set tail) \<and>
        pp_expected prepared = v \<and> pp_commit prepared \<noteq> [] \<and> pp_changes prepared \<and>
        le_base l = v \<and> le_id l' = le_id l \<and> le_token l' = le_token l \<and> 1 \<le> le_token l \<and> pn_now env + pu_margin p < le_expires l')"

lemma sync_leased_calls:
  assumes "sync_leased p env v l = (((res, err), calls), l')"
  shows "list_all (Not \<circ> is_push) calls \<or> leased_push p env v l l' res calls"
proof (cases "pn_fetch2 env = Inr v \<and> le_base l = v \<and> (\<exists>prepared n. pn_reconcile2 env = Inr prepared \<and> pp_changes prepared \<and>
    pp_expected prepared = v \<and> pp_commit prepared \<noteq> [] \<and> renew_lease (pn_credential env) (pn_renewed_at env) l (pn_renew env) = Inr n)")
  case True
  then obtain prepared n where t: "pn_fetch2 env = Inr v" "le_base l = v" "pn_reconcile2 env = Inr prepared" "pp_changes prepared"
    "pp_expected prepared = v" "pp_commit prepared \<noteq> []" "renew_lease (pn_credential env) (pn_renewed_at env) l (pn_renew env) = Inr n" by blast
  obtain res' err' calls' where r: "sync_renewed p env prepared n = ((res', err'), calls')" by (cases "sync_renewed p env prepared n") auto
  have eq: "res = res'" "l' = n" "calls = [Fetched v, Reconciled v prepared, Renewed n] @ calls'"
    using assms t r by (auto simp: sync_leased_def Let_def)
  show ?thesis using sync_renewed_calls [OF r] renew_lease_same [OF t(7)] t unfolding eq leased_push_def by auto
next
  case False
  then show ?thesis using assms by (auto simp: sync_leased_def sync_parts split: if_splits sum.splits)
qed

text \<open>
  C36: a push is fenced.  Whatever the repository, the control plane and the reconciler answer,
  a run of \<open>Sync\<close> that pushes has made exactly these calls before: it fetched a head, was
  authorised, reconciled with that head, acquired a lease for it, found the same head again,
  reconciled again with it, renewed the same lease, which has more than the margin left, was
  authorised again, found the head a third time, and journalled the publication it pushes with
  the fencing token of the lease.  It pushes once, reports a landing only after reporting it to
  the reconciler, and its last call releases the lease.
\<close>

theorem push_is_fenced:
  assumes "sync p env = ((res, err), calls)" "Published prepared token \<in> set calls"
  shows "\<exists>v first l l' tail.
    calls = [Fetched v, Authorised, Reconciled v first, Acquired l, Fetched v, Reconciled v prepared, Renewed l', Authorised, Fetched v,
             Journalled prepared, Published prepared token] @ tail @ [Released l'] \<and>
    list_all (Not \<circ> is_push) tail \<and> (pr_landed res \<longrightarrow> Reported prepared (pr_revision res) \<in> set tail) \<and>
    v \<noteq> [] \<and> pp_expected prepared = v \<and> pp_commit prepared \<noteq> [] \<and> le_base l = v \<and>
    le_id l' = le_id l \<and> le_token l = token \<and> le_token l' = token \<and> 1 \<le> token \<and> pn_now env + pu_margin p < le_expires l'"
proof -
  have push: "\<not> list_all (Not \<circ> is_push) calls" using assms(2) by (force simp: list_all_iff)
  obtain v first l where c: "pn_fetch1 env = Inr v" "v \<noteq> []" "pn_authorised1 env" "pn_reconcile1 env = Inr first" "pp_changes first"
    "acquire_lease (pn_credential env) (pn_acquired_at env) v (pn_acquire env) = Inr l"
    using assms(1) push by (auto simp: sync_def sync_parts split: if_splits sum.splits)
  obtain res' err' rest l' where s: "sync_leased p env v l = (((res', err'), rest), l')"
    by (cases "sync_leased p env v l") auto
  have eq: "res = res'" "calls = [Fetched v, Authorised, Reconciled v first, Acquired l] @ rest @ [Released l']"
    using assms(1) c s by (auto simp: sync_def Let_def)
  have "leased_push p env v l l' res rest" using sync_leased_calls [OF s] push unfolding eq by (auto simp: list_all_iff)
  then show ?thesis using assms(2) c(2) unfolding eq leased_push_def by (fastforce simp: list_all_iff)
qed

definition sample_lease :: lease where
  "sample_lease = \<lparr>le_id = ''l'', le_repository = ''r'', le_assignment = ''s'', le_environment = ''e'', le_helper = ''h'', le_token = 7, le_base = ''v'', le_expires = 100\<rparr>"

definition sample_run :: publisher_env where
  "sample_run =
     \<lparr>pn_credential = \<lparr>sc_value = ''c'', sc_environment = ''e'', sc_helper = ''h'', sc_assignment = ''s'', sc_warning = [], sc_expires = None\<rparr>,
      pn_fetch1 = Inr ''v'', pn_authorised1 = True, pn_reconcile1 = Inr \<lparr>pp_expected = ''v'', pp_commit = ''w'', pp_changes = True\<rparr>, pn_reported1 = None,
      pn_acquire = Inr sample_lease, pn_acquired_at = 1, pn_fetch2 = Inr ''v'',
      pn_reconcile2 = Inr \<lparr>pp_expected = ''v'', pp_commit = ''x'', pp_changes = True\<rparr>, pn_reported2 = None,
      pn_renew = Inr (sample_lease\<lparr>le_expires := 200\<rparr>), pn_renewed_at = 2, pn_now = 3, pn_authorised2 = True, pn_fetch3 = Inr ''v'', pn_journalled = None,
      pn_publish = (\<lparr>pr_revision = ''x'', pr_landed = True, pr_uncertain = False\<rparr>, None), pn_reported3 = None, pn_observed = Inl SyncFailure,
      pn_reported4 = None, pn_released = None\<rparr>"

theorem push_is_fenced_witness:
  "\<exists>res calls v first l l' tail. sync \<lparr>pu_ttl = 60, pu_release = 5, pu_margin = 5\<rparr> sample_run = ((res, None), calls) \<and> pr_landed res \<and>
    calls = [Fetched v, Authorised, Reconciled v first, Acquired l, Fetched v, Reconciled v \<lparr>pp_expected = ''v'', pp_commit = ''x'', pp_changes = True\<rparr>,
      Renewed l', Authorised, Fetched v, Journalled \<lparr>pp_expected = ''v'', pp_commit = ''x'', pp_changes = True\<rparr>,
      Published \<lparr>pp_expected = ''v'', pp_commit = ''x'', pp_changes = True\<rparr> 7] @ tail @ [Released l']"
proof -
  obtain res err calls where r: "sync \<lparr>pu_ttl = 60, pu_release = 5, pu_margin = 5\<rparr> sample_run = ((res, err), calls)"
    by (cases "sync \<lparr>pu_ttl = 60, pu_release = 5, pu_margin = 5\<rparr> sample_run") auto
  have "(case sync \<lparr>pu_ttl = 60, pu_release = 5, pu_margin = 5\<rparr> sample_run of ((res, err), calls) \<Rightarrow>
      err = None \<and> pr_landed res \<and> Published \<lparr>pp_expected = ''v'', pp_commit = ''x'', pp_changes = True\<rparr> 7 \<in> set calls)"
    by code_simp
  then have k: "err = None" "pr_landed res" "Published \<lparr>pp_expected = ''v'', pp_commit = ''x'', pp_changes = True\<rparr> 7 \<in> set calls" by (simp_all add: r)
  show ?thesis using push_is_fenced [OF r k(3)] r k(1,2) by blast
qed

text \<open>A renewal that fails leaves the zero lease in its variable: the lease that was acquired is never released.\<close>

lemma failed_renewal_keeps_lease:
  assumes "sync p env = ((res, err), calls)" "RenewFailed l \<in> set calls" "pn_renew env = Inl e"
  shows "last calls = Released zero_lease"
proof -
  have "l' = zero_lease" if "sync_leased p env v k = (((res', err'), rest), l')" "RenewFailed l \<in> set rest" for v k res' err' rest l'
    using that assms(3) by (auto simp: sync_leased_def sync_parts renew_lease_def lease_request_def split: if_splits sum.splits)
  then show ?thesis using assms(1,2)
    by (auto simp: sync_def sync_parts split: if_splits sum.splits prod.splits)
qed

text \<open>
  A push whose answer is lost may have landed below a head that another machine has pushed
  since.  The publisher reports that head, and the reconciler takes only the commit itself.
\<close>

lemma landed_below_head_is_refused:
  "head \<noteq> pp_commit prepared \<Longrightarrow> publication_committed glob env prepared head w = (Some ErrBaselineInvalid, w)"
  by (simp add: publication_committed_def split: option.split)

end
