(* ===== verification/Commit_Search.thy ===== *)
theory Commit_Search
  imports Prelude
begin

section \<open>Whether a commit has landed\<close>

text \<open>
  Model of \<open>commitReachable\<close> in \<open>src/internal/configsync/git_repository.go\<close>, which decides whether
  a push with an unknown outcome has landed: a search from the head over the parents, bounded
  by the number of commits it looks at.  The repository is a map from commits to their parents;
  a commit that is not there is an error.
\<close>

subsection \<open>The search\<close>

type_synonym 'h history = "'h \<Rightarrow> 'h list option"

text \<open>\<open>Parents().ForEach\<close>: each parent is read; the one that is wanted ends the iteration.\<close>

fun each_parent :: "'h history \<Rightarrow> 'h \<Rightarrow> 'h list \<Rightarrow> bool option" where
  "each_parent parents want [] = Some False"
| "each_parent parents want (p # ps) = (if parents p = None then None else if p = want then Some True else each_parent parents want ps)"

function reach_loop :: "'h history \<Rightarrow> 'h \<Rightarrow> nat \<Rightarrow> 'h list \<Rightarrow> 'h list \<Rightarrow> bool option" where
  "reach_loop parents want limit queue seen =
     (case queue of
        [] \<Rightarrow> Some (want \<in> set seen)
      | h # rest \<Rightarrow>
          if limit \<le> length seen then Some (want \<in> set seen)
          else if h \<in> set seen then reach_loop parents want limit rest seen
          else case parents h of
            None \<Rightarrow> None
          | Some ps \<Rightarrow>
              (case each_parent parents want ps of
                 None \<Rightarrow> None
               | Some True \<Rightarrow> Some True
               | Some False \<Rightarrow> reach_loop parents want limit (rest @ ps) (h # seen)))"
  by pat_completeness auto
termination
  by (relation "measures [\<lambda>(_, _, limit, _, seen). limit - length seen, \<lambda>(_, _, _, queue, _). length queue]") auto

declare reach_loop.simps [simp del]

lemma reach_loop_step [simp]:
  "reach_loop parents want limit [] seen = Some (want \<in> set seen)"
  "limit \<le> length seen \<Longrightarrow> reach_loop parents want limit (h # rest) seen = Some (want \<in> set seen)"
  "\<not> limit \<le> length seen \<Longrightarrow> h \<in> set seen \<Longrightarrow> reach_loop parents want limit (h # rest) seen = reach_loop parents want limit rest seen"
  "\<not> limit \<le> length seen \<Longrightarrow> h \<notin> set seen \<Longrightarrow> reach_loop parents want limit (h # rest) seen =
     (case parents h of
        None \<Rightarrow> None
      | Some ps \<Rightarrow>
          (case each_parent parents want ps of
             None \<Rightarrow> None
           | Some b \<Rightarrow> if b then Some True else reach_loop parents want limit (rest @ ps) (h # seen)))"
  by (subst reach_loop.simps, simp split: option.split bool.split)+

definition commit_reachable :: "'h history \<Rightarrow> 'h \<Rightarrow> 'h \<Rightarrow> nat \<Rightarrow> bool option" where
  "commit_reachable parents want head limit = (if want = head then Some True else reach_loop parents want limit [head] [])"

subsection \<open>The search is exact\<close>

inductive_set ancestry :: "'h history \<Rightarrow> 'h \<Rightarrow> 'h set" for parents head where
  self: "head \<in> ancestry parents head"
| parent: "h \<in> ancestry parents head \<Longrightarrow> parents h = Some ps \<Longrightarrow> p \<in> set ps \<Longrightarrow> p \<in> ancestry parents head"

lemma ancestry_parents: "h \<in> ancestry parents head \<Longrightarrow> parents h = Some ps \<Longrightarrow> set ps \<subseteq> ancestry parents head"
  by (auto intro: ancestry.parent)

lemma each_parent_found: "each_parent parents want ps = Some b \<Longrightarrow> b \<longleftrightarrow> want \<in> set ps"
  by (induction ps) (auto split: if_splits)

lemma each_parent_total: "\<forall>p \<in> set ps. parents p \<noteq> None \<Longrightarrow> each_parent parents want ps = Some (want \<in> set ps)"
  by (induction ps) auto

lemma reach_loop_sound:
  assumes "reach_loop parents want limit queue seen = Some True" "set queue \<union> set seen \<subseteq> ancestry parents head"
  shows "want \<in> ancestry parents head"
  using assms
proof (induction parents want limit queue seen rule: reach_loop.induct)
  case (1 parents want limit queue seen)
  show ?case
  proof (cases queue)
    case Nil
    then show ?thesis using "1.prems" by auto
  next
    case (Cons h rest)
    consider "limit \<le> length seen" | "\<not> limit \<le> length seen" "h \<in> set seen"
      | ps b where "\<not> limit \<le> length seen" "h \<notin> set seen" "parents h = Some ps" "each_parent parents want ps = Some b"
      using "1.prems"(1) Cons by (cases "limit \<le> length seen"; cases "h \<in> set seen") (auto split: option.splits)
    then show ?thesis
    proof cases
      case 1
      then show ?thesis using "1.prems" Cons by auto
    next
      case 2
      then show ?thesis using "1.IH"(1) [OF Cons] "1.prems" Cons by auto
    next
      case (3 ps b)
      have ps: "set ps \<subseteq> ancestry parents head" using ancestry_parents 3(3) "1.prems"(2) Cons by (metis Un_iff list.set_intros(1) subsetD)
      show ?thesis
      proof (cases b)
        case True
        then show ?thesis using each_parent_found [OF 3(4)] ps by blast
      next
        case False
        then have "reach_loop parents want limit (rest @ ps) (h # seen) = Some True"
          using "1.prems"(1) Cons 3 by simp
        then show ?thesis using "1.IH"(2) [OF Cons 3(1,2,3,4)] False "1.prems"(2) Cons ps by auto
      qed
    qed
  qed
qed

lemma reach_loop_complete:
  assumes "\<forall>h \<in> ancestry parents head. parents h \<noteq> None" "finite (ancestry parents head)" "card (ancestry parents head) \<le> limit"
    and "set queue \<union> set seen \<subseteq> ancestry parents head" "head \<in> set queue \<union> set seen" "want \<notin> set queue \<union> set seen" "distinct seen"
    and "\<forall>h \<in> set seen. \<forall>p \<in> set (the (parents h)). p \<in> set queue \<union> set seen"
  shows "reach_loop parents want limit queue seen = Some (want \<in> ancestry parents head)"
  using assms
proof (induction parents want limit queue seen rule: reach_loop.induct)
  case (1 parents want limit queue seen)
  let ?R = "ancestry parents head"
  show ?case
  proof (cases queue)
    case Nil
    have "x \<in> set seen" if "x \<in> ?R" for x
      using that by induction (use "1.prems"(5,8) Nil in force)+
    then have "want \<notin> ?R" using "1.prems"(6) by auto
    then show ?thesis using Nil "1.prems"(6) by simp
  next
    case (Cons h rest)
    have h: "h \<in> ?R" using "1.prems"(4) Cons by simp
    then obtain ps where ps: "parents h = Some ps" using "1.prems"(1) by blast
    have sub: "set ps \<subseteq> ?R" using h ps by (rule ancestry_parents)
    consider "limit \<le> length seen" | "\<not> limit \<le> length seen" "h \<in> set seen" | "\<not> limit \<le> length seen" "h \<notin> set seen" by blast
    then show ?thesis
    proof cases
      case 1
      then have "card ?R \<le> card (set seen)" using "1.prems"(3,7) by (simp add: distinct_card)
      then have "set seen = ?R" using "1.prems"(2,4) by (simp add: card_seteq)
      then show ?thesis using Cons 1 "1.prems"(6) by simp
    next
      case 2
      have "\<forall>x \<in> set seen. \<forall>p \<in> set (the (parents x)). p \<in> set rest \<union> set seen" using "1.prems"(8) 2(2) Cons by auto
      then have "reach_loop parents want limit rest seen = Some (want \<in> ?R)"
        using "1.prems"(1-7) 2(2) Cons by (intro "1.IH"(1) [OF Cons 2]) auto
      then show ?thesis using Cons 2 by simp
    next
      case 3
      have e: "each_parent parents want ps = Some (want \<in> set ps)" by (rule each_parent_total) (use sub "1.prems"(1) in auto)
      show ?thesis
      proof (cases "want \<in> set ps")
        case True
        then show ?thesis using 3 Cons ps e sub by auto
      next
        case False
        then have "reach_loop parents want limit (rest @ ps) (h # seen) = Some (want \<in> ?R)"
        proof (intro "1.IH"(2) [OF Cons 3 ps e])
          show "set (rest @ ps) \<union> set (h # seen) \<subseteq> ?R" using "1.prems"(4) Cons sub by simp
          show "head \<in> set (rest @ ps) \<union> set (h # seen)" "want \<notin> set (rest @ ps) \<union> set (h # seen)" using "1.prems"(5,6) Cons False by auto
          show "\<forall>x \<in> set (h # seen). \<forall>p \<in> set (the (parents x)). p \<in> set (rest @ ps) \<union> set (h # seen)"
            using "1.prems"(8) Cons ps by auto
        qed (use "1.prems"(1-3,7) 3 False in simp_all)
        then show ?thesis using 3 Cons ps e False by simp
      qed
    qed
  qed
qed

text \<open>
  C37: the search for a commit always ends, a commit that it reports as landed is an ancestor of
  the head, and it is exact when all ancestors of the head are there and no more than the
  limit: the answer is then whether the commit is the head or one of its ancestors.
\<close>

theorem commit_search_exact:
  shows "(commit_reachable parents want head limit = Some True \<longrightarrow> want \<in> ancestry parents head) \<and>
    ((\<forall>h \<in> ancestry parents head. parents h \<noteq> None) \<and> finite (ancestry parents head) \<and> card (ancestry parents head) \<le> limit \<longrightarrow>
       commit_reachable parents want head limit = Some (want \<in> ancestry parents head))"
proof (cases "want = head")
  case True
  then show ?thesis by (simp add: commit_reachable_def ancestry.self)
next
  case False
  then show ?thesis
    using reach_loop_sound [of parents want limit "[head]" "[]" head] reach_loop_complete [of parents head limit "[head]" "[]" want] ancestry.self [of head parents]
    by (auto simp: commit_reachable_def)
qed

definition sample_history :: "nat history" where
  "sample_history n = (if n = 0 then Some [] else if n \<le> 2 then Some [0] else if n = 3 then Some [2, 1] else None)"

theorem commit_search_exact_witness:
  "commit_reachable sample_history 0 3 10 = Some True \<and> 0 \<in> ancestry sample_history 3 \<and> commit_reachable sample_history 3 2 10 = Some (3 \<in> ancestry sample_history 2)"
proof -
  have "commit_reachable sample_history 0 3 10 = Some True" by code_simp
  moreover have sub: "x \<in> {0, 2}" "sample_history x \<noteq> None" if "x \<in> ancestry sample_history 2" for x
    using that by (induction, auto simp: sample_history_def split: if_splits)
  then have s2: "ancestry sample_history 2 \<subseteq> {0, 2}" by blast
  have "finite (ancestry sample_history 2)" using s2 by (rule finite_subset) simp
  moreover have "card (ancestry sample_history 2) \<le> card {0 :: nat, 2}" using _ s2 by (rule card_mono) simp
  ultimately show ?thesis
    using commit_search_exact [of sample_history 0 3 10] commit_search_exact [of sample_history 3 2 10] sub by simp
qed

end
