(* ===== verification/Preview_Registry.thy ===== *)
theory Preview_Registry
  imports Session_State "HOL-Library.Word" "HOL-Library.Char_ord" "HOL-Library.List_Lexorder"
begin

section \<open>The registry of previews\<close>

text \<open>
  Model of \<open>src/internal/preview/registry.go\<close>, and of the choice of records in \<open>monitor.go\<close>: local
  ports that are published as previews, with a state machine for each.  Each section under the
  mutex is one step.  A probe takes a slot and reads a record, talks to the target without the
  mutex, and then takes the mutex again; so it is two steps, and the probes that are under way
  are part of the state.  Revisions are 64-bit.
\<close>

subsection \<open>States and records\<close>

datatype preview_state = Registering | Ready | Degraded | Offline | Expired | Removed

fun preview_transitions :: "preview_state \<Rightarrow> preview_state list" where
  "preview_transitions Registering = [Ready, Degraded, Offline, Removed]"
| "preview_transitions Ready = [Degraded, Offline, Expired, Removed]"
| "preview_transitions Degraded = [Ready, Offline, Expired, Removed]"
| "preview_transitions Offline = [Registering, Ready, Expired, Removed]"
| "preview_transitions Expired = [Registering, Removed]"
| "preview_transitions Removed = []"

interpretation preview_table: transition_table preview_transitions "\<lambda>s. s = Removed"
  by unfold_locales simp

record preview_target =
  pt_host :: string
  pt_port :: "16 word"

record preview_record =
  pv_identity :: string
  pv_environment :: string
  pv_name :: string
  pv_target :: preview_target
  pv_state :: preview_state
  pv_reason :: string
  pv_updated :: int
  pv_revision :: nat
  pv_url :: string

datatype preview_error = ErrInvalidTarget | ErrIdentityConflict | ErrNotFound | ErrInvalidTransition | ErrResourceLimit | ErrCancelled

record registry =
  rg_max :: int
  rg_slots :: int
  rg_records :: "preview_record gomap"
  rg_logical :: "string gomap"
  rg_probes :: "preview_record list"

record registry_config =
  rf_prober :: bool
  rf_timeout :: int
  rf_max :: int
  rf_slots :: int

definition new_registry :: "registry_config \<Rightarrow> registry option" where
  "new_registry c =
     (let timeout = (if rf_timeout c = 0 then 2000000000 else rf_timeout c);
          max = (if rf_max c = 0 then 20 else rf_max c);
          slots = (if rf_slots c = 0 then 8 else rf_slots c)
      in if \<not> rf_prober c \<or> timeout \<le> 0 \<or> max < 1 \<or> slots < 1 then None
         else Some \<lparr>rg_max = max, rg_slots = slots, rg_records = [], rg_logical = [], rg_probes = []\<rparr>)"

definition valid_target :: "preview_target \<Rightarrow> bool" where
  "valid_target t \<longleftrightarrow> (pt_host t = ''127.0.0.1'' \<or> pt_host t = ''::1'') \<and> pt_port t > 0"

definition valid_id :: "string \<Rightarrow> bool" where
  "valid_id v \<longleftrightarrow> 1 \<le> length v \<and> length v \<le> 128"

definition valid_name :: "string \<Rightarrow> bool" where
  "valid_name v \<longleftrightarrow>
     valid_id v \<and>
     list_all (\<lambda>c. lower_alnum c \<or> c = CHR ''-'' \<or> c = CHR ''_'') v"

definition logical_key :: "string \<Rightarrow> string \<Rightarrow> string" where
  "logical_key environment name = environment @ CHR 0x00 # name"

subsection \<open>Operations\<close>

definition active_count :: "registry \<Rightarrow> nat" where
  "active_count r = length (filter (\<lambda>(i, p). pv_state p \<noteq> Removed) (rg_records r))"

text \<open>Registering again under the same identity: the record changes with the target, or wakes up.\<close>

definition reregister :: "preview_target \<Rightarrow> int \<Rightarrow> preview_record \<Rightarrow> preview_record" where
  "reregister target now p =
     (let asleep = pv_state p = Offline \<or> pv_state p = Expired
      in if pv_target p = target \<and> \<not> asleep then p
         else if asleep then p\<lparr>pv_target := target, pv_revision := u64_add (pv_revision p) 1, pv_updated := now, pv_state := Registering, pv_reason := []\<rparr>
         else p\<lparr>pv_target := target, pv_revision := u64_add (pv_revision p) 1, pv_updated := now, pv_state := Degraded, pv_reason := ''target_changed''\<rparr>)"

definition register ::
    "string \<Rightarrow> string \<Rightarrow> string \<Rightarrow> preview_target \<Rightarrow> bool \<Rightarrow> int \<Rightarrow> registry \<Rightarrow> (preview_error + preview_record) \<times> registry" where
  "register identity environment name target acknowledged now r =
     (if \<not> valid_id identity \<or> \<not> valid_id environment \<or> \<not> valid_name name \<or> \<not> valid_target target \<or> \<not> acknowledged then (Inl ErrInvalidTarget, r)
      else if (case map_of (rg_logical r) (logical_key environment name) of Some i \<Rightarrow> i \<noteq> identity | None \<Rightarrow> False) then (Inl ErrIdentityConflict, r)
      else case map_of (rg_records r) identity of
        Some p \<Rightarrow>
          if pv_environment p \<noteq> environment \<or> pv_name p \<noteq> name \<or> pv_state p = Removed then (Inl ErrIdentityConflict, r)
          else let p' = reregister target now p
               in (Inr p', if pv_target p = target \<and> pv_state p \<noteq> Offline \<and> pv_state p \<noteq> Expired then r
                           else r\<lparr>rg_records := AList.update identity p' (rg_records r)\<rparr>)
      | None \<Rightarrow>
          if int (active_count r) \<ge> rg_max r then (Inl ErrResourceLimit, r)
          else let p = \<lparr>pv_identity = identity, pv_environment = environment, pv_name = name, pv_target = target, pv_state = Registering, pv_reason = [],
                        pv_updated = now, pv_revision = 1, pv_url = []\<rparr>
               in (Inr p, r\<lparr>rg_records := AList.update identity p (rg_records r),
                            rg_logical := AList.update (logical_key environment name) identity (rg_logical r)\<rparr>))"

text \<open>The second section of \<open>RegisterCanonical\<close>; the first one is \<open>Register\<close>.\<close>

definition set_public_url :: "string \<Rightarrow> string \<Rightarrow> registry \<Rightarrow> registry" where
  "set_public_url identity url r =
     (case map_of (rg_records r) identity of
        Some p \<Rightarrow> r\<lparr>rg_records := AList.update identity (p\<lparr>pv_url := url\<rparr>) (rg_records r)\<rparr>
      | None \<Rightarrow> r)"

definition get_preview :: "string \<Rightarrow> registry \<Rightarrow> preview_error + preview_record" where
  "get_preview identity r =
     (case map_of (rg_records r) identity of
        None \<Rightarrow> Inl ErrNotFound
      | Some p \<Rightarrow> if pv_state p = Removed then Inl ErrNotFound else Inr p)"

definition list_previews :: "registry \<Rightarrow> preview_record list" where
  "list_previews r = sort_key pv_identity (map snd (rg_records r))"

definition list_environment :: "string \<Rightarrow> registry \<Rightarrow> preview_record list" where
  "list_environment environment r = sort_key pv_identity (filter (\<lambda>p. pv_environment p = environment \<and> pv_state p \<noteq> Removed) (map snd (rg_records r)))"

text \<open>The records that the monitor probes, in its order.\<close>

definition monitored :: "registry \<Rightarrow> string list" where
  "monitored r = map pv_identity (filter (\<lambda>p. pv_state p \<in> {Registering, Ready, Degraded}) (list_previews r))"

definition probe_begin :: "string \<Rightarrow> registry \<Rightarrow> (preview_error + preview_record) \<times> registry" where
  "probe_begin identity r =
     (if int (length (rg_probes r)) \<ge> rg_slots r then (Inl ErrResourceLimit, r)
      else case map_of (rg_records r) identity of
        None \<Rightarrow> (Inl ErrNotFound, r)
      | Some p \<Rightarrow>
          if pv_state p = Removed then (Inl ErrNotFound, r)
          else if pv_state p = Expired then (Inl ErrInvalidTransition, r)
          else (Inr p, r\<lparr>rg_probes := p # rg_probes r\<rparr>))"

definition probe_end :: "preview_record \<Rightarrow> bool \<Rightarrow> bool \<Rightarrow> int \<Rightarrow> registry \<Rightarrow> (preview_error + preview_record) \<times> registry" where
  "probe_end p healthy cancelled now r0 =
     (let r = r0\<lparr>rg_probes := remove1 p (rg_probes r0)\<rparr>
      in if cancelled then (Inl ErrCancelled, r)
         else case map_of (rg_records r) (pv_identity p) of
           None \<Rightarrow> (Inl ErrNotFound, r)
         | Some current \<Rightarrow>
             if pv_state current = Removed then (Inl ErrNotFound, r)
             else if pv_revision current \<noteq> pv_revision p then (Inr current, r)
             else let (nxt, reason) = (if healthy then (Ready, []) else if pv_state current = Offline then (Offline, ''helper_offline'')
                                       else (Degraded, ''target_unhealthy''))
                  in if nxt \<notin> set (preview_transitions (pv_state current)) \<and> pv_state current \<noteq> nxt then (Inl ErrInvalidTransition, r)
                     else let p' = current\<lparr>pv_state := nxt, pv_reason := reason, pv_updated := now, pv_revision := u64_add (pv_revision current) 1\<rparr>
                          in (Inr p', r\<lparr>rg_records := AList.update (pv_identity p) p' (rg_records r)\<rparr>))"

definition preview_transition :: "string \<Rightarrow> preview_state \<Rightarrow> string \<Rightarrow> int \<Rightarrow> registry \<Rightarrow> (preview_error + preview_record) \<times> registry" where
  "preview_transition identity nxt reason now r =
     (case map_of (rg_records r) identity of
        None \<Rightarrow> (Inl ErrNotFound, r)
      | Some p \<Rightarrow>
          if pv_state p = Removed then (Inl ErrNotFound, r)
          else if nxt \<notin> set (preview_transitions (pv_state p)) then (Inl ErrInvalidTransition, r)
          else let p' = p\<lparr>pv_state := nxt, pv_reason := reason, pv_updated := now, pv_revision := u64_add (pv_revision p) 1\<rparr>
               in (Inr p', r\<lparr>rg_records := AList.update identity p' (rg_records r)\<rparr>))"

definition set_offline :: "string \<Rightarrow> int \<Rightarrow> registry \<Rightarrow> (preview_error + preview_record) \<times> registry" where
  "set_offline identity = preview_transition identity Offline ''helper_offline''"

definition expire_preview :: "string \<Rightarrow> int \<Rightarrow> registry \<Rightarrow> (preview_error + preview_record) \<times> registry" where
  "expire_preview identity = preview_transition identity Expired ''expired''"

definition remove_preview :: "string \<Rightarrow> int \<Rightarrow> registry \<Rightarrow> (preview_error + preview_record) \<times> registry" where
  "remove_preview identity = preview_transition identity Removed ''removed''"

subsection \<open>Runs\<close>

datatype preview_op =
  ORegister string string string preview_target bool int | OPublicUrl string string | OProbe string | OAnswer preview_record bool bool int |
  OOffline string int | OExpire string int | ORemove string int

fun preview_step :: "registry \<Rightarrow> preview_op \<Rightarrow> registry" where
  "preview_step r (ORegister i e n t a now) = snd (register i e n t a now r)"
| "preview_step r (OPublicUrl i url) = set_public_url i url r"
| "preview_step r (OProbe i) = snd (probe_begin i r)"
| "preview_step r (OAnswer p healthy cancelled now) = (if p \<in> set (rg_probes r) then snd (probe_end p healthy cancelled now r) else r)"
| "preview_step r (OOffline i now) = snd (set_offline i now r)"
| "preview_step r (OExpire i now) = snd (expire_preview i now r)"
| "preview_step r (ORemove i now) = snd (remove_preview i now r)"

text \<open>What an operation may do to a record.\<close>

definition moved :: "preview_record \<Rightarrow> preview_record \<Rightarrow> bool" where
  "moved p p' \<longleftrightarrow>
     pv_identity p' = pv_identity p \<and> pv_environment p' = pv_environment p \<and> pv_name p' = pv_name p \<and>
     (pv_state p' = pv_state p \<or> pv_state p' \<in> set (preview_transitions (pv_state p))) \<and>
     (pv_revision p' = pv_revision p \<and> pv_state p' = pv_state p \<and> pv_target p' = pv_target p \<or>
      pv_revision p' = Suc (pv_revision p) \<and> pv_state p \<noteq> Removed)"

lemma moved_refl [simp]: "moved p p"
  by (simp add: moved_def)

definition record_ok :: "registry \<Rightarrow> nat \<Rightarrow> string \<Rightarrow> preview_record \<Rightarrow> bool" where
  "record_ok r n i p \<longleftrightarrow>
     pv_identity p = i \<and> map_of (rg_logical r) (logical_key (pv_environment p) (pv_name p)) = Some i \<and> valid_target (pv_target p) \<and>
     1 \<le> pv_revision p \<and> pv_revision p \<le> Suc n"

definition probe_ok :: "registry \<Rightarrow> preview_record \<Rightarrow> bool" where
  "probe_ok r q \<longleftrightarrow>
     (\<exists>p. map_of (rg_records r) (pv_identity q) = Some p \<and> pv_revision q \<le> pv_revision p \<and>
        (pv_revision q = pv_revision p \<longrightarrow> pv_state q = pv_state p \<and> pv_target q = pv_target p))"

text \<open>The invariant after \<open>n\<close> steps.\<close>

definition registry_inv :: "nat \<Rightarrow> registry \<Rightarrow> bool" where
  "registry_inv n r \<longleftrightarrow>
     keys_distinct (rg_records r) \<and> (\<forall>i p. map_of (rg_records r) i = Some p \<longrightarrow> record_ok r n i p) \<and>
     (\<forall>k i. map_of (rg_logical r) k = Some i \<longrightarrow> map_of (rg_records r) i \<noteq> None) \<and>
     int (active_count r) \<le> rg_max r \<and> int (length (rg_probes r)) \<le> rg_slots r \<and> (\<forall>q \<in> set (rg_probes r). probe_ok r q)"

lemma filter_update_le:
  assumes "keys_distinct m" "map_of m i = Some p" "P (i, p') \<Longrightarrow> P (i, p)"
  shows "length (filter P (AList.update i p' m)) \<le> length (filter P m)"
  using assms by (induction m) auto

lemma replace_preview_inv:
  assumes "registry_inv n r" "map_of (rg_records r) i = Some p" "moved p p'" "valid_target (pv_target p')"
  shows "registry_inv (Suc n) (r\<lparr>rg_records := AList.update i p' (rg_records r)\<rparr>)"
proof -
  note inv = assms(1) [unfolded registry_inv_def] and mv = assms(3) [unfolded moved_def]
  have ok: "record_ok r n i p" using inv assms(2) by blast
  have new: "record_ok (r\<lparr>rg_records := AList.update i p' (rg_records r)\<rparr>) (Suc n) i p'"
    using ok mv assms(4) by (auto simp: record_ok_def)
  have others: "record_ok (r\<lparr>rg_records := AList.update i p' (rg_records r)\<rparr>) (Suc n) j q" if "map_of (rg_records r) j = Some q" for j q
    using inv that by (fastforce simp: record_ok_def)
  have active: "active_count (r\<lparr>rg_records := AList.update i p' (rg_records r)\<rparr>) \<le> active_count r"
    unfolding active_count_def using inv mv by (simp, intro filter_update_le [OF _ assms(2)]) auto
  have probes: "probe_ok (r\<lparr>rg_records := AList.update i p' (rg_records r)\<rparr>) q" if "q \<in> set (rg_probes r)" for q
  proof -
    have "probe_ok r q" using inv that by blast
    then show ?thesis using assms(2) mv by (fastforce simp: probe_ok_def map_of_update)
  qed
  show ?thesis unfolding registry_inv_def
    using inv new others active probes by (auto simp: map_of_update keys_distinct_update)
qed

lemma registry_inv_mono: "registry_inv n r \<Longrightarrow> registry_inv (Suc n) r"
  by (fastforce simp: registry_inv_def record_ok_def)

text \<open>The four kinds of steps.\<close>

inductive registry_step :: "registry \<Rightarrow> registry \<Rightarrow> bool" where
  keep: "set ps \<subseteq> set (rg_probes r) \<Longrightarrow> length ps \<le> length (rg_probes r) \<Longrightarrow> registry_step r (r\<lparr>rg_probes := ps\<rparr>)"
| begin_probe: "map_of (rg_records r) i = Some p \<Longrightarrow> int (length (rg_probes r)) < rg_slots r \<Longrightarrow> registry_step r (r\<lparr>rg_probes := p # rg_probes r\<rparr>)"
| change: "set ps \<subseteq> set (rg_probes r) \<Longrightarrow> length ps \<le> length (rg_probes r) \<Longrightarrow> map_of (rg_records r) i = Some p \<Longrightarrow> moved p p' \<Longrightarrow>
    valid_target (pv_target p') \<Longrightarrow> registry_step r (r\<lparr>rg_probes := ps, rg_records := AList.update i p' (rg_records r)\<rparr>)"
| add: "map_of (rg_records r) i = None \<Longrightarrow> int (active_count r) < rg_max r \<Longrightarrow> pv_identity p = i \<Longrightarrow> valid_target (pv_target p) \<Longrightarrow> pv_revision p = 1 \<Longrightarrow>
    map_of (rg_logical r) (logical_key (pv_environment p) (pv_name p)) = None \<Longrightarrow>
    registry_step r (r\<lparr>rg_records := AList.update i p (rg_records r),
      rg_logical := AList.update (logical_key (pv_environment p) (pv_name p)) i (rg_logical r)\<rparr>)"

lemma registry_step_same: "registry_step r r"
  using registry_step.keep [of "rg_probes r" r] by simp

lemma registry_step_change:
  "map_of (rg_records r) i = Some p \<Longrightarrow> moved p p' \<Longrightarrow> valid_target (pv_target p') \<Longrightarrow>
   registry_step r (r\<lparr>rg_records := AList.update i p' (rg_records r)\<rparr>)"
  using registry_step.change [of "rg_probes r" r i p p'] by simp

lemma registry_record:
  assumes "registry_inv n r" "map_of (rg_records r) i = Some p" "Suc (Suc n) < u64_limit"
  shows "u64_add (pv_revision p) 1 = Suc (pv_revision p)" "valid_target (pv_target p)" "pv_identity p = i"
proof -
  have "record_ok r n i p" using assms(1,2) by (simp add: registry_inv_def)
  then show "u64_add (pv_revision p) 1 = Suc (pv_revision p)" "valid_target (pv_target p)" "pv_identity p = i"
    using assms(3) by (simp_all add: record_ok_def u64_add_small)
qed

lemma register_step:
  assumes "registry_inv n r" "Suc (Suc n) < u64_limit"
  shows "registry_step r (snd (register i e nm t a now r))"
proof (cases "map_of (rg_records r) i")
  case None
  have "map_of (rg_logical r) (logical_key e nm) \<noteq> Some i" using assms(1) None unfolding registry_inv_def by blast
  then have free: "map_of (rg_logical r) (logical_key e nm) = None"
    if "case map_of (rg_logical r) (logical_key e nm) of Some j \<Rightarrow> j = i | None \<Rightarrow> True"
    using that by (simp split: option.splits)
  let ?p = "\<lparr>pv_identity = i, pv_environment = e, pv_name = nm, pv_target = t, pv_state = Registering, pv_reason = [],
    pv_updated = now, pv_revision = 1, pv_url = []\<rparr>"
  show ?thesis
    using registry_step.add [OF None, of ?p] registry_step_same free None
    by (auto simp: register_def Let_def split: option.splits)
next
  case (Some p)
  note rec = registry_record [OF assms(1) Some assms(2)]
  have mv: "moved p (reregister t now p)" if "pv_state p \<noteq> Removed"
    using that rec(1) by (cases "pv_state p") (auto simp: moved_def reregister_def Let_def)
  have "valid_target (pv_target (reregister t now p))" if "valid_target t" using that rec(2) by (simp add: reregister_def Let_def)
  then show ?thesis
    using registry_step_change [OF Some mv] registry_step_same Some by (auto simp: register_def Let_def split: option.splits)
qed

lemma transition_step:
  assumes "registry_inv n r" "Suc (Suc n) < u64_limit"
  shows "registry_step r (snd (preview_transition i nxt reason now r))"
proof (cases "map_of (rg_records r) i")
  case (Some p)
  note rec = registry_record [OF assms(1) Some assms(2)]
  let ?p = "p\<lparr>pv_state := nxt, pv_reason := reason, pv_updated := now, pv_revision := u64_add (pv_revision p) 1\<rparr>"
  have "moved p ?p" if "pv_state p \<noteq> Removed" "nxt \<in> set (preview_transitions (pv_state p))" using that rec(1) by (simp add: moved_def)
  then show ?thesis
    using registry_step_change [OF Some, of ?p] rec(2) registry_step_same Some by (simp add: preview_transition_def Let_def)
qed (simp add: preview_transition_def registry_step_same)

lemma probe_end_step:
  assumes "registry_inv n r" "Suc (Suc n) < u64_limit" "q \<in> set (rg_probes r)"
  shows "registry_step r (snd (probe_end q healthy cancelled now r))"
proof -
  let ?ps = "remove1 q (rg_probes r)"
  have ps: "set ?ps \<subseteq> set (rg_probes r)" "length ?ps \<le> length (rg_probes r)" by (simp_all add: set_remove1_subset length_remove1)
  obtain p where p: "map_of (rg_records r) (pv_identity q) = Some p" using assms(1,3) by (auto simp: registry_inv_def probe_ok_def)
  note rec = registry_record [OF assms(1) p assms(2)]
  let ?p = "\<lambda>nxt reason. p\<lparr>pv_state := nxt, pv_reason := reason, pv_updated := now, pv_revision := u64_add (pv_revision p) 1\<rparr>"
  have "moved p (?p nxt reason)" if "pv_state p \<noteq> Removed" "nxt \<in> set (preview_transitions (pv_state p)) \<or> pv_state p = nxt" for nxt reason
    using that rec(1) by (auto simp: moved_def)
  then have ch: "registry_step r (r\<lparr>rg_probes := ?ps, rg_records := AList.update (pv_identity q) (?p nxt reason) (rg_records r)\<rparr>)"
    if "pv_state p \<noteq> Removed" "nxt \<in> set (preview_transitions (pv_state p)) \<or> pv_state p = nxt" for nxt reason
    using registry_step.change [OF ps p, of "?p nxt reason"] rec(2) that by simp
  show ?thesis using registry_step.keep [OF ps] ch p by (auto simp: probe_end_def Let_def)
qed

lemma preview_step_kinds:
  assumes "registry_inv n r" "Suc (Suc n) < u64_limit"
  shows "registry_step r (preview_step r x)"
proof (cases x)
  case (OPublicUrl i url)
  show ?thesis
  proof (cases "map_of (rg_records r) i")
    case (Some p)
    have "registry_step r (r\<lparr>rg_records := AList.update i (p\<lparr>pv_url := url\<rparr>) (rg_records r)\<rparr>)"
      using registry_record(2) [OF assms(1) Some assms(2)] by (intro registry_step_change [OF Some]) (simp_all add: moved_def)
    then show ?thesis by (simp add: OPublicUrl set_public_url_def Some)
  qed (simp add: OPublicUrl set_public_url_def registry_step_same)
next
  case (OProbe i)
  then show ?thesis using registry_step.begin_probe [of r i] registry_step_same by (simp add: probe_begin_def split: option.split)
qed (use register_step [OF assms] transition_step [OF assms] probe_end_step [OF assms] registry_step_same in
  \<open>simp_all add: set_offline_def expire_preview_def remove_preview_def\<close>)

lemma registry_step_inv:
  assumes "registry_step r r'" "registry_inv n r"
  shows "registry_inv (Suc n) r'"
  using assms
proof cases
  case (keep ps)
  then show ?thesis using registry_inv_mono [OF assms(2)] by (auto simp: registry_inv_def record_ok_def probe_ok_def active_count_def)
next
  case (begin_probe i p)
  have "pv_identity p = i" using assms(2) begin_probe(2) by (simp add: registry_inv_def record_ok_def)
  then show ?thesis using registry_inv_mono [OF assms(2)] begin_probe
    by (auto simp: registry_inv_def record_ok_def probe_ok_def active_count_def)
next
  case (change ps i p p')
  have "registry_inv n (r\<lparr>rg_probes := ps\<rparr>)"
    using assms(2) change(2,3) by (auto simp: registry_inv_def record_ok_def probe_ok_def active_count_def)
  then show ?thesis using replace_preview_inv [of n "r\<lparr>rg_probes := ps\<rparr>" i p p'] change by simp
next
  case (add i p)
  note inv = registry_inv_mono [OF assms(2), unfolded registry_inv_def]
  have old: "record_ok r' (Suc n) j q" if "map_of (rg_records r) j = Some q" for j q
  proof -
    have "record_ok r (Suc n) j q" using inv that by blast
    then show ?thesis using add(1,7) by (auto simp: record_ok_def map_of_update)
  qed
  have new: "record_ok r' (Suc n) i p" using add by (simp add: record_ok_def map_of_update)
  have active: "active_count r' \<le> Suc (active_count r)" using add(1,2) by (simp add: active_count_def update_fresh)
  have probes: "probe_ok r' q" if "q \<in> set (rg_probes r)" for q
  proof -
    have "probe_ok r q" using inv that by blast
    then show ?thesis using add(1,2) by (auto simp: probe_ok_def map_of_update)
  qed
  have "\<forall>k j. map_of (rg_logical r') k = Some j \<longrightarrow> map_of (rg_records r') j \<noteq> None" using inv add(1) by (auto simp: map_of_update)
  moreover have "\<forall>j q. map_of (rg_records r') j = Some q \<longrightarrow> record_ok r' (Suc n) j q" using old new add(1) by (auto simp: map_of_update)
  ultimately show ?thesis unfolding registry_inv_def using inv active probes add by (auto simp: keys_distinct_update)
qed

lemma registry_step_moves:
  assumes "registry_step r r'" "map_of (rg_records r) i = Some p"
  shows "\<exists>p'. map_of (rg_records r') i = Some p' \<and> moved p p'"
  using assms by cases (auto simp: map_of_update)

lemma run_inv_from: "registry_inv n r \<Longrightarrow> n + length xs + 2 \<le> u64_limit \<Longrightarrow> registry_inv (n + length xs) (run preview_step r xs)"
proof (induction xs arbitrary: n r)
  case (Cons x xs)
  have "registry_inv (Suc n) (preview_step r x)"
    using registry_step_inv [OF preview_step_kinds [OF Cons.prems(1)] Cons.prems(1)] Cons.prems(2) by simp
  then show ?case using Cons.IH [of "Suc n"] Cons.prems(2) by simp
qed simp

text \<open>
  C38: the registry of previews stays consistent.  After any run of registrations, probes that
  overlap in any way and changes of state, shorter than the range of a revision: only loopback
  targets are registered, a name of an environment belongs to one identity, and neither the
  limit of targets nor that of probes is exceeded.  A further operation loses no record, moves
  states only along the table and raises the revision with each change, so that a removed
  preview stays removed; and an answer that makes a preview ready is about the target it has.
\<close>

theorem previews_stay_consistent:
  assumes "new_registry c = Some r0" "length ops + 2 \<le> u64_limit" "r = run preview_step r0 ops"
  shows "int (active_count r) \<le> rg_max r \<and> int (length (rg_probes r)) \<le> rg_slots r \<and>
    (\<forall>i p. map_of (rg_records r) i = Some p \<longrightarrow> valid_target (pv_target p)) \<and>
    (\<forall>i j p q. map_of (rg_records r) i = Some p \<longrightarrow> map_of (rg_records r) j = Some q \<longrightarrow>
       pv_environment p = pv_environment q \<longrightarrow> pv_name p = pv_name q \<longrightarrow> i = j) \<and>
    (\<forall>x i p. length ops + 3 \<le> u64_limit \<longrightarrow> map_of (rg_records r) i = Some p \<longrightarrow>
       (\<exists>p'. map_of (rg_records (preview_step r x)) i = Some p' \<and> moved p p')) \<and>
    (\<forall>q \<in> set (rg_probes r). \<forall>now p'. fst (probe_end q True False now r) = Inr p' \<longrightarrow> snd (probe_end q True False now r) \<noteq> r\<lparr>rg_probes := remove1 q (rg_probes r)\<rparr> \<longrightarrow>
       pv_state p' = Ready \<and> pv_target p' = pv_target q)"
proof -
  have "registry_inv 0 r0" using assms(1)
    by (auto simp: new_registry_def registry_inv_def active_count_def Let_def split: if_splits)
  then have inv: "registry_inv (length ops) r" using run_inv_from [of 0 r0 ops] assms(2,3) by simp
  note i = inv [unfolded registry_inv_def]
  have recs: "record_ok r (length ops) k p" if "map_of (rg_records r) k = Some p" for k p using i that by blast
  have moves: "\<exists>p'. map_of (rg_records (preview_step r x)) k = Some p' \<and> moved p p'"
    if "length ops + 3 \<le> u64_limit" "map_of (rg_records r) k = Some p" for x k p
    using registry_step_moves [OF preview_step_kinds [OF inv] that(2)] that(1) by simp
  have probes_ok: "\<forall>q \<in> set (rg_probes r). probe_ok r q" using i by blast
  have probes: "pv_state p' = Ready \<and> pv_target p' = pv_target q"
    if "q \<in> set (rg_probes r)" "fst (probe_end q True False now r) = Inr p'"
      "snd (probe_end q True False now r) \<noteq> r\<lparr>rg_probes := remove1 q (rg_probes r)\<rparr>" for q now p'
  proof -
    have ok: "probe_ok r q" using probes_ok that(1) by blast
    obtain p where p: "map_of (rg_records r) (pv_identity q) = Some p" "pv_revision q = pv_revision p \<Longrightarrow> pv_target q = pv_target p"
      using ok by (auto simp: probe_ok_def)
    then show ?thesis using that(2,3) by (auto simp: probe_end_def Let_def split: if_splits)
  qed
  have names: "k = j" if "map_of (rg_records r) k = Some p" "map_of (rg_records r) j = Some q" "pv_environment p = pv_environment q" "pv_name p = pv_name q" for k j p q
    using recs [OF that(1)] recs [OF that(2)] that(3,4) by (simp add: record_ok_def)
  have targets: "valid_target (pv_target p)" if "map_of (rg_records r) k = Some p" for k p using recs [OF that] by (simp add: record_ok_def)
  show ?thesis by (intro conjI allI impI ballI) (use i moves probes names targets in simp_all)
qed

definition local_target :: "16 word \<Rightarrow> preview_target" where
  "local_target port = \<lparr>pt_host = ''127.0.0.1'', pt_port = port\<rparr>"

definition sample_previews :: registry where
  "sample_previews =
     run preview_step \<lparr>rg_max = 20, rg_slots = 8, rg_records = [], rg_logical = [], rg_probes = []\<rparr>
       [ORegister ''i'' ''e'' ''web'' (local_target 80) True 1, OProbe ''i'', ORegister ''i'' ''e'' ''web'' (local_target 81) True 2, OProbe ''i'']"

theorem previews_stay_consistent_witness:
  "int (active_count sample_previews) \<le> rg_max sample_previews \<and> (\<exists>p. map_of (rg_records sample_previews) ''i'' = Some p \<and> valid_target (pv_target p)) \<and>
   length (rg_probes sample_previews) = 2"
proof -
  have new: "new_registry \<lparr>rf_prober = True, rf_timeout = 0, rf_max = 0, rf_slots = 0\<rparr> =
    Some \<lparr>rg_max = 20, rg_slots = 8, rg_records = [], rg_logical = [], rg_probes = []\<rparr>" by (simp add: new_registry_def)
  have port: "valid_target (local_target 80)" "valid_target (local_target 81)" "local_target 80 \<noteq> local_target 81"
    by (simp_all add: valid_target_def local_target_def)
  have names: "valid_id ''i''" "valid_id ''e''" "valid_name ''web''" by code_simp+
  have "length (rg_probes sample_previews) = 2" "map_of (rg_records sample_previews) ''i'' \<noteq> None"
    using port names by (simp_all add: sample_previews_def register_def probe_begin_def reregister_def active_count_def Let_def)
  then show ?thesis
    using previews_stay_consistent [OF new _ sample_previews_def] by (auto simp: u64_limit_def)
qed

text \<open>
  A removed preview keeps its record and its name.  Neither its identity nor another one can
  ever be registered under the name again, and the records of removed previews pile up.
\<close>

lemma removed_name_stays_taken:
  assumes "registry_inv n r" "map_of (rg_records r) i = Some p" "pv_state p = Removed"
  shows "\<exists>e. register j (pv_environment p) (pv_name p) t a now r = (Inl e, r)"
proof -
  have "map_of (rg_logical r) (logical_key (pv_environment p) (pv_name p)) = Some i" using assms(1,2) by (simp add: registry_inv_def record_ok_def)
  then show ?thesis using assms(2,3) by (auto simp: register_def)
qed

end
