(* ===== verification/Connector_Manager.thy ===== *)
theory Connector_Manager
  imports Prelude "HOL-Library.Word" "HOL-Library.Char_ord"
begin

section \<open>Connections to the edge\<close>

text \<open>
  Model of \<open>src/internal/connector/manager.go\<close>, of the checks of admissions in
  \<open>admission_source.go\<close> and of \<open>runid.go\<close>.  An admission is checked and recorded, the edge is
  dialled, and the new connection replaces the one before, which is retired until it ends.  The
  operations that hold \<open>opMu\<close> exclude each other but not the ends of connections, so that an
  admission is two steps with the dialling between them.  Connections have numbers in the order
  in which they were dialled, and the model records which of them have been closed.  Parsing of
  addresses and URLs is a parameter.
\<close>

subsection \<open>Admissions\<close>

datatype ip_kind = Unspecified | Loopback | Multicast | OtherAddress

record url_parts =
  up_host :: string
  up_port :: string
  up_path :: string

record net_parsers =
  parse_ip :: "string \<Rightarrow> ip_kind option"
  parse_url :: "string \<Rightarrow> url_parts option"

record edge_endpoint =
  ee_host :: string
  ee_port :: "16 word"

record route_handoff =
  rt_id :: string
  rt_revision :: nat
  rt_kind :: string
  rt_public :: string
  rt_proxy :: string
  rt_host :: string
  rt_port :: "16 word"

record admission =
  ad_operation :: string
  ad_jti :: string
  ad_credential :: string
  ad_environment :: string
  ad_helper :: string
  ad_generation :: nat
  ad_pool :: string
  ad_node :: string
  ad_endpoint :: edge_endpoint
  ad_routes :: "route_handoff list"
  ad_version :: string
  ad_expires :: int

definition safe_identifier :: "string \<Rightarrow> bool" where
  "safe_identifier v \<longleftrightarrow>
     v \<noteq> [] \<and> lower_letter (hd v) \<and> int (length v) \<le> 128 \<and>
     list_all (\<lambda>c. lower_alnum c \<or> c = CHR ''_'' \<or> c = CHR ''-'') (tl v)"

definition valid_endpoint :: "net_parsers \<Rightarrow> edge_endpoint \<Rightarrow> bool" where
  "valid_endpoint net e =
     (if ee_port e = 0 \<or> ee_host e = [] \<or> int (length (ee_host e)) > 253 then False
      else case parse_ip net (ee_host e) of
        Some k \<Rightarrow> k = OtherAddress
      | None \<Rightarrow>
          (case parse_url net (''https://'' @ ee_host e) of
             None \<Rightarrow> False
           | Some u \<Rightarrow> up_host u = ee_host e \<and> CHR ''_'' \<notin> set (ee_host e)))"

definition valid_public_host :: "net_parsers \<Rightarrow> string \<Rightarrow> bool" where
  "valid_public_host net host =
     (if host = [] \<or> int (length host) > 253 \<or> parse_ip net host \<noteq> None \<or> CHR ''_'' \<in> set host then False
      else case parse_url net (''https://'' @ host) of
        None \<Rightarrow> False
      | Some u \<Rightarrow> up_host u = host \<and> up_port u = [] \<and> up_path u = [])"

definition valid_route :: "net_parsers \<Rightarrow> route_handoff \<Rightarrow> bool" where
  "valid_route net r \<longleftrightarrow>
     safe_identifier (rt_id r) \<and> safe_identifier (rt_proxy r) \<and> rt_revision r \<noteq> 0 \<and> valid_public_host net (rt_public r) \<and> rt_port r \<noteq> 0 \<and>
     (rt_host r = ''127.0.0.1'' \<or> rt_host r = ''::1'') \<and> (rt_kind r = ''helper_https_wss'' \<or> rt_kind r = ''preview_public_https_wss'')"

fun routes_fresh :: "net_parsers \<Rightarrow> string set \<Rightarrow> string set \<Rightarrow> string set \<Rightarrow> route_handoff list \<Rightarrow> bool" where
  "routes_fresh net ids proxies hosts [] = True"
| "routes_fresh net ids proxies hosts (r # rs) =
     (if \<not> valid_route net r \<or> rt_id r \<in> ids \<or> rt_proxy r \<in> proxies \<or> rt_public r \<in> hosts then False
      else routes_fresh net (insert (rt_id r) ids) (insert (rt_proxy r) proxies) (insert (rt_public r) hosts) rs)"

definition valid_routes :: "net_parsers \<Rightarrow> route_handoff list \<Rightarrow> bool" where
  "valid_routes net rs \<longleftrightarrow> rs \<noteq> [] \<and> int (length rs) \<le> 128 \<and> routes_fresh net {} {} {} rs"

subsection \<open>The manager\<close>

datatype transport = Auto | Quic | TcpDedicated | TcpMux

record connection =
  co_number :: nat
  co_generation :: nat
  co_transport :: transport

record connector =
  cn_environment :: string
  cn_helper :: string
  cn_pool :: string
  cn_used :: "int gomap"
  cn_active :: "connection option"
  cn_retired :: "connection list"
  cn_stopping :: bool
  cn_stopped :: bool
  cn_dialling :: "admission option"
  cn_next :: nat
  cn_closed :: "nat list"

datatype connector_error = ErrAdmissionInvalid | ErrAdmissionReplayed | ErrGenerationStale | ErrUnavailable | ErrShuttingDown

definition new_connector :: "string \<Rightarrow> string \<Rightarrow> string \<Rightarrow> connector option" where
  "new_connector environment helper pool =
     (if environment = [] \<or> helper = [] \<or> pool = [] then None
      else Some \<lparr>cn_environment = environment, cn_helper = helper, cn_pool = pool, cn_used = [], cn_active = None, cn_retired = [], cn_stopping = False,
        cn_stopped = False, cn_dialling = None, cn_next = 0, cn_closed = []\<rparr>)"

definition admission_ok :: "net_parsers \<Rightarrow> connector \<Rightarrow> int \<Rightarrow> admission \<Rightarrow> bool" where
  "admission_ok net c now a \<longleftrightarrow>
     8 \<le> length (ad_operation a) \<and> int (length (ad_operation a)) \<le> 128 \<and> ad_jti a \<noteq> [] \<and> 32 \<le> length (ad_credential a) \<and> int (length (ad_credential a)) \<le> 8192 \<and>
     ad_environment a = cn_environment c \<and> ad_helper a = cn_helper c \<and> ad_pool a = cn_pool c \<and> safe_identifier (ad_node a) \<and> ad_version a = ''1.0'' \<and>
     ad_generation a \<noteq> 0 \<and> now < ad_expires a \<and> valid_endpoint net (ad_endpoint a) \<and> valid_routes net (ad_routes a)"

definition current_generation :: "connector \<Rightarrow> nat" where
  "current_generation c = (case cn_active c of None \<Rightarrow> 0 | Some a \<Rightarrow> co_generation a)"

text \<open>From taking \<open>opMu\<close> to dialling.  A call that finds \<open>opMu\<close> taken waits, which is no step.\<close>

definition accept_begin :: "net_parsers \<Rightarrow> admission \<Rightarrow> int \<Rightarrow> connector \<Rightarrow> connector_error option \<times> connector" where
  "accept_begin net a now c0 =
     (if cn_stopping c0 then (Some ErrShuttingDown, c0)
      else let c = c0\<lparr>cn_used := filter (\<lambda>(j, e). now < e) (cn_used c0)\<rparr>
           in if \<not> admission_ok net c now a then (Some ErrAdmissionInvalid, c)
              else if map_of (cn_used c) (ad_jti a) \<noteq> None then (Some ErrAdmissionReplayed, c)
              else if ad_generation a < current_generation c then (Some ErrGenerationStale, c)
              else (None, c\<lparr>cn_used := AList.update (ad_jti a) (ad_expires a) (cn_used c), cn_dialling := Some a\<rparr>))"

text \<open>
  From the end of dialling to the end of \<open>Accept\<close>: \<open>None\<close> when there is no connection, otherwise
  its transport, and whether retiring the one before works.
\<close>

definition accept_end :: "admission \<Rightarrow> transport option \<Rightarrow> bool \<Rightarrow> connector \<Rightarrow> connector_error option \<times> connector" where
  "accept_end a dialled retires c0 =
     (let c = c0\<lparr>cn_dialling := None\<rparr>
      in case dialled of
        None \<Rightarrow> (Some ErrUnavailable, c)
      | Some t \<Rightarrow>
          (let n = cn_next c; c1 = c\<lparr>cn_next := Suc n\<rparr>
           in if cn_stopping c then (Some ErrShuttingDown, c1\<lparr>cn_closed := n # cn_closed c1\<rparr>)
              else let c2 = c1\<lparr>cn_active := Some \<lparr>co_number = n, co_generation = ad_generation a, co_transport = t\<rparr>\<rparr>
                   in (None, case cn_active c of
                        None \<Rightarrow> c2
                      | Some old \<Rightarrow> c2\<lparr>cn_retired := old # cn_retired c2, cn_closed := (if retires then cn_closed c2 else co_number old # cn_closed c2)\<rparr>)))"

text \<open>A retired connection has ended.\<close>

definition retired_done :: "connection \<Rightarrow> connector \<Rightarrow> connector" where
  "retired_done k c =
     (if k \<in> set (cn_retired c) then c\<lparr>cn_retired := removeAll k (cn_retired c), cn_closed := co_number k # cn_closed c\<rparr> else c)"

text \<open>The wait for the end of connection \<open>k\<close>, which was active when the wait began, is over.\<close>

definition disconnected :: "connection \<Rightarrow> connector \<Rightarrow> connector" where
  "disconnected k c =
     (let c1 = (if cn_active c = Some k then c\<lparr>cn_active := None\<rparr> else c) in c1\<lparr>cn_closed := co_number k # cn_closed c1\<rparr>)"

definition shutdown_begin :: "connector \<Rightarrow> connector" where
  "shutdown_begin c = c\<lparr>cn_stopping := True\<rparr>"

text \<open>With \<open>opMu\<close>: all connections are drained and closed, or closed when the time is over.\<close>

definition shutdown_end :: "connector \<Rightarrow> connector" where
  "shutdown_end c =
     c\<lparr>cn_active := None, cn_retired := [], cn_stopped := True,
       cn_closed := (case cn_active c of None \<Rightarrow> [] | Some k \<Rightarrow> [co_number k]) @ map co_number (cn_retired c) @ cn_closed c\<rparr>"

subsection \<open>Runs\<close>

datatype connector_op =
  Admit admission nat | Dialled "transport option" bool | RetiredEnds connection | ConnectionEnds connection | BeginShutdown | EndShutdown

text \<open>The state of a run has the clock, which an admission finds moved on by some time.\<close>

fun connector_step :: "net_parsers \<Rightarrow> connector \<times> int \<Rightarrow> connector_op \<Rightarrow> connector \<times> int" where
  "connector_step net (c, t) (Admit a d) =
     (if cn_dialling c \<noteq> None then (c, t) else (snd (accept_begin net a (t + int d) c), t + int d))"
| "connector_step net (c, t) (Dialled k retires) = (case cn_dialling c of None \<Rightarrow> (c, t) | Some a \<Rightarrow> (snd (accept_end a k retires c), t))"
| "connector_step net (c, t) (RetiredEnds k) = (retired_done k c, t)"
| "connector_step net (c, t) (ConnectionEnds k) = (if co_number k < cn_next c then (disconnected k c, t) else (c, t))"
| "connector_step net (c, t) BeginShutdown = (shutdown_begin c, t)"
| "connector_step net (c, t) EndShutdown = (if cn_stopping c \<and> \<not> cn_stopped c \<and> cn_dialling c = None then (shutdown_end c, t) else (c, t))"

text \<open>The admissions that are dialled.\<close>

fun dials :: "net_parsers \<Rightarrow> connector \<times> int \<Rightarrow> connector_op \<Rightarrow> (string \<times> int) list" where
  "dials net (c, t) (Admit a d) =
     (if cn_dialling c = None \<and> fst (accept_begin net a (t + int d) c) = None then [(ad_jti a, ad_expires a)] else [])"
| "dials net s x = []"

subsection \<open>Admissions are used once\<close>

definition spent :: "connector \<times> int \<Rightarrow> (string \<times> int) set" where
  "spent s = {(j, e). e \<le> snd s \<or> map_of (cn_used (fst s)) j = Some e}"

lemma map_of_filter_live: "keys_distinct m \<Longrightarrow> map_of (filter (\<lambda>(j, e). now < e) m) j = (case map_of m j of Some e \<Rightarrow> if now < e then Some e else None | None \<Rightarrow> None)"
proof (induction m)
  case (Cons x m)
  obtain k v where x: "x = (k, v)" by (cases x)
  have "map_of m k = None" using Cons.prems by (simp add: x map_of_eq_None_iff)
  then show ?case using Cons.IH Cons.prems by (auto simp: x split: option.split)
qed simp

definition live_used :: "int \<Rightarrow> connector \<Rightarrow> int gomap" where
  "live_used now c = filter (\<lambda>(j, e). now < e) (cn_used c)"

lemma accept_begin_outcomes:
  obtains (refused) e where "accept_begin net a now c = (Some e, c)"
  | (pruned) e where "accept_begin net a now c = (Some e, c\<lparr>cn_used := live_used now c\<rparr>)"
  | (taken) "accept_begin net a now c = (None, c\<lparr>cn_used := AList.update (ad_jti a) (ad_expires a) (live_used now c), cn_dialling := Some a\<rparr>)"
      "now < ad_expires a" "map_of (live_used now c) (ad_jti a) = None" "current_generation c \<le> ad_generation a" "\<not> cn_stopping c"
proof (cases "cn_stopping c")
  case True
  then show ?thesis using refused by (simp add: accept_begin_def)
next
  case False
  let ?c = "c\<lparr>cn_used := live_used now c\<rparr>"
  have g: "current_generation ?c = current_generation c" by (simp add: current_generation_def)
  have e: "accept_begin net a now c =
    (if \<not> admission_ok net ?c now a then (Some ErrAdmissionInvalid, ?c)
     else if map_of (live_used now c) (ad_jti a) \<noteq> None then (Some ErrAdmissionReplayed, ?c)
     else if ad_generation a < current_generation c then (Some ErrGenerationStale, ?c)
     else (None, ?c\<lparr>cn_used := AList.update (ad_jti a) (ad_expires a) (live_used now c), cn_dialling := Some a\<rparr>))"
    using False g by (simp add: accept_begin_def live_used_def Let_def)
  have "now < ad_expires a" if "admission_ok net ?c now a" using that by (simp add: admission_ok_def)
  then consider "\<not> admission_ok net ?c now a" | "admission_ok net ?c now a" "map_of (live_used now c) (ad_jti a) \<noteq> None"
    | "admission_ok net ?c now a" "map_of (live_used now c) (ad_jti a) = None" "ad_generation a < current_generation c"
    | "admission_ok net ?c now a" "now < ad_expires a" "map_of (live_used now c) (ad_jti a) = None" "current_generation c \<le> ad_generation a"
    by linarith
  then show ?thesis
  proof cases
    case 4
    then show ?thesis using taken False by (simp add: e)
  qed (use pruned in \<open>simp_all add: e\<close>)
qed

lemma live_used_at: "keys_distinct (cn_used c) \<Longrightarrow> map_of (live_used now c) j = (case map_of (cn_used c) j of Some e \<Rightarrow> if now < e then Some e else None | None \<Rightarrow> None)"
  by (simp add: live_used_def map_of_filter_live)

lemma accept_begin_used:
  assumes "keys_distinct (cn_used c)"
  shows "keys_distinct (cn_used (snd (accept_begin net a now c)))"
    and "fst (accept_begin net a now c) = None \<Longrightarrow>
      now < ad_expires a \<and> map_of (cn_used c) (ad_jti a) \<noteq> Some (ad_expires a) \<and> map_of (cn_used (snd (accept_begin net a now c))) (ad_jti a) = Some (ad_expires a)"
    and "map_of (cn_used c) j = Some e \<Longrightarrow> now < e \<Longrightarrow> map_of (cn_used (snd (accept_begin net a now c))) j = Some e"
proof -
  have live: "keys_distinct (live_used now c)" using assms by (simp add: live_used_def keys_distinct_filter)
  note at = live_used_at [OF assms, of now]
  show "keys_distinct (cn_used (snd (accept_begin net a now c)))"
    by (cases rule: accept_begin_outcomes [of net a now c]) (simp_all add: assms live keys_distinct_update)
  show "now < ad_expires a \<and> map_of (cn_used c) (ad_jti a) \<noteq> Some (ad_expires a) \<and>
    map_of (cn_used (snd (accept_begin net a now c))) (ad_jti a) = Some (ad_expires a)" if "fst (accept_begin net a now c) = None"
    using that by (cases rule: accept_begin_outcomes [of net a now c]) (auto simp: at map_of_update split: option.splits)
  show "map_of (cn_used (snd (accept_begin net a now c))) j = Some e" if "map_of (cn_used c) j = Some e" "now < e"
    using that at [of j] by (cases rule: accept_begin_outcomes [of net a now c]) (auto simp: map_of_update)
qed

lemma other_steps_keep_used:
  "(\<forall>a d. x \<noteq> Admit a d) \<Longrightarrow> cn_used (fst (connector_step net (c, t) x)) = cn_used c \<and> snd (connector_step net (c, t) x) = t"
  by (cases x) (auto simp: accept_end_def retired_done_def disconnected_def shutdown_begin_def shutdown_end_def Let_def split: option.splits)

interpretation admission_once: at_most_once "connector_step net" "dials net" spent "\<lambda>s. keys_distinct (cn_used (fst s))" "\<lambda>_. True"
proof
  fix s :: "connector \<times> int" and x k
  assume d: "keys_distinct (cn_used (fst s))"
  obtain c t where s: "s = (c, t)" by (cases s)
  note used = accept_begin_used [OF d [unfolded s fst_conv]] and others = other_steps_keep_used [of x net c t]
  have dial: "\<exists>a n. x = Admit a n \<and> cn_dialling c = None \<and> fst (accept_begin net a (t + int n) c) = None \<and> k = (ad_jti a, ad_expires a)"
    if "k \<in> set (dials net s x)"
    using that by (cases x) (auto simp: s split: if_splits)
  show "k \<notin> spent s" if "k \<in> set (dials net s x)"
  proof -
    from dial [OF that] obtain a n where a: "fst (accept_begin net a (t + int n) c) = None" "k = (ad_jti a, ad_expires a)" by blast
    then show ?thesis using used(2) [OF a(1)] by (simp add: s spent_def)
  qed
  show "k \<in> spent (connector_step net s x)" if "k \<in> set (dials net s x)"
  proof -
    from dial [OF that] obtain a n where a: "x = Admit a n" "cn_dialling c = None" "fst (accept_begin net a (t + int n) c) = None" "k = (ad_jti a, ad_expires a)" by blast
    then show ?thesis using used(2) [OF a(3)] by (simp add: s spent_def)
  qed
  show "keys_distinct (cn_used (fst (connector_step net s x)))"
    using used(1) d others by (cases "\<exists>a d. x = Admit a d") (auto simp: s)
  show "spent s \<subseteq> spent (connector_step net s x)"
  proof (cases "\<exists>a d. x = Admit a d")
    case True
    then obtain a n where x: "x = Admit a n" by blast
    have "e \<le> t + int n \<or> map_of (cn_used (snd (accept_begin net a (t + int n) c))) j = Some e" if "map_of (cn_used c) j = Some e" for j e
      using used(3) [OF that, of "t + int n" net a] by linarith
    then show ?thesis by (auto simp: s x spent_def)
  qed (use others in \<open>auto simp: s spent_def\<close>)
next
  fix s :: "connector \<times> int" and x
  show "distinct (dials net s x)" by (cases s; cases x) auto
qed

subsection \<open>No connection is lost\<close>

definition connector_inv :: "connector \<Rightarrow> bool" where
  "connector_inv c \<longleftrightarrow>
     (\<forall>n < cn_next c. (\<exists>k. (cn_active c = Some k \<or> k \<in> set (cn_retired c)) \<and> co_number k = n) \<or> n \<in> set (cn_closed c)) \<and>
     (\<forall>a k. cn_dialling c = Some a \<longrightarrow> cn_active c = Some k \<longrightarrow> co_generation k \<le> ad_generation a) \<and>
     (cn_stopped c \<longrightarrow> cn_stopping c \<and> cn_dialling c = None \<and> cn_active c = None \<and> cn_retired c = [])"

lemma accept_begin_inv:
  assumes "connector_inv c" "cn_dialling c = None"
  shows "connector_inv (snd (accept_begin net a now c))"
  using assms by (cases rule: accept_begin_outcomes [of net a now c]) (auto simp: connector_inv_def current_generation_def split: option.splits)

lemma accept_end_inv:
  assumes "connector_inv c" "cn_dialling c = Some a"
  shows "connector_inv (snd (accept_end a k retires c))"
proof (cases k)
  case (Some t)
  have "\<not> cn_stopped c" using assms by (auto simp: connector_inv_def)
  then show ?thesis using assms Some
    by (cases "cn_active c") (auto simp: accept_end_def connector_inv_def Let_def less_Suc_eq)
qed (use assms in \<open>auto simp: accept_end_def connector_inv_def\<close>)

lemma connector_step_inv: "connector_inv (fst s) \<Longrightarrow> connector_inv (fst (connector_step net s x))"
proof -
  assume inv: "connector_inv (fst s)"
  obtain c t where s: "s = (c, t)" by (cases s)
  show ?thesis
  proof (cases x)
    case (RetiredEnds k)
    then show ?thesis using inv by (force simp: s connector_inv_def retired_done_def)
  next
    case (ConnectionEnds k)
    then show ?thesis using inv by (force simp: s connector_inv_def disconnected_def Let_def)
  next
    case EndShutdown
    then show ?thesis using inv by (force simp: s connector_inv_def shutdown_end_def split: option.split)
  next
    case (Admit a d)
    then show ?thesis using inv accept_begin_inv by (simp add: s)
  next
    case (Dialled k retires)
    then show ?thesis using inv accept_end_inv by (simp add: s split: option.split)
  next
    case BeginShutdown
    then show ?thesis using inv by (auto simp: s connector_inv_def shutdown_begin_def)
  qed
qed

lemma generation_grows:
  assumes "connector_inv c" "cn_active c = Some k" "cn_active (fst (connector_step net (c, t) x)) = Some k'"
  shows "co_generation k \<le> co_generation k'"
proof (cases x)
  case (Admit a d)
  have "cn_active (snd (accept_begin net a (t + int d) c)) = cn_active c" by (cases rule: accept_begin_outcomes [of net a "t + int d" c]) simp_all
  then show ?thesis using assms(2,3) by (auto simp: Admit split: if_splits)
next
  case (Dialled m retires)
  then show ?thesis using assms by (auto simp: connector_inv_def accept_end_def Let_def split: option.splits if_splits)
qed (use assms in \<open>auto simp: retired_done_def disconnected_def shutdown_begin_def shutdown_end_def Let_def split: if_splits\<close>)

text \<open>
  C39: the connector uses an admission once and loses no connection.  Over any run in which
  admissions, ends of connections and a shutdown interleave, with a clock that does not run
  backwards: no admission is dialled twice; every connection that was dialled is the active
  one, retired or closed; after the shutdown every one of them is closed and stays so; and a
  connection is replaced only by one of the same or a later generation.
\<close>

theorem connections_are_accounted_for:
  assumes "new_connector environment helper pool = Some c0" "(c, t) = run (connector_step net) (c0, start) ops"
  shows "distinct (trace (connector_step net) (dials net) (c0, start) ops) \<and>
    (\<forall>n < cn_next c. (\<exists>k. (cn_active c = Some k \<or> k \<in> set (cn_retired c)) \<and> co_number k = n) \<or> n \<in> set (cn_closed c)) \<and>
    (cn_stopped c \<longrightarrow> (\<forall>n < cn_next c. n \<in> set (cn_closed c)) \<and> cn_next (fst (connector_step net (c, t) x)) = cn_next c) \<and>
    (\<forall>k k'. cn_active c = Some k \<longrightarrow> cn_active (fst (connector_step net (c, t) x)) = Some k' \<longrightarrow> co_generation k \<le> co_generation k')"
proof -
  have new: "connector_inv c0" "cn_used c0 = []" using assms(1) by (auto simp: new_connector_def connector_inv_def split: if_splits)
  have "connector_inv (fst (run (connector_step net) s xs))" if "connector_inv (fst s)" for s xs
    using that by (induction xs arbitrary: s) (simp_all add: connector_step_inv)
  then have inv: "connector_inv c" using new(1) assms(2) by (metis fst_conv)
  have once: "distinct (trace (connector_step net) (dials net) (c0, start) ops)" by (rule admission_once.trace_distinct) (simp_all add: new(2))
  have stopped: "cn_next (fst (connector_step net (c, t) x)) = cn_next c" if "cn_stopped c"
    using that inv
    by (cases x) (auto simp: connector_inv_def accept_begin_def retired_done_def disconnected_def shutdown_begin_def Let_def)
  have grows: "co_generation k \<le> co_generation k'"
    if "cn_active c = Some k" "cn_active (fst (connector_step net (c, t) x)) = Some k'" for k k'
    using generation_grows [OF inv that] .
  have "cn_stopped c \<Longrightarrow> \<forall>n < cn_next c. n \<in> set (cn_closed c)" using inv by (auto simp: connector_inv_def)
  moreover have "\<forall>n < cn_next c. (\<exists>k. (cn_active c = Some k \<or> k \<in> set (cn_retired c)) \<and> co_number k = n) \<or> n \<in> set (cn_closed c)"
    using inv unfolding connector_inv_def by (rule conjunct1)
  ultimately show ?thesis using once stopped grows by simp
qed

definition sample_net :: net_parsers where
  "sample_net = \<lparr>parse_ip = \<lambda>_. None, parse_url = \<lambda>u. Some \<lparr>up_host = drop 8 u, up_port = [], up_path = []\<rparr>\<rparr>"

definition sample_admission :: "string \<Rightarrow> nat \<Rightarrow> admission" where
  "sample_admission jti generation =
     \<lparr>ad_operation = ''operation'', ad_jti = jti, ad_credential = replicate 32 (CHR ''c''), ad_environment = ''e'', ad_helper = ''h'', ad_generation = generation,
      ad_pool = ''p'', ad_node = ''n'', ad_endpoint = \<lparr>ee_host = ''edge'', ee_port = 443\<rparr>,
      ad_routes = [\<lparr>rt_id = ''r'', rt_revision = 1, rt_kind = ''helper_https_wss'', rt_public = ''host'', rt_proxy = ''x'', rt_host = ''127.0.0.1'', rt_port = 80\<rparr>],
      ad_version = ''1.0'', ad_expires = 100\<rparr>"

definition sample_ops :: "connector_op list" where
  "sample_ops = [Admit (sample_admission ''a'' 1) 5, Dialled (Some Quic) True, Admit (sample_admission ''a'' 2) 1, Admit (sample_admission ''b'' 2) 1,
     BeginShutdown, Dialled (Some TcpMux) True, EndShutdown]"

theorem connections_are_accounted_for_witness:
  "\<exists>c0 c t. new_connector ''e'' ''h'' ''p'' = Some c0 \<and> run (connector_step sample_net) (c0, 0) sample_ops = (c, t) \<and>
     cn_stopped c \<and> cn_next c = 2 \<and> {0, 1} \<subseteq> set (cn_closed c) \<and> distinct (trace (connector_step sample_net) (dials sample_net) (c0, 0) sample_ops)"
proof -
  obtain c0 where c0: "new_connector ''e'' ''h'' ''p'' = Some c0" by (simp add: new_connector_def)
  obtain c t where c: "(c, t) = run (connector_step sample_net) (c0, 0) sample_ops" by (metis surj_pair)
  have "case new_connector ''e'' ''h'' ''p'' of Some c \<Rightarrow>
      (case run (connector_step sample_net) (c, 0) sample_ops of (c, t) \<Rightarrow> cn_stopped c \<and> cn_next c = 2) | None \<Rightarrow> False"
    by code_simp
  then have k: "cn_stopped c" "cn_next c = 2" unfolding c0 using c by (auto split: prod.splits)
  note all = connections_are_accounted_for [OF c0 c, of BeginShutdown]
  have "{0, 1} \<subseteq> set (cn_closed c)" using all k by simp
  then show ?thesis using all c0 c [symmetric] k by (intro exI [of _ c0] exI [of _ c] exI [of _ t] conjI) simp_all
qed

subsection \<open>Resuming\<close>

record run_id_state =
  ri_id :: string
  ri_generation :: nat
  ri_expires :: int
  ri_revoked :: bool

datatype run_id_error = ErrRunIDInvalid | ErrRunIDRevoked | ErrRunIDExpired | ErrRunIDMismatch | ErrRunIDGeneration

definition resume_run :: "run_id_state \<Rightarrow> string \<Rightarrow> nat \<Rightarrow> int \<Rightarrow> run_id_error option" where
  "resume_run s i generation now =
     (if ri_id s = [] \<or> i = [] \<or> ri_generation s = 0 \<or> generation = 0 then Some ErrRunIDInvalid
      else if ri_revoked s then Some ErrRunIDRevoked
      else if \<not> now < ri_expires s then Some ErrRunIDExpired
      else if generation \<noteq> ri_generation s then Some ErrRunIDGeneration
      else if i \<noteq> ri_id s then Some ErrRunIDMismatch
      else None)"

end
