(* ===== verification/Connector_Race.thy ===== *)
theory Connector_Race
  imports Connector_Manager
begin

section \<open>The race of two transports\<close>

text \<open>
  Model of \<open>src/internal/connector/racing.go\<close>.  \<open>Open\<close> dials the preferred transport, the other
  one 200 milliseconds later or when the first fails, keeps the connection that opens first and
  closes the other.  The loop of \<open>Open\<close> waits for its timer, for the results of the candidates and
  for the end of its context; each of these, and each call of \<open>Close\<close>, is one step.  Candidates are
  numbered in the order in which they are started, and the model records which of them have been
  closed and which have a cancelled context.  The tunnel client that a candidate belongs to is not
  modelled: whether a candidate opens is an argument of the step that reports it.
\<close>

record race_candidate =
  ca_transport :: transport
  ca_reported :: bool
  ca_cancelled :: bool
  ca_closed :: bool

text \<open>
  The locals of a running \<open>Open\<close>: the transport to start second, whether it was started, and the
  number of results received.
\<close>

record race_loop =
  lo_second :: transport
  lo_started_second :: bool
  lo_completed :: nat

text \<open>
  \<open>rc_race\<close> holds the candidates of the latest \<open>Open\<close>, \<open>rc_cancel\<close> says that \<open>raceCancel\<close> is not nil
  and \<open>rc_done\<close> that the context it cancels has ended.  \<open>rc_preference\<close> is the preference file, none
  if it cannot be read or decoded.
\<close>

record race =
  rc_candidates :: "race_candidate list"
  rc_race :: "nat list"
  rc_loop :: "race_loop option"
  rc_winner :: "nat option"
  rc_cancel :: bool
  rc_done :: bool
  rc_closed :: bool
  rc_parent_done :: bool
  rc_path :: string
  rc_preference :: "(transport \<times> int) option"

definition new_race :: "string \<Rightarrow> (transport \<times> int) option \<Rightarrow> race" where
  "new_race path pref =
     \<lparr>rc_candidates = [], rc_race = [], rc_loop = None, rc_winner = None, rc_cancel = False, rc_done = False,
      rc_closed = False, rc_parent_done = False, rc_path = path, rc_preference = pref\<rparr>"

definition load_preference :: "int \<Rightarrow> race \<Rightarrow> transport option" where
  "load_preference now r = (case rc_preference r of Some (t, e) \<Rightarrow> if now < e then Some t else None | None \<Rightarrow> None)"

definition preference_lifetime :: int where
  "preference_lifetime = 30 * 60 * 1000000000"

text \<open>The argument \<open>written\<close> says whether the calls that replace the file work.\<close>

definition save_preference :: "transport \<Rightarrow> int \<Rightarrow> bool \<Rightarrow> race \<Rightarrow> race" where
  "save_preference t now written r =
     (if rc_path r = [] \<or> \<not> written then r else r\<lparr>rc_preference := Some (t, now + preference_lifetime)\<rparr>)"

definition change_at :: "nat set \<Rightarrow> ('a \<Rightarrow> 'a) \<Rightarrow> 'a list \<Rightarrow> 'a list" where
  "change_at ns f xs = map (\<lambda>(i, x). if i \<in> ns then f x else x) (enumerate 0 xs)"

abbreviation on_candidates :: "nat set \<Rightarrow> (race_candidate \<Rightarrow> race_candidate) \<Rightarrow> race \<Rightarrow> race" where
  "on_candidates ns f r \<equiv> r\<lparr>rc_candidates := change_at ns f (rc_candidates r)\<rparr>"

definition cancel_and_close :: "nat set \<Rightarrow> race \<Rightarrow> race" where
  "cancel_and_close ns r = on_candidates ns (\<lambda>c. c\<lparr>ca_cancelled := True, ca_closed := True\<rparr>) r"

definition race_cancel :: "race \<Rightarrow> race" where
  "race_cancel r = (on_candidates (set (rc_race r)) (\<lambda>c. c\<lparr>ca_cancelled := True\<rparr>) r)\<lparr>rc_done := True\<rparr>"

definition start_candidate :: "transport \<Rightarrow> race \<Rightarrow> race" where
  "start_candidate t r =
     r\<lparr>rc_candidates := rc_candidates r @ [\<lparr>ca_transport = t, ca_reported = False, ca_cancelled = rc_done r, ca_closed = False\<rparr>],
       rc_race := rc_race r @ [length (rc_candidates r)]\<rparr>"

definition open_begin :: "int \<Rightarrow> race \<Rightarrow> connector_error option \<times> race" where
  "open_begin now r =
     (if rc_closed r \<or> rc_winner r \<noteq> None \<or> rc_cancel r then (Some ErrUnavailable, r)
      else
        let (first, second) = (if load_preference now r = Some TcpMux then (TcpMux, Quic) else (Quic, TcpMux)) in
        (None, start_candidate first (r\<lparr>rc_race := [], rc_cancel := True, rc_done := rc_parent_done r,
          rc_loop := Some \<lparr>lo_second = second, lo_started_second = False, lo_completed = 0\<rparr>\<rparr>)))"

definition start_second :: "race_loop \<Rightarrow> race \<Rightarrow> race" where
  "start_second l r =
     (if lo_started_second l then r\<lparr>rc_loop := Some l\<rparr>
      else start_candidate (lo_second l) (r\<lparr>rc_loop := Some (l\<lparr>lo_started_second := True\<rparr>)\<rparr>))"

definition open_failed :: "race \<Rightarrow> race" where
  "open_failed r = (race_cancel r)\<lparr>rc_cancel := False, rc_loop := None\<rparr>"

definition candidate_result :: "nat \<Rightarrow> bool \<Rightarrow> int \<Rightarrow> bool \<Rightarrow> race_loop \<Rightarrow> race \<Rightarrow> race" where
  "candidate_result n ok now written l r =
     (let r = on_candidates {n} (\<lambda>c. c\<lparr>ca_reported := True\<rparr>) r; l = l\<lparr>lo_completed := lo_completed l + 1\<rparr> in
      if ok then
        if rc_closed r then (cancel_and_close {n} r)\<lparr>rc_loop := None\<rparr>
        else (cancel_and_close (set (rc_race r) - {n})
               (save_preference (ca_transport (rc_candidates r ! n)) now written (r\<lparr>rc_winner := Some n\<rparr>)))\<lparr>rc_loop := None\<rparr>
      else
        let r = start_second l (cancel_and_close {n} r) in
        if lo_completed l < 2 then r else open_failed r)"

definition context_done :: "race \<Rightarrow> race" where
  "context_done r = (cancel_and_close (set (rc_race r)) (race_cancel r))\<lparr>rc_loop := None\<rparr>"

definition close_race :: "race \<Rightarrow> race" where
  "close_race r =
     (if rc_closed r then r
      else
        let r = r\<lparr>rc_closed := True\<rparr>; r = (if rc_cancel r then race_cancel r else r) in
        case rc_winner r of None \<Rightarrow> r | Some w \<Rightarrow> on_candidates {w} (\<lambda>c. c\<lparr>ca_closed := True\<rparr>) r)"

definition connect_race :: "race \<Rightarrow> connector_error + nat" where
  "connect_race r = (case rc_winner r of Some w \<Rightarrow> if rc_closed r then Inl ErrUnavailable else Inr w | None \<Rightarrow> Inl ErrUnavailable)"

subsection \<open>Steps\<close>

text \<open>
  The context that the connector was made with may end at any time, and with it those of all
  candidates.  A result that no running \<open>Open\<close> waits for stays in its channel.
\<close>

datatype race_op = OpenRace int | TimerFires | Opened nat bool int bool | ContextEnds | CloseRace | ParentEnds

definition parent_ends :: "race \<Rightarrow> race" where
  "parent_ends r = (on_candidates {0..<length (rc_candidates r)} (\<lambda>c. c\<lparr>ca_cancelled := True\<rparr>) r)\<lparr>rc_parent_done := True, rc_done := True\<rparr>"

fun race_step :: "race \<Rightarrow> race_op \<Rightarrow> race" where
  "race_step r (OpenRace now) = snd (open_begin now r)"
| "race_step r TimerFires = (case rc_loop r of None \<Rightarrow> r | Some l \<Rightarrow> start_second l r)"
| "race_step r (Opened n ok now written) =
     (case rc_loop r of None \<Rightarrow> r | Some l \<Rightarrow>
        if n \<in> set (rc_race r) \<and> \<not> ca_reported (rc_candidates r ! n) then candidate_result n ok now written l r else r)"
| "race_step r ContextEnds = (if rc_loop r \<noteq> None \<and> rc_done r then context_done r else r)"
| "race_step r CloseRace = close_race r"
| "race_step r ParentEnds = parent_ends r"


subsection \<open>What a race leaves open\<close>

lemma length_change_at [simp]: "length (change_at ns f xs) = length xs"
  by (simp add: change_at_def)

lemma nth_change_at [simp]: "i < length xs \<Longrightarrow> change_at ns f xs ! i = (if i \<in> ns then f (xs ! i) else xs ! i)"
  by (simp add: change_at_def nth_enumerate_eq)

lemma length_filter_one_more:
  "distinct xs \<Longrightarrow> n \<in> set xs \<Longrightarrow> \<not> P n \<Longrightarrow> length (filter (\<lambda>m. m = n \<or> P m) xs) = Suc (length (filter P xs))"
proof (induction xs)
  case (Cons x xs)
  have "filter (\<lambda>m. m = n \<or> P m) xs = filter P xs" if "n \<notin> set xs" using that by (auto intro: filter_cong)
  with Cons show ?case by auto
qed simp

abbreviation candidate_at :: "race \<Rightarrow> nat \<Rightarrow> race_candidate" where
  "candidate_at r n \<equiv> rc_candidates r ! n"

definition reported_in :: "race \<Rightarrow> nat" where
  "reported_in r = length (filter (\<lambda>n. ca_reported (candidate_at r n)) (rc_race r))"

definition race_shape :: "race \<Rightarrow> bool" where
  "race_shape r \<longleftrightarrow>
     distinct (rc_race r) \<and> (\<forall>n \<in> set (rc_race r). n < length (rc_candidates r)) \<and>
     (\<forall>n < length (rc_candidates r). n \<notin> set (rc_race r) \<longrightarrow> ca_closed (candidate_at r n)) \<and>
     (rc_done r \<longrightarrow> (\<forall>n \<in> set (rc_race r). ca_cancelled (candidate_at r n))) \<and>
     (rc_closed r \<and> rc_cancel r \<longrightarrow> rc_done r)"

definition loop_core :: "race \<Rightarrow> race_loop \<Rightarrow> bool" where
  "loop_core r l \<longleftrightarrow>
     rc_winner r = None \<and> rc_cancel r \<and> length (rc_race r) = (if lo_started_second l then 2 else 1) \<and>
     lo_completed l = reported_in r \<and>
     (\<forall>n \<in> set (rc_race r). ca_closed (candidate_at r n) = ca_reported (candidate_at r n) \<and>
        (ca_cancelled (candidate_at r n) \<longrightarrow> ca_reported (candidate_at r n) \<or> rc_closed r \<or> rc_parent_done r)) \<and>
     (rc_done r \<longrightarrow> rc_closed r \<or> rc_parent_done r)"

definition loop_ok :: "race \<Rightarrow> race_loop \<Rightarrow> bool" where
  "loop_ok r l \<longleftrightarrow> loop_core r l \<and> lo_completed l < (if lo_started_second l then 2 else 1)"

definition settled_ok :: "race \<Rightarrow> bool" where
  "settled_ok r \<longleftrightarrow>
     (\<forall>n \<in> set (rc_race r). rc_winner r \<noteq> Some n \<longrightarrow>
        ca_closed (candidate_at r n) \<or> rc_closed r \<and> ca_cancelled (candidate_at r n)) \<and>
     (\<forall>w. rc_winner r = Some w \<longrightarrow>
        w \<in> set (rc_race r) \<and> rc_cancel r \<and> (ca_closed (candidate_at r w) \<longleftrightarrow> rc_closed r) \<and>
        (ca_cancelled (candidate_at r w) \<longrightarrow> rc_closed r \<or> rc_parent_done r)) \<and>
     (\<not> rc_cancel r \<longrightarrow> (\<forall>n \<in> set (rc_race r). ca_closed (candidate_at r n)))"

definition race_inv :: "race \<Rightarrow> bool" where
  "race_inv r \<longleftrightarrow> race_shape r \<and> (case rc_loop r of None \<Rightarrow> settled_ok r | Some l \<Rightarrow> loop_ok r l)"

lemmas race_change_defs = cancel_and_close_def race_cancel_def start_candidate_def save_preference_def

lemma new_race_inv: "race_inv (new_race path pref)"
  by (simp add: race_inv_def new_race_def race_shape_def settled_ok_def)

lemma open_begin_inv:
  assumes "race_inv r"
  shows "race_inv (snd (open_begin now r))"
proof (cases "rc_closed r \<or> rc_winner r \<noteq> None \<or> rc_cancel r")
  case True
  then show ?thesis using assms by (simp add: open_begin_def)
next
  case False
  then have "rc_loop r = None" using assms by (auto simp: race_inv_def loop_ok_def loop_core_def split: option.splits)
  then have shape: "race_shape r" and closed: "\<forall>n < length (rc_candidates r). ca_closed (candidate_at r n)"
    using assms False by (auto simp: race_inv_def race_shape_def settled_ok_def)
  obtain a b where ab: "(if load_preference now r = Some TcpMux then (TcpMux, Quic) else (Quic, TcpMux)) = (a, b)" by fastforce
  show ?thesis
    using False closed
    by (simp add: open_begin_def ab race_inv_def race_shape_def loop_ok_def loop_core_def reported_in_def start_candidate_def nth_append)
qed

lemma start_second_core:
  assumes "race_shape r" and "loop_core r l"
  shows "race_shape (start_second l r)" and "loop_core (start_second l r) (l\<lparr>lo_started_second := True\<rparr>)"
    and "rc_loop (start_second l r) = Some (l\<lparr>lo_started_second := True\<rparr>)"
proof -
  have "filter (\<lambda>n. ca_reported ((rc_candidates r @ xs) ! n)) (rc_race r) = filter (\<lambda>n. ca_reported (candidate_at r n)) (rc_race r)" for xs
    using assms(1) by (auto simp: race_shape_def nth_append intro: filter_cong)
  then show "race_shape (start_second l r)" "loop_core (start_second l r) (l\<lparr>lo_started_second := True\<rparr>)"
    using assms by (auto simp: start_second_def start_candidate_def race_shape_def loop_core_def reported_in_def nth_append)
  show "rc_loop (start_second l r) = Some (l\<lparr>lo_started_second := True\<rparr>)"
    by (simp add: start_second_def start_candidate_def)
qed

lemma start_second_inv:
  assumes "race_shape r" and "loop_core r l" and "lo_completed l < 2"
  shows "race_inv (start_second l r)"
  using start_second_core [OF assms(1,2)] assms(3) by (simp add: race_inv_def loop_ok_def)

text \<open>When both candidates have failed, both have been closed.\<close>

lemma open_failed_inv:
  assumes "race_shape r" and "loop_core r l" and "lo_started_second l" and "2 \<le> lo_completed l"
  shows "race_inv (open_failed r)"
proof -
  have "length (filter (\<lambda>n. ca_reported (candidate_at r n)) (rc_race r)) = length (rc_race r)"
    using assms(2-4) length_filter_le [of "\<lambda>n. ca_reported (candidate_at r n)" "rc_race r"]
    by (simp add: loop_core_def reported_in_def)
  then have "\<forall>n \<in> set (rc_race r). ca_reported (candidate_at r n)"
    by (metis filter_id_conv length_filter_less nat_less_le)
  then show ?thesis
    using assms(1,2) by (auto simp: open_failed_def race_cancel_def race_inv_def race_shape_def loop_core_def settled_ok_def)
qed

lemma failed_candidate_core:
  assumes shape: "race_shape r" and core: "loop_core r l" and n: "n \<in> set (rc_race r)" "\<not> ca_reported (candidate_at r n)"
  defines "r' \<equiv> cancel_and_close {n} (on_candidates {n} (\<lambda>c. c\<lparr>ca_reported := True\<rparr>) r)"
  shows "race_shape r' \<and> loop_core r' (l\<lparr>lo_completed := lo_completed l + 1\<rparr>)"
proof -
  have d: "distinct (rc_race r)" and b: "\<And>m. m \<in> set (rc_race r) \<Longrightarrow> m < length (rc_candidates r)"
    using shape by (auto simp: race_shape_def)
  have "ca_reported (candidate_at r' m) \<longleftrightarrow> m = n \<or> ca_reported (candidate_at r m)" if "m \<in> set (rc_race r)" for m
    using b [OF that] by (simp add: r'_def cancel_and_close_def)
  then have "filter (\<lambda>m. ca_reported (candidate_at r' m)) (rc_race r) = filter (\<lambda>m. m = n \<or> ca_reported (candidate_at r m)) (rc_race r)"
    by (auto intro: filter_cong)
  then have "reported_in r' = Suc (reported_in r)"
    using length_filter_one_more [OF d n(1), of "\<lambda>m. ca_reported (candidate_at r m)"] n(2)
    by (simp add: reported_in_def r'_def cancel_and_close_def)
  then show ?thesis
    using shape core by (auto simp: r'_def cancel_and_close_def race_shape_def loop_core_def)
qed

lemma candidate_result_inv:
  assumes "race_shape r" and "loop_ok r l" and n: "n \<in> set (rc_race r)" "\<not> ca_reported (candidate_at r n)"
  shows "race_inv (candidate_result n ok now written l r)"
proof (cases ok)
  case True
  have "n < length (rc_candidates r)" using assms(1) n(1) by (simp add: race_shape_def)
  then show ?thesis
    using True assms
    by (auto simp: candidate_result_def Let_def race_change_defs race_inv_def race_shape_def loop_ok_def loop_core_def settled_ok_def)
next
  case False
  let ?r = "cancel_and_close {n} (on_candidates {n} (\<lambda>c. c\<lparr>ca_reported := True\<rparr>) r)" and ?l = "l\<lparr>lo_completed := lo_completed l + 1\<rparr>"
  have core: "race_shape ?r" "loop_core ?r ?l"
    using failed_candidate_core [OF assms(1) _ n, of l] assms(2) by (simp_all add: loop_ok_def)
  note second = start_second_core [OF core]
  show ?thesis
    using False start_second_inv [OF core] open_failed_inv [OF second(1,2)] assms(2)
    by (simp add: candidate_result_def Let_def loop_ok_def)
qed

lemma context_done_inv:
  assumes "race_shape r" and "loop_ok r l" and "rc_done r"
  shows "race_inv (context_done r)"
  using assms by (auto simp: context_done_def race_change_defs race_inv_def race_shape_def loop_ok_def loop_core_def settled_ok_def)

lemma reported_in_cong:
  assumes "race_shape r" and "rc_race r' = rc_race r"
    and "\<And>n. n < length (rc_candidates r) \<Longrightarrow> ca_reported (candidate_at r' n) = ca_reported (candidate_at r n)"
  shows "reported_in r' = reported_in r"
proof -
  have "filter (\<lambda>n. ca_reported (candidate_at r' n)) (rc_race r) = filter (\<lambda>n. ca_reported (candidate_at r n)) (rc_race r)"
    using assms(1,3) by (auto simp: race_shape_def intro: filter_cong)
  then show ?thesis by (simp add: reported_in_def assms(2))
qed

text \<open>
  Closing in two parts: the flag is set together with the cancellation, then the winner is closed.
\<close>

lemma close_race_inv:
  assumes "race_inv r"
  shows "race_inv (close_race r)"
proof (cases "rc_closed r")
  case True
  then show ?thesis using assms by (simp add: close_race_def)
next
  case open_: False
  have shape: "race_shape r" using assms by (simp add: race_inv_def)
  show ?thesis
  proof (cases "rc_loop r")
    case None
    then have "settled_ok r" using assms by (simp add: race_inv_def)
    with None open_ shape show ?thesis
      by (cases "rc_winner r"; cases "rc_cancel r") (simp_all add: close_race_def race_cancel_def race_inv_def race_shape_def settled_ok_def)
  next
    case (Some l)
    then have ok: "loop_ok r l" using assms by (simp add: race_inv_def)
    then have e: "close_race r = race_cancel (r\<lparr>rc_closed := True\<rparr>)" using open_ by (simp add: close_race_def race_cancel_def Let_def loop_ok_def loop_core_def)
    have "reported_in (close_race r) = reported_in r"
      by (rule reported_in_cong [OF shape]) (simp_all add: e race_cancel_def)
    with ok Some shape show ?thesis
      by (simp add: e race_cancel_def race_inv_def race_shape_def loop_ok_def loop_core_def)
  qed
qed

lemma parent_ends_inv:
  assumes "race_inv r"
  shows "race_inv (parent_ends r)"
proof -
  have shape: "race_shape r" using assms by (simp add: race_inv_def)
  have "reported_in (parent_ends r) = reported_in r"
    by (rule reported_in_cong [OF shape]) (simp_all add: parent_ends_def)
  then show ?thesis
    using assms by (auto simp: parent_ends_def race_inv_def race_shape_def loop_ok_def loop_core_def settled_ok_def split: option.splits)
qed

interpretation race_machine: traced_machine race_step "\<lambda>_ _. [] :: unit list" "\<lambda>r _. race_inv r"
proof
  fix r :: race and T :: "unit list" and x
  assume inv: "race_inv r"
  show "race_inv (race_step r x)"
  proof (cases x)
    case TimerFires
    have "lo_completed l < 2" if "loop_ok r l" for l using that by (simp add: loop_ok_def split: if_splits)
    then show ?thesis
      using TimerFires inv start_second_inv [of r] by (simp add: race_inv_def [of r] loop_ok_def split: option.splits)
  next
    case (Opened n ok now written)
    then show ?thesis using inv candidate_result_inv [of r _ n ok now written] by (auto simp: race_inv_def [of r] split: option.splits)
  next
    case ContextEnds
    then show ?thesis using inv context_done_inv [of r] by (auto simp: race_inv_def [of r] split: option.splits)
  qed (use inv in \<open>simp_all add: open_begin_inv close_race_inv parent_ends_inv\<close>)
qed

lemma outstanding_candidate:
  assumes "race_shape r" and "loop_ok r l"
  shows "\<exists>n \<in> set (rc_race r). \<not> ca_reported (candidate_at r n)"
proof (rule ccontr)
  assume "\<not> ?thesis"
  then have "reported_in r = length (rc_race r)" by (simp add: reported_in_def)
  then show False using assms(2) by (auto simp: loop_ok_def loop_core_def split: if_splits)
qed

text \<open>
  A race leaves at most one connection open.  Over any interleaving of openings, timers,
  results, closings and ends of contexts, once \<open>Open\<close> has returned every candidate but the winner
  has been closed, or the connector was closed and the context of the candidate is cancelled.
  The winner is closed exactly when the connector is, and until then, or until the surrounding
  context ends, its own context is not cancelled.  While \<open>Open\<close> has not returned it has at most two
  candidates and waits for one that has not reported, so that it never waits for nothing.
\<close>

theorem race_leaves_one_connection:
  assumes "r = run race_step (new_race path pref) ops"
  shows "(rc_loop r = None \<longrightarrow> (\<forall>n < length (rc_candidates r). rc_winner r \<noteq> Some n \<longrightarrow>
      ca_closed (rc_candidates r ! n) \<or> rc_closed r \<and> ca_cancelled (rc_candidates r ! n))) \<and>
    (\<forall>w. rc_winner r = Some w \<longrightarrow>
      w < length (rc_candidates r) \<and> (ca_closed (rc_candidates r ! w) \<longleftrightarrow> rc_closed r) \<and>
      (ca_cancelled (rc_candidates r ! w) \<longrightarrow> rc_closed r \<or> rc_parent_done r)) \<and>
    (rc_loop r \<noteq> None \<longrightarrow> length (rc_race r) \<le> 2 \<and> (\<exists>m \<in> set (rc_race r). \<not> ca_reported (rc_candidates r ! m)))"
proof -
  have inv: "race_inv r" using race_machine.run_inv [OF new_race_inv] by (simp add: assms)
  then have shape: "race_shape r" by (simp add: race_inv_def)
  show ?thesis
  proof (cases "rc_loop r")
    case None
    then have "settled_ok r" using inv by (simp add: race_inv_def)
    with None shape show ?thesis unfolding settled_ok_def race_shape_def by blast
  next
    case (Some l)
    then have l: "loop_ok r l" using inv by (simp add: race_inv_def)
    then have "length (rc_race r) \<le> 2" "rc_winner r = None" by (simp_all add: loop_ok_def loop_core_def)
    with Some outstanding_candidate [OF shape l] show ?thesis by simp
  qed
qed

text \<open>The timer starts the second transport, the first one fails and the second one opens.\<close>

definition sample_race :: "race_op list" where
  "sample_race = [OpenRace 0, TimerFires, Opened 0 False 1 True, Opened 1 True 2 True]"

theorem race_leaves_one_connection_witness:
  "ca_closed (rc_candidates (run race_step (new_race ''p'' None) sample_race) ! 0) \<and>
   rc_winner (run race_step (new_race ''p'' None) sample_race) = Some 1 \<and>
   \<not> ca_closed (rc_candidates (run race_step (new_race ''p'' None) sample_race) ! 1) \<and>
   (\<exists>m \<in> set (rc_race (run race_step (new_race ''p'' None) (take 3 sample_race))).
     \<not> ca_reported (rc_candidates (run race_step (new_race ''p'' None) (take 3 sample_race)) ! m))"
proof -
  let ?r = "run race_step (new_race ''p'' None) sample_race" and ?s = "run race_step (new_race ''p'' None) (take 3 sample_race)"
  have r: "rc_loop ?r = None" "0 < length (rc_candidates ?r)" "rc_winner ?r = Some 1" "\<not> rc_closed ?r" by code_simp+
  have s: "rc_loop ?s \<noteq> None" by code_simp
  show ?thesis
    using race_leaves_one_connection [OF refl, of "''p''" None sample_race]
      race_leaves_one_connection [OF refl, of "''p''" None "take 3 sample_race"] r s by auto
qed

text \<open>
  The preference for the winner is what the next opening reads, for half an hour.
\<close>

lemma preference_roundtrip:
  "rc_path r \<noteq> [] \<Longrightarrow>
   load_preference now (save_preference t before True r) = (if now < before + preference_lifetime then Some t else None)"
  by (simp add: load_preference_def save_preference_def)

text \<open>
  When the connector is closed while both transports are being dialled and one of them then
  reports success, \<open>Open\<close> closes that one and returns.  The other candidate is never closed, even
  if its connection had opened as well and its result waits in the channel.
\<close>

lemma closed_race_leaves_candidate:
  "let r = run race_step (new_race ''p'' None) [OpenRace 0, TimerFires, CloseRace, Opened 0 True 1 True, Opened 1 True 1 True] in
     rc_loop r = None \<and> ca_closed (rc_candidates r ! 0) \<and> \<not> ca_closed (rc_candidates r ! 1)"
  by code_simp

end
