(* ===== verification/Connector_Supervisor.thy ===== *)
theory Connector_Supervisor
  imports Connector_Race Complex_Main
begin

section \<open>Keeping the connection up\<close>

text \<open>
  Model of \<open>src/internal/connector/supervisor.go\<close>: the loop that asks for an admission, has the
  manager accept it, waits until the connection is lost or the routes change, and backs off after
  failures.  The loop is a function of what its calls answer, one record for each round, and
  returns the calls it makes.  Durations are \<open>int64\<close> and doubling one wraps.  The jitter is
  computed in floating point and is not modelled: a wait is recorded by the delay that it is
  applied to.  Metrics and log lines are left out.
\<close>

record supervisor_config =
  sc_manager :: bool
  sc_admissions :: bool
  sc_initial :: int
  sc_max :: int
  sc_jitter :: rat

record supervisor =
  sv_config :: supervisor_config
  sv_running :: bool
  sv_wake :: bool
  sv_routes :: bool

text \<open>\<open>sc_manager\<close> and \<open>sc_admissions\<close> say that these fields are not nil.\<close>

definition supervisor_defaults :: "supervisor_config \<Rightarrow> supervisor_config" where
  "supervisor_defaults c =
     c\<lparr>sc_initial := (if sc_initial c = 0 then 1000000000 else sc_initial c),
       sc_max := (if sc_max c = 0 then 60 * 1000000000 else sc_max c),
       sc_jitter := (if sc_jitter c = 0 then 1 / 5 else sc_jitter c)\<rparr>"

definition new_supervisor :: "supervisor_config \<Rightarrow> supervisor option" where
  "new_supervisor config =
     (let c = supervisor_defaults config in
      if \<not> sc_manager c \<or> \<not> sc_admissions c \<or> sc_initial c \<le> 0 \<or> sc_max c < sc_initial c \<or> sc_jitter c < 0 \<or> sc_jitter c > 1 then None
      else Some \<lparr>sv_config = c, sv_running = False, sv_wake = False, sv_routes = False\<rparr>)"

text \<open>Starting, with whether the context of the call has ended; the error is a flag.\<close>

definition start_supervisor :: "bool \<Rightarrow> supervisor \<Rightarrow> bool \<times> supervisor" where
  "start_supervisor ended s = (if ended \<or> sv_running s then (False, s) else (True, s\<lparr>sv_running := True\<rparr>))"

definition network_changed :: "supervisor \<Rightarrow> supervisor" where
  "network_changed s = s\<lparr>sv_wake := True\<rparr>"

definition routes_changed :: "supervisor \<Rightarrow> supervisor" where
  "routes_changed s = s\<lparr>sv_routes := True\<rparr>"

subsection \<open>The loop\<close>

text \<open>
  How a round goes: the request for an admission fails, or the manager does not accept it, or
  the connection is made and its end is seen as no error, as a cancellation or as another error.
  \<open>ro_ended\<close> says that the context of the loop has ended at the head of the round, \<open>ro_ended_after\<close>
  that it has when the connection ends, and \<open>ro_waited\<close> that a wait ends without error.
\<close>

datatype wait_end = EndOk | EndCanceled | EndError

datatype round_answer = AdmissionFails | AcceptFails | Connects wait_end

record supervisor_round =
  ro_ended :: bool
  ro_answer :: round_answer
  ro_ended_after :: bool
  ro_waited :: bool

datatype supervisor_call = CallAdmission | CallAccept | CallWaitDisconnected | CallWait int

definition next_backoff :: "supervisor_config \<Rightarrow> int \<Rightarrow> int" where
  "next_backoff c b = (let d = i64_wrap (b * 2) in if d > sc_max c then sc_max c else d)"

fun supervisor_loop :: "supervisor_config \<Rightarrow> int \<Rightarrow> supervisor_round list \<Rightarrow> supervisor_call list" where
  "supervisor_loop c b [] = []"
| "supervisor_loop c b (r # rs) =
     (if ro_ended r then []
      else CallAdmission #
        (case ro_answer r of
           Connects e \<Rightarrow>
             [CallAccept, CallWaitDisconnected] @
             (if e = EndError \<and> \<not> ro_ended_after r \<comment> \<open>a cancellation goes on at once\<close>
              then CallWait (sc_initial c) # (if ro_waited r then supervisor_loop c (sc_initial c) rs else [])
              else supervisor_loop c (sc_initial c) rs)
         | a \<Rightarrow>
             (if a = AcceptFails then [CallAccept] else []) @
             CallWait b # (if ro_waited r then supervisor_loop c (next_backoff c b) rs else [])))"

subsection \<open>Backing off\<close>

definition usable_config :: "supervisor_config \<Rightarrow> bool" where
  "usable_config c \<longleftrightarrow> 0 < sc_initial c \<and> sc_initial c \<le> sc_max c \<and> sc_max c \<le> 2 ^ 62 - 1"

lemma new_supervisor_usable:
  "new_supervisor config = Some s \<Longrightarrow> sc_max config \<le> 2 ^ 62 - 1 \<Longrightarrow> usable_config (sv_config s)"
  by (auto simp: new_supervisor_def supervisor_defaults_def Let_def usable_config_def split: if_splits)

lemma next_backoff_eq:
  assumes "usable_config c" and "0 < b" and "b \<le> sc_max c"
  shows "next_backoff c b = min (sc_max c) (2 * b)"
proof -
  have "i64_wrap (b * 2) = b * 2" using assms by (simp add: i64_wrap_def usable_config_def)
  then show ?thesis by (simp add: next_backoff_def Let_def)
qed

definition backoff_after :: "supervisor_config \<Rightarrow> nat \<Rightarrow> int" where
  "backoff_after c k = min (sc_max c) (sc_initial c * 2 ^ k)"

lemma next_backoff_after:
  assumes "usable_config c"
  shows "next_backoff c (backoff_after c k) = backoff_after c (Suc k)"
proof -
  have "0 < sc_initial c * 2 ^ k" "0 < sc_max c" using assms by (simp_all add: usable_config_def)
  then have "0 < backoff_after c k" "backoff_after c k \<le> sc_max c" by (simp_all add: backoff_after_def)
  from next_backoff_eq [OF assms this] \<open>0 < sc_max c\<close> show ?thesis by (auto simp: backoff_after_def min_def)
qed

lemma backoff_after_zero: "usable_config c \<Longrightarrow> backoff_after c 0 = sc_initial c"
  by (simp add: backoff_after_def usable_config_def)

text \<open>The delays of consecutive failures, which is what the loop is meant to wait.\<close>

fun failing :: "supervisor_round \<Rightarrow> bool" where
  "failing r \<longleftrightarrow> \<not> ro_ended r \<and> ro_waited r \<and> (ro_answer r = AdmissionFails \<or> ro_answer r = AcceptFails)"

fun waits :: "supervisor_call list \<Rightarrow> int list" where
  "waits [] = []"
| "waits (CallWait d # xs) = d # waits xs"
| "waits (_ # xs) = waits xs"

lemma failures_back_off:
  assumes "usable_config c" and "list_all failing rs"
  shows "waits (supervisor_loop c (backoff_after c k) rs) = map (backoff_after c) [k..<k + length rs]"
  using assms(2)
proof (induction rs arbitrary: k)
  case (Cons r rs)
  then have "ro_answer r = AdmissionFails \<or> ro_answer r = AcceptFails" "\<not> ro_ended r" "ro_waited r" by auto
  moreover have "[k..<k + length (r # rs)] = k # [Suc k..<Suc k + length rs]" by (simp add: upt_conv_Cons del: upt_Suc)
  ultimately show ?case
    using Cons.IH [of "Suc k"] Cons.prems by (auto simp: next_backoff_after [OF assms(1)] simp del: upt_Suc)
qed simp

lemma all_waits_bounded:
  assumes "usable_config c" and "sc_initial c \<le> b" and "b \<le> sc_max c" and "d \<in> set (waits (supervisor_loop c b rs))"
  shows "sc_initial c \<le> d \<and> d \<le> sc_max c"
  using assms(2-4)
proof (induction rs arbitrary: b)
  case (Cons r rs)
  have n: "sc_initial c \<le> next_backoff c b" "next_backoff c b \<le> sc_max c" 
    using Cons.prems assms(1) next_backoff_eq [OF assms(1), of b] by (auto simp: usable_config_def)
  have i: "sc_initial c \<le> sc_max c" using assms(1) by (simp add: usable_config_def)
  show ?case
    using Cons.prems Cons.IH [OF n] Cons.IH [OF order_refl i] i by (cases "ro_answer r") (auto split: if_splits)
qed simp

end
