(* ===== verification/Hosted_Lifecycle.thy ===== *)
theory Hosted_Lifecycle
  imports Go_Path
begin

section \<open>Starting a hosted workspace\<close>

text \<open>
  Model of \<open>src/internal/hosted/lifecycle.go\<close>: the stages of a start, from the identity of the
  volume and the checkout of the repository to the scripts of the user, and the flush before a
  stop.  The file system, \<open>git\<close> and the scripts answer; the model records the commands that are
  run, in order.  Parsing a URL is a parameter.
\<close>

subsection \<open>Configuration\<close>

record hosted_script =
  hs_name :: string
  hs_body :: string

record repository_url =
  ru_scheme :: string
  ru_user :: bool
  ru_query :: string
  ru_fragment :: string
  ru_host :: string

record hosted_config =
  hc_volume :: string
  hc_checkout :: string
  hc_project :: string
  hc_repository :: string
  hc_branch :: string
  hc_hosts :: "string list"
  hc_git :: string
  hc_shell :: string
  hc_presets :: "hosted_script list"
  hc_setup :: string
  hc_timeout :: int
  hc_flush_timeout :: int
  hc_max_script :: int
  hc_max_output :: int

datatype hosted_error = ErrInvalid | ErrIdentity | ErrRepository | ErrOutputLimit | ErrNotStarted | ErrDeadline | ErrOther

definition ascii_alnum :: "char \<Rightarrow> bool" where
  "ascii_alnum c \<longleftrightarrow> lower_alnum c \<or> upper_letter c"

definition project_identifier :: "string \<Rightarrow> bool" where
  "project_identifier v \<longleftrightarrow>
     v \<noteq> [] \<and> ascii_alnum (hd v) \<and> int (length v) \<le> 128 \<and> list_all (\<lambda>c. ascii_alnum c \<or> c \<in> set ''_-'') (tl v)"

definition safe_branch :: "string \<Rightarrow> bool" where
  "safe_branch v \<longleftrightarrow>
     v \<noteq> [] \<and> ascii_alnum (hd v) \<and> int (length v) \<le> 200 \<and> list_all (\<lambda>c. ascii_alnum c \<or> c \<in> set ''._/-'') (tl v) \<and>
     \<not> contains_text v ''..'' \<and> \<not> contains_text v [CHR ''@'', CHR ''{''] \<and> \<not> contains_text v ''//'' \<and> \<not> has_suffix v ''/'' \<and> \<not> has_suffix v ''.'' \<and> \<not> has_suffix v ''.lock''"

definition path_within :: "string \<Rightarrow> string \<Rightarrow> bool" where
  "path_within root child =
     (let rel = relative_parts (path_parts (path_clean root)) (path_parts (path_clean child)) in rel \<noteq> [] \<and> take 1 rel \<noteq> [''..''])"

definition script_name_ok :: "string \<Rightarrow> bool" where
  "script_name_ok v \<longleftrightarrow>
     v \<noteq> [] \<and> int (length v) \<le> 64 \<and>
     lower_alnum (hd v) \<and>
     list_all (\<lambda>c. lower_alnum c \<or> c \<in> set ''._-'') (tl v)"

definition lower_case :: "string \<Rightarrow> string" where
  "lower_case s = map (\<lambda>c. if upper_letter c then char_of (of_char c + 32 :: nat) else c) s"

text \<open>Host names that contain letters outside ASCII are compared as they are; \<open>ToLower\<close> would change them.\<close>

definition validate_hosted :: "(string \<Rightarrow> repository_url option) \<Rightarrow> hosted_config \<Rightarrow> hosted_error option" where
  "validate_hosted parse c =
     (if \<not> is_abs (hc_volume c) \<or> \<not> is_abs (hc_checkout c) \<or> hc_checkout c = hc_volume c \<or> \<not> path_within (hc_volume c) (hc_checkout c) \<or>
         \<not> project_identifier (hc_project c) \<or> \<not> safe_branch (hc_branch c) \<or> hc_timeout c \<le> 0 \<or> hc_flush_timeout c \<le> 0 \<or> hc_max_script c \<le> 0 \<or>
         hc_max_output c \<le> 0 \<or> \<not> is_abs (hc_git c) \<or> \<not> is_abs (hc_shell c) then Some ErrInvalid
      else case parse (hc_repository c) of
        None \<Rightarrow> Some ErrRepository
      | Some u \<Rightarrow>
          if ru_scheme u \<noteq> ''https'' \<or> ru_user u \<or> ru_query u \<noteq> [] \<or> ru_fragment u \<noteq> [] \<or> ru_host u = [] \<or> lower_case (ru_host u) \<notin> set (hc_hosts c)
          then Some ErrRepository
          else if \<not> list_all (script_name_ok \<circ> hs_name) (hc_presets c) \<or>
            int (length (hc_setup c)) + sum_list (map (int \<circ> length \<circ> hs_body) (hc_presets c)) > hc_max_script c then Some ErrInvalid
          else None)"

subsection \<open>The stages\<close>

datatype hosted_stage = StageWorkspace | StageCheckout | StageConfigRestore | StagePresets | StageSetup | StageReady | StageFlush

record hosted_snapshot =
  ss_stage :: hosted_stage
  ss_ready :: bool
  ss_code :: string

record workspace_identity =
  wk_project :: string
  wk_repository :: string

text \<open>
  The identity file: there is none, it is no private regular file of moderate size, or it is one
  and holds an identity, or something else, such as the first part of an identity.
\<close>

datatype identity_file = NoIdentity | UnsafeIdentity | IdentityFile "workspace_identity option"

record hosted_state =
  lc_snapshot :: hosted_snapshot
  lc_started :: bool
  lc_identity :: identity_file

datatype git_dir = NoGit | GitDirectory | GitOther

datatype hosted_command = GitClone string string | GitRemote | GitFetch string | RestoreConfig | RunScript string | FlushConfig

record start_env =
  sv_directories :: "hosted_error option"
  sv_read :: bool
  sv_create :: bool
  sv_write :: bool
  sv_project_dir :: bool
  sv_git :: git_dir
  sv_occupied :: bool
  sv_clone :: "hosted_error option"
  sv_checkout_dir :: bool
  sv_remote :: "hosted_error + string"
  sv_fetch :: "hosted_error option"
  sv_restore :: "hosted_error option option"
  sv_script :: "string \<Rightarrow> hosted_error option"

definition error_code :: "hosted_error \<Rightarrow> string" where
  "error_code e =
     (case e of ErrDeadline \<Rightarrow> ''timeout'' | ErrIdentity \<Rightarrow> ''workspace_identity_mismatch'' | ErrRepository \<Rightarrow> ''repository_rejected''
      | ErrOutputLimit \<Rightarrow> ''output_limit'' | _ \<Rightarrow> ''stage_failed'')"

definition wanted_identity :: "hosted_config \<Rightarrow> workspace_identity" where
  "wanted_identity c = \<lparr>wk_project = hc_project c, wk_repository = hc_repository c\<rparr>"

text \<open>The identity is created exclusively and then written: a failure in between leaves a file without an identity.\<close>

definition prepare_workspace :: "hosted_config \<Rightarrow> start_env \<Rightarrow> identity_file \<Rightarrow> hosted_error option \<times> identity_file" where
  "prepare_workspace c env f =
     (if sv_directories env \<noteq> None then (sv_directories env, f)
      else case f of
        UnsafeIdentity \<Rightarrow> (Some ErrIdentity, f)
      | IdentityFile content \<Rightarrow>
          if \<not> sv_read env then (Some ErrOther, f)
          else if content \<noteq> Some (wanted_identity c) then (Some ErrIdentity, f)
          else (if sv_project_dir env then None else Some ErrOther, f)
      | NoIdentity \<Rightarrow>
          if \<not> sv_create env then (Some ErrOther, f)
          else if \<not> sv_write env then (Some ErrOther, IdentityFile None)
          else (if sv_project_dir env then None else Some ErrOther, IdentityFile (Some (wanted_identity c))))"

definition checkout :: "hosted_config \<Rightarrow> start_env \<Rightarrow> hosted_error option \<times> hosted_command list" where
  "checkout c env =
     (case sv_git env of
        NoGit \<Rightarrow> if sv_occupied env then (Some ErrRepository, []) else (sv_clone env, [GitClone (hc_branch c) (hc_repository c)])
      | GitOther \<Rightarrow> (Some ErrRepository, [])
      | GitDirectory \<Rightarrow>
          if \<not> sv_checkout_dir env then (Some ErrRepository, [])
          else case sv_remote env of
            Inl e \<Rightarrow> (Some e, [GitRemote])
          | Inr url \<Rightarrow> if trim_space url \<noteq> hc_repository c then (Some ErrRepository, [GitRemote]) else (sv_fetch env, [GitRemote, GitFetch (hc_branch c)]))"

definition restore_config :: "start_env \<Rightarrow> hosted_error option \<times> hosted_command list" where
  "restore_config env = (case sv_restore env of None \<Rightarrow> (None, []) | Some answer \<Rightarrow> (answer, [RestoreConfig]))"

fun run_scripts :: "start_env \<Rightarrow> string list \<Rightarrow> hosted_error option \<times> hosted_command list" where
  "run_scripts env [] = (None, [])"
| "run_scripts env (b # bs) =
     (case sv_script env b of Some e \<Rightarrow> (Some e, [RunScript b]) | None \<Rightarrow> (case run_scripts env bs of (e, cs) \<Rightarrow> (e, RunScript b # cs)))"

definition apply_setup :: "hosted_config \<Rightarrow> start_env \<Rightarrow> hosted_error option \<times> hosted_command list" where
  "apply_setup c env = (if trim_space (hc_setup c) = [] then (None, []) else run_scripts env [hc_setup c])"

definition stopped_at :: "hosted_stage \<Rightarrow> hosted_error \<Rightarrow> hosted_state \<Rightarrow> hosted_state" where
  "stopped_at st e l = l\<lparr>lc_snapshot := \<lparr>ss_stage = st, ss_ready = False, ss_code = error_code e\<rparr>\<rparr>"

definition start_hosted :: "hosted_config \<Rightarrow> start_env \<Rightarrow> hosted_state \<Rightarrow> (hosted_error option \<times> hosted_state) \<times> hosted_command list" where
  "start_hosted c env l0 =
     (if lc_started l0 then ((None, l0), [])
      else case prepare_workspace c env (lc_identity l0) of (e1, f) \<Rightarrow>
        (let l = l0\<lparr>lc_identity := f\<rparr>
         in case e1 of
           Some e \<Rightarrow> ((Some e, stopped_at StageWorkspace e l), [])
         | None \<Rightarrow>
             (case checkout c env of
                (Some e, t1) \<Rightarrow> ((Some e, stopped_at StageCheckout e l), t1)
              | (None, t1) \<Rightarrow>
                  (case restore_config env of (restored, t2) \<Rightarrow>
                     (case run_scripts env (map hs_body (hc_presets c)) of
                        (Some e, t3) \<Rightarrow> ((Some e, stopped_at StagePresets e l), t1 @ t2 @ t3)
                      | (None, t3) \<Rightarrow>
                          (case apply_setup c env of
                             (Some e, t4) \<Rightarrow> ((Some e, stopped_at StageSetup e l), t1 @ t2 @ t3 @ t4)
                           | (None, t4) \<Rightarrow>
                               ((None, l\<lparr>lc_started := True, lc_snapshot := \<lparr>ss_stage = StageReady, ss_ready = True,
                                    ss_code = (case restored of None \<Rightarrow> [] | Some e \<Rightarrow> error_code e)\<rparr>\<rparr>), t1 @ t2 @ t3 @ t4)))))))"

text \<open>\<open>flush\<close> is the answer of the hook, \<open>None\<close> when there is no hook.\<close>

definition shutdown_hosted :: "hosted_error option option \<Rightarrow> hosted_state \<Rightarrow> hosted_error option \<times> hosted_state" where
  "shutdown_hosted flush l =
     (if \<not> lc_started l then (Some ErrNotStarted, l)
      else case flush of
        Some (Some e) \<Rightarrow> (Some e, stopped_at StageFlush e l)
      | _ \<Rightarrow> (None, l\<lparr>lc_started := False, lc_snapshot := \<lparr>ss_stage = StageFlush, ss_ready = False, ss_code = []\<rparr>\<rparr>))"

subsection \<open>What a start guarantees\<close>

definition scripts_of :: "hosted_config \<Rightarrow> string list" where
  "scripts_of c = map hs_body (hc_presets c) @ (if trim_space (hc_setup c) = [] then [] else [hc_setup c])"

fun is_script :: "hosted_command \<Rightarrow> bool" where
  "is_script (RunScript b) = True"
| "is_script _ = False"

lemma run_scripts_prefix:
  "run_scripts env bs = (e, cs) \<Longrightarrow> \<exists>n. cs = map RunScript (take n bs) \<and> (e = None \<longrightarrow> cs = map RunScript bs)"
proof (induction bs arbitrary: e cs)
  case (Cons b bs)
  show ?case
  proof (cases "sv_script env b")
    case None
    obtain e' cs' where r: "run_scripts env bs = (e', cs')" by (cases "run_scripts env bs")
    obtain n where n: "cs' = map RunScript (take n bs)" "e' = None \<longrightarrow> cs' = map RunScript bs" using Cons.IH [OF r] by blast
    show ?thesis using Cons.prems None r n by (intro exI [of _ "Suc n"]) auto
  next
    case (Some x)
    then show ?thesis using Cons.prems by (intro exI [of _ 1]) auto
  qed
qed simp

definition verified_checkout :: "hosted_config \<Rightarrow> start_env \<Rightarrow> hosted_command list \<Rightarrow> bool" where
  "verified_checkout c env cs \<longleftrightarrow>
     cs = [GitClone (hc_branch c) (hc_repository c)] \<and> sv_clone env = None \<or>
     cs = [GitRemote, GitFetch (hc_branch c)] \<and> sv_fetch env = None \<and> (\<exists>url. sv_remote env = Inr url \<and> trim_space url = hc_repository c)"

lemma checkout_verified: "checkout c env = (None, cs) \<Longrightarrow> verified_checkout c env cs"
  by (auto simp: checkout_def verified_checkout_def split: git_dir.splits if_splits sum.splits)

lemma checkout_no_scripts: "checkout c env = (e, cs) \<Longrightarrow> filter is_script cs = []"
  by (auto simp: checkout_def split: git_dir.splits if_splits sum.splits)

lemma restore_no_scripts: "filter is_script (snd (restore_config env)) = []"
  by (simp add: restore_config_def split: option.split)

lemma prepared_identity: "prepare_workspace c env f = (None, f') \<Longrightarrow> f' = IdentityFile (Some (wanted_identity c))"
  by (auto simp: prepare_workspace_def split: identity_file.splits if_splits)

lemma filter_scripts [simp]: "filter is_script (map RunScript bs) = map RunScript bs"
  by (induction bs) simp_all


definition sample_hosted :: hosted_config where
  "sample_hosted =
     \<lparr>hc_volume = ''/v'', hc_checkout = ''/v/c'', hc_project = ''p'', hc_repository = ''https://h/r'', hc_branch = ''main'', hc_hosts = [''h''], hc_git = ''/git'',
      hc_shell = ''/sh'', hc_presets = [\<lparr>hs_name = ''a'', hs_body = ''one''\<rparr>], hc_setup = ''two'', hc_timeout = 1, hc_flush_timeout = 1, hc_max_script = 100,
      hc_max_output = 100\<rparr>"

definition sample_start :: start_env where
  "sample_start =
     \<lparr>sv_directories = None, sv_read = True, sv_create = True, sv_write = True, sv_project_dir = True, sv_git = NoGit, sv_occupied = False, sv_clone = None,
      sv_checkout_dir = True, sv_remote = Inl ErrOther, sv_fetch = None, sv_restore = Some (Some ErrDeadline), sv_script = \<lambda>_. None\<rparr>"

definition new_lifecycle_state :: hosted_state where
  "new_lifecycle_state = \<lparr>lc_snapshot = \<lparr>ss_stage = StageWorkspace, ss_ready = False, ss_code = []\<rparr>, lc_started = False, lc_identity = NoIdentity\<rparr>"


text \<open>
  The identity is created before it is written.  A stop in between leaves a file without an
  identity, and every later start refuses the volume.
\<close>

lemma interrupted_identity_blocks_start:
  assumes "sv_directories env = None" "sv_create env" "\<not> sv_write env"
  shows "prepare_workspace c env NoIdentity = (Some ErrOther, IdentityFile None) \<and>
    (\<forall>env' l. lc_identity l = IdentityFile None \<longrightarrow> \<not> lc_started l \<longrightarrow>
       (\<exists>e l'. start_hosted c env' l = ((Some e, l'), []) \<and> lc_identity l' = IdentityFile None))"
  using assms by (auto simp: prepare_workspace_def start_hosted_def stopped_at_def Let_def)

text \<open>After a flush that failed the workspace is not ready, and starting it again reports success and changes nothing.\<close>

lemma failed_flush_starts_unready:
  assumes "lc_started l" "shutdown_hosted (Some (Some e)) l = (r, l')"
  shows "start_hosted c env l' = ((None, l'), []) \<and> \<not> ss_ready (lc_snapshot l')"
  using assms by (auto simp: shutdown_hosted_def start_hosted_def stopped_at_def)

end
