(* ===== verification/Spec2Isabelle.thy ===== *)
theory Spec2Isabelle
  imports Terminal_Delivery Operation_Journal Crash_Recovery Binary_Frames Native_Records Terminal_Frames Transfer_Safety Control_Frames Update_Safety Config_Publisher Commit_Search Preview_Registry Connector_Supervisor Hosted_Lifecycle
begin

text \<open>
  Verification of paperboat-helper, the program that runs beside a user's projects, keeps their
  terminal sessions, moves files, synchronises configuration, publishes previews and updates
  itself.  The sources are the Go packages under \<open>src/internal\<close>.  This theory imports all others
  and holds no definitions.

  \<^bold>\<open>How the parts fit.\<close>  A client reaches the helper over a tunnel that the connector keeps open.
  Its credential is verified, control frames and terminal frames are decoded, and the session
  manager serves them: it owns PTY processes, an in-memory history and a fan-out of output to
  attachments, a journal of input, and rows in a SQLite store from which a restart recovers.
  File transfers, the operation journal, configuration synchronisation, previews, the hosted
  lifecycle and the updater stand beside it and share the store, the credentials or nothing.

  \<^bold>\<open>Conventions.\<close>  A \<open>uint64\<close> is a natural number with \<open>u64_add\<close> and \<open>u64_sub\<close>, which wrap; fields on
  the wire are words; a string is the list of its bytes; a Go map is an association list; time is
  an integer of nanoseconds; an error is the left value of a sum or an option.  A section under a
  mutex is one step, and goroutines are the order of steps.  What the program does not decide,
  such as the answer of a system call, of the database, of \<open>git\<close> or of a server, is an argument:
  a record of answers or a fault such as \<open>Healthy\<close>, \<open>Failing\<close> or a lost reply.

  \<^bold>\<open>Shared theories.\<close>  \<open>Prelude\<close> has the arithmetic, the maps, runs of machines and three locales:
  \<open>traced_machine\<close> (an invariant over a run and what it emits), \<open>refinement\<close> (what a machine emits
  is accepted by an abstract automaton) and \<open>at_most_once\<close> (no effect happens twice).  \<open>Go_Path\<close> has
  the functions of \<open>strings\<close> and \<open>path\<close>, \<open>Sha256\<close> the digest, \<open>Wire_Format\<close> the streams and the
  locales \<open>message_codec\<close> and \<open>stream_codec\<close>, \<open>Json_Tokens\<close> the token stream of the JSON decoder.

  \<^bold>\<open>Terminal output and input.\<close>  \<open>Output_Event\<close>, \<open>Log_Contract\<close> and \<open>Output_History\<close> model
  \<open>history/history.go\<close> (\<open>Append\<close>, \<open>Replay\<close>, \<open>SetLimit\<close>, \<open>Clear\<close>): the history is a tail of the
  stream, drops only what it must and replays exactly; the locale \<open>output_log\<close> states the contract
  it shares with the durable log.  \<open>Output_Fanout\<close>, \<open>Fanout_Proofs\<close>, \<open>Terminal_Output\<close> and
  \<open>Terminal_Delivery\<close> model \<open>session/fanout.go\<close> and the output side of \<open>session/manager.go\<close>:
  together they refine an abstract broadcast of one byte stream.  \<open>Input_Journal\<close> models
  \<open>session/input.go\<close>: input is written at most once per key and its decision is final.
  \<open>Session_State\<close> models \<open>session/state.go\<close>, with the locale \<open>transition_table\<close>.

  \<^bold>\<open>Sessions over a store.\<close>  \<open>State_Store\<close>, \<open>Store_Output\<close>, \<open>Store_Journal\<close> and \<open>Store_Transfers\<close>
  model the tables and transactions of \<open>store/store.go\<close>.  \<open>Managed_Session\<close>, \<open>Output_Persistence\<close>,
  \<open>Session_Lifecycle\<close>, \<open>Session_Invariants\<close>, \<open>Durable_Sessions\<close> and \<open>Crash_Recovery\<close> model
  \<open>session/manager.go\<close>: every operation keeps the manager consistent, input reaches only the
  current process, the store mirrors the output, and after any crash and any faults a start whose
  own calls work succeeds and brings back every session.  \<open>Operation_Journal\<close> models
  \<open>operation/journal.go\<close>: no operation runs twice within its retention.

  \<^bold>\<open>Wire formats and credentials.\<close>  \<open>Binary_Frames\<close>, \<open>Native_Records\<close>, \<open>Terminal_Frames\<close> and
  \<open>Control_Frames\<close> model \<open>protocol/binary.go\<close>, \<open>nativeproto\<close>, \<open>protocol/terminal_v1.go\<close>,
  \<open>protocol/frame.go\<close>, \<open>negotiation.go\<close> and \<open>close.go\<close>: round trips, and what an accepted message
  satisfies.  \<open>Credential_Stores\<close> and \<open>Credentials\<close> model \<open>auth\<close>: an accepted credential is
  authentic, single use means once, and removed keys and revocations take effect.

  \<^bold>\<open>File transfers.\<close>  \<open>File_Transfer\<close> and \<open>Transfer_Safety\<close> model \<open>filetransfer/service.go\<close> over the
  store and a spool directory: the service refines a log of bytes per transfer, published files
  have the declared digest, the spool stays bounded and rows only move forward.

  \<^bold>\<open>Updates.\<close>  \<open>Update_Trust\<close>, \<open>Update_Manager\<close> and \<open>Update_Safety\<close> model \<open>update/trust.go\<close> and
  \<open>update/update.go\<close>: revocations are permanent, and whatever call an update or a start stops at,
  the installed program is one that was verified.  A small calculus of weakest preconditions
  carries these proofs.

  \<^bold>\<open>Configuration synchronisation.\<close>  \<open>Config_Plan\<close> (\<open>reconcile.go\<close>): a synchronisation converges and
  overwrites no edit.  \<open>Config_Manifest\<close> and \<open>Config_Snapshot\<close> (\<open>manifest.go\<close>, \<open>policy.go\<close>,
  \<open>snapshot.go\<close>): what is synchronised is confined and bounded.  \<open>Apply_Journal\<close> (\<open>apply_journal.go\<close>):
  an application happens in whole or not at all.  \<open>Config_Workspace\<close> and \<open>Config_Publication\<close>
  (\<open>workspace_reconciler.go\<close>, \<open>conflict_resolution.go\<close>, \<open>merge.go\<close>): no unsynchronised change is
  overwritten without a resolution of the user, and resolutions survive stops.  \<open>Config_Publisher\<close>
  (\<open>publisher.go\<close>, leases of \<open>control_client.go\<close>): a push is fenced by a lease.  \<open>Commit_Search\<close>
  (\<open>git_repository.go\<close>): the search for a landed commit is exact.

  \<^bold>\<open>Previews, connections and hosted workspaces.\<close>  \<open>Preview_Registry\<close> (\<open>preview/registry.go\<close>),
  \<open>Connector_Manager\<close> (\<open>connector/manager.go\<close>, \<open>admission_source.go\<close>, \<open>runid.go\<close>) and
  \<open>Hosted_Lifecycle\<close> (\<open>hosted/lifecycle.go\<close>) are state machines with invariants over all
  interleavings of their steps.  \<open>Connector_Race\<close> (\<open>connector/racing.go\<close>): a race of two transports
  leaves at most one connection open and never waits for nothing.  \<open>Connector_Supervisor\<close>
  (\<open>connector/supervisor.go\<close>): consecutive failures back off by doubling, within the bounds of the
  configuration.

  \<^bold>\<open>Where the code falls short.\<close>  Many theories end with lemmas about behaviour that the code does
  not intend: a restart of a session that never ran, a cancelled transfer that was published, a
  backup taken for a newer one, a configuration file that is skipped and then deleted, resolutions
  whose journal blocks every later synchronisation, an empty manifest that is never recorded, a
  preview name that stays taken, and others.  They are stated over the same definitions.

  \<^bold>\<open>Bounds.\<close>  Recursion is structural or has a termination proof.  The walk over JSON tokens has
  fuel \<open>2 * length + 2\<close>, more than the calls a token list can cause.  A recovery of the apply
  journal has a budget of disk changes; two for each path and one for the journal are enough, and
  the theorem says so.  The search for a commit has the limit of the code.  Statements about
  64-bit counters name the number of steps after which they could wrap.

  \<^bold>\<open>Parameters and hypotheses.\<close>  Signature checks, the JSON decoder on values, compression, glob and
  ignore patterns, URL and address parsing, and the merge of \<open>git\<close> are functions that the
  definitions take.  A theorem about compression assumes that decompressing gives back what was
  compressed.  Theorems about clocks assume one that does not run backwards.

  \<^bold>\<open>Not modelled.\<close>  The HTTP and WebSocket handlers (\<open>server\<close>), the wiring of the process
  (\<open>runtime\<close>, \<open>cmd\<close>), the tunnel client (\<open>connector/frp.go\<close>), the reverse proxy of previews,
  privileged installation and the host service, and process launching are mostly calls to the
  operating system and to third-party code.  The loop of the synchronisation engine, the reporter
  of previews, enrollment, key files, metrics and the validation of the configuration file do have
  logic of their own; they are left to later work.  The SQL engine is represented by transactions that happen, fail
  or lose their reply.  Within the modelled packages, log lines, diagnostics, metrics, directory
  creation and file permissions of temporary files are left out.
\<close>

end
